(* ===== verification/Prelude.thy ===== *)
theory Prelude
  imports Main "HOL-Library.Sublist" "HOL-Library.List_Lexorder" "HOL-Library.Char_ord"
begin

text \<open>
  What the components share: the collections of simplification rules the
  component proofs use, generic facts on lists, and the contract
  \<open>step_invariant\<close>: a machine whose every step keeps an invariant keeps it over
  a whole run of events.
\<close>

named_theorems qmap_simps "laws of the ordered map"
named_theorems frame_simps "fields an operation leaves unchanged"

section \<open>Lists\<close>

lemma sorted_wrt_less_distinct: "sorted_wrt (<) (xs :: 'a::linorder list) \<Longrightarrow> distinct xs"
  by (induction xs) auto

lemma filter_rev_commute: "filter P (rev xs) = rev (filter P xs)"
  by (simp add: rev_filter)

lemma take_drop_append: "take n xs @ take m (drop n xs) = take (n + m) xs"
  by (simp add: take_add)

text \<open>The pages \<open>0, \<dots>, k - 1\<close> of length \<open>n\<close> of a list are its prefix of length \<open>k * n\<close>.\<close>

lemma concat_pages: "concat (map (\<lambda>i. take n (drop (i * n) xs)) [0..<k]) = take (k * n) xs"
proof (induction k)
  case 0
  then show ?case by simp
next
  case (Suc k)
  then show ?case by (simp add: take_drop_append add.commute)
qed

section \<open>Invariants over runs\<close>

text \<open>A run of a deterministic machine over a list of events, oldest first.\<close>

fun run :: "('s \<Rightarrow> 'e \<Rightarrow> 's) \<Rightarrow> 's \<Rightarrow> 'e list \<Rightarrow> 's" where
  "run step s [] = s"
| "run step s (e # es) = run step (step s e) es"

lemma run_append: "run step s (es @ fs) = run step (run step s es) fs"
  by (induction es arbitrary: s) auto

text \<open>
  The contract of a machine with an invariant: the initial states satisfy it and
  every step from a state that satisfies it ends in one that does.
\<close>

locale step_invariant =
  fixes step :: "'s \<Rightarrow> 'e \<Rightarrow> 's"
    and inv :: "'s \<Rightarrow> bool"
  assumes step_inv: "inv s \<Longrightarrow> inv (step s e)"
begin

lemma run_inv: "inv s \<Longrightarrow> inv (run step s es)"
  by (induction es arbitrary: s) (auto intro: step_inv)

lemma run_prefix_inv: "inv s \<Longrightarrow> inv (run step s (take n es))"
  by (rule run_inv)

end

end
