(* ===== verification/QtCore.thy ===== *)
theory QtCore
  imports Prelude
begin

text \<open>
  What the sources use of Qt's value classes, by their documented behaviour:
  \<open>QString\<close> (null and empty strings, search, splitting, numbers), \<open>QMap\<close> (a map
  kept in key order), \<open>QVariant\<close> (the conversions) and \<open>QSettings\<close> (groups of
  keys). Strings are lists of code units in the first 256 code points, so case
  folding is ASCII case folding. The section \<open>Interfaces\<close> states the laws
  of a keyed container once, as a locale, and interprets it for \<open>QMap\<close>.
\<close>

section \<open>QString\<close>

text \<open>A string where the code distinguishes the null string (\<open>isNull\<close>) from the empty one.\<close>

type_synonym qstring = "string option"

definition qs_str :: "qstring \<Rightarrow> string" where
  "qs_str q = (case q of None \<Rightarrow> [] | Some s \<Rightarrow> s)"

abbreviation qs_isNull :: "qstring \<Rightarrow> bool" where
  "qs_isNull q \<equiv> q = None"

text \<open>\<open>operator==\<close> compares contents: the null string equals the empty one.\<close>

definition qs_eq :: "qstring \<Rightarrow> qstring \<Rightarrow> bool" where
  "qs_eq a b \<longleftrightarrow> qs_str a = qs_str b"

lemma qs_str_simps [simp]: "qs_str None = []" "qs_str (Some s) = s"
  by (simp_all add: qs_str_def)

definition startsWith :: "string \<Rightarrow> string \<Rightarrow> bool" where
  "startsWith s p \<longleftrightarrow> prefix p s"

definition endsWith :: "string \<Rightarrow> string \<Rightarrow> bool" where
  "endsWith s p \<longleftrightarrow> suffix p s"

fun indexOf_from :: "nat \<Rightarrow> string \<Rightarrow> string \<Rightarrow> nat option" where
  "indexOf_from i p [] = (if p = [] then Some i else None)"
| "indexOf_from i p (c # s) =
     (if prefix p (c # s) then Some i else indexOf_from (Suc i) p s)"

text \<open>\<open>indexOf\<close>: \<open>None\<close> stands for \<open>-1\<close>.\<close>

definition indexOf :: "string \<Rightarrow> string \<Rightarrow> nat option" where
  "indexOf s p = indexOf_from 0 p s"

definition contains :: "string \<Rightarrow> string \<Rightarrow> bool" where
  "contains s p \<longleftrightarrow> indexOf s p \<noteq> None"

lemma indexOf_from_iff: "indexOf_from i p s \<noteq> None \<longleftrightarrow> sublist p s"
proof (induction s arbitrary: i)
  case Nil
  then show ?case by simp
next
  case (Cons c s)
  then show ?case by (auto simp: sublist_Cons_right)
qed

lemma contains_iff_sublist: "contains s p \<longleftrightarrow> sublist p s"
  using indexOf_from_iff by (simp add: contains_def indexOf_def)

lemma indexOf_from_Some:
  "indexOf_from i p s = Some k \<Longrightarrow> i \<le> k \<and> k \<le> i + length s \<and> prefix p (drop (k - i) s)"
proof (induction s arbitrary: i)
  case Nil
  then show ?case by (simp split: if_splits)
next
  case (Cons c s)
  show ?case
  proof (cases "prefix p (c # s)")
    case True
    with Cons.prems show ?thesis by auto
  next
    case False
    with Cons.prems have "indexOf_from (Suc i) p s = Some k" by simp
    from Cons.IH [OF this] have "Suc i \<le> k" "k \<le> Suc i + length s" "prefix p (drop (k - Suc i) s)"
      by auto
    moreover from \<open>Suc i \<le> k\<close> have "k - i = Suc (k - Suc i)" by simp
    ultimately show ?thesis by simp
  qed
qed

definition right :: "nat \<Rightarrow> string \<Rightarrow> string" where
  "right n s = drop (length s - n) s"

definition mid :: "nat \<Rightarrow> string \<Rightarrow> string" where
  "mid n s = drop n s"

text \<open>\<open>split\<close> with a non-empty separator; empty parts are kept.\<close>

function split_acc :: "string \<Rightarrow> string \<Rightarrow> string \<Rightarrow> string list" where
  "split_acc sep acc [] = [rev acc]"
| "split_acc sep acc (c # s) =
     (if sep \<noteq> [] \<and> prefix sep (c # s)
      then rev acc # split_acc sep [] (drop (length sep) (c # s))
      else split_acc sep (c # acc) s)"
  by pat_completeness auto
termination
  by (relation "measure (\<lambda>(sep, acc, s). length s)") auto

definition split :: "string \<Rightarrow> string \<Rightarrow> string list" where
  "split s sep = split_acc sep [] s"

lemma split_acc_nonempty: "split_acc sep acc s \<noteq> []"
  by (induction sep acc s rule: split_acc.induct) auto

lemma split_nonempty [simp]: "split s sep \<noteq> []"
  by (simp add: split_def split_acc_nonempty)

text \<open>\<open>QStringList::join\<close>.\<close>

fun join :: "string \<Rightarrow> string list \<Rightarrow> string" where
  "join sep [] = []"
| "join sep [x] = x"
| "join sep (x # y # xs) = x @ sep @ join sep (y # xs)"

lemma join_Cons: "xs \<noteq> [] \<Longrightarrow> join sep (x # xs) = x @ sep @ join sep xs"
  by (cases xs) auto

text \<open>Splitting and joining with the same separator gives the string back.\<close>

lemma join_split_acc: "join sep (split_acc sep acc s) = rev acc @ s"
proof (induction sep acc s rule: split_acc.induct)
  case (1 sep acc)
  then show ?case by simp
next
  case (2 sep acc c s)
  show ?case
  proof (cases "sep \<noteq> [] \<and> prefix sep (c # s)")
    case True
    then have "sep @ drop (length sep) (c # s) = c # s"
      by (auto simp: prefix_def)
    with True "2.IH"(1) [OF True] show ?thesis
      by (simp add: join_Cons split_acc_nonempty del: drop_Cons')
  next
    case False
    with "2.IH"(2) [OF False] show ?thesis by auto
  qed
qed

lemma join_split: "join sep (split s sep) = s"
  by (simp add: split_def join_split_acc)

text \<open>A part that does not contain the one-character separator is split off whole.\<close>

lemma split_acc_fresh:
  "c \<notin> set x \<Longrightarrow> split_acc [c] acc (x @ c # s) = (rev acc @ x) # split_acc [c] [] s"
  by (induction x arbitrary: acc) auto

lemma split_acc_last: "c \<notin> set x \<Longrightarrow> split_acc [c] acc x = [rev acc @ x]"
  by (induction x arbitrary: acc) auto

lemma split_join:
  "xs \<noteq> [] \<Longrightarrow> \<forall>x \<in> set xs. c \<notin> set x \<Longrightarrow> split (join [c] xs) [c] = xs"
proof (induction "[c]" xs rule: join.induct)
  case 1
  then show ?case by simp
next
  case (2 x)
  then show ?case by (simp add: split_def split_acc_last)
next
  case (3 x y xs)
  then have "split (join [c] (y # xs)) [c] = y # xs" by simp
  with 3 show ?case by (simp add: split_def split_acc_fresh)
qed

section \<open>Numbers\<close>

definition digit_char :: "nat \<Rightarrow> char" where
  "digit_char d = char_of (48 + d)"

text \<open>\<open>QString::number\<close> and \<open>%d\<close>.\<close>

fun show_nat :: "nat \<Rightarrow> string" where
  "show_nat n = (if n < 10 then [digit_char n] else show_nat (n div 10) @ [digit_char (n mod 10)])"

declare show_nat.simps [simp del]

definition show_int :: "int \<Rightarrow> string" where
  "show_int i = (if i < 0 then CHR ''-'' # show_nat (nat (- i)) else show_nat (nat i))"

text \<open>The digit a character stands for, upper and lower case letters alike.\<close>

definition digit_val :: "char \<Rightarrow> nat option" where
  "digit_val c = (let n = of_char c :: nat in
     if 48 \<le> n \<and> n \<le> 57 then Some (n - 48)
     else if 97 \<le> n \<and> n \<le> 122 then Some (n - 87)
     else if 65 \<le> n \<and> n \<le> 90 then Some (n - 55)
     else None)"

fun parse_digits :: "nat \<Rightarrow> nat \<Rightarrow> string \<Rightarrow> nat option" where
  "parse_digits b acc [] = Some acc"
| "parse_digits b acc (c # s) =
     (case digit_val c of
        None \<Rightarrow> None
      | Some d \<Rightarrow> if d < b then parse_digits b (b * acc + d) s else None)"

definition parse_nat :: "nat \<Rightarrow> string \<Rightarrow> nat option" where
  "parse_nat b s = (if s = [] then None else parse_digits b 0 s)"

definition is_space :: "char \<Rightarrow> bool" where
  "is_space c \<longleftrightarrow> (let n = of_char c :: nat in n = 32 \<or> (9 \<le> n \<and> n \<le> 13))"

definition trimmed :: "string \<Rightarrow> string" where
  "trimmed s = rev (dropWhile is_space (rev (dropWhile is_space s)))"

text \<open>
  \<open>QString::toInt\<close>: surrounding white space, a sign and, in base 16, a \<open>0x\<close> are accepted;
  anything else, and a value outside 32 bits, gives 0.
\<close>

definition int32_ok :: "int \<Rightarrow> bool" where
  "int32_ok i \<longleftrightarrow> - 2147483648 \<le> i \<and> i \<le> 2147483647"

definition strip_hex :: "nat \<Rightarrow> string \<Rightarrow> string" where
  "strip_hex b s = (if b = 16 \<and> (prefix ''0x'' s \<or> prefix ''0X'' s) then drop 2 s else s)"

definition toInt_base :: "nat \<Rightarrow> string \<Rightarrow> int" where
  "toInt_base b s =
     (let t = trimmed s;
          neg = (take 1 t = ''-'');
          body = (if neg \<or> take 1 t = ''+'' then drop 1 t else t);
          v = (case parse_nat b (strip_hex b body) of
                 None \<Rightarrow> 0
               | Some n \<Rightarrow> (if neg then - int n else int n))
      in if int32_ok v then v else 0)"

definition toInt :: "string \<Rightarrow> int" where
  "toInt s = toInt_base 10 s"

text \<open>Printing and reading a number is the identity on 32-bit values, and 0 outside them.\<close>

lemma digit_val_digit_char: "d < 10 \<Longrightarrow> digit_val (digit_char d) = Some d"
proof -
  assume "d < 10"
  then have "d \<in> set [0..<10]" by simp
  then show ?thesis by (auto simp: upt_rec digit_val_def digit_char_def)
qed

lemma digit_char_props:
  "d < 10 \<Longrightarrow> \<not> is_space (digit_char d) \<and> digit_char d \<noteq> CHR ''-'' \<and> digit_char d \<noteq> CHR ''+''"
proof -
  assume "d < 10"
  then have "of_char (digit_char d) = 48 + d" by (simp add: digit_char_def)
  moreover have "of_char (CHR ''-'') = (45 :: nat)" "of_char (CHR ''+'') = (43 :: nat)"
    by simp_all
  ultimately show ?thesis by (auto simp: is_space_def Let_def)
qed

lemma parse_digits_append:
  "parse_digits b acc (s @ t) =
     (case parse_digits b acc s of None \<Rightarrow> None | Some a \<Rightarrow> parse_digits b a t)"
  by (induction b acc s rule: parse_digits.induct) (auto split: option.splits)

lemma show_nat_nonempty [simp]: "show_nat n \<noteq> []"
  by (subst show_nat.simps) simp

lemma parse_digits_show_nat: "parse_digits 10 0 (show_nat n) = Some n"
proof (induction n rule: show_nat.induct)
  case (1 n)
  show ?case
  proof (cases "n < 10")
    case True
    then show ?thesis by (subst show_nat.simps) (simp add: digit_val_digit_char)
  next
    case False
    with 1 show ?thesis
      by (subst show_nat.simps) (simp add: parse_digits_append digit_val_digit_char)
  qed
qed

lemma parse_nat_show_nat: "parse_nat 10 (show_nat n) = Some n"
  by (simp add: parse_nat_def parse_digits_show_nat)

lemma show_nat_chars:
  "c \<in> set (show_nat n) \<Longrightarrow> \<not> is_space c \<and> c \<noteq> CHR ''-'' \<and> c \<noteq> CHR ''+''"
proof (induction n rule: show_nat.induct)
  case (1 n)
  then show ?case
    by (subst (asm) (2) show_nat.simps) (auto simp: digit_char_props split: if_splits)
qed

lemma is_space_minus: "\<not> is_space (CHR ''-'')"
  by (simp add: is_space_def)

lemma show_nat_digits: "c \<in> set (show_nat n) \<Longrightarrow> (of_char c :: nat) \<in> {48..57}"
proof (induction n rule: show_nat.induct)
  case (1 n)
  show ?case
    using 1 by (subst (asm) (2) show_nat.simps) (auto simp: digit_char_def split: if_splits)
qed

lemma show_int_no_bar: "CHR ''|'' \<notin> set (show_int i)"
proof
  assume "CHR ''|'' \<in> set (show_int i)"
  then obtain n where "CHR ''|'' \<in> set (show_nat n)"
    by (auto simp: show_int_def split: if_splits)
  from show_nat_digits [OF this] show False by simp
qed

lemma show_int_chars: "c \<in> set (show_int i) \<Longrightarrow> \<not> is_space c"
  by (auto simp: show_int_def is_space_minus dest: show_nat_chars split: if_splits)

lemma trimmed_no_space: "\<forall>c \<in> set s. \<not> is_space c \<Longrightarrow> trimmed s = s"
proof -
  assume "\<forall>c \<in> set s. \<not> is_space c"
  then have "dropWhile is_space t = t" if "set t \<subseteq> set s" for t
    using that by (cases t) auto
  then show ?thesis by (simp add: trimmed_def)
qed

lemma show_nat_take1: "take 1 (show_nat n) \<noteq> ''-'' \<and> take 1 (show_nat n) \<noteq> ''+''"
  by (cases "show_nat n") (use show_nat_chars [of _ n] in auto)

lemma toInt_show_int: "toInt (show_int i) = (if int32_ok i then i else 0)"
proof -
  have trim: "trimmed (show_int i) = show_int i"
    by (rule trimmed_no_space) (use show_int_chars in blast)
  show ?thesis
  proof (cases "i < 0")
    case True
    then have "show_int i = CHR ''-'' # show_nat (nat (- i))" by (simp add: show_int_def)
    with True trim show ?thesis
      by (simp add: toInt_def toInt_base_def strip_hex_def parse_nat_show_nat)
  next
    case False
    then have "show_int i = show_nat (nat i)" by (simp add: show_int_def)
    with False trim show_nat_take1 [of "nat i"] show ?thesis
      by (simp add: toInt_def toInt_base_def strip_hex_def parse_nat_show_nat)
  qed
qed

section \<open>QMap\<close>

text \<open>A \<open>QMap\<close> is kept and iterated in key order: an association list sorted by key.\<close>

type_synonym ('k, 'v) qmap = "('k \<times> 'v) list"

definition qm_ok :: "('k::linorder, 'v) qmap \<Rightarrow> bool" where
  "qm_ok m \<longleftrightarrow> sorted_wrt (<) (map fst m)"

fun qm_insert :: "'k::linorder \<Rightarrow> 'v \<Rightarrow> ('k, 'v) qmap \<Rightarrow> ('k, 'v) qmap" where
  "qm_insert k v [] = [(k, v)]"
| "qm_insert k v ((k', v') # m) =
     (if k < k' then (k, v) # (k', v') # m
      else if k = k' then (k, v) # m
      else (k', v') # qm_insert k v m)"

definition qm_remove :: "'k \<Rightarrow> ('k, 'v) qmap \<Rightarrow> ('k, 'v) qmap" where
  "qm_remove k m = filter (\<lambda>(k', _). k' \<noteq> k) m"

definition qm_value :: "'k \<Rightarrow> ('k, 'v) qmap \<Rightarrow> 'v option" where
  "qm_value k m = map_of m k"

definition qm_contains :: "'k \<Rightarrow> ('k, 'v) qmap \<Rightarrow> bool" where
  "qm_contains k m \<longleftrightarrow> map_of m k \<noteq> None"

definition qm_keys :: "('k, 'v) qmap \<Rightarrow> 'k list" where
  "qm_keys m = map fst m"

definition qm_values :: "('k, 'v) qmap \<Rightarrow> 'v list" where
  "qm_values m = map snd m"

lemma qm_value_Nil [simp]: "qm_value k [] = None"
  by (simp add: qm_value_def)

lemma qm_contains_value: "qm_contains k m \<longleftrightarrow> qm_value k m \<noteq> None"
  by (simp add: qm_contains_def qm_value_def)

lemma qm_insert_keys: "fst ` set (qm_insert k v m) = insert k (fst ` set m)"
  by (induction k v m rule: qm_insert.induct) (simp_all add: insert_commute)

lemma qm_ok_Nil [simp]: "qm_ok []"
  by (simp add: qm_ok_def)

lemma qm_ok_Cons: "qm_ok ((k, v) # m) \<longleftrightarrow> (\<forall>k' \<in> fst ` set m. k < k') \<and> qm_ok m"
  by (auto simp: qm_ok_def)

lemma qm_ok_insert: "qm_ok m \<Longrightarrow> qm_ok (qm_insert k v m)"
proof (induction k v m rule: qm_insert.induct)
  case (1 k v)
  then show ?case by (simp add: qm_ok_Cons)
next
  case (2 k v k' v' m)
  then have tl: "qm_ok m" and lt: "\<forall>x \<in> fst ` set m. k' < x" by (auto simp: qm_ok_Cons)
  consider "k < k'" | "k = k'" | "k' < k" by fastforce
  then show ?case
  proof cases
    case 1
    with lt tl show ?thesis by (auto simp: qm_ok_Cons intro: less_trans)
  next
    case 2
    with lt tl show ?thesis by (simp add: qm_ok_Cons)
  next
    case 3
    then have nlt: "\<not> k < k'" "k \<noteq> k'" by auto
    with "2.IH" tl have "qm_ok (qm_insert k v m)" by blast
    moreover have "\<forall>x \<in> fst ` set (qm_insert k v m). k' < x"
      using lt 3 unfolding qm_insert_keys by blast
    ultimately show ?thesis using nlt by (simp add: qm_ok_Cons)
  qed
qed

lemma qm_ok_remove: "qm_ok m \<Longrightarrow> qm_ok (qm_remove k m)"
  by (induction m) (auto simp: qm_ok_Cons qm_remove_def)

lemma qm_value_fresh: "qm_ok ((k', v) # m) \<Longrightarrow> k \<le> k' \<Longrightarrow> map_of m k = None"
  by (force simp: qm_ok_Cons map_of_eq_None_iff)

lemma qm_value_insert:
  "qm_ok m \<Longrightarrow> qm_value x (qm_insert k v m) = (if x = k then Some v else qm_value x m)"
proof (induction m)
  case Nil
  then show ?case by (simp add: qm_value_def)
next
  case (Cons a m)
  then show ?case by (cases a) (auto simp: qm_value_def qm_ok_Cons)
qed

lemma qm_value_remove: "qm_value x (qm_remove k m) = (if x = k then None else qm_value x m)"
  by (induction m) (auto simp: qm_value_def qm_remove_def)

lemma qm_distinct: "qm_ok m \<Longrightarrow> distinct (map fst m)"
  by (simp add: qm_ok_def sorted_wrt_less_distinct)

lemma qm_value_mem: "qm_ok m \<Longrightarrow> qm_value k m = Some v \<longleftrightarrow> (k, v) \<in> set m"
  by (simp add: qm_value_def qm_distinct)

section \<open>Interfaces\<close>

text \<open>
  What a client relies on in a keyed container: \<open>lookup\<close> after \<open>insert\<close> and \<open>remove\<close>,
  and an invariant both keep. The lemmas of the block hold for every provider.
\<close>

locale keyed_store =
  fixes empty :: "'m"
    and insert_key :: "'k \<Rightarrow> 'v \<Rightarrow> 'm \<Rightarrow> 'm"
    and remove_key :: "'k \<Rightarrow> 'm \<Rightarrow> 'm"
    and lookup_key :: "'k \<Rightarrow> 'm \<Rightarrow> 'v option"
    and ok :: "'m \<Rightarrow> bool"
  assumes ok_empty: "ok empty"
    and ok_insert: "ok m \<Longrightarrow> ok (insert_key k v m)"
    and ok_remove: "ok m \<Longrightarrow> ok (remove_key k m)"
    and lookup_empty: "lookup_key k empty = None"
    and lookup_insert: "ok m \<Longrightarrow> lookup_key x (insert_key k v m) = (if x = k then Some v else lookup_key x m)"
    and lookup_remove: "ok m \<Longrightarrow> lookup_key x (remove_key k m) = (if x = k then None else lookup_key x m)"
begin

lemma lookup_insert_same: "ok m \<Longrightarrow> lookup_key k (insert_key k v m) = Some v"
  by (simp add: lookup_insert)

lemma lookup_insert_other: "ok m \<Longrightarrow> x \<noteq> k \<Longrightarrow> lookup_key x (insert_key k v m) = lookup_key x m"
  by (simp add: lookup_insert)

lemma lookup_remove_other: "ok m \<Longrightarrow> x \<noteq> k \<Longrightarrow> lookup_key x (remove_key k m) = lookup_key x m"
  by (simp add: lookup_remove)

lemma lookup_remove_insert:
  "ok m \<Longrightarrow> lookup_key x (remove_key k (insert_key k v m)) = lookup_key x (remove_key k m)"
  by (simp add: lookup_remove ok_insert lookup_insert)

text \<open>Building a store from a list of entries: the last entry of a key wins.\<close>

definition store_of :: "('k \<times> 'v) list \<Rightarrow> 'm" where
  "store_of kvs = fold (\<lambda>(k, v). insert_key k v) kvs empty"

lemma ok_fold_insert: "ok m \<Longrightarrow> ok (fold (\<lambda>(k, v). insert_key k v) kvs m)"
  by (induction kvs arbitrary: m) (auto simp: ok_insert)

lemma lookup_fold_insert:
  "ok m \<Longrightarrow> lookup_key x (fold (\<lambda>(k, v). insert_key k v) kvs m) =
     (case map_of (rev kvs) x of None \<Rightarrow> lookup_key x m | Some v \<Rightarrow> Some v)"
proof (induction kvs arbitrary: m)
  case Nil
  then show ?case by simp
next
  case (Cons kv kvs)
  then show ?case
    by (cases kv) (auto simp: ok_insert lookup_insert map_add_def split: option.splits)
qed

lemma lookup_store_of: "lookup_key x (store_of kvs) = map_of (rev kvs) x"
  by (simp add: store_of_def lookup_fold_insert ok_empty lookup_empty split: option.splits)

end

interpretation qmap: keyed_store "[]" qm_insert qm_remove qm_value qm_ok
  by unfold_locales
    (simp_all add: qm_ok_insert qm_ok_remove qm_value_insert qm_value_remove)

section \<open>QVariant and QSettings\<close>

datatype qvariant = VInvalid | VStr string | VInt int | VBool bool

definition lower_char :: "char \<Rightarrow> char" where
  "lower_char c = (let n = of_char c :: nat in if 65 \<le> n \<and> n \<le> 90 then char_of (n + 32) else c)"

definition to_lower :: "string \<Rightarrow> string" where
  "to_lower s = map lower_char s"

text \<open>\<open>QString::contains\<close> with \<open>Qt::CaseInsensitive\<close>.\<close>

definition contains_ci :: "string \<Rightarrow> string \<Rightarrow> bool" where
  "contains_ci s p \<longleftrightarrow> contains (to_lower s) (to_lower p)"

fun v_toString :: "qvariant \<Rightarrow> string" where
  "v_toString VInvalid = []"
| "v_toString (VStr s) = s"
| "v_toString (VInt i) = show_int i"
| "v_toString (VBool b) = (if b then ''true'' else ''false'')"

fun v_toInt :: "qvariant \<Rightarrow> int" where
  "v_toInt VInvalid = 0"
| "v_toInt (VStr s) = toInt s"
| "v_toInt (VInt i) = i"
| "v_toInt (VBool b) = (if b then 1 else 0)"

fun v_toBool :: "qvariant \<Rightarrow> bool" where
  "v_toBool VInvalid = False"
| "v_toBool (VStr s) = (to_lower s \<notin> {[], ''0'', ''false''})"
| "v_toBool (VInt i) = (i \<noteq> 0)"
| "v_toBool (VBool b) = b"

text \<open>What a value becomes when the settings file is written and read back.\<close>

definition v_persist :: "qvariant \<Rightarrow> qvariant" where
  "v_persist v = VStr (v_toString v)"

lemma v_persist_toString [simp]: "v_toString (v_persist v) = v_toString v"
  by (simp add: v_persist_def)

lemma v_persist_toBool [simp]: "v_toBool (v_persist (VBool b)) = b"
  by (simp add: v_persist_def to_lower_def lower_char_def)

lemma v_persist_toInt: "int32_ok i \<Longrightarrow> v_toInt (v_persist (VInt i)) = i"
  by (simp add: v_persist_def toInt_show_int)

text \<open>A settings file: groups of keys, both kept in order. A group exists when it has a key.\<close>

type_synonym qsettings = "(string, (string, qvariant) qmap) qmap"

definition s_group :: "string \<Rightarrow> qsettings \<Rightarrow> (string, qvariant) qmap" where
  "s_group g s = (case qm_value g s of None \<Rightarrow> [] | Some kvs \<Rightarrow> kvs)"

definition s_setValue :: "string \<Rightarrow> string \<Rightarrow> qvariant \<Rightarrow> qsettings \<Rightarrow> qsettings" where
  "s_setValue g k v s = qm_insert g (qm_insert k v (s_group g s)) s"

definition s_value :: "string \<Rightarrow> string \<Rightarrow> qsettings \<Rightarrow> qvariant" where
  "s_value g k s = (case qm_value k (s_group g s) of None \<Rightarrow> VInvalid | Some v \<Rightarrow> v)"

definition s_childGroups :: "qsettings \<Rightarrow> string list" where
  "s_childGroups s = qm_keys s"

definition s_remove :: "string \<Rightarrow> qsettings \<Rightarrow> qsettings" where
  "s_remove g s = qm_remove g s"

definition s_ok :: "qsettings \<Rightarrow> bool" where
  "s_ok s \<longleftrightarrow> qm_ok s \<and> (\<forall>(g, kvs) \<in> set s. qm_ok kvs)"

lemma s_group_ok: "s_ok s \<Longrightarrow> qm_ok (s_group g s)"
  by (auto simp: s_ok_def s_group_def qm_value_def split: option.splits dest!: map_of_SomeD)

lemma qm_insert_set: "set (qm_insert k v m) \<subseteq> insert (k, v) (set m)"
  by (induction k v m rule: qm_insert.induct) auto

lemma s_ok_Nil [simp]: "s_ok []"
  by (simp add: s_ok_def)

lemma s_ok_setValue: "s_ok s \<Longrightarrow> s_ok (s_setValue g k v s)"
proof -
  assume ok: "s_ok s"
  have "qm_ok (s_setValue g k v s)"
    using ok by (simp add: s_setValue_def s_ok_def qm_ok_insert)
  moreover have "qm_ok kvs" if "(g', kvs) \<in> set (s_setValue g k v s)" for g' kvs
  proof -
    from that qm_insert_set [of g _ s]
    have "kvs = qm_insert k v (s_group g s) \<or> (g', kvs) \<in> set s"
      unfolding s_setValue_def by blast
    with ok show ?thesis
      by (auto simp: s_group_ok qm_ok_insert) (auto simp: s_ok_def)
  qed
  ultimately show ?thesis by (auto simp: s_ok_def)
qed

lemma s_ok_remove: "s_ok s \<Longrightarrow> s_ok (s_remove g s)"
  by (auto simp: s_ok_def s_remove_def qm_ok_remove) (auto simp: qm_remove_def)

lemma s_value_setValue:
  "s_ok s \<Longrightarrow> s_value g' k' (s_setValue g k v s) = (if g' = g \<and> k' = k then v else s_value g' k' s)"
  by (simp add: s_value_def s_group_def s_setValue_def s_ok_def qm_value_insert
      s_group_ok [unfolded s_ok_def s_group_def])

lemma s_childGroups_setValue: "set (s_childGroups (s_setValue g k v s)) = insert g (set (s_childGroups s))"
  by (simp add: s_childGroups_def qm_keys_def s_setValue_def qm_insert_keys)

lemma s_childGroups_remove: "set (s_childGroups (s_remove g s)) = set (s_childGroups s) - {g}"
  by (auto simp: s_childGroups_def qm_keys_def s_remove_def qm_remove_def)

lemma s_childGroups_distinct: "s_ok s \<Longrightarrow> distinct (s_childGroups s)"
  by (simp add: s_childGroups_def qm_keys_def s_ok_def qm_distinct)

lemmas settings_simps = s_ok_setValue s_value_setValue s_childGroups_setValue

section \<open>Text files\<close>

text \<open>
  The files the daemon rewrites, by path. A file opened in text mode is read without its
  carriage returns; \<open>readLine\<close> until \<open>atEnd\<close> gives its lines, a last line without a
  newline included. \<open>lines_text\<close> is what \<open>join("\n")\<close> followed by a newline writes.
\<close>

type_synonym files = "(string, string) qmap"

definition read_lines :: "string \<Rightarrow> string list" where
  "read_lines s =
     (let ls = split (filter (\<lambda>c. c \<noteq> CHR 0x0D) s) [CHR 0x0A]
      in if last ls = [] then butlast ls else ls)"

definition lines_text :: "string list \<Rightarrow> string" where
  "lines_text ls = join [CHR 0x0A] ls @ [CHR 0x0A]"

definition plain_line :: "string \<Rightarrow> bool" where
  "plain_line l \<longleftrightarrow> CHR 0x0A \<notin> set l \<and> CHR 0x0D \<notin> set l"

text \<open>\<open>QFileInfo\<close>: the part after the last slash, and of that the part before the first dot.\<close>

definition fileName :: "string \<Rightarrow> string" where
  "fileName path = last (split path ''/'')"

definition baseName :: "string \<Rightarrow> string" where
  "baseName path = hd (split (fileName path) ''.'')"

text \<open>
  \<open>saveToFile\<close> of the settings and of the rules: the old file goes first, an empty list
  writes no new one, and neither does a path that cannot be opened.
\<close>

definition save_lines :: "(string \<Rightarrow> bool) \<Rightarrow> string list \<Rightarrow> string \<Rightarrow> files \<Rightarrow> files" where
  "save_lines can_write ls path fs =
     (let fs = qm_remove path fs
      in if ls = [] then fs
         else if \<not> can_write path then fs
         else qm_insert path (lines_text ls) fs)"

lemma join_append_last: "xs \<noteq> [] \<Longrightarrow> join sep (xs @ [y]) = join sep xs @ sep @ y"
  by (induction sep xs rule: join.induct) (simp_all add: join_Cons)

lemma filter_join:
  "filter P (join sep xs) = join (filter P sep) (map (filter P) xs)"
  by (induction sep xs rule: join.induct) auto

lemma lines_text_join: "ls \<noteq> [] \<Longrightarrow> lines_text ls = join [CHR 0x0A] (ls @ [[]])"
  by (simp add: lines_text_def join_append_last)

lemma read_lines_text:
  assumes "ls \<noteq> []" and "\<forall>l \<in> set ls. plain_line l"
  shows "read_lines (lines_text ls) = ls"
proof -
  let ?P = "\<lambda>c :: char. c \<noteq> CHR 0x0D"
  have "map (filter ?P) ls = ls"
    using assms(2) by (intro map_idI filter_True) (auto simp: plain_line_def)
  then have "filter ?P (lines_text ls) = join [CHR 0x0A] (ls @ [[]])"
    using assms(1) by (simp add: lines_text_join filter_join)
  moreover have "split (join [CHR 0x0A] (ls @ [[]])) [CHR 0x0A] = ls @ [[]]"
    by (rule split_join) (use assms(2) in \<open>auto simp: plain_line_def\<close>)
  ultimately show ?thesis by (simp add: read_lines_def)
qed

section \<open>Quotes in SQL text\<close>

text \<open>A quote in a text that is put into a statement between quotes ends the literal there.\<close>

definition has_quote :: "string \<Rightarrow> bool" where
  "has_quote t = (CHR 0x27 \<in> set t)"

end
