(* ===== verification/BRItems.thy ===== *)
theory BRItems
  imports QtCore
begin

text \<open>
  The list of reinforcements of the user interface, \<open>src/ui/br/item-table.cpp\<close>, with the header box of
  \<open>src/ui/common/table/table-header-proxy.cpp\<close>: a tree of categories and their reinforcements with a
  box each. The model of the tree emits \<open>itemChanged\<close> whenever a stored value changes, and the slot
  \<open>setHeaderState\<close> changes further boxes: the chain of signals is a recursion, cut off at a depth that
  is proved to be enough.
\<close>

section \<open>State\<close>

datatype check_state = Unchecked | PartiallyChecked | Checked

text \<open>A value of the check role that was never set, or taken away, reads as unchecked.\<close>

record tree_item =
  ti_text :: string
  ti_check :: "check_state option"
  ti_checkable :: bool
  ti_status :: string

record tree_cat =
  tc_text :: string
  tc_check :: "check_state option"
  tc_checkable :: bool
  tc_items :: "tree_item list"

record item_table =
  it_rows :: "tree_cat list"
  it_header :: check_state
  it_closed :: bool              \<comment> \<open>\<open>m_closeCheckBox\<close> of the header\<close>
  it_count :: nat

datatype row = CatRow nat | ItemRow nat nat

definition box_value :: "bool \<Rightarrow> check_state" where
  "box_value check = (if check then Checked else Unchecked)"

lemma box_value_simps [simp]: "box_value b \<noteq> PartiallyChecked" "(box_value b = Checked) = b" "(box_value b = Unchecked) = (\<not> b)"
  by (simp_all add: box_value_def)

definition check_of :: "check_state option \<Rightarrow> check_state" where
  "check_of c = (case c of None \<Rightarrow> Unchecked | Some s \<Rightarrow> s)"

fun row_item :: "nat \<Rightarrow> nat \<Rightarrow> item_table \<Rightarrow> tree_item" where
  "row_item i j t = tc_items (it_rows t ! i) ! j"

fun stored :: "row \<Rightarrow> item_table \<Rightarrow> check_state option" where
  "stored (CatRow i) t = tc_check (it_rows t ! i)"
| "stored (ItemRow i j) t = ti_check (row_item i j t)"

definition checkState :: "row \<Rightarrow> item_table \<Rightarrow> check_state" where
  "checkState r t = check_of (stored r t)"

fun isCheckable :: "row \<Rightarrow> item_table \<Rightarrow> bool" where
  "isCheckable (CatRow i) t = tc_checkable (it_rows t ! i)"
| "isCheckable (ItemRow i j) t = ti_checkable (row_item i j t)"

definition on_cat :: "nat \<Rightarrow> (tree_cat \<Rightarrow> tree_cat) \<Rightarrow> item_table \<Rightarrow> item_table" where
  "on_cat i f t = t\<lparr>it_rows := (it_rows t)[i := f (it_rows t ! i)]\<rparr>"

definition on_item :: "nat \<Rightarrow> nat \<Rightarrow> (tree_item \<Rightarrow> tree_item) \<Rightarrow> item_table \<Rightarrow> item_table" where
  "on_item i j f = on_cat i (\<lambda>c. c\<lparr>tc_items := (tc_items c)[j := f (tc_items c ! j)]\<rparr>)"

fun put :: "row \<Rightarrow> check_state option \<Rightarrow> item_table \<Rightarrow> item_table" where
  "put (CatRow i) s = on_cat i (\<lambda>c. c\<lparr>tc_check := s\<rparr>)"
| "put (ItemRow i j) s = on_item i j (\<lambda>x. x\<lparr>ti_check := s\<rparr>)"

section \<open>The slots of a changed box\<close>

text \<open>The box of the header: the source counts the categories that are unchecked.\<close>

definition header_of :: "tree_cat list \<Rightarrow> check_state" where
  "header_of rows =
     (let unCheckedCount = length (filter (\<lambda>c. check_of (tc_check c) = Unchecked) rows)
      in if unCheckedCount = length rows then Unchecked
         else if unCheckedCount = 0 then Checked
         else PartiallyChecked)"

definition show_header :: "item_table \<Rightarrow> item_table" where
  "show_header t = t\<lparr>it_header := header_of (it_rows t)\<rparr>"

fun siblings_from :: "nat \<Rightarrow> nat \<Rightarrow> tree_item list \<Rightarrow> check_state" where
  "siblings_from checked unchecked [] = (if 0 < unchecked then Unchecked else Checked)"
| "siblings_from checked unchecked (x # xs) =
     (case check_of (ti_check x) of
        PartiallyChecked \<Rightarrow> PartiallyChecked
      | Unchecked \<Rightarrow> if 0 < checked then PartiallyChecked else siblings_from checked (unchecked + 1) xs
      | Checked \<Rightarrow> if 0 < unchecked then PartiallyChecked else siblings_from (checked + 1) unchecked xs)"

definition checkSibling :: "nat \<Rightarrow> item_table \<Rightarrow> check_state" where
  "checkSibling i t = siblings_from 0 0 (tc_items (it_rows t ! i))"

text \<open>
  The slots, with \<open>upd\<close> for \<open>setCheckState\<close>. Only the categories have three states. A category has no
  parent, so \<open>checkChildChanged\<close> ends there.
\<close>

type_synonym set_box = "row \<Rightarrow> check_state \<Rightarrow> item_table \<Rightarrow> item_table option"

definition checkAllChildRecursion :: "set_box \<Rightarrow> row \<Rightarrow> bool \<Rightarrow> item_table \<Rightarrow> item_table option" where
  "checkAllChildRecursion upd r check t =
     (if isCheckable r t then upd r (box_value check) t else Some t)"

fun check_children :: "set_box \<Rightarrow> nat \<Rightarrow> bool \<Rightarrow> nat list \<Rightarrow> item_table \<Rightarrow> item_table option" where
  "check_children upd i check [] t = Some t"
| "check_children upd i check (j # js) t =
     (case checkAllChildRecursion upd (ItemRow i j) check t of
        None \<Rightarrow> None
      | Some t \<Rightarrow> check_children upd i check js t)"

definition checkAllChild :: "set_box \<Rightarrow> nat \<Rightarrow> bool \<Rightarrow> item_table \<Rightarrow> item_table option" where
  "checkAllChild upd i check t =
     (case check_children upd i check [0..<length (tc_items (it_rows t ! i))] t of
        None \<Rightarrow> None
      | Some t \<Rightarrow> checkAllChildRecursion upd (CatRow i) check t)"

definition checkChildChanged :: "set_box \<Rightarrow> nat \<Rightarrow> item_table \<Rightarrow> item_table option" where
  "checkChildChanged upd i t =
     (if \<not> isCheckable (CatRow i) t then Some t else upd (CatRow i) (checkSibling i t) t)"

fun checkChanged :: "set_box \<Rightarrow> row \<Rightarrow> item_table \<Rightarrow> item_table option" where
  "checkChanged upd (CatRow i) t =
     (if checkState (CatRow i) t \<noteq> PartiallyChecked then checkAllChild upd i (checkState (CatRow i) t = Checked) t else Some t)"
| "checkChanged upd (ItemRow i j) t = checkChildChanged upd i t"

definition setHeaderState :: "set_box \<Rightarrow> row \<Rightarrow> item_table \<Rightarrow> item_table option" where
  "setHeaderState upd r t = (if \<not> isCheckable r t then Some t else map_option show_header (checkChanged upd r t))"

text \<open>\<open>QStandardItem::setCheckState\<close>: the same value again emits nothing. \<open>None\<close> is a chain of signals deeper than the first argument.\<close>

fun setCheckState :: "nat \<Rightarrow> set_box" where
  "setCheckState 0 r s t = None"
| "setCheckState (Suc n) r s t =
     (if stored r t = Some s then Some t else setHeaderState (setCheckState n) r (put r (Some s) t))"

declare setCheckState.simps [simp del]

lemma setCheckState_same: "stored r t = Some s \<Longrightarrow> setCheckState (Suc n) r s t = Some t"
  by (simp add: setCheckState.simps)

definition SIGNAL_DEPTH :: nat where "SIGNAL_DEPTH = 4"

abbreviation "set_box \<equiv> setCheckState SIGNAL_DEPTH"

lemma set_box_same: "stored r t = Some s \<Longrightarrow> set_box r s t = Some t"
  by (simp add: SIGNAL_DEPTH_def eval_nat_numeral setCheckState_same)

abbreviation "box_changed \<equiv> setHeaderState set_box"

section \<open>Operations\<close>

definition for_rows :: "('r \<Rightarrow> item_table \<Rightarrow> item_table option) \<Rightarrow> 'r list \<Rightarrow> item_table \<Rightarrow> item_table option" where
  "for_rows f rs t = fold (\<lambda>r t. case t of None \<Rightarrow> None | Some t \<Rightarrow> f r t) rs (Some t)"

definition selectAllItem :: "check_state \<Rightarrow> item_table \<Rightarrow> item_table option" where
  "selectAllItem state t =
     for_rows (\<lambda>i t. case set_box (CatRow i) (box_value (state = Checked)) t of
                       None \<Rightarrow> None | Some t \<Rightarrow> box_changed (CatRow i) t)
       [0..<length (it_rows t)] t"

definition setAllChecked :: "check_state \<Rightarrow> item_table \<Rightarrow> item_table option" where
  "setAllChecked s t = selectAllItem s (t\<lparr>it_header := s\<rparr>)"

text \<open>A press on the header's box, and a click on the box of a row: \<open>QStyledItemDelegate\<close> toggles between two states.\<close>

definition press_header :: "item_table \<Rightarrow> item_table option" where
  "press_header t =
     (if it_closed t then Some t
      else let s = (if it_header t = Unchecked then Checked else Unchecked) in selectAllItem s (t\<lparr>it_header := s\<rparr>))"

definition row_exists :: "row \<Rightarrow> item_table \<Rightarrow> bool" where
  "row_exists r t = (case r of CatRow i \<Rightarrow> i < length (it_rows t)
     | ItemRow i j \<Rightarrow> i < length (it_rows t) \<and> j < length (tc_items (it_rows t ! i)))"

definition click_box :: "row \<Rightarrow> item_table \<Rightarrow> item_table option" where
  "click_box r t =
     (if row_exists r t \<and> isCheckable r t
      then set_box r (if checkState r t = Checked then Unchecked else Checked) t else Some t)"

definition all_items :: "item_table \<Rightarrow> row list" where
  "all_items t = concat (map (\<lambda>i. map (ItemRow i) [0..<length (tc_items (it_rows t ! i))]) [0..<length (it_rows t)])"

fun row_text :: "row \<Rightarrow> item_table \<Rightarrow> string" where
  "row_text (CatRow i) t = tc_text (it_rows t ! i)"
| "row_text (ItemRow i j) t = ti_text (row_item i j t)"

definition setArgChecked :: "string \<Rightarrow> bool \<Rightarrow> item_table \<Rightarrow> item_table option" where
  "setArgChecked matchLabel checkStatus t =
     for_rows (\<lambda>r t. if row_text r t = matchLabel then set_box r (box_value checkStatus) t else Some t)
       (all_items t) t"

definition checkedArgStatus :: "string \<Rightarrow> item_table \<Rightarrow> bool" where
  "checkedArgStatus matchLabel t =
     (case List.find (\<lambda>r. row_text r t = matchLabel) (all_items t) of
        None \<Rightarrow> False | Some r \<Rightarrow> checkState r t = Checked)"

definition checkedAllStatus :: "item_table \<Rightarrow> string list" where
  "checkedAllStatus t = map (\<lambda>r. row_text r t) (filter (\<lambda>r. checkState r t = Checked) (all_items t))"

text \<open>\<open>setCheckable\<close>: a missing value is set while the row is not yet checkable, then the flags change,
  which is a change of the item too. Taking the value away is one in any case.\<close>

fun put_checkable :: "row \<Rightarrow> bool \<Rightarrow> item_table \<Rightarrow> item_table" where
  "put_checkable (CatRow i) b = on_cat i (\<lambda>c. c\<lparr>tc_checkable := b\<rparr>)"
| "put_checkable (ItemRow i j) b = on_item i j (\<lambda>x. x\<lparr>ti_checkable := b\<rparr>)"

definition setCheckable :: "bool \<Rightarrow> row \<Rightarrow> item_table \<Rightarrow> item_table option" where
  "setCheckable b r t =
     (if b = isCheckable r t then Some t
      else box_changed r (put_checkable r b (if b \<and> stored r t = None then put r (Some Unchecked) t else t)))"

definition clear_box :: "row \<Rightarrow> item_table \<Rightarrow> item_table option" where
  "clear_box r t = box_changed r (put r None t)"

definition all_rows :: "item_table \<Rightarrow> row list" where
  "all_rows t = concat (map (\<lambda>i. CatRow i # map (ItemRow i) [0..<length (tc_items (it_rows t ! i))]) [0..<length (it_rows t)])"

definition hideCheckBox :: "bool \<Rightarrow> item_table \<Rightarrow> item_table option" where
  "hideCheckBox isHide t =
     for_rows (\<lambda>r t. case (if isHide then clear_box r t else Some t) of
                       None \<Rightarrow> None | Some t \<Rightarrow> setCheckable (\<not> isHide) r t)
       (all_rows t) (t\<lparr>it_closed := isHide\<rparr>)"

definition setAllCheckBoxEditStatus :: "bool \<Rightarrow> item_table \<Rightarrow> item_table option" where
  "setAllCheckBoxEditStatus isCheckBoxEdit t =
     for_rows (setCheckable isCheckBoxEdit) (all_rows t) (t\<lparr>it_closed := \<not> isCheckBoxEdit\<rparr>)"

section \<open>What a chain of signals does\<close>

definition agg :: "tree_item list \<Rightarrow> check_state" where
  "agg xs = (if \<forall>x \<in> set xs. check_of (ti_check x) = Checked then Checked
     else if \<forall>x \<in> set xs. check_of (ti_check x) = Unchecked then Unchecked else PartiallyChecked)"

lemma siblings_from_eq:
  "c = 0 \<or> u = 0 \<Longrightarrow> siblings_from c u xs =
     (if u = 0 \<and> (\<forall>x \<in> set xs. check_of (ti_check x) = Checked) then Checked
      else if c = 0 \<and> (\<forall>x \<in> set xs. check_of (ti_check x) = Unchecked) then Unchecked else PartiallyChecked)"
  by (induction c u xs rule: siblings_from.induct) (auto split: check_state.split)

lemma checkSibling_eq: "checkSibling i t = agg (tc_items (it_rows t ! i))"
  by (simp add: checkSibling_def siblings_from_eq agg_def)

text \<open>Every row has a box with a value.\<close>

definition boxed :: "item_table \<Rightarrow> bool" where
  "boxed t \<longleftrightarrow> (\<forall>c \<in> set (it_rows t). tc_checkable c \<and> tc_check c \<noteq> None
     \<and> (\<forall>x \<in> set (tc_items c). ti_checkable x \<and> ti_check x \<noteq> None))"

lemma boxed_cat: "boxed t \<Longrightarrow> i < length (it_rows t) \<Longrightarrow> tc_checkable (it_rows t ! i) \<and> tc_check (it_rows t ! i) \<noteq> None"
  by (simp add: boxed_def)

lemma boxed_item:
  "boxed t \<Longrightarrow> i < length (it_rows t) \<Longrightarrow> j < length (tc_items (it_rows t ! i)) \<Longrightarrow>
     ti_checkable (tc_items (it_rows t ! i) ! j) \<and> ti_check (tc_items (it_rows t ! i) ! j) \<noteq> None"
  unfolding boxed_def by (meson nth_mem)

lemma boxed_items:
  "boxed t \<Longrightarrow> i < length (it_rows t) \<Longrightarrow> x \<in> set (tc_items (it_rows t ! i)) \<Longrightarrow> ti_checkable x \<and> ti_check x \<noteq> None"
  unfolding boxed_def by (meson nth_mem)

text \<open>The state of the rows after the boxes of one category were set.\<close>

definition with_cat :: "nat \<Rightarrow> check_state \<Rightarrow> tree_item list \<Rightarrow> item_table \<Rightarrow> item_table" where
  "with_cat i s xs = on_cat i (\<lambda>c. c\<lparr>tc_check := Some s, tc_items := xs\<rparr>)"

lemma with_cat_rows [simp]:
  "length (it_rows (with_cat i s xs t)) = length (it_rows t)"
  "i < length (it_rows t) \<Longrightarrow> it_rows (with_cat i s xs t) ! i = (it_rows t ! i)\<lparr>tc_check := Some s, tc_items := xs\<rparr>"
  "i' \<noteq> i \<Longrightarrow> it_rows (with_cat i s xs t) ! i' = it_rows t ! i'"
  "with_cat i s' ys (with_cat i s xs t) = with_cat i s' ys t"
  "with_cat i s xs (show_header t) = (with_cat i s xs t)\<lparr>it_header := header_of (it_rows t)\<rparr>"
  "show_header (t\<lparr>it_header := h\<rparr>) = show_header t"
  "it_rows (show_header t) = it_rows t"
  by (auto simp: with_cat_def on_cat_def show_header_def nth_list_update)
    (cases "i < length (it_rows t)"; simp add: nth_list_update list_update_beyond)

lemma check_children_done:
  assumes "\<And>j. j \<in> set js \<Longrightarrow> stored (ItemRow i j) t = Some (box_value b)"
  shows "check_children (setCheckState (Suc n)) i b js t = Some t"
  using assms by (induction js) (auto simp: checkAllChildRecursion_def setCheckState_same)

lemma cat_chain:
  assumes "boxed t" "i < length (it_rows t)"
  shows "setCheckState (Suc (Suc n)) (CatRow i) (agg (tc_items (it_rows t ! i))) t =
     Some (if stored (CatRow i) t = Some (agg (tc_items (it_rows t ! i))) then t
           else show_header (with_cat i (agg (tc_items (it_rows t ! i))) (tc_items (it_rows t ! i)) t))"
proof -
  define xs where "xs = tc_items (it_rows t ! i)"
  define w where "w = with_cat i (agg xs) xs t"
  have put: "put (CatRow i) (Some (agg xs)) t = w"
    using assms(2) by (simp add: w_def with_cat_def on_cat_def xs_def)
  have row: "it_rows w ! i = (it_rows t ! i)\<lparr>tc_check := Some (agg xs), tc_items := xs\<rparr>" using assms(2) by (simp add: w_def)
  have all: "stored (ItemRow i j) w = Some (agg xs)" if "j < length xs" "agg xs \<noteq> PartiallyChecked" for j
  proof -
    have "check_of (ti_check (xs ! j)) = agg xs" using that by (auto simp: agg_def split: if_splits)
    moreover have "ti_check (xs ! j) \<noteq> None" using boxed_item [OF assms] that(1) by (simp add: xs_def)
    ultimately show ?thesis by (auto simp: row check_of_def)
  qed
  have "checkAllChild (setCheckState (Suc n)) i (agg xs = Checked) w = Some w" if "agg xs \<noteq> PartiallyChecked"
  proof -
    have b: "box_value (agg xs = Checked) = agg xs" using that by (cases "agg xs") (auto simp: box_value_def)
    have "check_children (setCheckState (Suc n)) i (agg xs = Checked) [0..<length xs] w = Some w"
      by (intro check_children_done) (simp add: all that b del: stored.simps)
    then show ?thesis by (simp add: checkAllChild_def checkAllChildRecursion_def row b setCheckState_same)
  qed
  then have "setHeaderState (setCheckState (Suc n)) (CatRow i) w = Some (show_header w)"
    using boxed_cat [OF assms] by (simp add: setHeaderState_def checkState_def row check_of_def)
  then show ?thesis unfolding xs_def [symmetric] by (simp add: setCheckState.simps put w_def del: put.simps)
qed

lemma boxed_with_cat:
  assumes "boxed t" "i < length (it_rows t)" "\<And>x. x \<in> set xs \<Longrightarrow> ti_checkable x \<and> ti_check x \<noteq> None"
  shows "boxed (with_cat i s xs t)"
proof -
  have "tc_checkable c \<and> tc_check c \<noteq> None \<and> (\<forall>x \<in> set (tc_items c). ti_checkable x \<and> ti_check x \<noteq> None)"
    if "c \<in> set (it_rows (with_cat i s xs t))" for c
  proof -
    have "c \<in> insert ((it_rows t ! i)\<lparr>tc_check := Some s, tc_items := xs\<rparr>) (set (it_rows t))"
      using that set_update_subset_insert by (fastforce simp: with_cat_def on_cat_def)
    then show ?thesis using assms boxed_cat [OF assms(1,2)] by (auto simp: boxed_def)
  qed
  then show ?thesis by (simp add: boxed_def)
qed

definition set_item :: "nat \<Rightarrow> check_state \<Rightarrow> tree_item list \<Rightarrow> tree_item list" where
  "set_item j s xs = xs[j := (xs ! j)\<lparr>ti_check := Some s\<rparr>]"

lemma set_item_boxed:
  "(\<And>x. x \<in> set xs \<Longrightarrow> ti_checkable x \<and> ti_check x \<noteq> None) \<Longrightarrow> j < length xs \<Longrightarrow> x \<in> set (set_item j s xs)
     \<Longrightarrow> ti_checkable x \<and> ti_check x \<noteq> None"
  unfolding set_item_def by (auto dest!: set_update_subset_insert [THEN subsetD])

lemma same_check: "tc_check c = Some v \<Longrightarrow> c\<lparr>tc_check := Some v, tc_items := xs\<rparr> = c\<lparr>tc_items := xs\<rparr>"
  by (cases c) simp

lemma item_chain:
  assumes "boxed t" "i < length (it_rows t)" "j < length (tc_items (it_rows t ! i))"
  shows "setCheckState (Suc (Suc (Suc n))) (ItemRow i j) s t =
     Some (if stored (ItemRow i j) t = Some s then t
           else show_header (with_cat i (agg (set_item j s (tc_items (it_rows t ! i)))) (set_item j s (tc_items (it_rows t ! i))) t))"
proof -
  define xs where "xs = set_item j s (tc_items (it_rows t ! i))"
  obtain c where c: "tc_check (it_rows t ! i) = Some c" using boxed_cat [OF assms(1,2)] by auto
  define w where "w = with_cat i c xs t"
  have put: "put (ItemRow i j) (Some s) t = w"
    using assms(2) c by (simp add: w_def with_cat_def on_item_def on_cat_def xs_def set_item_def same_check)
  have row: "it_rows w ! i = (it_rows t ! i)\<lparr>tc_check := Some c, tc_items := xs\<rparr>" using assms(2) by (simp add: w_def)
  have item: "ti_checkable (xs ! j)" using boxed_item [OF assms] assms(3) by (simp add: xs_def set_item_def)
  have box: "boxed w" unfolding w_def xs_def
    by (intro boxed_with_cat assms(1,2)) (rule set_item_boxed [OF boxed_items [OF assms(1,2)] assms(3)])
  have "setCheckState (Suc (Suc n)) (CatRow i) (agg xs) w =
      Some (if c = agg xs then w else show_header (with_cat i (agg xs) xs w))"
    using cat_chain [OF box, of i n] assms(2) by (simp add: row w_def)
  then have "setHeaderState (setCheckState (Suc (Suc n))) (ItemRow i j) w = Some (show_header (with_cat i (agg xs) xs t))"
    using boxed_cat [OF assms(1,2)] item
    by (simp add: setHeaderState_def checkChildChanged_def checkSibling_eq row) (simp add: w_def show_header_def)
  then show ?thesis unfolding xs_def [symmetric] by (simp add: setCheckState.simps put del: put.simps)
qed

text \<open>Setting the boxes of some items of a category one after the other.\<close>

lemma children_chain:
  assumes "boxed t" "i < length (it_rows t)" "\<forall>j \<in> set js. j < length (tc_items (it_rows t ! i))"
    and "tc_check (it_rows t ! i) = Some c" and "c = box_value b \<or> tc_items (it_rows t ! i) \<noteq> [] \<and> c = agg (tc_items (it_rows t ! i))"
  shows "\<exists>c' h. check_children (setCheckState (Suc (Suc (Suc n)))) i b js t =
       Some ((with_cat i c' (fold (\<lambda>j. set_item j (box_value b)) js (tc_items (it_rows t ! i))) t)\<lparr>it_header := h\<rparr>)
     \<and> (c' = box_value b \<or> tc_items (it_rows t ! i) \<noteq> [] \<and> c' = agg (fold (\<lambda>j. set_item j (box_value b)) js (tc_items (it_rows t ! i))))"
  using assms
proof (induction js arbitrary: t c)
  case Nil
  have "t = (with_cat i c (tc_items (it_rows t ! i)) t)\<lparr>it_header := it_header t\<rparr>"
    using Nil.prems(2,4) by (simp add: with_cat_def on_cat_def same_check)
  then show ?case using Nil.prems(5) by auto
next
  case (Cons j js)
  let ?xs = "tc_items (it_rows t ! i)" and ?s = "box_value b"
  have j: "j < length ?xs" using Cons.prems(3) by simp
  define ys where "ys = set_item j ?s ?xs"
  have len: "length ys = length ?xs" by (simp add: ys_def set_item_def)
  have step: "checkAllChildRecursion (setCheckState (Suc (Suc (Suc n)))) (ItemRow i j) b t =
      Some (if stored (ItemRow i j) t = Some ?s then t else show_header (with_cat i (agg ys) ys t))"
    using item_chain [OF Cons.prems(1,2) j, of n ?s] boxed_item [OF Cons.prems(1,2) j]
    by (simp add: checkAllChildRecursion_def ys_def)
  show ?case
  proof (cases "stored (ItemRow i j) t = Some ?s")
    case True
    then have "ti_check (?xs ! j) = Some ?s" by simp
    then have "(?xs ! j)\<lparr>ti_check := Some ?s\<rparr> = ?xs ! j" by (cases "?xs ! j") simp
    then have "ys = ?xs" unfolding ys_def set_item_def by (metis list_update_id)
    then show ?thesis using Cons.IH [OF Cons.prems(1,2) _ Cons.prems(4,5)] Cons.prems(3) step True
      by (simp add: ys_def del: stored.simps)
  next
    case False
    define w where "w = show_header (with_cat i (agg ys) ys t)"
    have box: "boxed (with_cat i (agg ys) ys t)"
      unfolding ys_def
      by (intro boxed_with_cat Cons.prems(1,2)) (rule set_item_boxed [OF boxed_items [OF Cons.prems(1,2)] j])
    have w: "boxed w" "i < length (it_rows w)" "tc_items (it_rows w ! i) = ys" "tc_check (it_rows w ! i) = Some (agg ys)"
      using box Cons.prems(2) by (simp_all add: w_def boxed_def)
    have ne: "ys \<noteq> []" using j len by auto
    have "\<exists>c' h. check_children (setCheckState (Suc (Suc (Suc n)))) i b js w =
         Some ((with_cat i c' (fold (\<lambda>j. set_item j ?s) js ys) w)\<lparr>it_header := h\<rparr>)
       \<and> (c' = ?s \<or> ys \<noteq> [] \<and> c' = agg (fold (\<lambda>j. set_item j ?s) js ys))"
      using Cons.IH [OF w(1,2) _ w(4)] Cons.prems(3) len ne by (simp add: w(3))
    moreover have "(with_cat i c' zs w)\<lparr>it_header := h\<rparr> = (with_cat i c' zs t)\<lparr>it_header := h\<rparr>" for c' zs h
      by (simp add: w_def)
    ultimately show ?thesis using step False ne len by (auto simp: w_def ys_def simp del: stored.simps)
  qed
qed

lemma set_item_all: "fold (\<lambda>j. set_item j s) [0..<length xs] xs = map (\<lambda>x. x\<lparr>ti_check := Some s\<rparr>) xs"
proof -
  have "fold (\<lambda>j. set_item j s) [0..<k] xs = map (\<lambda>x. x\<lparr>ti_check := Some s\<rparr>) (take k xs) @ drop k xs" if "k \<le> length xs" for k
    using that
  proof (induction k)
    case (Suc k)
    then have "drop k xs = xs ! k # drop (Suc k) xs" by (simp add: Cons_nth_drop_Suc)
    moreover have "take (Suc k) xs = take k xs @ [xs ! k]" using Suc.prems by (simp add: take_Suc_conv_app_nth)
    ultimately show ?case using Suc by (simp add: set_item_def nth_append list_update_append min_def)
  qed simp
  from this [of "length xs"] show ?thesis by simp
qed

lemma agg_all: "xs \<noteq> [] \<Longrightarrow> agg (map (\<lambda>x. x\<lparr>ti_check := Some (box_value b)\<rparr>) xs) = box_value b"
  by (auto simp: agg_def check_of_def box_value_def)

lemma cat_set:
  assumes "boxed t" "i < length (it_rows t)" "stored (CatRow i) t \<noteq> Some (box_value b)"
  shows "set_box (CatRow i) (box_value b) t =
     Some (show_header (with_cat i (box_value b) (map (\<lambda>x. x\<lparr>ti_check := Some (box_value b)\<rparr>) (tc_items (it_rows t ! i))) t))"
proof -
  let ?xs = "tc_items (it_rows t ! i)" and ?s = "box_value b"
  let ?ys = "map (\<lambda>x. x\<lparr>ti_check := Some ?s\<rparr>) ?xs"
  define w where "w = with_cat i ?s ?xs t"
  have put: "put (CatRow i) (Some ?s) t = w" using assms(2) by (simp add: w_def with_cat_def on_cat_def)
  have box: "boxed w" unfolding w_def using assms by (intro boxed_with_cat) (auto simp: boxed_def)
  have w: "i < length (it_rows w)" "tc_items (it_rows w ! i) = ?xs" "tc_check (it_rows w ! i) = Some ?s"
    using assms(2) by (simp_all add: w_def)
  obtain c h where ch: "check_children (setCheckState 3) i b [0..<length ?xs] w = Some ((with_cat i c ?ys w)\<lparr>it_header := h\<rparr>)"
      "c = ?s \<or> ?xs \<noteq> [] \<and> c = agg ?ys"
    using children_chain [OF box w(1) _ w(3), of "[0..<length ?xs]" b 0] by (auto simp: w(2) set_item_all numeral_3_eq_3)
  then have "c = ?s" using agg_all by auto
  then have "checkAllChild (setCheckState 3) i b w = Some ((with_cat i ?s ?ys w)\<lparr>it_header := h\<rparr>)"
    using ch(1) w(1) by (simp add: checkAllChild_def checkAllChildRecursion_def w(2) numeral_3_eq_3 setCheckState_same)
  then have "setHeaderState (setCheckState 3) (CatRow i) w = Some (show_header (with_cat i ?s ?ys t))"
    using boxed_cat [OF box w(1)] by (simp add: setHeaderState_def checkState_def check_of_def w(3)) (simp add: w_def)
  then show ?thesis using assms(3) by (simp add: setCheckState.simps SIGNAL_DEPTH_def put eval_nat_numeral del: put.simps stored.simps)
qed

section \<open>The boxes that should be checked\<close>

text \<open>A category with reinforcements shows whether all, some or none of them are checked; the others have a box of their own.\<close>

definition cat_ok :: "tree_cat \<Rightarrow> bool" where
  "cat_ok c \<longleftrightarrow> tc_checkable c \<and> (\<forall>x \<in> set (tc_items c). ti_checkable x \<and> ti_check x \<in> {Some Unchecked, Some Checked})
     \<and> (if tc_items c = [] then tc_check c \<in> {Some Unchecked, Some Checked} else tc_check c = Some (agg (tc_items c)))"

definition boxes_ok :: "item_table \<Rightarrow> bool" where
  "boxes_ok t \<longleftrightarrow> (\<forall>c \<in> set (it_rows t). cat_ok c) \<and> \<not> it_closed t \<and> (it_rows t \<noteq> [] \<longrightarrow> it_header t = header_of (it_rows t))"

datatype box_click = ClickBox row | PressHeader

fun click :: "box_click \<Rightarrow> item_table \<Rightarrow> item_table option" where
  "click (ClickBox r) t = click_box r t"
| "click PressHeader t = press_header t"

definition set_cat :: "check_state \<Rightarrow> tree_cat \<Rightarrow> tree_cat" where
  "set_cat s c = c\<lparr>tc_check := Some s, tc_items := map (\<lambda>x. x\<lparr>ti_check := Some s\<rparr>) (tc_items c)\<rparr>"

definition set_cat_item :: "nat \<Rightarrow> check_state \<Rightarrow> tree_cat \<Rightarrow> tree_cat" where
  "set_cat_item j s c = (let xs = set_item j s (tc_items c) in c\<lparr>tc_check := Some (agg xs), tc_items := xs\<rparr>)"

text \<open>What a click is to do, without signals.\<close>

fun click_spec :: "box_click \<Rightarrow> item_table \<Rightarrow> item_table" where
  "click_spec (ClickBox (CatRow i)) t =
     (if i < length (it_rows t) then show_header (on_cat i (\<lambda>c. set_cat (box_value (check_of (tc_check c) \<noteq> Checked)) c) t) else t)"
| "click_spec (ClickBox (ItemRow i j)) t =
     (if i < length (it_rows t) \<and> j < length (tc_items (it_rows t ! i))
      then show_header (on_cat i (\<lambda>c. set_cat_item j (box_value (check_of (ti_check (tc_items c ! j)) \<noteq> Checked)) c) t) else t)"
| "click_spec PressHeader t =
     (let s = box_value (it_header t = Unchecked); rows = map (set_cat s) (it_rows t)
      in t\<lparr>it_rows := rows, it_header := (if rows = [] then s else header_of rows)\<rparr>)"

lemma cat_ok_boxed: "(\<forall>c \<in> set (it_rows t). cat_ok c) \<Longrightarrow> boxed t"
  unfolding boxed_def cat_ok_def by (metis insertE empty_iff option.distinct(1))

lemma set_cat_ok: "cat_ok c \<Longrightarrow> cat_ok (set_cat (box_value b) c)"
  using agg_all [of "tc_items c" b] by (auto simp: cat_ok_def set_cat_def box_value_def)

lemma set_cat_item_ok:
  assumes "cat_ok c" "j < length (tc_items c)"
  shows "cat_ok (set_cat_item j (box_value b) c)"
proof -
  have "ti_checkable x \<and> ti_check x \<in> {Some Unchecked, Some Checked}" if "x \<in> set (set_item j (box_value b) (tc_items c))" for x
  proof -
    have "x \<in> insert ((tc_items c ! j)\<lparr>ti_check := Some (box_value b)\<rparr>) (set (tc_items c))"
      using that set_update_subset_insert unfolding set_item_def by fast
    then show ?thesis using assms by (auto simp: cat_ok_def box_value_def)
  qed
  moreover have "set_item j (box_value b) (tc_items c) \<noteq> []" using assms(2) by (auto simp: set_item_def)
  ultimately show ?thesis using assms(1) by (simp add: cat_ok_def set_cat_item_def Let_def)
qed

text \<open>A category that agrees with its reinforcements changes nothing when it is announced as changed.\<close>

lemma announce_ok:
  assumes "i < length (it_rows t)" "cat_ok (it_rows t ! i)"
  shows "box_changed (CatRow i) t = Some (show_header t)"
proof -
  let ?c = "it_rows t ! i"
  obtain s where s: "tc_check ?c = Some s" using assms(2) by (auto simp: cat_ok_def split: if_splits)
  have "checkAllChild set_box i (s = Checked) t = Some t" if "s \<noteq> PartiallyChecked"
  proof -
    have b: "box_value (s = Checked) = s" using that by (cases s) (auto simp: box_value_def)
    have "stored (ItemRow i j) t = Some s" if "j < length (tc_items ?c)" for j
    proof -
      have "s = agg (tc_items ?c)" using assms(2) s that by (auto simp: cat_ok_def split: if_splits)
      then have "check_of (ti_check (tc_items ?c ! j)) = s" using that \<open>s \<noteq> PartiallyChecked\<close> by (auto simp: agg_def split: if_splits)
      moreover have "ti_check (tc_items ?c ! j) \<noteq> None" using assms(2) that unfolding cat_ok_def by (metis insertE empty_iff nth_mem option.distinct(1))
      ultimately show ?thesis by (auto simp: check_of_def)
    qed
    then have "check_children set_box i (s = Checked) [0..<length (tc_items ?c)] t = Some t"
      unfolding SIGNAL_DEPTH_def eval_nat_numeral by (intro check_children_done) (simp add: b del: stored.simps)
    then show ?thesis using s b by (simp add: checkAllChild_def checkAllChildRecursion_def SIGNAL_DEPTH_def eval_nat_numeral setCheckState_same)
  qed
  then show ?thesis using assms(2) s by (simp add: setHeaderState_def cat_ok_def checkState_def check_of_def)
qed

text \<open>Setting the box of a category that agrees with its reinforcements.\<close>

lemma set_box_cat:
  assumes "\<forall>c \<in> set (it_rows t). cat_ok c" "i < length (it_rows t)"
  shows "\<exists>h. set_box (CatRow i) (box_value b) t = Some ((on_cat i (set_cat (box_value b)) t)\<lparr>it_header := h\<rparr>)"
proof (cases "stored (CatRow i) t = Some (box_value b)")
  case True
  let ?c = "it_rows t ! i"
  have c: "cat_ok ?c" using assms by simp
  have "ti_check x = Some (box_value b)" if "x \<in> set (tc_items ?c)" for x
  proof -
    have "box_value b = agg (tc_items ?c)" using c True that by (auto simp: cat_ok_def split: if_splits)
    then have "check_of (ti_check x) = box_value b" using that by (auto simp: agg_def split: if_splits)
    then show ?thesis using c that by (auto simp: cat_ok_def check_of_def)
  qed
  then have "map (\<lambda>x. x\<lparr>ti_check := Some (box_value b)\<rparr>) (tc_items ?c) = tc_items ?c"
    by (intro map_idI) (metis tree_item.surjective tree_item.update_convs(2))
  then have "set_cat (box_value b) ?c = ?c" using True by (simp add: set_cat_def same_check)
  then have "(on_cat i (set_cat (box_value b)) t)\<lparr>it_header := it_header t\<rparr> = t" using assms(2) by (simp add: on_cat_def)
  then show ?thesis using set_box_same [OF True] by metis
next
  case False
  have "with_cat i (box_value b) (map (\<lambda>x. x\<lparr>ti_check := Some (box_value b)\<rparr>) (tc_items (it_rows t ! i))) t = on_cat i (set_cat (box_value b)) t"
    by (simp add: with_cat_def on_cat_def set_cat_def)
  then show ?thesis using cat_set [OF cat_ok_boxed [OF assms(1)] assms(2) False] unfolding show_header_def by auto
qed

lemma select_step:
  assumes "\<forall>c \<in> set (it_rows t). cat_ok c" "i < length (it_rows t)"
  shows "(case set_box (CatRow i) (box_value b) t of None \<Rightarrow> None | Some t \<Rightarrow> box_changed (CatRow i) t) =
     Some (show_header (on_cat i (set_cat (box_value b)) t))"
proof -
  obtain h where h: "set_box (CatRow i) (box_value b) t = Some ((on_cat i (set_cat (box_value b)) t)\<lparr>it_header := h\<rparr>)"
    using set_box_cat [OF assms] by blast
  have "cat_ok (it_rows ((on_cat i (set_cat (box_value b)) t)\<lparr>it_header := h\<rparr>) ! i)"
    using assms set_cat_ok [of "it_rows t ! i"] by (simp add: on_cat_def)
  then have "box_changed (CatRow i) ((on_cat i (set_cat (box_value b)) t)\<lparr>it_header := h\<rparr>) =
      Some (show_header ((on_cat i (set_cat (box_value b)) t)\<lparr>it_header := h\<rparr>))"
    using assms(2) by (intro announce_ok) (simp add: on_cat_def)
  then show ?thesis by (simp add: h)
qed

lemma selectAllItem_eq:
  assumes "\<forall>c \<in> set (it_rows t). cat_ok c"
  shows "selectAllItem s t = Some (let rows = map (set_cat (box_value (s = Checked))) (it_rows t)
     in t\<lparr>it_rows := rows, it_header := (if rows = [] then it_header t else header_of rows)\<rparr>)"
proof -
  let ?f = "set_cat (box_value (s = Checked))"
  let ?step = "\<lambda>i t. case set_box (CatRow i) (box_value (s = Checked)) t of None \<Rightarrow> None | Some t \<Rightarrow> box_changed (CatRow i) t"
  have "for_rows ?step [0..<k] t = Some (let rows = map ?f (take k (it_rows t)) @ drop k (it_rows t)
      in t\<lparr>it_rows := rows, it_header := (if k = 0 then it_header t else header_of rows)\<rparr>)" if "k \<le> length (it_rows t)" for k
    using that
  proof (induction k)
    case (Suc k)
    define rows where "rows = map ?f (take k (it_rows t)) @ drop k (it_rows t)"
    define u where "u = t\<lparr>it_rows := rows, it_header := (if k = 0 then it_header t else header_of rows)\<rparr>"
    have rows_ok: "\<forall>c \<in> set rows. cat_ok c"
      using assms set_cat_ok unfolding rows_def by (auto dest: in_set_takeD in_set_dropD)
    have k: "k < length rows" "rows ! k = it_rows t ! k" using Suc.prems by (simp_all add: rows_def nth_append)
    have drop: "drop k (it_rows t) = it_rows t ! k # drop (Suc k) (it_rows t)" using Suc.prems by (simp add: Cons_nth_drop_Suc)
    have "rows[k := ?f (it_rows t ! k)] = map ?f (take (Suc k) (it_rows t)) @ drop (Suc k) (it_rows t)"
      using Suc.prems unfolding rows_def drop by (simp add: list_update_append min_def take_Suc_conv_app_nth)
    then have "show_header (on_cat k ?f u) = (let rows = map ?f (take (Suc k) (it_rows t)) @ drop (Suc k) (it_rows t)
        in t\<lparr>it_rows := rows, it_header := header_of rows\<rparr>)"
      using k(2) by (simp add: u_def on_cat_def show_header_def Let_def)
    moreover have "?step k u = Some (show_header (on_cat k ?f u))"
      using rows_ok k(1) by (intro select_step) (simp_all add: u_def)
    moreover have "for_rows ?step [0..<k] t = Some u" using Suc by (simp add: u_def rows_def Let_def)
    ultimately show ?case by (simp add: for_rows_def)
  qed (simp add: for_rows_def)
  from this [of "length (it_rows t)"] show ?thesis by (simp add: selectAllItem_def Let_def)
qed

lemma click_cases:
  obtains (header) "e = PressHeader" | (cat) i where "e = ClickBox (CatRow i)" "i < length (it_rows t)"
    | (item) i j where "e = ClickBox (ItemRow i j)" "i < length (it_rows t)" "j < length (tc_items (it_rows t ! i))"
    | (out) r where "e = ClickBox r" "\<not> row_exists r t"
proof (cases e)
  case (ClickBox r)
  then show ?thesis using that by (cases r; cases "row_exists r t") (auto simp: row_exists_def)
qed (rule that)

lemma click_follows_spec:
  assumes "boxes_ok t"
  shows "click e t = Some (click_spec e t) \<and> boxes_ok (click_spec e t)"
proof -
  from assms have ok: "\<forall>c \<in> set (it_rows t). cat_ok c" "boxed t" "\<not> it_closed t"
    by (auto simp: boxes_ok_def intro: cat_ok_boxed)
  have ok_at: "boxes_ok (show_header (on_cat i f t))" if "i < length (it_rows t)" "cat_ok (f (it_rows t ! i))" for i f
  proof -
    have "\<forall>c \<in> set ((it_rows t)[i := f (it_rows t ! i)]). cat_ok c"
      using ok(1) that set_update_subset_insert by fast
    then show ?thesis using ok(3) by (simp add: boxes_ok_def on_cat_def show_header_def)
  qed
  consider (header) "e = PressHeader" | (cat) i where "e = ClickBox (CatRow i)" "i < length (it_rows t)"
    | (item) i j where "e = ClickBox (ItemRow i j)" "i < length (it_rows t)" "j < length (tc_items (it_rows t ! i))"
    | (out) r where "e = ClickBox r" "\<not> row_exists r t"
    by (rule click_cases)
  then show ?thesis
  proof cases
    case header
    let ?s = "box_value (it_header t = Unchecked)"
    have "press_header t = selectAllItem ?s (t\<lparr>it_header := ?s\<rparr>)"
      using ok(3) by (simp add: press_header_def box_value_def)
    also have "\<dots> = Some (click_spec PressHeader t)" using ok(1) by (subst selectAllItem_eq) (simp_all add: Let_def)
    finally show ?thesis using header ok set_cat_ok by (auto simp: boxes_ok_def Let_def)
  next
    case cat
    define b where "b = (checkState (CatRow i) t \<noteq> Checked)"
    have f: "stored (CatRow i) t \<noteq> Some (box_value b)"
      by (auto simp: b_def checkState_def check_of_def box_value_def)
    have eq: "with_cat i s (map (\<lambda>x. x\<lparr>ti_check := Some s\<rparr>) (tc_items (it_rows t ! i))) t = on_cat i (set_cat s) t" for s
      by (simp add: with_cat_def on_cat_def set_cat_def)
    have "click_box (CatRow i) t = set_box (CatRow i) (box_value b) t"
      using cat(2) boxed_cat [OF ok(2) cat(2)] by (simp add: click_box_def row_exists_def b_def box_value_def)
    also have "\<dots> = Some (show_header (on_cat i (set_cat (box_value b)) t))" unfolding cat_set [OF ok(2) cat(2) f] eq ..
    also have "on_cat i (set_cat (box_value b)) t = on_cat i (\<lambda>c. set_cat (box_value (check_of (tc_check c) \<noteq> Checked)) c) t"
      by (simp add: b_def checkState_def on_cat_def)
    finally show ?thesis using cat ok(1) ok_at [OF cat(2)] set_cat_ok by simp
  next
    case item
    define b where "b = (checkState (ItemRow i j) t \<noteq> Checked)"
    have f: "stored (ItemRow i j) t \<noteq> Some (box_value b)"
      by (auto simp: b_def checkState_def check_of_def box_value_def)
    have eq: "with_cat i (agg (set_item j s (tc_items (it_rows t ! i)))) (set_item j s (tc_items (it_rows t ! i))) t = on_cat i (set_cat_item j s) t" for s
      by (simp add: with_cat_def on_cat_def set_cat_item_def Let_def)
    have "click_box (ItemRow i j) t = set_box (ItemRow i j) (box_value b) t"
      using item(2,3) boxed_item [OF ok(2) item(2,3)] by (simp add: click_box_def row_exists_def b_def box_value_def)
    also have "\<dots> = Some (show_header (on_cat i (set_cat_item j (box_value b)) t))"
      using item_chain [OF ok(2) item(2,3), of 1 "box_value b"] f by (simp add: eq SIGNAL_DEPTH_def eval_nat_numeral del: stored.simps)
    also have "on_cat i (set_cat_item j (box_value b)) t =
        on_cat i (\<lambda>c. set_cat_item j (box_value (check_of (ti_check (tc_items c ! j)) \<noteq> Checked)) c) t"
      by (simp add: b_def checkState_def on_cat_def)
    finally show ?thesis using item ok(1) ok_at [OF item(2)] set_cat_item_ok by simp
  next
    case out
    then show ?thesis using assms by (cases r) (auto simp: click_box_def row_exists_def)
  qed
qed

text \<open>Disabling the boxes keeps their values.\<close>

definition shape :: "item_table \<Rightarrow> (string \<times> check_state option \<times> (string \<times> check_state option) list) list" where
  "shape t = map (\<lambda>c. (tc_text c, tc_check c, map (\<lambda>x. (ti_text x, ti_check x)) (tc_items c))) (it_rows t)"

lemma shape_row:
  assumes "shape t' = shape t"
  shows "length (it_rows t') = length (it_rows t)"
    and "i < length (it_rows t) \<Longrightarrow> tc_text (it_rows t' ! i) = tc_text (it_rows t ! i) \<and> tc_check (it_rows t' ! i) = tc_check (it_rows t ! i)
       \<and> map (\<lambda>x. (ti_text x, ti_check x)) (tc_items (it_rows t' ! i)) = map (\<lambda>x. (ti_text x, ti_check x)) (tc_items (it_rows t ! i))"
proof -
  show len: "length (it_rows t') = length (it_rows t)" using arg_cong [OF assms, of length] by (simp add: shape_def)
  show "i < length (it_rows t) \<Longrightarrow> tc_text (it_rows t' ! i) = tc_text (it_rows t ! i) \<and> tc_check (it_rows t' ! i) = tc_check (it_rows t ! i)
       \<and> map (\<lambda>x. (ti_text x, ti_check x)) (tc_items (it_rows t' ! i)) = map (\<lambda>x. (ti_text x, ti_check x)) (tc_items (it_rows t ! i))"
    using arg_cong [OF assms, of "\<lambda>xs. xs ! i"] len by (simp add: shape_def)
qed

lemma shape_item:
  assumes "shape t' = shape t" "i < length (it_rows t)"
  shows "length (tc_items (it_rows t' ! i)) = length (tc_items (it_rows t ! i))"
    and "j < length (tc_items (it_rows t ! i)) \<Longrightarrow> ti_text (tc_items (it_rows t' ! i) ! j) = ti_text (tc_items (it_rows t ! i) ! j)
       \<and> ti_check (tc_items (it_rows t' ! i) ! j) = ti_check (tc_items (it_rows t ! i) ! j)"
proof -
  let ?f = "map (\<lambda>x. (ti_text x, ti_check x))"
  have eq: "?f (tc_items (it_rows t' ! i)) = ?f (tc_items (it_rows t ! i))" using shape_row(2) [OF assms] by simp
  then show len: "length (tc_items (it_rows t' ! i)) = length (tc_items (it_rows t ! i))" by (metis length_map)
  show "j < length (tc_items (it_rows t ! i)) \<Longrightarrow> ti_text (tc_items (it_rows t' ! i) ! j) = ti_text (tc_items (it_rows t ! i) ! j)
       \<and> ti_check (tc_items (it_rows t' ! i) ! j) = ti_check (tc_items (it_rows t ! i) ! j)"
    using arg_cong [OF eq, of "\<lambda>xs. xs ! j"] len by simp
qed

lemma shape_reads:
  assumes "shape t' = shape t"
  shows "row_exists r t' = row_exists r t" "row_exists r t \<Longrightarrow> stored r t' = stored r t" "row_exists r t \<Longrightarrow> row_text r t' = row_text r t"
    and "all_items t' = all_items t" "all_rows t' = all_rows t"
proof -
  note rows = shape_row [OF assms] shape_item [OF assms]
  show "row_exists r t' = row_exists r t" using rows by (auto simp: row_exists_def split: row.splits)
  show "row_exists r t \<Longrightarrow> stored r t' = stored r t" "row_exists r t \<Longrightarrow> row_text r t' = row_text r t"
    using rows by (cases r; simp add: row_exists_def)+
  show "all_items t' = all_items t" "all_rows t' = all_rows t"
    unfolding all_items_def all_rows_def by (intro arg_cong [where f = concat] map_cong; use rows in simp)+
qed

lemma put_checkable_shape: "shape (put_checkable r b t) = shape t"
proof -
  have cat: "shape (on_cat i f t) = shape t"
    if "\<And>c. c = it_rows t ! i \<Longrightarrow> tc_text (f c) = tc_text c \<and> tc_check (f c) = tc_check c \<and>
       map (\<lambda>x. (ti_text x, ti_check x)) (tc_items (f c)) = map (\<lambda>x. (ti_text x, ti_check x)) (tc_items c)" for i f
    using that by (cases "i < length (it_rows t)") (simp_all add: shape_def on_cat_def map_update list_update_beyond list_update_same_conv)
  have "map (\<lambda>x. (ti_text x, ti_check x)) (xs[j := (xs ! j)\<lparr>ti_checkable := b\<rparr>]) = map (\<lambda>x. (ti_text x, ti_check x)) xs" for xs j
    by (cases "j < length xs") (simp_all add: map_update list_update_beyond list_update_same_conv)
  then show ?thesis by (cases r) (auto simp: on_item_def intro!: cat)
qed

lemma put_checkable_off:
  "\<not> isCheckable r' t \<Longrightarrow> row_exists r' t \<Longrightarrow> \<not> isCheckable r' (put_checkable r False t)"
  "row_exists r t \<Longrightarrow> \<not> isCheckable r (put_checkable r False t)"
proof -
  have nth: "xs[i := y] ! k = (if k = i then y else xs ! k)" if "k < length xs" for xs :: "'x list" and i k y
    using that by (simp add: nth_list_update)
  show "\<not> isCheckable r' t \<Longrightarrow> row_exists r' t \<Longrightarrow> \<not> isCheckable r' (put_checkable r False t)"
    by (cases r; cases r') (auto simp: row_exists_def on_cat_def on_item_def nth split: if_splits)
  show "row_exists r t \<Longrightarrow> \<not> isCheckable r (put_checkable r False t)"
    by (cases r) (auto simp: row_exists_def on_cat_def on_item_def nth)
qed

lemma disable_boxes:
  assumes "\<forall>r \<in> set rs. row_exists r t"
  shows "\<exists>t'. for_rows (setCheckable False) rs t = Some t' \<and> shape t' = shape t \<and> it_header t' = it_header t \<and> it_count t' = it_count t
     \<and> (\<forall>r \<in> set rs. \<not> isCheckable r t') \<and> (\<forall>r. row_exists r t \<longrightarrow> \<not> isCheckable r t \<longrightarrow> \<not> isCheckable r t')"
  using assms
proof (induction rs arbitrary: t)
  case (Cons r rs)
  then have r: "row_exists r t" by simp
  have head: "it_header (put_checkable r' b u) = it_header u \<and> it_count (put_checkable r' b u) = it_count u" for r' b u by (cases r') (simp_all add: on_item_def on_cat_def)
  have "\<exists>u. setCheckable False r t = Some u \<and> shape u = shape t \<and> it_header u = it_header t \<and> it_count u = it_count t \<and> \<not> isCheckable r u
      \<and> (\<forall>r'. row_exists r' t \<longrightarrow> \<not> isCheckable r' t \<longrightarrow> \<not> isCheckable r' u)"
    using put_checkable_shape [of r False t] put_checkable_off(1) [where t = t and r = r] put_checkable_off(2) [OF r] head [of r False t]
    by (cases "isCheckable r t") (auto simp: setCheckable_def setHeaderState_def)
  then obtain u where u: "setCheckable False r t = Some u" "shape u = shape t" "it_header u = it_header t \<and> it_count u = it_count t" "\<not> isCheckable r u"
      "\<forall>r'. row_exists r' t \<longrightarrow> \<not> isCheckable r' t \<longrightarrow> \<not> isCheckable r' u" by blast
  from Cons.prems have "\<forall>r \<in> set rs. row_exists r u" by (simp add: shape_reads(1) [OF u(2)])
  from Cons.IH [OF this] obtain v where v: "for_rows (setCheckable False) rs u = Some v" "shape v = shape u" "it_header v = it_header u \<and> it_count v = it_count u"
      "\<forall>r \<in> set rs. \<not> isCheckable r v" "\<forall>r. row_exists r u \<longrightarrow> \<not> isCheckable r u \<longrightarrow> \<not> isCheckable r v" by blast
  then show ?case using u r shape_reads(1) [OF u(2)] by (auto simp: for_rows_def)
qed (simp add: for_rows_def)

text \<open>The boxes are disabled when progress is shown; they keep their values.\<close>

lemma edit_disabled:
  "\<exists>t'. setAllCheckBoxEditStatus False t = Some t' \<and> shape t' = shape t \<and> it_header t' = it_header t \<and> it_count t' = it_count t \<and> (\<forall>r. row_exists r t \<longrightarrow> \<not> isCheckable r t')"
proof -
  let ?t = "t\<lparr>it_closed := True\<rparr>"
  have rows: "r \<in> set (all_rows t) \<longleftrightarrow> row_exists r t" for r
    by (cases r) (force simp: all_rows_def row_exists_def)+
  have "\<forall>r \<in> set (all_rows t). row_exists r ?t" using rows by (auto simp: row_exists_def cong: row.case_cong)
  from disable_boxes [OF this] obtain t' where "for_rows (setCheckable False) (all_rows t) ?t = Some t'" "shape t' = shape ?t"
      "it_header t' = it_header ?t \<and> it_count t' = it_count ?t" "\<forall>r \<in> set (all_rows t). \<not> isCheckable r t'" by blast
  then show ?thesis using rows by (simp add: setAllCheckBoxEditStatus_def) (simp add: shape_def)
qed

text \<open>A disabled row takes no clicks.\<close>

lemma disabled_click: "\<not> isCheckable r t \<Longrightarrow> click (ClickBox r) t = Some t"
  by (simp add: click_box_def)

text \<open>The header counts the unchecked categories only: with some of each checked it shows all as checked.\<close>

lemma header_overstates:
  "c \<in> set rows \<Longrightarrow> \<forall>c \<in> set rows. tc_check c = Some PartiallyChecked \<Longrightarrow> header_of rows = Checked"
  by (auto simp: header_of_def check_of_def Let_def filter_empty_conv)

section \<open>Properties\<close>

text \<open>C38: The boxes of the list follow the clicks of the user: the signals a click on a reinforcement, a category
  or the header sets off always end, with a chain of at most four, and leave what the click is to do: the box of the
  reinforcement is toggled, or every box of the category or of the list is set, and afterwards every category shows
  whether all, some or none of its reinforcements are checked.\<close>

theorem boxes_follow_clicks:
  assumes "boxes_ok t"
  shows "for_rows click es t = Some (run (\<lambda>t e. click_spec e t) t es)
     \<and> (\<forall>c \<in> set (it_rows (run (\<lambda>t e. click_spec e t) t es)). tc_items c \<noteq> [] \<longrightarrow>
          tc_check c = Some (if \<forall>x \<in> set (tc_items c). ti_check x = Some Checked then Checked
             else if \<forall>x \<in> set (tc_items c). ti_check x = Some Unchecked then Unchecked else PartiallyChecked))"
proof -
  have "for_rows click es t = Some (run (\<lambda>t e. click_spec e t) t es) \<and> boxes_ok (run (\<lambda>t e. click_spec e t) t es)"
    using assms
  proof (induction es arbitrary: t)
    case (Cons e es)
    then show ?case using click_follows_spec [of t e] by (simp add: for_rows_def)
  qed (simp add: for_rows_def)
  moreover have "agg xs = (if \<forall>x \<in> set xs. ti_check x = Some Checked then Checked
      else if \<forall>x \<in> set xs. ti_check x = Some Unchecked then Unchecked else PartiallyChecked)"
    if "\<forall>x \<in> set xs. ti_check x \<in> {Some Unchecked, Some Checked}" for xs
  proof -
    have "(\<forall>x \<in> set xs. check_of (ti_check x) = s) \<longleftrightarrow> (\<forall>x \<in> set xs. ti_check x = Some s)" for s
      using that by (intro ball_cong refl) (auto simp: check_of_def)
    then show ?thesis by (simp only: agg_def)
  qed
  ultimately show ?thesis by (auto simp: boxes_ok_def cat_ok_def)
qed

definition sample_boxes :: item_table where
  "sample_boxes = \<lparr>it_rows =
     [\<lparr>tc_text = ''audit'', tc_check = Some Unchecked, tc_checkable = True, tc_items =
         map (\<lambda>n. \<lparr>ti_text = n, ti_check = Some Unchecked, ti_checkable = True, ti_status = ''-''\<rparr>) [''a1'', ''a2'']\<rparr>,
      \<lparr>tc_text = ''config'', tc_check = Some Unchecked, tc_checkable = True, tc_items = []\<rparr>],
     it_header = Unchecked, it_closed = False, it_count = 0\<rparr>"

theorem boxes_follow_clicks_witness:
  "for_rows click [PressHeader, ClickBox (ItemRow 0 1), ClickBox (CatRow 0)] sample_boxes =
     Some (run (\<lambda>t e. click_spec e t) sample_boxes [PressHeader, ClickBox (ItemRow 0 1), ClickBox (CatRow 0)])"
proof -
  have "boxes_ok sample_boxes"
    by (simp add: sample_boxes_def boxes_ok_def cat_ok_def agg_def check_of_def header_of_def)
  from boxes_follow_clicks [OF this] show ?thesis by blast
qed

text \<open>One reinforcement unchecked: its category shows some, the header all.\<close>

lemma header_overstates_sample:
  "map_option it_header (for_rows click [PressHeader, ClickBox (ItemRow 0 1)] sample_boxes) = Some Checked"
  "map_option (checkState (ItemRow 0 1)) (for_rows click [PressHeader, ClickBox (ItemRow 0 1)] sample_boxes) = Some Unchecked"
  "map_option (checkState (CatRow 0)) (for_rows click [PressHeader, ClickBox (ItemRow 0 1)] sample_boxes) = Some PartiallyChecked"
  by code_simp+

end
