(* ===== verification/SsrTypes.thy ===== *)
theory SsrTypes
  imports QtCore "HOL-Library.Word"
begin

text \<open>
  The enumerations and codes of \<open>include/ssr-i.h\<close> and \<open>include/ssr-error-i.h\<close> the
  daemon's components share. An enumeration whose values arrive as raw integers over
  D-Bus, or are produced by a cast from a raw integer, is a set of integer constants;
  the others are datatypes.
\<close>

unbundle bit_operations_syntax

section \<open>Integer-coded enumerations\<close>

text \<open>\<open>Account::Manager::AccountRole\<close>: bits, so that a filter can hold several roles.\<close>

type_synonym account_role = int

abbreviation (input) "role_sysadm \<equiv> (1 :: account_role)"
abbreviation (input) "role_secadm \<equiv> (2 :: account_role)"
abbreviation (input) "role_audadm \<equiv> (4 :: account_role)"
abbreviation (input) "role_unknown \<equiv> (8 :: account_role)"

text \<open>The enumerators in the order of the declaration, as \<open>QMetaEnum\<close> lists them.\<close>

definition account_role_enum :: "(string \<times> int) list" where
  "account_role_enum = [(''sysadm'', 1), (''secadm'', 2), (''audadm'', 4), (''unknown_account'', 8)]"

text \<open>\<open>QMetaEnum::keyToValue\<close> gives \<open>-1\<close> for an unknown key, \<open>valueToKey\<close> the null string.\<close>

definition keyToValue :: "(string \<times> int) list \<Rightarrow> string \<Rightarrow> int" where
  "keyToValue e k = (case map_of e k of None \<Rightarrow> -1 | Some v \<Rightarrow> v)"

definition valueToKey :: "(string \<times> int) list \<Rightarrow> int \<Rightarrow> qstring" where
  "valueToKey e v = map_of (map (\<lambda>(k, i). (i, k)) e) v"

type_synonym log_type = int

definition log_type_enum :: "(string \<times> int) list" where
  "log_type_enum = [(''ERROR'', -1), (''DEVICE'', 1), (''TOOL_BOX'', 2), (''BASELINE_REINFORCEMENT'', 4),
     (''TRUSTED_PROTECTION'', 8), (''FILES_PROTECTION'', 16), (''PRIVATE_BOX'', 32),
     (''ACCOUNT'', 64), (''AVC'', 128)]"

abbreviation (input) "log_DEVICE \<equiv> (1 :: log_type)"
abbreviation (input) "log_TOOL_BOX \<equiv> (2 :: log_type)"
abbreviation (input) "log_BASELINE_REINFORCEMENT \<equiv> (4 :: log_type)"
abbreviation (input) "log_PRIVATE_BOX \<equiv> (32 :: log_type)"
abbreviation (input) "log_ACCOUNT \<equiv> (64 :: log_type)"
abbreviation (input) "log_AVC \<equiv> (128 :: log_type)"

text \<open>\<open>LogResult\<close>.\<close>

abbreviation (input) "LOG_RESULT_FALSE \<equiv> (0 :: 32 word)"
abbreviation (input) "LOG_RESULT_TRUE \<equiv> (1 :: 32 word)"
abbreviation (input) "LOG_RESULT_ALL \<equiv> (2 :: 32 word)"

text \<open>\<open>InterfaceType\<close>.\<close>

abbreviation (input) "INTERFACE_TYPE_OTHER \<equiv> (0 :: int)"
abbreviation (input) "INTERFACE_TYPE_USB \<equiv> (1 :: int)"
abbreviation (input) "INTERFACE_TYPE_BLUETOOTH \<equiv> (2 :: int)"
abbreviation (input) "INTERFACE_TYPE_NET \<equiv> (3 :: int)"
abbreviation (input) "INTERFACE_TYPE_HDMI \<equiv> (4 :: int)"
abbreviation (input) "INTERFACE_TYPE_USB_KBD \<equiv> (5 :: int)"
abbreviation (input) "INTERFACE_TYPE_USB_MOUSE \<equiv> (6 :: int)"
abbreviation (input) "INTERFACE_TYPE_LAST \<equiv> (7 :: int)"

section \<open>Enumerations\<close>

datatype DeviceType =
    DEVICE_TYPE_OTHER | DEVICE_TYPE_STORAGE | DEVICE_TYPE_CD | DEVICE_TYPE_MOUSE
  | DEVICE_TYPE_KEYBOARD | DEVICE_TYPE_NET_CARD | DEVICE_TYPE_WIRELESS_NET_CARD
  | DEVICE_TYPE_VIDEO | DEVICE_TYPE_AUDIO | DEVICE_TYPE_PRINTER | DEVICE_TYPE_HUB
  | DEVICE_TYPE_COMMUNICATIONS | DEVICE_TYPE_BLUETOOTH

fun DeviceType_int :: "DeviceType \<Rightarrow> int" where
  "DeviceType_int DEVICE_TYPE_OTHER = 0"
| "DeviceType_int DEVICE_TYPE_STORAGE = 1"
| "DeviceType_int DEVICE_TYPE_CD = 2"
| "DeviceType_int DEVICE_TYPE_MOUSE = 3"
| "DeviceType_int DEVICE_TYPE_KEYBOARD = 4"
| "DeviceType_int DEVICE_TYPE_NET_CARD = 5"
| "DeviceType_int DEVICE_TYPE_WIRELESS_NET_CARD = 6"
| "DeviceType_int DEVICE_TYPE_VIDEO = 7"
| "DeviceType_int DEVICE_TYPE_AUDIO = 8"
| "DeviceType_int DEVICE_TYPE_PRINTER = 9"
| "DeviceType_int DEVICE_TYPE_HUB = 10"
| "DeviceType_int DEVICE_TYPE_COMMUNICATIONS = 11"
| "DeviceType_int DEVICE_TYPE_BLUETOOTH = 12"

lemma DeviceType_int_inject [simp]: "DeviceType_int a = DeviceType_int b \<longleftrightarrow> a = b"
  by (cases a; cases b) simp_all

text \<open>The enumerators compare by their codes.\<close>

instantiation DeviceType :: linorder
begin

definition less_eq_DeviceType :: "DeviceType \<Rightarrow> DeviceType \<Rightarrow> bool" where
  "less_eq_DeviceType a b \<longleftrightarrow> DeviceType_int a \<le> DeviceType_int b"

definition less_DeviceType :: "DeviceType \<Rightarrow> DeviceType \<Rightarrow> bool" where
  "less_DeviceType a b \<longleftrightarrow> DeviceType_int a < DeviceType_int b"

instance
  by standard (auto simp: less_eq_DeviceType_def less_DeviceType_def order.antisym)

end

datatype DeviceState = DEVICE_STATE_UNAUTHORIED | DEVICE_STATE_ENABLE | DEVICE_STATE_DISABLE

fun DeviceState_int :: "DeviceState \<Rightarrow> int" where
  "DeviceState_int DEVICE_STATE_UNAUTHORIED = 0"
| "DeviceState_int DEVICE_STATE_ENABLE = 1"
| "DeviceState_int DEVICE_STATE_DISABLE = 2"

datatype DeviceAction = DEVICE_ACTION_ADD | DEVICE_ACTION_REMOVE | DEVICE_ACTION_CHANGE

datatype SDDeviceAction =
    SD_DEVICE_ACTION_INVALID | SD_DEVICE_ACTION_ADD | SD_DEVICE_ACTION_REMOVE | SD_DEVICE_ACTION_CHANGE

text \<open>\<open>DeviceConnectState\<close>.\<close>

abbreviation (input) "DEVICE_CONNECT_SUCCESSED \<equiv> (0 :: int)"
abbreviation (input) "DEVICE_CONNECT_FAILED \<equiv> (1 :: int)"

text \<open>\<open>SSRErrorCode\<close>.\<close>

datatype SSRErrorCode =
    SUCCESS | ERROR_FAILED | ERROR_COMMON_INVALID_ARGS
  | ERROR_TP_ADD_INVALID_FILE | ERROR_TP_ADD_RECUR_FILE | ERROR_CHANGE_STORAGE_MODE_FAILED
  | ERROR_USER_PIN_ERROR
  | ERROR_BM_DELETE_FAILED | ERROR_BM_MOUDLE_UNLOAD | ERROR_BM_MKDIR_DATA_DIR_FAILED
  | ERROR_BM_NOT_FOUND | ERROR_BM_REPEATED_NAME | ERROR_BM_SETTINGS_SAME_PASSWORD
  | ERROR_BM_UMOUNT_FAIL | ERROR_BM_MODIFY_PASSWORD_FAILED | ERROR_BM_CHECK_PASSWORD_FAILED
  | ERROR_BM_INPUT_PASSWORD_ERROR | ERROR_BM_INPUT_PASSPHRASE_ERROR | ERROR_BM_INTERNAL_ERRORS
  | ERROR_DEVICE_INVALID_ID | ERROR_DEVICE_INVALID_PERM | ERROR_DEVICE_INVALID_IFC_TYPE
  | ERROR_DEVICE_DISABLE_HDMI
  | ERROR_ACCOUNT_PASSWORD_ERROR | ERROR_ACCOUNT_BE_FREEZE | ERROR_ACCOUNT_BE_DIFF_NEW_PASSWORD
  | ERROR_ACCOUNT_CHECK_PASSWORD_FAILED | ERROR_ACCOUNT_PERMISSION_DENIED
  | ERROR_ACCOUNT_UNKNOWN_ACCOUNT | ERROR_ACCOUNT_FAILED_SET_MULTI_FACTOR_AUTH_STATE
  | ERROR_LOG_GET_LOG_PAGE_ERROR
  | ERROR_TOOL_BOX_FAILED_SET_ACCESS_CONTROL | ERROR_TOOL_BOX_FAILED_SET_MLS_CONTEXT
  | ERROR_TOOL_BOX_FAILED_SET_KIC_CONTEXT | ERROR_TOOL_BOX_FAILED_GET_MLS_CONTEXT
  | ERROR_TOOL_BOX_FAILED_GET_KIC_CONTEXT | ERROR_TOOL_BOX_FAILED_ADD_OBJ_TO_SECURITY_SIGN
  | ERROR_TOOL_BOX_FAILED_REMOVE_USERS | ERROR_TOOL_BOX_FAILED_SHRED_FILES

text \<open>\<open>BRErrorCode\<close>, its first two codes renamed.\<close>

datatype BRErrorCode =
    BR_SUCCESS | BR_ERROR_FAILED | ERROR_PLUGIN_NOT_EXIST_1 | ERROR_CUSTOM_RS_DECRYPT_FAILED
  | ERROR_CORE_REINFORCE_JOB_FAILED | ERROR_DAEMON_STANDARD_TYPE_INVALID
  | ERROR_DAEMON_SET_STANDARD_TYPE_FAILED | ERROR_DAEMON_STRATEGY_TYPE_INVALID
  | ERROR_DAEMON_SET_STRATEGY_TYPE_FAILED | ERROR_DAEMON_SET_TIME_SCAN_FAILED
  | ERROR_DAEMON_NOTIFICATION_STATUS_INVALID | ERROR_DAEMON_SET_NOTIFICATION_STATUS_FAILED
  | ERROR_DAEMON_RESOURCE_MONITOR_INVALID | ERROR_DAEMON_SET_RESOURCE_MONITOR_FAILED
  | ERROR_DAEMON_FALLBACK_STATUS_INVALID | ERROR_DAEMON_SET_FALLBACK_STATUS_FAILED
  | ERROR_DAEMON_SET_FALLBACK_RH_EMPTY | ERROR_DAEMON_CONVERT_CATEGORIES2JSON_FAILED
  | ERROR_DAEMON_GET_RS_FAILED | ERROR_DAEMON_CONVERT_PLUGINS2JSON_FAILED
  | ERROR_DAEMON_JSON2RS_FAILED | ERROR_DAEMON_RS_CONTENT_INVALID
  | ERROR_DAEMON_SET_REINFORCEMENT_FAILED | ERROR_DAEMON_REINFORCEMENT_NOTFOUND
  | ERROR_DAEMON_GEN_REINFORCEMENT_FAILED | ERROR_DAEMON_GEN_REINFORCEMENTS_FAILED
  | ERROR_DAEMON_SCAN_ALL_JOB_FAILED | ERROR_DAEMON_SCAN_IS_RUNNING
  | ERROR_DAEMON_PLUGIN_OF_REINFORCEMENT_NOT_FOUND | ERROR_DAEMON_PLUGIN_INTERFACE_NOT_FOUND
  | ERROR_DAEMON_SCAN_RANGE_INVALID | ERROR_DAEMON_REINFORCE_IS_RUNNING
  | ERROR_DAEMON_REINFORCE_RANGE_INVALID | ERROR_DAEMON_FALLBACK_CANNOT_RUNNING
  | ERROR_DAEMON_CANCEL_CANNOT_CANCELLED_1 | ERROR_DAEMON_CANCEL_CANNOT_CANCELLED_2
  | ERROR_DAEMON_CANCEL_NOTFOUND_JOB | ERROR_DAEMON_PLUGIN_CALL_PYTHON_FUNC_FAILED
  | ERROR_DAEMON_MACHINE_CODE_TRANS_FAILED | ERROR_DAEMON_ACTIVATION_CODE_INVALID
  | ERROR_DAEMON_SOFTWARE_UNACTIVATED | ERROR_PLUGIN_AUDIT_GET_JSON_ERROR
  | ERROR_PLUGIN_AUDIT_SET_JSON_ERROR | ERROR_PLUGIN_CONFIG_REINFORCEMENT_NOTFOUND
  | ERROR_PLUGIN_CONFIG_UNSUPPORTED_REQ | ERROR_PLUGIN_CONFIG_JSON_EXCEPTION

section \<open>Replies and external actions\<close>

text \<open>The JSON values the D-Bus methods return (\<open>QJsonValue\<close>, objects as ordered key lists).\<close>

datatype json = JNull | JBool bool | JInt int | JStr string | JArr "json list" | JObj "(string \<times> json) list"

text \<open>What a handler does to the outside, in the order it does it.\<close>

datatype effect =
    Reply string                                \<comment> \<open>a method return to a caller\<close>
  | ReplyError string SSRErrorCode              \<comment> \<open>an error reply to a caller\<close>
  | ReplyBRError string BRErrorCode             \<comment> \<open>an error reply of the baseline reinforcement\<close>
  | ReplyNoCall BRErrorCode                     \<comment> \<open>an error reply sent while no call is handled, which Qt leaves undefined\<close>
  | ReplyDenied string                          \<comment> \<open>polkit refused the caller\<close>
  | EmitSignal string string int                \<comment> \<open>a signal, its string and its integer argument\<close>
  | EmitReport string int int int int "(string \<times> int \<times> string option \<times> string option) list"
      \<comment> \<open>the progress of a job: signal, finished of all operations (sent as a percentage), job, state of
        the job, items (name, state, arguments, error)\<close>
  | Exec string "string list"                   \<comment> \<open>a program run to its end\<close>
  | WriteFile string string                     \<comment> \<open>a file opened for writing and its new text\<close>
  | RemoveFile string
  | SystemdCall string "string list"            \<comment> \<open>a call to systemd: method, arguments\<close>
  | Kill int                                    \<comment> \<open>SIGKILL to a process\<close>

end
