(* ===== verification/BRRule.thy ===== *)
theory BRRule
  imports Complex_Main SsrTypes
begin

text \<open>
  The rules of the reinforcement standard: \<open>src/daemon/br/rule.cpp\<close>, the rules of one
  reinforcement in \<open>src/daemon/br/reinforcement.cpp\<close>, and the conversion of the texts of the
  standard into values, \<open>StrUtils::str2jsonValue\<close> in \<open>lib/base/str-utils.cpp\<close>.

  A value is a \<open>QJsonValue\<close> with its type. Its numbers are doubles; a finite double is a rational
  number, and the only arithmetic done on two of them is their difference, compared with \<open>EPS\<close>: the
  rounding of that difference is left out.
\<close>

section \<open>Values\<close>

datatype qjson = QUndefined | QNull | QBool bool | QDouble rat | QString string | QArray "qjson list"
  | QObject "(string \<times> qjson) list"

datatype qjson_type = TUndefined | TNull | TBool | TDouble | TString | TArray | TObject

fun q_type :: "qjson \<Rightarrow> qjson_type" where
  "q_type QUndefined = TUndefined"
| "q_type QNull = TNull"
| "q_type (QBool b) = TBool"
| "q_type (QDouble d) = TDouble"
| "q_type (QString s) = TString"
| "q_type (QArray a) = TArray"
| "q_type (QObject ob) = TObject"

definition q_isNull :: "qjson \<Rightarrow> bool" where
  "q_isNull v \<longleftrightarrow> q_type v = TNull"

text \<open>\<open>QJsonValue::toInt\<close>: 0 for a number that is no 32-bit integer.\<close>

definition q_toInt :: "rat \<Rightarrow> int" where
  "q_toInt d = (if of_int \<lfloor>d\<rfloor> = d \<and> int32_ok \<lfloor>d\<rfloor> then \<lfloor>d\<rfloor> else 0)"

definition is_digit_char :: "char \<Rightarrow> bool" where
  "is_digit_char c \<longleftrightarrow> (of_char c :: nat) \<in> {48..57}"

definition str2jsonValue :: "string \<Rightarrow> qjson" where
  "str2jsonValue str =
     (if str = [] then QString str
      else if str = ''true'' \<or> str = ''false'' then QBool (str = ''true'')
      else if list_all is_digit_char str then QDouble (of_int (toInt str))
      else QString str)"

text \<open>The value of a member of an object: undefined when there is none.\<close>

definition q_member :: "string \<Rightarrow> (string \<times> qjson) list \<Rightarrow> qjson" where
  "q_member k ob = (case map_of ob k of None \<Rightarrow> QUndefined | Some v \<Rightarrow> v)"

section \<open>Comparison\<close>

datatype JsonCmpResult = JSON_CMP_RESULT_UNKNOWN | JSON_CMP_RESULT_LESS | JSON_CMP_RESULT_EQUAL | JSON_CMP_RESULT_GREATER

definition EPS :: rat where
  "EPS = 1 / 1000000"

text \<open>\<open>RETURN_CMP_VALUE\<close>.\<close>

definition cmp_value :: "'a::linorder \<Rightarrow> 'a \<Rightarrow> JsonCmpResult" where
  "cmp_value a b = (if a = b then JSON_CMP_RESULT_EQUAL else if a < b then JSON_CMP_RESULT_LESS else JSON_CMP_RESULT_GREATER)"

definition jsonValueCmp :: "qjson \<Rightarrow> qjson \<Rightarrow> JsonCmpResult" where
  "jsonValueCmp v1 v2 =
     (if q_isNull v1 \<and> q_isNull v2 then JSON_CMP_RESULT_EQUAL
      else if q_isNull v1 then JSON_CMP_RESULT_LESS
      else if q_isNull v2 then JSON_CMP_RESULT_GREATER
      else case (v1, v2) of
             (QDouble a, QDouble b) \<Rightarrow>
               if - 777777 \<noteq> a
               then (if \<bar>a - b\<bar> < EPS then JSON_CMP_RESULT_EQUAL
                     else if a < b then JSON_CMP_RESULT_LESS else JSON_CMP_RESULT_GREATER)
               else cmp_value (q_toInt a) (q_toInt b)
           | (QString a, QString b) \<Rightarrow> cmp_value a b
           | (QBool a, QBool b) \<Rightarrow> cmp_value a b
           | _ \<Rightarrow> JSON_CMP_RESULT_UNKNOWN)"

section \<open>Rules\<close>

text \<open>The element \<open>rule\<close> of the standard: its type and the three optional values.\<close>

datatype RuleType = RT_NONE | RT_FIXED | RT_RANGE | RT_ENUM

record rule_element =
  re_type :: RuleType
  re_value_fixed :: "string option"
  re_value_range :: "(string option \<times> string option) option"
  re_value_enum :: "string list option"

datatype rule = RuleRange qjson qjson qjson_type | RuleEnum "qjson list"

definition newRuleRange :: "qjson \<Rightarrow> qjson \<Rightarrow> rule" where
  "newRuleRange minValue maxValue =
     RuleRange minValue maxValue
       (if \<not> q_isNull minValue then q_type minValue
        else if \<not> q_isNull maxValue then q_type maxValue else TUndefined)"

definition newRuleFixed :: "qjson \<Rightarrow> rule" where
  "newRuleFixed v = newRuleRange v v"

definition optional_value :: "string option \<Rightarrow> qjson" where
  "optional_value b = (case b of None \<Rightarrow> QNull | Some s \<Rightarrow> str2jsonValue s)"

definition rule_create :: "rule_element \<Rightarrow> rule option" where
  "rule_create r =
     (case re_type r of
        RT_FIXED \<Rightarrow> map_option (\<lambda>v. newRuleFixed (str2jsonValue (filter (\<lambda>c. c \<noteq> CHR 0x22) v))) (re_value_fixed r)
      | RT_RANGE \<Rightarrow> map_option (\<lambda>(lo, hi). newRuleRange (optional_value lo) (optional_value hi)) (re_value_range r)
      | RT_ENUM \<Rightarrow> map_option (\<lambda>vs. RuleEnum (map str2jsonValue vs)) (re_value_enum r)
      | RT_NONE \<Rightarrow> None)"

fun rule_match :: "rule \<Rightarrow> qjson \<Rightarrow> bool" where
  "rule_match (RuleRange lo hi ty) v =
     (if q_isNull lo \<and> q_isNull hi then True
      else if q_type v \<noteq> ty then False
      else if \<not> q_isNull lo \<and> jsonValueCmp lo v \<in> {JSON_CMP_RESULT_UNKNOWN, JSON_CMP_RESULT_GREATER} then False
      else if \<not> q_isNull hi \<and> jsonValueCmp hi v \<in> {JSON_CMP_RESULT_UNKNOWN, JSON_CMP_RESULT_LESS} then False
      else True)"
| "rule_match (RuleEnum vs) v = list_ex (\<lambda>e. jsonValueCmp e v = JSON_CMP_RESULT_EQUAL) vs"

section \<open>The rules of a reinforcement\<close>

text \<open>The elements \<open>arg\<close> and \<open>reinforcement\<close> of the standard and of the files made from it. Of the
  schema's optional elements, those the daemon reads are kept.\<close>

record arg =
  ar_name :: string
  ar_value :: string
  ar_rule :: "rule_element option"
  ar_input_example :: "string option"

record reinforcement =
  rf_name :: string
  rf_category :: "string option"
  rf_label :: string
  rf_description :: string
  rf_checkbox :: "bool option"
  rf_args :: "arg list"

definition add_rule :: "arg \<Rightarrow> (string, rule) qmap \<Rightarrow> (string, rule) qmap" where
  "add_rule a m =
     (case ar_rule a of
        None \<Rightarrow> m
      | Some re \<Rightarrow> (case rule_create re of
            None \<Rightarrow> m
          | Some ru \<Rightarrow> if qm_contains (ar_name a) m then m else qm_insert (ar_name a) ru m))"

definition updateRules :: "reinforcement \<Rightarrow> (string, rule) qmap" where
  "updateRules r = fold add_rule (rf_args r) []"

definition matchRules :: "(string, rule) qmap \<Rightarrow> (string \<times> qjson) list \<Rightarrow> bool" where
  "matchRules rules values =
     list_all (\<lambda>(k, ru). map_of values k \<noteq> None \<and> rule_match ru (q_member k values)) rules"

section \<open>What the rules accept\<close>

lemma str2jsonValue_nat: "str2jsonValue (show_nat n) = QDouble (if int n \<le> 2147483647 then of_nat n else 0)"
proof -
  have digits: "list_all is_digit_char (show_nat n)"
    using show_nat_digits by (auto simp: list_all_iff is_digit_char_def)
  have "\<not> is_digit_char (CHR ''t'')" "\<not> is_digit_char (CHR ''f'')" by (simp_all add: is_digit_char_def)
  with digits have "show_nat n \<noteq> ''true''" "show_nat n \<noteq> ''false''" by auto
  moreover have "show_nat n = show_int (int n)" by (simp add: show_int_def)
  ultimately show ?thesis
    using digits show_nat_nonempty [of n] by (simp add: str2jsonValue_def toInt_show_int int32_ok_def)
qed

lemma cmp_number:
  "a \<noteq> - 777777 \<Longrightarrow> jsonValueCmp (QDouble a) (QDouble b) =
     (if \<bar>a - b\<bar> < EPS then JSON_CMP_RESULT_EQUAL else if a < b then JSON_CMP_RESULT_LESS else JSON_CMP_RESULT_GREATER)"
  by (simp add: jsonValueCmp_def q_isNull_def)

lemma cmp_type_differs:
  "q_type v1 \<noteq> q_type v2 \<Longrightarrow> \<not> q_isNull v1 \<Longrightarrow> \<not> q_isNull v2 \<Longrightarrow> jsonValueCmp v1 v2 = JSON_CMP_RESULT_UNKNOWN"
  by (cases v1; cases v2) (simp_all add: jsonValueCmp_def q_isNull_def)

lemma range_number:
  assumes "a \<noteq> - 777777" "b \<noteq> - 777777"
  shows "rule_match (newRuleRange (QDouble a) (QDouble b)) v \<longleftrightarrow> (\<exists>x. v = QDouble x \<and> a < x + EPS \<and> x < b + EPS)"
proof (cases v)
  case (QDouble x)
  have "\<bar>a - x\<bar> < EPS \<or> a < x \<longleftrightarrow> a < x + EPS" "\<bar>b - x\<bar> < EPS \<or> \<not> b < x \<longleftrightarrow> x < b + EPS"
    by (auto simp: EPS_def abs_if)
  then show ?thesis
    using assms QDouble by (auto simp: newRuleRange_def q_isNull_def cmp_number)
qed (simp_all add: newRuleRange_def q_isNull_def)

text \<open>The rule of a parameter: that of the first parameter of its name with a rule that can be made.\<close>

definition first_rule :: "arg list \<Rightarrow> string \<Rightarrow> rule option" where
  "first_rule as k = map_of (List.map_filter (\<lambda>a. map_option (Pair (ar_name a)) (Option.bind (ar_rule a) rule_create)) as) k"

lemma first_rule_simps:
  "first_rule [] k = None"
  "first_rule (a # as) k = (case Option.bind (ar_rule a) rule_create of
      None \<Rightarrow> first_rule as k
    | Some ru \<Rightarrow> if ar_name a = k then Some ru else first_rule as k)"
  by (simp_all add: first_rule_def map_filter_simps split: option.splits)

lemma add_rule_ok: "qm_ok m \<Longrightarrow> qm_ok (add_rule a m)"
  by (simp add: add_rule_def qm_ok_insert split: option.splits)

lemma add_rule_value:
  "qm_ok m \<Longrightarrow> qm_value k (add_rule a m) =
     (case qm_value k m of Some ru \<Rightarrow> Some ru
      | None \<Rightarrow> if ar_name a = k then Option.bind (ar_rule a) rule_create else None)"
  by (auto simp: add_rule_def qm_value_insert qm_contains_value split: option.splits)

lemma fold_add_rule:
  "qm_ok m \<Longrightarrow> qm_ok (fold add_rule as m) \<and> qm_value k (fold add_rule as m) =
     (case qm_value k m of Some ru \<Rightarrow> Some ru | None \<Rightarrow> first_rule as k)"
proof (induction as arbitrary: m)
  case Nil
  then show ?case by (simp add: first_rule_simps split: option.splits)
next
  case (Cons a as)
  then show ?case
    using add_rule_ok [of m a] by (auto simp: add_rule_value first_rule_simps split: option.splits bind_splits)
qed

lemma updateRules_value: "qm_ok (updateRules r)" "qm_value k (updateRules r) = first_rule (rf_args r) k"
  using fold_add_rule [of "[]"] by (simp_all add: updateRules_def)

text \<open>The values a scan has read are up to the standard exactly when every parameter with a usable rule
  has a value that its rule accepts; of several rules for one parameter the first counts.\<close>

theorem matchRules_first_rules:
  "matchRules (updateRules r) values \<longleftrightarrow>
     (\<forall>k ru. first_rule (rf_args r) k = Some ru \<longrightarrow> (\<exists>v. map_of values k = Some v \<and> rule_match ru v))"
proof -
  have "(k, ru) \<in> set (updateRules r) \<longleftrightarrow> first_rule (rf_args r) k = Some ru" for k ru
    using qm_value_mem [OF updateRules_value(1)] updateRules_value(2) by metis
  moreover have "map_of values k \<noteq> None \<and> rule_match ru (q_member k values) \<longleftrightarrow>
      (\<exists>v. map_of values k = Some v \<and> rule_match ru v)" for k ru
    by (cases "map_of values k") (simp_all add: q_member_def)
  ultimately show ?thesis
    unfolding matchRules_def list_all_iff by blast
qed

definition sample_range :: "string option \<Rightarrow> string option \<Rightarrow> rule_element" where
  "sample_range lo hi = \<lparr>re_type = RT_RANGE, re_value_fixed = None, re_value_range = Some (lo, hi), re_value_enum = None\<rparr>"

definition sample_reinforcement :: reinforcement where
  "sample_reinforcement = \<lparr>rf_name = ''password-expired'', rf_category = None, rf_label = [], rf_description = [],
     rf_checkbox = None,
     rf_args = [\<lparr>ar_name = ''max-days'', ar_value = ''90'', ar_rule = Some (sample_range (Some ''1'') (Some ''90'')), ar_input_example = None\<rparr>,
                \<lparr>ar_name = ''max-days'', ar_value = ''90'', ar_rule = Some (sample_range (Some ''7'') None), ar_input_example = None\<rparr>]\<rparr>"

theorem matchRules_first_rules_witness:
  "matchRules (updateRules sample_reinforcement) [(''max-days'', QDouble 1)]"
proof -
  let ?r = "newRuleRange (QDouble 1) (QDouble 90)"
  have texts: "str2jsonValue ''1'' = QDouble 1" "str2jsonValue ''90'' = QDouble 90" by code_simp+
  have "first_rule (rf_args sample_reinforcement) k = (if k = ''max-days'' then Some ?r else None)" for k
    by (simp add: first_rule_simps sample_reinforcement_def sample_range_def rule_create_def optional_value_def texts)
  moreover have "rule_match ?r (QDouble 1)" by (subst range_number) (simp_all add: EPS_def)
  ultimately show ?thesis
    unfolding matchRules_first_rules by simp
qed

text \<open>A range written as two numbers accepts exactly the numbers between them, up to less than a millionth;
  a rule whose number is negative accepts no number at all, since only digits are read as a number.\<close>

theorem numeric_rules:
  assumes "int a \<le> 2147483647" and "int b \<le> 2147483647"
  shows "(\<forall>v. rule_match (the (rule_create (sample_range (Some (show_nat a)) (Some (show_nat b))))) v \<longleftrightarrow>
        (\<exists>x. v = QDouble x \<and> of_nat a < x + EPS \<and> x < of_nat b + EPS))
     \<and> (\<forall>x hi. \<not> rule_match (the (rule_create (sample_range (Some (CHR ''-'' # show_nat a)) hi))) (QDouble x))"
proof (intro conjI allI)
  have "(of_nat a :: rat) \<noteq> - 777777" "(of_nat b :: rat) \<noteq> - 777777"
    using of_nat_0_le_iff [of a, where ?'a = rat] of_nat_0_le_iff [of b, where ?'a = rat] by linarith+
  with assms show "rule_match (the (rule_create (sample_range (Some (show_nat a)) (Some (show_nat b))))) v \<longleftrightarrow>
        (\<exists>x. v = QDouble x \<and> of_nat a < x + EPS \<and> x < of_nat b + EPS)" for v
    by (simp add: rule_create_def sample_range_def optional_value_def str2jsonValue_nat range_number)
  have "str2jsonValue (CHR ''-'' # s) = QString (CHR ''-'' # s)" for s
    by (simp add: str2jsonValue_def is_digit_char_def)
  then show "\<not> rule_match (the (rule_create (sample_range (Some (CHR ''-'' # show_nat a)) hi))) (QDouble x)" for x hi
    by (simp add: rule_create_def sample_range_def optional_value_def newRuleRange_def q_isNull_def)
qed

theorem numeric_rules_witness:
  "rule_match (the (rule_create (sample_range (Some (show_nat 1)) (Some (show_nat 90))))) (QDouble 90)"
  using numeric_rules [of 1 90] by (simp add: EPS_def)

end
