(* ===== verification/LogManager.thy ===== *)
theory LogManager
  imports SsrTypes
begin

text \<open>
  The log manager (\<open>src/daemon/log\<close>): the record of a log entry and its line in the
  log file (\<open>Message\<close>), the configuration, the bounded list of entries kept in memory
  (\<open>Manager::writeLog\<close>), the filter and the pages of the query methods
  (\<open>GetLogNum\<close>, \<open>GetLog\<close>) and one turn of the thread that writes the file
  (\<open>WriteWorker::run\<close>). The text form of a time is Qt's: \<open>fmt_time\<close> and \<open>parse_time\<close> are
  parameters.
\<close>

section \<open>Entries and their serialisation\<close>

text \<open>\<open>l_time\<close> is the time in milliseconds since the epoch (\<open>QDateTime\<close>).\<close>

record log_entry =
  l_name :: string
  l_role :: account_role
  l_time :: int
  l_type :: log_type
  l_result :: bool
  l_msg :: string

definition log_default :: log_entry where
  "log_default = \<lparr>l_name = [], l_role = 0, l_time = 0, l_type = 0, l_result = False, l_msg = []\<rparr>"

definition toSecsSinceEpoch :: "int \<Rightarrow> int" where
  "toSecsSinceEpoch ms = sgn ms * (\<bar>ms\<bar> div 1000)"

definition serialize :: "(int \<Rightarrow> string) \<Rightarrow> log_entry \<Rightarrow> string" where
  "serialize fmt_time l = join ''|''
     [qs_str (valueToKey account_role_enum (l_role l)),
      fmt_time (l_time l),
      qs_str (valueToKey log_type_enum (l_type l)),
      (if l_result l then ''true'' else ''false''),
      l_msg l]"

definition deserialize :: "(string \<Rightarrow> int) \<Rightarrow> string \<Rightarrow> log_entry" where
  "deserialize parse_time s =
     (let p = split s ''|'' in
      if length p \<noteq> 5 then log_default
      else \<lparr>l_name = p ! 0, l_role = keyToValue account_role_enum (p ! 0), l_time = parse_time (p ! 1),
            l_type = keyToValue log_type_enum (p ! 2), l_result = (p ! 3 = ''true''), l_msg = p ! 4\<rparr>)"

text \<open>The enumerators that have a key.\<close>

definition valid_role :: "account_role \<Rightarrow> bool" where
  "valid_role r \<longleftrightarrow> r \<in> {role_sysadm, role_secadm, role_audadm, role_unknown}"

definition valid_log_type :: "log_type \<Rightarrow> bool" where
  "valid_log_type t \<longleftrightarrow> t \<in> {-1, 1, 2, 4, 8, 16, 32, 64, 128}"

lemma role_key_roundtrip:
  "valid_role r \<Longrightarrow> keyToValue account_role_enum (qs_str (valueToKey account_role_enum r)) = r
     \<and> CHR ''|'' \<notin> set (qs_str (valueToKey account_role_enum r))"
  by (auto simp: valid_role_def valueToKey_def keyToValue_def account_role_enum_def)

lemma log_type_key_roundtrip:
  "valid_log_type t \<Longrightarrow> keyToValue log_type_enum (qs_str (valueToKey log_type_enum t)) = t
     \<and> CHR ''|'' \<notin> set (qs_str (valueToKey log_type_enum t))"
  by (auto simp: valid_log_type_def valueToKey_def keyToValue_def log_type_enum_def)

text \<open>
  Reading back a serialised entry, with any text \<open>nl\<close> after it, as \<open>readLine\<close> leaves the
  line's newline there: the name becomes the role's key, \<open>nl\<close> ends up in the message.
\<close>

lemma deserialize_serialize:
  assumes "valid_role (l_role l)" "valid_log_type (l_type l)"
    and "CHR ''|'' \<notin> set (l_msg l)" "CHR ''|'' \<notin> set (fmt_time (l_time l))" "CHR ''|'' \<notin> set nl"
    and "parse_time (fmt_time (l_time l)) = l_time l"
  shows "deserialize parse_time (serialize fmt_time l @ nl) =
     l\<lparr>l_name := qs_str (valueToKey account_role_enum (l_role l)), l_msg := l_msg l @ nl\<rparr>"
proof -
  let ?parts = "[qs_str (valueToKey account_role_enum (l_role l)), fmt_time (l_time l),
      qs_str (valueToKey log_type_enum (l_type l)), if l_result l then ''true'' else ''false'', l_msg l @ nl]"
  have "serialize fmt_time l @ nl = join ''|'' ?parts"
    by (simp add: serialize_def)
  moreover have "split (join ''|'' ?parts) ''|'' = ?parts"
    using assms role_key_roundtrip [OF assms(1)] log_type_key_roundtrip [OF assms(2)]
    by (intro split_join) auto
  ultimately have "split (serialize fmt_time l @ nl) ''|'' = ?parts" by simp
  then show ?thesis
    using assms(6) role_key_roundtrip [OF assms(1)] log_type_key_roundtrip [OF assms(2)]
    by (simp add: deserialize_def Let_def numeral_eq_Suc)
qed

section \<open>Configuration\<close>

record log_config =
  lc_maxLogFileLine :: "32 word"
  lc_numLogs :: "32 word"
  lc_account :: string
  lc_passwd :: string
  lc_remotePath :: string
  lc_ip :: "string option"
  lc_bakUpInterval :: "32 word"

text \<open>\<open>QVariant::toUInt\<close>: 0 when the text is no number of 32 bits.\<close>

definition v_toUInt :: "qvariant \<Rightarrow> 32 word" where
  "v_toUInt v = (case v of
      VInvalid \<Rightarrow> 0
    | VInt i \<Rightarrow> word_of_int i
    | VBool b \<Rightarrow> (if b then 1 else 0)
    | VStr s \<Rightarrow> (case parse_nat 10 (trimmed s) of
                  None \<Rightarrow> 0
                | Some n \<Rightarrow> if n < 2 ^ 32 then word_of_nat n else 0))"

text \<open>
  The constructor of \<open>Configurations\<close>: \<open>numLogs\<close> starts from its default 5 and is replaced
  when the test of the source holds; \<open>m_bakUpInterval\<close> is initialised from the file.
  \<open>host_address\<close> is \<open>QHostAddress\<close>: \<open>None\<close> for a text that is no address, the null address.
\<close>

definition log_configurations :: "(string \<Rightarrow> string option) \<Rightarrow> qsettings \<Rightarrow> log_config" where
  "log_configurations host_address s =
     (let numLogs = (case s_value ''log'' ''numLogs'' s of VInvalid \<Rightarrow> 5 | v \<Rightarrow> v_toUInt v)
      in \<lparr>lc_maxLogFileLine = 1000,
          lc_numLogs = (if 1 \<le> numLogs \<or> numLogs \<le> 10 then numLogs else 5),
          lc_account = v_toString (s_value ''log'' ''account'' s),
          lc_passwd = v_toString (s_value ''log'' ''passwd'' s),
          lc_remotePath = v_toString (s_value ''log'' ''remotePath'' s),
          lc_ip = host_address (v_toString (s_value ''log'' ''ip'' s)),
          lc_bakUpInterval = word_of_int (v_toInt (s_value ''log'' ''backUpInterval'' s))\<rparr>)"

text \<open>The range test is a disjunction that always holds: the value of the file is taken as it is.\<close>

lemma log_configurations_numLogs:
  "lc_numLogs (log_configurations host_address s) =
     (case s_value ''log'' ''numLogs'' s of VInvalid \<Rightarrow> 5 | v \<Rightarrow> v_toUInt v)"
proof -
  have "1 \<le> n \<or> n \<le> 10" for n :: "32 word"
  proof (cases "n = 0")
    case False
    then have "1 \<le> n" by (simp add: word_le_nat_alt Suc_le_eq unat_gt_0)
    then show ?thesis ..
  qed simp
  then show ?thesis by (simp add: log_configurations_def Let_def)
qed

section \<open>The list of entries in memory\<close>

text \<open>
  \<open>lm_firstNeedWrite\<close> is the index of the first entry not yet taken by the writer thread,
  \<open>lm_tmp\<close> the entries it has taken and not yet written (its static local list),
  \<open>lm_file\<close> the lines of the current file, \<open>lm_writable\<close> that the file could be opened
  for writing, \<open>lm_wake\<close> and \<open>lm_rotate\<close> the pending wake-up and rotation request, and
  \<open>lm_written\<close> the arguments of the emitted \<open>NewLogWritten\<close> signals.
\<close>

record log_manager =
  lm_logList :: "log_entry list"
  lm_firstNeedWrite :: "32 word"
  lm_fileLine :: "32 word"
  lm_tmp :: "log_entry list"
  lm_file :: "string list"
  lm_writable :: bool
  lm_wake :: bool
  lm_rotate :: bool
  lm_written :: "nat list"
  lm_config :: log_config

definition lm_cap :: "log_manager \<Rightarrow> 32 word" where
  "lm_cap lm = lc_maxLogFileLine (lm_config lm) * lc_numLogs (lm_config lm)"

definition writeLog :: "log_entry \<Rightarrow> log_manager \<Rightarrow> log_manager" where
  "writeLog log lm =
     (let logs = lm_logList lm @ [log];
          lm = lm\<lparr>lm_logList := logs, lm_written := lm_written lm @ [length logs]\<rparr>;
          lm = (if lm_cap lm < word_of_nat (length logs)
                then lm\<lparr>lm_logList := tl logs, lm_firstNeedWrite := lm_firstNeedWrite lm - 1\<rparr>
                else lm)
      in if \<not> lm_writable lm then lm else lm\<lparr>lm_wake := True\<rparr>)"

text \<open>The list is no longer than its capacity, and the first unwritten index is in it or just behind it.\<close>

definition lm_inv :: "log_manager \<Rightarrow> bool" where
  "lm_inv lm \<longleftrightarrow> length (lm_logList lm) \<le> unat (lm_cap lm)
     \<and> unat (lm_firstNeedWrite lm) \<le> length (lm_logList lm)
     \<and> unat (lm_cap lm) < 2 ^ 31"

definition pending :: "log_manager \<Rightarrow> log_entry list" where
  "pending lm = drop (unat (lm_firstNeedWrite lm)) (lm_logList lm)"

text \<open>The entries that are full and all unwritten: the next one drops an unwritten entry.\<close>

definition lm_saturated :: "log_manager \<Rightarrow> bool" where
  "lm_saturated lm \<longleftrightarrow> lm_firstNeedWrite lm = 0 \<and> length (lm_logList lm) = unat (lm_cap lm)"

lemma lm_cap_writeLog [frame_simps]: "lm_cap (writeLog log lm) = lm_cap lm"
  by (simp add: writeLog_def lm_cap_def Let_def)

lemma writeLog_frame [frame_simps]:
  "lm_writable (writeLog log lm) = lm_writable lm" "lm_config (writeLog log lm) = lm_config lm"
  "lm_file (writeLog log lm) = lm_file lm"
  by (simp_all add: writeLog_def Let_def)

lemma unat_of_nat_small: "n < 2 ^ 32 \<Longrightarrow> unat (word_of_nat n :: 32 word) = n"
  by (simp add: unat_of_nat)

lemma sint_small: "- (2 ^ 31) \<le> i \<Longrightarrow> i < 2 ^ 31 \<Longrightarrow> sint (word_of_int i :: 32 word) = i"
  by (simp add: signed_of_int signed_take_bit_int_eq_self)

lemma lm_overflow_iff:
  assumes "lm_inv lm"
  shows "lm_cap lm < word_of_nat (length (lm_logList lm @ [log])) \<longleftrightarrow>
     length (lm_logList lm) = unat (lm_cap lm)"
proof -
  from assms have "Suc (length (lm_logList lm)) < 2 ^ 32" by (simp add: lm_inv_def)
  then have "unat (word_of_nat (Suc (length (lm_logList lm))) :: 32 word) = Suc (length (lm_logList lm))"
    by (rule unat_of_nat_small)
  with assms show ?thesis
    by (auto simp: lm_inv_def word_less_nat_alt simp del: of_nat_Suc)
qed

lemma writeLog_fields:
  assumes "lm_inv lm"
  shows "lm_logList (writeLog log lm) =
      (if length (lm_logList lm) = unat (lm_cap lm) then tl (lm_logList lm @ [log]) else lm_logList lm @ [log])"
    and "lm_firstNeedWrite (writeLog log lm) =
      (if length (lm_logList lm) = unat (lm_cap lm) then lm_firstNeedWrite lm - 1 else lm_firstNeedWrite lm)"
    and "lm_tmp (writeLog log lm) = lm_tmp lm" "lm_file (writeLog log lm) = lm_file lm"
    and "lm_wake (writeLog log lm) = (lm_wake lm \<or> lm_writable lm)"
  using lm_overflow_iff [OF assms, of log]
  by (auto simp: writeLog_def Let_def lm_cap_def)

lemma unat_minus_one_nz: "w \<noteq> 0 \<Longrightarrow> unat (w - 1 :: 32 word) = unat w - 1"
  by (metis unat_minus_one)

lemma writeLog_inv: "lm_inv lm \<Longrightarrow> \<not> lm_saturated lm \<Longrightarrow> lm_inv (writeLog log lm)"
  using writeLog_fields(1,2) [of lm log] lm_cap_writeLog [of log lm]
  by (auto simp: lm_inv_def lm_saturated_def unat_minus_one_nz split: if_splits)

lemma writeLog_pending:
  assumes "lm_inv lm" "\<not> lm_saturated lm"
  shows "pending (writeLog log lm) = pending lm @ [log]"
proof (cases "length (lm_logList lm) = unat (lm_cap lm)")
  case True
  with assms have nz: "lm_firstNeedWrite lm \<noteq> 0" by (simp add: lm_saturated_def)
  then have "unat (lm_firstNeedWrite lm) = Suc (unat (lm_firstNeedWrite lm - 1))"
    by (simp add: unat_minus_one_nz unat_gt_0 flip: unat_gt_0)
  with True assms writeLog_fields [OF assms(1), of log] show ?thesis
    by (simp add: pending_def lm_inv_def flip: drop_Suc)
next
  case False
  with assms writeLog_fields [OF assms(1), of log] show ?thesis
    by (simp add: pending_def lm_inv_def)
qed

section \<open>The writer thread\<close>

text \<open>
  The loop that takes the unwritten entries: from index \<open>i\<close> to the end of the list.
  \<open>None\<close> is an index outside the list, where \<open>QList::at\<close> aborts.
\<close>

function collect :: "log_entry list \<Rightarrow> nat \<Rightarrow> log_entry list option" where
  "collect xs i =
     (if i = length xs then Some []
      else if i < length xs then map_option ((#) (xs ! i)) (collect xs (Suc i))
      else None)"
  by pat_completeness auto
termination
  by (relation "measure (\<lambda>(xs, i). length xs - i)") auto

declare collect.simps [simp del]

lemma collect_drop: "i \<le> length xs \<Longrightarrow> collect xs i = Some (drop i xs)"
proof (induction xs i rule: collect.induct)
  case (1 xs i)
  then show ?case
    by (subst collect.simps) (auto simp: Cons_nth_drop_Suc)
qed

lemma collect_outside: "length xs < i \<Longrightarrow> collect xs i = None"
  by (subst collect.simps) simp

text \<open>
  The loop that writes the taken entries: it stops and asks for a rotation when the file
  is full. The result is the written lines, the new line count, the rest, the request.
\<close>

fun write_out :: "(int \<Rightarrow> string) \<Rightarrow> 32 word \<Rightarrow> 32 word \<Rightarrow> log_entry list
    \<Rightarrow> string list \<times> 32 word \<times> log_entry list \<times> bool" where
  "write_out fmt_time mx n [] = ([], n, [], False)"
| "write_out fmt_time mx n (l # ls) =
     (if mx \<le> n then ([], n, l # ls, True)
      else (case write_out fmt_time mx (n + 1) ls of
              (w, n', r, b) \<Rightarrow> (serialize fmt_time l # w, n', r, b)))"

lemma write_out_split:
  "write_out fmt_time mx n ls = (w, n', r, b) \<Longrightarrow> \<exists>k. ls = take k ls @ r \<and> w = map (serialize fmt_time) (take k ls)
     \<and> k \<le> length ls \<and> n' = n + word_of_nat k \<and> (b \<longleftrightarrow> r \<noteq> [])"
proof (induction ls arbitrary: n w n' r b)
  case Nil
  then show ?case by simp
next
  case (Cons l ls)
  show ?case
  proof (cases "mx \<le> n")
    case True
    with Cons.prems show ?thesis by (intro exI [of _ 0]) auto
  next
    case False
    with Cons.prems obtain w' where wo: "write_out fmt_time mx (n + 1) ls = (w', n', r, b)"
      and w: "w = serialize fmt_time l # w'"
      by (auto split: prod.splits)
    from Cons.IH [OF wo] obtain k where "ls = take k ls @ r" "w' = map (serialize fmt_time) (take k ls)"
      "k \<le> length ls" "n' = n + 1 + word_of_nat k" "b \<longleftrightarrow> r \<noteq> []"
      by blast
    with w show ?thesis by (intro exI [of _ "Suc k"]) (auto simp: algebra_simps)
  qed
qed

text \<open>The line count of the file never passes its limit.\<close>

lemma write_out_limit:
  "write_out fmt_time mx n ls = (w, n', r, b) \<Longrightarrow> n \<le> mx \<Longrightarrow> n' \<le> mx"
proof (induction ls arbitrary: n w n' r b)
  case Nil
  then show ?case by simp
next
  case (Cons l ls)
  show ?case
  proof (cases "mx \<le> n")
    case True
    with Cons.prems show ?thesis by simp
  next
    case False
    with Cons.prems obtain w' where "write_out fmt_time mx (n + 1) ls = (w', n', r, b)"
      by (auto split: prod.splits)
    moreover from False have "n + 1 \<le> mx" by (simp add: inc_le not_le)
    ultimately show ?thesis by (rule Cons.IH)
  qed
qed

text \<open>One turn of \<open>WriteWorker::run\<close> after a wake-up; \<open>None\<close> is the abort of \<open>collect\<close>.\<close>

definition worker_turn :: "(int \<Rightarrow> string) \<Rightarrow> log_manager \<Rightarrow> log_manager option" where
  "worker_turn fmt_time lm =
     (case collect (lm_logList lm) (unat (lm_firstNeedWrite lm)) of
        None \<Rightarrow> None
      | Some new \<Rightarrow>
          (case write_out fmt_time (lc_maxLogFileLine (lm_config lm)) (lm_fileLine lm) (lm_tmp lm @ new) of
             (w, n, rest, rot) \<Rightarrow>
               Some (lm\<lparr>lm_firstNeedWrite := word_of_nat (length (lm_logList lm)),
                        lm_tmp := rest, lm_fileLine := n,
                        lm_file := (if lm_writable lm then lm_file lm @ w else lm_file lm),
                        lm_wake := False, lm_rotate := lm_rotate lm \<or> rot\<rparr>)))"

text \<open>Everything accepted so far, in order: the written lines, then what is still to be written.\<close>

definition log_stream :: "(int \<Rightarrow> string) \<Rightarrow> log_manager \<Rightarrow> string list" where
  "log_stream fmt_time lm = lm_file lm @ map (serialize fmt_time) (lm_tmp lm @ pending lm)"

lemma writeLog_stream:
  "lm_inv lm \<Longrightarrow> \<not> lm_saturated lm \<Longrightarrow>
     log_stream fmt_time (writeLog log lm) = log_stream fmt_time lm @ [serialize fmt_time log]"
  by (simp add: log_stream_def writeLog_pending writeLog_fields)

lemma worker_turn_defined: "lm_inv lm \<Longrightarrow> \<exists>lm'. worker_turn fmt_time lm = Some lm'"
  by (simp add: worker_turn_def lm_inv_def collect_drop split: prod.splits)

lemma worker_turn_facts:
  assumes inv: "lm_inv lm" and turn: "worker_turn fmt_time lm = Some lm'"
  shows "lm_writable lm \<Longrightarrow> log_stream fmt_time lm' = log_stream fmt_time lm" "pending lm' = []" "lm_inv lm'"
    and "lm_cap lm' = lm_cap lm" "lm_logList lm' = lm_logList lm" "lm_writable lm' = lm_writable lm"
    and "lm_config lm' = lm_config lm"
proof -
  obtain w n rest b where
    wo: "write_out fmt_time (lc_maxLogFileLine (lm_config lm)) (lm_fileLine lm) (lm_tmp lm @ pending lm) = (w, n, rest, b)"
    by (metis prod_cases4)
  from inv have len: "length (lm_logList lm) < 2 ^ 32" by (simp add: lm_inv_def)
  have lm': "lm' = lm\<lparr>lm_firstNeedWrite := word_of_nat (length (lm_logList lm)),
      lm_tmp := rest, lm_fileLine := n, lm_file := (if lm_writable lm then lm_file lm @ w else lm_file lm),
      lm_wake := False, lm_rotate := lm_rotate lm \<or> b\<rparr>"
    using turn inv wo by (simp add: worker_turn_def lm_inv_def collect_drop pending_def)
  show p: "pending lm' = []"
    using len by (simp add: lm' pending_def unat_of_nat_small)
  from write_out_split [OF wo] have "w @ map (serialize fmt_time) rest = map (serialize fmt_time) (lm_tmp lm @ pending lm)"
    by (metis map_append)
  with p show "lm_writable lm \<Longrightarrow> log_stream fmt_time lm' = log_stream fmt_time lm"
    by (simp add: log_stream_def lm')
  show "lm_inv lm'" using inv len by (simp add: lm' lm_inv_def lm_cap_def unat_of_nat_small)
  show "lm_cap lm' = lm_cap lm" "lm_logList lm' = lm_logList lm" "lm_writable lm' = lm_writable lm"
    "lm_config lm' = lm_config lm" by (simp_all add: lm' lm_cap_def)
qed

text \<open>
  A saturated list: the entry dropped is the first unwritten one, the index wraps around
  to \<open>2\<^sup>3\<^sup>2 - 1\<close>, and the next turn of the writer reads outside the list.
\<close>

lemma writeLog_saturated:
  assumes "lm_inv lm" "lm_saturated lm"
  shows "lm_firstNeedWrite (writeLog log lm) = - 1"
    and "length (lm_logList (writeLog log lm)) = length (lm_logList lm)"
  using writeLog_fields(1,2) [OF assms(1), of log] assms(2) by (auto simp: lm_saturated_def)

lemma worker_turn_saturated:
  assumes "lm_inv lm" "lm_saturated lm"
  shows "worker_turn fmt_time (writeLog log lm) = None"
proof -
  have "unat (- 1 :: 32 word) = 4294967295" by (simp add: unsigned_minus_1_eq_mask mask_eq_exp_minus_1)
  moreover have "length (lm_logList lm) < 4294967295" using assms(1) by (simp add: lm_inv_def)
  ultimately show ?thesis
    using writeLog_saturated [OF assms, of log]
    by (simp add: worker_turn_def collect_outside)
qed

section \<open>Queries\<close>

text \<open>The conditions of the loops of \<open>GetLogNum\<close> and \<open>GetLog\<close>, in their order.\<close>

record log_query =
  q_role :: int
  q_begin :: int
  q_end :: int
  q_type :: int
  q_result :: "32 word"
  q_text :: string

definition log_matches :: "log_query \<Rightarrow> log_entry \<Rightarrow> bool" where
  "log_matches q l \<longleftrightarrow>
     l_role l AND q_role q \<noteq> 0
     \<and> \<not> (toSecsSinceEpoch (l_time l) < q_begin q \<or> q_end q \<le> toSecsSinceEpoch (l_time l))
     \<and> l_type l AND q_type q \<noteq> 0
     \<and> (q_result q \<noteq> LOG_RESULT_ALL \<longrightarrow> (if l_result l then 1 else 0) = q_result q)
     \<and> contains_ci (l_msg l) (q_text q)"

fun count_loop :: "log_query \<Rightarrow> log_entry list \<Rightarrow> 32 word \<Rightarrow> 32 word" where
  "count_loop q [] n = n"
| "count_loop q (l # ls) n = (if \<not> log_matches q l then count_loop q ls n else count_loop q ls (n + 1))"

definition GetLogNum :: "log_query \<Rightarrow> log_manager \<Rightarrow> 32 word" where
  "GetLogNum q lm = count_loop q (rev (lm_logList lm)) 0"

fun page_loop :: "log_query \<Rightarrow> 32 word \<Rightarrow> log_entry list \<Rightarrow> 32 word \<Rightarrow> log_entry list \<Rightarrow> log_entry list" where
  "page_loop q per_page [] offset acc = acc"
| "page_loop q per_page (l # ls) offset acc =
     (if \<not> word_of_nat (length acc) < per_page then acc
      else if \<not> log_matches q l then page_loop q per_page ls offset acc
      else if offset \<noteq> 0 then page_loop q per_page ls (offset - 1) acc
      else page_loop q per_page ls offset (acc @ [l]))"

text \<open>\<open>GetLog\<close>: \<open>caller_role\<close> is the role of the calling client.\<close>

definition GetLog :: "(int \<Rightarrow> string) \<Rightarrow> account_role \<Rightarrow> log_query \<Rightarrow> 32 word \<Rightarrow> 32 word \<Rightarrow> log_manager
    \<Rightarrow> SSRErrorCode + string list" where
  "GetLog fmt_time caller_role q per_page page lm =
     (if caller_role = role_unknown then Inl ERROR_ACCOUNT_UNKNOWN_ACCOUNT
      else if (per_page = 0 \<or> 500 < per_page) \<or> page = 0 then Inl ERROR_LOG_GET_LOG_PAGE_ERROR
      else Inr (map (serialize fmt_time)
                 (page_loop q per_page (rev (lm_logList lm)) ((page - 1) * per_page) [])))"

definition matching :: "log_query \<Rightarrow> log_manager \<Rightarrow> log_entry list" where
  "matching q lm = filter (log_matches q) (rev (lm_logList lm))"

lemma count_loop_filter: "count_loop q ls n = n + word_of_nat (length (filter (log_matches q) ls))"
  by (induction q ls n rule: count_loop.induct) (auto simp: algebra_simps)

lemma GetLogNum_matching: "GetLogNum q lm = word_of_nat (length (matching q lm))"
  by (simp add: GetLogNum_def matching_def count_loop_filter)

lemma page_loop_slice:
  "unat per_page < 2 ^ 31 \<Longrightarrow> length acc \<le> unat per_page \<Longrightarrow> offset = 0 \<or> acc = [] \<Longrightarrow>
    page_loop q per_page ls offset acc =
      acc @ take (unat per_page - length acc) (drop (unat offset) (filter (log_matches q) ls))"
proof (induction q per_page ls offset acc rule: page_loop.induct)
  case (1 q per_page offset acc)
  then show ?case by simp
next
  case (2 q per_page l ls offset acc)
  have len: "word_of_nat (length acc) < per_page \<longleftrightarrow> length acc < unat per_page"
  proof -
    have "unat per_page < 2 ^ 32" by (rule less_trans [OF "2.prems"(1)]) simp
    then have "length acc < 2 ^ 32" by (rule le_less_trans [OF "2.prems"(2)])
    then have "unat (word_of_nat (length acc) :: 32 word) = length acc" by (rule unat_of_nat_small)
    then show ?thesis by (simp add: word_less_nat_alt)
  qed
  consider "length acc = unat per_page" | "length acc < unat per_page" "\<not> log_matches q l"
    | "length acc < unat per_page" "log_matches q l" "offset \<noteq> 0"
    | "length acc < unat per_page" "log_matches q l" "offset = 0"
    using "2.prems"(2) by fastforce
  then show ?case
  proof cases
    case 1
    with len show ?thesis by simp
  next
    case 2
    with "2.IH"(1) "2.prems" len show ?thesis by simp
  next
    case 3
    then have "unat offset = Suc (unat (offset - 1))"
      by (metis One_nat_def Suc_pred unat_gt_0 unat_minus_one)
    with 3 "2.IH"(2) "2.prems" len show ?thesis by simp
  next
    case 4
    then have "unat per_page - length acc = Suc (unat per_page - length (acc @ [l]))" by simp
    with 4 "2.IH"(3) "2.prems" len show ?thesis by simp
  qed
qed

text \<open>The contract of a query by pages: page \<open>i\<close> of size \<open>n\<close> is that slice of the items.\<close>

locale paged_source =
  fixes items :: "'s \<Rightarrow> 'a list"
    and page :: "nat \<Rightarrow> nat \<Rightarrow> 's \<Rightarrow> 'a list"
    and valid :: "nat \<Rightarrow> nat \<Rightarrow> bool"
  assumes page_slice: "valid n i \<Longrightarrow> page n i s = take n (drop (i * n) (items s))"
begin

lemma page_bound: "valid n i \<Longrightarrow> length (page n i s) \<le> n"
  by (simp add: page_slice)

lemma page_past_end: "valid n i \<Longrightarrow> length (items s) \<le> i * n \<Longrightarrow> page n i s = []"
  by (simp add: page_slice)

lemma pages_prefix:
  "\<forall>i < k. valid n i \<Longrightarrow> concat (map (\<lambda>i. page n i s) [0..<k]) = take (k * n) (items s)"
proof -
  assume "\<forall>i < k. valid n i"
  then have "map (\<lambda>i. page n i s) [0..<k] = map (\<lambda>i. take n (drop (i * n) (items s))) [0..<k]"
    by (simp add: page_slice)
  then show ?thesis by (simp only: concat_pages)
qed

lemma pages_all:
  "\<forall>i < k. valid n i \<Longrightarrow> length (items s) \<le> k * n \<Longrightarrow>
     concat (map (\<lambda>i. page n i s) [0..<k]) = items s"
  by (simp add: pages_prefix)

end

text \<open>The pages of \<open>GetLog\<close>, counted from 0, whose offset does not wrap around.\<close>

definition log_page :: "nat \<Rightarrow> nat \<Rightarrow> log_query \<times> log_manager \<Rightarrow> log_entry list" where
  "log_page n i = (\<lambda>(q, lm). page_loop q (word_of_nat n) (rev (lm_logList lm))
      ((word_of_nat (Suc i) - 1) * word_of_nat n) [])"

definition log_page_valid :: "nat \<Rightarrow> nat \<Rightarrow> bool" where
  "log_page_valid n i \<longleftrightarrow> 0 < n \<and> n \<le> 500 \<and> Suc i < 2 ^ 32 \<and> i * n < 2 ^ 32"

lemma log_page_slice:
  assumes "log_page_valid n i"
  shows "log_page n i (q, lm) = take n (drop (i * n) (matching q lm))"
proof -
  from assms have n: "unat (word_of_nat n :: 32 word) = n" and lt: "unat (word_of_nat n :: 32 word) < 2 ^ 31"
    by (simp_all add: log_page_valid_def unat_of_nat_small)
  have "(word_of_nat (Suc i) - 1) * word_of_nat n = (word_of_nat (i * n) :: 32 word)" by simp
  moreover have "unat (word_of_nat (i * n) :: 32 word) = i * n"
    by (rule unat_of_nat_small) (use assms in \<open>simp add: log_page_valid_def\<close>)
  ultimately show ?thesis
    using page_loop_slice [OF lt, of "[]"] n by (simp add: log_page_def matching_def del: of_nat_mult)
qed

interpretation log_pages: paged_source "\<lambda>(q, lm). matching q lm" log_page log_page_valid
  by unfold_locales (auto simp: log_page_slice)

lemma GetLog_page:
  "log_page_valid n i \<Longrightarrow> r \<noteq> role_unknown \<Longrightarrow>
     GetLog fmt_time r q (word_of_nat n) (word_of_nat (Suc i)) lm
       = Inr (map (serialize fmt_time) (log_page n i (q, lm)))"
proof -
  assume v: "log_page_valid n i" and r: "r \<noteq> role_unknown"
  from v have n: "unat (word_of_nat n :: 32 word) = n" "0 < n" "n \<le> 500"
    by (simp_all add: log_page_valid_def unat_of_nat_small)
  then have "(word_of_nat n :: 32 word) \<noteq> 0" "\<not> 500 < (word_of_nat n :: 32 word)"
    by (auto simp: word_less_nat_alt)
  moreover from v have "unat (word_of_nat (Suc i) :: 32 word) = Suc i"
    by (intro unat_of_nat_small) (simp add: log_page_valid_def)
  then have "(word_of_nat (Suc i) :: 32 word) \<noteq> 0" by fastforce
  ultimately show ?thesis using r by (simp add: GetLog_def log_page_def del: of_nat_Suc)
qed

section \<open>Writers and the writer thread together\<close>

datatype log_event = LogWrite log_entry | WorkerTurn

fun log_run :: "(int \<Rightarrow> string) \<Rightarrow> log_manager \<Rightarrow> log_event list \<Rightarrow> log_manager option" where
  "log_run fmt_time lm [] = Some lm"
| "log_run fmt_time lm (LogWrite l # es) = log_run fmt_time (writeLog l lm) es"
| "log_run fmt_time lm (WorkerTurn # es) =
     (case worker_turn fmt_time lm of None \<Rightarrow> None | Some lm' \<Rightarrow> log_run fmt_time lm' es)"

fun log_writes :: "log_event list \<Rightarrow> log_entry list" where
  "log_writes [] = []"
| "log_writes (LogWrite l # es) = l # log_writes es"
| "log_writes (WorkerTurn # es) = log_writes es"

text \<open>The writers never get \<open>cap\<close> entries ahead of the writer thread; \<open>n\<close> are pending.\<close>

fun backlog_ok :: "nat \<Rightarrow> nat \<Rightarrow> log_event list \<Rightarrow> bool" where
  "backlog_ok cap n [] = True"
| "backlog_ok cap n (LogWrite l # es) = (n < cap \<and> backlog_ok cap (Suc n) es)"
| "backlog_ok cap n (WorkerTurn # es) = backlog_ok cap 0 es"

lemma not_saturated_pending: "lm_inv lm \<Longrightarrow> length (pending lm) < unat (lm_cap lm) \<Longrightarrow> \<not> lm_saturated lm"
  by (auto simp: lm_saturated_def pending_def)

lemma log_run_stream:
  "lm_inv lm \<Longrightarrow> lm_writable lm \<Longrightarrow> backlog_ok (unat (lm_cap lm)) (length (pending lm)) es \<Longrightarrow>
     \<exists>lm'. log_run fmt_time lm es = Some lm' \<and> lm_inv lm'
       \<and> log_stream fmt_time lm' = log_stream fmt_time lm @ map (serialize fmt_time) (log_writes es)"
proof (induction fmt_time lm es rule: log_run.induct)
  case (1 fmt_time lm)
  then show ?case by simp
next
  case (2 fmt_time lm l es)
  then have ns: "\<not> lm_saturated lm" by (simp add: not_saturated_pending)
  with 2 show ?case
    by (simp add: writeLog_inv writeLog_pending lm_cap_writeLog writeLog_stream writeLog_frame)
next
  case (3 fmt_time lm es)
  from "3.prems"(1) obtain lm' where t: "worker_turn fmt_time lm = Some lm'"
    using worker_turn_defined by blast
  with 3 worker_turn_facts [OF "3.prems"(1) t] show ?case by simp
qed

section \<open>Properties\<close>

text \<open>A small manager for the witnesses: room for two entries, nothing logged yet.\<close>

definition small_log :: log_manager where
  "small_log = \<lparr>lm_logList = [], lm_firstNeedWrite = 0, lm_fileLine = 0, lm_tmp = [], lm_file = [],
     lm_writable = True, lm_wake = False, lm_rotate = False, lm_written = [],
     lm_config = \<lparr>lc_maxLogFileLine = 2, lc_numLogs = 1, lc_account = [], lc_passwd = [],
       lc_remotePath = [], lc_ip = None, lc_bakUpInterval = 0\<rparr>\<rparr>"

definition sample_entry :: "string \<Rightarrow> log_entry" where
  "sample_entry m = \<lparr>l_name = ''sysadm'', l_role = 1, l_time = 5000, l_type = 64, l_result = True, l_msg = m\<rparr>"

lemma small_log_inv: "lm_inv small_log" "unat (lm_cap small_log) = 2" "pending small_log = []" "lm_writable small_log"
  by (simp_all add: lm_inv_def lm_cap_def small_log_def pending_def)

text \<open>The file writer loses and reorders nothing: as long as the writers never get a whole
  list of entries ahead of the writer thread, every turn of the thread ends, and the lines of the
  file followed by the entries still on their way are the earlier ones and then every new entry, in
  the order of the calls of \<open>writeLog\<close>; the list in memory stays within its capacity.\<close>

theorem log_writer_keeps_order:
  assumes "lm_inv lm" "lm_writable lm" and "backlog_ok (unat (lm_cap lm)) (length (pending lm)) es"
  shows "\<exists>lm'. log_run fmt_time lm es = Some lm' \<and> lm_inv lm'
     \<and> log_stream fmt_time lm' = log_stream fmt_time lm @ map (serialize fmt_time) (log_writes es)"
  by (rule log_run_stream [OF assms])

theorem log_writer_keeps_order_witness:
  "\<exists>lm'. log_run show_int small_log
      [LogWrite (sample_entry ''a''), LogWrite (sample_entry ''b''), WorkerTurn, LogWrite (sample_entry ''c'')] = Some lm'
    \<and> lm_inv lm' \<and> length (log_stream show_int lm') = 3"
proof -
  let ?es = "[LogWrite (sample_entry ''a''), LogWrite (sample_entry ''b''), WorkerTurn, LogWrite (sample_entry ''c'')]"
  have "backlog_ok (unat (lm_cap small_log)) (length (pending small_log)) ?es"
    by (simp add: small_log_inv)
  from log_writer_keeps_order [OF small_log_inv(1) small_log_inv(4) this, of show_int]
  moreover have "length (log_stream show_int small_log @ map (serialize show_int) (log_writes ?es)) = 3"
    by (simp add: log_stream_def small_log_inv) (simp add: small_log_def)
  ultimately show ?thesis by metis
qed

text \<open>If the writers do fill the whole list before the writer thread takes an entry (for
  instance while the log file cannot be opened, when the thread is never woken), the next entry
  pushes out an unwritten one, the unsigned index of the first unwritten entry wraps around from 0
  to \<open>2\<^sup>3\<^sup>2 - 1\<close>, and the next turn of the thread reads outside the list.\<close>

theorem log_writer_index_wraps:
  assumes "lm_inv lm" and "lm_saturated lm"
  shows "lm_firstNeedWrite (writeLog l lm) = - 1
     \<and> length (lm_logList (writeLog l lm)) = length (lm_logList lm)
     \<and> worker_turn fmt_time (writeLog l lm) = None"
  using writeLog_saturated [OF assms] worker_turn_saturated [OF assms] by blast

theorem log_writer_index_wraps_witness:
  "worker_turn show_int (writeLog (sample_entry ''c'')
     (small_log\<lparr>lm_logList := [sample_entry ''a'', sample_entry ''b'']\<rparr>)) = None"
proof -
  let ?lm = "small_log\<lparr>lm_logList := [sample_entry ''a'', sample_entry ''b'']\<rparr>"
  have "lm_inv ?lm" "lm_saturated ?lm"
    by (simp_all add: lm_inv_def lm_saturated_def lm_cap_def small_log_def)
  from log_writer_index_wraps [OF this] show ?thesis by blast
qed

text \<open>The pages of \<open>GetLog\<close> tile the result: for a page size \<open>n\<close> and \<open>k\<close> pages that
  cover the matching entries, and offsets below \<open>2\<^sup>3\<^sup>2\<close>, the pages 1 to \<open>k\<close> put together are the
  matching entries, newest first, each once, none longer than \<open>n\<close>; \<open>GetLogNum\<close> is their number.\<close>

theorem GetLog_pages_complete:
  assumes "r \<noteq> role_unknown" and "\<forall>i < k. log_page_valid n i" and "length (matching q lm) \<le> k * n"
  shows "concat (map (\<lambda>i. case GetLog fmt_time r q (word_of_nat n) (word_of_nat (Suc i)) lm of
             Inl _ \<Rightarrow> [] | Inr ls \<Rightarrow> ls) [0..<k]) = map (serialize fmt_time) (matching q lm)
     \<and> GetLogNum q lm = word_of_nat (length (matching q lm))"
proof -
  have "map (\<lambda>i. case GetLog fmt_time r q (word_of_nat n) (word_of_nat (Suc i)) lm of
             Inl _ \<Rightarrow> [] | Inr ls \<Rightarrow> ls) [0..<k] = map (map (serialize fmt_time)) (map (\<lambda>i. log_page n i (q, lm)) [0..<k])"
    using assms(1,2) by (auto simp: GetLog_page simp del: of_nat_Suc)
  moreover have "concat (map (\<lambda>i. log_page n i (q, lm)) [0..<k]) = matching q lm"
    using log_pages.pages_all [OF assms(2), of "(q, lm)"] assms(3) by simp
  ultimately show ?thesis by (simp only: GetLogNum_matching map_concat [symmetric] simp_thms)
qed

definition sample_query :: log_query where
  "sample_query = \<lparr>q_role = 7, q_begin = 0, q_end = 10, q_type = 255, q_result = 2, q_text = []\<rparr>"

theorem GetLog_pages_complete_witness:
  "concat (map (\<lambda>i. case GetLog show_int role_sysadm sample_query (word_of_nat 2) (word_of_nat (Suc i))
        (small_log\<lparr>lm_logList := map sample_entry [''a'', ''b'', ''c'']\<rparr>) of
      Inl _ \<Rightarrow> [] | Inr ls \<Rightarrow> ls) [0..<2])
    = map (serialize show_int) (map sample_entry [''c'', ''b'', ''a''])"
proof -
  let ?lm = "small_log\<lparr>lm_logList := map sample_entry [''a'', ''b'', ''c'']\<rparr>"
  have m: "matching sample_query ?lm = map sample_entry [''c'', ''b'', ''a'']"
    by (simp add: matching_def log_matches_def sample_query_def sample_entry_def toSecsSinceEpoch_def
        contains_ci_def contains_def indexOf_def to_lower_def)
  have v: "\<forall>i < 2. log_page_valid 2 i" by (simp add: log_page_valid_def)
  show ?thesis
    using GetLog_pages_complete [OF _ v, of role_sysadm sample_query ?lm show_int] unfolding m by simp
qed

text \<open>The offset of a page is a product of 32-bit unsigned numbers and wraps around: page
  \<open>2\<^sup>3\<^sup>1 + 1\<close> of size 2 is not past the end of the list but the first page again.\<close>

theorem GetLog_offset_wraps:
  "GetLog fmt_time r q 2 (2 ^ 31 + 1) lm = GetLog fmt_time r q 2 1 lm"
proof -
  have "(4294967296 :: 32 word) = word_of_nat (2 ^ 32)" by simp
  also have "\<dots> = 0" by (simp only: word_of_nat_eq_0_iff) simp
  finally have "((2 ^ 31 + 1 - 1) * 2 :: 32 word) = (1 - 1) * 2" by simp
  then show ?thesis unfolding GetLog_def by (simp only:) simp
qed

text \<open>Reading back a line of the log file: a valid entry whose message holds no separator
  comes back with its role, time, type and result, the role's key as its name, and the newline that
  \<open>readLine\<close> leaves on the line appended to its message.\<close>

theorem log_line_roundtrip:
  assumes "valid_role (l_role l)" "valid_log_type (l_type l)" "CHR ''|'' \<notin> set (l_msg l)"
    and "CHR ''|'' \<notin> set (fmt_time (l_time l))" "parse_time (fmt_time (l_time l)) = l_time l"
  shows "deserialize parse_time (serialize fmt_time l) =
       l\<lparr>l_name := qs_str (valueToKey account_role_enum (l_role l))\<rparr>
     \<and> deserialize parse_time (serialize fmt_time l @ [CHR 0x0A]) =
       l\<lparr>l_name := qs_str (valueToKey account_role_enum (l_role l)), l_msg := l_msg l @ [CHR 0x0A]\<rparr>"
  using deserialize_serialize [of l fmt_time "[]" parse_time]
    deserialize_serialize [of l fmt_time "[CHR 0x0A]" parse_time] assms by simp

theorem log_line_roundtrip_witness:
  "deserialize toInt (serialize show_int (sample_entry ''hello'')) = sample_entry ''hello''"
proof -
  have "valid_role (l_role (sample_entry ''hello''))" "valid_log_type (l_type (sample_entry ''hello''))"
    "CHR ''|'' \<notin> set (l_msg (sample_entry ''hello''))"
    by (simp_all add: sample_entry_def valid_role_def valid_log_type_def)
  moreover have "CHR ''|'' \<notin> set (show_int (l_time (sample_entry ''hello'')))"
    by (rule show_int_no_bar)
  moreover have "toInt (show_int (l_time (sample_entry ''hello''))) = l_time (sample_entry ''hello'')"
    by (simp add: toInt_show_int sample_entry_def int32_ok_def)
  ultimately show ?thesis
    using log_line_roundtrip [of "sample_entry ''hello''" show_int toInt]
    by (simp add: sample_entry_def valueToKey_def account_role_enum_def)
qed

end
