(* ===== verification/Daemon.thy ===== *)
theory Daemon
  imports LogManager
begin

text \<open>
  The state the components of the daemon share: the D-Bus clients that have logged in
  (\<open>Account::Manager::m_clients\<close>), the log manager, the clock and the actions done so
  far. The state of each component extends this record. The clock is read, never set, by a
  handler: all the reads of one handler see the same time. The section on audit lines
  models the macros \<open>SSR_LOG_SUCCESS\<close> and \<open>SSR_LOG_ERROR\<close>.
\<close>

record account =
  a_isLogin :: bool
  a_role :: account_role
  a_name :: string
  a_pid :: int

record daemon =
  d_clients :: "(string, account) qmap"
  d_log :: log_manager
  d_now :: int
  d_effects :: "effect list"

text \<open>\<open>CryptoHelper\<close>: RSA with the private key of the component, and AES with the built-in key.\<close>

record crypto =
  rsaDecrypt :: "string \<Rightarrow> string"
  aesEncrypt :: "string \<Rightarrow> string"
  aesDecrypt :: "string \<Rightarrow> string"

section \<open>Clients\<close>

definition getRole :: "string \<Rightarrow> ('a daemon_scheme) \<Rightarrow> account_role" where
  "getRole dbusUniqueName d =
     (case qm_value dbusUniqueName (d_clients d) of None \<Rightarrow> role_unknown | Some c \<Rightarrow> a_role c)"

definition getUserName :: "string \<Rightarrow> ('a daemon_scheme) \<Rightarrow> string" where
  "getUserName dbusUniqueName d =
     (case qm_value dbusUniqueName (d_clients d) of None \<Rightarrow> ''unknown'' | Some c \<Rightarrow> a_name c)"

text \<open>The overloads by process: the first client, in key order, of that process.\<close>

definition getRole_pid :: "int \<Rightarrow> ('a daemon_scheme) \<Rightarrow> account_role" where
  "getRole_pid pid d =
     (case find (\<lambda>c. a_pid c = pid) (qm_values (d_clients d)) of None \<Rightarrow> role_unknown | Some c \<Rightarrow> a_role c)"

definition getUserName_pid :: "int \<Rightarrow> ('a daemon_scheme) \<Rightarrow> string" where
  "getUserName_pid pid d =
     (case find (\<lambda>c. a_pid c = pid) (qm_values (d_clients d)) of None \<Rightarrow> ''unknown'' | Some c \<Rightarrow> a_name c)"

section \<open>Actions and audit lines\<close>

definition act :: "effect \<Rightarrow> 'a daemon_scheme \<Rightarrow> 'a daemon_scheme" where
  "act e d = d\<lparr>d_effects := d_effects d @ [e]\<rparr>"

definition write_log :: "log_entry \<Rightarrow> 'a daemon_scheme \<Rightarrow> 'a daemon_scheme" where
  "write_log l d = d\<lparr>d_log := writeLog l (d_log d)\<rparr>"

definition SSR_LOG :: "log_type \<Rightarrow> string \<Rightarrow> bool \<Rightarrow> string \<Rightarrow> 'a daemon_scheme \<Rightarrow> 'a daemon_scheme" where
  "SSR_LOG logType logMsg result dbusId d =
     write_log \<lparr>l_name = getUserName dbusId d, l_role = getRole dbusId d, l_time = d_now d,
                l_type = logType, l_result = result, l_msg = logMsg\<rparr> d"

definition SSR_LOG_SUCCESS :: "log_type \<Rightarrow> string \<Rightarrow> string \<Rightarrow> 'a daemon_scheme \<Rightarrow> 'a daemon_scheme" where
  "SSR_LOG_SUCCESS logType logMsg dbusId d = SSR_LOG logType logMsg True dbusId d"

definition SSR_LOG_ERROR :: "log_type \<Rightarrow> string \<Rightarrow> string \<Rightarrow> 'a daemon_scheme \<Rightarrow> 'a daemon_scheme" where
  "SSR_LOG_ERROR logType logMsg dbusId d = SSR_LOG logType logMsg False dbusId d"

text \<open>Auditing and acting leave every other field of an extended state alone.\<close>

lemma act_fields [frame_simps, simp]:
  "d_clients (act e d) = d_clients d" "d_log (act e d) = d_log d" "d_now (act e d) = d_now d"
  "d_effects (act e d) = d_effects d @ [e]" "daemon.more (act e d) = daemon.more d"
  by (simp_all add: act_def)

lemma write_log_fields [frame_simps, simp]:
  "d_clients (write_log l d) = d_clients d" "d_log (write_log l d) = writeLog l (d_log d)"
  "d_now (write_log l d) = d_now d" "d_effects (write_log l d) = d_effects d"
  "daemon.more (write_log l d) = daemon.more d"
  by (simp_all add: write_log_def)

lemma SSR_LOG_fields [frame_simps, simp]:
  "d_clients (SSR_LOG t m r c d) = d_clients d" "d_now (SSR_LOG t m r c d) = d_now d"
  "d_effects (SSR_LOG t m r c d) = d_effects d" "daemon.more (SSR_LOG t m r c d) = daemon.more d"
  by (simp_all add: SSR_LOG_def)

lemma SSR_LOG_variants [simp]:
  "SSR_LOG_SUCCESS t m c d = SSR_LOG t m True c d" "SSR_LOG_ERROR t m c d = SSR_LOG t m False c d"
  by (simp_all add: SSR_LOG_SUCCESS_def SSR_LOG_ERROR_def)

lemma getRole_frame [simp]:
  "getRole c (act e d) = getRole c d" "getRole c (write_log l d) = getRole c d"
  "getRole c (SSR_LOG t m r c' d) = getRole c d"
  by (simp_all add: getRole_def)

section \<open>systemd\<close>

text \<open>\<open>SystemdProxy\<close>: calls to systemd's manager, whose answers nobody waits for.\<close>

definition callNoReplay :: "string \<Rightarrow> string list \<Rightarrow> 'a daemon_scheme \<Rightarrow> 'a daemon_scheme" where
  "callNoReplay method arguments d = act (SystemdCall method arguments) d"

definition reload :: "'a daemon_scheme \<Rightarrow> 'a daemon_scheme" where
  "reload d = callNoReplay ''Reload'' [] d"

definition startUnit :: "string \<Rightarrow> 'a daemon_scheme \<Rightarrow> 'a daemon_scheme" where
  "startUnit name d = callNoReplay ''StartUnit'' [name, ''replace''] d"

definition stopUnit :: "string \<Rightarrow> 'a daemon_scheme \<Rightarrow> 'a daemon_scheme" where
  "stopUnit name d = callNoReplay ''StopUnit'' [name, ''replace''] d"

definition enableUnit :: "string \<Rightarrow> 'a daemon_scheme \<Rightarrow> 'a daemon_scheme" where
  "enableUnit name d = reload (callNoReplay ''EnableUnitFiles'' [name, ''false''] d)"

definition disableUnit :: "string \<Rightarrow> 'a daemon_scheme \<Rightarrow> 'a daemon_scheme" where
  "disableUnit name d = reload (callNoReplay ''DisableUnitFiles'' [name, ''false''] d)"

definition startAndEnableUnit :: "string \<Rightarrow> 'a daemon_scheme \<Rightarrow> 'a daemon_scheme" where
  "startAndEnableUnit name d = enableUnit name (startUnit name d)"

definition stopAndDisableUnit :: "string \<Rightarrow> 'a daemon_scheme \<Rightarrow> 'a daemon_scheme" where
  "stopAndDisableUnit name d = disableUnit name (stopUnit name d)"

lemma unit_fields [frame_simps, simp]:
  "d_clients (startAndEnableUnit n d) = d_clients d" "d_clients (stopAndDisableUnit n d) = d_clients d"
  "d_log (startAndEnableUnit n d) = d_log d" "d_log (stopAndDisableUnit n d) = d_log d"
  "d_now (startAndEnableUnit n d) = d_now d" "d_now (stopAndDisableUnit n d) = d_now d"
  "daemon.more (startAndEnableUnit n d) = daemon.more d"
  "daemon.more (stopAndDisableUnit n d) = daemon.more d"
  "d_effects (startAndEnableUnit n d) = d_effects d @
     [SystemdCall ''StartUnit'' [n, ''replace''], SystemdCall ''EnableUnitFiles'' [n, ''false''], SystemdCall ''Reload'' []]"
  "d_effects (stopAndDisableUnit n d) = d_effects d @
     [SystemdCall ''StopUnit'' [n, ''replace''], SystemdCall ''DisableUnitFiles'' [n, ''false''], SystemdCall ''Reload'' []]"
  by (simp_all add: startAndEnableUnit_def stopAndDisableUnit_def enableUnit_def disableUnit_def
        startUnit_def stopUnit_def reload_def callNoReplay_def)

section \<open>Password complexity\<close>

definition is_digit :: "char \<Rightarrow> bool" where
  "is_digit c \<longleftrightarrow> (let n = of_char c :: nat in 48 \<le> n \<and> n \<le> 57)"

definition is_lower :: "char \<Rightarrow> bool" where
  "is_lower c \<longleftrightarrow> (let n = of_char c :: nat in 97 \<le> n \<and> n \<le> 122)"

definition is_upper :: "char \<Rightarrow> bool" where
  "is_upper c \<longleftrightarrow> (let n = of_char c :: nat in 65 \<le> n \<and> n \<le> 90)"

definition is_special :: "char \<Rightarrow> bool" where
  "is_special c \<longleftrightarrow> \<not> is_digit c \<and> \<not> is_lower c \<and> \<not> is_upper c"

text \<open>
  The regular expression both managers test: 8 to 16 characters that are not all digits,
  all lower case, all upper case or all special. As in Perl, \<open>$\<close> also matches before a
  final newline and a dot matches no newline.
\<close>

definition newline :: char where
  "newline = CHR 0x0A"

definition password_regex :: "string \<Rightarrow> bool" where
  "password_regex s =
     (let t = (if s \<noteq> [] \<and> last s = newline then butlast s else s)
      in newline \<notin> set t \<and> 8 \<le> length t \<and> length t \<le> 16
         \<and> \<not> list_all is_digit t \<and> \<not> list_all is_lower t
         \<and> \<not> list_all is_upper t \<and> \<not> list_all is_special t)"

text \<open>\<open>checkPassword\<close> of the account manager and of the box manager: the same test.\<close>

definition checkPassword :: "string \<Rightarrow> string \<Rightarrow> bool" where
  "checkPassword password userName = (if contains_ci password userName then False else password_regex password)"

lemma char_class_disjoint:
  "is_digit c \<Longrightarrow> \<not> is_lower c" "is_digit c \<Longrightarrow> \<not> is_upper c" "is_lower c \<Longrightarrow> \<not> is_upper c"
  by (auto simp: is_digit_def is_lower_def is_upper_def Let_def)

text \<open>Exactly the four classes: a password of one class only is refused, of two is accepted.\<close>

lemma password_regex_two_classes:
  assumes "newline \<notin> set s"
  shows "password_regex s \<longleftrightarrow> 8 \<le> length s \<and> length s \<le> 16
     \<and> (\<forall>P \<in> {is_digit, is_lower, is_upper, is_special}. \<exists>c \<in> set s. \<not> P c)"
proof -
  have "\<not> (s \<noteq> [] \<and> last s = newline)" using assms last_in_set by metis
  then show ?thesis using assms by (auto simp: password_regex_def list_all_iff Let_def)
qed

end
