(* ===== verification/BRPlugins.thy ===== *)
theory BRPlugins
  imports BRRule Daemon
begin

text \<open>
  The plugins of the baseline reinforcement: \<open>src/daemon/br/plugin.cpp\<close>, \<open>plugin-loader.cpp\<close> and
  \<open>plugins.cpp\<close>, and the state of the component \<open>br\<close>, the record \<open>br\<close> below, which the theories
  \<open>BRConfig\<close>, \<open>BRJob\<close> and \<open>BRDBus\<close> work on as well.

  A plugin's configuration file is read by code generated from a schema; what the file says is the
  record \<open>plugin\<close>. The libraries and Python modules behind the plugins are not part of the program:
  what an operation of theirs returns is the parameter \<open>be_get\<close> and \<open>be_set\<close> of \<open>br_env\<close>.
\<close>

section \<open>State\<close>

datatype LanguageType = LT_cpp | LT_python | LT_other

text \<open>What loading a shared library finds: whether it can be opened and which functions it exports.\<close>

record so_library =
  so_opens :: bool
  so_new_plugin :: bool
  so_delete_plugin :: bool

record plugin =
  pl_name :: string
  pl_language :: LanguageType
  pl_category :: string
  pl_reinforcements :: "reinforcement list"
  pl_has_interface :: bool

text \<open>A directory entry that may be a plugin file: \<open>None\<close> where the file cannot be read.\<close>

record plugin_file =
  pf_basename :: string
  pf_isFile :: bool
  pf_available :: bool
  pf_plugin :: "plugin option"

record loaded =
  ld_plugin :: string
  ld_config :: reinforcement
  ld_rules :: "(string, rule) qmap"

datatype BRJobState = BR_JOB_STATE_IDLE | BR_JOB_STATE_RUNNING | BR_JOB_STATE_DONE | BR_JOB_STATE_CANCEL_DONE

text \<open>
  The component: the settings of the daemon's configuration file, the file of the custom parameters
  and the two files of the history (\<open>None\<close>: not there or not readable), the encrypted custom standard,
  the standard in use, the plugins by identifier, the plugin of each reinforcement, and the
  reinforcements in use.
\<close>

record br = daemon +
  br_settings :: qsettings
  br_ra_file :: "reinforcement list option"
  br_rh_first :: "reinforcement list option"
  br_rh_last :: "reinforcement list option"
  br_custom_rs :: string
  br_rs :: "reinforcement list option"
  br_plugins :: "(string, plugin) qmap"
  br_reinforcements_plugins :: "(string, plugin) qmap"
  br_reinforcements :: "(string, loaded) qmap"

section \<open>Loading a plugin\<close>

fun language_suffix :: "LanguageType \<Rightarrow> string" where
  "language_suffix LT_cpp = ''cpp''"
| "language_suffix LT_python = ''python''"
| "language_suffix LT_other = []"

definition getId :: "plugin \<Rightarrow> string" where
  "getId p = pl_name p @ ''_'' @ language_suffix (pl_language p)"

definition getReinforcementNames :: "plugin \<Rightarrow> string list" where
  "getReinforcementNames p = map rf_name (pl_reinforcements p)"

definition getReinforcementConfig :: "string \<Rightarrow> plugin \<Rightarrow> reinforcement option" where
  "getReinforcementConfig name p = List.find (\<lambda>r. rf_name r = name) (pl_reinforcements p)"

text \<open>Loading a library ends in a loaded plugin, in a refusal, or in a call of a null pointer.\<close>

datatype load_result = Load_ok | Load_failed | Load_crash

definition load_module :: "so_library \<Rightarrow> load_result" where
  "load_module so =
     (if so_opens so
      then if so_new_plugin so then Load_failed
           else if so_delete_plugin so then Load_failed
           else Load_crash
      else Load_failed)"

definition loadPluginModule :: "(string \<Rightarrow> so_library) \<Rightarrow> (string \<Rightarrow> bool) \<Rightarrow> string \<Rightarrow> plugin \<Rightarrow> load_result" where
  "loadPluginModule library python_import dirname p =
     (case pl_language p of
        LT_cpp \<Rightarrow> load_module (library (dirname @ ''/lib'' @ pl_name p @ ''.so''))
      | LT_python \<Rightarrow> if python_import (''br.'' @ pl_name p) then Load_ok else Load_failed
      | LT_other \<Rightarrow> Load_failed)"

definition plugin_init :: "(string \<Rightarrow> so_library) \<Rightarrow> (string \<Rightarrow> bool) \<Rightarrow> plugin_file \<Rightarrow> load_result" where
  "plugin_init library python_import f =
     (case pf_plugin f of
        None \<Rightarrow> Load_failed
      | Some p \<Rightarrow> if \<not> pf_available f then Load_failed
                  else loadPluginModule library python_import (pf_basename f) p)"

section \<open>The plugins\<close>

definition getPluginByReinforcement :: "string \<Rightarrow> 'a br_scheme \<Rightarrow> plugin option" where
  "getPluginByReinforcement name s = qm_value name (br_reinforcements_plugins s)"

definition claim_reinforcement :: "plugin \<Rightarrow> string \<Rightarrow> 'a br_scheme \<Rightarrow> 'a br_scheme" where
  "claim_reinforcement p name s =
     (case getPluginByReinforcement name s of
        Some old \<Rightarrow> s
      | None \<Rightarrow> s\<lparr>br_reinforcements_plugins := qm_insert name p (br_reinforcements_plugins s)\<rparr>)"

definition addPlugin :: "plugin \<Rightarrow> 'a br_scheme \<Rightarrow> bool \<times> 'a br_scheme" where
  "addPlugin p s =
     (if qm_contains (getId p) (br_plugins s) then (False, s)
      else (True, fold (claim_reinforcement p) (getReinforcementNames p)
                    (s\<lparr>br_plugins := qm_insert (getId p) p (br_plugins s)\<rparr>)))"

text \<open>A directory is read up to its first plugin that cannot be loaded; \<open>None\<close> is a crash.\<close>

fun loadPluginsFromDir :: "(string \<Rightarrow> so_library) \<Rightarrow> (string \<Rightarrow> bool) \<Rightarrow> plugin_file list \<Rightarrow> 'a br_scheme \<Rightarrow> ('a br_scheme) option" where
  "loadPluginsFromDir library python_import [] s = Some s"
| "loadPluginsFromDir library python_import (f # fs) s =
     (if \<not> (startsWith (pf_basename f) ''br-plugin'' \<and> pf_isFile f)
      then loadPluginsFromDir library python_import fs s
      else case plugin_init library python_import f of
             Load_crash \<Rightarrow> None
           | Load_failed \<Rightarrow> Some s
           | Load_ok \<Rightarrow> (case pf_plugin f of
                 None \<Rightarrow> Some s
               | Some p \<Rightarrow> loadPluginsFromDir library python_import fs (snd (addPlugin p s))))"

definition getReinforcement :: "string \<Rightarrow> 'a br_scheme \<Rightarrow> loaded option" where
  "getReinforcement name s = qm_value name (br_reinforcements s)"

definition getReinforcements :: "'a br_scheme \<Rightarrow> loaded list" where
  "getReinforcements s = qm_values (br_reinforcements s)"

definition getReinforcementsByCategory :: "string \<Rightarrow> 'a br_scheme \<Rightarrow> loaded list" where
  "getReinforcementsByCategory category s =
     filter (\<lambda>l. (case rf_category (ld_config l) of None \<Rightarrow> [] | Some c \<Rightarrow> c) = category) (getReinforcements s)"

text \<open>Whether the operations of a reinforcement can be called: its plugin is there, has an interface,
  and the interface knows the name.\<close>

definition getReinforcementInterface :: "(string \<Rightarrow> string \<Rightarrow> bool) \<Rightarrow> string \<Rightarrow> string \<Rightarrow> 'a br_scheme \<Rightarrow> bool" where
  "getReinforcementInterface knows plugin_name reinforcement_name s =
     (case qm_value plugin_name (br_plugins s) of
        None \<Rightarrow> False
      | Some p \<Rightarrow> pl_has_interface p \<and> knows plugin_name reinforcement_name)"

section \<open>The reinforcements in use\<close>

text \<open>\<open>Reinforcement::reload\<close>: the plugin's category where the reinforcement has none.\<close>

definition reinforcement_reload :: "(string, plugin) qmap \<Rightarrow> string \<Rightarrow> reinforcement \<Rightarrow> loaded" where
  "reinforcement_reload plugins plugin_id config =
     (let config = (case rf_category config of
            Some c \<Rightarrow> config
          | None \<Rightarrow> (case qm_value plugin_id plugins of
                None \<Rightarrow> config | Some p \<Rightarrow> config\<lparr>rf_category := Some (pl_category p)\<rparr>))
      in \<lparr>ld_plugin = plugin_id, ld_config = config, ld_rules = updateRules config\<rparr>)"

text \<open>One element of the standard: with the base data of its plugin's configuration.\<close>

definition describe :: "reinforcement \<Rightarrow> reinforcement \<Rightarrow> reinforcement" where
  "describe noarg r =
     (let r = (case rf_category noarg of None \<Rightarrow> r | Some c \<Rightarrow> r\<lparr>rf_category := Some c\<rparr>)
      in r\<lparr>rf_label := rf_label noarg, rf_description := rf_description noarg\<rparr>)"

definition support :: "reinforcement \<Rightarrow> 'a br_scheme \<Rightarrow> (plugin \<times> reinforcement) option" where
  "support r s =
     (case getPluginByReinforcement (rf_name r) s of
        None \<Rightarrow> None
      | Some p \<Rightarrow> map_option (Pair p) (getReinforcementConfig (rf_name r) p))"

fun load_elements :: "reinforcement list \<Rightarrow> reinforcement list \<Rightarrow> 'a br_scheme \<Rightarrow> reinforcement list \<times> 'a br_scheme" where
  "load_elements seen [] s = (rev seen, s)"
| "load_elements seen (r # rs) s =
     (case support r s of
        None \<Rightarrow> load_elements (r # seen) rs s
      | Some (p, noarg) \<Rightarrow>
          (let r = describe noarg r
           in load_elements (r # seen) rs
                (s\<lparr>br_reinforcements := qm_insert (rf_name r) (reinforcement_reload (br_plugins s) (getId p) r)
                     (br_reinforcements s)\<rparr>)))"

definition loadReinforcements :: "'a br_scheme \<Rightarrow> 'a br_scheme" where
  "loadReinforcements s =
     (let s = s\<lparr>br_reinforcements := []\<rparr>
      in case br_rs s of
           None \<Rightarrow> s
         | Some rs \<Rightarrow> (let (rs', s) = load_elements [] rs s in s\<lparr>br_rs := Some rs'\<rparr>))"

section \<open>Which plugin serves which reinforcement\<close>

lemma claim_reinforcement_fields [simp]:
  "br_plugins (claim_reinforcement p name s) = br_plugins s"
  "br_rs (claim_reinforcement p name s) = br_rs s"
  "br_reinforcements (claim_reinforcement p name s) = br_reinforcements s"
  by (simp_all add: claim_reinforcement_def split: option.splits)

lemma claims_fields [simp]:
  "br_plugins (fold (claim_reinforcement p) names s) = br_plugins s"
  "br_rs (fold (claim_reinforcement p) names s) = br_rs s"
  "br_reinforcements (fold (claim_reinforcement p) names s) = br_reinforcements s"
  by (induction names arbitrary: s) simp_all

lemma claims_plugins:
  "qm_ok (br_reinforcements_plugins s) \<Longrightarrow>
     qm_ok (br_reinforcements_plugins (fold (claim_reinforcement p) names s))
     \<and> getPluginByReinforcement n (fold (claim_reinforcement p) names s) =
         (case getPluginByReinforcement n s of
            Some q \<Rightarrow> Some q | None \<Rightarrow> if n \<in> set names then Some p else None)"
proof (induction names arbitrary: s)
  case Nil
  then show ?case by (simp split: option.splits)
next
  case (Cons m names)
  have "qm_ok (br_reinforcements_plugins (claim_reinforcement p m s))
      \<and> getPluginByReinforcement n (claim_reinforcement p m s) =
         (case getPluginByReinforcement n s of Some q \<Rightarrow> Some q | None \<Rightarrow> if n = m then Some p else None)"
    using Cons.prems by (auto simp: claim_reinforcement_def getPluginByReinforcement_def qm_ok_insert qm_value_insert
        split: option.splits)
  then show ?case using Cons.IH [of "claim_reinforcement p m s"] by (auto split: option.splits)
qed

text \<open>The plugins are those registered, by their identifiers; every reinforcement belongs to a registered
  plugin that names it.\<close>

definition plugins_ok :: "'a br_scheme \<Rightarrow> bool" where
  "plugins_ok s \<longleftrightarrow> qm_ok (br_plugins s) \<and> qm_ok (br_reinforcements_plugins s)
     \<and> (\<forall>i p. qm_value i (br_plugins s) = Some p \<longrightarrow> getId p = i)
     \<and> (\<forall>n p. getPluginByReinforcement n s = Some p \<longrightarrow>
          n \<in> set (getReinforcementNames p) \<and> qm_value (getId p) (br_plugins s) = Some p)"

lemma addPlugin_ok: "plugins_ok s \<Longrightarrow> plugins_ok (snd (addPlugin p s))"
proof (cases "qm_contains (getId p) (br_plugins s)")
  case False
  assume ok: "plugins_ok s"
  let ?t = "s\<lparr>br_plugins := qm_insert (getId p) p (br_plugins s)\<rparr>"
  have new: "snd (addPlugin p s) = fold (claim_reinforcement p) (getReinforcementNames p) ?t"
    using False by (simp add: addPlugin_def)
  have "qm_ok (br_reinforcements_plugins ?t)" using ok by (simp add: plugins_ok_def)
  note claims = claims_plugins [OF this, of p "getReinforcementNames p"]
  have same: "getPluginByReinforcement n ?t = getPluginByReinforcement n s" for n
    by (simp add: getPluginByReinforcement_def)
  have fresh: "qm_value (getId p) (br_plugins s) = None" using False by (simp add: qm_contains_value)
  have "n \<in> set (getReinforcementNames q) \<and> qm_value (getId q) (br_plugins (snd (addPlugin p s))) = Some q"
    if q: "getPluginByReinforcement n (snd (addPlugin p s)) = Some q" for n q
  proof (cases "getPluginByReinforcement n s")
    case None
    then show ?thesis using q ok claims [of n] unfolding new plugins_ok_def
      by (auto simp: same qm_value_insert split: if_splits)
  next
    case (Some r)
    then have "r = q" using q claims [of n] unfolding new by (simp add: same)
    with Some ok have old: "n \<in> set (getReinforcementNames q)" "qm_value (getId q) (br_plugins s) = Some q"
      unfolding plugins_ok_def by blast+
    have "getId q \<noteq> getId p"
    proof
      assume "getId q = getId p"
      with old(2) fresh show False by simp
    qed
    moreover have "qm_ok (br_plugins s)" using ok by (simp only: plugins_ok_def)
    ultimately show ?thesis using old by (simp add: new qm_value_insert)
  qed
  moreover have "qm_ok (br_plugins s)" "\<forall>i p. qm_value i (br_plugins s) = Some p \<longrightarrow> getId p = i"
    using ok unfolding plugins_ok_def by blast+
  then have "qm_ok (br_plugins (snd (addPlugin p s)))"
      "\<forall>i q. qm_value i (br_plugins (snd (addPlugin p s))) = Some q \<longrightarrow> getId q = i"
    by (simp_all add: new qm_ok_insert qm_value_insert)
  moreover have "qm_ok (br_reinforcements_plugins (snd (addPlugin p s)))" using claims by (simp only: new)
  ultimately show ?thesis unfolding plugins_ok_def by blast
qed (simp add: addPlugin_def)

lemma loadPluginsFromDir_ok:
  "plugins_ok s \<Longrightarrow> loadPluginsFromDir library python_import fs s = Some s' \<Longrightarrow> plugins_ok s'"
proof (induction library python_import fs s rule: loadPluginsFromDir.induct)
  case (2 library python_import f fs s)
  show ?case
  proof (cases "startsWith (pf_basename f) ''br-plugin'' \<and> pf_isFile f")
    case True
    then have eq: "loadPluginsFromDir library python_import (f # fs) s =
        (case plugin_init library python_import f of Load_crash \<Rightarrow> None | Load_failed \<Rightarrow> Some s
         | Load_ok \<Rightarrow> (case pf_plugin f of None \<Rightarrow> Some s
             | Some p \<Rightarrow> loadPluginsFromDir library python_import fs (snd (addPlugin p s))))" by simp
    show ?thesis
    proof (cases "plugin_init library python_import f")
      case Load_ok
      show ?thesis
      proof (cases "pf_plugin f")
        case None
        from 2(4) [unfolded eq Load_ok None load_result.case option.case] 2(3) show ?thesis by simp
      next
        case (Some p)
        from 2(4) [unfolded eq Load_ok Some load_result.case option.case]
        show ?thesis using 2(2) [OF _ Load_ok Some addPlugin_ok [OF 2(3)]] True by blast
      qed
    qed (use 2(3) 2(4) [unfolded eq] in simp_all)
  next
    case False
    have "loadPluginsFromDir library python_import fs s = Some s'"
      using 2(4) unfolding loadPluginsFromDir.simps(2) if_P [OF False] .
    then show ?thesis by (rule 2(1) [OF False 2(3)])
  qed
qed simp

section \<open>Which reinforcements are in use\<close>

lemma describe_fields [simp]: "rf_name (describe noarg r) = rf_name r" "rf_args (describe noarg r) = rf_args r"
    "rf_checkbox (describe noarg r) = rf_checkbox r"
  by (simp_all add: describe_def Let_def split: option.splits)

lemma reinforcement_reload_fields [simp]:
  "ld_plugin (reinforcement_reload ps i r) = i" "rf_name (ld_config (reinforcement_reload ps i r)) = rf_name r"
  "rf_args (ld_config (reinforcement_reload ps i r)) = rf_args r"
  by (simp_all add: reinforcement_reload_def Let_def split: option.splits)

lemma support_frame [simp]: "support r (s\<lparr>br_reinforcements := x\<rparr>) = support r s"
    "support r (s\<lparr>br_rs := y\<rparr>) = support r s"
  by (simp_all add: support_def getPluginByReinforcement_def)

lemma support_name: "rf_name r = rf_name r' \<Longrightarrow> support r s = support r' s"
  by (simp only: support_def)

definition described :: "'a br_scheme \<Rightarrow> reinforcement \<Rightarrow> reinforcement" where
  "described s r = (case support r s of None \<Rightarrow> r | Some (p, noarg) \<Rightarrow> describe noarg r)"

definition in_use :: "'a br_scheme \<Rightarrow> reinforcement \<Rightarrow> loaded option" where
  "in_use s r = map_option (\<lambda>(p, noarg). reinforcement_reload (br_plugins s) (getId p) (describe noarg r)) (support r s)"

definition use_element :: "'a br_scheme \<Rightarrow> reinforcement \<Rightarrow> (string, loaded) qmap \<Rightarrow> (string, loaded) qmap" where
  "use_element s r m = (case in_use s r of None \<Rightarrow> m | Some l \<Rightarrow> qm_insert (rf_name r) l m)"

lemma load_elements_eq:
  "load_elements seen rs s =
     (rev seen @ map (described s) rs, s\<lparr>br_reinforcements := fold (use_element s) rs (br_reinforcements s)\<rparr>)"
proof (induction seen rs s rule: load_elements.induct)
  case (2 seen r rs s)
  have cong: "described (s\<lparr>br_reinforcements := x\<rparr>) = described s" "use_element (s\<lparr>br_reinforcements := x\<rparr>) = use_element s" for x
    by (simp_all add: fun_eq_iff described_def use_element_def in_use_def)
  show ?case
    using 2 by (cases "support r s") (auto simp: cong Let_def described_def use_element_def in_use_def)
qed simp

lemma fold_use_element:
  "qm_ok m \<Longrightarrow> qm_ok (fold (use_element s) rs m) \<and> qm_value n (fold (use_element s) rs m) =
     (case Option.bind (List.find (\<lambda>r. rf_name r = n) (rev rs)) (in_use s) of Some l \<Rightarrow> Some l | None \<Rightarrow> qm_value n m)"
proof (induction rs rule: rev_induct)
  case (snoc r rs)
  let ?m = "fold (use_element s) rs m"
  have ok: "qm_ok ?m" using snoc by blast
  have "in_use s r = None" if "List.find (\<lambda>r. rf_name r = n) (rev rs) = Some r'" "in_use s r' = None" "rf_name r = n" for r'
    using that support_name [of r r' s] by (auto simp: find_Some_iff in_use_def)
  moreover have "in_use s r' = None" if "List.find (\<lambda>r. rf_name r = n) (rev rs) = Some r'" "in_use s r = None" "rf_name r = n" for r'
    using that support_name [of r r' s] by (auto simp: find_Some_iff in_use_def)
  ultimately show ?case
    using snoc ok by (cases "List.find (\<lambda>r. rf_name r = n) (rev rs)")
      (auto simp: use_element_def qm_ok_insert qm_value_insert split: option.splits)
qed simp

text \<open>C20: After the standard has been loaded, the reinforcements in use are exactly its elements that a
  registered plugin names and describes (of two elements of one name, the later one), each with the
  identifier of the plugin it will be run by, a category, and the parameters and rules of the
  standard; the elements, their order and their parameters stay as they are.\<close>

theorem reinforcements_in_use:
  assumes "br_rs s = Some rs" and "plugins_ok s"
  shows "(getReinforcement n (loadReinforcements s) =
       Option.bind (List.find (\<lambda>r. rf_name r = n) (rev rs)) (in_use s))
     \<and> (\<forall>l. getReinforcement n (loadReinforcements s) = Some l \<longrightarrow>
          rf_category (ld_config l) \<noteq> None \<and> ld_rules l = updateRules (ld_config l)
          \<and> (\<exists>p. qm_value (ld_plugin l) (br_plugins s) = Some p \<and> n \<in> set (getReinforcementNames p)))
     \<and> map_option (map (\<lambda>r. (rf_name r, rf_args r))) (br_rs (loadReinforcements s)) = Some (map (\<lambda>r. (rf_name r, rf_args r)) rs)"
proof (intro conjI)
  let ?s = "s\<lparr>br_reinforcements := []\<rparr>"
  have cong: "use_element ?s = use_element s" "described ?s = described s"
    by (simp_all add: fun_eq_iff described_def use_element_def in_use_def)
  have lookup: "getReinforcement n (loadReinforcements s) = Option.bind (List.find (\<lambda>r. rf_name r = n) (rev rs)) (in_use s)"
    using fold_use_element [of "[]" s rs n] assms(1)
    by (auto simp: getReinforcement_def loadReinforcements_def load_elements_eq cong split: option.splits)
  then show "getReinforcement n (loadReinforcements s) = Option.bind (List.find (\<lambda>r. rf_name r = n) (rev rs)) (in_use s)" .
  show "\<forall>l. getReinforcement n (loadReinforcements s) = Some l \<longrightarrow>
          rf_category (ld_config l) \<noteq> None \<and> ld_rules l = updateRules (ld_config l)
          \<and> (\<exists>p. qm_value (ld_plugin l) (br_plugins s) = Some p \<and> n \<in> set (getReinforcementNames p))"
  proof (intro allI impI)
    fix l assume "getReinforcement n (loadReinforcements s) = Some l"
    then obtain r p noarg where r: "rf_name r = n" and sup: "support r s = Some (p, noarg)"
        and l: "l = reinforcement_reload (br_plugins s) (getId p) (describe noarg r)"
      unfolding lookup by (auto simp: bind_eq_Some_conv find_Some_iff in_use_def)
    from sup have "getPluginByReinforcement (rf_name r) s = Some p" by (simp add: support_def split: option.splits)
    with assms(2) r have p: "n \<in> set (getReinforcementNames p)" "qm_value (getId p) (br_plugins s) = Some p"
      unfolding plugins_ok_def by blast+
    then show "rf_category (ld_config l) \<noteq> None \<and> ld_rules l = updateRules (ld_config l)
          \<and> (\<exists>p. qm_value (ld_plugin l) (br_plugins s) = Some p \<and> n \<in> set (getReinforcementNames p))"
      unfolding l by (auto simp: reinforcement_reload_def Let_def split: option.splits)
  qed
  show "map_option (map (\<lambda>r. (rf_name r, rf_args r))) (br_rs (loadReinforcements s)) = Some (map (\<lambda>r. (rf_name r, rf_args r)) rs)"
    using assms(1) by (simp add: loadReinforcements_def load_elements_eq cong described_def comp_def split: option.splits prod.splits)
qed

text \<open>No plugin written in C++ is ever loaded: a library that exports the two functions every plugin
  exports is refused, one that exports neither makes the daemon call a null pointer, and a refusal
  ends the reading of the whole directory.\<close>

theorem cpp_plugins_never_load:
  assumes "pf_plugin f = Some p" and "pl_language p = LT_cpp" and "pf_isFile f" and "startsWith (pf_basename f) ''br-plugin''"
  shows "loadPluginsFromDir library python_import (f # fs) s \<in> {None, Some s}
     \<and> (so_opens (library (pf_basename f @ ''/lib'' @ pl_name p @ ''.so''))
          \<and> so_new_plugin (library (pf_basename f @ ''/lib'' @ pl_name p @ ''.so'')) \<longrightarrow>
        loadPluginsFromDir library python_import (f # fs) s = Some s)"
  using assms by (simp add: plugin_init_def loadPluginModule_def load_module_def)

definition sample_plugin :: "LanguageType \<Rightarrow> plugin" where
  "sample_plugin language = \<lparr>pl_name = ''audit'', pl_language = language, pl_category = ''audit'',
     pl_reinforcements = [sample_reinforcement], pl_has_interface = True\<rparr>"

definition empty_br :: br where
  "empty_br = \<lparr>d_clients = [], d_log = small_log, d_now = 0, d_effects = [], br_settings = [], br_ra_file = None,
     br_rh_first = None, br_rh_last = None, br_custom_rs = [], br_rs = Some [sample_reinforcement], br_plugins = [],
     br_reinforcements_plugins = [], br_reinforcements = []\<rparr>"

definition sample_br :: br where
  "sample_br = snd (addPlugin (sample_plugin LT_python) empty_br)"

lemma sample_br_plugins: "plugins_ok sample_br"
  unfolding sample_br_def by (rule addPlugin_ok) (simp add: plugins_ok_def empty_br_def getPluginByReinforcement_def)

lemma sample_br_rs: "br_rs sample_br = Some [sample_reinforcement]"
  by (simp add: sample_br_def addPlugin_def empty_br_def)

theorem reinforcements_in_use_witness:
  "\<exists>l. getReinforcement ''password-expired'' (loadReinforcements sample_br) = Some l \<and> rf_category (ld_config l) \<noteq> None"
proof -
  have "Option.bind (List.find (\<lambda>r. rf_name r = ''password-expired'') (rev [sample_reinforcement])) (in_use sample_br) \<noteq> None"
    by code_simp
  then have "getReinforcement ''password-expired'' (loadReinforcements sample_br) \<noteq> None"
    by (simp only: reinforcements_in_use [OF sample_br_rs sample_br_plugins, THEN conjunct1] not_False_eq_True)
  then obtain l where l: "getReinforcement ''password-expired'' (loadReinforcements sample_br) = Some l" by blast
  with reinforcements_in_use [OF sample_br_rs sample_br_plugins, THEN conjunct2, THEN conjunct1] show ?thesis by blast
qed

theorem cpp_plugins_never_load_witness:
  "loadPluginsFromDir (\<lambda>_. \<lparr>so_opens = True, so_new_plugin = True, so_delete_plugin = True\<rparr>) (\<lambda>_. True)
     [\<lparr>pf_basename = ''br-plugin-audit.xml'', pf_isFile = True, pf_available = True, pf_plugin = Some (sample_plugin LT_cpp)\<rparr>]
     sample_br = Some sample_br"
  by (rule cpp_plugins_never_load [where p = "sample_plugin LT_cpp", THEN conjunct2, THEN mp])
     (simp_all add: sample_plugin_def startsWith_def)

end
