(* ===== verification/BRConfig.thy ===== *)
theory BRConfig
  imports BRPlugins "HOL-Library.Word"
begin

text \<open>
  The configuration of the baseline reinforcement, \<open>src/daemon/br/configuration.cpp\<close>: the switches kept
  in the settings file, the standard in use (the fixed standard joined with the user's parameters),
  and the files of the user's parameters and of the history.

  The files are read and written by code generated from a schema: a file is the list of
  reinforcements it holds, and \<open>None\<close> where it is missing or cannot be parsed. The parameters of one
  call are in \<open>br_env\<close>: the decryption of a standard and its parse, the text of the fixed standard,
  which files can be written, and what a failed write of the parameter file leaves behind.
\<close>

record br_env =
  ev_decrypt :: "string \<Rightarrow> string"
  ev_parse_rs :: "string \<Rightarrow> reinforcement list option"
  ev_system_rs :: string
  ev_rs_writable :: bool
  ev_ra_failure :: "(reinforcement list option) option"
  ev_rh_writable :: bool

section \<open>Switches\<close>

abbreviation (input) "BR_STANDARD_TYPE_SYSTEM \<equiv> (0 :: int)"
abbreviation (input) "BR_STANDARD_TYPE_CUSTOM \<equiv> (1 :: int)"
abbreviation (input) "BR_STANDARD_TYPE_LAST \<equiv> (2 :: int)"
abbreviation (input) "BR_STRATEGY_TYPE_SYSTEM \<equiv> (0 :: int)"
abbreviation (input) "BR_STRATEGY_TYPE_LAST \<equiv> (2 :: int)"
abbreviation (input) "BR_NOTIFICATION_STATUS_OPEN \<equiv> (0 :: int)"
abbreviation (input) "BR_NOTIFICATION_STATUS_OTHER \<equiv> (2 :: int)"
abbreviation (input) "BR_RESOURCE_MONITOR_CLOSE \<equiv> (0 :: int)"
abbreviation (input) "BR_RESOURCE_MONITOR_OPEN \<equiv> (1 :: int)"
abbreviation (input) "BR_RESOURCE_MONITOR_OTHER \<equiv> (2 :: int)"
abbreviation (input) "BR_FALLBACK_STATUS_NOT_STARTED \<equiv> (0 :: int)"
abbreviation (input) "BR_FALLBACK_STATUS_IN_PROGRESS \<equiv> (1 :: int)"
abbreviation (input) "BR_FALLBACK_STATUS_IS_FINISHED \<equiv> (2 :: int)"

definition getInteger :: "string \<Rightarrow> int \<Rightarrow> 'a br_scheme \<Rightarrow> int" where
  "getInteger key default_value s =
     (case s_value ''br'' key (br_settings s) of VInvalid \<Rightarrow> default_value | v \<Rightarrow> v_toInt v)"

definition setInteger :: "string \<Rightarrow> int \<Rightarrow> 'a br_scheme \<Rightarrow> 'a br_scheme" where
  "setInteger key v s = s\<lparr>br_settings := s_setValue ''br'' key (VInt v) (br_settings s)\<rparr>"

definition getMaxThreadNum :: "'a br_scheme \<Rightarrow> 32 word" where
  "getMaxThreadNum s = word_of_int (getInteger ''max_thread_num'' 1 s)"

definition getStandardType :: "'a br_scheme \<Rightarrow> int" where
  "getStandardType s =
     (let retval = getInteger ''standard_type'' BR_STANDARD_TYPE_SYSTEM s
      in if retval \<ge> BR_STANDARD_TYPE_LAST \<or> retval < 0 then BR_STANDARD_TYPE_SYSTEM else retval)"

definition getStrategyType :: "'a br_scheme \<Rightarrow> int" where
  "getStrategyType s =
     (let retval = getInteger ''strategy_type'' BR_STRATEGY_TYPE_SYSTEM s
      in if retval \<ge> BR_STRATEGY_TYPE_LAST \<or> retval < 0 then BR_STRATEGY_TYPE_SYSTEM else retval)"

definition setStrategyType :: "int \<Rightarrow> 'a br_scheme \<Rightarrow> bool \<times> 'a br_scheme" where
  "setStrategyType strategy_type s =
     (if \<not> strategy_type < BR_STRATEGY_TYPE_LAST then (False, s)
      else if strategy_type = getStrategyType s then (True, s)
      else (True, setInteger ''strategy_type'' strategy_type s))"

definition getTimeScan :: "'a br_scheme \<Rightarrow> int" where
  "getTimeScan s = (let retval = getInteger ''time_scan'' 0 s in if retval < 0 then 0 else retval)"

definition setTimeScan :: "int \<Rightarrow> 'a br_scheme \<Rightarrow> bool \<times> 'a br_scheme" where
  "setTimeScan time_scan s =
     (if time_scan = getTimeScan s then (True, s) else (True, setInteger ''time_scan'' time_scan s))"

definition getNotificationStatus :: "'a br_scheme \<Rightarrow> int" where
  "getNotificationStatus s =
     (let retval = getInteger ''notification_status'' BR_NOTIFICATION_STATUS_OPEN s
      in if retval \<ge> BR_NOTIFICATION_STATUS_OTHER \<or> retval < 0 then BR_NOTIFICATION_STATUS_OPEN else retval)"

definition setNotificationStatus :: "int \<Rightarrow> 'a br_scheme \<Rightarrow> bool \<times> 'a br_scheme" where
  "setNotificationStatus notification_status s =
     (if \<not> notification_status < BR_NOTIFICATION_STATUS_OTHER then (False, s)
      else if notification_status = getNotificationStatus s then (True, s)
      else (True, setInteger ''notification_status'' notification_status s))"

definition getFallbackStatus :: "'a br_scheme \<Rightarrow> int" where
  "getFallbackStatus s =
     (let retval = getInteger ''fallback_status'' BR_FALLBACK_STATUS_NOT_STARTED s
      in if retval > BR_FALLBACK_STATUS_IS_FINISHED \<or> retval < 0 then BR_FALLBACK_STATUS_NOT_STARTED else retval)"

definition setFallbackStatus :: "int \<Rightarrow> 'a br_scheme \<Rightarrow> bool \<times> 'a br_scheme" where
  "setFallbackStatus fallbackStatus s =
     (if fallbackStatus > BR_FALLBACK_STATUS_IS_FINISHED then (False, s)
      else if fallbackStatus = getFallbackStatus s then (True, s)
      else (True, setInteger ''fallback_status'' fallbackStatus s))"

definition getResourceMonitorStatus :: "'a br_scheme \<Rightarrow> int" where
  "getResourceMonitorStatus s =
     (let retval = getInteger ''resource_monitor'' BR_RESOURCE_MONITOR_OPEN s
      in if retval \<ge> BR_RESOURCE_MONITOR_OTHER \<or> retval < 0 then BR_RESOURCE_MONITOR_OPEN else retval)"

definition setResourceMonitorStatus :: "int \<Rightarrow> 'a br_scheme \<Rightarrow> bool \<times> 'a br_scheme" where
  "setResourceMonitorStatus resource_monitor s =
     (if \<not> resource_monitor < BR_RESOURCE_MONITOR_OTHER then (False, s)
      else if resource_monitor = getResourceMonitorStatus s then (True, s)
      else (True, setInteger ''resource_monitor'' resource_monitor s))"

section \<open>The standard in use\<close>

text \<open>The first parameter of the name gets the value.\<close>

fun set_arg_value :: "string \<Rightarrow> string \<Rightarrow> arg list \<Rightarrow> arg list" where
  "set_arg_value name v [] = []"
| "set_arg_value name v (a # as) =
     (if ar_name a \<noteq> name then a # set_arg_value name v as else a\<lparr>ar_value := v\<rparr> # as)"

definition join_args :: "arg list \<Rightarrow> arg list \<Rightarrow> arg list" where
  "join_args from_args to_args = fold (\<lambda>a. set_arg_value (ar_name a) (ar_value a)) from_args to_args"

definition joinReinforcement :: "reinforcement \<Rightarrow> reinforcement \<Rightarrow> reinforcement" where
  "joinReinforcement from_r to_r = to_r\<lparr>rf_args := join_args (rf_args from_r) (rf_args to_r)\<rparr>"

definition decryptFile :: "br_env \<Rightarrow> string \<Rightarrow> string" where
  "decryptFile env contents = ev_decrypt env contents"

definition getFixedRs :: "br_env \<Rightarrow> 'a br_scheme \<Rightarrow> reinforcement list option" where
  "getFixedRs env s =
     ev_parse_rs env (decryptFile env
       (if getStandardType s = BR_STANDARD_TYPE_CUSTOM then br_custom_rs s else ev_system_rs env))"

definition readRaFromFile :: "'a br_scheme \<Rightarrow> reinforcement list" where
  "readRaFromFile s = (case br_ra_file s of None \<Rightarrow> [] | Some ra \<Rightarrow> ra)"

definition join_custom :: "reinforcement list \<Rightarrow> reinforcement list \<Rightarrow> reinforcement list" where
  "join_custom ra rs =
     fold (\<lambda>custom. map (\<lambda>fixed. if rf_name custom \<noteq> rf_name fixed then fixed else joinReinforcement custom fixed)) ra rs"

definition loadRs :: "br_env \<Rightarrow> 'a br_scheme \<Rightarrow> 'a br_scheme" where
  "loadRs env s =
     (case getFixedRs env s of
        None \<Rightarrow> s\<lparr>br_rs := None\<rparr>
      | Some rs \<Rightarrow> s\<lparr>br_rs := Some (join_custom (readRaFromFile s) rs)\<rparr>)"

text \<open>The signal \<open>rs_changed_\<close> reaches \<open>Plugins::onRsChangedCb\<close>.\<close>

definition reloadRs :: "br_env \<Rightarrow> 'a br_scheme \<Rightarrow> 'a br_scheme" where
  "reloadRs env s = loadReinforcements (loadRs env s)"

definition config_init :: "br_env \<Rightarrow> 'a br_scheme \<Rightarrow> 'a br_scheme" where
  "config_init env s = loadRs env s"

definition setStandardType :: "br_env \<Rightarrow> int \<Rightarrow> 'a br_scheme \<Rightarrow> bool \<times> 'a br_scheme" where
  "setStandardType env standard_type s =
     (if \<not> standard_type < BR_STANDARD_TYPE_LAST then (False, s)
      else if standard_type = getStandardType s then (True, s)
      else (True, reloadRs env (setInteger ''standard_type'' standard_type s)))"

section \<open>The user's parameters\<close>

definition writeRaToFile :: "br_env \<Rightarrow> reinforcement list \<Rightarrow> 'a br_scheme \<Rightarrow> bool \<times> 'a br_scheme" where
  "writeRaToFile env ra s =
     (case ev_ra_failure env of
        Some left \<Rightarrow> (False, s\<lparr>br_ra_file := left\<rparr>)
      | None \<Rightarrow> (True, reloadRs env (s\<lparr>br_ra_file := Some ra\<rparr>)))"

text \<open>The first entry of the name takes the new values of the parameters it already has; without an
  entry, one is added with the names and the values.\<close>

definition merge_entry :: "reinforcement \<Rightarrow> reinforcement" where
  "merge_entry r =
     \<lparr>rf_name = rf_name r, rf_category = None, rf_label = [], rf_description = [], rf_checkbox = None,
      rf_args = map (\<lambda>a. \<lparr>ar_name = ar_name a, ar_value = ar_value a, ar_rule = None, ar_input_example = None\<rparr>) (rf_args r)\<rparr>"

fun merge_custom :: "reinforcement \<Rightarrow> reinforcement list \<Rightarrow> reinforcement list" where
  "merge_custom r [] = [merge_entry r]"
| "merge_custom r (c # cs) =
     (if rf_name c \<noteq> rf_name r then c # merge_custom r cs else joinReinforcement r c # cs)"

definition setCustomRa :: "br_env \<Rightarrow> reinforcement \<Rightarrow> 'a br_scheme \<Rightarrow> bool \<times> 'a br_scheme" where
  "setCustomRa env r s = writeRaToFile env (merge_custom r (readRaFromFile s)) s"

fun remove_entry :: "string \<Rightarrow> reinforcement list \<Rightarrow> reinforcement list option" where
  "remove_entry name [] = None"
| "remove_entry name (c # cs) = (if rf_name c = name then Some cs else map_option ((#) c) (remove_entry name cs))"

definition delCustomRa :: "br_env \<Rightarrow> string \<Rightarrow> 'a br_scheme \<Rightarrow> 'a br_scheme" where
  "delCustomRa env name s =
     (case remove_entry name (readRaFromFile s) of None \<Rightarrow> s | Some ra \<Rightarrow> snd (writeRaToFile env ra s))"

definition delAllCustomRa :: "br_env \<Rightarrow> 'a br_scheme \<Rightarrow> 'a br_scheme" where
  "delAllCustomRa env s = (if readRaFromFile s \<noteq> [] then snd (writeRaToFile env [] s) else s)"

definition setRaCheckbox :: "br_env \<Rightarrow> string \<Rightarrow> bool \<Rightarrow> 'a br_scheme \<Rightarrow> 'a br_scheme" where
  "setRaCheckbox env name status s =
     snd (writeRaToFile env
       (map (\<lambda>c. if name = rf_name c then c\<lparr>rf_checkbox := Some status\<rparr> else c) (readRaFromFile s)) s)"

text \<open>
  A custom standard is stored as it came when it can be decrypted. The file is still open when the
  standard is loaded again: what was written is in the file by then only when it is longer than the
  write buffer of \<open>QFile\<close>, 16384 bytes; the file was emptied when it was opened.
\<close>

definition written_now :: "string \<Rightarrow> string" where
  "written_now txt = (if length txt \<le> 16384 then [] else txt)"

definition setCustomRs :: "br_env \<Rightarrow> string \<Rightarrow> 'a br_scheme \<Rightarrow> (BRErrorCode + unit) \<times> 'a br_scheme" where
  "setCustomRs env encrypted_rs s =
     (if ev_decrypt env encrypted_rs = [] then (Inl ERROR_CUSTOM_RS_DECRYPT_FAILED, s)
      else if \<not> ev_rs_writable env then (Inl BR_SUCCESS, s)
      else (let s = s\<lparr>br_custom_rs := written_now encrypted_rs\<rparr>;
                s = (if getStandardType s = BR_STANDARD_TYPE_CUSTOM then reloadRs env s else s)
            in (Inr (), s\<lparr>br_custom_rs := encrypted_rs\<rparr>)))"

section \<open>The history\<close>

datatype history = RH_first | RH_last

definition readRhFromFile :: "history \<Rightarrow> 'a br_scheme \<Rightarrow> reinforcement list" where
  "readRhFromFile h s = (case (case h of RH_first \<Rightarrow> br_rh_first s | RH_last \<Rightarrow> br_rh_last s) of None \<Rightarrow> [] | Some rh \<Rightarrow> rh)"

definition writeRhToFile :: "br_env \<Rightarrow> reinforcement list \<Rightarrow> history \<Rightarrow> 'a br_scheme \<Rightarrow> bool \<times> 'a br_scheme" where
  "writeRhToFile env rh h s =
     (if \<not> ev_rh_writable env then (False, s)
      else (True, case h of RH_first \<Rightarrow> s\<lparr>br_rh_first := Some rh\<rparr> | RH_last \<Rightarrow> s\<lparr>br_rh_last := Some rh\<rparr>))"

definition setCustomRh :: "br_env \<Rightarrow> reinforcement \<Rightarrow> history \<Rightarrow> 'a br_scheme \<Rightarrow> bool \<times> 'a br_scheme" where
  "setCustomRh env r h s = writeRhToFile env (merge_custom r (readRhFromFile h s)) h s"

section \<open>Switches read back in range\<close>

lemma br_settings_ok_set: "s_ok (br_settings s) \<Longrightarrow> s_ok (br_settings (setInteger k v s))"
  by (simp add: setInteger_def s_ok_setValue)

lemma getInteger_setInteger:
  "s_ok (br_settings s) \<Longrightarrow> getInteger k d (setInteger k' v s) = (if k = k' then v else getInteger k d s)"
  by (simp add: getInteger_def setInteger_def s_value_setValue)

lemma switch_ranges:
  "getStandardType s \<in> {0, 1}" "getStrategyType s \<in> {0, 1}" "getNotificationStatus s \<in> {0, 1}"
  "getResourceMonitorStatus s \<in> {0, 1}" "getFallbackStatus s \<in> {0, 1, 2}" "0 \<le> getTimeScan s"
  by (auto simp: getStandardType_def getStrategyType_def getNotificationStatus_def getResourceMonitorStatus_def
      getFallbackStatus_def getTimeScan_def Let_def)

lemma fst_if: "fst (if b then x else y) = (if b then fst x else fst y)" "snd (if b then x else y) = (if b then snd x else snd y)"
  by simp_all

lemma set_strategy:
  "s_ok (br_settings s) \<Longrightarrow> 0 \<le> v \<Longrightarrow> fst (setStrategyType v s) = (v < 2)
     \<and> getStrategyType (snd (setStrategyType v s)) = (if v < 2 then v else getStrategyType s)
     \<and> getFallbackStatus (snd (setStrategyType v s)) = getFallbackStatus s"
  unfolding setStrategyType_def fst_if
  by (simp add: getStrategyType_def getFallbackStatus_def getInteger_setInteger Let_def)

lemma set_notification:
  "s_ok (br_settings s) \<Longrightarrow> 0 \<le> v \<Longrightarrow> fst (setNotificationStatus v s) = (v < 2)
     \<and> getNotificationStatus (snd (setNotificationStatus v s)) = (if v < 2 then v else getNotificationStatus s)"
  unfolding setNotificationStatus_def fst_if
  by (simp add: getNotificationStatus_def getInteger_setInteger Let_def)

lemma set_monitor:
  "s_ok (br_settings s) \<Longrightarrow> 0 \<le> v \<Longrightarrow> fst (setResourceMonitorStatus v s) = (v < 2)
     \<and> getResourceMonitorStatus (snd (setResourceMonitorStatus v s)) = (if v < 2 then v else getResourceMonitorStatus s)"
  unfolding setResourceMonitorStatus_def fst_if
  by (simp add: getResourceMonitorStatus_def getInteger_setInteger Let_def)

lemma set_fallback:
  "s_ok (br_settings s) \<Longrightarrow> 0 \<le> v \<Longrightarrow> fst (setFallbackStatus v s) = (v \<le> 2)
     \<and> getFallbackStatus (snd (setFallbackStatus v s)) = (if v \<le> 2 then v else getFallbackStatus s)
     \<and> getStrategyType (snd (setFallbackStatus v s)) = getStrategyType s"
  unfolding setFallbackStatus_def fst_if
  by (simp add: getStrategyType_def getFallbackStatus_def getInteger_setInteger Let_def)

lemma set_time:
  "s_ok (br_settings s) \<Longrightarrow> fst (setTimeScan v s) \<and> getTimeScan (snd (setTimeScan v s)) = (if v < 0 then 0 else v)"
  unfolding setTimeScan_def fst_if by (simp add: getTimeScan_def getInteger_setInteger Let_def)

text \<open>Whatever the settings file holds, each switch reads back as one of its values; a valid value set
  reads back as that value, an invalid one is refused and changes nothing; a time of the scans
  that is negative as a signed number is accepted and reads back as 0.\<close>

theorem switches_in_range:
  assumes "s_ok (br_settings s)" and "0 \<le> v"
  shows "getStandardType s \<in> {0, 1} \<and> getStrategyType s \<in> {0, 1} \<and> getNotificationStatus s \<in> {0, 1}
   \<and> getResourceMonitorStatus s \<in> {0, 1} \<and> getFallbackStatus s \<in> {0, 1, 2} \<and> 0 \<le> getTimeScan s
   \<and> fst (setStrategyType v s) = (v < 2) \<and> getStrategyType (snd (setStrategyType v s)) = (if v < 2 then v else getStrategyType s)
   \<and> fst (setNotificationStatus v s) = (v < 2)
   \<and> getNotificationStatus (snd (setNotificationStatus v s)) = (if v < 2 then v else getNotificationStatus s)
   \<and> fst (setResourceMonitorStatus v s) = (v < 2)
   \<and> getResourceMonitorStatus (snd (setResourceMonitorStatus v s)) = (if v < 2 then v else getResourceMonitorStatus s)
   \<and> fst (setFallbackStatus v s) = (v \<le> 2) \<and> getFallbackStatus (snd (setFallbackStatus v s)) = (if v \<le> 2 then v else getFallbackStatus s)
   \<and> fst (setTimeScan (sint w) s) \<and> getTimeScan (snd (setTimeScan (sint w) s)) = (if sint w < 0 then 0 else sint w)"
  using switch_ranges [of s] set_strategy [OF assms] set_notification [OF assms] set_monitor [OF assms]
    set_fallback [OF assms] set_time [OF assms(1)] by blast

definition sample_settings :: br where
  "sample_settings = setInteger ''fallback_status'' 9 empty_br"

theorem switches_in_range_witness:
  "getFallbackStatus (snd (setFallbackStatus 1 sample_settings)) = 1
   \<and> getTimeScan (snd (setTimeScan (sint (- 1 :: 32 word)) sample_settings)) = 0"
proof -
  have "s_ok (br_settings sample_settings)"
    unfolding sample_settings_def by (rule br_settings_ok_set) (simp add: empty_br_def)
  with switches_in_range [of sample_settings 1 "- 1 :: 32 word"] show ?thesis by simp
qed

section \<open>The user's parameters over the standard\<close>

definition arg_value :: "string \<Rightarrow> arg list \<Rightarrow> string option" where
  "arg_value n as = map_option ar_value (List.find (\<lambda>a. ar_name a = n) as)"

lemma arg_value_simps [simp]:
  "arg_value n [] = None"
  "arg_value n (a # as) = (if ar_name a = n then Some (ar_value a) else arg_value n as)"
  by (simp_all add: arg_value_def)

lemma arg_value_set: "arg_value m (set_arg_value n v as) = (if m = n then map_option (\<lambda>_. v) (arg_value n as) else arg_value m as)"
  by (induction n v as rule: set_arg_value.induct) auto

lemma set_arg_value_names [simp]: "map ar_name (set_arg_value n v as) = map ar_name as"
  by (induction n v as rule: set_arg_value.induct) auto

definition last_values :: "arg list \<Rightarrow> string \<Rightarrow> string option" where
  "last_values as = map_of (rev (map (\<lambda>a. (ar_name a, ar_value a)) as))"

lemma last_values_simps: "last_values [] = Map.empty" "last_values (a # as) = (last_values as)(ar_name a := (case last_values as (ar_name a) of None \<Rightarrow> Some (ar_value a) | Some v \<Rightarrow> Some v))"
  by (auto simp: last_values_def fun_eq_iff map_add_def split: option.splits)

lemma last_values_distinct: "distinct (map ar_name as) \<Longrightarrow> last_values as m = arg_value m as"
proof (induction as)
  case (Cons a as)
  have "arg_value (ar_name a) as = None" using Cons.prems by (auto simp: arg_value_def find_None_iff image_iff)
  with Cons show ?case by (auto simp: last_values_simps)
qed (simp add: last_values_simps)

text \<open>A value overlaid by a map of new ones.\<close>

definition overlay :: "string option \<Rightarrow> string option \<Rightarrow> string option" where
  "overlay new old = (case old of None \<Rightarrow> None | Some v \<Rightarrow> (case new of None \<Rightarrow> Some v | Some w \<Rightarrow> Some w))"

lemma overlay_simps [simp]: "overlay new None = None" "overlay None old = old" "overlay (Some w) (Some v) = Some w"
  by (simp_all add: overlay_def split: option.splits)

lemma arg_value_join: "arg_value m (join_args from to) = overlay (last_values from m) (arg_value m to)"
proof (induction "from" arbitrary: to)
  case (Cons a as)
  then show ?case
    by (cases "arg_value m to") (auto simp: join_args_def arg_value_set last_values_simps overlay_def split: option.splits)
qed (simp add: join_args_def last_values_simps)

lemma join_args_names [simp]: "map ar_name (join_args from to) = map ar_name to"
  by (induction "from" arbitrary: to) (simp_all add: join_args_def)

text \<open>The files of the program name every reinforcement, and every parameter of one, once. Such a file
  is a map from reinforcements and parameters to values.\<close>

definition ra_ok :: "reinforcement list \<Rightarrow> bool" where
  "ra_ok ra \<longleftrightarrow> distinct (map rf_name ra) \<and> (\<forall>c \<in> set ra. distinct (map ar_name (rf_args c)))"

definition overrides :: "reinforcement list \<Rightarrow> string \<Rightarrow> string \<Rightarrow> string option" where
  "overrides ra n m = Option.bind (List.find (\<lambda>c. rf_name c = n) ra) (\<lambda>c. arg_value m (rf_args c))"

lemma overrides_simps [simp]:
  "overrides [] n m = None"
  "overrides (c # cs) n m = (if rf_name c = n then arg_value m (rf_args c) else overrides cs n m)"
  by (simp_all add: overrides_def)

lemma overrides_fresh: "n \<notin> rf_name ` set ra \<Longrightarrow> overrides ra n m = None"
  by (induction ra) auto

definition join_all :: "reinforcement list \<Rightarrow> reinforcement \<Rightarrow> reinforcement" where
  "join_all ra r = fold (\<lambda>c r. if rf_name c \<noteq> rf_name r then r else joinReinforcement c r) ra r"

lemma join_all_simps [simp]: "join_all [] = (\<lambda>r. r)"
    "join_all (c # cs) r = join_all cs (if rf_name c \<noteq> rf_name r then r else joinReinforcement c r)"
  by (simp_all add: join_all_def fun_eq_iff)

lemma join_custom_eq: "join_custom ra rs = map (join_all ra) rs"
  by (induction ra arbitrary: rs) (simp_all add: join_custom_def)

lemma joinReinforcement_name [simp]: "rf_name (joinReinforcement c r) = rf_name r"
  by (simp add: joinReinforcement_def)

lemma join_all_name [simp]: "rf_name (join_all ra r) = rf_name r"
  by (induction ra arbitrary: r) simp_all

lemma join_all_value:
  "ra_ok ra \<Longrightarrow> arg_value m (rf_args (join_all ra r)) = overlay (overrides ra (rf_name r) m) (arg_value m (rf_args r))"
proof (induction ra arbitrary: r)
  case (Cons c cs)
  have rest: "ra_ok cs" using Cons.prems by (simp add: ra_ok_def)
  show ?case
  proof (cases "rf_name c = rf_name r")
    case True
    have "overrides cs (rf_name r) m = None"
      using Cons.prems True by (intro overrides_fresh) (auto simp: ra_ok_def)
    moreover have "last_values (rf_args c) m = arg_value m (rf_args c)"
      using Cons.prems by (intro last_values_distinct) (simp add: ra_ok_def)
    ultimately show ?thesis
      using True Cons.IH [OF rest, of "joinReinforcement c r"] by (simp add: joinReinforcement_def arg_value_join)
  next
    case False
    then show ?thesis using Cons.IH [OF rest, of r] by simp
  qed
qed simp

text \<open>What the two operations on the file do to the map.\<close>

lemma merge_custom_overrides:
  assumes "ra_ok ra" and "distinct (map ar_name (rf_args r))"
  shows "ra_ok (merge_custom r ra)
     \<and> overrides (merge_custom r ra) n m =
       (if n = rf_name r
        then if n \<in> rf_name ` set ra then overlay (arg_value m (rf_args r)) (overrides ra n m) else arg_value m (rf_args r)
        else overrides ra n m)"
  using assms(1)
proof (induction ra)
  case Nil
  have "arg_value m (map (\<lambda>a. \<lparr>ar_name = ar_name a, ar_value = ar_value a, ar_rule = None, ar_input_example = None\<rparr>) as) = arg_value m as" for as
    by (induction as) simp_all
  moreover have "ar_name \<circ> (\<lambda>a :: arg. \<lparr>ar_name = ar_name a, ar_value = ar_value a, ar_rule = None, ar_input_example = None\<rparr>) = ar_name"
    by (simp add: fun_eq_iff)
  ultimately show ?case using assms(2) by (simp add: ra_ok_def merge_entry_def)
next
  case (Cons c cs)
  have rest: "ra_ok cs" and fresh: "rf_name c \<notin> rf_name ` set cs" using Cons.prems by (auto simp: ra_ok_def)
  show ?case
  proof (cases "rf_name c = rf_name r")
    case True
    have "ra_ok (joinReinforcement r c # cs)" using Cons.prems by (simp add: ra_ok_def joinReinforcement_def)
    then show ?thesis
      using True by (auto simp: joinReinforcement_def arg_value_join last_values_distinct [OF assms(2)])
  next
    case False
    have "rf_name c \<notin> rf_name ` set (merge_custom r cs)"
      using fresh False by (induction cs) (auto simp: merge_entry_def split: if_splits)
    with Cons False rest have "ra_ok (merge_custom r (c # cs))" by (simp add: ra_ok_def)
    with Cons.IH [OF rest] False show ?thesis by auto
  qed
qed

lemma remove_entry_overrides:
  "ra_ok ra \<Longrightarrow> remove_entry name ra = Some ra' \<Longrightarrow>
     ra_ok ra' \<and> rf_name ` set ra' = rf_name ` set ra - {name} \<and> overrides ra' n m = (if n = name then None else overrides ra n m)"
proof (induction ra arbitrary: ra')
  case (Cons c cs)
  have rest: "ra_ok cs" and fresh: "rf_name c \<notin> rf_name ` set cs" using Cons.prems by (auto simp: ra_ok_def)
  show ?case
  proof (cases "rf_name c = name")
    case True
    then show ?thesis using Cons.prems rest fresh overrides_fresh [of name cs m] by auto
  next
    case False
    then obtain ra'' where r: "remove_entry name cs = Some ra''" "ra' = c # ra''" using Cons.prems by auto
    from Cons.IH [OF rest r(1)] Cons.prems(1) False fresh show ?thesis by (auto simp: r(2) ra_ok_def)
  qed
qed simp

lemma remove_entry_None: "remove_entry name ra = None \<longleftrightarrow> name \<notin> rf_name ` set ra"
  by (induction ra) auto

section \<open>The value of a parameter in use\<close>

text \<open>The value of a parameter of the element at one place of the standard in use.\<close>

definition used_value :: "'a br_scheme \<Rightarrow> nat \<Rightarrow> string \<Rightarrow> string option" where
  "used_value s i m = arg_value m (rf_args (the (br_rs s) ! i))"

lemma getFixedRs_frame [simp]: "getFixedRs env (s\<lparr>br_ra_file := x\<rparr>) = getFixedRs env s"
  by (simp add: getFixedRs_def getStandardType_def getInteger_def)

lemma loadRs_fields [simp]:
  "br_ra_file (loadRs env s) = br_ra_file s" "br_settings (loadRs env s) = br_settings s"
  "br_custom_rs (loadRs env s) = br_custom_rs s"
  by (simp_all add: loadRs_def split: option.splits)

lemma loadReinforcements_args:
  "map_option (map (\<lambda>r. (rf_name r, rf_args r))) (br_rs (loadReinforcements s)) = map_option (map (\<lambda>r. (rf_name r, rf_args r))) (br_rs s)"
proof (cases "br_rs s")
  case (Some rs)
  have "(rf_name (described t r), rf_args (described t r)) = (rf_name r, rf_args r)" for t :: "'a br_scheme" and r
    by (simp add: described_def split: option.splits)
  then have "map ((\<lambda>r. (rf_name r, rf_args r)) \<circ> described t) rs = map (\<lambda>r. (rf_name r, rf_args r)) rs" for t :: "'a br_scheme"
    by (simp add: comp_def)
  with Some show ?thesis by (simp add: loadReinforcements_def load_elements_eq Let_def)
qed (simp add: loadReinforcements_def)

lemma loadReinforcements_fields [simp]:
  "br_ra_file (loadReinforcements s) = br_ra_file s" "br_settings (loadReinforcements s) = br_settings s"
  "br_custom_rs (loadReinforcements s) = br_custom_rs s"
  by (simp_all add: loadReinforcements_def load_elements_eq Let_def split: option.splits)

lemma reloadRs_values:
  assumes "getFixedRs env s = Some rs" and "ra_ok (readRaFromFile s)" and "i < length rs"
  shows "used_value (reloadRs env s) i m =
     overlay (overrides (readRaFromFile s) (rf_name (rs ! i)) m) (arg_value m (rf_args (rs ! i)))"
proof -
  have "br_rs (loadRs env s) = Some (map (join_all (readRaFromFile s)) rs)"
    using assms(1) by (simp add: loadRs_def join_custom_eq)
  with loadReinforcements_args [of "loadRs env s"]
  obtain rs' where rs': "br_rs (reloadRs env s) = Some rs'"
      "map (\<lambda>r. (rf_name r, rf_args r)) rs' = map (\<lambda>r. (rf_name r, rf_args r)) (map (join_all (readRaFromFile s)) rs)"
    by (auto simp: reloadRs_def)
  then have "length rs' = length rs" by (metis length_map)
  then have "rf_args (rs' ! i) = rf_args (join_all (readRaFromFile s) (rs ! i))"
    using arg_cong [OF rs'(2), of "\<lambda>xs. snd (xs ! i)"] assms(3) by simp
  then show ?thesis using join_all_value [OF assms(2)] by (simp add: used_value_def rs'(1))
qed

text \<open>C21: Setting the parameters of a reinforcement gives every parameter of the standard in use the value set,
  for a reinforcement without an entry of the user, and for one with an entry only the parameters
  that entry has already; every other value stays as the user or the standard had it.\<close>

theorem user_parameters_overlay:
  assumes "getFixedRs env s = Some rs" and "i < length rs" and "ra_ok (readRaFromFile s)"
    and "distinct (map ar_name (rf_args r))" and "ev_ra_failure env = None"
  shows "fst (setCustomRa env r s) \<and> ra_ok (readRaFromFile (snd (setCustomRa env r s)))
     \<and> used_value (snd (setCustomRa env r s)) i m =
        (let n = rf_name (rs ! i); old = overrides (readRaFromFile s) n m; new = arg_value m (rf_args r)
         in overlay (if n \<noteq> rf_name r then old else if n \<in> rf_name ` set (readRaFromFile s) then overlay new old else new)
              (arg_value m (rf_args (rs ! i))))"
proof -
  let ?t = "s\<lparr>br_ra_file := Some (merge_custom r (readRaFromFile s))\<rparr>"
  have set: "setCustomRa env r s = (True, reloadRs env ?t)"
    using assms(5) by (simp add: setCustomRa_def writeRaToFile_def)
  have read: "readRaFromFile ?t = merge_custom r (readRaFromFile s)" by (simp add: readRaFromFile_def)
  have "readRaFromFile (reloadRs env ?t) = merge_custom r (readRaFromFile s)"
    by (simp add: readRaFromFile_def reloadRs_def)
  with reloadRs_values [of env ?t rs i m] merge_custom_overrides [OF assms(3,4), of "rf_name (rs ! i)" m] assms(1,2)
  show ?thesis by (simp add: set read Let_def)
qed

text \<open>Resetting a reinforcement brings the values of the standard back, and resetting all of them does so
  for every one; the parameters of the others stay as they were.\<close>

theorem reset_restores_standard:
  assumes "getFixedRs env s = Some rs" and "i < length rs" and "ra_ok (readRaFromFile s)"
    and "name \<in> rf_name ` set (readRaFromFile s)" and "ev_ra_failure env = None"
  shows "used_value (delCustomRa env name s) i m =
        (if rf_name (rs ! i) = name then arg_value m (rf_args (rs ! i))
         else overlay (overrides (readRaFromFile s) (rf_name (rs ! i)) m) (arg_value m (rf_args (rs ! i))))
     \<and> used_value (delAllCustomRa env s) i m = arg_value m (rf_args (rs ! i))
     \<and> readRaFromFile (delAllCustomRa env s) = []"
proof -
  obtain ra' where ra': "remove_entry name (readRaFromFile s) = Some ra'"
    using assms(4) remove_entry_None [of name "readRaFromFile s"] by auto
  have read: "readRaFromFile (s\<lparr>br_ra_file := Some x\<rparr>) = x" "readRaFromFile (reloadRs env (s\<lparr>br_ra_file := Some x\<rparr>)) = x" for x
    by (simp_all add: readRaFromFile_def reloadRs_def)
  have "delCustomRa env name s = reloadRs env (s\<lparr>br_ra_file := Some ra'\<rparr>)"
       "delAllCustomRa env s = reloadRs env (s\<lparr>br_ra_file := Some []\<rparr>)"
    using assms(4,5) by (auto simp: delCustomRa_def ra' writeRaToFile_def delAllCustomRa_def)
  then show ?thesis
    using reloadRs_values [of env "s\<lparr>br_ra_file := Some ra'\<rparr>" rs i m] reloadRs_values [of env "s\<lparr>br_ra_file := Some []\<rparr>" rs i m]
      remove_entry_overrides [OF assms(3) ra'] assms(1,2) by (simp add: read ra_ok_def)
qed

definition sample_env :: br_env where
  "sample_env = \<lparr>ev_decrypt = (\<lambda>x. x), ev_parse_rs = (\<lambda>x. if x = [] then None else Some [sample_reinforcement]),
     ev_system_rs = ''rs'', ev_rs_writable = True, ev_ra_failure = None, ev_rh_writable = True\<rparr>"

definition sample_change :: reinforcement where
  "sample_change = sample_reinforcement\<lparr>rf_args := [\<lparr>ar_name = ''max-days'', ar_value = ''30'', ar_rule = None, ar_input_example = None\<rparr>]\<rparr>"

lemma sample_fixed:
  "br_settings s = [] \<Longrightarrow> getFixedRs sample_env s = Some [sample_reinforcement]"
  by (simp add: getFixedRs_def sample_env_def getStandardType_def getInteger_def s_value_def s_group_def decryptFile_def)

lemma sample_br_config: "br_settings sample_br = []" "readRaFromFile sample_br = []"
  by (simp_all add: sample_br_def addPlugin_def empty_br_def readRaFromFile_def sample_plugin_def
      getReinforcementNames_def claim_reinforcement_def getPluginByReinforcement_def)

theorem user_parameters_overlay_witness:
  "used_value (snd (setCustomRa sample_env sample_change sample_br)) 0 ''max-days'' = Some ''30''"
proof -
  have "overlay (arg_value ''max-days'' (rf_args sample_change)) (arg_value ''max-days'' (rf_args sample_reinforcement)) = Some ''30''"
    by (simp add: sample_change_def sample_reinforcement_def)
  moreover have "rf_name sample_reinforcement = rf_name sample_change" "distinct (map ar_name (rf_args sample_change))"
    by (simp_all add: sample_change_def)
  ultimately show ?thesis
    using user_parameters_overlay [OF sample_fixed [OF sample_br_config(1)], of 0 sample_change "''max-days''"]
    by (simp add: sample_br_config(2) ra_ok_def Let_def sample_env_def)
qed

definition sample_changed :: br where
  "sample_changed = sample_br\<lparr>br_ra_file := Some [sample_change]\<rparr>"

theorem reset_restores_standard_witness:
  "used_value (delCustomRa sample_env ''password-expired'' sample_changed) 0 ''max-days'' = Some ''90''"
proof -
  have "arg_value ''max-days'' (rf_args sample_reinforcement) = Some ''90''" "rf_name sample_change = ''password-expired''"
       "rf_name sample_reinforcement = ''password-expired''"
    by (simp_all add: sample_reinforcement_def sample_change_def)
  moreover have "br_settings sample_changed = []" "readRaFromFile sample_changed = [sample_change]"
    by (simp_all add: sample_changed_def sample_br_config readRaFromFile_def)
  moreover have "ra_ok [sample_change]" by (simp add: ra_ok_def sample_change_def)
  ultimately show ?thesis
    using reset_restores_standard [OF sample_fixed [of sample_changed], of 0 "''password-expired''" "''max-days''"]
    by (simp add: sample_env_def)
qed

text \<open>Importing a custom standard of up to 16384 bytes while the custom standard is in use is reported as done
  and stored, but leaves no standard and no reinforcement in use until something loads it again.\<close>

theorem short_import_unloads_standard:
  assumes "getStandardType s = BR_STANDARD_TYPE_CUSTOM" and "length txt \<le> 16384" and "ev_decrypt env txt \<noteq> []"
    and "ev_rs_writable env" and "ev_parse_rs env (ev_decrypt env []) = None" and "setCustomRs env txt s = (res, s')"
  shows "res = Inr () \<and> br_custom_rs s' = txt \<and> br_rs s' = None \<and> getReinforcements s' = []"
proof -
  have "getStandardType (s\<lparr>br_custom_rs := x\<rparr>) = getStandardType s" for x
    by (simp add: getStandardType_def getInteger_def)
  then show ?thesis
    using assms by (auto simp: setCustomRs_def Let_def written_now_def reloadRs_def loadRs_def getFixedRs_def
        decryptFile_def loadReinforcements_def getReinforcements_def qm_values_def)
qed

definition sample_custom :: br where
  "sample_custom = setInteger ''standard_type'' 1 sample_br"

theorem short_import_unloads_standard_witness:
  "br_rs (snd (setCustomRs sample_env ''rs'' sample_custom)) = None"
proof -
  have "s_ok (br_settings sample_br)" by (simp add: sample_br_config)
  then have "getStandardType sample_custom = BR_STANDARD_TYPE_CUSTOM"
    unfolding sample_custom_def getStandardType_def by (simp add: getInteger_setInteger)
  moreover obtain res s' where r: "setCustomRs sample_env ''rs'' sample_custom = (res, s')" by force
  ultimately show ?thesis
    using short_import_unloads_standard [of sample_custom "''rs''" sample_env] by (simp add: sample_env_def)
qed

end
