(* ===== verification/BRJob.thy ===== *)
theory BRJob
  imports BRPlugins "HOL-Library.Multiset"
begin

text \<open>
  The jobs of the baseline reinforcement, \<open>src/daemon/br/job.cpp\<close>, and the thread pool they run on,
  \<open>lib/base/thread-pool.cpp\<close>.

  A job is run by the threads of the pool, watched by a timer of the main thread and cancelled by a
  client, in any interleaving. The steps of the machine \<open>job_step\<close> are the parts of the code between
  two changes of the data that threads share: a thread takes an operation and enters it in the list of
  the running ones; it tests the flag of cancellation and runs the operation, or not; it moves the
  operation to the finished ones; the timer calls \<open>idleCheckOperation\<close>; a client calls \<open>cancel\<close>. What
  an operation returns is part of the step's label: the theorems hold for every result.
\<close>

section \<open>Operations and results\<close>

record operation =
  op_job_id :: int
  op_id :: int
  op_plugin_name :: string
  op_reinforcement_name :: string

record job_result =
  jr_job_id :: int
  jr_sum_operation_num :: int
  jr_finished_operation_num :: int
  jr_queue_is_changed :: bool
  jr_running_operations :: "int list"
  jr_current_finished_operations :: "(int \<times> string) list"

record job =
  jb_jobID :: int
  jb_state :: BRJobState
  jb_operations :: "(int, operation) qmap"
  jb_jobResult :: job_result
  jb_isNeedCancel :: bool

text \<open>A signal carries what its receivers read: the result, and the state of the job.\<close>

datatype job_signal = ProcessChanged job_result BRJobState | ProcessFinished

definition newJob :: "int \<Rightarrow> job" where
  "newJob job_id = \<lparr>jb_jobID = job_id, jb_state = BR_JOB_STATE_IDLE, jb_operations = [],
     jb_jobResult = \<lparr>jr_job_id = 0, jr_sum_operation_num = 0, jr_finished_operation_num = 0, jr_queue_is_changed = False,
       jr_running_operations = [], jr_current_finished_operations = []\<rparr>,
     jb_isNeedCancel = False\<rparr>"

text \<open>\<open>m_jobCount\<close> is the number of the jobs made so far.\<close>

definition job_create :: "int \<Rightarrow> job \<times> int" where
  "job_create jobCount = (newJob (jobCount + 1), jobCount + 1)"

definition addOperation :: "string \<Rightarrow> string \<Rightarrow> job \<Rightarrow> operation option \<times> job" where
  "addOperation plugin_name reinforcement_name j =
     (let operation = \<lparr>op_job_id = jb_jobID j, op_id = int (length (jb_operations j)) + 1,
            op_plugin_name = plugin_name, op_reinforcement_name = reinforcement_name\<rparr>
      in if qm_contains (op_id operation) (jb_operations j) then (None, j)
         else (Some operation, j\<lparr>jb_operations := qm_insert (op_id operation) operation (jb_operations j)\<rparr>))"

definition getOperation :: "int \<Rightarrow> job \<Rightarrow> operation option" where
  "getOperation operationID j = qm_value operationID (jb_operations j)"

definition runInit :: "job \<Rightarrow> job" where
  "runInit j = j\<lparr>jb_jobResult := (jb_jobResult j)\<lparr>jr_job_id := jb_jobID j,
       jr_sum_operation_num := int (length (jb_operations j)), jr_finished_operation_num := 0,
       jr_running_operations := [], jr_current_finished_operations := []\<rparr>,
     jb_isNeedCancel := False\<rparr>"

section \<open>Running in the calling thread\<close>

definition sync_step :: "(operation \<Rightarrow> string) \<Rightarrow> operation \<Rightarrow> job \<times> job_signal list \<Rightarrow> job \<times> job_signal list" where
  "sync_step func operation = (\<lambda>(j, signals).
     (let r = jb_jobResult j;
          r = r\<lparr>jr_finished_operation_num := jr_finished_operation_num r + 1,
                jr_current_finished_operations := jr_current_finished_operations r @ [(op_id operation, func operation)]\<rparr>;
          all = (jr_finished_operation_num r = jr_sum_operation_num r);
          j = j\<lparr>jb_jobResult := r, jb_state := if all then BR_JOB_STATE_DONE else jb_state j\<rparr>
      in (j, signals @ [ProcessChanged r (jb_state j)] @ (if all then [ProcessFinished] else []))))"

definition runSync :: "(operation \<Rightarrow> string) \<Rightarrow> job \<Rightarrow> bool \<times> job \<times> job_signal list" where
  "runSync func j =
     (if jb_state j \<noteq> BR_JOB_STATE_IDLE then (False, j, [])
      else let (j, signals) = fold (sync_step func) (qm_values (jb_operations j))
                 (runInit (j\<lparr>jb_state := BR_JOB_STATE_RUNNING\<rparr>), [])
           in (True, j\<lparr>jb_state := BR_JOB_STATE_IDLE\<rparr>, signals))"

section \<open>The thread pool\<close>

text \<open>A thread: its private tasks, and the operation it runs, with the result once it is known.\<close>

record worker =
  wk_tasks :: "operation list"
  wk_running :: "(operation \<times> string option) option"

text \<open>A thread takes a private task first, then one of the common ones; without a task it ends when
  the pool is stopped, and waits otherwise.\<close>

datatype 'a take = Take 'a "'a list" "'a list" | Wait | Leave

definition take_task :: "bool \<Rightarrow> 'a list \<Rightarrow> 'a list \<Rightarrow> 'a take" where
  "take_task stop private common =
     (case private of
        t # ts \<Rightarrow> Take t ts common
      | [] \<Rightarrow> (case common of
          t # ts \<Rightarrow> Take t [] ts
        | [] \<Rightarrow> if stop then Leave else Wait))"

text \<open>\<open>None\<close> is the division by zero of a pool without threads.\<close>

definition enqueueByIdx :: "nat \<Rightarrow> operation \<Rightarrow> worker list \<Rightarrow> worker list option" where
  "enqueueByIdx idx task workers =
     (if length workers = 0 then None
      else let w = idx mod length workers
           in Some (workers[w := (workers ! w)\<lparr>wk_tasks := wk_tasks (workers ! w) @ [task]\<rparr>]))"

fun enqueue_all :: "(string \<Rightarrow> nat) \<Rightarrow> operation list \<Rightarrow> worker list \<Rightarrow> worker list option" where
  "enqueue_all hash [] ws = Some ws"
| "enqueue_all hash (t # ts) ws =
     (case enqueueByIdx (hash (op_reinforcement_name t)) t ws of
        None \<Rightarrow> None | Some ws \<Rightarrow> enqueue_all hash ts ws)"

section \<open>Running on the pool\<close>

record job_sys =
  js_job :: job
  js_workers :: "worker list"
  js_signals :: "job_signal list"

definition idle_workers :: "nat \<Rightarrow> worker list" where
  "idle_workers n = replicate n \<lparr>wk_tasks = [], wk_running = None\<rparr>"

definition runAsync :: "(string \<Rightarrow> nat) \<Rightarrow> worker list \<Rightarrow> job \<Rightarrow> (bool \<times> job_sys) option" where
  "runAsync hash ws j =
     (if jb_state j \<noteq> BR_JOB_STATE_IDLE
      then Some (False, \<lparr>js_job = j, js_workers = ws, js_signals = []\<rparr>)
      else let j = runInit (j\<lparr>jb_state := BR_JOB_STATE_RUNNING\<rparr>)
           in map_option (\<lambda>ws. (True, \<lparr>js_job = j, js_workers = ws, js_signals = []\<rparr>))
                (enqueue_all hash (qm_values (jb_operations j)) ws))"

definition cancel :: "job \<Rightarrow> bool \<times> job" where
  "cancel j = (if jb_state j \<noteq> BR_JOB_STATE_RUNNING then (False, j) else (True, j\<lparr>jb_isNeedCancel := True\<rparr>))"

text \<open>The two locked parts of \<open>runOperation\<close>.\<close>

definition begin_operation :: "operation \<Rightarrow> job \<Rightarrow> job" where
  "begin_operation operation j =
     (let r = jb_jobResult j
      in j\<lparr>jb_jobResult := r\<lparr>jr_running_operations := jr_running_operations r @ [op_id operation],
                             jr_queue_is_changed := True\<rparr>\<rparr>)"

definition end_operation :: "operation \<Rightarrow> string \<Rightarrow> job \<Rightarrow> job" where
  "end_operation operation result j =
     (let r = jb_jobResult j
      in j\<lparr>jb_jobResult := r\<lparr>jr_finished_operation_num := jr_finished_operation_num r + 1,
                             jr_running_operations := filter (\<lambda>i. i \<noteq> op_id operation) (jr_running_operations r),
                             jr_current_finished_operations := jr_current_finished_operations r @ [(op_id operation, result)],
                             jr_queue_is_changed := True\<rparr>\<rparr>)"

definition idleCheckOperation :: "job \<Rightarrow> job \<times> job_signal list" where
  "idleCheckOperation j =
     (if \<not> jr_queue_is_changed (jb_jobResult j) then (j, [])
      else let tmp_result = jb_jobResult j;
               j = j\<lparr>jb_jobResult := tmp_result\<lparr>jr_current_finished_operations := [], jr_queue_is_changed := False\<rparr>\<rparr>;
               all = (jr_finished_operation_num tmp_result = jr_sum_operation_num tmp_result);
               j = (if all then j\<lparr>jb_state := if jb_isNeedCancel j then BR_JOB_STATE_CANCEL_DONE else BR_JOB_STATE_DONE\<rparr> else j);
               signals = [ProcessChanged tmp_result (jb_state j)] @ (if all then [ProcessFinished] else [])
           in (if jb_state j = BR_JOB_STATE_DONE \<or> jb_state j = BR_JOB_STATE_CANCEL_DONE
               then j\<lparr>jb_state := BR_JOB_STATE_IDLE\<rparr> else j, signals))"

datatype job_label = LBegin nat | LRun nat string | LEnd nat | LTick | LCancel

inductive job_step :: "job_sys \<Rightarrow> job_label \<Rightarrow> job_sys \<Rightarrow> bool" where
  begin_op: "w < length (js_workers s) \<Longrightarrow> wk_running (js_workers s ! w) = None \<Longrightarrow> wk_tasks (js_workers s ! w) = t # ts \<Longrightarrow>
     job_step s (LBegin w)
       (s\<lparr>js_job := begin_operation t (js_job s),
          js_workers := (js_workers s)[w := \<lparr>wk_tasks = ts, wk_running = Some (t, None)\<rparr>]\<rparr>)"
| run_op: "w < length (js_workers s) \<Longrightarrow> wk_running (js_workers s ! w) = Some (t, None) \<Longrightarrow>
     job_step s (LRun w r)
       (s\<lparr>js_workers := (js_workers s)[w := (js_workers s ! w)\<lparr>wk_running :=
            Some (t, Some (if jb_isNeedCancel (js_job s) then [] else r))\<rparr>]\<rparr>)"
| end_op: "w < length (js_workers s) \<Longrightarrow> wk_running (js_workers s ! w) = Some (t, Some r) \<Longrightarrow>
     job_step s (LEnd w)
       (s\<lparr>js_job := end_operation t r (js_job s),
          js_workers := (js_workers s)[w := (js_workers s ! w)\<lparr>wk_running := None\<rparr>]\<rparr>)"
| tick: "job_step s LTick
       (s\<lparr>js_job := fst (idleCheckOperation (js_job s)),
          js_signals := js_signals s @ snd (idleCheckOperation (js_job s))\<rparr>)"
| cancel_op: "job_step s LCancel (s\<lparr>js_job := snd (cancel (js_job s))\<rparr>)"

inductive job_run :: "job_sys \<Rightarrow> job_label list \<Rightarrow> job_sys \<Rightarrow> bool" where
  run_nil: "job_run s [] s"
| run_snoc: "job_run s ls s' \<Longrightarrow> job_step s' l s'' \<Longrightarrow> job_run s (ls @ [l]) s''"

inductive_cases job_step_tickE [elim!]: "job_step s LTick s'"
inductive_cases job_run_nilE [elim!]: "job_run s [] s'"

section \<open>The operations of a job\<close>

text \<open>The operations of a job are numbered from 1, in the order they were added.\<close>

definition ops_ok :: "job \<Rightarrow> bool" where
  "ops_ok j \<longleftrightarrow> map fst (jb_operations j) = map (\<lambda>i. int i + 1) [0..<length (jb_operations j)]
     \<and> (\<forall>(i, t) \<in> set (jb_operations j). op_id t = i \<and> op_job_id t = jb_jobID j)"

lemma qm_insert_last: "\<forall>k' \<in> fst ` set m. k' < k \<Longrightarrow> qm_insert k v m = m @ [(k, v)]"
  by (induction m) auto

lemma ops_ok_keys: "ops_ok j \<Longrightarrow> x \<in> fst ` set (jb_operations j) \<Longrightarrow> x < int (length (jb_operations j)) + 1"
proof -
  assume ok: "ops_ok j" and x: "x \<in> fst ` set (jb_operations j)"
  then have "x \<in> set (map (\<lambda>i. int i + 1) [0..<length (jb_operations j)])"
    unfolding ops_ok_def by (metis (no_types, lifting) list.set_map)
  then show ?thesis by auto
qed

lemma ops_ok_create: "ops_ok (newJob i)"
  by (simp add: ops_ok_def newJob_def)

lemma addOperation_ok:
  assumes "ops_ok j"
  shows "\<exists>t. addOperation plugin name j = (Some t, j\<lparr>jb_operations := jb_operations j @ [(op_id t, t)]\<rparr>)
     \<and> op_id t = int (length (jb_operations j)) + 1 \<and> op_reinforcement_name t = name
     \<and> ops_ok (snd (addOperation plugin name j))"
proof -
  let ?i = "int (length (jb_operations j)) + 1"
  have less: "\<forall>k' \<in> fst ` set (jb_operations j). k' < ?i" using ops_ok_keys [OF assms] by blast
  then have "qm_value ?i (jb_operations j) = None" by (auto simp: qm_value_def map_of_eq_None_iff)
  then have "\<not> qm_contains ?i (jb_operations j)" by (simp add: qm_contains_value)
  then show ?thesis
    using assms less by (auto simp: addOperation_def Let_def qm_insert_last ops_ok_def)
qed

lemma ops_ok_distinct: "ops_ok j \<Longrightarrow> distinct (map fst (jb_operations j))"
  by (simp add: ops_ok_def distinct_map inj_on_def)

lemma ops_ok_ids: "ops_ok j \<Longrightarrow> map op_id (qm_values (jb_operations j)) = map fst (jb_operations j)"
proof -
  assume "ops_ok j"
  then have "\<forall>x \<in> set (jb_operations j). op_id (snd x) = fst x" by (auto simp: ops_ok_def)
  then show ?thesis by (simp add: qm_values_def)
qed

section \<open>Where the operations are\<close>

definition waiting :: "worker list \<Rightarrow> int multiset" where
  "waiting ws = mset (map op_id (concat (map wk_tasks ws)))"

definition running_ops :: "worker \<Rightarrow> operation list" where
  "running_ops w = (case wk_running w of None \<Rightarrow> [] | Some (t, r) \<Rightarrow> [t])"

definition busy :: "worker list \<Rightarrow> int multiset" where
  "busy ws = mset (map op_id (concat (map running_ops ws)))"

fun signal_ids :: "job_signal \<Rightarrow> int list" where
  "signal_ids (ProcessChanged r st) = map fst (jr_current_finished_operations r)"
| "signal_ids ProcessFinished = []"

definition delivered :: "job_signal list \<Rightarrow> int list" where
  "delivered signals = concat (map signal_ids signals)"

lemma delivered_simps [simp]: "delivered [] = []" "delivered (xs @ ys) = delivered xs @ delivered ys"
    "delivered (x # xs) = signal_ids x @ delivered xs"
  by (simp_all add: delivered_def)

lemma update_total:
  "i < length ws \<Longrightarrow> mset (map g (concat (map f (ws[i := w])))) + mset (map g (f (ws ! i))) =
     mset (map g (concat (map f ws))) + mset (map g (f w))"
proof (induction ws arbitrary: i)
  case (Cons x ws)
  then show ?case by (cases i) (simp_all add: ac_simps)
qed simp

lemma waiting_update: "i < length ws \<Longrightarrow> waiting (ws[i := w]) + mset (map op_id (wk_tasks (ws ! i))) = waiting ws + mset (map op_id (wk_tasks w))"
  unfolding waiting_def by (rule update_total)

lemma busy_update: "i < length ws \<Longrightarrow> busy (ws[i := w]) + mset (map op_id (running_ops (ws ! i))) = busy ws + mset (map op_id (running_ops w))"
  unfolding busy_def by (rule update_total)

lemma enqueue_all_places:
  "ws \<noteq> [] \<Longrightarrow> \<exists>ws'. enqueue_all hash ts ws = Some ws' \<and> length ws' = length ws
     \<and> waiting ws' = waiting ws + mset (map op_id ts) \<and> busy ws' = busy ws"
proof (induction ts arbitrary: ws)
  case (Cons t ts)
  let ?w = "hash (op_reinforcement_name t) mod length ws"
  let ?ws = "ws[?w := (ws ! ?w)\<lparr>wk_tasks := wk_tasks (ws ! ?w) @ [t]\<rparr>]"
  have w: "?w < length ws" using Cons.prems by simp
  have "?ws \<noteq> []" using Cons.prems by simp
  from Cons.IH [OF this] obtain ws' where ws': "enqueue_all hash ts ?ws = Some ws'" "length ws' = length ws"
      "waiting ws' = waiting ?ws + mset (map op_id ts)" "busy ws' = busy ?ws" by auto
  have "waiting ?ws = waiting ws + {#op_id t#}"
    using waiting_update [OF w, of "(ws ! ?w)\<lparr>wk_tasks := wk_tasks (ws ! ?w) @ [t]\<rparr>"] by (simp add: ac_simps)
  moreover have "busy ?ws = busy ws"
    using busy_update [OF w, of "(ws ! ?w)\<lparr>wk_tasks := wk_tasks (ws ! ?w) @ [t]\<rparr>"] by (simp add: running_ops_def)
  ultimately show ?case
    using ws' Cons.prems by (simp add: enqueueByIdx_def Let_def ac_simps)
qed simp

lemma idle_workers_empty: "waiting (idle_workers n) = {#}" "busy (idle_workers n) = {#}" "length (idle_workers n) = n"
  by (simp_all add: waiting_def busy_def idle_workers_def running_ops_def)

section \<open>Every result is delivered once\<close>

text \<open>The invariant: an operation waits, runs, is finished or has been delivered; the counters and the
  list of the running ones agree with that; the last delivery comes with the one signal of the end.\<close>

definition job_inv :: "int multiset \<Rightarrow> job_sys \<Rightarrow> bool" where
  "job_inv ids s \<longleftrightarrow>
     (let r = jb_jobResult (js_job s); state = jb_state (js_job s);
          cur = mset (map fst (jr_current_finished_operations r)); del = mset (delivered (js_signals s))
      in waiting (js_workers s) + busy (js_workers s) + cur + del = ids
       \<and> jr_finished_operation_num r = int (size cur + size del)
       \<and> mset (jr_running_operations r) = busy (js_workers s)
       \<and> jr_sum_operation_num r = int (size ids)
       \<and> (\<not> jr_queue_is_changed r \<longrightarrow> cur = {#})
       \<and> (jr_queue_is_changed r \<longrightarrow> ids \<noteq> {#} \<and> state = BR_JOB_STATE_RUNNING)
       \<and> (state = BR_JOB_STATE_RUNNING \<and> ProcessFinished \<notin> set (js_signals s) \<and> (ids \<noteq> {#} \<longrightarrow> del \<noteq> ids)
          \<or> state = BR_JOB_STATE_IDLE \<and> del = ids
            \<and> (\<exists>xs r st. js_signals s = xs @ [ProcessChanged r st, ProcessFinished] \<and> ProcessFinished \<notin> set xs)))"

lemma begin_places:
  assumes "w < length ws" "wk_running (ws ! w) = None" "wk_tasks (ws ! w) = t # ts"
  shows "waiting ws = waiting (ws[w := \<lparr>wk_tasks = ts, wk_running = Some (t, None)\<rparr>]) + {#op_id t#}"
    "busy (ws[w := \<lparr>wk_tasks = ts, wk_running = Some (t, None)\<rparr>]) = busy ws + {#op_id t#}"
  using waiting_update [OF assms(1), of "\<lparr>wk_tasks = ts, wk_running = Some (t, None)\<rparr>"]
    busy_update [OF assms(1), of "\<lparr>wk_tasks = ts, wk_running = Some (t, None)\<rparr>"] assms(2,3)
  by (simp_all add: running_ops_def)

lemma run_places:
  assumes "w < length ws" "wk_running (ws ! w) = Some (t, None)"
  shows "waiting (ws[w := (ws ! w)\<lparr>wk_running := Some (t, r)\<rparr>]) = waiting ws"
    "busy (ws[w := (ws ! w)\<lparr>wk_running := Some (t, r)\<rparr>]) = busy ws"
  using waiting_update [OF assms(1), of "(ws ! w)\<lparr>wk_running := Some (t, r)\<rparr>"]
    busy_update [OF assms(1), of "(ws ! w)\<lparr>wk_running := Some (t, r)\<rparr>"] assms(2)
  by (simp_all add: running_ops_def)

lemma end_places:
  assumes "w < length ws" "wk_running (ws ! w) = Some (t, Some r)"
  shows "waiting (ws[w := (ws ! w)\<lparr>wk_running := None\<rparr>]) = waiting ws"
    "busy ws = busy (ws[w := (ws ! w)\<lparr>wk_running := None\<rparr>]) + {#op_id t#}"
  using waiting_update [OF assms(1), of "(ws ! w)\<lparr>wk_running := None\<rparr>"]
    busy_update [OF assms(1), of "(ws ! w)\<lparr>wk_running := None\<rparr>"] assms(2)
  by (simp_all add: running_ops_def)

lemma inv_undelivered:
  "job_inv (mset ids) s \<Longrightarrow> mset (delivered (js_signals s)) \<noteq> mset ids \<Longrightarrow> jb_state (js_job s) = BR_JOB_STATE_RUNNING"
  by (auto simp: job_inv_def Let_def)

lemma job_inv_begin:
  assumes inv: "job_inv (mset ids) s" and w: "w < length (js_workers s)" "wk_running (js_workers s ! w) = None" "wk_tasks (js_workers s ! w) = t # ts"
  shows "job_inv (mset ids) (s\<lparr>js_job := begin_operation t (js_job s),
          js_workers := (js_workers s)[w := \<lparr>wk_tasks = ts, wk_running = Some (t, None)\<rparr>]\<rparr>)"
proof -
  note places = begin_places [OF w]
  have ids: "mset ids = waiting (js_workers s) + busy (js_workers s) + mset (map fst (jr_current_finished_operations (jb_jobResult (js_job s))))
      + mset (delivered (js_signals s))"
    using inv by (simp add: job_inv_def Let_def)
  have "mset (delivered (js_signals s)) \<noteq> mset ids" unfolding ids places(1) by simp
  with inv_undelivered [OF inv] inv show ?thesis
    using places by (auto simp: job_inv_def Let_def begin_operation_def)
qed

lemma job_inv_run:
  assumes inv: "job_inv (mset ids) s" and w: "w < length (js_workers s)" "wk_running (js_workers s ! w) = Some (t, None)"
  shows "job_inv (mset ids) (s\<lparr>js_workers := (js_workers s)[w := (js_workers s ! w)\<lparr>wk_running := Some (t, r)\<rparr>]\<rparr>)"
  using inv run_places [OF w] by (simp add: job_inv_def Let_def)

lemma count_distinct:
  assumes "\<forall>i. count (mset xs) i \<le> 1"
  shows "distinct xs"
  unfolding distinct_count_atmost_1
proof
  fix a
  have "count (mset xs) a = 0 \<or> count (mset xs) a = 1" using spec [OF assms, of a] by linarith
  then show "count (mset xs) a = (if a \<in> set xs then 1 else 0)"
    by (metis count_greater_zero_iff less_irrefl set_mset_mset zero_less_one)
qed

lemma filter_distinct_mset: "distinct xs \<Longrightarrow> mset xs = M + {#x#} \<Longrightarrow> mset (filter (\<lambda>i. i \<noteq> x) xs) = M"
proof -
  assume d: "distinct xs" and m: "mset xs = M + {#x#}"
  have "count M x = 0" using arg_cong [OF m, of "\<lambda>A. count A x"] d by (simp add: distinct_count_atmost_1 split: if_splits)
  then have "filter_mset (\<lambda>i. i \<noteq> x) M = M" by (auto simp: multiset_eq_iff)
  then show ?thesis using m by (simp add: mset_filter)
qed

lemma job_inv_end:
  assumes inv: "job_inv (mset ids) s" and "distinct ids"
    and w: "w < length (js_workers s)" "wk_running (js_workers s ! w) = Some (t, Some r)"
  shows "job_inv (mset ids) (s\<lparr>js_job := end_operation t r (js_job s),
          js_workers := (js_workers s)[w := (js_workers s ! w)\<lparr>wk_running := None\<rparr>]\<rparr>)"
proof -
  note places = end_places [OF w]
  let ?r = "jb_jobResult (js_job s)"
  have ids: "mset ids = waiting (js_workers s) + busy (js_workers s) + mset (map fst (jr_current_finished_operations ?r))
      + mset (delivered (js_signals s))" and run: "mset (jr_running_operations ?r) = busy (js_workers s)"
    using inv by (simp_all add: job_inv_def Let_def)
  have "count (mset (jr_running_operations ?r)) i \<le> 1" for i
    using arg_cong [OF ids, of "\<lambda>M. count M i"] \<open>distinct ids\<close> unfolding run by (simp add: distinct_count_atmost_1 split: if_splits)
  then have "distinct (jr_running_operations ?r)" by (intro count_distinct) blast
  then have filt: "mset (filter (\<lambda>i. i \<noteq> op_id t) (jr_running_operations ?r)) = busy ((js_workers s)[w := (js_workers s ! w)\<lparr>wk_running := None\<rparr>])"
    using run places(2) by (intro filter_distinct_mset) simp_all
  have "mset (delivered (js_signals s)) \<noteq> mset ids" unfolding ids places(2) by simp
  with inv_undelivered [OF inv] inv show ?thesis
    using places filt by (auto simp: job_inv_def Let_def end_operation_def)
qed

lemma job_inv_cancel: "job_inv (mset ids) s \<Longrightarrow> job_inv (mset ids) (s\<lparr>js_job := snd (cancel (js_job s))\<rparr>)"
  by (auto simp: job_inv_def Let_def cancel_def)

lemma job_inv_tick:
  assumes inv: "job_inv (mset ids) s"
  shows "job_inv (mset ids) (s\<lparr>js_job := fst (idleCheckOperation (js_job s)),
          js_signals := js_signals s @ snd (idleCheckOperation (js_job s))\<rparr>)"
proof (cases "jr_queue_is_changed (jb_jobResult (js_job s))")
  case False
  then show ?thesis using inv by (simp add: idleCheckOperation_def)
next
  case True
  let ?r = "jb_jobResult (js_job s)"
  let ?cur = "mset (map fst (jr_current_finished_operations ?r))" and ?del = "mset (delivered (js_signals s))"
  have I: "waiting (js_workers s) + busy (js_workers s) + ?cur + ?del = mset ids" "jr_finished_operation_num ?r = int (size ?cur + size ?del)"
      "jr_sum_operation_num ?r = int (size (mset ids))" "jb_state (js_job s) = BR_JOB_STATE_RUNNING" "mset ids \<noteq> {#}"
      "ProcessFinished \<notin> set (js_signals s)"
    using inv True by (auto simp: job_inv_def Let_def)
  have all: "jr_finished_operation_num ?r = jr_sum_operation_num ?r \<longleftrightarrow> ?cur + ?del = mset ids"
  proof
    assume "jr_finished_operation_num ?r = jr_sum_operation_num ?r"
    then have "int (size ?cur + size ?del) = int (size (mset ids))" using I(2,3) by (simp only:)
    moreover have "size (waiting (js_workers s)) + size (busy (js_workers s)) + size ?cur + size ?del = size (mset ids)"
      using arg_cong [OF I(1), of size] by (simp only: size_union)
    ultimately have "size (waiting (js_workers s)) + size (busy (js_workers s)) = 0" by linarith
    then show "?cur + ?del = mset ids" using I(1) by simp
  next
    assume "?cur + ?del = mset ids"
    then have "size (mset ids) = size ?cur + size ?del" by (metis size_union)
    then show "jr_finished_operation_num ?r = jr_sum_operation_num ?r" using I(2,3) by simp
  qed
  show ?thesis
  proof (cases "?cur + ?del = mset ids")
    case True
    then show ?thesis
      using inv I all \<open>jr_queue_is_changed ?r\<close>
      by (auto simp: job_inv_def Let_def idleCheckOperation_def ac_simps)
  next
    case False
    then show ?thesis
      using inv I all \<open>jr_queue_is_changed ?r\<close>
      by (auto simp: job_inv_def Let_def idleCheckOperation_def ac_simps)
  qed
qed

lemma job_inv_step: "job_step s l s' \<Longrightarrow> distinct ids \<Longrightarrow> job_inv (mset ids) s \<Longrightarrow> job_inv (mset ids) s'"
  by (induction rule: job_step.induct)
     (auto intro: job_inv_begin job_inv_run job_inv_end job_inv_tick job_inv_cancel)

section \<open>From the start to the end\<close>

lemma runAsync_started:
  assumes "ops_ok j" and "jb_state j = BR_JOB_STATE_IDLE" and "jr_queue_is_changed (jb_jobResult j) = False" and "0 < n"
  shows "\<exists>s. runAsync hash (idle_workers n) j = Some (True, s) \<and> job_inv (mset (map fst (jb_operations j))) s
     \<and> js_signals s = [] \<and> jb_state (js_job s) = BR_JOB_STATE_RUNNING
     \<and> waiting (js_workers s) = mset (map fst (jb_operations j)) \<and> busy (js_workers s) = {#}"
proof -
  have "idle_workers n \<noteq> []" using assms(4) idle_workers_empty(3) [of n] by auto
  from enqueue_all_places [OF this, of hash "qm_values (jb_operations j)"] obtain ws where
    ws: "enqueue_all hash (qm_values (jb_operations j)) (idle_workers n) = Some ws"
      "waiting ws = mset (map fst (jb_operations j))" "busy ws = {#}"
    by (auto simp: idle_workers_empty ops_ok_ids [OF assms(1)])
  then show ?thesis
    using assms(2,3) by (auto simp: runAsync_def runInit_def Let_def job_inv_def)
qed

lemma job_inv_job_run:
  "job_run s ls s' \<Longrightarrow> distinct ids \<Longrightarrow> job_inv (mset ids) s \<Longrightarrow> job_inv (mset ids) s'"
  by (induction rule: job_run.induct) (auto intro: job_inv_step)

lemma job_inv_delivered:
  assumes "job_inv (mset ids) s" and "distinct ids"
  shows "distinct (delivered (js_signals s))" "set (delivered (js_signals s)) \<subseteq> set ids"
proof -
  let ?del = "delivered (js_signals s)"
  have "waiting (js_workers s) + busy (js_workers s) + mset (map fst (jr_current_finished_operations (jb_jobResult (js_job s))))
      + mset ?del = mset ids"
    using assms(1) by (simp add: job_inv_def Let_def)
  then have sub: "mset ?del \<subseteq># mset ids" by (metis mset_subset_eq_add_right)
  have "count (mset ?del) i \<le> 1" for i
  proof -
    have "count (mset ids) i = (if i \<in> set ids then 1 else 0)" using assms(2) unfolding distinct_count_atmost_1 by blast
    then show ?thesis using mset_subset_eq_count [OF sub, of i] by presburger
  qed
  then show "distinct ?del" by (intro count_distinct) blast
  show "set ?del \<subseteq> set ids" using sub by (metis set_mset_mono set_mset_mset)
qed

text \<open>Before the end and after it.\<close>

lemma job_inv_ends:
  assumes "job_inv (mset ids) s"
  shows "ProcessFinished \<notin> set (js_signals s) \<and> jb_state (js_job s) = BR_JOB_STATE_RUNNING
    \<or> jb_state (js_job s) = BR_JOB_STATE_IDLE \<and> set (delivered (js_signals s)) = set ids
      \<and> waiting (js_workers s) = {#} \<and> busy (js_workers s) = {#}
      \<and> (\<exists>xs r st. js_signals s = xs @ [ProcessChanged r st, ProcessFinished] \<and> ProcessFinished \<notin> set xs)"
proof -
  let ?del = "delivered (js_signals s)" and ?cur = "mset (map fst (jr_current_finished_operations (jb_jobResult (js_job s))))"
  have ids: "waiting (js_workers s) + busy (js_workers s) + ?cur + mset ?del = mset ids"
    using assms by (simp add: job_inv_def Let_def)
  have "ProcessFinished \<notin> set (js_signals s) \<and> jb_state (js_job s) = BR_JOB_STATE_RUNNING
      \<or> jb_state (js_job s) = BR_JOB_STATE_IDLE \<and> mset ?del = mset ids
        \<and> (\<exists>xs r st. js_signals s = xs @ [ProcessChanged r st, ProcessFinished] \<and> ProcessFinished \<notin> set xs)"
    using assms unfolding job_inv_def Let_def by blast
  moreover have "waiting (js_workers s) + busy (js_workers s) + ?cur = {#} \<and> set ?del = set ids" if "mset ?del = mset ids"
    using ids that by (metis add_cancel_left_left set_mset_mset)
  ultimately show ?thesis by auto
qed

text \<open>C18: However the threads, the timer and a cancellation are interleaved, no result of an operation is
  delivered twice; the signal of the end is sent at most once, as the last signal of all, after the
  result of every operation has been delivered, when no thread holds one any more and the job is idle.\<close>

theorem job_delivers_once:
  assumes "ops_ok j" and "jb_state j = BR_JOB_STATE_IDLE" and "jr_queue_is_changed (jb_jobResult j) = False" and "0 < n"
    and "runAsync hash (idle_workers n) j = Some (True, s)" and "job_run s ls s'"
  shows "distinct (delivered (js_signals s')) \<and> set (delivered (js_signals s')) \<subseteq> set (qm_keys (jb_operations j))
     \<and> (ProcessFinished \<in> set (js_signals s') \<longleftrightarrow> jb_state (js_job s') = BR_JOB_STATE_IDLE)
     \<and> (ProcessFinished \<in> set (js_signals s') \<longrightarrow>
          last (js_signals s') = ProcessFinished \<and> count_list (js_signals s') ProcessFinished = 1
          \<and> set (delivered (js_signals s')) = set (qm_keys (jb_operations j))
          \<and> waiting (js_workers s') = {#} \<and> busy (js_workers s') = {#})"
proof -
  let ?ids = "map fst (jb_operations j)"
  have dist: "distinct ?ids" by (rule ops_ok_distinct [OF assms(1)])
  have "job_inv (mset ?ids) s" using runAsync_started [OF assms(1-4), of hash] assms(5) by auto
  from job_inv_job_run [OF assms(6) dist this] have inv: "job_inv (mset ?ids) s'" .
  show ?thesis
    using job_inv_delivered [OF inv dist] job_inv_ends [OF inv] by (auto simp: qm_keys_def count_list_0_iff)
qed

text \<open>How many steps the threads still have to make.\<close>

definition worker_work :: "worker \<Rightarrow> nat" where
  "worker_work w = 3 * length (wk_tasks w) + (case wk_running w of None \<Rightarrow> 0 | Some (t, None) \<Rightarrow> 2 | Some (t, Some r) \<Rightarrow> 1)"

definition work :: "worker list \<Rightarrow> nat" where
  "work ws = sum_list (map worker_work ws)"

fun worker_label :: "job_label \<Rightarrow> bool" where
  "worker_label (LBegin w) = True"
| "worker_label (LRun w r) = True"
| "worker_label (LEnd w) = True"
| "worker_label LTick = False"
| "worker_label LCancel = False"

lemma work_update: "i < length ws \<Longrightarrow> work (ws[i := w]) + worker_work (ws ! i) = work ws + worker_work w"
proof (induction ws arbitrary: i)
  case (Cons x ws)
  then show ?case by (cases i) (simp_all add: work_def)
qed simp

lemma work_step: "job_step s l s' \<Longrightarrow> work (js_workers s) = work (js_workers s') + (if worker_label l then 1 else 0)"
proof (induction rule: job_step.induct)
  case (begin_op w s t ts)
  then show ?case using work_update [OF begin_op(1), of "\<lparr>wk_tasks = ts, wk_running = Some (t, None)\<rparr>"] by (simp add: worker_work_def)
next
  case (run_op w s t r)
  then show ?case using work_update [OF run_op(1), of "(js_workers s ! w)\<lparr>wk_running :=
            Some (t, Some (if jb_isNeedCancel (js_job s) then [] else r))\<rparr>"] by (simp add: worker_work_def)
next
  case (end_op w s t r)
  then show ?case using work_update [OF end_op(1), of "(js_workers s ! w)\<lparr>wk_running := None\<rparr>"] by (simp add: worker_work_def)
qed simp_all

lemma work_run: "job_run s ls s' \<Longrightarrow> work (js_workers s) = work (js_workers s') + length (filter worker_label ls)"
  by (induction rule: job_run.induct) (auto dest: work_step)

lemma work_places: "work ws = 0 \<longleftrightarrow> waiting ws = {#} \<and> busy ws = {#}"
  by (induction ws) (auto simp: work_def waiting_def busy_def worker_work_def running_ops_def split: option.splits)

lemma work_enabled: "0 < work (js_workers s) \<Longrightarrow> \<exists>l s'. worker_label l \<and> job_step s l s'"
proof -
  assume "0 < work (js_workers s)"
  then have "\<exists>x \<in> set (js_workers s). worker_work x \<noteq> 0"
    by (rule contrapos_pp) (simp add: work_def)
  then have "\<exists>w < length (js_workers s). worker_work (js_workers s ! w) \<noteq> 0"
    by (auto simp: in_set_conv_nth)
  then obtain w where w: "w < length (js_workers s)" "worker_work (js_workers s ! w) \<noteq> 0" by blast
  show ?thesis
  proof (cases "wk_running (js_workers s ! w)")
    case None
    with w(2) obtain t ts where "wk_tasks (js_workers s ! w) = t # ts" by (cases "wk_tasks (js_workers s ! w)") (auto simp: worker_work_def)
    with w None show ?thesis by (meson begin_op worker_label.simps(1))
  next
    case (Some p)
    obtain t r where "p = (t, r)" by force
    with Some w show ?thesis by (cases r) (meson run_op end_op worker_label.simps(2,3))+
  qed
qed

lemma enqueue_all_work:
  "ws \<noteq> [] \<Longrightarrow> enqueue_all hash ts ws = Some ws' \<Longrightarrow> work ws' = work ws + 3 * length ts"
proof (induction ts arbitrary: ws)
  case (Cons t ts)
  let ?w = "hash (op_reinforcement_name t) mod length ws"
  let ?ws = "ws[?w := (ws ! ?w)\<lparr>wk_tasks := wk_tasks (ws ! ?w) @ [t]\<rparr>]"
  have w: "?w < length ws" using Cons.prems by simp
  have "work ?ws = work ws + 3"
    using work_update [OF w, of "(ws ! ?w)\<lparr>wk_tasks := wk_tasks (ws ! ?w) @ [t]\<rparr>"] by (simp add: worker_work_def split: option.splits)
  moreover have "enqueue_all hash ts ?ws = Some ws'" "?ws \<noteq> []"
    using Cons.prems by (simp_all add: enqueueByIdx_def Let_def)
  ultimately show ?case using Cons.IH [of ?ws] by simp
qed simp

lemma runAsync_work:
  "0 < n \<Longrightarrow> runAsync hash (idle_workers n) j = Some (True, s) \<Longrightarrow> work (js_workers s) = 3 * length (jb_operations j)"
proof -
  assume n: "0 < n" and r: "runAsync hash (idle_workers n) j = Some (True, s)"
  then have ne: "idle_workers n \<noteq> []" by (auto simp: idle_workers_def)
  have "work (idle_workers n) = 0" by (simp add: work_places idle_workers_empty)
  with enqueue_all_work [OF ne] r show ?thesis
    by (fastforce simp: runAsync_def Let_def runInit_def qm_values_def split: if_splits)
qed

text \<open>C19: A job comes to its end: the threads make at most three steps for each operation; as long as they have
  made fewer, one of them can go on; and when they have made them all, the next tick of the timer
  delivers what is left and the signal of the end, cancelled or not.\<close>

theorem job_finishes:
  assumes "ops_ok j" and "jb_state j = BR_JOB_STATE_IDLE" and "jr_queue_is_changed (jb_jobResult j) = False" and "0 < n"
    and "runAsync hash (idle_workers n) j = Some (True, s)" and "job_run s ls s'" and "jb_operations j \<noteq> []"
  shows "length (filter worker_label ls) \<le> 3 * length (jb_operations j)
     \<and> (length (filter worker_label ls) < 3 * length (jb_operations j) \<longrightarrow> (\<exists>l s''. worker_label l \<and> job_step s' l s''))
     \<and> (length (filter worker_label ls) = 3 * length (jb_operations j) \<longrightarrow>
          (\<forall>s''. job_step s' LTick s'' \<longrightarrow> ProcessFinished \<in> set (js_signals s'') \<and> jb_state (js_job s'') = BR_JOB_STATE_IDLE))"
proof -
  let ?ids = "map fst (jb_operations j)"
  have dist: "distinct ?ids" by (rule ops_ok_distinct [OF assms(1)])
  have "job_inv (mset ?ids) s" using runAsync_started [OF assms(1-4), of hash] assms(5) by auto
  from job_inv_job_run [OF assms(6) dist this] have inv: "job_inv (mset ?ids) s'" .
  have work: "3 * length (jb_operations j) = work (js_workers s') + length (filter worker_label ls)"
    using work_run [OF assms(6)] runAsync_work [OF assms(4,5)] by simp
  have "ProcessFinished \<in> set (js_signals s'') \<and> jb_state (js_job s'') = BR_JOB_STATE_IDLE"
    if "work (js_workers s') = 0" and t: "job_step s' LTick s''" for s''
  proof -
    have inv'': "job_inv (mset ?ids) s''" by (rule job_inv_step [OF t dist inv])
    from t have "js_workers s'' = js_workers s'" "jr_current_finished_operations (jb_jobResult (js_job s'')) = []
        \<or> jb_jobResult (js_job s'') = jb_jobResult (js_job s') \<and> \<not> jr_queue_is_changed (jb_jobResult (js_job s'))"
      by (auto simp: idleCheckOperation_def Let_def)
    with that(1) inv inv'' have "mset (delivered (js_signals s'')) = mset ?ids"
      unfolding work_places job_inv_def Let_def by auto
    moreover have "mset ?ids \<noteq> {#}" using assms(7) by simp
    ultimately show ?thesis using inv'' unfolding job_inv_def Let_def by auto
  qed
  then show ?thesis using work work_enabled [of s'] by auto
qed

text \<open>A job without operations never ends: no run of it delivers anything, and it stays in the state of a
  running job; cancelling it does not help.\<close>

theorem empty_job_never_finishes:
  assumes "jb_operations j = []" and "jb_state j = BR_JOB_STATE_IDLE" and "jr_queue_is_changed (jb_jobResult j) = False"
    and "runAsync hash (idle_workers n) j = Some (True, s)" and "job_run s ls s'"
  shows "jb_state (js_job s') = BR_JOB_STATE_RUNNING \<and> js_signals s' = []"
proof -
  have start: "js_workers s = idle_workers n" "jb_state (js_job s) = BR_JOB_STATE_RUNNING" "js_signals s = []"
      "\<not> jr_queue_is_changed (jb_jobResult (js_job s))"
    using assms(1-4) by (auto simp: runAsync_def Let_def runInit_def qm_values_def)
  have none: "work (idle_workers n) = 0" by (simp add: work_places idle_workers_empty)
  from assms(5) start have "js_workers s' = idle_workers n \<and> jb_state (js_job s') = BR_JOB_STATE_RUNNING \<and> js_signals s' = []
      \<and> \<not> jr_queue_is_changed (jb_jobResult (js_job s'))"
  proof (induction rule: job_run.induct)
    case (run_snoc s ls s' l s'')
    then have IH: "js_workers s' = idle_workers n" "jb_state (js_job s') = BR_JOB_STATE_RUNNING" "js_signals s' = []"
        "\<not> jr_queue_is_changed (jb_jobResult (js_job s'))" by simp_all
    have "\<not> worker_label l" using work_step [OF run_snoc(2)] IH(1) none by (cases "worker_label l") simp_all
    with run_snoc(2) IH show ?case
      by (cases rule: job_step.cases) (auto simp: idleCheckOperation_def cancel_def)
  qed simp
  then show ?thesis by simp
qed

section \<open>The steps as a function\<close>

text \<open>A label and a state determine the next state, when the step can be made at all.\<close>

fun exec_label :: "job_sys \<Rightarrow> job_label \<Rightarrow> job_sys option" where
  "exec_label s (LBegin w) =
     (if w < length (js_workers s) \<and> wk_running (js_workers s ! w) = None
      then (case wk_tasks (js_workers s ! w) of
              [] \<Rightarrow> None
            | t # ts \<Rightarrow> Some (s\<lparr>js_job := begin_operation t (js_job s),
                js_workers := (js_workers s)[w := \<lparr>wk_tasks = ts, wk_running = Some (t, None)\<rparr>]\<rparr>))
      else None)"
| "exec_label s (LRun w r) =
     (if w < length (js_workers s)
      then (case wk_running (js_workers s ! w) of
              Some (t, None) \<Rightarrow> Some (s\<lparr>js_workers := (js_workers s)[w := (js_workers s ! w)\<lparr>wk_running :=
                Some (t, Some (if jb_isNeedCancel (js_job s) then [] else r))\<rparr>]\<rparr>)
            | _ \<Rightarrow> None)
      else None)"
| "exec_label s (LEnd w) =
     (if w < length (js_workers s)
      then (case wk_running (js_workers s ! w) of
              Some (t, Some r) \<Rightarrow> Some (s\<lparr>js_job := end_operation t r (js_job s),
                js_workers := (js_workers s)[w := (js_workers s ! w)\<lparr>wk_running := None\<rparr>]\<rparr>)
            | _ \<Rightarrow> None)
      else None)"
| "exec_label s LTick = Some (s\<lparr>js_job := fst (idleCheckOperation (js_job s)),
     js_signals := js_signals s @ snd (idleCheckOperation (js_job s))\<rparr>)"
| "exec_label s LCancel = Some (s\<lparr>js_job := snd (cancel (js_job s))\<rparr>)"

lemma exec_label_step: "exec_label s l = Some s' \<longleftrightarrow> job_step s l s'"
proof
  assume e: "exec_label s l = Some s'"
  show "job_step s l s'"
  proof (cases l)
    case (LRun w r)
    with e obtain t where "w < length (js_workers s)" "wk_running (js_workers s ! w) = Some (t, None)"
        and "s' = s\<lparr>js_workers := (js_workers s)[w := (js_workers s ! w)\<lparr>wk_running :=
          Some (t, Some (if jb_isNeedCancel (js_job s) then [] else r))\<rparr>]\<rparr>"
      by (simp split: if_split_asm option.split_asm prod.split_asm)
    with LRun show ?thesis by (simp only: run_op)
  qed (use e in \<open>auto intro: job_step.intros split: if_split_asm list.split_asm option.split_asm prod.split_asm\<close>)
next
  show "job_step s l s' \<Longrightarrow> exec_label s l = Some s'"
    by (induction rule: job_step.induct) simp_all
qed

fun exec_labels :: "job_sys \<Rightarrow> job_label list \<Rightarrow> job_sys option" where
  "exec_labels s [] = Some s"
| "exec_labels s (l # ls) = Option.bind (exec_label s l) (\<lambda>s. exec_labels s ls)"

lemma job_run_Cons: "job_run t ls s' \<Longrightarrow> job_step s l t \<Longrightarrow> job_run s (l # ls) s'"
proof (induction rule: job_run.induct)
  case (run_nil t)
  then show ?case using job_run.run_snoc [OF job_run.run_nil] by fastforce
next
  case (run_snoc t ls s' l' s'')
  then show ?case using job_run.run_snoc [of s "l # ls" s' l' s''] by simp
qed

lemma exec_labels_run: "exec_labels s ls = Some s' \<Longrightarrow> job_run s ls s'"
proof (induction ls arbitrary: s)
  case (Cons l ls)
  then obtain t where "exec_label s l = Some t" "exec_labels t ls = Some s'" by (auto simp: bind_eq_Some_conv)
  with Cons.IH show ?case by (auto simp: exec_label_step intro: job_run_Cons)
qed (simp add: run_nil)

definition sample_job :: job where
  "sample_job = snd (addOperation ''audit_python'' ''audit'' (snd (addOperation ''config_python'' ''ulimit'' (newJob 1))))"

definition sample_sys :: job_sys where
  "sample_sys = snd (the (runAsync length (idle_workers 2) sample_job))"

definition sample_end :: job_sys where
  "sample_end = the (exec_labels sample_sys
     [LBegin 1, LTick, LBegin 0, LRun 0 ''{}'', LEnd 0, LRun 1 ''{}'', LTick, LCancel, LEnd 1, LTick, LTick])"

lemma sample_job_ok: "ops_ok sample_job" "jb_state sample_job = BR_JOB_STATE_IDLE"
    "jr_queue_is_changed (jb_jobResult sample_job) = False" "jb_operations sample_job \<noteq> []"
proof -
  show "ops_ok sample_job"
    using addOperation_ok [OF ops_ok_create [of 1], of "''config_python''" "''ulimit''"]
      addOperation_ok [of "snd (addOperation ''config_python'' ''ulimit'' (newJob 1))" "''audit_python''" "''audit''"]
    by (auto simp: sample_job_def)
qed (code_simp+)

lemma sample_started: "runAsync length (idle_workers 2) sample_job = Some (True, sample_sys)"
proof -
  have "map_option fst (runAsync length (idle_workers 2) sample_job) = Some True" by code_simp
  then show ?thesis by (auto simp: sample_sys_def)
qed

lemma sample_ends: "job_run sample_sys
    [LBegin 1, LTick, LBegin 0, LRun 0 ''{}'', LEnd 0, LRun 1 ''{}'', LTick, LCancel, LEnd 1, LTick, LTick] sample_end"
proof -
  have "exec_labels sample_sys
     [LBegin 1, LTick, LBegin 0, LRun 0 ''{}'', LEnd 0, LRun 1 ''{}'', LTick, LCancel, LEnd 1, LTick, LTick] \<noteq> None" by code_simp
  then show ?thesis by (intro exec_labels_run) (auto simp: sample_end_def)
qed

theorem job_delivers_once_witness:
  "count_list (js_signals sample_end) ProcessFinished = 1 \<and> set (delivered (js_signals sample_end)) = {1, 2}"
proof -
  have "list_ex (\<lambda>x. x = ProcessFinished) (js_signals sample_end)" by code_simp
  then have "ProcessFinished \<in> set (js_signals sample_end)" by (auto simp: list_ex_iff)
  moreover have "qm_keys (jb_operations sample_job) = [1, 2]" by code_simp
  ultimately show ?thesis
    using job_delivers_once [OF sample_job_ok(1-3) zero_less_numeral sample_started sample_ends] by auto
qed

theorem job_finishes_witness: "\<exists>l s''. worker_label l \<and> job_step sample_sys l s''"
proof -
  have "jb_operations sample_job \<noteq> []" by (rule sample_job_ok(4))
  then have "length (filter worker_label []) < 3 * length (jb_operations sample_job)" by simp
  with job_finishes [OF sample_job_ok(1-3) zero_less_numeral sample_started run_nil sample_job_ok(4)] show ?thesis by blast
qed

theorem empty_job_never_finishes_witness:
  "js_signals (the (exec_labels (snd (the (runAsync length (idle_workers 2) (newJob 1)))) [LTick, LCancel, LTick])) = []"
proof -
  let ?s = "snd (the (runAsync length (idle_workers 2) (newJob 1)))"
  have "map_option fst (runAsync length (idle_workers 2) (newJob 1)) = Some True" by code_simp
  then have "runAsync length (idle_workers 2) (newJob 1) = Some (True, ?s)" by auto
  moreover have "exec_labels ?s [LTick, LCancel, LTick] \<noteq> None" by simp
  then have "job_run ?s [LTick, LCancel, LTick] (the (exec_labels ?s [LTick, LCancel, LTick]))"
    by (intro exec_labels_run) auto
  ultimately show ?thesis
    using empty_job_never_finishes [of "newJob 1" length 2 ?s] by (simp add: newJob_def)
qed

end
