(* ===== verification/BRDBus.thy ===== *)
theory BRDBus
  imports BRConfig BRJob
begin

text \<open>
  The D-Bus object of the baseline reinforcement, \<open>src/daemon/br/br-dbus.cpp\<close>, and the categories it
  lists, \<open>src/daemon/br/categories.cpp\<close>: the methods, the signals of the jobs they start, and what the
  signals write to the history and to the audit log.

  \<open>None\<close> is a crash: a null pointer followed, or the first operation put on a pool without threads. The
  parameters of a call are in \<open>brd_env\<close>: those of the configuration, which reinforcements the interface
  of a plugin knows, Qt's JSON text and number formatting, the hash that picks a thread, the XML
  parser, and what the file system does. The text of a progress report is written and read back by
  code generated from one schema, so a report is the list of its items.
\<close>

unbundle bit_operations_syntax

record brd_env =
  de_config :: br_env
  de_interface :: "string \<Rightarrow> string \<Rightarrow> bool"
  de_json2str :: "(string \<times> qjson) list \<Rightarrow> string"
  de_str2json :: "string \<Rightarrow> (string \<times> qjson) list"
  de_double2str :: "rat \<Rightarrow> string"
  de_hash :: "string \<Rightarrow> nat"
  de_parse :: "string \<Rightarrow> reinforcement option"
  de_strategy_writable :: bool
  de_check_ra :: "string \<Rightarrow> bool"
  de_first_exists :: bool

record category =
  cg_name :: string
  cg_label :: string
  cg_description :: string
  cg_icon_name :: string
  cg_priority :: int

text \<open>
  The timer of the resource monitor is \<open>None\<close> when it was never made, and otherwise whether it runs.
  The slots of the reinforcement timer are the callers whose reinforcement waits for the scan. The
  parameters an operation of the reinforcement job was given are kept by its number.
\<close>

record brd = br +
  bd_categories :: "(string, category) qmap"
  bd_strategy :: "string option"
  bd_monitorTimer :: "bool option"
  bd_scanJob :: "job option"
  bd_reinforceJob :: "job option"
  bd_jobCount :: int
  bd_workers :: "worker list"
  bd_params :: "(int, string) qmap"
  bd_isScanFlag :: bool
  bd_isFinishRHWrite :: bool
  bd_fallbackMethod :: int
  bd_scanUniqueName :: string
  bd_reforceUniqueName :: string
  bd_jobResult :: "(string, int) qmap"
  bd_reinforceTimer :: bool
  bd_slots :: "string list"

abbreviation (input) "BR_FALLBACK_METHOD_INITIAL \<equiv> (0 :: int)"
abbreviation (input) "BR_FALLBACK_METHOD_LAST \<equiv> (1 :: int)"
abbreviation (input) "BR_FALLBACK_METHOD_OTHER \<equiv> (2 :: int)"

abbreviation (input) "STATE_UNKNOWN \<equiv> (0 :: int)"
abbreviation (input) "STATE_SAFE \<equiv> (1 :: int)"
abbreviation (input) "STATE_UNSAFE \<equiv> (2 :: int)"
abbreviation (input) "STATE_UNSCAN \<equiv> (4 :: int)"
abbreviation (input) "STATE_SCANNING \<equiv> (8 :: int)"
abbreviation (input) "STATE_SCAN_ERROR \<equiv> (16 :: int)"
abbreviation (input) "STATE_SCAN_DONE \<equiv> (32 :: int)"
abbreviation (input) "STATE_UNREINFORCE \<equiv> (64 :: int)"
abbreviation (input) "STATE_REINFORCE_ERROR \<equiv> (128 :: int)"
abbreviation (input) "STATE_REINFORCING \<equiv> (256 :: int)"
abbreviation (input) "STATE_REINFORCE_DONE \<equiv> (512 :: int)"

section \<open>Categories\<close>

definition addCategory :: "category \<Rightarrow> (string, category) qmap \<Rightarrow> bool \<times> (string, category) qmap" where
  "addCategory c m = (if qm_contains (cg_name c) m then (False, m) else (True, qm_insert (cg_name c) c m))"

definition load_categories :: "qsettings \<Rightarrow> (string, category) qmap" where
  "load_categories keyfile =
     fold (\<lambda>g m. snd (addCategory \<lparr>cg_name = g, cg_label = v_toString (s_value g ''label'' keyfile),
               cg_description = v_toString (s_value g ''description'' keyfile),
               cg_icon_name = v_toString (s_value g ''icon_name'' keyfile),
               cg_priority = v_toInt (s_value g ''priority'' keyfile)\<rparr> m))
       (s_childGroups keyfile) []"

definition getCategory :: "string \<Rightarrow> (string, category) qmap \<Rightarrow> category option" where
  "getCategory name m = qm_value name m"

definition category_json :: "category \<Rightarrow> json" where
  "category_json c = JObj [(''name'', JStr (cg_name c)), (''label'', JStr (cg_label c)),
     (''description'', JStr (cg_description c)), (''icon_name'', JStr (cg_icon_name c))]"

definition GetCategories :: "brd \<Rightarrow> json" where
  "GetCategories s =
     (let categories = qm_values (bd_categories s)
      in JObj [(''itemCount'', JInt (int (length categories))), (''items'', JArr (map category_json categories))])"

section \<open>Replies and audit lines\<close>

text \<open>The methods run in a D-Bus call, and \<open>Scan\<close> also out of one.\<close>

definition br_reply_error :: "string option \<Rightarrow> BRErrorCode \<Rightarrow> brd \<Rightarrow> brd" where
  "br_reply_error ctx code s = act (case ctx of Some c \<Rightarrow> ReplyBRError c code | None \<Rightarrow> ReplyNoCall code) s"

definition getCallerUniqueName :: "string option \<Rightarrow> string" where
  "getCallerUniqueName ctx = (case ctx of None \<Rightarrow> [] | Some c \<Rightarrow> c)"

text \<open>The two orders in which a refused call answers and audits.\<close>

definition br_refuse :: "string \<Rightarrow> BRErrorCode \<Rightarrow> string \<Rightarrow> brd \<Rightarrow> brd" where
  "br_refuse caller code msg s = SSR_LOG_ERROR log_BASELINE_REINFORCEMENT msg caller (act (ReplyBRError caller code) s)"

definition br_refuse_logged :: "string \<Rightarrow> BRErrorCode \<Rightarrow> string \<Rightarrow> brd \<Rightarrow> brd" where
  "br_refuse_logged caller code msg s = act (ReplyBRError caller code) (SSR_LOG_ERROR log_BASELINE_REINFORCEMENT msg caller s)"

definition br_done :: "string \<Rightarrow> string \<Rightarrow> brd \<Rightarrow> brd" where
  "br_done caller msg s = SSR_LOG_SUCCESS log_BASELINE_REINFORCEMENT msg caller s"

section \<open>Settings\<close>

text \<open>Arguments arrive as unsigned 32-bit integers, and are compared as such.\<close>

definition standard_name :: "32 word \<Rightarrow> string" where
  "standard_name w = (if w = 0 then ''system'' else ''custom'')"

definition SetStandardType :: "brd_env \<Rightarrow> string \<Rightarrow> 32 word \<Rightarrow> brd \<Rightarrow> brd" where
  "SetStandardType env caller standardType s =
     (if uint standardType \<ge> BR_STANDARD_TYPE_LAST
      then br_refuse_logged caller ERROR_DAEMON_STANDARD_TYPE_INVALID
             (''Failed to set standard type to '' @ standard_name standardType @ '', invalid args'') s
      else if uint standardType = getStandardType s then s
      else case setStandardType (de_config env) (uint standardType) s of
             (False, s) \<Rightarrow> br_refuse_logged caller ERROR_DAEMON_SET_STANDARD_TYPE_FAILED
               (''Failed to set standard type to '' @ standard_name standardType @ '', Internal error'') s
           | (True, s) \<Rightarrow> br_done caller (''Set standard type to '' @ standard_name standardType) s)"

definition ImportCustomRS :: "brd_env \<Rightarrow> string \<Rightarrow> string \<Rightarrow> brd \<Rightarrow> brd" where
  "ImportCustomRS env caller encodedStandard s =
     (case setCustomRs (de_config env) encodedStandard s of
        (Inl errorCode, s) \<Rightarrow> br_refuse caller errorCode ''Failed to import custom reinforce standard.'' s
      | (Inr _, s) \<Rightarrow> br_done caller (''Import custom reinforce standard. encoded standard: '' @ encodedStandard) s)"

definition SetStrategyType :: "string \<Rightarrow> 32 word \<Rightarrow> brd \<Rightarrow> brd" where
  "SetStrategyType caller strategyType s =
     (let msg = ''Set strategy type to '' @ standard_name strategyType
      in if uint strategyType \<ge> BR_STRATEGY_TYPE_LAST
         then br_refuse caller ERROR_DAEMON_STRATEGY_TYPE_INVALID ''Failed to set strategy type'' s
         else if uint strategyType = getStrategyType s then br_done caller msg s
         else case setStrategyType (uint strategyType) s of
                (False, s) \<Rightarrow> br_refuse caller ERROR_DAEMON_SET_STRATEGY_TYPE_FAILED ''Failed to set strategy type'' s
              | (True, s) \<Rightarrow> br_done caller msg s)"

definition SetTimeScan :: "string \<Rightarrow> 32 word \<Rightarrow> brd \<Rightarrow> brd" where
  "SetTimeScan caller timeScan s =
     (let msg = ''Set time scan to '' @ show_int (uint timeScan)
      in if timeScan = word_of_int (getTimeScan s) then br_done caller msg s
         else case setTimeScan (sint timeScan) s of
                (False, s) \<Rightarrow> br_refuse caller ERROR_DAEMON_SET_TIME_SCAN_FAILED ''Failed to set time scan'' s
              | (True, s) \<Rightarrow> br_done caller msg s)"

definition SetNotificationStatus :: "string \<Rightarrow> 32 word \<Rightarrow> brd \<Rightarrow> brd" where
  "SetNotificationStatus caller notificationStatus s =
     (let msg = ''Set notification status to '' @ (if notificationStatus = 0 then ''open'' else ''close'')
      in if uint notificationStatus \<ge> BR_NOTIFICATION_STATUS_OTHER
         then br_refuse caller ERROR_DAEMON_NOTIFICATION_STATUS_INVALID ''Failed to set notification status'' s
         else if uint notificationStatus = getNotificationStatus s then br_done caller msg s
         else case setNotificationStatus (uint notificationStatus) s of
                (False, s) \<Rightarrow> br_refuse caller ERROR_DAEMON_SET_NOTIFICATION_STATUS_FAILED ''Failed to set notification status'' s
              | (True, s) \<Rightarrow> br_done caller msg s)"

definition SetFallbackStatus :: "string \<Rightarrow> 32 word \<Rightarrow> brd \<Rightarrow> brd" where
  "SetFallbackStatus caller fallbackStatus s =
     (if uint fallbackStatus > BR_FALLBACK_STATUS_IS_FINISHED
      then act (ReplyBRError caller ERROR_DAEMON_FALLBACK_STATUS_INVALID) s
      else if uint fallbackStatus = getFallbackStatus s then s
      else case setFallbackStatus (uint fallbackStatus) s of
             (False, s) \<Rightarrow> act (ReplyBRError caller ERROR_DAEMON_SET_FALLBACK_STATUS_FAILED) s
           | (True, s) \<Rightarrow> s)"

definition SetResourceMonitorSwitch :: "string \<Rightarrow> 32 word \<Rightarrow> brd \<Rightarrow> brd option" where
  "SetResourceMonitorSwitch caller resourceMonitor s =
     (let failed = ''Failed to set resource monitor switch'';
          msg = ''Set resource monitor switch to '' @ (if resourceMonitor = 1 then ''open'' else ''close'')
      in if uint resourceMonitor \<ge> BR_RESOURCE_MONITOR_OTHER
         then Some (br_refuse caller ERROR_DAEMON_RESOURCE_MONITOR_INVALID failed s)
         else if uint resourceMonitor = getResourceMonitorStatus s then Some (br_done caller msg s)
         else case setResourceMonitorStatus (uint resourceMonitor) s of
                (False, s) \<Rightarrow> Some (br_refuse caller ERROR_DAEMON_SET_RESOURCE_MONITOR_FAILED failed s)
              | (True, s) \<Rightarrow> (case bd_monitorTimer s of
                    None \<Rightarrow> None
                  | Some _ \<Rightarrow> Some (br_done caller msg
                      (s\<lparr>bd_monitorTimer := Some (uint resourceMonitor = BR_RESOURCE_MONITOR_OPEN)\<rparr>))))"

text \<open>The strategy file is written, then parsed, and removed when it does not parse.\<close>

definition ImportCustomRA :: "brd_env \<Rightarrow> string \<Rightarrow> string \<Rightarrow> brd \<Rightarrow> brd" where
  "ImportCustomRA env caller encodedStrategy s =
     (let s = (if de_strategy_writable env then s\<lparr>bd_strategy := Some encodedStrategy\<rparr> else s)
      in if (case bd_strategy s of None \<Rightarrow> False | Some t \<Rightarrow> de_check_ra env t)
         then br_done caller ''Import custom reinforce strategy.'' s
         else br_refuse caller BR_ERROR_FAILED ''Failed to import custom reinforce strategy.'' (s\<lparr>bd_strategy := None\<rparr>))"

definition SetCheckBox :: "brd_env \<Rightarrow> string \<Rightarrow> bool \<Rightarrow> brd \<Rightarrow> brd" where
  "SetCheckBox env reinforcementName checkboxStatus s = setRaCheckbox (de_config env) reinforcementName checkboxStatus s"

section \<open>Reinforcements\<close>

text \<open>Without a standard the error is sent and the null pointer followed all the same.\<close>

definition GetRS :: "brd \<Rightarrow> reinforcement list option" where
  "GetRS s = br_rs s"

definition GetReinforcements :: "brd \<Rightarrow> reinforcement list" where
  "GetReinforcements s = map ld_config (getReinforcements s)"

definition GetReinforcement :: "string \<Rightarrow> brd \<Rightarrow> reinforcement option" where
  "GetReinforcement name s = map_option ld_config (getReinforcement name s)"

definition ResetReinforcements :: "brd_env \<Rightarrow> string \<Rightarrow> brd \<Rightarrow> brd" where
  "ResetReinforcements env caller s = br_done caller ''Reset all reinforcement parameters.'' (delAllCustomRa (de_config env) s)"

definition SetReinforcement :: "brd_env \<Rightarrow> string \<Rightarrow> string \<Rightarrow> brd \<Rightarrow> brd" where
  "SetReinforcement env caller reinforcementXML s =
     (case de_parse env reinforcementXML of
        None \<Rightarrow> act (ReplyBRError caller ERROR_DAEMON_SET_REINFORCEMENT_FAILED) s
      | Some r \<Rightarrow> (case setCustomRa (de_config env) r s of
            (True, s) \<Rightarrow> s
          | (False, s) \<Rightarrow> act (ReplyBRError caller ERROR_DAEMON_SET_REINFORCEMENT_FAILED) s))"

definition ResetReinforcement :: "brd_env \<Rightarrow> string \<Rightarrow> string \<Rightarrow> brd \<Rightarrow> brd" where
  "ResetReinforcement env caller name s =
     br_done caller (''Reset reinforcement parameters. name is '' @ name) (delCustomRa (de_config env) name s)"

definition ExportStrategy :: "string \<Rightarrow> bool \<Rightarrow> brd \<Rightarrow> brd" where
  "ExportStrategy caller operationResult s = SSR_LOG log_BASELINE_REINFORCEMENT ''export strategy'' operationResult caller s"

definition GenerateReport :: "string \<Rightarrow> bool \<Rightarrow> brd \<Rightarrow> brd" where
  "GenerateReport caller operationResult s = SSR_LOG log_BASELINE_REINFORCEMENT ''export report'' operationResult caller s"

section \<open>Parameters of a reinforcement\<close>

definition parse_arg :: "arg \<Rightarrow> (string \<times> qjson) list \<Rightarrow> (string \<times> qjson) list" where
  "parse_arg a param =
     (let inputExample = (case ar_input_example a of None \<Rightarrow> [] | Some e \<Rightarrow> e)
      in qm_insert (ar_name a) (if inputExample = [] then str2jsonValue (ar_value a) else QString (ar_value a)) param)"

definition parseJsonParam :: "arg list \<Rightarrow> (string \<times> qjson) list \<Rightarrow> (string \<times> qjson) list" where
  "parseJsonParam args param = fold parse_arg args param"

text \<open>The parameters of the configuration, and in a fallback those of the history over them.\<close>

definition json_param :: "string \<Rightarrow> brd \<Rightarrow> (string \<times> qjson) list option" where
  "json_param name s =
     (if bd_fallbackMethod s = BR_FALLBACK_METHOD_OTHER
      then map_option (\<lambda>l. parseJsonParam (rf_args (ld_config l)) []) (getReinforcement name s)
      else let param = fold (\<lambda>l param. if rf_name (ld_config l) \<noteq> name then param else parseJsonParam (rf_args (ld_config l)) param)
                         (getReinforcements s) [];
               rh = readRhFromFile (if bd_fallbackMethod s = BR_FALLBACK_METHOD_LAST then RH_last else RH_first) s
           in Some (fold (\<lambda>r param. if rf_name r \<noteq> name then param else parseJsonParam (rf_args r) param) rh param))"

definition getJsonParam :: "brd_env \<Rightarrow> string \<Rightarrow> brd \<Rightarrow> string option" where
  "getJsonParam env name s = map_option (de_json2str env) (json_param name s)"

section \<open>Scanning\<close>

text \<open>What the function of a scan operation returns for what the plugin returns: an error, or the
  values as text.\<close>

definition scan_func :: "brd_env \<Rightarrow> string + string \<Rightarrow> string" where
  "scan_func env got =
     de_json2str env (case got of Inr args \<Rightarrow> [(''return_value'', QObject (de_str2json env args))]
                      | Inl error \<Rightarrow> [(''error'', QString error)])"

definition is_running :: "job option \<Rightarrow> bool" where
  "is_running j = (case j of None \<Rightarrow> False | Some j \<Rightarrow> jb_state j = BR_JOB_STATE_RUNNING)"

definition scan_failed :: "string option \<Rightarrow> BRErrorCode \<Rightarrow> brd \<Rightarrow> brd" where
  "scan_failed ctx code s =
     SSR_LOG_ERROR log_BASELINE_REINFORCEMENT ''Failed to scan.'' (bd_scanUniqueName s) (br_reply_error ctx code s)"

fun scan_operations :: "brd_env \<Rightarrow> string option \<Rightarrow> string list \<Rightarrow> job \<Rightarrow> brd \<Rightarrow> bool \<times> job \<times> brd" where
  "scan_operations env ctx [] j s = (True, j, s)"
| "scan_operations env ctx (name # names) j s =
     (case getReinforcement name s of
        None \<Rightarrow> (False, j, scan_failed ctx ERROR_DAEMON_REINFORCEMENT_NOTFOUND s)
      | Some l \<Rightarrow>
          if \<not> getReinforcementInterface (de_interface env) (ld_plugin l) (rf_name (ld_config l)) s
          then (False, j, scan_failed ctx ERROR_DAEMON_PLUGIN_OF_REINFORCEMENT_NOT_FOUND s)
          else scan_operations env ctx names (snd (addOperation (ld_plugin l) (rf_name (ld_config l)) j)) s)"

definition Scan :: "brd_env \<Rightarrow> string option \<Rightarrow> string list \<Rightarrow> brd \<Rightarrow> brd option" where
  "Scan env ctx names s =
     (let s = s\<lparr>bd_scanUniqueName := getCallerUniqueName ctx\<rparr>
      in if is_running (bd_scanJob s) then Some (scan_failed ctx ERROR_DAEMON_SCAN_IS_RUNNING s)
         else let (j, n) = job_create (bd_jobCount s);
                  (ok, j, s) = scan_operations env ctx names j (s\<lparr>bd_jobResult := [], bd_jobCount := n\<rparr>)
              in if \<not> ok then Some (s\<lparr>bd_scanJob := Some j\<rparr>)
                 else case runAsync (de_hash env) (bd_workers s) j of
                        None \<Rightarrow> None
                      | Some (started, js) \<Rightarrow>
                          (let s = s\<lparr>bd_scanJob := Some (js_job js), bd_workers := js_workers js\<rparr>
                           in Some (if started then s else scan_failed ctx ERROR_DAEMON_SCAN_ALL_JOB_FAILED s)))"

section \<open>Reinforcing\<close>

definition reinforce_func :: "brd_env \<Rightarrow> string option \<Rightarrow> string" where
  "reinforce_func env error =
     de_json2str env (case error of Some e \<Rightarrow> [(''error'', QString e)] | None \<Rightarrow> [(''return_value'', QString [])])"

definition reinforce_failed :: "string \<Rightarrow> BRErrorCode \<Rightarrow> brd \<Rightarrow> brd" where
  "reinforce_failed caller code s = br_refuse caller code ''Failed to reinforcement.'' s"

text \<open>The operations of the reinforcement, each with its parameters; \<open>None\<close> for parameters of a
  reinforcement that is not in use, which the test before excludes.\<close>

fun reinforce_operations :: "brd_env \<Rightarrow> string \<Rightarrow> string list \<Rightarrow> job \<Rightarrow> brd \<Rightarrow> (bool \<times> job \<times> brd) option" where
  "reinforce_operations env caller [] j s = Some (True, j, s)"
| "reinforce_operations env caller (name # names) j s =
     (case getReinforcement name s of
        None \<Rightarrow> Some (False, j, reinforce_failed caller ERROR_DAEMON_REINFORCEMENT_NOTFOUND s)
      | Some l \<Rightarrow>
          if \<not> getReinforcementInterface (de_interface env) (ld_plugin l) (rf_name (ld_config l)) s
          then Some (False, j, reinforce_failed caller ERROR_DAEMON_PLUGIN_OF_REINFORCEMENT_NOT_FOUND s)
          else case getJsonParam env name s of
                 None \<Rightarrow> None
               | Some paramStr \<Rightarrow> (case addOperation (ld_plugin l) (rf_name (ld_config l)) j of
                     (None, j) \<Rightarrow> reinforce_operations env caller names j s
                   | (Some t, j) \<Rightarrow> reinforce_operations env caller names j
                       (s\<lparr>bd_params := qm_insert (op_id t) paramStr (bd_params s)\<rparr>)))"

text \<open>The caller's message is answered when the handler returns, whatever it answered before.\<close>

definition reinforce :: "brd_env \<Rightarrow> string \<Rightarrow> string list \<Rightarrow> brd \<Rightarrow> brd option" where
  "reinforce env caller names s =
     map_option (act (Reply caller))
       (let s = s\<lparr>bd_reforceUniqueName := caller, bd_isScanFlag := False\<rparr>
        in if is_running (bd_reinforceJob s) then Some (reinforce_failed caller ERROR_DAEMON_REINFORCE_IS_RUNNING s)
           else let (j, n) = job_create (bd_jobCount s)
                in case Scan env None names (s\<lparr>bd_reinforceJob := Some j, bd_jobCount := n\<rparr>) of
                     None \<Rightarrow> None
                   | Some s \<Rightarrow> (case reinforce_operations env caller names j (s\<lparr>bd_jobResult := [], bd_params := []\<rparr>) of
                         None \<Rightarrow> None
                       | Some (ok, j, s) \<Rightarrow>
                           (let s = s\<lparr>bd_reinforceJob := Some j\<rparr>
                            in Some (if ok then s\<lparr>bd_reinforceTimer := True, bd_slots := bd_slots s @ [caller]\<rparr> else s))))"

text \<open>A tick of the reinforcement timer: the first slot, once the scan is over, disconnects all of them.\<close>

definition reinforce_timer :: "brd_env \<Rightarrow> brd \<Rightarrow> brd option" where
  "reinforce_timer env s =
     (if \<not> bd_reinforceTimer s then Some s
      else case bd_slots s of
             [] \<Rightarrow> Some s
           | caller # _ \<Rightarrow> (case bd_scanJob s of
                 None \<Rightarrow> None
               | Some scan \<Rightarrow>
                   if jb_state scan = BR_JOB_STATE_RUNNING then Some s
                   else let s = s\<lparr>bd_reinforceTimer := False, bd_slots := []\<rparr>
                        in case bd_reinforceJob s of
                             None \<Rightarrow> None
                           | Some j \<Rightarrow> (case runAsync (de_hash env) (bd_workers s) j of
                                 None \<Rightarrow> None
                               | Some (started, js) \<Rightarrow>
                                   (let s = s\<lparr>bd_reinforceJob := Some (js_job js), bd_workers := js_workers js\<rparr>
                                    in Some (if started then s
                                             else SSR_LOG_ERROR log_BASELINE_REINFORCEMENT ''Failed to reinforcement.'' (bd_reforceUniqueName s)
                                                    (act (ReplyBRError caller ERROR_CORE_REINFORCE_JOB_FAILED) s))))))"

section \<open>Cancelling\<close>

definition Cancel :: "string \<Rightarrow> int \<Rightarrow> brd \<Rightarrow> brd" where
  "Cancel caller jobID s =
     (let owns = (\<lambda>j. case j of None \<Rightarrow> False | Some j \<Rightarrow> jobID = jb_jobID j \<and> jb_state j = BR_JOB_STATE_RUNNING);
          (errorCode, s) =
            (if owns (bd_scanJob s)
             then (if fst (cancel (the (bd_scanJob s))) then BR_SUCCESS else ERROR_DAEMON_CANCEL_CANNOT_CANCELLED_1,
                   s\<lparr>bd_scanJob := Some (snd (cancel (the (bd_scanJob s))))\<rparr>)
             else if owns (bd_reinforceJob s)
             then (if fst (cancel (the (bd_reinforceJob s))) then BR_SUCCESS else ERROR_DAEMON_CANCEL_CANNOT_CANCELLED_2,
                   s\<lparr>bd_reinforceJob := Some (snd (cancel (the (bd_reinforceJob s))))\<rparr>)
             else (ERROR_DAEMON_CANCEL_NOTFOUND_JOB, s))
      in if errorCode \<noteq> BR_SUCCESS then br_refuse caller errorCode ''Failed to cancel progress.'' s
         else br_done caller (''Cancel. job id: '' @ show_int jobID) s)"

section \<open>Falling back\<close>

text \<open>The signal \<open>ProgressFinished\<close>, and the slot of the object itself.\<close>

definition progressFinished :: "brd \<Rightarrow> brd" where
  "progressFinished s =
     (let s = act (EmitSignal ''ProgressFinished'' [] 0) s
      in if getFallbackStatus s = BR_FALLBACK_STATUS_NOT_STARTED then s
         else snd (setFallbackStatus BR_FALLBACK_STATUS_NOT_STARTED s))"

definition setFallback :: "brd_env \<Rightarrow> string \<Rightarrow> 32 word \<Rightarrow> brd \<Rightarrow> brd option" where
  "setFallback env caller snapshotStatus s =
     map_option (act (Reply caller))
       (let failed = SSR_LOG_ERROR log_BASELINE_REINFORCEMENT ''Failed to set fallback.'' caller
        in if uint snapshotStatus = BR_FALLBACK_METHOD_OTHER then Some s
           else let names_rh = map (\<lambda>l. rf_name (ld_config l)) (getReinforcements s)
                in if names_rh = []
                   then Some (failed (act (Reply caller) (snd (setFallbackStatus BR_FALLBACK_STATUS_IS_FINISHED (progressFinished s)))))
                   else if is_running (bd_reinforceJob s)
                   then Some (failed (snd (setFallbackStatus BR_FALLBACK_STATUS_IS_FINISHED
                          (act (ReplyBRError caller ERROR_DAEMON_REINFORCE_IS_RUNNING) s))))
                   else (case reinforce env caller names_rh (s\<lparr>bd_fallbackMethod := uint snapshotStatus\<rparr>) of
                           None \<Rightarrow> None
                         | Some s \<Rightarrow> Some ((SSR_LOG_SUCCESS log_BASELINE_REINFORCEMENT
                             (''Set fallback. snapshot status is '' @ (if snapshotStatus = 0 then ''init'' else ''pre'')) caller s)
                             \<lparr>bd_fallbackMethod := BR_FALLBACK_METHOD_OTHER\<rparr>)))"

section \<open>The progress of a scan\<close>

text \<open>\<open>QJsonValue::toVariant().toString()\<close>.\<close>

definition variant_string :: "brd_env \<Rightarrow> qjson \<Rightarrow> string" where
  "variant_string env v =
     (case v of QBool b \<Rightarrow> if b then ''true'' else ''false'' | QDouble d \<Rightarrow> de_double2str env d | QString t \<Rightarrow> t | _ \<Rightarrow> [])"

text \<open>\<open>toObject()\<close>: the empty object for any other value.\<close>

definition q_object :: "qjson \<Rightarrow> (string \<times> qjson) list" where
  "q_object v = (case v of QObject ob \<Rightarrow> ob | _ \<Rightarrow> [])"

definition is_string :: "qjson \<Rightarrow> bool" where
  "is_string v = (BRRule.q_type v = TString)"

definition to_string :: "qjson \<Rightarrow> string" where
  "to_string v = (case v of QString t \<Rightarrow> t | _ \<Rightarrow> [])"

definition recorded :: "brd_env \<Rightarrow> (string \<times> qjson) list \<Rightarrow> reinforcement \<Rightarrow> reinforcement" where
  "recorded env values r =
     r\<lparr>rf_args := map (\<lambda>a :: arg. a\<lparr>ar_value := variant_string env (q_member (ar_name a) values)\<rparr>) (rf_args r)\<rparr>"

definition updateRH :: "brd_env \<Rightarrow> string \<Rightarrow> (string \<times> qjson) list \<Rightarrow> brd \<Rightarrow> brd option" where
  "updateRH env reinforceName resultReturnValue s =
     (if \<not> bd_isScanFlag s \<and> getFallbackStatus s \<noteq> BR_FALLBACK_STATUS_IN_PROGRESS
      then case getReinforcement reinforceName s of
             None \<Rightarrow> None
           | Some l \<Rightarrow>
               (let rhReinforcement = recorded env resultReturnValue (ld_config l);
                    s = snd (setCustomRh (de_config env) rhReinforcement RH_last s)
                in Some (if \<not> bd_isFinishRHWrite s then snd (setCustomRh (de_config env) rhReinforcement RH_first s) else s))
      else Some s)"

text \<open>The state of a scanned reinforcement: what became of the operation, and whether the values found
  satisfy the rules of the reinforcement in use.\<close>

definition scan_base :: "(string \<times> qjson) list \<Rightarrow> int" where
  "scan_base resultValues =
     (if resultValues = [] then STATE_UNSCAN
      else if is_string (q_member ''error'' resultValues) then STATE_SCAN_ERROR
      else STATE_SCAN_DONE)"

definition scan_verdict :: "(string \<times> qjson) list \<Rightarrow> loaded option \<Rightarrow> int" where
  "scan_verdict resultValues reinforcement =
     (let state = scan_base resultValues
      in if state AND STATE_SCAN_DONE \<noteq> 0
            \<and> (case reinforcement of None \<Rightarrow> False
               | Some l \<Rightarrow> matchRules (ld_rules l) (q_object (q_member ''return_value'' resultValues)))
         then state OR STATE_SAFE
         else if state \<noteq> STATE_UNSCAN then state OR STATE_UNSAFE else state)"

type_synonym report_item = "string \<times> int \<times> string option \<times> string option"

definition scan_item :: "brd_env \<Rightarrow> operation \<Rightarrow> string \<Rightarrow> brd \<Rightarrow> (report_item \<times> brd) option" where
  "scan_item env operation result s =
     (let resultValues = de_str2json env result;
          base = scan_base resultValues;
          args = (if base = STATE_SCAN_DONE then de_json2str env resultValues else []);
          error = (if base = STATE_SCAN_ERROR then Some (to_string (q_member ''error'' resultValues)) else None);
          name = op_reinforcement_name operation;
          reinforcement = getReinforcement name s
      in map_option (Pair (name, scan_verdict resultValues reinforcement, Some args, error))
           (updateRH env name (q_object (q_member ''return_value'' resultValues)) s))"

fun running_items :: "int \<Rightarrow> string option \<Rightarrow> job \<Rightarrow> int list \<Rightarrow> report_item list option" where
  "running_items state args j [] = Some []"
| "running_items state args j (i # is) =
     (case getOperation i j of
        None \<Rightarrow> None
      | Some t \<Rightarrow> map_option (Cons (op_reinforcement_name t, state, args, None)) (running_items state args j is))"

fun scan_items :: "brd_env \<Rightarrow> job \<Rightarrow> (int \<times> string) list \<Rightarrow> brd \<Rightarrow> (report_item list \<times> brd) option" where
  "scan_items env j [] s = Some ([], s)"
| "scan_items env j ((i, result) # rs) s =
     (case getOperation i j of
        None \<Rightarrow> None
      | Some t \<Rightarrow> (case scan_item env t result s of
            None \<Rightarrow> None
          | Some (item, s) \<Rightarrow> (case scan_items env j rs s of
                None \<Rightarrow> None
              | Some (items, s) \<Rightarrow> Some (item # items, s))))"

text \<open>The slot of both progress signals: the state of each item.\<close>

definition readReinforceItemStatus :: "report_item list \<Rightarrow> brd \<Rightarrow> brd" where
  "readReinforceItemStatus items s =
     s\<lparr>bd_jobResult := fold (\<lambda>(name, state, _) m. qm_insert name state m) items (bd_jobResult s)\<rparr>"

fun job_state_int :: "BRJobState \<Rightarrow> int" where
  "job_state_int BR_JOB_STATE_IDLE = 0"
| "job_state_int BR_JOB_STATE_RUNNING = 1"
| "job_state_int BR_JOB_STATE_DONE = 2"
| "job_state_int BR_JOB_STATE_CANCEL_DONE = 3"

definition emit_report :: "string \<Rightarrow> job_result \<Rightarrow> BRJobState \<Rightarrow> report_item list \<Rightarrow> brd \<Rightarrow> brd" where
  "emit_report signal r state items s =
     readReinforceItemStatus items
       (act (EmitReport signal (jr_finished_operation_num r) (jr_sum_operation_num r) (jr_job_id r) (job_state_int state) items) s)"

definition scanResultHandle :: "brd_env \<Rightarrow> job \<Rightarrow> job_result \<Rightarrow> BRJobState \<Rightarrow> brd \<Rightarrow> brd option" where
  "scanResultHandle env j jobResult state s =
     (case running_items STATE_SCANNING (Some []) j (jr_running_operations jobResult) of
        None \<Rightarrow> None
      | Some running \<Rightarrow> (case scan_items env j (jr_current_finished_operations jobResult) s of
            None \<Rightarrow> None
          | Some (finished, s) \<Rightarrow>
              Some (if bd_isScanFlag s then emit_report ''ScanProgress'' jobResult state (running @ finished) s else s)))"

definition count_state :: "int \<Rightarrow> (string, int) qmap \<Rightarrow> nat" where
  "count_state state m = length (filter (\<lambda>v. v = state) (qm_values m))"

definition writeScanResultLog :: "brd \<Rightarrow> brd" where
  "writeScanResultLog s =
     (let successCount = count_state (STATE_SAFE OR STATE_SCAN_DONE) (bd_jobResult s);
          failCount = count_state (STATE_UNSAFE OR STATE_SCAN_DONE) (bd_jobResult s)
      in SSR_LOG_SUCCESS log_BASELINE_REINFORCEMENT
           (''Scan success '' @ show_nat (successCount + failCount) @ '', safe '' @ show_nat successCount
            @ '', unsafe '' @ show_nat failCount @ ''.'') (bd_scanUniqueName s) s)"

definition finishedScanProgress :: "brd \<Rightarrow> brd" where
  "finishedScanProgress s =
     (let s = (if getFallbackStatus s \<noteq> BR_FALLBACK_STATUS_IN_PROGRESS \<and> bd_isScanFlag s then writeScanResultLog s else s);
          s = s\<lparr>bd_isScanFlag := True, bd_isFinishRHWrite := True\<rparr>
      in if getFallbackStatus s \<noteq> BR_FALLBACK_STATUS_IN_PROGRESS then progressFinished s else s)"

fun scan_signal :: "brd_env \<Rightarrow> job \<Rightarrow> job_signal \<Rightarrow> brd \<Rightarrow> brd option" where
  "scan_signal env j (ProcessChanged r state) s = scanResultHandle env j r state s"
| "scan_signal env j ProcessFinished s = Some (finishedScanProgress s)"

fun scan_signals :: "brd_env \<Rightarrow> job \<Rightarrow> job_signal list \<Rightarrow> brd \<Rightarrow> brd option" where
  "scan_signals env j [] s = Some s"
| "scan_signals env j (x # xs) s = (case scan_signal env j x s of None \<Rightarrow> None | Some s \<Rightarrow> scan_signals env j xs s)"

section \<open>The progress of a reinforcement\<close>

definition reinforce_state :: "(string \<times> qjson) list \<Rightarrow> int" where
  "reinforce_state resultValues =
     (if resultValues = [] then STATE_UNREINFORCE
      else if is_string (q_member ''error'' resultValues) then STATE_REINFORCE_ERROR
      else STATE_REINFORCE_DONE)"

fun reinforce_items :: "brd_env \<Rightarrow> job \<Rightarrow> (int \<times> string) list \<Rightarrow> report_item list option" where
  "reinforce_items env j [] = Some []"
| "reinforce_items env j ((i, result) # rs) =
     (case getOperation i j of
        None \<Rightarrow> None
      | Some t \<Rightarrow>
          (let resultValues = de_str2json env result;
               state = reinforce_state resultValues;
               error = (if state = STATE_REINFORCE_ERROR then Some (to_string (q_member ''error'' resultValues)) else None)
           in map_option (Cons (op_reinforcement_name t, state, None, error)) (reinforce_items env j rs)))"

definition reinforceResultHandle :: "brd_env \<Rightarrow> job \<Rightarrow> job_result \<Rightarrow> BRJobState \<Rightarrow> brd \<Rightarrow> brd option" where
  "reinforceResultHandle env j jobResult state s =
     (case running_items STATE_REINFORCING None j (jr_running_operations jobResult) of
        None \<Rightarrow> None
      | Some running \<Rightarrow> (case reinforce_items env j (jr_current_finished_operations jobResult) of
            None \<Rightarrow> None
          | Some finished \<Rightarrow>
              Some (if getFallbackStatus s \<noteq> BR_FALLBACK_STATUS_IN_PROGRESS
                    then emit_report ''ReinforceProgress'' jobResult state (running @ finished) s else s)))"

definition writeReinforcementResultLog :: "brd \<Rightarrow> brd" where
  "writeReinforcementResultLog s =
     (let successCount = count_state STATE_REINFORCE_DONE (bd_jobResult s);
          failCount = count_state STATE_REINFORCE_ERROR (bd_jobResult s);
          who = bd_reforceUniqueName s
      in if successCount = 0
         then SSR_LOG_ERROR log_BASELINE_REINFORCEMENT (''Reinforcement fail '' @ show_nat failCount) who s
         else if failCount \<noteq> 0 \<and> successCount \<noteq> 0
         then SSR_LOG_ERROR log_BASELINE_REINFORCEMENT
                (''Reinforcement success '' @ show_nat successCount @ '', fail '' @ show_nat failCount) who s
         else SSR_LOG_SUCCESS log_BASELINE_REINFORCEMENT (''Reinforcement success '' @ show_nat successCount) who s)"

definition finishedReinforceProgress :: "brd \<Rightarrow> brd" where
  "finishedReinforceProgress s =
     (let s = (if getFallbackStatus s \<noteq> BR_FALLBACK_STATUS_IN_PROGRESS then writeReinforcementResultLog s else s)
      in progressFinished ((snd (setFallbackStatus BR_FALLBACK_STATUS_IS_FINISHED s))\<lparr>bd_isScanFlag := True\<rparr>))"

fun reinforce_signal :: "brd_env \<Rightarrow> job \<Rightarrow> job_signal \<Rightarrow> brd \<Rightarrow> brd option" where
  "reinforce_signal env j (ProcessChanged r state) s = reinforceResultHandle env j r state s"
| "reinforce_signal env j ProcessFinished s = Some (finishedReinforceProgress s)"

fun reinforce_signals :: "brd_env \<Rightarrow> job \<Rightarrow> job_signal list \<Rightarrow> brd \<Rightarrow> brd option" where
  "reinforce_signals env j [] s = Some s"
| "reinforce_signals env j (x # xs) s = (case reinforce_signal env j x s of None \<Rightarrow> None | Some s \<Rightarrow> reinforce_signals env j xs s)"

section \<open>The start\<close>

text \<open>\<open>init\<close>, on an object whose fields have their initial values: the monitor runs when its switch is on,
  and the first start of all scans everything in use, to keep the values as the first history.\<close>

definition brd_init :: "brd_env \<Rightarrow> brd \<Rightarrow> brd option" where
  "brd_init env s =
     (let s = s\<lparr>bd_monitorTimer := (if getResourceMonitorStatus s = BR_RESOURCE_MONITOR_OPEN then Some True else None)\<rparr>
      in if de_first_exists env then Some s
         else Scan env None (map (\<lambda>l. rf_name (ld_config l)) (getReinforcements s))
                (s\<lparr>bd_isScanFlag := False, bd_isFinishRHWrite := False\<rparr>))"

end
