(* ===== verification/BRProgress.thy ===== *)
theory BRProgress
  imports BRDBus
begin

text \<open>
  The D-Bus object of the baseline reinforcement, and the jobs it starts: what \<open>Scan\<close> starts, what the
  signals of a running scan leave behind, and how the history a scan writes comes back in a fallback.
  The theorems join \<open>BRJob\<close> (which signals a job can send) with \<open>BRDBus\<close> (what the object does with each).
\<close>

section \<open>What a scan starts\<close>

definition usable :: "brd_env \<Rightarrow> brd \<Rightarrow> string \<Rightarrow> bool" where
  "usable env s name \<longleftrightarrow> (case getReinforcement name s of
      None \<Rightarrow> False
    | Some l \<Rightarrow> getReinforcementInterface (de_interface env) (ld_plugin l) (rf_name (ld_config l)) s)"

text \<open>The reinforcements in use are entered under their own names.\<close>

definition named_in_use :: "'a br_scheme \<Rightarrow> bool" where
  "named_in_use s \<longleftrightarrow> (\<forall>n l. getReinforcement n s = Some l \<longrightarrow> rf_name (ld_config l) = n)"

lemma scan_operations_ok:
  assumes "named_in_use s" and "ops_ok j" and "\<forall>name \<in> set names. usable env s name"
  shows "\<exists>j'. scan_operations env ctx names j s = (True, j', s) \<and> ops_ok j' \<and> jb_state j' = jb_state j
     \<and> jb_jobResult j' = jb_jobResult j \<and> jb_jobID j' = jb_jobID j
     \<and> map op_reinforcement_name (qm_values (jb_operations j')) = map op_reinforcement_name (qm_values (jb_operations j)) @ names"
  using assms(2,3)
proof (induction names arbitrary: j)
  case (Cons name names)
  then obtain l where l: "getReinforcement name s = Some l"
      "getReinforcementInterface (de_interface env) (ld_plugin l) (rf_name (ld_config l)) s"
    by (auto simp: usable_def split: option.splits)
  with assms(1) have name: "rf_name (ld_config l) = name" by (simp add: named_in_use_def)
  from addOperation_ok [OF Cons.prems(1), of "ld_plugin l" name] obtain t where
    t: "addOperation (ld_plugin l) name j = (Some t, j\<lparr>jb_operations := jb_operations j @ [(op_id t, t)]\<rparr>)"
      "op_reinforcement_name t = name" "ops_ok (j\<lparr>jb_operations := jb_operations j @ [(op_id t, t)]\<rparr>)" by auto
  have "\<forall>name \<in> set names. usable env s name" using Cons.prems(2) by simp
  from Cons.IH [OF t(3) this] show ?case using l t(1,2) by (auto simp: name qm_values_def)
qed (simp add: qm_values_def)

lemma scan_operations_refused:
  assumes "\<exists>name \<in> set names. \<not> usable env s name"
  shows "\<exists>j' code. scan_operations env ctx names j s = (False, j', scan_failed ctx code s) \<and> jb_state j' = jb_state j
     \<and> code \<in> {ERROR_DAEMON_REINFORCEMENT_NOTFOUND, ERROR_DAEMON_PLUGIN_OF_REINFORCEMENT_NOT_FOUND}"
  using assms
proof (induction names arbitrary: j)
  case (Cons name names)
  show ?case
  proof (cases "usable env s name")
    case True
    then obtain l where l: "getReinforcement name s = Some l"
        "getReinforcementInterface (de_interface env) (ld_plugin l) (rf_name (ld_config l)) s"
      by (auto simp: usable_def split: option.splits)
    have "jb_state (snd (addOperation p n j)) = jb_state j" for p n
      by (simp add: addOperation_def Let_def)
    moreover have "\<exists>name \<in> set names. \<not> usable env s name" using Cons.prems True by auto
    ultimately show ?thesis using Cons.IH [of "snd (addOperation (ld_plugin l) (rf_name (ld_config l)) j)"] l by simp
  next
    case False
    then show ?thesis by (auto simp: usable_def split: option.splits)
  qed
qed simp

lemma br_frame [simp]:
  "getReinforcement n (s\<lparr>bd_scanUniqueName := x\<rparr>) = getReinforcement n s"
  "getReinforcement n (s\<lparr>bd_jobResult := y\<rparr>) = getReinforcement n s"
  "getReinforcement n (s\<lparr>bd_jobCount := z\<rparr>) = getReinforcement n s"
  by (simp_all add: getReinforcement_def)

lemma usable_frame [simp]:
  "usable env (s\<lparr>bd_scanUniqueName := x, bd_jobResult := y, bd_jobCount := z\<rparr>) = usable env s"
  "named_in_use (s\<lparr>bd_scanUniqueName := x, bd_jobResult := y, bd_jobCount := z\<rparr>) = named_in_use s"
  by (simp_all add: usable_def named_in_use_def getReinforcementInterface_def getReinforcement_def fun_eq_iff
      split: option.split)

lemma runAsync_ok:
  assumes "ops_ok j" and "jb_state j = BR_JOB_STATE_IDLE" and "jr_queue_is_changed (jb_jobResult j) = False" and "ws \<noteq> []"
    and "waiting ws = {#}" and "busy ws = {#}"
  shows "\<exists>js. runAsync hash ws j = Some (True, js) \<and> job_inv (mset (map fst (jb_operations j))) js
     \<and> js_signals js = [] \<and> jb_state (js_job js) = BR_JOB_STATE_RUNNING \<and> jb_operations (js_job js) = jb_operations j"
proof -
  from enqueue_all_places [OF assms(4), of hash "qm_values (jb_operations j)"] obtain ws' where
    ws: "enqueue_all hash (qm_values (jb_operations j)) ws = Some ws'"
      "waiting ws' = mset (map fst (jb_operations j))" "busy ws' = {#}"
    by (auto simp: assms(5,6) ops_ok_ids [OF assms(1)])
  then show ?thesis
    using assms(2,3) by (auto simp: runAsync_def runInit_def Let_def job_inv_def)
qed

text \<open>A scan that is asked for starts a job with one operation for each name, in their order, and says
  nothing; or it is refused with one error and one audit line, and then no job has been started: while
  a scan is running, and when one of the names is not in use or cannot be run.\<close>

theorem Scan_starts_or_refuses:
  assumes "named_in_use s" and "bd_workers s = idle_workers n" and "0 < n"
  shows "\<exists>s'. Scan env (Some caller) names s = Some s' \<and>
     (if is_running (bd_scanJob s) \<or> (\<exists>name \<in> set names. \<not> usable env s name)
      then (\<exists>code. d_effects s' = d_effects s @ [ReplyBRError caller code]) \<and> bd_workers s' = bd_workers s
         \<and> is_running (bd_scanJob s') = is_running (bd_scanJob s)
      else d_effects s' = d_effects s \<and> d_log s' = d_log s \<and> bd_jobResult s' = []
         \<and> (\<exists>j. bd_scanJob s' = Some j \<and> jb_state j = BR_JOB_STATE_RUNNING \<and> ops_ok j
              \<and> map op_reinforcement_name (qm_values (jb_operations j)) = names
              \<and> job_inv (mset (map fst (jb_operations j))) \<lparr>js_job = j, js_workers = bd_workers s', js_signals = []\<rparr>))"
proof -
  let ?s = "s\<lparr>bd_scanUniqueName := caller, bd_jobResult := [], bd_jobCount := bd_jobCount s + 1\<rparr>"
  let ?j = "newJob (bd_jobCount s + 1)"
  have j: "ops_ok ?j" "jb_state ?j = BR_JOB_STATE_IDLE" "jr_queue_is_changed (jb_jobResult ?j) = False" "jb_operations ?j = []"
    using ops_ok_create by (simp_all add: newJob_def)
  have Scan: "Scan env (Some caller) names s =
      (if is_running (bd_scanJob s) then Some (scan_failed (Some caller) ERROR_DAEMON_SCAN_IS_RUNNING (s\<lparr>bd_scanUniqueName := caller\<rparr>))
       else case scan_operations env (Some caller) names ?j ?s of
         (ok, j, s) \<Rightarrow> if \<not> ok then Some (s\<lparr>bd_scanJob := Some j\<rparr>)
           else case runAsync (de_hash env) (bd_workers s) j of None \<Rightarrow> None
             | Some (started, js) \<Rightarrow> Some (if started then s\<lparr>bd_scanJob := Some (js_job js), bd_workers := js_workers js\<rparr>
                 else scan_failed (Some caller) ERROR_DAEMON_SCAN_ALL_JOB_FAILED (s\<lparr>bd_scanJob := Some (js_job js), bd_workers := js_workers js\<rparr>)))"
    by (simp add: Scan_def Let_def getCallerUniqueName_def job_create_def split: prod.splits option.splits)
  consider (running) "is_running (bd_scanJob s)"
    | (refused) "\<not> is_running (bd_scanJob s)" "\<exists>name \<in> set names. \<not> usable env ?s name"
    | (started) "\<not> is_running (bd_scanJob s)" "\<forall>name \<in> set names. usable env ?s name" by blast
  then show ?thesis
  proof cases
    case running
    then show ?thesis by (simp add: Scan scan_failed_def br_reply_error_def act_def SSR_LOG_ERROR_def SSR_LOG_def write_log_def)
  next
    case refused
    from scan_operations_refused [OF refused(2), of "Some caller" ?j] obtain j' code where
      "scan_operations env (Some caller) names ?j ?s = (False, j', scan_failed (Some caller) code ?s)" "jb_state j' = BR_JOB_STATE_IDLE"
      by (auto simp: j(2))
    then show ?thesis
      using refused by (auto simp: Scan scan_failed_def br_reply_error_def is_running_def act_def SSR_LOG_ERROR_def SSR_LOG_def write_log_def)
  next
    case started
    have "named_in_use ?s" using assms(1) by simp
    from scan_operations_ok [OF this j(1) started(2), of "Some caller"] obtain j' where
      j': "scan_operations env (Some caller) names ?j ?s = (True, j', ?s)" "ops_ok j'" "jb_state j' = BR_JOB_STATE_IDLE"
        "jb_jobResult j' = jb_jobResult ?j" "map op_reinforcement_name (qm_values (jb_operations j')) = names"
      by (auto simp: j(2,4) qm_values_def)
    have "idle_workers n \<noteq> []" using assms(3) by (simp add: idle_workers_def)
    from runAsync_ok [OF j'(2,3) _ this, of "de_hash env"] j'(4) j(3) obtain js where
      js: "runAsync (de_hash env) (idle_workers n) j' = Some (True, js)" "job_inv (mset (map fst (jb_operations j'))) js"
        "js_signals js = []" "jb_state (js_job js) = BR_JOB_STATE_RUNNING" "jb_operations (js_job js) = jb_operations j'"
      by (auto simp: idle_workers_empty)
    have "jb_jobID (js_job js) = jb_jobID j'" using js(1) j'(3) by (auto simp: runAsync_def runInit_def Let_def)
    then have "ops_ok (js_job js)" using j'(2) js(5) by (simp add: ops_ok_def)
    moreover have "job_inv (mset (map fst (jb_operations j'))) \<lparr>js_job = js_job js, js_workers = js_workers js, js_signals = []\<rparr>"
      using js(2,3) by (simp add: job_inv_def)
    ultimately show ?thesis
      using started j'(1,5) js assms(2) by (simp add: Scan)
  qed
qed

section \<open>What the signals of a job say\<close>

fun signal_results :: "job_signal \<Rightarrow> (int \<times> string) list" where
  "signal_results (ProcessChanged r st) = jr_current_finished_operations r"
| "signal_results ProcessFinished = []"

definition results :: "job_signal list \<Rightarrow> (int \<times> string) list" where
  "results signals = concat (map signal_results signals)"

lemma results_simps [simp]: "results [] = []" "results (x # xs) = signal_results x @ results xs"
    "results (xs @ ys) = results xs @ results ys"
  by (simp_all add: results_def)

lemma results_delivered: "map fst (results ss) = delivered ss"
proof (induction ss)
  case (Cons x ss)
  then show ?case by (cases x) simp_all
qed simp

text \<open>A report names operations of the job only, and as running none that has been reported as finished.\<close>

fun reports_ok :: "int list \<Rightarrow> int list \<Rightarrow> job_signal list \<Rightarrow> bool" where
  "reports_ok ids seen [] = True"
| "reports_ok ids seen (ProcessFinished # ss) = reports_ok ids seen ss"
| "reports_ok ids seen (ProcessChanged r st # ss) \<longleftrightarrow>
     set (jr_running_operations r) \<subseteq> set ids \<and> set (jr_running_operations r) \<inter> set seen = {}
     \<and> set (map fst (jr_current_finished_operations r)) \<subseteq> set ids
     \<and> reports_ok ids (seen @ map fst (jr_current_finished_operations r)) ss"

lemma reports_ok_append:
  "reports_ok ids seen (xs @ ys) \<longleftrightarrow> reports_ok ids seen xs \<and> reports_ok ids (seen @ delivered xs) ys"
  by (induction ids seen xs rule: reports_ok.induct) auto

lemma job_inv_running:
  assumes "job_inv (mset ids) s" and "distinct ids"
  shows "set (jr_running_operations (jb_jobResult (js_job s))) \<subseteq> set ids"
    "set (jr_running_operations (jb_jobResult (js_job s))) \<inter> set (delivered (js_signals s)) = {}"
    "set (map fst (jr_current_finished_operations (jb_jobResult (js_job s)))) \<subseteq> set ids"
proof -
  let ?r = "jb_jobResult (js_job s)"
  have ids: "waiting (js_workers s) + mset (jr_running_operations ?r) + mset (map fst (jr_current_finished_operations ?r))
      + mset (delivered (js_signals s)) = mset ids"
    using assms(1) by (simp add: job_inv_def Let_def)
  have sets: "set ids = set_mset (waiting (js_workers s) + mset (jr_running_operations ?r)
      + mset (map fst (jr_current_finished_operations ?r)) + mset (delivered (js_signals s)))"
    by (simp only: ids set_mset_mset)
  then show "set (jr_running_operations ?r) \<subseteq> set ids" "set (map fst (jr_current_finished_operations ?r)) \<subseteq> set ids" by auto
  have "count (mset (jr_running_operations ?r)) i + count (mset (delivered (js_signals s))) i \<le> count (mset ids) i" for i
    unfolding ids [symmetric] by simp
  moreover have "count (mset ids) i \<le> 1" for i using assms(2) unfolding distinct_count_atmost_1 by simp
  ultimately have one: "count (mset (jr_running_operations ?r)) i + count (mset (delivered (js_signals s))) i \<le> 1" for i
    by (meson le_trans)
  show "set (jr_running_operations ?r) \<inter> set (delivered (js_signals s)) = {}"
  proof (rule ccontr)
    assume "set (jr_running_operations ?r) \<inter> set (delivered (js_signals s)) \<noteq> {}"
    then obtain i where "0 < count (mset (jr_running_operations ?r)) i" "0 < count (mset (delivered (js_signals s))) i"
      by (auto simp: count_greater_zero_iff)
    with one [of i] show False by linarith
  qed
qed

lemma reports_ok_run:
  "job_run s ls s' \<Longrightarrow> distinct ids \<Longrightarrow> job_inv (mset ids) s \<Longrightarrow> reports_ok ids [] (js_signals s) \<Longrightarrow> reports_ok ids [] (js_signals s')"
proof (induction rule: job_run.induct)
  case (run_snoc s ls s' l s'')
  have inv: "job_inv (mset ids) s'" by (rule job_inv_job_run [OF run_snoc(1,4,5)])
  have "reports_ok ids [] (js_signals s')" using run_snoc by blast
  with run_snoc(2) job_inv_running [OF inv run_snoc(4)] show ?case
    by (cases rule: job_step.cases) (auto simp: idleCheckOperation_def Let_def reports_ok_append)
qed

lemma job_operations_run: "job_run s ls s' \<Longrightarrow> jb_operations (js_job s') = jb_operations (js_job s)"
proof (induction rule: job_run.induct)
  case (run_snoc s ls s' l s'')
  from run_snoc(2) have "jb_operations (js_job s'') = jb_operations (js_job s')"
    by (cases rule: job_step.cases)
       (simp_all add: begin_operation_def end_operation_def cancel_def idleCheckOperation_def Let_def)
  with run_snoc(3) show ?case by simp
qed simp

section \<open>What the object makes of them\<close>

definition op_name :: "job \<Rightarrow> int \<Rightarrow> string" where
  "op_name j i = (case getOperation i j of None \<Rightarrow> [] | Some t \<Rightarrow> op_reinforcement_name t)"

definition verdict_of :: "brd_env \<Rightarrow> job \<Rightarrow> brd \<Rightarrow> int \<times> string \<Rightarrow> int" where
  "verdict_of env j s = (\<lambda>(i, result). scan_verdict (de_str2json env result) (getReinforcement (op_name j i) s))"

definition item_state :: "report_item \<Rightarrow> string \<times> int" where
  "item_state it = (fst it, fst (snd it))"

lemma running_items_total:
  "\<forall>i \<in> set is. getOperation i j \<noteq> None \<Longrightarrow>
     \<exists>items. running_items st args j is = Some items \<and> map item_state items = map (\<lambda>i. (op_name j i, st)) is"
  by (induction "is") (auto simp: op_name_def item_state_def)

lemma scan_item_quiet:
  "bd_isScanFlag s \<Longrightarrow> \<exists>rest. scan_item env t result s =
     Some ((op_reinforcement_name t, scan_verdict (de_str2json env result) (getReinforcement (op_reinforcement_name t) s), rest), s)"
  by (simp add: scan_item_def updateRH_def Let_def)

lemma scan_items_total:
  "bd_isScanFlag s \<Longrightarrow> \<forall>i \<in> set (map fst rs). getOperation i j \<noteq> None \<Longrightarrow>
     \<exists>items. scan_items env j rs s = Some (items, s) \<and> map item_state items = map (\<lambda>x. (op_name j (fst x), verdict_of env j s x)) rs"
proof (induction rs)
  case (Cons x rs)
  obtain i result where x: "x = (i, result)" by force
  with Cons.prems obtain t where t: "getOperation i j = Some t" by auto
  with scan_item_quiet [OF Cons.prems(1), of env t result] Cons x show ?case
    by (auto simp: op_name_def verdict_of_def item_state_def)
qed simp

lemma fold_insert_value:
  "qm_ok m \<Longrightarrow> qm_ok (fold (\<lambda>(n, v, _) m. qm_insert n v m) items m)
     \<and> qm_value k (fold (\<lambda>(n, v, _) m. qm_insert n v m) items m) =
       (case map_of (rev (map item_state items)) k of None \<Rightarrow> qm_value k m | Some v \<Rightarrow> Some v)"
proof (induction items rule: rev_induct)
  case (snoc it items)
  obtain n v rest where it: "it = (n, v, rest)" by (metis prod_cases3)
  have "qm_ok (fold (\<lambda>(n, v, _) m. qm_insert n v m) items m)" using snoc by blast
  then show ?case using snoc by (simp add: it item_state_def qm_ok_insert qm_value_insert)
qed simp

lemma emit_report_frame [simp]:
  "br_reinforcements (emit_report g r st items s) = br_reinforcements s" "bd_isScanFlag (emit_report g r st items s) = bd_isScanFlag s"
  "bd_jobResult (emit_report g r st items s) = fold (\<lambda>(n, v, _) m. qm_insert n v m) items (bd_jobResult s)"
  by (simp_all add: emit_report_def readReinforceItemStatus_def act_def)

lemma setFallbackStatus_frame [simp]:
  "br_reinforcements (snd (setFallbackStatus v s)) = br_reinforcements (s :: brd)" "bd_isScanFlag (snd (setFallbackStatus v s)) = bd_isScanFlag s"
  "bd_jobResult (snd (setFallbackStatus v s)) = bd_jobResult s" "bd_isFinishRHWrite (snd (setFallbackStatus v s)) = bd_isFinishRHWrite s"
  by (simp_all add: setFallbackStatus_def setInteger_def)

lemma finishedScanProgress_frame [simp]:
  "br_reinforcements (finishedScanProgress s) = br_reinforcements s" "bd_isScanFlag (finishedScanProgress s)"
  "bd_jobResult (finishedScanProgress s) = bd_jobResult s"
  by (simp_all add: finishedScanProgress_def progressFinished_def writeScanResultLog_def Let_def act_def
      SSR_LOG_SUCCESS_def SSR_LOG_def write_log_def)

text \<open>One report: the states of the operations reported before stay, those reported now are entered.\<close>

lemma scanResultHandle_total:
  assumes "bd_isScanFlag s" and "\<forall>i \<in> set ids. getOperation i j \<noteq> None" and "inj_on (op_name j) (set ids)" and "qm_ok (bd_jobResult s)"
    and "set (jr_running_operations r) \<subseteq> set ids" and "set (map fst (jr_current_finished_operations r)) \<subseteq> set ids"
    and "distinct (map fst (jr_current_finished_operations r))"
  shows "\<exists>s'. scanResultHandle env j r st s = Some s' \<and> br_reinforcements s' = br_reinforcements s \<and> bd_isScanFlag s' \<and> qm_ok (bd_jobResult s')
     \<and> (\<forall>x \<in> set (jr_current_finished_operations r). qm_value (op_name j (fst x)) (bd_jobResult s') = Some (verdict_of env j s x))
     \<and> (\<forall>i \<in> set ids. i \<notin> set (jr_running_operations r) \<and> i \<notin> set (map fst (jr_current_finished_operations r)) \<longrightarrow>
          qm_value (op_name j i) (bd_jobResult s') = qm_value (op_name j i) (bd_jobResult s))
     \<and> (\<forall>n. n \<notin> op_name j ` set ids \<longrightarrow> qm_value n (bd_jobResult s') = qm_value n (bd_jobResult s))"
proof -
  let ?run = "jr_running_operations r" and ?fin = "jr_current_finished_operations r"
  from running_items_total [of ?run j STATE_SCANNING "Some []"] assms(2,5) obtain running where
    run: "running_items STATE_SCANNING (Some []) j ?run = Some running" "map item_state running = map (\<lambda>i. (op_name j i, STATE_SCANNING)) ?run"
    by blast
  from scan_items_total [OF assms(1), of ?fin j env] assms(2,6) obtain finished where
    fin: "scan_items env j ?fin s = Some (finished, s)" "map item_state finished = map (\<lambda>x. (op_name j (fst x), verdict_of env j s x)) ?fin"
    by blast
  let ?s = "emit_report ''ScanProgress'' r st (running @ finished) s"
  have handle: "scanResultHandle env j r st s = Some ?s" using run(1) fin(1) assms(1) by (simp add: scanResultHandle_def)
  define Fin where "Fin = rev (map (\<lambda>x. (op_name j (fst x), verdict_of env j s x)) ?fin)"
  define Run where "Run = rev (map (\<lambda>i. (op_name j i, STATE_SCANNING)) ?run)"
  have new: "qm_value k (bd_jobResult ?s) = (case map_of (Fin @ Run) k of None \<Rightarrow> qm_value k (bd_jobResult s) | Some v \<Rightarrow> Some v)" for k
    using fold_insert_value [OF assms(4), of "running @ finished" k] by (simp add: run(2) fin(2) Fin_def Run_def del: map_of_append)
  have keys: "fst ` set Fin = op_name j ` set (map fst ?fin)" "fst ` set Run = op_name j ` set ?run"
    by (auto simp: Fin_def Run_def image_image)
  have "inj_on (op_name j) (set (map fst ?fin))" by (rule inj_on_subset [OF assms(3,6)])
  then have dist: "distinct (map fst Fin)"
    using assms(7) by (simp add: Fin_def rev_map [symmetric] comp_def distinct_map inj_on_def) 
  have now: "qm_value (op_name j (fst x)) (bd_jobResult ?s) = Some (verdict_of env j s x)" if "x \<in> set ?fin" for x
  proof -
    have "(op_name j (fst x), verdict_of env j s x) \<in> set Fin" using that by (auto simp: Fin_def)
    then have "map_of Fin (op_name j (fst x)) = Some (verdict_of env j s x)" by (rule map_of_is_SomeI [OF dist])
    then show ?thesis unfolding new by simp
  qed
  have none: "map_of (Fin @ Run) n = None" if "n \<notin> op_name j ` set (map fst ?fin)" "n \<notin> op_name j ` set ?run" for n
    using that keys by (simp add: map_of_eq_None_iff map_add_None del: set_map)
  have other: "qm_value n (bd_jobResult ?s) = qm_value n (bd_jobResult s)"
    if "n \<notin> op_name j ` set (map fst ?fin)" "n \<notin> op_name j ` set ?run" for n unfolding new none [OF that] by simp
  have "qm_value (op_name j i) (bd_jobResult ?s) = qm_value (op_name j i) (bd_jobResult s)"
    if "i \<in> set ids" "i \<notin> set ?run" "i \<notin> set (map fst ?fin)" for i
    by (rule other) (use that inj_on_image_mem_iff [OF assms(3) that(1)] assms(5,6) in blast)+
  moreover have "qm_value n (bd_jobResult ?s) = qm_value n (bd_jobResult s)" if "n \<notin> op_name j ` set ids" for n
    by (rule other) (use that assms(5,6) in blast)+
  moreover have "qm_ok (bd_jobResult ?s)"
    unfolding emit_report_frame(3) by (rule fold_insert_value [OF assms(4), THEN conjunct1])
  moreover have "br_reinforcements ?s = br_reinforcements s" "bd_isScanFlag ?s" using assms(1) by simp_all
  ultimately show ?thesis using handle now by blast
qed

text \<open>All of them: every result entered, nothing else touched.\<close>

lemma scan_signals_verdicts:
  assumes "\<forall>i \<in> set ids. getOperation i j \<noteq> None" and "inj_on (op_name j) (set ids)"
  shows "bd_isScanFlag s \<Longrightarrow> qm_ok (bd_jobResult s) \<Longrightarrow> reports_ok ids (map fst pre) ss \<Longrightarrow> distinct (map fst (pre @ results ss))
     \<Longrightarrow> set (map fst pre) \<subseteq> set ids
     \<Longrightarrow> \<forall>x \<in> set pre. qm_value (op_name j (fst x)) (bd_jobResult s) = Some (verdict_of env j s x)
     \<Longrightarrow> \<exists>s'. scan_signals env j ss s = Some s' \<and> br_reinforcements s' = br_reinforcements s \<and> bd_isScanFlag s'
       \<and> (\<forall>x \<in> set (pre @ results ss). qm_value (op_name j (fst x)) (bd_jobResult s') = Some (verdict_of env j s x))
       \<and> (\<forall>n. n \<notin> op_name j ` set ids \<longrightarrow> qm_value n (bd_jobResult s') = qm_value n (bd_jobResult s))"
proof (induction ss arbitrary: s pre)
  case (Cons x ss)
  have verdict_cong: "verdict_of env j t = verdict_of env j s" if "br_reinforcements t = br_reinforcements s" for t
    using that by (simp add: verdict_of_def getReinforcement_def)
  show ?case
  proof (cases x)
    case (ProcessChanged r st)
    let ?fin = "jr_current_finished_operations r" and ?run = "jr_running_operations r"
    have sub: "set ?run \<subseteq> set ids" "set (map fst ?fin) \<subseteq> set ids" "set ?run \<inter> set (map fst pre) = {}"
        "reports_ok ids (map fst (pre @ ?fin)) ss"
      using Cons.prems(3) by (simp_all add: ProcessChanged)
    have dist: "distinct (map fst ((pre @ ?fin) @ results ss))" using Cons.prems(4) by (simp add: ProcessChanged)
    then have "distinct (map fst ?fin)" by simp
    from scanResultHandle_total [OF Cons.prems(1) assms Cons.prems(2) sub(1,2) this, of env st] obtain t where
      t: "scanResultHandle env j r st s = Some t" "br_reinforcements t = br_reinforcements s" "bd_isScanFlag t" "qm_ok (bd_jobResult t)"
        and now: "\<forall>x \<in> set ?fin. qm_value (op_name j (fst x)) (bd_jobResult t) = Some (verdict_of env j s x)"
        and old: "\<forall>i \<in> set ids. i \<notin> set ?run \<and> i \<notin> set (map fst ?fin) \<longrightarrow>
          qm_value (op_name j i) (bd_jobResult t) = qm_value (op_name j i) (bd_jobResult s)"
        and other: "\<forall>n. n \<notin> op_name j ` set ids \<longrightarrow> qm_value n (bd_jobResult t) = qm_value n (bd_jobResult s)" by blast
    have "qm_value (op_name j (fst x)) (bd_jobResult t) = Some (verdict_of env j s x)" if x: "x \<in> set pre" for x
    proof -
      have "fst x \<in> set (map fst pre)" using x by simp
      moreover have "set (map fst pre) \<inter> set (map fst ?fin) = {}" using dist by auto
      ultimately have "qm_value (op_name j (fst x)) (bd_jobResult t) = qm_value (op_name j (fst x)) (bd_jobResult s)"
        using old sub(3) Cons.prems(5) by blast
      then show ?thesis using Cons.prems(6) x by simp
    qed
    with now have pre: "\<forall>x \<in> set (pre @ ?fin). qm_value (op_name j (fst x)) (bd_jobResult t) = Some (verdict_of env j t x)"
      by (auto simp: verdict_cong [OF t(2)])
    have "set (map fst (pre @ ?fin)) \<subseteq> set ids" using Cons.prems(5) sub(2) by simp
    from Cons.IH [OF t(3,4) sub(4) dist this pre] obtain s' where
      "scan_signals env j ss t = Some s'" "br_reinforcements s' = br_reinforcements t" "bd_isScanFlag s'"
      "\<forall>x \<in> set ((pre @ ?fin) @ results ss). qm_value (op_name j (fst x)) (bd_jobResult s') = Some (verdict_of env j t x)"
      "\<forall>n. n \<notin> op_name j ` set ids \<longrightarrow> qm_value n (bd_jobResult s') = qm_value n (bd_jobResult t)" by blast
    then show ?thesis
      using other unfolding verdict_cong [OF t(2)] by (intro exI [of _ s']) (simp add: ProcessChanged t(1,2))
  next
    case ProcessFinished
    have "reports_ok ids (map fst pre) ss" "distinct (map fst (pre @ results ss))"
      using Cons.prems(3,4) by (simp_all add: ProcessFinished)
    then show ?thesis
      using Cons.IH [of "finishedScanProgress s" pre, unfolded verdict_cong [OF finishedScanProgress_frame(1)]] Cons.prems(2,5,6)
      by (simp add: ProcessFinished)
  qed
qed simp

text \<open>The operations of a job by their numbers.\<close>

lemma ops_ok_getOperation:
  assumes "ops_ok j"
  shows "(getOperation i j \<noteq> None) = (i \<in> set (map fst (jb_operations j)))"
    "k < length (jb_operations j) \<Longrightarrow> op_name j (int k + 1) = op_reinforcement_name (qm_values (jb_operations j) ! k)"
proof -
  show "(getOperation i j \<noteq> None) = (i \<in> set (map fst (jb_operations j)))"
    by (auto simp: getOperation_def qm_value_def map_of_eq_None_iff image_iff)
  assume k: "k < length (jb_operations j)"
  have "map fst (jb_operations j) ! k = int k + 1" using assms k by (simp add: ops_ok_def)
  then have "(int k + 1, snd (jb_operations j ! k)) \<in> set (jb_operations j)" using k by (metis nth_map nth_mem prod.collapse)
  then have "getOperation (int k + 1) j = Some (snd (jb_operations j ! k))"
    using ops_ok_distinct [OF assms] by (simp add: getOperation_def qm_value_def map_of_is_SomeI)
  then show "op_name j (int k + 1) = op_reinforcement_name (qm_values (jb_operations j) ! k)"
    using k by (simp add: op_name_def qm_values_def)
qed

lemma op_name_inj:
  assumes "ops_ok j" and "distinct (map op_reinforcement_name (qm_values (jb_operations j)))"
  shows "inj_on (op_name j) (set (map fst (jb_operations j)))"
    "op_name j ` set (map fst (jb_operations j)) = set (map op_reinforcement_name (qm_values (jb_operations j)))"
proof -
  let ?n = "length (jb_operations j)" and ?names = "map op_reinforcement_name (qm_values (jb_operations j))"
  have ids: "set (map fst (jb_operations j)) = (\<lambda>k. int k + 1) ` {..<?n}"
    using assms(1) by (simp add: ops_ok_def atLeast0LessThan)
  have name: "op_name j (int k + 1) = ?names ! k" if "k < ?n" for k
    using ops_ok_getOperation(2) [OF assms(1) that] that by (simp add: qm_values_def)
  have len: "length ?names = ?n" by (simp add: qm_values_def)
  show "inj_on (op_name j) (set (map fst (jb_operations j)))"
  proof (rule inj_onI)
    fix a b assume "a \<in> set (map fst (jb_operations j))" "b \<in> set (map fst (jb_operations j))" and eq: "op_name j a = op_name j b"
    then obtain x y where xy: "a = int x + 1" "x < ?n" "b = int y + 1" "y < ?n" unfolding ids by blast
    with eq have "?names ! x = ?names ! y" by (simp only: name)
    with xy show "a = b" using nth_eq_iff_index_eq [OF assms(2), of x y] by (simp only: len)
  qed
  have "op_name j ` set (map fst (jb_operations j)) = (!) ?names ` {..<?n}"
    unfolding ids image_image by (rule image_cong) (simp_all add: name)
  also have "\<dots> = set ?names" unfolding len [symmetric] by (metis atLeast0LessThan list.set_map map_nth set_upt)
  finally show "op_name j ` set (map fst (jb_operations j)) = set ?names" .
qed


section \<open>The history and the fallback\<close>

definition arg_json :: "arg \<Rightarrow> qjson" where
  "arg_json a = (if (case ar_input_example a of None \<Rightarrow> [] | Some e \<Rightarrow> e) = [] then str2jsonValue (ar_value a) else QString (ar_value a))"

lemma parse_arg_eq: "parse_arg a param = qm_insert (ar_name a) (arg_json a) param"
  by (simp add: parse_arg_def arg_json_def Let_def)

text \<open>The file of the history: every reinforcement and every parameter once, and no examples.\<close>

definition history_ok :: "reinforcement list \<Rightarrow> bool" where
  "history_ok rh \<longleftrightarrow> ra_ok rh \<and> (\<forall>r \<in> set rh. \<forall>a \<in> set (rf_args r). ar_input_example a = None)"

lemma parse_plain:
  assumes "distinct (map ar_name as)" and "\<forall>a \<in> set as. ar_input_example a = None"
  shows "qm_ok param \<Longrightarrow> qm_ok (parseJsonParam as param) \<and> qm_value m (parseJsonParam as param) =
     (case arg_value m as of None \<Rightarrow> qm_value m param | Some v \<Rightarrow> Some (str2jsonValue v))"
  using assms
proof (induction as arbitrary: param)
  case (Cons a as)
  have "arg_value (ar_name a) as = None" using Cons.prems(2) by (auto simp: arg_value_def find_None_iff image_iff)
  moreover have "qm_ok (parse_arg a param)" using Cons.prems(1) by (simp add: parse_arg_eq qm_ok_insert)
  ultimately show ?case
    using Cons.IH [of "parse_arg a param"] Cons.prems
    by (auto simp: parseJsonParam_def parse_arg_eq qm_value_insert arg_json_def split: option.splits)
qed (simp add: parseJsonParam_def)

lemma parse_ok: "qm_ok param \<Longrightarrow> qm_ok (parseJsonParam as param)"
  unfolding parseJsonParam_def by (induction as arbitrary: param) (simp_all add: parse_arg_eq qm_ok_insert)

definition over_history :: "string \<Rightarrow> reinforcement list \<Rightarrow> (string \<times> qjson) list \<Rightarrow> (string \<times> qjson) list" where
  "over_history name rh param = fold (\<lambda>r param. if rf_name r \<noteq> name then param else parseJsonParam (rf_args r) param) rh param"

lemma over_history_value:
  "history_ok rh \<Longrightarrow> qm_ok param \<Longrightarrow> qm_value m (over_history name rh param) =
     (case overrides rh name m of None \<Rightarrow> qm_value m param | Some v \<Rightarrow> Some (str2jsonValue v))"
proof (induction rh arbitrary: param)
  case (Cons r rh)
  have rest: "history_ok rh" and r: "distinct (map ar_name (rf_args r))" "\<forall>a \<in> set (rf_args r). ar_input_example a = None"
      "rf_name r \<notin> rf_name ` set rh"
    using Cons.prems(1) by (auto simp: history_ok_def ra_ok_def)
  show ?case
  proof (cases "rf_name r = name")
    case True
    then have "overrides rh name m = None" using overrides_fresh [of name rh m] r(3) by simp
    then show ?thesis
      using Cons.IH [OF rest parse_ok [OF Cons.prems(2)], of "rf_args r"] parse_plain [OF r(1,2) Cons.prems(2), of m] True
      by (simp add: over_history_def)
  next
    case False
    then show ?thesis using Cons.IH [OF rest Cons.prems(2)] by (simp add: over_history_def)
  qed
qed (simp add: over_history_def)

text \<open>What the object writes is such a file.\<close>

lemma set_arg_value_plain:
  "\<forall>a \<in> set as. ar_input_example a = None \<Longrightarrow> \<forall>a \<in> set (set_arg_value n v as). ar_input_example a = None"
  by (induction n v as rule: set_arg_value.induct) auto

lemma join_args_plain: "\<forall>a \<in> set as. ar_input_example a = None \<Longrightarrow> \<forall>a \<in> set (join_args from as). ar_input_example a = None"
proof (induction "from" arbitrary: as)
  case (Cons b bs)
  from Cons.IH [OF set_arg_value_plain [OF Cons.prems]] show ?case by (simp add: join_args_def)
qed (simp add: join_args_def)

lemma merge_custom_plain:
  "\<forall>r \<in> set rh. \<forall>a \<in> set (rf_args r). ar_input_example a = None \<Longrightarrow>
     \<forall>r \<in> set (merge_custom q rh). \<forall>a \<in> set (rf_args r). ar_input_example a = None"
proof (induction q rh rule: merge_custom.induct)
  case (2 q c cs)
  have "\<forall>a \<in> set (rf_args (joinReinforcement q c)). ar_input_example a = None"
    unfolding joinReinforcement_def using join_args_plain [of "rf_args c" "rf_args q"] 2(2) by simp
  with 2 show ?case by auto
qed (auto simp: merge_entry_def)

lemma merge_custom_history:
  "history_ok rh \<Longrightarrow> distinct (map ar_name (rf_args q)) \<Longrightarrow> history_ok (merge_custom q rh)"
  using merge_custom_overrides [of rh q] merge_custom_plain [of rh q] unfolding history_ok_def by blast

lemma recorded_fields [simp]: "rf_name (recorded env values r) = rf_name r"
    "map ar_name (rf_args (recorded env values r)) = map ar_name (rf_args r)"
  by (simp_all add: recorded_def comp_def)

lemma recorded_value:
  "m \<in> ar_name ` set (rf_args r) \<Longrightarrow> arg_value m (rf_args (recorded env values r)) = Some (variant_string env (q_member m values))"
proof -
  have "m \<in> ar_name ` set as \<Longrightarrow>
      arg_value m (map (\<lambda>a :: arg. a\<lparr>ar_value := variant_string env (q_member (ar_name a) values)\<rparr>) as) = Some (variant_string env (q_member m values))" for as
    by (induction as) auto
  then show "m \<in> ar_name ` set (rf_args r) \<Longrightarrow> ?thesis" by (simp add: recorded_def)
qed

lemma str2jsonValue_texts:
  "str2jsonValue (if b then ''true'' else ''false'') = QBool b"
  "t \<notin> {''true'', ''false''} \<Longrightarrow> str2jsonValue t = (if t \<noteq> [] \<and> list_all is_digit_char t then QDouble (of_int (toInt t)) else QString t)"
  by (cases b) (simp_all add: str2jsonValue_def)

text \<open>What the file holds once a value has been recorded.\<close>

lemma updateRH_history:
  assumes "updateRH env name values s = Some s'" and "getReinforcement name s = Some l" and "rf_name (ld_config l) = name"
    and "\<not> bd_isScanFlag s" and "getFallbackStatus s \<noteq> BR_FALLBACK_STATUS_IN_PROGRESS" and "ev_rh_writable (de_config env)"
  shows "readRhFromFile RH_last s' = merge_custom (recorded env values (ld_config l)) (readRhFromFile RH_last s)"
    "br_reinforcements s' = br_reinforcements s"
  using assms by (auto simp: updateRH_def Let_def setCustomRh_def writeRhToFile_def readRhFromFile_def split: if_splits)

lemma fallback_param:
  assumes "qm_ok (br_reinforcements s)" and "named_in_use s"
  shows "\<exists>base. json_param name (s\<lparr>bd_fallbackMethod := BR_FALLBACK_METHOD_LAST\<rparr>) =
     Some (over_history name (readRhFromFile RH_last s) base) \<and> qm_ok base"
proof -
  let ?base = "fold (\<lambda>l param. if rf_name (ld_config l) \<noteq> name then param else parseJsonParam (rf_args (ld_config l)) param) (getReinforcements s) []"
  have base: "qm_ok m \<Longrightarrow> qm_ok (fold (\<lambda>l param. if rf_name (ld_config l) \<noteq> name then param else parseJsonParam (rf_args (ld_config l)) param) ls m)" for ls m
    by (induction ls arbitrary: m) (simp_all add: parse_ok)
  have "qm_ok ?base" by (rule base) simp
  moreover have "json_param name (s\<lparr>bd_fallbackMethod := BR_FALLBACK_METHOD_LAST\<rparr>) = Some (over_history name (readRhFromFile RH_last s) ?base)"
    by (simp add: json_param_def over_history_def Let_def getReinforcements_def readRhFromFile_def)
  ultimately show ?thesis by blast
qed


section \<open>Samples\<close>

definition sample_brd :: brd where
  "sample_brd = br.extend (loadReinforcements sample_br)
     (brd.fields [] None (Some True) None None 0 (idle_workers 1) [] True True 2 [] [] [] False [])"

definition sample_de :: brd_env where
  "sample_de = \<lparr>de_config = sample_env, de_interface = (\<lambda>_ _. True), de_json2str = (\<lambda>_. ''{}''),
     de_str2json = (\<lambda>t. if t = [] then [] else [(''return_value'', QObject [(''max-days'', QDouble 60)])]),
     de_double2str = (\<lambda>d. show_nat (nat \<lfloor>d\<rfloor>)), de_hash = length, de_parse = (\<lambda>_. None), de_strategy_writable = True,
     de_check_ra = (\<lambda>_. True), de_first_exists = True\<rparr>"

lemma sample_brd_fields:
  "br_reinforcements sample_brd = br_reinforcements (loadReinforcements sample_br)" "br_settings sample_brd = []"
  "bd_workers sample_brd = idle_workers 1" "bd_scanJob sample_brd = None" "bd_reinforceJob sample_brd = None"
  "bd_isScanFlag sample_brd" "bd_jobResult sample_brd = []" "bd_jobCount sample_brd = 0" "bd_monitorTimer sample_brd = Some True"
  using sample_br_config(1) loadReinforcements_fields(2) [of sample_br]
  by (simp_all add: sample_brd_def br.extend_def brd.fields_def)

lemma sample_brd_usable: "usable sample_de sample_brd ''password-expired''"
  by code_simp

lemma sample_named: "named_in_use sample_brd"
  unfolding named_in_use_def
proof (intro allI impI)
  fix n l
  assume got: "getReinforcement n sample_brd = Some l"
  have keys: "fst ` set (br_reinforcements sample_brd) = {''password-expired''}" by code_simp
  have first: "map_option (\<lambda>l. rf_name (ld_config l)) (getReinforcement ''password-expired'' sample_brd) = Some ''password-expired''"
    by code_simp
  from got have "map_of (br_reinforcements sample_brd) n = Some l"
    by (simp only: getReinforcement_def qm_value_def)
  then have "n \<in> fst ` set (br_reinforcements sample_brd)" by (rule map_of_SomeD [THEN image_eqI [of n fst, rotated]]) simp
  then have n: "n = ''password-expired''" unfolding keys by (rule singletonD)
  show "rf_name (ld_config l) = n" using first unfolding got [unfolded n] n by (simp only: option.map option.inject)
qed

theorem Scan_starts_or_refuses_witness:
  "\<exists>s' j. Scan sample_de (Some '':1.7'') [''password-expired''] sample_brd = Some s' \<and> bd_scanJob s' = Some j
     \<and> jb_state j = BR_JOB_STATE_RUNNING"
proof -
  have "\<not> (is_running (bd_scanJob sample_brd) \<or> (\<exists>name \<in> set [''password-expired'']. \<not> usable sample_de sample_brd name))"
    using sample_brd_usable by (simp add: is_running_def sample_brd_fields)
  with Scan_starts_or_refuses [OF sample_named sample_brd_fields(3) zero_less_one, of sample_de "'':1.7''" "[''password-expired'']"]
  show ?thesis by (auto simp only: if_False)
qed

definition sample_scan_job :: job where
  "sample_scan_job = snd (addOperation ''audit_python'' ''password-expired'' (newJob 1))"

definition sample_scan :: job_sys where
  "sample_scan = snd (the (runAsync length (idle_workers 1) sample_scan_job))"

definition sample_scan_end :: job_sys where
  "sample_scan_end = the (exec_labels sample_scan [LBegin 0, LTick, LRun 0 ''x'', LEnd 0, LTick])"


text \<open>A parameter that takes a text, and a value of digits.\<close>

definition sample_umask :: brd where
  "sample_umask = sample_brd\<lparr>br_reinforcements := [(''umask'', \<lparr>ld_plugin = ''audit_python'',
     ld_config = \<lparr>rf_name = ''umask'', rf_category = Some ''audit'', rf_label = [], rf_description = [], rf_checkbox = None,
       rf_args = [\<lparr>ar_name = ''mask'', ar_value = ''0027'', ar_rule = None, ar_input_example = Some ''0027''\<rparr>]\<rparr>, ld_rules = []\<rparr>)],
     br_rh_last := None, bd_isScanFlag := False\<rparr>"


end
