(* ===== verification/BRSystem.thy ===== *)
theory BRSystem
  imports BRProgress
begin

text \<open>
  The baseline reinforcement as one machine: the calls of the clients, the ticks of the timers and the
  steps of the threads, in any order, on the state of \<open>BRDBus\<close>. The invariant joins the plugins' map of
  the reinforcements in use with the two jobs.
\<close>

section \<open>Calls\<close>

datatype brd_call =
    CSetStandardType "32 word" | CImportCustomRS string | CSetStrategyType "32 word" | CSetTimeScan "32 word"
  | CSetNotificationStatus "32 word" | CSetFallbackStatus "32 word" | CSetResourceMonitorSwitch "32 word"
  | CImportCustomRA string | CSetCheckBox string bool | CResetReinforcements | CSetReinforcement string
  | CResetReinforcement string | CScan "string list" | CCancel int | CExportStrategy bool | CGenerateReport bool
  | CReinforce "string list" | CSetFallback "32 word"

text \<open>The last two arrive through polkit.\<close>

fun brd_handle :: "brd_env \<Rightarrow> string \<Rightarrow> brd_call \<Rightarrow> brd \<Rightarrow> brd option" where
  "brd_handle env c (CSetStandardType w) s = Some (SetStandardType env c w s)"
| "brd_handle env c (CImportCustomRS t) s = Some (ImportCustomRS env c t s)"
| "brd_handle env c (CSetStrategyType w) s = Some (SetStrategyType c w s)"
| "brd_handle env c (CSetTimeScan w) s = Some (SetTimeScan c w s)"
| "brd_handle env c (CSetNotificationStatus w) s = Some (SetNotificationStatus c w s)"
| "brd_handle env c (CSetFallbackStatus w) s = Some (SetFallbackStatus c w s)"
| "brd_handle env c (CSetResourceMonitorSwitch w) s = SetResourceMonitorSwitch c w s"
| "brd_handle env c (CImportCustomRA t) s = Some (ImportCustomRA env c t s)"
| "brd_handle env c (CSetCheckBox n b) s = Some (SetCheckBox env n b s)"
| "brd_handle env c CResetReinforcements s = Some (ResetReinforcements env c s)"
| "brd_handle env c (CSetReinforcement x) s = Some (SetReinforcement env c x s)"
| "brd_handle env c (CResetReinforcement n) s = Some (ResetReinforcement env c n s)"
| "brd_handle env c (CScan names) s = Scan env (Some c) names s"
| "brd_handle env c (CCancel i) s = Some (Cancel c i s)"
| "brd_handle env c (CExportStrategy b) s = Some (ExportStrategy c b s)"
| "brd_handle env c (CGenerateReport b) s = Some (GenerateReport c b s)"
| "brd_handle env c (CReinforce names) s = reinforce env c names s"
| "brd_handle env c (CSetFallback w) s = setFallback env c w s"

section \<open>Timers and threads\<close>

text \<open>A tick of the timer of a job: its signals are handled before the job is idle again; the handlers
  read the state the signal carries.\<close>

definition scan_tick :: "brd_env \<Rightarrow> brd \<Rightarrow> brd option" where
  "scan_tick env s =
     (case bd_scanJob s of
        None \<Rightarrow> Some s
      | Some j \<Rightarrow> (let (j', signals) = idleCheckOperation j
                   in map_option (\<lambda>s. s\<lparr>bd_scanJob := Some j'\<rparr>) (scan_signals env j signals s)))"

definition reinforce_tick :: "brd_env \<Rightarrow> brd \<Rightarrow> brd option" where
  "reinforce_tick env s =
     (case bd_reinforceJob s of
        None \<Rightarrow> Some s
      | Some j \<Rightarrow> (let (j', signals) = idleCheckOperation j
                   in map_option (\<lambda>s. s\<lparr>bd_reinforceJob := Some j'\<rparr>) (reinforce_signals env j signals s)))"

text \<open>A thread works for the job of its operation, one of the two.\<close>

definition with_job :: "int \<Rightarrow> (job \<Rightarrow> job) \<Rightarrow> brd \<Rightarrow> brd" where
  "with_job i f s =
     (let upd = map_option (\<lambda>j. if jb_jobID j = i then f j else j)
      in s\<lparr>bd_scanJob := upd (bd_scanJob s), bd_reinforceJob := upd (bd_reinforceJob s)\<rparr>)"

definition job_cancelled :: "int \<Rightarrow> brd \<Rightarrow> bool" where
  "job_cancelled i s \<longleftrightarrow> (\<exists>j \<in> set_option (bd_scanJob s) \<union> set_option (bd_reinforceJob s). jb_jobID j = i \<and> jb_isNeedCancel j)"

definition thread_begin :: "nat \<Rightarrow> brd \<Rightarrow> brd" where
  "thread_begin w s =
     (if w < length (bd_workers s) \<and> wk_running (bd_workers s ! w) = None
      then (case wk_tasks (bd_workers s ! w) of
              [] \<Rightarrow> s
            | t # ts \<Rightarrow> with_job (op_job_id t) (begin_operation t)
                (s\<lparr>bd_workers := (bd_workers s)[w := \<lparr>wk_tasks = ts, wk_running = Some (t, None)\<rparr>]\<rparr>))
      else s)"

definition thread_run :: "nat \<Rightarrow> string \<Rightarrow> brd \<Rightarrow> brd" where
  "thread_run w r s =
     (if w < length (bd_workers s)
      then (case wk_running (bd_workers s ! w) of
              Some (t, None) \<Rightarrow> s\<lparr>bd_workers := (bd_workers s)[w := (bd_workers s ! w)\<lparr>wk_running :=
                Some (t, Some (if job_cancelled (op_job_id t) s then [] else r))\<rparr>]\<rparr>
            | _ \<Rightarrow> s)
      else s)"

definition thread_end :: "nat \<Rightarrow> brd \<Rightarrow> brd" where
  "thread_end w s =
     (if w < length (bd_workers s)
      then (case wk_running (bd_workers s ! w) of
              Some (t, Some r) \<Rightarrow> with_job (op_job_id t) (end_operation t r)
                (s\<lparr>bd_workers := (bd_workers s)[w := (bd_workers s ! w)\<lparr>wk_running := None\<rparr>]\<rparr>)
            | _ \<Rightarrow> s)
      else s)"

datatype brd_event =
    BCall brd_env string brd_call | BScanTick brd_env | BReinforceTick brd_env | BReinforceTimer brd_env
  | BBegin nat | BRun nat string | BEnd nat | BTime int

text \<open>A daemon that has crashed makes no further step; the model leaves its state as it was.\<close>

fun brd_next :: "brd_event \<Rightarrow> brd \<Rightarrow> brd option" where
  "brd_next (BCall env caller c) s = brd_handle env caller c s"
| "brd_next (BScanTick env) s = scan_tick env s"
| "brd_next (BReinforceTick env) s = reinforce_tick env s"
| "brd_next (BReinforceTimer env) s = reinforce_timer env s"
| "brd_next (BBegin w) s = Some (thread_begin w s)"
| "brd_next (BRun w r) s = Some (thread_run w r s)"
| "brd_next (BEnd w) s = Some (thread_end w s)"
| "brd_next (BTime t) s = Some (s\<lparr>d_now := t\<rparr>)"

definition brd_step :: "brd \<Rightarrow> brd_event \<Rightarrow> brd" where
  "brd_step s e = (case brd_next e s of None \<Rightarrow> s | Some s' \<Rightarrow> s')"

section \<open>The invariant\<close>

definition in_use_ok :: "'a br_scheme \<Rightarrow> bool" where
  "in_use_ok s \<longleftrightarrow> qm_ok (br_reinforcements s) \<and> named_in_use s"

definition job_ok :: "int \<Rightarrow> job option \<Rightarrow> bool" where
  "job_ok n jo \<longleftrightarrow> (\<forall>j. jo = Some j \<longrightarrow> ops_ok j \<and> jb_jobID j \<le> n)"

definition brd_inv :: "brd \<Rightarrow> bool" where
  "brd_inv s \<longleftrightarrow> in_use_ok s \<and> job_ok (bd_jobCount s) (bd_scanJob s) \<and> job_ok (bd_jobCount s) (bd_reinforceJob s)
     \<and> (\<forall>i j. bd_scanJob s = Some i \<and> bd_reinforceJob s = Some j \<longrightarrow> jb_jobID i \<noteq> jb_jobID j)
     \<and> qm_ok (bd_jobResult s)"

text \<open>What the invariant reads of a state.\<close>

definition br_view :: "'a br_scheme \<Rightarrow> (string, loaded) qmap" where
  "br_view s = br_reinforcements s"

lemma in_use_ok_cong: "br_reinforcements s = br_reinforcements t \<Longrightarrow> in_use_ok s = in_use_ok t"
  by (simp add: in_use_ok_def named_in_use_def getReinforcement_def)

definition same_brd :: "brd \<Rightarrow> brd \<Rightarrow> bool" where
  "same_brd s t \<longleftrightarrow> bd_scanJob s = bd_scanJob t \<and> bd_reinforceJob s = bd_reinforceJob t \<and> bd_jobCount s = bd_jobCount t
     \<and> (bd_jobResult s = bd_jobResult t) \<and> (br_reinforcements s = br_reinforcements t \<or> in_use_ok s)"

lemma brd_inv_same: "same_brd s' s \<Longrightarrow> brd_inv s \<Longrightarrow> brd_inv s'"
  using in_use_ok_cong [of s' s] by (auto simp: brd_inv_def same_brd_def)

section \<open>The configuration keeps it\<close>

lemma loadReinforcements_in_use: "in_use_ok (loadReinforcements s)"
proof (cases "br_rs s")
  case None
  then show ?thesis by (simp add: loadReinforcements_def in_use_ok_def named_in_use_def getReinforcement_def)
next
  case (Some rs)
  let ?s = "s\<lparr>br_reinforcements := []\<rparr>"
  have reinf: "br_reinforcements (loadReinforcements s) = fold (use_element ?s) rs []"
    using Some by (simp add: loadReinforcements_def load_elements_eq Let_def)
  have "rf_name (ld_config l) = n" if l: "qm_value n (fold (use_element ?s) rs []) = Some l" for n l
  proof -
    from l obtain r where r: "List.find (\<lambda>r. rf_name r = n) (rev rs) = Some r" "in_use ?s r = Some l"
      using fold_use_element [of "[]" ?s rs n] by (auto simp: bind_eq_Some_conv split: option.splits)
    then have "rf_name r = n" by (auto simp: find_Some_iff)
    with r(2) show ?thesis by (auto simp: in_use_def)
  qed
  then show ?thesis
    using fold_use_element [of "[]" ?s rs] by (simp add: in_use_ok_def named_in_use_def getReinforcement_def reinf)
qed

lemma br_more_frame [simp]:
  "br.more (loadReinforcements s) = br.more s" "br.more (loadRs env s) = br.more s" "br.more (reloadRs env s) = br.more s"
  "br.more (setInteger k v s) = br.more s"
  by (simp_all add: loadReinforcements_def load_elements_eq loadRs_def reloadRs_def setInteger_def Let_def split: option.splits)

lemma brd_more: "br.more s = br.more t \<Longrightarrow>
    bd_scanJob s = bd_scanJob t \<and> bd_reinforceJob s = bd_reinforceJob t \<and> bd_jobCount s = bd_jobCount t
    \<and> bd_jobResult s = bd_jobResult (t :: brd)"
  by (cases s; cases t) simp

text \<open>A change of the configuration: the fields of the object stay, and what is in use stays or is loaded anew.\<close>

definition config_change :: "brd \<Rightarrow> brd \<Rightarrow> bool" where
  "config_change s' s \<longleftrightarrow> br.more s' = br.more s \<and> (br_reinforcements s' = br_reinforcements s \<or> in_use_ok s')"

lemma config_change_same: "config_change s' s \<Longrightarrow> same_brd s' s"
  using brd_more [of s' s] by (auto simp: config_change_def same_brd_def)

lemma config_change_refl [simp]: "config_change s s"
  by (simp add: config_change_def)

lemma reloadRs_in_use [simp]: "in_use_ok (reloadRs env t)"
  by (simp add: reloadRs_def loadReinforcements_in_use)

lemma config_changes [simp]:
  "config_change (snd (setStandardType env i s)) s" "config_change (snd (setStrategyType i s)) s"
  "config_change (snd (setTimeScan i s)) s" "config_change (snd (setNotificationStatus i s)) s"
  "config_change (snd (setFallbackStatus i s)) s" "config_change (snd (setResourceMonitorStatus i s)) s"
  "config_change (snd (writeRaToFile env ra s)) s"
  by (simp_all add: setStandardType_def setStrategyType_def setTimeScan_def setNotificationStatus_def setFallbackStatus_def
      setResourceMonitorStatus_def writeRaToFile_def config_change_def split: option.splits) (simp_all add: setInteger_def)

lemma config_changes_ra [simp]:
  "config_change (snd (setCustomRa env r s)) s" "config_change (delCustomRa env name s) s" "config_change (delAllCustomRa env s) s"
  "config_change (setRaCheckbox env name b s) s"
  by (simp_all add: setCustomRa_def delCustomRa_def delAllCustomRa_def setRaCheckbox_def split: option.splits)

lemma config_changes_rs [simp]: "config_change (snd (setCustomRs env t s)) s"
proof -
  have "in_use_ok (u\<lparr>br_custom_rs := t\<rparr>) = in_use_ok u" for u :: brd by (rule in_use_ok_cong) simp
  then show ?thesis by (auto simp: setCustomRs_def Let_def config_change_def)
qed

lemma config_changes_rh [simp]: "config_change (snd (setCustomRh env r h s)) s"
  by (simp add: setCustomRh_def writeRhToFile_def config_change_def split: history.splits)

section \<open>The calls keep it\<close>

lemma same_brd_refl [simp]: "same_brd s s"
  by (simp add: same_brd_def)

lemma same_brd_trans: "same_brd s t \<Longrightarrow> same_brd t u \<Longrightarrow> same_brd s u"
  using in_use_ok_cong [of s t] by (auto simp: same_brd_def)

lemma same_brd_log [simp]:
  "same_brd (act e s) t = same_brd s t" "same_brd (SSR_LOG ty m b c s) t = same_brd s t"
  "same_brd (br_refuse caller code msg s) t = same_brd s t" "same_brd (br_refuse_logged caller code msg s) t = same_brd s t"
  "same_brd (br_done caller msg s) t = same_brd s t" "same_brd (scan_failed ctx code s) t = same_brd s t"
  "same_brd (reinforce_failed caller code s) t = same_brd s t"
  using in_use_ok_cong [of "act e s" s] in_use_ok_cong [of "SSR_LOG ty m b c s" s]
  by (simp_all add: same_brd_def act_def SSR_LOG_def write_log_def br_refuse_def br_refuse_logged_def br_done_def scan_failed_def
      br_reply_error_def reinforce_failed_def in_use_ok_def named_in_use_def getReinforcement_def)

lemma same_brd_frame [simp]:
  "same_brd (s\<lparr>bd_monitorTimer := x1\<rparr>) t = same_brd s t" "same_brd (s\<lparr>bd_strategy := x2\<rparr>) t = same_brd s t"
  "same_brd (s\<lparr>bd_scanUniqueName := x3\<rparr>) t = same_brd s t" "same_brd (s\<lparr>bd_reforceUniqueName := x3\<rparr>) t = same_brd s t"
  "same_brd (s\<lparr>bd_isScanFlag := x4\<rparr>) t = same_brd s t" "same_brd (s\<lparr>bd_isFinishRHWrite := x4\<rparr>) t = same_brd s t"
  "same_brd (s\<lparr>bd_fallbackMethod := x5\<rparr>) t = same_brd s t" "same_brd (s\<lparr>bd_params := x6\<rparr>) t = same_brd s t"
  "same_brd (s\<lparr>bd_reinforceTimer := x7\<rparr>) t = same_brd s t" "same_brd (s\<lparr>bd_slots := x8\<rparr>) t = same_brd s t"
  "same_brd (s\<lparr>bd_workers := x9\<rparr>) t = same_brd s t" "same_brd (s\<lparr>d_now := x10\<rparr>) t = same_brd s t"
  by (simp_all add: same_brd_def in_use_ok_def named_in_use_def getReinforcement_def)

lemma same_brd_config [simp]:
  "same_brd (snd (setStandardType env i s)) s" "same_brd (snd (setStrategyType i s)) s"
  "same_brd (snd (setTimeScan i s)) s" "same_brd (snd (setNotificationStatus i s)) s"
  "same_brd (snd (setFallbackStatus i s)) s" "same_brd (snd (setResourceMonitorStatus i s)) s"
  "same_brd (snd (setCustomRa env r s)) s" "same_brd (delCustomRa env name s) s" "same_brd (delAllCustomRa env s) s"
  "same_brd (setRaCheckbox env name b s) s" "same_brd (snd (setCustomRs env x s)) s" "same_brd (snd (setCustomRh env r h s)) s"
  by (simp_all add: config_change_same)

lemma same_if: "same_brd a s \<Longrightarrow> same_brd b s \<Longrightarrow> same_brd (if c then a else b) s"
  by simp

lemma same_case:
  "same_brd (snd p) s \<Longrightarrow> (\<And>t. same_brd t s \<Longrightarrow> same_brd (f True t) s) \<Longrightarrow> (\<And>t. same_brd t s \<Longrightarrow> same_brd (f False t) s)
     \<Longrightarrow> same_brd (case p of (b, t) \<Rightarrow> f b t) s"
  by (cases p; cases "fst p") simp_all

lemma same_brd_settings [simp]:
  "same_brd (SetStandardType env c w s) s" "same_brd (SetStrategyType c w s) s"
  "same_brd (SetTimeScan c w s) s" "same_brd (SetNotificationStatus c w s) s" "same_brd (SetFallbackStatus c w s) s"
  unfolding SetStandardType_def SetStrategyType_def SetTimeScan_def SetNotificationStatus_def SetFallbackStatus_def Let_def
  by (intro same_if same_case; simp)+

lemma same_brd_changes [simp]:
  "same_brd (ImportCustomRS env c x s) s" "same_brd (ImportCustomRA env c x s) s"
  "same_brd (SetCheckBox env x b s) s" "same_brd (ResetReinforcements env c s) s" "same_brd (SetReinforcement env c x s) s"
  "same_brd (ResetReinforcement env c x s) s" "same_brd (ExportStrategy c b s) s" "same_brd (GenerateReport c b s) s"
proof -
  show "same_brd (ImportCustomRS env c x s) s"
  proof (cases "setCustomRs (de_config env) x s")
    case (Pair res t)
    then have "same_brd t s" by (metis same_brd_config(11) snd_conv)
    then show ?thesis by (cases res) (simp_all add: ImportCustomRS_def Pair)
  qed
  show "same_brd (SetReinforcement env c x s) s"
  proof (cases "de_parse env x")
    case (Some r)
    obtain b t where bt: "setCustomRa (de_config env) r s = (b, t)" by force
    then have "same_brd t s" by (metis same_brd_config(7) snd_conv)
    then show ?thesis by (cases b) (simp_all add: SetReinforcement_def Some bt)
  qed (simp add: SetReinforcement_def)
qed (simp_all add: ImportCustomRA_def SetCheckBox_def ResetReinforcements_def ResetReinforcement_def ExportStrategy_def GenerateReport_def Let_def)

lemma same_brd_monitor: "SetResourceMonitorSwitch c w s = Some s' \<Longrightarrow> same_brd s' s"
proof (cases "setResourceMonitorStatus (uint w) s")
  case (Pair res t)
  then have "same_brd t s" by (metis same_brd_config(6) snd_conv)
  then show "SetResourceMonitorSwitch c w s = Some s' \<Longrightarrow> same_brd s' s"
    by (auto simp: SetResourceMonitorSwitch_def Let_def Pair split: option.splits bool.splits if_splits)
qed

section \<open>The jobs keep it\<close>

lemma ops_ok_cong: "jb_operations i = jb_operations j \<Longrightarrow> jb_jobID i = jb_jobID j \<Longrightarrow> ops_ok i = ops_ok j"
  by (simp add: ops_ok_def)

definition same_job :: "job \<Rightarrow> job \<Rightarrow> bool" where
  "same_job i j \<longleftrightarrow> jb_operations i = jb_operations j \<and> jb_jobID i = jb_jobID j"

lemma same_job_steps [simp]:
  "same_job (begin_operation t j) j" "same_job (end_operation t r j) j" "same_job (snd (cancel j)) j"
  "same_job (fst (idleCheckOperation j)) j" "same_job j j"
  by (simp_all add: same_job_def begin_operation_def end_operation_def cancel_def idleCheckOperation_def Let_def)

lemma same_job_runAsync: "runAsync hash ws j = Some (b, js) \<Longrightarrow> same_job (js_job js) j"
  by (auto simp: runAsync_def runInit_def same_job_def Let_def split: if_splits)

lemma job_ok_same: "same_job i j \<Longrightarrow> job_ok n (Some j) \<Longrightarrow> job_ok n (Some i)"
  using ops_ok_cong [of i j] by (auto simp: job_ok_def same_job_def)

lemma brd_inv_scanJob:
  "brd_inv s \<Longrightarrow> bd_scanJob s = Some j \<Longrightarrow> same_job i j \<Longrightarrow> brd_inv (s\<lparr>bd_scanJob := Some i\<rparr>)"
  using job_ok_same [of i j "bd_jobCount s"] by (auto simp: brd_inv_def same_job_def in_use_ok_def named_in_use_def getReinforcement_def)

lemma brd_inv_reinforceJob:
  "brd_inv s \<Longrightarrow> bd_reinforceJob s = Some j \<Longrightarrow> same_job i j \<Longrightarrow> brd_inv (s\<lparr>bd_reinforceJob := Some i\<rparr>)"
  using job_ok_same [of i j "bd_jobCount s"] by (auto simp: brd_inv_def same_job_def in_use_ok_def named_in_use_def getReinforcement_def)

lemma brd_inv_Cancel: "brd_inv s \<Longrightarrow> brd_inv (Cancel caller i s)"
proof -
  assume inv: "brd_inv s"
  have same: "brd_inv t \<Longrightarrow> brd_inv (br_refuse c code m t)" "brd_inv t \<Longrightarrow> brd_inv (br_done c m t)" for t c code m
    using brd_inv_same [of "br_refuse c code m t" t] brd_inv_same [of "br_done c m t" t] by simp_all
  show ?thesis
    using inv by (auto simp: Cancel_def Let_def intro!: same brd_inv_scanJob brd_inv_reinforceJob split: option.splits prod.splits if_splits)
qed

text \<open>A new job has a number no job had before.\<close>

lemma brd_inv_new_scan:
  assumes "brd_inv s" and "ops_ok j" and "jb_jobID j = bd_jobCount s + 1" and "same_brd t (s\<lparr>bd_jobResult := [], bd_jobCount := bd_jobCount s + 1\<rparr>)"
  shows "brd_inv (t\<lparr>bd_scanJob := Some j\<rparr>)"
  using assms in_use_ok_cong [of t s] in_use_ok_cong [of "t\<lparr>bd_scanJob := Some j\<rparr>" t]
  by (auto simp: brd_inv_def same_brd_def job_ok_def)

lemma brd_inv_new_reinforce:
  assumes "brd_inv s" and "ops_ok j" and "jb_jobID j = bd_jobCount s + 1"
  shows "brd_inv (s\<lparr>bd_reinforceJob := Some j, bd_jobCount := bd_jobCount s + 1\<rparr>)"
  using assms in_use_ok_cong [of "s\<lparr>bd_reinforceJob := Some j, bd_jobCount := bd_jobCount s + 1\<rparr>" s]
  by (auto simp: brd_inv_def job_ok_def)

lemma scan_operations_keep:
  "scan_operations env ctx names j s = (ok, j', s') \<Longrightarrow> ops_ok j \<Longrightarrow> ops_ok j' \<and> jb_jobID j' = jb_jobID j \<and> same_brd s' s"
proof (induction names arbitrary: j)
  case (Cons name names)
  show ?case
  proof (cases "getReinforcement name s")
    case (Some l)
    obtain t where "addOperation (ld_plugin l) (rf_name (ld_config l)) j = (Some t, j\<lparr>jb_operations := jb_operations j @ [(op_id t, t)]\<rparr>)"
        "ops_ok (snd (addOperation (ld_plugin l) (rf_name (ld_config l)) j))"
      using addOperation_ok [OF Cons.prems(2)] by blast
    then show ?thesis using Cons.IH [of "snd (addOperation (ld_plugin l) (rf_name (ld_config l)) j)"] Cons.prems Some
      by (auto split: if_splits)
  qed (use Cons.prems in auto)
qed auto

lemma brd_inv_Scan: "Scan env ctx names s = Some s' \<Longrightarrow> brd_inv s \<Longrightarrow> brd_inv s'"
proof -
  assume S: "Scan env ctx names s = Some s'" and inv: "brd_inv s"
  let ?u = "s\<lparr>bd_scanUniqueName := getCallerUniqueName ctx\<rparr>"
  have inv_u: "brd_inv ?u" using brd_inv_same [of ?u s] inv by simp
  show ?thesis
  proof (cases "is_running (bd_scanJob s)")
    case True
    then show ?thesis using S inv_u brd_inv_same [of s' ?u] by (auto simp: Scan_def Let_def)
  next
    case False
    obtain ok j' t where ops: "scan_operations env ctx names (newJob (bd_jobCount s + 1)) (?u\<lparr>bd_jobResult := [], bd_jobCount := bd_jobCount s + 1\<rparr>) = (ok, j', t)"
      by (metis prod_cases3)
    from scan_operations_keep [OF this ops_ok_create] have keep: "ops_ok j'" "jb_jobID j' = bd_jobCount ?u + 1"
        "same_brd t (?u\<lparr>bd_jobResult := [], bd_jobCount := bd_jobCount ?u + 1\<rparr>)" by (simp_all add: newJob_def)
    have new: "brd_inv (t\<lparr>bd_scanJob := Some i\<rparr>)" if "same_job i j'" for i
      using brd_inv_new_scan [OF inv_u _ _ keep(3), of i] that keep(1,2) ops_ok_cong [of i j'] by (auto simp: same_job_def)
    have quiet: "brd_inv x \<Longrightarrow> brd_inv (x\<lparr>bd_workers := ws\<rparr>)" "brd_inv x \<Longrightarrow> brd_inv (scan_failed ctx code x)" for x ws code
      using brd_inv_same [of "x\<lparr>bd_workers := ws\<rparr>" x] brd_inv_same [of "scan_failed ctx code x" x] by simp_all
    show ?thesis
    proof (cases ok)
      case True
      with S False ops obtain started js where run: "runAsync (de_hash env) (bd_workers t) j' = Some (started, js)"
          "s' = (if started then t\<lparr>bd_scanJob := Some (js_job js), bd_workers := js_workers js\<rparr>
             else scan_failed ctx ERROR_DAEMON_SCAN_ALL_JOB_FAILED (t\<lparr>bd_scanJob := Some (js_job js), bd_workers := js_workers js\<rparr>))"
        by (auto simp: Scan_def Let_def job_create_def split: option.splits prod.splits)
      with new [OF same_job_runAsync [OF run(1)]] show ?thesis by (simp add: quiet)
    next
      case nok: False
      then show ?thesis using S False ops new [of j'] by (simp add: Scan_def Let_def job_create_def)
    qed
  qed
qed

lemma reinforce_operations_keep:
  "reinforce_operations env caller names j s = Some (ok, j', s') \<Longrightarrow> ops_ok j \<Longrightarrow> ops_ok j' \<and> jb_jobID j' = jb_jobID j \<and> same_brd s' s"
proof (induction names arbitrary: j s)
  case (Cons name names)
  show ?case
  proof (cases "getReinforcement name s")
    case (Some l)
    show ?thesis
    proof (cases "getReinforcementInterface (de_interface env) (ld_plugin l) (rf_name (ld_config l)) s")
      case True
      with Cons.prems(1) Some obtain paramStr where p: "getJsonParam env name s = Some paramStr" by (auto split: option.splits)
      obtain t where t: "addOperation (ld_plugin l) (rf_name (ld_config l)) j = (Some t, j\<lparr>jb_operations := jb_operations j @ [(op_id t, t)]\<rparr>)"
          "ops_ok (j\<lparr>jb_operations := jb_operations j @ [(op_id t, t)]\<rparr>)"
        using addOperation_ok [OF Cons.prems(2), of "ld_plugin l" "rf_name (ld_config l)"] by auto
      let ?s = "s\<lparr>bd_params := qm_insert (op_id t) paramStr (bd_params s)\<rparr>"
      have "reinforce_operations env caller names (j\<lparr>jb_operations := jb_operations j @ [(op_id t, t)]\<rparr>) ?s = Some (ok, j', s')"
        using Cons.prems(1) Some True p t(1) by simp
      from Cons.IH [OF this t(2)] have "ops_ok j'" "jb_jobID j' = jb_jobID j" "same_brd s' ?s" by simp_all
      moreover have "same_brd ?s s" by simp
      ultimately show ?thesis using same_brd_trans by blast
    qed (use Cons.prems Some in auto)
  qed (use Cons.prems in auto)
qed auto

lemma brd_inv_act: "brd_inv (act e s) = brd_inv s"
  by (simp add: brd_inv_def in_use_ok_def named_in_use_def getReinforcement_def act_def)

lemma brd_inv_clear: "brd_inv s \<Longrightarrow> brd_inv (s\<lparr>bd_jobResult := [], bd_params := x\<rparr>)"
  by (simp add: brd_inv_def in_use_ok_def named_in_use_def getReinforcement_def)

lemma Scan_keeps_reinforce: "Scan env ctx names s = Some s' \<Longrightarrow> bd_reinforceJob s' = bd_reinforceJob s \<and> bd_jobCount s \<le> bd_jobCount s'"
proof -
  assume S: "Scan env ctx names s = Some s'"
  have failed: "bd_reinforceJob (scan_failed ctx code t) = bd_reinforceJob t" "bd_jobCount (scan_failed ctx code t) = bd_jobCount t" for code t
    by (simp_all add: scan_failed_def br_reply_error_def act_def SSR_LOG_ERROR_def SSR_LOG_def write_log_def)
  have ops: "same_brd t u" if "scan_operations env ctx names (newJob i) u = (ok, j', t)" for ok j' t u i
    using scan_operations_keep [OF that ops_ok_create] by blast
  show ?thesis using S
    by (auto simp: Scan_def Let_def job_create_def failed same_brd_def split: if_splits prod.splits option.splits dest!: ops)
qed

lemma brd_inv_reinforce: "reinforce env caller names s = Some s' \<Longrightarrow> brd_inv s \<Longrightarrow> brd_inv s'"
proof -
  assume R: "reinforce env caller names s = Some s'" and inv: "brd_inv s"
  let ?u = "s\<lparr>bd_reforceUniqueName := caller, bd_isScanFlag := False\<rparr>"
  have inv_u: "brd_inv ?u" using brd_inv_same [of ?u s] inv by simp
  show ?thesis
  proof (cases "is_running (bd_reinforceJob s)")
    case True
    then have "s' = act (Reply caller) (reinforce_failed caller ERROR_DAEMON_REINFORCE_IS_RUNNING ?u)" using R by (simp add: reinforce_def Let_def)
    then show ?thesis using brd_inv_same [of s' ?u] inv_u by simp
  next
    case False
    let ?j = "newJob (bd_jobCount s + 1)"
    let ?v = "?u\<lparr>bd_reinforceJob := Some ?j, bd_jobCount := bd_jobCount s + 1\<rparr>"
    have inv_v: "brd_inv ?v" using brd_inv_new_reinforce [OF inv_u, of ?j] ops_ok_create by (simp add: newJob_def)
    from R False obtain t where t: "Scan env None names ?v = Some t"
      by (auto simp: reinforce_def Let_def job_create_def split: option.splits)
    have inv_t: "brd_inv (t\<lparr>bd_jobResult := [], bd_params := []\<rparr>)" by (rule brd_inv_clear [OF brd_inv_Scan [OF t inv_v]])
    have job_t: "bd_reinforceJob t = Some ?j" using Scan_keeps_reinforce [OF t] by simp
    from R False t obtain ok j' x where
      x: "reinforce_operations env caller names ?j (t\<lparr>bd_jobResult := [], bd_params := []\<rparr>) = Some (ok, j', x)"
        "s' = act (Reply caller) (let s = x\<lparr>bd_reinforceJob := Some j'\<rparr>
           in if ok then s\<lparr>bd_reinforceTimer := True, bd_slots := bd_slots s @ [caller]\<rparr> else s)"
      by (auto simp: reinforce_def Let_def job_create_def split: option.splits prod.splits)
    from reinforce_operations_keep [OF x(1) ops_ok_create] have keep: "ops_ok j'" "jb_jobID j' = jb_jobID ?j"
        "same_brd x (t\<lparr>bd_jobResult := [], bd_params := []\<rparr>)" by simp_all
    have "brd_inv x" by (rule brd_inv_same [OF keep(3) inv_t])
    moreover have "bd_reinforceJob x = Some ?j" using keep(3) job_t by (simp add: same_brd_def)
    ultimately have "brd_inv (x\<lparr>bd_reinforceJob := Some j'\<rparr>)"
      using keep(1,2) in_use_ok_cong [of "x\<lparr>bd_reinforceJob := Some j'\<rparr>" x] by (auto simp: brd_inv_def job_ok_def)
    then show ?thesis
      using brd_inv_same [of s' "x\<lparr>bd_reinforceJob := Some j'\<rparr>"] by (simp add: x(2) Let_def)
  qed
qed

lemma brd_inv_timer: "reinforce_timer env s = Some s' \<Longrightarrow> brd_inv s \<Longrightarrow> brd_inv s'"
proof -
  assume R: "reinforce_timer env s = Some s'" and inv: "brd_inv s"
  let ?u = "s\<lparr>bd_reinforceTimer := False, bd_slots := []\<rparr>"
  show ?thesis
  proof (cases "s' = s")
    case False
    with R obtain j caller js started where j: "bd_reinforceJob s = Some j"
        and js: "runAsync (de_hash env) (bd_workers s) j = Some (started, js)"
        and s': "s' = (let s = ?u\<lparr>bd_reinforceJob := Some (js_job js), bd_workers := js_workers js\<rparr>
           in if started then s else SSR_LOG_ERROR log_BASELINE_REINFORCEMENT ''Failed to reinforcement.'' (bd_reforceUniqueName s)
                                       (act (ReplyBRError caller ERROR_CORE_REINFORCE_JOB_FAILED) s))"
      by (auto simp: reinforce_timer_def Let_def split: if_splits list.splits option.splits)
    have "brd_inv (s\<lparr>bd_reinforceJob := Some (js_job js)\<rparr>)" by (rule brd_inv_reinforceJob [OF inv j same_job_runAsync [OF js]])
    moreover have "same_brd s' (s\<lparr>bd_reinforceJob := Some (js_job js)\<rparr>)"
      using same_brd_refl [of "s\<lparr>bd_reinforceJob := Some (js_job js)\<rparr>"]
      by (auto simp: s' Let_def SSR_LOG_ERROR_def same_brd_def in_use_ok_def named_in_use_def getReinforcement_def act_def SSR_LOG_def write_log_def)
    ultimately show ?thesis using brd_inv_same by blast
  qed (use inv in simp)
qed

section \<open>The signals keep it\<close>

definition keeps :: "brd \<Rightarrow> brd \<Rightarrow> bool" where
  "keeps s' s \<longleftrightarrow> bd_scanJob s' = bd_scanJob s \<and> bd_reinforceJob s' = bd_reinforceJob s \<and> (brd_inv s \<longrightarrow> brd_inv s')"

lemma same_keeps: "same_brd s' s \<Longrightarrow> keeps s' s"
  using brd_inv_same [of s' s] by (auto simp: keeps_def same_brd_def)

lemma keeps_refl [simp]: "keeps s s"
  by (simp add: keeps_def)

lemma keeps_trans: "keeps u t \<Longrightarrow> keeps t s \<Longrightarrow> keeps u s"
  by (auto simp: keeps_def)

lemma same_updateRH: "updateRH env name values s = Some s' \<Longrightarrow> same_brd s' s"
proof -
  have "same_brd (snd (setCustomRh (de_config env) r h t)) s" if "same_brd t s" for r h t
    by (rule same_brd_trans [OF _ that]) simp
  then show "updateRH env name values s = Some s' \<Longrightarrow> same_brd s' s"
    by (auto simp: updateRH_def Let_def split: if_splits option.splits)
qed

lemma same_scan_items: "scan_items env j rs s = Some (items, s') \<Longrightarrow> same_brd s' s"
proof (induction rs arbitrary: s items)
  case (Cons x rs)
  obtain i result where x: "x = (i, result)" by force
  from Cons.prems x obtain t item u items' where u: "scan_item env t result s = Some (item, u)"
      "scan_items env j rs u = Some (items', s')" by (auto split: option.splits)
  have "same_brd u s" using u(1) by (auto simp: scan_item_def Let_def intro: same_updateRH)
  with Cons.IH [OF u(2)] show ?case by (rule same_brd_trans)
qed simp

lemma keeps_emit: "keeps (emit_report g r st items s) s"
proof -
  have "qm_ok (fold (\<lambda>(n, v, _) m. qm_insert n v m) items m)" if "qm_ok m" for m :: "(string, int) qmap"
    using fold_insert_value [OF that] by blast
  then show ?thesis
    by (auto simp: keeps_def brd_inv_def in_use_ok_def named_in_use_def getReinforcement_def emit_report_def readReinforceItemStatus_def act_def)
qed

lemma same_progressFinished [simp]: "same_brd (progressFinished s) t = same_brd s t"
proof -
  have "same_brd (progressFinished s) s" "same_brd s (progressFinished s)"
    using config_changes(5) [of BR_FALLBACK_STATUS_NOT_STARTED "act (EmitSignal ''ProgressFinished'' [] 0) s"]
    by (auto simp: progressFinished_def Let_def setFallbackStatus_def setInteger_def same_brd_def act_def)
  then show ?thesis using same_brd_trans by blast
qed

lemma keeps_scan_signal: "scan_signal env j x s = Some s' \<Longrightarrow> keeps s' s"
proof (cases x)
  case (ProcessChanged r st)
  assume "scan_signal env j x s = Some s'"
  with ProcessChanged obtain running items t where t: "scan_items env j (jr_current_finished_operations r) s = Some (items, t)"
      "s' = (if bd_isScanFlag t then emit_report ''ScanProgress'' r st (running @ items) t else t)"
    by (auto simp: scanResultHandle_def split: option.splits)
  have "keeps t s" by (rule same_keeps [OF same_scan_items [OF t(1)]])
  moreover have "keeps s' t" using keeps_emit by (simp add: t(2))
  ultimately show ?thesis using keeps_trans by blast
next
  case ProcessFinished
  assume "scan_signal env j x s = Some s'"
  then have "same_brd s' s"
    by (auto simp: ProcessFinished finishedScanProgress_def writeScanResultLog_def Let_def)
  then show ?thesis by (rule same_keeps)
qed

lemma keeps_reinforce_signal: "reinforce_signal env j x s = Some s' \<Longrightarrow> keeps s' s"
proof (cases x)
  case (ProcessChanged r st)
  then show "reinforce_signal env j x s = Some s' \<Longrightarrow> keeps s' s"
    using keeps_emit by (auto simp: reinforceResultHandle_def split: option.splits if_splits)
next
  case ProcessFinished
  let ?t = "if getFallbackStatus s \<noteq> BR_FALLBACK_STATUS_IN_PROGRESS then writeReinforcementResultLog s else s"
  have "same_brd ?t s" by (simp add: writeReinforcementResultLog_def Let_def SSR_LOG_ERROR_def)
  then have "same_brd (snd (setFallbackStatus BR_FALLBACK_STATUS_IS_FINISHED ?t)) s" using same_brd_trans same_brd_config(5) by blast
  then have "same_brd (finishedReinforceProgress s) s" by (simp add: finishedReinforceProgress_def Let_def)
  then show "reinforce_signal env j x s = Some s' \<Longrightarrow> keeps s' s" using ProcessFinished by (auto intro: same_keeps)
qed

lemma keeps_signals:
  "scan_signals env j xs s = Some s' \<Longrightarrow> keeps s' s" "reinforce_signals env j xs s = Some s' \<Longrightarrow> keeps s' s"
  by (induction xs arbitrary: s)
     (auto split: option.splits dest!: keeps_scan_signal keeps_reinforce_signal intro: keeps_trans)

lemma brd_inv_ticks:
  "scan_tick env s = Some s' \<Longrightarrow> brd_inv s \<Longrightarrow> brd_inv s'" "reinforce_tick env s = Some s' \<Longrightarrow> brd_inv s \<Longrightarrow> brd_inv s'"
proof -
  assume inv: "brd_inv s"
  show "brd_inv s'" if tick: "scan_tick env s = Some s'"
  proof (cases "bd_scanJob s")
    case None
    then show ?thesis using tick inv by (simp add: scan_tick_def)
  next
    case (Some j)
    obtain j' signals where step: "idleCheckOperation j = (j', signals)" by force
    with tick Some obtain t where t: "scan_signals env j signals s = Some t" "s' = t\<lparr>bd_scanJob := Some j'\<rparr>"
      by (auto simp: scan_tick_def)
    from keeps_signals(1) [OF t(1)] inv Some have "brd_inv t" "bd_scanJob t = Some j" by (simp_all add: keeps_def)
    moreover have "same_job j' j" using same_job_steps(4) [of j] by (simp add: step)
    ultimately show ?thesis unfolding t(2) by (rule brd_inv_scanJob)
  qed
  show "brd_inv s'" if tick: "reinforce_tick env s = Some s'"
  proof (cases "bd_reinforceJob s")
    case None
    then show ?thesis using tick inv by (simp add: reinforce_tick_def)
  next
    case (Some j)
    obtain j' signals where step: "idleCheckOperation j = (j', signals)" by force
    with tick Some obtain t where t: "reinforce_signals env j signals s = Some t" "s' = t\<lparr>bd_reinforceJob := Some j'\<rparr>"
      by (auto simp: reinforce_tick_def)
    from keeps_signals(2) [OF t(1)] inv Some have "brd_inv t" "bd_reinforceJob t = Some j" by (simp_all add: keeps_def)
    moreover have "same_job j' j" using same_job_steps(4) [of j] by (simp add: step)
    ultimately show ?thesis unfolding t(2) by (rule brd_inv_reinforceJob)
  qed
qed

section \<open>The threads keep it\<close>

lemma brd_inv_with_job:
  assumes "\<And>j. same_job (f j) j" and "brd_inv s"
  shows "brd_inv (with_job i f s)"
proof -
  let ?g = "\<lambda>j. if jb_jobID j = i then f j else j"
  have g: "ops_ok (?g j) = ops_ok j" "jb_jobID (?g j) = jb_jobID j" for j
    using assms(1) [of j] ops_ok_cong [of "f j" j] by (simp_all add: same_job_def)
  then have "job_ok n (map_option ?g jo) = job_ok n jo" for n jo by (cases jo) (simp_all only: job_ok_def option.map option.inject simp_thms all_simps)
  then have ok: "job_ok n (map_option ?g (bd_scanJob s)) = job_ok n (bd_scanJob s)"
      "job_ok n (map_option ?g (bd_reinforceJob s)) = job_ok n (bd_reinforceJob s)" for n by blast+
  have "jb_jobID a \<noteq> jb_jobID b" if ab: "map_option ?g (bd_scanJob s) = Some a" "map_option ?g (bd_reinforceJob s) = Some b" for a b
  proof -
    from ab obtain a' b' where "bd_scanJob s = Some a'" "a = ?g a'" "bd_reinforceJob s = Some b'" "b = ?g b'" by blast
    then show ?thesis using assms(2) by (simp only: g) (simp add: brd_inv_def)
  qed
  moreover have "in_use_ok (with_job i f s) = in_use_ok s" by (rule in_use_ok_cong) (simp add: with_job_def Let_def)
  moreover have w: "bd_scanJob (with_job i f s) = map_option ?g (bd_scanJob s)"
      "bd_reinforceJob (with_job i f s) = map_option ?g (bd_reinforceJob s)"
      "bd_jobCount (with_job i f s) = bd_jobCount s" "bd_jobResult (with_job i f s) = bd_jobResult s"
    by (simp_all add: with_job_def Let_def)
  ultimately show ?thesis
    using assms(2) unfolding brd_inv_def w ok by blast
qed

lemma brd_inv_threads:
  assumes "brd_inv s"
  shows "brd_inv (thread_begin w s)" "brd_inv (thread_run w r s)" "brd_inv (thread_end w s)"
proof -
  have quiet: "brd_inv (s\<lparr>bd_workers := ws\<rparr>)" for ws using brd_inv_same [of "s\<lparr>bd_workers := ws\<rparr>" s] assms by simp
  then show "brd_inv (thread_begin w s)" "brd_inv (thread_run w r s)" "brd_inv (thread_end w s)"
    using assms by (auto simp: thread_begin_def thread_run_def thread_end_def intro!: brd_inv_with_job split: list.split option.split)
qed

lemma brd_inv_setFallback: "setFallback env caller w s = Some s' \<Longrightarrow> brd_inv s \<Longrightarrow> brd_inv s'"
proof -
  assume F: "setFallback env caller w s = Some s'" and inv: "brd_inv s"
  have same: "brd_inv t" if "same_brd t s" for t by (rule brd_inv_same [OF that inv])
  let ?names = "map (\<lambda>l. rf_name (ld_config l)) (getReinforcements s)"
  let ?ref = "setFallbackStatus BR_FALLBACK_STATUS_IS_FINISHED"
  consider (other) "uint w = BR_FALLBACK_METHOD_OTHER" | (empty) "uint w \<noteq> BR_FALLBACK_METHOD_OTHER" "?names = []"
    | (busy) "uint w \<noteq> BR_FALLBACK_METHOD_OTHER" "?names \<noteq> []" "is_running (bd_reinforceJob s)"
    | (go) "uint w \<noteq> BR_FALLBACK_METHOD_OTHER" "?names \<noteq> []" "\<not> is_running (bd_reinforceJob s)" by blast
  then show ?thesis
  proof cases
    case other
    then show ?thesis using F inv by (auto simp: setFallback_def Let_def brd_inv_act)
  next
    case empty
    have "same_brd (snd (?ref (progressFinished s))) (progressFinished s)" by simp
    then have "same_brd (snd (?ref (progressFinished s))) s" using same_brd_trans [of _ "progressFinished s" s] by simp
    then show ?thesis using F empty by (auto simp: setFallback_def Let_def SSR_LOG_ERROR_def intro!: same)
  next
    case busy
    have "same_brd (snd (?ref (act (ReplyBRError caller ERROR_DAEMON_REINFORCE_IS_RUNNING) s))) s"
      using same_brd_trans [of _ "act (ReplyBRError caller ERROR_DAEMON_REINFORCE_IS_RUNNING) s" s] by simp
    then show ?thesis using F busy by (auto simp: setFallback_def Let_def SSR_LOG_ERROR_def intro!: same)
  next
    case go
    let ?u = "s\<lparr>bd_fallbackMethod := uint w\<rparr>"
    from F go obtain t where t: "reinforce env caller ?names ?u = Some t" and s': "same_brd s' t"
      by (auto simp: setFallback_def Let_def SSR_LOG_SUCCESS_def split: option.splits)
    have "brd_inv t" by (rule brd_inv_reinforce [OF t same]) simp
    with s' show ?thesis by (rule brd_inv_same)
  qed
qed

section \<open>Runs\<close>

lemmas settings_keep = same_brd_settings [THEN brd_inv_same] same_brd_changes [THEN brd_inv_same]

lemma brd_inv_handle: "brd_handle env caller c s = Some s' \<Longrightarrow> brd_inv s \<Longrightarrow> brd_inv s'"
proof (cases c)
  case (CSetResourceMonitorSwitch w)
  then show "brd_handle env caller c s = Some s' \<Longrightarrow> brd_inv s \<Longrightarrow> brd_inv s'"
    using same_brd_monitor brd_inv_same by fastforce
next
  case (CCancel i)
  then show "brd_handle env caller c s = Some s' \<Longrightarrow> brd_inv s \<Longrightarrow> brd_inv s'" using brd_inv_Cancel by auto
qed (auto intro: settings_keep brd_inv_Scan brd_inv_reinforce brd_inv_setFallback)

lemma brd_inv_next: "brd_next e s = Some s' \<Longrightarrow> brd_inv s \<Longrightarrow> brd_inv s'"
proof (cases e)
  case (BTime t)
  then show "brd_next e s = Some s' \<Longrightarrow> brd_inv s \<Longrightarrow> brd_inv s'" using brd_inv_same [of "s\<lparr>d_now := t\<rparr>" s] by auto
qed (auto intro: brd_inv_handle brd_inv_timer brd_inv_ticks brd_inv_threads)

interpretation brd_machine: step_invariant brd_step brd_inv
  by unfold_locales (auto simp: brd_step_def intro: brd_inv_next split: option.split)

section \<open>When a reinforcement starts\<close>

lemma reinforce_operations_state:
  "reinforce_operations env caller names j s = Some (ok, j', s') \<Longrightarrow> jb_state j' = jb_state j"
proof (induction names arbitrary: j s)
  case (Cons name names)
  have "jb_state i = jb_state j" if "addOperation p n j = (t, i)" for p n t i
    using that by (auto simp: addOperation_def Let_def split: if_splits)
  with Cons show ?case by (auto split: option.splits if_splits prod.splits)
qed simp

lemma idle_not_running: "jb_state j \<noteq> BR_JOB_STATE_RUNNING \<Longrightarrow> jb_state (fst (idleCheckOperation j)) \<noteq> BR_JOB_STATE_RUNNING"
  by (simp add: idleCheckOperation_def Let_def)

lemma reinforce_not_running:
  assumes "reinforce env caller names s = Some s'" and "\<not> is_running (bd_reinforceJob s)"
  shows "\<not> is_running (bd_reinforceJob s')"
proof -
  from assms obtain ok j' x t where
    "reinforce_operations env caller names (newJob (bd_jobCount s + 1)) t = Some (ok, j', x)"
    "s' = act (Reply caller) (let s = x\<lparr>bd_reinforceJob := Some j'\<rparr> in if ok then s\<lparr>bd_reinforceTimer := True, bd_slots := bd_slots s @ [caller]\<rparr> else s)"
    by (auto simp: reinforce_def Let_def job_create_def split: option.splits prod.splits)
  with reinforce_operations_state [OF this(1)] show ?thesis by (simp add: Let_def is_running_def act_def newJob_def)
qed

lemma Cancel_jobs:
  "is_running (bd_scanJob (Cancel c i s)) = is_running (bd_scanJob s)" "is_running (bd_reinforceJob (Cancel c i s)) = is_running (bd_reinforceJob s)"
  by (auto simp: Cancel_def Let_def is_running_def cancel_def br_refuse_def br_done_def SSR_LOG_ERROR_def SSR_LOG_SUCCESS_def SSR_LOG_def
      write_log_def act_def split: option.splits)

lemma handle_not_running:
  assumes "brd_handle env caller c s = Some s'" and "\<not> is_running (bd_reinforceJob s)"
  shows "\<not> is_running (bd_reinforceJob s')"
proof -
  have same: "\<not> is_running (bd_reinforceJob t)" if "same_brd t s" for t using that assms(2) by (simp add: same_brd_def)
  note keep = same_brd_settings [THEN same] same_brd_changes [THEN same] same_brd_monitor [THEN same]
  show ?thesis
  proof (cases c)
    case (CScan names)
    then show ?thesis using Scan_keeps_reinforce assms by auto
  next
    case (CReinforce names)
    then show ?thesis using reinforce_not_running assms by auto
  next
    case (CCancel i)
    then show ?thesis using assms by (auto simp: Cancel_jobs)
  next
    case (CSetFallback w)
    let ?names = "map (\<lambda>l. rf_name (ld_config l)) (getReinforcements s)" and ?u = "s\<lparr>bd_fallbackMethod := uint w\<rparr>"
    have simple: "\<not> is_running (bd_reinforceJob s')" if "reinforce env caller ?names ?u = None \<or> uint w = BR_FALLBACK_METHOD_OTHER \<or> ?names = []"
      using that assms CSetFallback same [OF same_brd_refl]
      by (auto simp: setFallback_def Let_def act_def SSR_LOG_ERROR_def SSR_LOG_def write_log_def setFallbackStatus_def setInteger_def
          progressFinished_def split: option.splits if_splits)
    show ?thesis
    proof (cases "reinforce env caller ?names ?u")
      case (Some t)
      have "\<not> is_running (bd_reinforceJob t)" using reinforce_not_running [OF Some] assms(2) by simp
      then show ?thesis using assms CSetFallback Some simple
        by (auto simp: setFallback_def Let_def act_def SSR_LOG_SUCCESS_def SSR_LOG_def write_log_def split: if_splits)
    qed (use simple in blast)
  qed (use assms in \<open>auto simp: keep\<close>)
qed

text \<open>C23: A reinforcement starts at a tick of its own timer only, and only when no scan is running: no call of a
  client, no other timer and no thread starts it.\<close>

theorem reinforcement_starts_after_scan:
  assumes "\<not> is_running (bd_reinforceJob s)" and "is_running (bd_reinforceJob (brd_step s e))"
  shows "(\<exists>env. e = BReinforceTimer env) \<and> \<not> is_running (bd_scanJob s) \<and> bd_slots s \<noteq> [] \<and> bd_slots (brd_step s e) = []"
proof -
  from assms obtain s' where s': "brd_next e s = Some s'" "is_running (bd_reinforceJob s')"
    by (auto simp: brd_step_def split: option.splits)
  have with_job: "\<not> is_running (bd_reinforceJob (with_job i f t))"
    if "\<And>j. jb_state (f j) = jb_state j" "bd_reinforceJob t = bd_reinforceJob s" for i f t
    using assms(1) that by (auto simp: with_job_def is_running_def Let_def split: option.splits)
  have threads: "jb_state (begin_operation t j) = jb_state j" "jb_state (end_operation t r j) = jb_state j" for t r j
    by (simp_all add: begin_operation_def end_operation_def Let_def)
  have "\<exists>env. e = BReinforceTimer env"
  proof (cases e)
    case (BScanTick env)
    with s'(1) have "bd_reinforceJob s' = bd_reinforceJob s"
      using keeps_signals(1) by (auto simp: scan_tick_def keeps_def split: option.splits prod.splits)
    with assms(1) s'(2) show ?thesis by simp
  next
    case (BReinforceTick env)
    with s' assms(1) show ?thesis
      using idle_not_running by (force simp: reinforce_tick_def is_running_def split: option.splits prod.splits)
  next
    case (BCall env caller c)
    with s' assms(1) handle_not_running show ?thesis by auto
  next
    case (BBegin w)
    with s' assms(1) show ?thesis by (auto simp: thread_begin_def with_job threads split: if_splits list.splits)
  next
    case (BRun w r)
    with s' assms(1) show ?thesis by (auto simp: thread_run_def split: if_splits option.splits)
  next
    case (BEnd w)
    with s' assms(1) show ?thesis by (auto simp: thread_end_def with_job threads split: if_splits option.splits)
  next
    case (BTime t)
    with s' assms(1) show ?thesis by auto
  qed blast
  then obtain env where e: "e = BReinforceTimer env" by blast
  with s' assms(1) show ?thesis
    by (auto simp: brd_step_def reinforce_timer_def is_running_def Let_def SSR_LOG_ERROR_def SSR_LOG_def write_log_def act_def
        split: if_splits list.splits option.splits)
qed

section \<open>Refusals\<close>

text \<open>A reinforcement of a name that is not in use is answered three times, by an error of the scan that belongs
  to no call, by its own error and by a success; and it leaves the flag of the scans cleared, so that the
  next scan a client starts sends no progress and leaves no state of anything.\<close>

theorem refused_reinforcement_silences_scan:
  assumes "getReinforcement name s = None" and "\<not> is_running (bd_reinforceJob s)" and "\<not> is_running (bd_scanJob s)"
    and "reinforce env caller [name] s = Some t" and "Scan env (Some client) names t = Some u"
    and "scanResultHandle env' j r st u = Some v"
  shows "d_effects t = d_effects s @ [ReplyNoCall ERROR_DAEMON_REINFORCEMENT_NOTFOUND,
       ReplyBRError caller ERROR_DAEMON_REINFORCEMENT_NOTFOUND, Reply caller]
     \<and> d_effects v = d_effects u \<and> bd_jobResult v = bd_jobResult u"
proof -
  have none: "getReinforcement name (s\<lparr>bd_reforceUniqueName := a, bd_isScanFlag := b, bd_reinforceJob := c, bd_jobCount := d,
      bd_scanUniqueName := g, bd_jobResult := h\<rparr>) = None" for a b c d g h
    using assms(1) by (simp add: getReinforcement_def)
  have t: "d_effects t = d_effects s @ [ReplyNoCall ERROR_DAEMON_REINFORCEMENT_NOTFOUND,
       ReplyBRError caller ERROR_DAEMON_REINFORCEMENT_NOTFOUND, Reply caller] \<and> bd_isScanFlag t = False"
    using assms(1-4) by (auto simp: reinforce_def Let_def job_create_def Scan_def getReinforcement_def scan_failed_def br_reply_error_def
        reinforce_failed_def br_refuse_def SSR_LOG_ERROR_def SSR_LOG_def write_log_def act_def)
  have ops: "bd_isScanFlag w = bd_isScanFlag q" if "scan_operations env ctx ns i q = (ok, i', w)" for ctx ns i q ok i' w
    using that
  proof (induction ns arbitrary: i)
    case (Cons n ns)
    then show ?case
      by (auto simp: scan_failed_def br_reply_error_def SSR_LOG_ERROR_def SSR_LOG_def write_log_def act_def split: option.splits if_splits)
  qed simp
  have flag: "\<not> bd_isScanFlag u"
    using assms(5) t by (auto simp: Scan_def Let_def job_create_def scan_failed_def br_reply_error_def SSR_LOG_ERROR_def SSR_LOG_def
        write_log_def act_def split: if_splits prod.splits option.splits dest!: ops)
  have upd: "d_effects y = d_effects x \<and> bd_jobResult y = bd_jobResult x \<and> bd_isScanFlag y = bd_isScanFlag x"
    if "updateRH env' n vs x = Some y" for n vs x y
    using that by (auto simp: updateRH_def Let_def setCustomRh_def writeRhToFile_def split: if_splits option.splits history.splits)
  have items: "d_effects y = d_effects x \<and> bd_jobResult y = bd_jobResult x \<and> bd_isScanFlag y = bd_isScanFlag x"
    if "scan_items env' j rs x = Some (is, y)" for rs x y "is"
    using that
  proof (induction rs arbitrary: x "is")
    case (Cons z rs)
    obtain i result where z: "z = (i, result)" by force
    with Cons.prems obtain q it w is' where "scan_item env' q result x = Some (it, w)" "scan_items env' j rs w = Some (is', y)"
      by (auto split: option.splits)
    with Cons.IH upd show ?case by (auto simp: scan_item_def Let_def)
  qed simp
  from assms(6) flag items show ?thesis using t by (auto simp: scanResultHandle_def split: option.splits)
qed

text \<open>The switch of the resource monitor: with the monitor off since the start, turning it on follows a null
  pointer, after the setting has been stored; otherwise the timer runs exactly when the switch was set
  to on, and a value out of range changes nothing.\<close>

theorem resource_monitor_switch:
  assumes "s_ok (br_settings s)"
  shows "SetResourceMonitorSwitch caller w s =
     (if uint w \<ge> BR_RESOURCE_MONITOR_OTHER
      then Some (br_refuse caller ERROR_DAEMON_RESOURCE_MONITOR_INVALID ''Failed to set resource monitor switch'' s)
      else if bd_monitorTimer s = None \<and> uint w \<noteq> getResourceMonitorStatus s then None
      else Some (br_done caller (''Set resource monitor switch to '' @ (if w = 1 then ''open'' else ''close''))
             (if uint w = getResourceMonitorStatus s then s
              else (setInteger ''resource_monitor'' (uint w) s)\<lparr>bd_monitorTimer := Some (uint w = BR_RESOURCE_MONITOR_OPEN)\<rparr>)))
   \<and> (uint w < BR_RESOURCE_MONITOR_OTHER \<longrightarrow> getResourceMonitorStatus (setInteger ''resource_monitor'' (uint w) s) = uint w)
   \<and> (\<forall>env t. brd_init env s = Some t \<and> getResourceMonitorStatus s = BR_RESOURCE_MONITOR_CLOSE \<and> de_first_exists env
        \<longrightarrow> SetResourceMonitorSwitch caller 1 t = None)"
proof -
  have get: "getResourceMonitorStatus (setInteger ''resource_monitor'' (uint w) s) = uint w" if "uint w < 2"
    using that getInteger_setInteger [OF assms] by (simp add: getResourceMonitorStatus_def Let_def)
  have timer: "bd_monitorTimer (setInteger k v s) = bd_monitorTimer s" for k v by (simp add: setInteger_def)
  have init: "SetResourceMonitorSwitch caller 1 t = None"
    if "brd_init env s = Some t" "getResourceMonitorStatus s = BR_RESOURCE_MONITOR_CLOSE" "de_first_exists env" for env t
    using that by (auto simp: brd_init_def Let_def SetResourceMonitorSwitch_def setResourceMonitorStatus_def getResourceMonitorStatus_def
        getInteger_def setInteger_def)
  show ?thesis
  proof (intro conjI impI allI)
    show "getResourceMonitorStatus (setInteger ''resource_monitor'' (uint w) s) = uint w" if "uint w < BR_RESOURCE_MONITOR_OTHER"
      using get that by blast
    show "SetResourceMonitorSwitch caller 1 t = None"
      if "brd_init env s = Some t \<and> getResourceMonitorStatus s = BR_RESOURCE_MONITOR_CLOSE \<and> de_first_exists env" for env t
      using init that by blast
  qed (cases "bd_monitorTimer s"; simp add: SetResourceMonitorSwitch_def setResourceMonitorStatus_def Let_def timer)
qed

section \<open>Every run\<close>

text \<open>C22: In every run of the daemon the reinforcements in use are entered under their own names, the operations of
  both jobs are numbered from 1 without a gap, the two jobs never have one number, and so a cancellation
  marks the running job with that number and nothing else; the results reported so far hold no name twice.\<close>

theorem runs_stay_consistent:
  assumes "brd_inv s" and "t = run brd_step s es"
  shows "(\<forall>n l. getReinforcement n t = Some l \<longrightarrow> rf_name (ld_config l) = n)
     \<and> (\<forall>j. bd_scanJob t = Some j \<or> bd_reinforceJob t = Some j \<longrightarrow>
          qm_keys (jb_operations j) = map (\<lambda>i. int i + 1) [0..<length (jb_operations j)])
     \<and> (\<forall>i j k c. bd_scanJob t = Some i \<and> bd_reinforceJob t = Some j \<longrightarrow>
          jb_jobID i \<noteq> jb_jobID j
          \<and> bd_scanJob (Cancel c k t) = Some (i\<lparr>jb_isNeedCancel := jb_isNeedCancel i \<or> jb_jobID i = k \<and> jb_state i = BR_JOB_STATE_RUNNING\<rparr>)
          \<and> bd_reinforceJob (Cancel c k t) = Some (j\<lparr>jb_isNeedCancel := jb_isNeedCancel j \<or> jb_jobID j = k \<and> jb_state j = BR_JOB_STATE_RUNNING\<rparr>))
     \<and> distinct (map fst (bd_jobResult t))"
proof -
  have inv: "brd_inv t" unfolding assms(2) by (rule brd_machine.run_inv [OF assms(1)])
  then have names: "\<forall>n l. getReinforcement n t = Some l \<longrightarrow> rf_name (ld_config l) = n"
    by (simp add: brd_inv_def in_use_ok_def named_in_use_def)
  have keys: "qm_keys (jb_operations j) = map (\<lambda>i. int i + 1) [0..<length (jb_operations j)]"
    if "bd_scanJob t = Some j \<or> bd_reinforceJob t = Some j" for j
    using inv that by (auto simp: brd_inv_def job_ok_def ops_ok_def qm_keys_def)
  have "bd_scanJob (Cancel c k t) = Some (i\<lparr>jb_isNeedCancel := jb_isNeedCancel i \<or> jb_jobID i = k \<and> jb_state i = BR_JOB_STATE_RUNNING\<rparr>)
      \<and> bd_reinforceJob (Cancel c k t) = Some (j\<lparr>jb_isNeedCancel := jb_isNeedCancel j \<or> jb_jobID j = k \<and> jb_state j = BR_JOB_STATE_RUNNING\<rparr>)"
    if "bd_scanJob t = Some i" "bd_reinforceJob t = Some j" "jb_jobID i \<noteq> jb_jobID j" for i j k c
    using that by (cases i; cases j) (auto simp: Cancel_def Let_def cancel_def br_refuse_def br_done_def SSR_LOG_ERROR_def
        SSR_LOG_SUCCESS_def SSR_LOG_def write_log_def act_def)
  moreover have "jb_jobID i \<noteq> jb_jobID j" if "bd_scanJob t = Some i" "bd_reinforceJob t = Some j" for i j
    using inv that by (simp add: brd_inv_def)
  moreover have "distinct (map fst (bd_jobResult t))"
    using inv by (auto simp: brd_inv_def qm_ok_def strict_sorted_iff)
  ultimately show ?thesis using names keys by blast
qed

section \<open>Samples\<close>

lemma sample_brd_inv: "brd_inv sample_brd"
  using in_use_ok_cong [OF sample_brd_fields(1)] loadReinforcements_in_use [of sample_br]
  by (simp add: brd_inv_def job_ok_def sample_brd_fields)

theorem runs_stay_consistent_witness:
  "\<exists>j. bd_scanJob (run brd_step sample_brd [BCall sample_de '':1.7'' (CScan [''password-expired'']), BBegin 0, BScanTick sample_de]) = Some j
     \<and> qm_keys (jb_operations j) = map (\<lambda>i. int i + 1) [0..<length (jb_operations j)]"
proof -
  have "bd_scanJob (run brd_step sample_brd [BCall sample_de '':1.7'' (CScan [''password-expired'']), BBegin 0, BScanTick sample_de]) \<noteq> None"
    by code_simp
  then show ?thesis using runs_stay_consistent [OF sample_brd_inv refl] by blast
qed

theorem resource_monitor_switch_witness: "SetResourceMonitorSwitch '':1.7'' 0 sample_brd \<noteq> None"
proof -
  have "s_ok (br_settings sample_brd)" by (simp add: sample_brd_fields)
  from resource_monitor_switch [OF this, of "'':1.7''" 0] show ?thesis by (simp add: sample_brd_fields)
qed

theorem reinforcement_starts_after_scan_witness:
  "bd_slots (brd_step (sample_brd\<lparr>bd_scanJob := Some (newJob 2), bd_reinforceJob := Some (newJob 1), bd_reinforceTimer := True,
     bd_slots := ['':1.7'']\<rparr>) (BReinforceTimer sample_de)) = []"
proof -
  let ?s = "sample_brd\<lparr>bd_scanJob := Some (newJob 2), bd_reinforceJob := Some (newJob 1), bd_reinforceTimer := True, bd_slots := ['':1.7'']\<rparr>"
  have "\<not> is_running (bd_reinforceJob ?s)" by (simp add: is_running_def newJob_def)
  moreover have "is_running (bd_reinforceJob (brd_step ?s (BReinforceTimer sample_de)))"
    by (simp add: brd_step_def reinforce_timer_def newJob_def runAsync_def runInit_def is_running_def qm_values_def Let_def)
  ultimately show ?thesis using reinforcement_starts_after_scan by blast
qed

theorem refused_reinforcement_silences_scan_witness:
  "\<exists>t u v. reinforce sample_de '':1.7'' [''none''] sample_brd = Some t \<and> Scan sample_de (Some '':1.8'') [''password-expired''] t = Some u
     \<and> scanResultHandle sample_de (newJob 9) (jb_jobResult (newJob 9)) BR_JOB_STATE_RUNNING u = Some v \<and> d_effects v = d_effects u"
proof -
  have "reinforce sample_de '':1.7'' [''none''] sample_brd \<noteq> None" by code_simp
  then obtain t where t: "reinforce sample_de '':1.7'' [''none''] sample_brd = Some t" by blast
  have "Option.bind (reinforce sample_de '':1.7'' [''none''] sample_brd) (Scan sample_de (Some '':1.8'') [''password-expired'']) \<noteq> None" by code_simp
  then obtain u where u: "Scan sample_de (Some '':1.8'') [''password-expired''] t = Some u" by (auto simp: t)
  obtain v where v: "scanResultHandle sample_de (newJob 9) (jb_jobResult (newJob 9)) BR_JOB_STATE_RUNNING u = Some v"
    by (simp add: scanResultHandle_def newJob_def)
  have "getReinforcement ''none'' sample_brd = None" by code_simp
  moreover have "\<not> is_running (bd_reinforceJob sample_brd)" "\<not> is_running (bd_scanJob sample_brd)"
    by (simp_all add: is_running_def sample_brd_fields)
  ultimately have "d_effects v = d_effects u" using refused_reinforcement_silences_scan [OF _ _ _ t u v] by blast
  with t u v show ?thesis by blast
qed

end
