(* ===== verification/BRPage.thy ===== *)
theory BRPage
  imports BRItems BRSystem
begin

text \<open>
  The scan page of the user interface, \<open>src/ui/br/scan.cpp\<close>, with its reinforcement items
  (\<open>reinforcement-items\<close>) and the reading and writing of what the daemon exchanges with it
  (\<open>utils.cpp\<close>). What the daemon answers is an argument of the operation. A document is the list of its elements, as the code generated from the schema
  hands it over; \<open>None\<close> is a crash: an optional element that is missing is read, or a list is read past its end.
\<close>

section \<open>Reinforcement items\<close>

record ui_arg =
  ua_name :: string
  ua_json :: qjson
  ua_widget :: string
  ua_limits :: string
  ua_example :: string
  ua_label :: string
  ua_note :: string

record ui_item =
  ut_name :: string
  ut_label :: string
  ut_description :: string
  ut_category :: string
  ut_args :: "ui_arg list"
  ut_state :: int
  ut_scanState :: int
  ut_fastenState :: int
  ut_checkStatus :: bool
  ut_error :: string
  ut_changeFlag :: bool

record ui_category =
  uc_name :: string
  uc_label :: string
  uc_icon :: string
  uc_items :: "ui_item list"

text \<open>What the document holds beside the daemon's own data: texts in several languages, and the layout of each parameter.\<close>

type_synonym lang_texts = "(string option \<times> string) list"

record xml_layout =
  xl_layout :: "(lang_texts \<times> string) option"
  xl_limits :: "string option"
  xl_notes :: lang_texts

record xml_reinforcement = reinforcement +
  xr_labels :: lang_texts
  xr_descriptions :: lang_texts
  xr_layouts :: "xml_layout list"        \<comment> \<open>of the elements of \<open>rf_args\<close>, in their order\<close>

record page_env =
  pe_locale :: string
  pe_translate :: "string \<Rightarrow> string \<Rightarrow> string"
  pe_hosts :: bool                              \<comment> \<open>\<open>/etc/hosts.allow\<close> exists\<close>
  pe_json :: "string \<Rightarrow> qjson option"
  pe_brd :: brd_env

definition HOSTS_LIMIT :: string where "HOSTS_LIMIT = ''external-hosts-login-limit''"

text \<open>\<open>find\<close> returns the first of the name; what is assigned to the result changes that one.\<close>

definition find_item :: "string \<Rightarrow> ui_item list \<Rightarrow> ui_item option" where
  "find_item name items = List.find (\<lambda>x. ut_name x = name) items"

fun upd_item :: "string \<Rightarrow> (ui_item \<Rightarrow> ui_item) \<Rightarrow> ui_item list \<Rightarrow> ui_item list" where
  "upd_item name f [] = []"
| "upd_item name f (x # xs) = (if ut_name x = name then f x # xs else x # upd_item name f xs)"

definition find_arg :: "string \<Rightarrow> ui_arg list \<Rightarrow> ui_arg option" where
  "find_arg name as = List.find (\<lambda>a. ua_name a = name) as"

fun upd_arg :: "string \<Rightarrow> (ui_arg \<Rightarrow> ui_arg) \<Rightarrow> ui_arg list \<Rightarrow> ui_arg list" where
  "upd_arg name f [] = []"
| "upd_arg name f (a # as) = (if ua_name a = name then f a # as else a # upd_arg name f as)"

definition on_items :: "(ui_item list \<Rightarrow> ui_item list) \<Rightarrow> ui_category \<Rightarrow> ui_category" where
  "on_items f c = c\<lparr>uc_items := f (uc_items c)\<rparr>"

definition category_clearState :: "int \<Rightarrow> ui_category \<Rightarrow> ui_category" where
  "category_clearState state = on_items (map (\<lambda>x. x\<lparr>ut_state := state\<rparr>))"

section \<open>Reading what the daemon sends\<close>

definition pick_text :: "string \<Rightarrow> lang_texts \<Rightarrow> string" where
  "pick_text locale texts =
     fold (\<lambda>(lang, x) acc. case lang of None \<Rightarrow> x | Some l \<Rightarrow> if l = locale then x else acc) texts []"

definition strip_lead :: "string \<Rightarrow> string" where
  "strip_lead key = (case key of c # r \<Rightarrow> if c = CHR '' '' then dropWhile is_space key else key | [] \<Rightarrow> key)"

definition noop_parts :: "string \<Rightarrow> string list" where
  "noop_parts text =
     map strip_lead (filter (\<lambda>key. key \<noteq> [] \<and> key \<notin> {'','', '', '', ''QT_TRANSLATE_NOOP('', ''QT_TRANSLATE_NOOP_UTF8('', '')''})
       (split text ''\"''))"

definition noop2Translate :: "page_env \<Rightarrow> string \<Rightarrow> string" where
  "noop2Translate env text =
     (let l = noop_parts text in if length l \<noteq> 2 then text else pe_translate env (l ! 0) (l ! 1))"

definition member_string :: "string \<Rightarrow> json \<Rightarrow> string" where
  "member_string k j = (case j of JObj m \<Rightarrow> (case map_of m k of Some (JStr s) \<Rightarrow> s | _ \<Rightarrow> []) | _ \<Rightarrow> [])"

definition jsonParsing :: "page_env \<Rightarrow> json \<Rightarrow> ui_category list \<Rightarrow> ui_category list" where
  "jsonParsing env j cats = cats @
     (case j of
        JObj m \<Rightarrow> (case map_of m ''items'' of
            Some (JArr xs) \<Rightarrow> map (\<lambda>x. \<lparr>uc_name = member_string ''name'' x, uc_label = pe_translate env ''ini'' (member_string ''label'' x),
                uc_icon = member_string ''icon_name'' x, uc_items = []\<rparr>) xs
          | _ \<Rightarrow> [])
      | _ \<Rightarrow> [])"

definition read_arg :: "page_env \<Rightarrow> arg \<Rightarrow> xml_layout \<Rightarrow> ui_arg option" where
  "read_arg env a l =
     (case xl_layout l of
        None \<Rightarrow> None
      | Some (labels, widget) \<Rightarrow> (case xl_limits l of
            None \<Rightarrow> None
          | Some limits \<Rightarrow> Some
              \<lparr>ua_name = ar_name a, ua_json = str2jsonValue (ar_value a), ua_widget = widget, ua_limits = limits,
               ua_example = (case ar_input_example a of None \<Rightarrow> [] | Some e \<Rightarrow> e),
               ua_label = noop2Translate env (pick_text (pe_locale env) labels),
               ua_note = noop2Translate env (pick_text (pe_locale env) (xl_notes l))\<rparr>))"

fun read_args :: "page_env \<Rightarrow> arg list \<Rightarrow> xml_layout list \<Rightarrow> ui_arg list option" where
  "read_args env (a # as) (l # ls) =
     (case read_arg env a l of None \<Rightarrow> None | Some u \<Rightarrow> map_option (Cons u) (read_args env as ls))"
| "read_args env _ _ = Some []"

definition read_item :: "page_env \<Rightarrow> xml_reinforcement \<Rightarrow> ui_item option" where
  "read_item env r =
     (case (read_args env (rf_args r) (xr_layouts r), rf_category r) of
        (Some as, Some c) \<Rightarrow> Some
          \<lparr>ut_name = rf_name r, ut_label = noop2Translate env (pick_text (pe_locale env) (xr_labels r)),
           ut_description = noop2Translate env (pick_text (pe_locale env) (xr_descriptions r)), ut_category = c, ut_args = as,
           ut_state = 0, ut_scanState = 4, ut_fastenState = 64, ut_checkStatus = False, ut_error = [], ut_changeFlag = False\<rparr>
      | _ \<Rightarrow> None)"

fun add_item :: "page_env \<Rightarrow> ui_item \<Rightarrow> ui_category list \<Rightarrow> ui_category list" where
  "add_item env x [] = []"
| "add_item env x (c # cs) =
     (if uc_name c \<noteq> ut_category x then c # add_item env x cs
      else if ut_name x = HOSTS_LIMIT \<and> \<not> pe_hosts env then c # cs
      else on_items (\<lambda>xs. xs @ [x]) c # cs)"

fun ssrReinforcements :: "page_env \<Rightarrow> xml_reinforcement list \<Rightarrow> ui_category list \<Rightarrow> ui_category list option" where
  "ssrReinforcements env [] cats = Some cats"
| "ssrReinforcements env (r # rs) cats =
     (case read_item env r of None \<Rightarrow> None | Some x \<Rightarrow> ssrReinforcements env rs (add_item env x cats))"

definition ssrResetReinforcement :: "reinforcement list \<Rightarrow> string \<Rightarrow> string \<Rightarrow> string" where
  "ssrResetReinforcement rs categoryName argName =
     (case List.find (\<lambda>a. ar_name a = argName) (concat (map rf_args (filter (\<lambda>r. rf_name r = categoryName) rs))) of
        None \<Rightarrow> [] | Some a \<Rightarrow> ar_value a)"

definition ssrResetReinforcements :: "reinforcement list \<Rightarrow> ui_category list \<Rightarrow> ui_category list" where
  "ssrResetReinforcements rs cats =
     fold (\<lambda>r. fold (\<lambda>a. map (on_items (upd_item (rf_name r)
         (\<lambda>x. x\<lparr>ut_args := upd_arg (ar_name a) (\<lambda>u. u\<lparr>ua_json := str2jsonValue (ar_value a)\<rparr>) (ut_args x)\<rparr>)))) (rf_args r))
       rs cats"

section \<open>The list made from the categories\<close>

text \<open>\<open>setItem\<close>: every row gets an unchecked box; the signals on the way change nothing more.\<close>

definition setItem :: "page_env \<Rightarrow> ui_category list \<Rightarrow> item_table" where
  "setItem env cats =
     \<lparr>it_rows = map (\<lambda>c. \<lparr>tc_text = uc_label c, tc_check = Some Unchecked, tc_checkable = True,
          tc_items = map (\<lambda>x. \<lparr>ti_text = ut_label x, ti_check = Some Unchecked, ti_checkable = True, ti_status = ''-''\<rparr>)
            (filter (\<lambda>x. \<not> (ut_name x = HOSTS_LIMIT \<and> \<not> pe_hosts env)) (uc_items c))\<rparr>) cats,
      it_header = Unchecked, it_closed = False, it_count = 0\<rparr>"

lemma setItem_boxes_ok: "boxes_ok (setItem env cats)"
proof -
  have "agg (map (\<lambda>x. \<lparr>ti_text = ut_label x, ti_check = Some Unchecked, ti_checkable = True, ti_status = ''-''\<rparr>) xs) = Unchecked"
    if "xs \<noteq> []" for xs
    using that by (cases xs) (auto simp: agg_def check_of_def)
  from this [symmetric] show ?thesis by (auto simp: setItem_def boxes_ok_def cat_ok_def header_of_def check_of_def comp_def)
qed

section \<open>Changed parameters\<close>

definition write_args :: "page_env \<Rightarrow> ui_arg list \<Rightarrow> arg list \<Rightarrow> arg list" where
  "write_args env us = map (\<lambda>a :: arg. case find_arg (ar_name a) us of
     None \<Rightarrow> a | Some u \<Rightarrow> a\<lparr>ar_value := variant_string (pe_brd env) (ua_json u)\<rparr>)"

text \<open>The loop goes through the categories by counting: \<open>index\<close> is the category, \<open>count\<close> the place in it.\<close>

fun set_loop :: "page_env \<Rightarrow> nat \<Rightarrow> nat \<Rightarrow> reinforcement list \<Rightarrow> ui_category list \<Rightarrow> (reinforcement list \<times> ui_category list) option" where
  "set_loop env place index [] cats = Some ([], cats)"
| "set_loop env place index (r # rs) cats =
     (if length cats \<le> index then None
      else let beyond = length (uc_items (cats ! index)) < place + 1;
               place = (if beyond then 1 else place + 1); index = (if beyond then index + 1 else index)
        in if rf_name r = HOSTS_LIMIT \<and> \<not> pe_hosts env then set_loop env (place - 1) index rs cats
           else if length cats \<le> index then None
           else case find_item (rf_name r) (uc_items (cats ! index)) of
               None \<Rightarrow> set_loop env place index rs cats
             | Some x \<Rightarrow>
                 if \<not> ut_changeFlag x then set_loop env place index rs cats
                 else map_option (\<lambda>(out, cats). (r\<lparr>rf_args := write_args env (ut_args x) (rf_args r)\<rparr> # out, cats))
                   (set_loop env place index rs
                      (cats[index := on_items (upd_item (rf_name r) (\<lambda>x. x\<lparr>ut_changeFlag := False\<rparr>)) (cats ! index)])))"

definition ssrSetReinforcement :: "page_env \<Rightarrow> reinforcement list \<Rightarrow> ui_category list \<Rightarrow> (reinforcement list \<times> ui_category list) option" where
  "ssrSetReinforcement env rs cats = set_loop env 0 0 rs cats"

definition all_ui :: "ui_category list \<Rightarrow> ui_item list" where
  "all_ui cats = concat (map uc_items cats)"

definition visible :: "page_env \<Rightarrow> reinforcement \<Rightarrow> bool" where
  "visible env r \<longleftrightarrow> \<not> (rf_name r = HOSTS_LIMIT \<and> \<not> pe_hosts env)"

definition clear_flags :: "string set \<Rightarrow> ui_category list \<Rightarrow> ui_category list" where
  "clear_flags N = map (on_items (map (\<lambda>x. if ut_name x \<in> N then x\<lparr>ut_changeFlag := False\<rparr> else x)))"

definition changed_values :: "page_env \<Rightarrow> ui_item list \<Rightarrow> reinforcement list \<Rightarrow> reinforcement list" where
  "changed_values env items rs =
     concat (map (\<lambda>r. case find_item (rf_name r) items of
         None \<Rightarrow> [] | Some x \<Rightarrow> if ut_changeFlag x then [r\<lparr>rf_args := write_args env (ut_args x) (rf_args r)\<rparr>] else []) rs)"

lemma find_item_iff: "distinct (map ut_name items) \<Longrightarrow> find_item n items = Some x \<longleftrightarrow> x \<in> set items \<and> ut_name x = n"
  by (induction items) (auto simp: find_item_def image_iff)

lemma find_item_cong:
  assumes "distinct (map ut_name xs)" "set ys \<subseteq> set xs" "distinct (map ut_name ys)" "n \<in> ut_name ` set ys"
  shows "find_item n ys = find_item n xs"
proof -
  from assms(4) obtain y where y: "y \<in> set ys" "ut_name y = n" by auto
  then have "find_item n ys = Some y" "find_item n xs = Some y"
    using assms(1-3) by (auto simp: find_item_iff)
  then show ?thesis by simp
qed

lemma upd_item_eq:
  "distinct (map ut_name xs) \<Longrightarrow> upd_item n f xs = map (\<lambda>x. if ut_name x = n then f x else x) xs"
  by (induction xs) (auto simp: image_def intro!: map_idI [symmetric])

lemma clear_flags_names [simp]:
  "i < length cats \<Longrightarrow> map ut_name (uc_items (clear_flags N cats ! i)) = map ut_name (uc_items (cats ! i))"
  by (simp add: clear_flags_def on_items_def comp_def if_distrib [of ut_name] cong: if_cong)

lemma all_ui_clear: "all_ui (clear_flags N cats) = map (\<lambda>x. if ut_name x \<in> N then x\<lparr>ut_changeFlag := False\<rparr> else x) (all_ui cats)"
  by (simp add: all_ui_def clear_flags_def on_items_def map_concat comp_def)

lemma all_ui_clear_names [simp]: "map ut_name (all_ui (clear_flags N cats)) = map ut_name (all_ui cats)"
  by (simp add: all_ui_clear comp_def if_distrib [of ut_name] cong: if_cong)

lemma clear_flags_twice: "clear_flags N (clear_flags M cats) = clear_flags (M \<union> N) cats"
  by (auto simp: clear_flags_def on_items_def comp_def)

lemma clear_flags_frame [simp]:
  "length (clear_flags N cats) = length cats"
  "clear_flags {} cats = cats"
  "drop k (clear_flags N cats) = clear_flags N (drop k cats)"
  "i < length cats \<Longrightarrow> length (uc_items (clear_flags N cats ! i)) = length (uc_items (cats ! i))"
  "(\<forall>c \<in> set (clear_flags N cats). uc_items c \<noteq> []) = (\<forall>c \<in> set cats. uc_items c \<noteq> [])"
  by (auto simp: clear_flags_def on_items_def drop_map map_idI)

lemma find_item_clear: "n \<notin> N \<Longrightarrow> find_item n (all_ui (clear_flags N cats)) = find_item n (all_ui cats)"
proof -
  assume n: "n \<notin> N"
  have "find_item n (map (\<lambda>x. if ut_name x \<in> N then x\<lparr>ut_changeFlag := False\<rparr> else x) xs) = find_item n xs" for xs
    using n by (induction xs) (auto simp: find_item_def)
  then show ?thesis by (simp add: all_ui_clear)
qed

lemma changed_values_clear:
  assumes "n \<notin> rf_name ` set rs"
  shows "changed_values env (all_ui (clear_flags {n} cats)) rs = changed_values env (all_ui cats) rs"
proof -
  have "find_item (rf_name r) (all_ui (clear_flags {n} cats)) = find_item (rf_name r) (all_ui cats)" if "r \<in> set rs" for r
    using that assms by (intro find_item_clear) auto
  then show ?thesis unfolding changed_values_def by (simp cong: map_cong)
qed

lemma clear_flags_idle:
  assumes "\<forall>x \<in> set (all_ui cats). ut_name x = n \<longrightarrow> \<not> ut_changeFlag x"
  shows "clear_flags {n} cats = cats"
proof -
  have same: "\<not> ut_changeFlag x \<Longrightarrow> x\<lparr>ut_changeFlag := False\<rparr> = x" for x by (cases x) simp
  have "(if ut_name x \<in> {n} then x\<lparr>ut_changeFlag := False\<rparr> else x) = x" if "c \<in> set cats" "x \<in> set (uc_items c)" for c x
    using assms that same unfolding all_ui_def by auto
  then have "map (\<lambda>x. if ut_name x \<in> {n} then x\<lparr>ut_changeFlag := False\<rparr> else x) (uc_items c) = uc_items c" if "c \<in> set cats" for c
    using that by (intro map_idI) blast
  then have "on_items (map (\<lambda>x. if ut_name x \<in> {n} then x\<lparr>ut_changeFlag := False\<rparr> else x)) c = c" if "c \<in> set cats" for c
    using that by (simp add: on_items_def)
  then show ?thesis unfolding clear_flags_def by (rule map_idI)
qed

lemma clear_one:
  assumes "distinct (map ut_name (all_ui cats))" "i < length cats" "n \<in> ut_name ` set (uc_items (cats ! i))"
  shows "cats[i := on_items (upd_item n (\<lambda>x. x\<lparr>ut_changeFlag := False\<rparr>)) (cats ! i)] = clear_flags {n} cats"
proof -
  define pre c post where "pre = take i cats" and "c = cats ! i" and "post = drop (Suc i) cats"
  have cats: "cats = pre @ c # post" "length pre = i"
    using assms(2) by (simp_all add: pre_def c_def post_def id_take_nth_drop [symmetric])
  have "distinct (map ut_name (all_ui pre @ uc_items c @ all_ui post))" using assms(1) unfolding cats(1) by (simp add: all_ui_def)
  moreover have "n \<in> ut_name ` set (uc_items c)" using assms(3) by (simp add: c_def)
  ultimately have d: "distinct (map ut_name (uc_items c))" "n \<notin> ut_name ` set (all_ui pre)" "n \<notin> ut_name ` set (all_ui post)" by auto
  have "clear_flags {n} cats = clear_flags {n} pre @ clear_flags {n} [c] @ clear_flags {n} post"
    by (simp add: cats(1) clear_flags_def)
  also have "\<dots> = pre @ [on_items (upd_item n (\<lambda>x. x\<lparr>ut_changeFlag := False\<rparr>)) c] @ post"
    using d by (subst (1 2) clear_flags_idle) (auto simp: clear_flags_def on_items_def upd_item_eq)
  finally show ?thesis unfolding cats(1) cats(2) [symmetric] by simp
qed

lemma all_ui_drop: "i < length cats \<Longrightarrow> all_ui (drop i cats) = uc_items (cats ! i) @ all_ui (drop (Suc i) cats)"
  by (simp add: all_ui_def Cons_nth_drop_Suc [symmetric])

lemma all_ui_in: "i < length cats \<Longrightarrow> x \<in> set (uc_items (cats ! i)) \<Longrightarrow> x \<in> set (all_ui cats)"
  by (auto simp: all_ui_def)

lemma distinct_cat: "distinct (map ut_name (all_ui cats)) \<Longrightarrow> i < length cats \<Longrightarrow> distinct (map ut_name (uc_items (cats ! i)))"
proof -
  assume d: "distinct (map ut_name (all_ui cats))" and i: "i < length cats"
  have "all_ui cats = all_ui (take i cats) @ uc_items (cats ! i) @ all_ui (drop (Suc i) cats)"
    using id_take_nth_drop [OF i] unfolding all_ui_def by (metis concat.simps(2) concat_append list.simps(9) map_append)
  with d show ?thesis by simp
qed

text \<open>The place in the categories goes along with the elements, when they come in the same order and no category is empty.\<close>

lemma set_loop_eq:
  assumes "distinct (map ut_name (all_ui cats))" "\<forall>c \<in> set cats. uc_items c \<noteq> []" "distinct (map rf_name rs)"
    and "index < length cats" "place \<le> length (uc_items (cats ! index))"
    and "map ut_name (drop place (uc_items (cats ! index)) @ all_ui (drop (Suc index) cats)) = map rf_name (filter (visible env) rs)"
  shows "set_loop env place index rs cats =
     Some (changed_values env (all_ui cats) (filter (visible env) rs), clear_flags (rf_name ` set (filter (visible env) rs)) cats)"
  using assms
proof (induction rs arbitrary: place index cats)
  case Nil
  then show ?case by (simp add: changed_values_def)
next
  case (Cons r rs)
  note prems = Cons.prems
  define beyond where "beyond = (length (uc_items (cats ! index)) < place + 1)"
  define p where "p = (if beyond then 1 else place + 1)"
  define i where "i = (if beyond then index + 1 else index)"
  have loop: "set_loop env place index (r # rs) cats =
      (if \<not> visible env r then set_loop env (p - 1) i rs cats
       else if length cats \<le> i then None
       else case find_item (rf_name r) (uc_items (cats ! i)) of
           None \<Rightarrow> set_loop env p i rs cats
         | Some x \<Rightarrow> if \<not> ut_changeFlag x then set_loop env p i rs cats
             else map_option (\<lambda>(out, cats). (r\<lparr>rf_args := write_args env (ut_args x) (rf_args r)\<rparr> # out, cats))
               (set_loop env p i rs (cats[i := on_items (upd_item (rf_name r) (\<lambda>x. x\<lparr>ut_changeFlag := False\<rparr>)) (cats ! i)])))"
    using prems(4) unfolding set_loop.simps(2) Let_def beyond_def [symmetric] p_def [symmetric] i_def [symmetric] visible_def by simp
  have place: "drop (p - 1) (uc_items (cats ! i)) @ all_ui (drop (Suc i) cats) =
      drop place (uc_items (cats ! index)) @ all_ui (drop (Suc index) cats)" "p - 1 < length (uc_items (cats ! i))" "0 < p"
    if "i < length cats"
    using that prems(2,5) by (auto simp: beyond_def p_def i_def all_ui_drop split: if_splits)
  have i_le: "i \<le> length cats" using prems(4) by (simp add: i_def)
  have ended: "filter (visible env) (r # rs) = []" if "\<not> i < length cats"
    using that prems(4,5,6) by (auto simp: i_def beyond_def all_ui_def split: if_splits)
  show ?case
  proof (cases "visible env r")
    case False
    show ?thesis
    proof (cases "i < length cats")
      case True
      have "map ut_name (drop (p - 1) (uc_items (cats ! i)) @ all_ui (drop (Suc i) cats)) = map rf_name (filter (visible env) rs)"
        unfolding place(1) [OF True] using prems(6) False by simp
      then show ?thesis using Cons.IH [OF prems(1,2) _ True _] prems(3) place(2) [OF True] False unfolding loop by simp
    next
      case out: False
      have "rf_name r' \<noteq> HOSTS_LIMIT" if "r' \<in> set rs" for r'
        using prems(3) that False by (force simp: visible_def image_iff)
      then have "filter (visible env) rs = rs" by (intro filter_True) (auto simp: visible_def)
      with ended [OF out] have "rs = []" by (simp split: if_splits)
      then show ?thesis using False unfolding loop by (simp add: changed_values_def)
    qed
  next
    case True
    have i: "i < length cats" using ended True by (auto split: if_splits)
    define x where "x = uc_items (cats ! i) ! (p - 1)"
    have dx: "drop (p - 1) (uc_items (cats ! i)) = x # drop p (uc_items (cats ! i))"
      using place(2,3) [OF i] by (metis Cons_nth_drop_Suc Suc_diff_1 x_def)
    have "map ut_name (drop (p - 1) (uc_items (cats ! i)) @ all_ui (drop (Suc i) cats)) = map rf_name (filter (visible env) (r # rs))"
      unfolding place(1) [OF i] by (rule prems(6))
    with True have x: "ut_name x = rf_name r"
      "map ut_name (drop p (uc_items (cats ! i)) @ all_ui (drop (Suc i) cats)) = map rf_name (filter (visible env) rs)"
      unfolding dx by simp_all
    have x_in: "x \<in> set (uc_items (cats ! i))" "p \<le> length (uc_items (cats ! i))" using place(2,3) [OF i] by (auto simp: x_def)
    have find: "find_item (rf_name r) (uc_items (cats ! i)) = Some x" "find_item (rf_name r) (all_ui cats) = Some x"
      using x(1) x_in(1) all_ui_in [OF i x_in(1)] by (simp_all add: find_item_iff prems(1) distinct_cat [OF prems(1) i])
    define cats' where "cats' = clear_flags {rf_name r} cats"
    let ?vs = "filter (visible env) rs"
    have upd: "cats[i := on_items (upd_item (rf_name r) (\<lambda>x. x\<lparr>ut_changeFlag := False\<rparr>)) (cats ! i)] = cats'"
      unfolding cats'_def using x(1) x_in(1) by (intro clear_one [OF prems(1) i]) (metis imageI)
    have fresh: "rf_name r \<notin> rf_name ` set ?vs" using prems(3) by auto
    have IH: "set_loop env p i rs cats' = Some (changed_values env (all_ui cats') ?vs, clear_flags (rf_name ` set ?vs) cats')"
    proof -
      have "map ut_name (drop p (uc_items (cats' ! i))) = map ut_name (drop p (uc_items (cats ! i)))"
        by (simp add: drop_map [symmetric] cats'_def i)
      then show ?thesis using Cons.IH [of cats' i p] prems(1-3) i x(2) x_in(2) by (simp add: cats'_def)
    qed
    have vals: "changed_values env (all_ui cats') ?vs = changed_values env (all_ui cats) ?vs"
      "clear_flags (rf_name ` set ?vs) cats' = clear_flags (rf_name ` set (filter (visible env) (r # rs))) cats"
      using True changed_values_clear [OF fresh] by (simp_all add: cats'_def clear_flags_twice)
    have "cats' = cats" if "\<not> ut_changeFlag x"
      unfolding cats'_def using that find(2) prems(1) by (intro clear_flags_idle) (auto simp: find_item_iff inj_on_def distinct_map)
    then show ?thesis using True i find IH vals unfolding loop by (auto simp: upd changed_values_def)
  qed
qed

section \<open>The dialog\<close>

record arg_transfer =
  at_category :: string
  at_arg :: string
  at_value :: string
  at_widget :: string

text \<open>A text field hands its text over as it is, another field as what the text stands for.\<close>

definition transfer_json :: "arg_transfer \<Rightarrow> qjson" where
  "transfer_json t = (if at_widget t = ''TEXT'' then QString (at_value t) else str2jsonValue (at_value t))"

definition apply_transfer :: "arg_transfer \<Rightarrow> ui_category list \<Rightarrow> ui_category list" where
  "apply_transfer t = map (on_items (upd_item (at_category t)
     (\<lambda>x. if find_arg (at_arg t) (ut_args x) = None then x
           else x\<lparr>ut_changeFlag := True,
                  ut_args := upd_arg (at_arg t) (\<lambda>u. u\<lparr>ua_json := transfer_json t, ua_widget := at_widget t\<rparr>) (ut_args x)\<rparr>)))"

text \<open>The slot of the dialog's button: the reinforcements to send to the daemon, and the categories.\<close>

definition setReinforcement :: "page_env \<Rightarrow> reinforcement list \<Rightarrow> arg_transfer list \<Rightarrow> ui_category list
    \<Rightarrow> (reinforcement list \<times> ui_category list) option" where
  "setReinforcement env reply transfers cats = ssrSetReinforcement env reply (fold apply_transfer transfers cats)"

definition send_all :: "brd_env \<Rightarrow> (reinforcement \<Rightarrow> string) \<Rightarrow> string \<Rightarrow> reinforcement list \<Rightarrow> brd \<Rightarrow> brd" where
  "send_all env xml caller out s = fold (\<lambda>r. SetReinforcement env caller (xml r)) out s"

text \<open>What a parameter of the user's file becomes by the reinforcements sent, one after the other.\<close>

lemma send_one:
  assumes "de_parse env (xml r) = Some r" "ev_ra_failure (de_config env) = None"
  shows "SetReinforcement env caller (xml r) s = snd (setCustomRa (de_config env) r s)"
    and "readRaFromFile (SetReinforcement env caller (xml r) s) = merge_custom r (readRaFromFile s)"
    and "getFixedRs (de_config env) (SetReinforcement env caller (xml r) s) = getFixedRs (de_config env) s"
proof -
  let ?t = "s\<lparr>br_ra_file := Some (merge_custom r (readRaFromFile s))\<rparr>"
  have set: "setCustomRa (de_config env) r s = (True, reloadRs (de_config env) ?t)"
    using assms(2) by (simp add: setCustomRa_def writeRaToFile_def)
  then show one: "SetReinforcement env caller (xml r) s = snd (setCustomRa (de_config env) r s)"
    using assms(1) by (simp add: SetReinforcement_def)
  show "readRaFromFile (SetReinforcement env caller (xml r) s) = merge_custom r (readRaFromFile s)"
    unfolding one set by (simp add: readRaFromFile_def reloadRs_def)
  show "getFixedRs (de_config env) (SetReinforcement env caller (xml r) s) = getFixedRs (de_config env) s"
    unfolding one set by (simp add: reloadRs_def getFixedRs_def getStandardType_def getInteger_def)
qed

lemma merge_custom_entries: "n \<noteq> rf_name r \<Longrightarrow> n \<in> rf_name ` set (merge_custom r ra) \<longleftrightarrow> n \<in> rf_name ` set ra"
  by (induction ra) (auto simp: merge_entry_def joinReinforcement_def)

lemma send_all_values:
  assumes "\<forall>r \<in> set out. de_parse env (xml r) = Some r \<and> distinct (map ar_name (rf_args r))"
    and "ev_ra_failure (de_config env) = None" "ra_ok (readRaFromFile s)" "distinct (map rf_name out)"
  shows "ra_ok (readRaFromFile (send_all env xml caller out s))
     \<and> getFixedRs (de_config env) (send_all env xml caller out s) = getFixedRs (de_config env) s
     \<and> overrides (readRaFromFile (send_all env xml caller out s)) n m =
        (case List.find (\<lambda>r. rf_name r = n) out of
           None \<Rightarrow> overrides (readRaFromFile s) n m
         | Some r \<Rightarrow> if n \<in> rf_name ` set (readRaFromFile s)
             then overlay (arg_value m (rf_args r)) (overrides (readRaFromFile s) n m) else arg_value m (rf_args r))"
  using assms
proof (induction out arbitrary: s)
  case Nil
  then show ?case by (simp add: send_all_def)
next
  case (Cons r out)
  let ?s = "SetReinforcement env caller (xml r) s"
  have r: "de_parse env (xml r) = Some r" "distinct (map ar_name (rf_args r))" using Cons.prems(1) by simp_all
  note one = send_one [where env = env and xml = xml and caller = caller and s = s, OF r(1) Cons.prems(2)]
  have merge: "ra_ok (readRaFromFile ?s)" "overrides (readRaFromFile ?s) n m =
      (if n = rf_name r
        then if n \<in> rf_name ` set (readRaFromFile s) then overlay (arg_value m (rf_args r)) (overrides (readRaFromFile s) n m) else arg_value m (rf_args r)
        else overrides (readRaFromFile s) n m)"
    using merge_custom_overrides [OF Cons.prems(3) r(2), of n m] by (simp_all add: one(2))
  have "List.find (\<lambda>r'. rf_name r' = rf_name r) out = None"
    using Cons.prems(4) by (auto simp: find_None_iff image_iff)
  with Cons.IH [of ?s] Cons.prems merge show ?case
    using merge_custom_entries [of n r "readRaFromFile s"] one(2,3)
    by (auto simp: send_all_def cong: option.case_cong)
qed

lemma send_all_reloads:
  assumes "out \<noteq> []" "\<forall>r \<in> set out. de_parse env (xml r) = Some r" "ev_ra_failure (de_config env) = None"
  shows "\<exists>u. send_all env xml caller out s = reloadRs (de_config env) u"
  using assms
proof (induction out rule: rev_induct)
  case (snoc r out)
  then show ?case using send_one(1) [where xml = xml and r = r and env = env and caller = caller and s = "send_all env xml caller out s"]
    by (auto simp: send_all_def setCustomRa_def writeRaToFile_def)
qed simp

lemma send_all_used:
  assumes "\<forall>r \<in> set out. de_parse env (xml r) = Some r \<and> distinct (map ar_name (rf_args r))"
    and "ev_ra_failure (de_config env) = None" "ra_ok (readRaFromFile s)" "distinct (map rf_name out)" "out \<noteq> []"
    and "getFixedRs (de_config env) s = Some rs" "i < length rs"
  shows "used_value (send_all env xml caller out s) i m =
     overlay (overrides (readRaFromFile (send_all env xml caller out s)) (rf_name (rs ! i)) m) (arg_value m (rf_args (rs ! i)))"
proof -
  obtain u where u: "send_all env xml caller out s = reloadRs (de_config env) u"
    using send_all_reloads [of out env xml] assms(1,2,5) by blast
  note sent = send_all_values [OF assms(1-4), of caller]
  have "readRaFromFile (reloadRs (de_config env) u) = readRaFromFile u" by (simp add: readRaFromFile_def reloadRs_def)
  moreover have "getFixedRs (de_config env) (reloadRs (de_config env) u) = getFixedRs (de_config env) u"
    by (simp add: reloadRs_def getFixedRs_def getStandardType_def getInteger_def)
  ultimately show ?thesis using reloadRs_values [of "de_config env" u rs i m] sent assms(6,7) by (simp add: u)
qed

text \<open>The transfers of the dialog, for one item.\<close>

definition transfer_item :: "arg_transfer \<Rightarrow> ui_item \<Rightarrow> ui_item" where
  "transfer_item t x =
     (if at_category t = ut_name x \<and> find_arg (at_arg t) (ut_args x) \<noteq> None
      then x\<lparr>ut_changeFlag := True,
             ut_args := upd_arg (at_arg t) (\<lambda>u. u\<lparr>ua_json := transfer_json t, ua_widget := at_widget t\<rparr>) (ut_args x)\<rparr>
      else x)"

lemma transfer_item_name [simp]: "ut_name (transfer_item t x) = ut_name x" "ut_name (fold transfer_item ts x) = ut_name x"
proof -
  show one: "ut_name (transfer_item t x) = ut_name x" for t x by (simp add: transfer_item_def)
  show "ut_name (fold transfer_item ts x) = ut_name x" by (induction ts arbitrary: x) (simp_all add: one)
qed

lemma all_ui_map: "all_ui (map (on_items (map f)) cats) = map f (all_ui cats)"
  by (simp add: all_ui_def on_items_def map_concat comp_def)

lemma apply_transfers_eq:
  assumes "\<forall>c \<in> set cats. distinct (map ut_name (uc_items c))"
  shows "fold apply_transfer ts cats = map (on_items (map (fold transfer_item ts))) cats"
  using assms
proof (induction ts arbitrary: cats)
  case Nil
  then show ?case by (simp add: map_idI on_items_def)
next
  case (Cons t ts)
  have "on_items (upd_item (at_category t) (\<lambda>x. if find_arg (at_arg t) (ut_args x) = None then x
      else x\<lparr>ut_changeFlag := True, ut_args := upd_arg (at_arg t) (\<lambda>u. u\<lparr>ua_json := transfer_json t, ua_widget := at_widget t\<rparr>) (ut_args x)\<rparr>)) c
    = on_items (map (transfer_item t)) c" if "c \<in> set cats" for c
    using that Cons.prems by (auto simp: on_items_def upd_item_eq transfer_item_def intro!: arg_cong [where f = "\<lambda>xs. c\<lparr>uc_items := xs\<rparr>"] map_cong)
  then have one: "apply_transfer t cats = map (on_items (map (transfer_item t))) cats" unfolding apply_transfer_def by (rule map_cong [OF refl])
  have "\<forall>c \<in> set (apply_transfer t cats). distinct (map ut_name (uc_items c))"
    using Cons.prems by (auto simp: one on_items_def comp_def)
  from Cons.IH [OF this] show ?case by (simp add: one on_items_def comp_def)
qed

lemma find_upd_arg:
  assumes "\<And>u. ua_name (f u) = ua_name u"
  shows "find_arg m (upd_arg a f as) = (if m = a then map_option f (find_arg a as) else find_arg m as)"
  by (induction as) (auto simp: find_arg_def assms)

lemma transfers_keep:
  assumes "(at_category t, at_arg t) \<notin> (\<lambda>t. (at_category t, at_arg t)) ` set ts" "at_category t = ut_name x"
  shows "map_option ua_json (find_arg (at_arg t) (ut_args (fold transfer_item ts x))) = map_option ua_json (find_arg (at_arg t) (ut_args x))
     \<and> (ut_changeFlag x \<longrightarrow> ut_changeFlag (fold transfer_item ts x))"
  using assms
proof (induction ts arbitrary: x)
  case (Cons t' ts)
  then have "map_option ua_json (find_arg (at_arg t) (ut_args (transfer_item t' x))) = map_option ua_json (find_arg (at_arg t) (ut_args x))"
    "ut_changeFlag x \<longrightarrow> ut_changeFlag (transfer_item t' x)"
    by (auto simp: transfer_item_def find_upd_arg)
  with Cons show ?case by simp
qed simp

lemma transfers_set:
  assumes "distinct (map (\<lambda>t. (at_category t, at_arg t)) ts)" "t \<in> set ts" "at_category t = ut_name x" "find_arg (at_arg t) (ut_args x) \<noteq> None"
  shows "map_option ua_json (find_arg (at_arg t) (ut_args (fold transfer_item ts x))) = Some (transfer_json t)"
    and "ut_changeFlag (fold transfer_item ts x)"
proof -
  obtain before after where ts: "ts = before @ t # after" using assms(2) by (auto simp: in_set_conv_decomp)
  with assms(1) have keys: "(at_category t, at_arg t) \<notin> (\<lambda>t. (at_category t, at_arg t)) ` set before"
    "(at_category t, at_arg t) \<notin> (\<lambda>t. (at_category t, at_arg t)) ` set after" by auto
  define y where "y = transfer_item t (fold transfer_item before x)"
  have "find_arg (at_arg t) (ut_args (fold transfer_item before x)) \<noteq> None"
    using transfers_keep [OF keys(1) assms(3)] assms(4) by (metis option.map_disc_iff)
  then have y: "map_option ua_json (find_arg (at_arg t) (ut_args y)) = Some (transfer_json t)" "ut_changeFlag y" "at_category t = ut_name y"
    using assms(3) by (auto simp: y_def transfer_item_def find_upd_arg)
  have "fold transfer_item ts x = fold transfer_item after y" by (simp add: ts y_def)
  then show "map_option ua_json (find_arg (at_arg t) (ut_args (fold transfer_item ts x))) = Some (transfer_json t)"
    "ut_changeFlag (fold transfer_item ts x)"
    using transfers_keep [OF keys(2) y(3)] y by simp_all
qed

text \<open>The reinforcements that are sent, and the values in them.\<close>

lemma changed_values_names:
  "map rf_name (changed_values env items rs) =
     map rf_name (filter (\<lambda>r. case find_item (rf_name r) items of None \<Rightarrow> False | Some x \<Rightarrow> ut_changeFlag x) rs)"
  unfolding changed_values_def by (induction rs) (auto split: option.splits)

lemma find_named: "distinct (map rf_name rs) \<Longrightarrow> r \<in> set rs \<Longrightarrow> List.find (\<lambda>r'. rf_name r' = rf_name r) rs = Some r"
  by (induction rs) (auto simp: image_iff)

lemma write_args_names [simp]: "map ar_name (write_args env us as) = map ar_name as"
  by (simp add: write_args_def comp_def) (auto split: option.splits)

lemma write_args_value:
  "find_arg m us = Some u \<Longrightarrow> m \<in> ar_name ` set as \<Longrightarrow> arg_value m (write_args env us as) = Some (variant_string (pe_brd env) (ua_json u))"
  by (induction as) (auto simp: write_args_def split: option.splits)

lemma changed_value_sent:
  assumes "distinct (map rf_name rs)" "r \<in> set rs" "find_item (rf_name r) items = Some x" "ut_changeFlag x"
  shows "List.find (\<lambda>r'. rf_name r' = rf_name r) (changed_values env items rs) = Some (r\<lparr>rf_args := write_args env (ut_args x) (rf_args r)\<rparr>)"
proof -
  have "distinct (map rf_name (changed_values env items rs))"
    unfolding changed_values_names using assms(1) by (rule distinct_map_filter)
  moreover have "r\<lparr>rf_args := write_args env (ut_args x) (rf_args r)\<rparr> \<in> set (changed_values env items rs)"
    using assms(2-4) by (force simp: changed_values_def)
  ultimately show ?thesis using find_named [of "changed_values env items rs" "r\<lparr>rf_args := write_args env (ut_args x) (rf_args r)\<rparr>"] by simp
qed

lemma changed_values_args:
  "r' \<in> set (changed_values env items rs) \<Longrightarrow> \<exists>r \<in> set rs. rf_name r' = rf_name r \<and> map ar_name (rf_args r') = map ar_name (rf_args r)"
  by (force simp: changed_values_def split: option.splits if_splits)

text \<open>C39: What the user enters in the dialog of a reinforcement is in use afterwards: when the daemon lists the
  reinforcements in the order of the page's categories, none of which is empty, the loop that walks through the
  categories by counting sends exactly the changed reinforcements, and in the standard in use every entered parameter then
  has the text of what was entered; no change is left to be sent.\<close>

theorem dialog_values_in_use:
  assumes page: "distinct (map ut_name (all_ui cats))" "\<forall>c \<in> set cats. uc_items c \<noteq> []"
    and reply: "map rf_name (filter (visible env) (GetReinforcements s)) = map ut_name (all_ui cats)"
      "distinct (map rf_name (GetReinforcements s))" "\<forall>r \<in> set (GetReinforcements s). distinct (map ar_name (rf_args r))"
    and xml: "\<forall>out cats'. setReinforcement env (GetReinforcements s) ts cats = Some (out, cats') \<longrightarrow>
      (\<forall>r \<in> set out. de_parse (pe_brd env) (xml r) = Some r)"
    and daemon: "getFixedRs (de_config (pe_brd env)) s = Some rs" "ra_ok (readRaFromFile s)" "ev_ra_failure (de_config (pe_brd env)) = None"
    and entered: "distinct (map (\<lambda>t. (at_category t, at_arg t)) ts)" "t \<in> set ts"
      "x \<in> set (all_ui cats)" "ut_name x = at_category t" "find_arg (at_arg t) (ut_args x) \<noteq> None"
    and known: "r \<in> set (GetReinforcements s)" "rf_name r = at_category t" "at_arg t \<in> ar_name ` set (rf_args r)"
      "i < length rs" "rf_name (rs ! i) = at_category t" "arg_value (at_arg t) (rf_args (rs ! i)) \<noteq> None"
      "\<forall>c \<in> set (readRaFromFile s). rf_name c = at_category t \<longrightarrow> overrides (readRaFromFile s) (at_category t) (at_arg t) \<noteq> None"
  shows "\<exists>out cats'. setReinforcement env (GetReinforcements s) ts cats = Some (out, cats')
     \<and> used_value (send_all (pe_brd env) xml caller out s) i (at_arg t) = Some (variant_string (pe_brd env) (transfer_json t))
     \<and> (\<forall>x \<in> set (all_ui cats'). \<not> ut_changeFlag x)"
proof -
  define cats1 where "cats1 = map (on_items (map (fold transfer_item ts))) cats"
  define reply where "reply = filter (visible env) (GetReinforcements s)"
  define out where "out = changed_values env (all_ui cats1) reply"
  have applied: "fold apply_transfer ts cats = cats1"
    unfolding cats1_def using distinct_cat [OF page(1)] by (intro apply_transfers_eq) (auto simp: in_set_conv_nth)
  have all1: "all_ui cats1 = map (fold transfer_item ts) (all_ui cats)" by (simp add: cats1_def all_ui_map)
  have names: "map ut_name (all_ui cats1) = map ut_name (all_ui cats)" by (simp add: all1 comp_def)
  have ne: "0 < length cats1" using entered(3) by (auto simp: cats1_def all_ui_def)
  have "ssrSetReinforcement env (GetReinforcements s) cats1 = Some (out, clear_flags (rf_name ` set reply) cats1)"
    unfolding ssrSetReinforcement_def out_def reply_def
  proof (rule set_loop_eq)
    show "\<forall>c \<in> set cats1. uc_items c \<noteq> []" using page(2) by (auto simp: cats1_def on_items_def)
    have "uc_items (cats1 ! 0) @ all_ui (drop (Suc 0) cats1) = all_ui cats1" using all_ui_drop [OF ne] by simp
    then show "map ut_name (drop 0 (uc_items (cats1 ! 0)) @ all_ui (drop (Suc 0) cats1)) = map rf_name (filter (visible env) (GetReinforcements s))"
      unfolding drop_0 reply(1) names [symmetric] by simp
  qed (use page(1) reply(2) ne names in simp_all)
  then have loop: "setReinforcement env (GetReinforcements s) ts cats = Some (out, clear_flags (rf_name ` set reply) cats1)"
    by (simp add: setReinforcement_def applied)
  have all_in: "ut_name y \<in> rf_name ` set reply" if "y \<in> set (all_ui cats1)" for y
    using that arg_cong [OF reply(1), of set] names by (metis reply_def image_set imageI list.set_map)
  have "\<forall>y \<in> set (all_ui (clear_flags (rf_name ` set reply) cats1)). \<not> ut_changeFlag y"
    unfolding all_ui_clear using all_in by auto
  moreover have "used_value (send_all (pe_brd env) xml caller out s) i (at_arg t) = Some (variant_string (pe_brd env) (transfer_json t))"
  proof -
    define x1 where "x1 = fold transfer_item ts x"
    obtain u where u: "find_arg (at_arg t) (ut_args x1) = Some u" "ua_json u = transfer_json t" and flag: "ut_changeFlag x1"
      using transfers_set [OF entered(1,2) entered(4) [symmetric] entered(5)] by (auto simp: x1_def)
    have x1: "find_item (rf_name r) (all_ui cats1) = Some x1"
      using entered(3,4) known(2) page(1) by (simp add: find_item_iff names) (simp add: all1 x1_def)
    have dist: "distinct (map rf_name reply)" unfolding reply_def using reply(2) by (rule distinct_map_filter)
    have "rf_name r \<in> rf_name ` set reply"
      using all_in [of x1] x1 by (simp add: find_item_iff page(1) names)
    then have r_in: "r \<in> set reply"
      using known(1) reply(2) unfolding reply_def by (auto simp: distinct_map dest: inj_onD)
    define r' where "r' = r\<lparr>rf_args := write_args env (ut_args x1) (rf_args r)\<rparr>"
    have find: "List.find (\<lambda>r'. rf_name r' = at_category t) out = Some r'"
      using changed_value_sent [OF dist r_in x1 flag] by (simp add: out_def r'_def known(2))
    have val: "arg_value (at_arg t) (rf_args r') = Some (variant_string (pe_brd env) (transfer_json t))"
      using write_args_value [OF u(1) known(3)] u(2) by (simp add: r'_def)
    have sent: "\<forall>r \<in> set out. de_parse (pe_brd env) (xml r) = Some r \<and> distinct (map ar_name (rf_args r))"
    proof -
      have "\<forall>r \<in> set out. distinct (map ar_name (rf_args r))"
        using reply(3) unfolding out_def reply_def by (auto dest!: changed_values_args)
      moreover have "\<forall>r \<in> set out. de_parse (pe_brd env) (xml r) = Some r" using xml loop by blast
      ultimately show ?thesis by blast
    qed
    have dist_out: "distinct (map rf_name out)" unfolding out_def changed_values_names using dist by (rule distinct_map_filter)
    have "out \<noteq> []" using find by auto
    have "overrides (readRaFromFile (send_all (pe_brd env) xml caller out s)) (at_category t) (at_arg t)
        = Some (variant_string (pe_brd env) (transfer_json t))"
      using send_all_values [OF sent daemon(3,2) dist_out, of caller "at_category t" "at_arg t"] find val known(7)
      by (auto simp: overlay_def split: option.splits)
    then show ?thesis
      using send_all_used [OF sent daemon(3,2) dist_out \<open>out \<noteq> []\<close> daemon(1) known(4), of caller "at_arg t"] known(5,6)
      by (auto simp: overlay_def split: option.splits)
  qed
  ultimately show ?thesis using loop by blast
qed

section \<open>The order of the categories\<close>

text \<open>Reading the document puts every reinforcement into its category, in the order of the document.\<close>

lemma add_item_names: "map uc_name (add_item env x cats) = map uc_name cats" "length (add_item env x cats) = length cats"
    "i < length cats \<Longrightarrow> uc_name (add_item env x cats ! i) = uc_name (cats ! i)"
proof -
  show eq: "map uc_name (add_item env x cats) = map uc_name cats" by (induction cats) (auto simp: on_items_def)
  then show len: "length (add_item env x cats) = length cats" by (metis length_map)
  show "i < length cats \<Longrightarrow> uc_name (add_item env x cats ! i) = uc_name (cats ! i)"
    using arg_cong [OF eq, of "\<lambda>xs. xs ! i"] len by simp
qed

lemma add_item_at:
  assumes "distinct (map uc_name cats)" "i < length cats"
  shows "uc_items (add_item env x cats ! i) = uc_items (cats ! i) @
     (if ut_category x = uc_name (cats ! i) \<and> \<not> (ut_name x = HOSTS_LIMIT \<and> \<not> pe_hosts env) then [x] else [])"
  using assms
proof (induction cats arbitrary: i)
  case (Cons c cs)
  show ?case
  proof (cases i)
    case 0
    then show ?thesis using Cons by (cases cs) (auto simp: on_items_def)
  next
    case (Suc j)
    then have j: "j < length cs" "distinct (map uc_name cs)" using Cons.prems by auto
    have "uc_name (cs ! j) \<noteq> uc_name c" using Cons.prems(1) j(1) by (metis distinct.simps(2) length_map list.simps(9) nth_map nth_mem)
    then show ?thesis using Cons.IH [OF j(2,1)] by (auto simp: Suc on_items_def)
  qed
qed simp

lemma ssrReinforcements_at:
  assumes "ssrReinforcements env rs cats = Some cats'" "distinct (map uc_name cats)" "i < length cats"
  shows "map ut_name (uc_items (cats' ! i)) = map ut_name (uc_items (cats ! i)) @
       map rf_name (filter (\<lambda>r. rf_category r = Some (uc_name (cats ! i)) \<and> visible env (reinforcement.truncate r)) rs)
     \<and> map uc_name cats' = map uc_name cats"
  using assms
proof (induction rs arbitrary: cats)
  case (Cons r rs)
  then obtain x where x: "read_item env r = Some x" "ssrReinforcements env rs (add_item env x cats) = Some cats'"
    by (auto split: option.splits)
  then have item: "ut_name x = rf_name r" "rf_category r = Some (ut_category x)"
    by (auto simp: read_item_def split: option.splits)
  note add = add_item_at [OF Cons.prems(2,3), of env x] add_item_names [where env = env and x = x and cats = cats]
  have "distinct (map uc_name (add_item env x cats))" "i < length (add_item env x cats)" using Cons.prems(2,3) add by simp_all
  from Cons.IH [OF x(2) this] add item show ?case
    using Cons.prems(3) by (auto simp: visible_def reinforcement.truncate_def)
qed simp

text \<open>An empty category makes the loop stop at the wrong one: the change of \<open>c\<close> is not sent, and still marked.\<close>

definition ui_sample :: "string \<Rightarrow> bool \<Rightarrow> ui_item" where
  "ui_sample n flag = \<lparr>ut_name = n, ut_label = [], ut_description = [], ut_category = [], ut_args = [], ut_state = 0, ut_scanState = 4,
     ut_fastenState = 64, ut_checkStatus = False, ut_error = [], ut_changeFlag = flag\<rparr>"

definition ui_category_sample :: "ui_item list \<Rightarrow> ui_category" where
  "ui_category_sample xs = \<lparr>uc_name = [], uc_label = [], uc_icon = [], uc_items = xs\<rparr>"

definition named :: "string \<Rightarrow> reinforcement" where
  "named n = \<lparr>rf_name = n, rf_category = None, rf_label = [], rf_description = [], rf_checkbox = None, rf_args = []\<rparr>"

lemma empty_category_loses_change:
  "ssrSetReinforcement env [named ''a'', named ''c''] [ui_category_sample [ui_sample ''a'' False], ui_category_sample [], ui_category_sample [ui_sample ''c'' True]]
     = Some ([], [ui_category_sample [ui_sample ''a'' False], ui_category_sample [], ui_category_sample [ui_sample ''c'' True]])"
  by (simp add: ssrSetReinforcement_def ui_category_sample_def ui_sample_def named_def HOSTS_LIMIT_def find_item_def)

section \<open>A sample\<close>

definition dialog_arg :: "string \<Rightarrow> arg" where
  "dialog_arg v = \<lparr>ar_name = ''max-days'', ar_value = v, ar_rule = None, ar_input_example = None\<rparr>"

definition dialog_reinforcement :: "string \<Rightarrow> reinforcement" where
  "dialog_reinforcement v = sample_reinforcement\<lparr>rf_category := Some ''audit'', rf_args := [dialog_arg v]\<rparr>"

definition dialog_brd :: brd where
  "dialog_brd = br.extend (loadReinforcements (sample_br\<lparr>br_rs := Some [dialog_reinforcement ''90'']\<rparr>)) (br.more sample_brd)"

text \<open>A document is the value of the only parameter.\<close>

definition dialog_env :: page_env where
  "dialog_env = \<lparr>pe_locale = ''zh_CN'', pe_translate = (\<lambda>_ x. x), pe_hosts = True, pe_json = (\<lambda>_. None),
     pe_brd = sample_de\<lparr>de_config := sample_env\<lparr>ev_parse_rs := (\<lambda>_. Some [dialog_reinforcement ''90''])\<rparr>,
       de_parse := (\<lambda>x. Some (dialog_reinforcement x))\<rparr>\<rparr>"

definition dialog_xml :: "reinforcement \<Rightarrow> string" where
  "dialog_xml r = ar_value (hd (rf_args r))"

definition dialog_cats :: "ui_category list" where
  "dialog_cats = [ui_category_sample [(ui_sample ''password-expired'' False)\<lparr>ut_args :=
     [\<lparr>ua_name = ''max-days'', ua_json = QDouble 90, ua_widget = ''TEXT'', ua_limits = [], ua_example = [], ua_label = [], ua_note = []\<rparr>]\<rparr>]]"

definition dialog_entry :: arg_transfer where
  "dialog_entry = \<lparr>at_category = ''password-expired'', at_arg = ''max-days'', at_value = ''30'', at_widget = ''TEXT''\<rparr>"

lemma dialog_reply: "GetReinforcements dialog_brd = [dialog_reinforcement ''90'']"
  by code_simp

lemma dialog_brd_config: "br_settings dialog_brd = []" "readRaFromFile dialog_brd = []"
  using sample_br_config loadReinforcements_fields(2) [of "sample_br\<lparr>br_rs := Some [dialog_reinforcement ''90'']\<rparr>"]
  by (simp_all add: dialog_brd_def br.extend_def) code_simp

lemma dialog_fixed: "getFixedRs (de_config (pe_brd dialog_env)) dialog_brd = Some [dialog_reinforcement ''90'']"
  by (simp add: getFixedRs_def dialog_env_def sample_env_def getStandardType_def getInteger_def s_value_def s_group_def decryptFile_def
      dialog_brd_config)

lemma dialog_sent:
  "map_option fst (setReinforcement dialog_env (GetReinforcements dialog_brd) [dialog_entry] dialog_cats) = Some [dialog_reinforcement ''30'']"
  by code_simp

theorem dialog_values_in_use_witness:
  "\<exists>out cats'. setReinforcement dialog_env (GetReinforcements dialog_brd) [dialog_entry] dialog_cats = Some (out, cats')
     \<and> used_value (send_all (pe_brd dialog_env) dialog_xml '':1.7'' out dialog_brd) 0 ''max-days'' = Some ''30''"
proof -
  define x where "x = hd (all_ui dialog_cats)"
  have cats: "all_ui dialog_cats = [x]" "ut_name x = ''password-expired''" "map ua_name (ut_args x) = [''max-days'']"
    by (simp_all add: x_def dialog_cats_def ui_category_sample_def ui_sample_def all_ui_def)
  have r: "rf_name (dialog_reinforcement v) = ''password-expired''" "rf_args (dialog_reinforcement v) = [dialog_arg v]"
    "ar_name (dialog_arg v) = ''max-days''" "ar_value (dialog_arg v) = v" for v
    by (simp_all add: dialog_reinforcement_def sample_reinforcement_def dialog_arg_def)
  have entry: "at_category dialog_entry = ''password-expired''" "at_arg dialog_entry = ''max-days''"
    "variant_string (pe_brd dialog_env) (transfer_json dialog_entry) = ''30''"
    by (simp_all add: dialog_entry_def variant_string_def transfer_json_def)
  have env: "de_parse (pe_brd dialog_env) x = Some (dialog_reinforcement x)" "ev_ra_failure (de_config (pe_brd dialog_env)) = None"
    "pe_hosts dialog_env" for x by (simp_all add: dialog_env_def sample_env_def)
  have xml: "\<forall>out cats'. setReinforcement dialog_env (GetReinforcements dialog_brd) [dialog_entry] dialog_cats = Some (out, cats') \<longrightarrow>
      (\<forall>r \<in> set out. de_parse (pe_brd dialog_env) (dialog_xml r) = Some r)"
    using dialog_sent by (auto simp: env dialog_xml_def r)
  have arg: "find_arg ''max-days'' (ut_args x) \<noteq> None"
    using cats(3) by (cases "ut_args x") (auto simp: find_arg_def)
  have full: "\<forall>c \<in> set dialog_cats. uc_items c \<noteq> []" by (simp add: dialog_cats_def ui_category_sample_def)
  show ?thesis
    using dialog_values_in_use [where cats = dialog_cats and env = dialog_env and s = dialog_brd and xml = dialog_xml
        and rs = "[dialog_reinforcement ''90'']" and ts = "[dialog_entry]" and t = dialog_entry and x = x
        and r = "dialog_reinforcement ''90''" and i = 0 and caller = "'':1.7''"]
    using full xml arg by (auto simp: cats r entry env dialog_reply dialog_fixed dialog_brd_config visible_def ra_ok_def)
qed

end
