(* ===== verification/BRScanPage.thy ===== *)
theory BRScanPage
  imports BRPage
begin

text \<open>
  The scan page at work, \<open>src/ui/br/scan.cpp\<close>: starting a scan or a reinforcement, the reports of the
  daemon while it runs (\<open>Utils::ssrJobResult\<close>), the list's states, and the progress display with its
  buttons (\<open>progress.cpp\<close>). Texts are those of the source, not their translations; the line with the
  elapsed time is left out.
\<close>

section \<open>The progress display\<close>

datatype process_method = PROCESS_METHOD_SCAN | PROCESS_METHOD_FASTEN

record progress_info =
  pi_jobID :: int
  pi_jobState :: int
  pi_total :: nat
  pi_success :: nat
  pi_failure :: nat
  pi_progress :: rat
  pi_method :: process_method

datatype scan_slot = ScanClicked | ReinforcementClicked | GenerateReportClicked

datatype return_slot = ReturnHomeClicked | CancelClicked

text \<open>A button has at most one slot here: every \<open>connect\<close> follows a \<open>disconnect\<close>.\<close>

record progress_view =
  pv_icon :: string
  pv_timer :: bool
  pv_waitTimer :: bool
  pv_waitTimeOut :: nat
  pv_definition :: string
  pv_scan :: "scan_slot option"
  pv_scanShown :: bool
  pv_return :: "return_slot option"
  pv_report :: bool                \<comment> \<open>the button for the report is shown\<close>
  pv_bar :: bool

definition resetProgress :: "progress_view \<Rightarrow> progress_view" where
  "resetProgress v = v\<lparr>pv_icon := ''INITIAL'', pv_timer := False, pv_definition := ''Security reinforcement is protecting your computer'',
     pv_scan := Some ScanClicked, pv_return := Some ReturnHomeClicked, pv_bar := False, pv_report := False, pv_scanShown := True\<rparr>"

definition updateProgressUI :: "process_method \<Rightarrow> progress_view \<Rightarrow> progress_view" where
  "updateProgressUI how v =
     (let v = v\<lparr>pv_timer := True\<rparr>; v = (if how = PROCESS_METHOD_FASTEN then v\<lparr>pv_report := False\<rparr> else v)
      in v\<lparr>pv_icon := ''WORKING'',
           pv_definition := ''In '' @ (if how = PROCESS_METHOD_SCAN then ''Scan'' else ''Reinforcement'') @ '', please wait...'',
           pv_return := Some CancelClicked, pv_bar := True, pv_scanShown := False, pv_scan := None\<rparr>)"

definition num :: "nat \<Rightarrow> string" where "num n = show_int (int n)"

definition complete_text :: "progress_info \<Rightarrow> string" where
  "complete_text info =
     (if pi_success info = pi_total info
      then (if pi_method info = PROCESS_METHOD_SCAN
            then ''Scanned '' @ num (pi_total info) @ '', '' @ num (pi_success info) @ '' conform!''
            else ''Reinforcement completed '' @ num (pi_total info) @ '', successfully reinforced '' @ num (pi_success info) @ ''!'')
      else (if pi_method info = PROCESS_METHOD_SCAN
            then ''Scanned '' @ num (pi_success info + pi_failure info) @ '', '' @ num (pi_success info) @ '' conform, ''
                 @ num (pi_failure info) @ '' inconform!''
            else ''Reinforcement completed '' @ num (pi_success info + pi_failure info) @ '', successfully reinforced ''
                 @ num (pi_success info) @ '', failed '' @ num (pi_failure info) @ ''!''))"

definition completeProcess :: "progress_info \<Rightarrow> progress_view \<Rightarrow> progress_view" where
  "completeProcess info v =
     (if pi_progress info \<noteq> 100 then v
      else let v = v\<lparr>pv_definition := complete_text info, pv_timer := False, pv_bar := False, pv_scanShown := True, pv_icon := ''FINISHED''\<rparr>
        in if pi_method info = PROCESS_METHOD_SCAN
           then v\<lparr>pv_report := True, pv_return := Some ReturnHomeClicked, pv_scan := Some ReinforcementClicked\<rparr>
           else v\<lparr>pv_scan := Some GenerateReportClicked, pv_return := Some ReturnHomeClicked\<rparr>)"

definition updateProgress :: "progress_info \<Rightarrow> progress_view \<Rightarrow> progress_view" where
  "updateProgress info v = completeProcess info (v\<lparr>pv_bar := True\<rparr>)"

definition stopWorkingProcess :: "progress_view \<Rightarrow> progress_view" where
  "stopWorkingProcess v = v\<lparr>pv_timer := False, pv_waitTimer := True\<rparr>"

text \<open>The signal \<open>waitTimeOut\<close> is the second component; nothing is connected to it.\<close>

definition waitProgress :: "progress_view \<Rightarrow> progress_view \<times> bool" where
  "waitProgress v =
     (let n = pv_waitTimeOut v + 1
      in if n \<le> 120 then (v\<lparr>pv_waitTimeOut := n\<rparr>, False) else (v\<lparr>pv_waitTimeOut := 0, pv_waitTimer := False\<rparr>, True))"

section \<open>The page\<close>

record invalid_data =
  iv_vulnerability :: "string list"
  iv_nouser :: "string list"
  iv_authority :: "string list"
  iv_suid_sgid :: "string list"

datatype page_call = CallScan "string list" | CallReinforce "string list" | CallCancel int | CallGenerateReport bool | CallResetReinforcements

record scan_page =
  sp_categories :: "ui_category list"
  sp_table :: item_table
  sp_info :: progress_info
  sp_view :: progress_view
  sp_strategy :: int
  sp_invalid :: invalid_data
  sp_after :: "ui_category list"
  sp_calls :: "page_call list"
  sp_popups :: "string list"
  sp_onScan :: bool               \<comment> \<open>\<open>ScanProgress\<close> is connected to \<open>runProgress\<close>\<close>
  sp_onReinforce :: bool
  sp_modify :: bool               \<comment> \<open>a double click opens the dialog\<close>
  sp_finished :: nat

abbreviation (input) "BR_STRATEGY_TYPE_CUSTOM \<equiv> (1 :: int)"

definition no_invalid :: invalid_data where
  "no_invalid = \<lparr>iv_vulnerability = [], iv_nouser = [], iv_authority = [], iv_suid_sgid = []\<rparr>"

definition clearInvalidData :: "invalid_data \<Rightarrow> invalid_data" where
  "clearInvalidData d = no_invalid"

definition clearState :: "process_method \<Rightarrow> ui_category list \<Rightarrow> ui_category list" where
  "clearState how = map (\<lambda>c. if uc_items c = [] then c
     else category_clearState (case how of PROCESS_METHOD_FASTEN \<Rightarrow> STATE_UNREINFORCE | PROCESS_METHOD_SCAN \<Rightarrow> STATE_UNSCAN) c)"

definition flushProgressInfo :: "progress_info \<Rightarrow> progress_info" where
  "flushProgressInfo i = i\<lparr>pi_jobID := -1, pi_jobState := -1, pi_success := 0, pi_failure := 0, pi_progress := 0\<rparr>"

text \<open>The rows of the table and the items of the categories go together by their places.\<close>

definition fits :: "ui_category list \<Rightarrow> item_table \<Rightarrow> bool" where
  "fits cats t \<longleftrightarrow> length (it_rows t) \<le> length cats
     \<and> (\<forall>i < length (it_rows t). length (tc_items (it_rows t ! i)) \<le> length (uc_items (cats ! i)))"

fun item_at :: "ui_category list \<Rightarrow> row \<Rightarrow> ui_item" where
  "item_at cats (ItemRow i j) = uc_items (cats ! i) ! j"
| "item_at cats (CatRow i) = hd (uc_items (cats ! i))"

definition mark :: "(row \<Rightarrow> bool) \<Rightarrow> (ui_item \<Rightarrow> ui_item) \<Rightarrow> ui_category list \<Rightarrow> ui_category list" where
  "mark P f cats = map (\<lambda>i. on_items (\<lambda>xs. map (\<lambda>j. if P (ItemRow i j) then f (xs ! j) else xs ! j) [0..<length xs]) (cats ! i)) [0..<length cats]"

definition getString :: "ui_category list \<Rightarrow> item_table \<Rightarrow> (string list \<times> ui_category list \<times> item_table) option" where
  "getString cats t =
     (if \<not> fits cats t then None
      else let checked = filter (\<lambda>r. checkState r t = Checked) (all_items t)
        in Some (map (\<lambda>r. ut_name (item_at cats r)) checked,
                 mark (\<lambda>r. r \<in> set checked) (\<lambda>x. x\<lparr>ut_checkStatus := True\<rparr>)
                   (mark (\<lambda>r. row_exists r t \<and> r \<notin> set checked) (\<lambda>x. x\<lparr>ut_checkStatus := False\<rparr>) cats),
                 t\<lparr>it_count := length checked\<rparr>))"

definition getAllString :: "ui_category list \<Rightarrow> item_table \<Rightarrow> (string list \<times> ui_category list \<times> item_table) option" where
  "getAllString cats t =
     (if \<not> fits cats t then None
      else Some (map (\<lambda>r. ut_name (item_at cats r)) (all_items t),
                 mark (\<lambda>r. row_exists r t) (\<lambda>x. x\<lparr>ut_checkStatus := True\<rparr>) cats,
                 t\<lparr>it_count := length (all_items t)\<rparr>))"

definition clearCheckedStatus :: "int \<Rightarrow> ui_category list \<Rightarrow> item_table \<Rightarrow> ui_category list option" where
  "clearCheckedStatus state cats t =
     (if \<not> fits cats t then None
      else Some (mark (\<lambda>r. row_exists r t \<and> checkState r t = Checked) (\<lambda>x. x\<lparr>ut_state := state\<rparr>) cats))"

text \<open>The states that count as a success and as a failure.\<close>

definition state_good :: "int \<Rightarrow> bool" where
  "state_good state \<longleftrightarrow> state = STATE_SCAN_DONE \<or> state = STATE_REINFORCE_DONE \<or> state AND STATE_SAFE = STATE_SAFE"

definition state_bad :: "int \<Rightarrow> bool" where
  "state_bad state \<longleftrightarrow> \<not> state_good state \<and> (state = STATE_UNKNOWN \<or> state = STATE_SCAN_ERROR \<or> state = STATE_REINFORCE_ERROR
     \<or> state AND STATE_UNSAFE = STATE_UNSAFE)"

definition getProgressCount :: "ui_category list \<Rightarrow> item_table \<Rightarrow> progress_info \<Rightarrow> progress_info option" where
  "getProgressCount cats t info =
     (if \<not> fits cats t then None
      else let states = map (\<lambda>r. ut_state (item_at cats r)) (all_items t)
        in Some (info\<lparr>pi_success := pi_success info + length (filter state_good states),
                      pi_failure := pi_failure info + length (filter state_bad states)\<rparr>))"

definition state2Str :: "int \<Rightarrow> string" where
  "state2Str state =
     (if state = STATE_UNKNOWN then ''Unknown'' else if state = STATE_SAFE then ''Conformity'' else if state = STATE_UNSAFE then ''Inconformity''
      else if state = STATE_UNSCAN then ''Not Scanned'' else if state = STATE_SCANNING then ''Scannig''
      else if state = STATE_SCAN_ERROR then ''Scan Failed'' else if state = STATE_SCAN_DONE then ''Scan Complete''
      else if state = STATE_UNREINFORCE then ''Unreinforcement'' else if state = STATE_REINFORCING then ''Reinforcing''
      else if state = STATE_REINFORCE_ERROR then ''Reinforcement Failure'' else if state = STATE_REINFORCE_DONE then ''Reinforced''
      else if state AND STATE_SAFE = 1 then ''Conformity''
      else if state AND STATE_UNSAFE = 2 then ''Inconformity''
      else if state AND STATE_UNSCAN = 4 then ''Unscan'' else ''Unknown'')"

definition all_places :: "ui_category list \<Rightarrow> row list" where
  "all_places cats = concat (map (\<lambda>i. map (ItemRow i) [0..<length (uc_items (cats ! i))]) [0..<length cats])"

fun set_status :: "string \<Rightarrow> row \<Rightarrow> item_table \<Rightarrow> item_table" where
  "set_status s (ItemRow i j) t = on_item i j (\<lambda>x. x\<lparr>ti_status := s\<rparr>) t"
| "set_status s (CatRow i) t = t"

definition updateStatus :: "ui_category list \<Rightarrow> item_table \<Rightarrow> item_table option" where
  "updateStatus cats t =
     (if list_all (\<lambda>r. row_exists r t) (all_places cats)
      then Some (fold (\<lambda>r. set_status (state2Str (ut_state (item_at cats r))) r) (all_places cats) t) else None)"

section \<open>Reports\<close>

record job_report =
  jp_jobID :: int
  jp_jobState :: int
  jp_process :: rat
  jp_items :: "report_item list"

text \<open>The report of the daemon's signal: \<open>finished * 100.0 / sum\<close>.\<close>

definition report_of :: "effect \<Rightarrow> job_report option" where
  "report_of e = (case e of
     EmitReport signal finished sum_num job state items \<Rightarrow>
       Some \<lparr>jp_jobID = job, jp_jobState = state, jp_process = of_int finished * 100 / of_int sum_num, jp_items = items\<rparr>
   | _ \<Rightarrow> None)"

definition invalid_key :: "string \<Rightarrow> string option" where
  "invalid_key name =
     (if name = ''config-vulnerability-scanning'' then Some ''invalid_rpms''
      else if name = ''config-nouser-files'' then Some ''nouser_files''
      else if name = ''config-authority-files'' then Some ''authority_files''
      else if name = ''config-suid-sgid-files'' then Some ''suid_sgid_files'' else None)"

definition nonempty_parts :: "string \<Rightarrow> string \<Rightarrow> string list" where
  "nonempty_parts s sep = filter (\<lambda>x. x \<noteq> []) (split s sep)"

definition invalidDataParsing :: "page_env \<Rightarrow> string \<Rightarrow> string \<Rightarrow> invalid_data \<Rightarrow> invalid_data" where
  "invalidDataParsing env json key d =
     (case pe_json env json of
        None \<Rightarrow> d
      | Some doc \<Rightarrow>
          (let invalids = to_string (q_member key (q_object (q_member ''return_value'' (q_object doc))))
           in if key = ''invalid_rpms'' then d\<lparr>iv_vulnerability := nonempty_parts invalids '';''\<rparr>
              else if key = ''nouser_files'' then d\<lparr>iv_nouser := nonempty_parts invalids [CHR 0x0A]\<rparr>
              else if key = ''authority_files'' then d\<lparr>iv_authority := nonempty_parts invalids [CHR 0x0A]\<rparr>
              else if key = ''suid_sgid_files'' then d\<lparr>iv_suid_sgid := nonempty_parts invalids [CHR 0x0A]\<rparr>
              else d))"

definition report_item_state :: "page_env \<Rightarrow> process_method \<Rightarrow> report_item \<Rightarrow> ui_item \<Rightarrow> ui_item" where
  "report_item_state env how = (\<lambda>(name, state, args, error) x.
     let x = (case error of None \<Rightarrow> x | Some e \<Rightarrow> x\<lparr>ut_error := pe_translate env ''python'' e\<rparr>);
         x = x\<lparr>ut_state := state\<rparr>
     in case how of PROCESS_METHOD_SCAN \<Rightarrow> x\<lparr>ut_scanState := state\<rparr> | PROCESS_METHOD_FASTEN \<Rightarrow> x\<lparr>ut_fastenState := state\<rparr>)"

text \<open>One element of a report; it is looked for in every category.\<close>

definition job_item :: "page_env \<Rightarrow> process_method \<Rightarrow> report_item \<Rightarrow> ui_category list \<times> invalid_data \<Rightarrow> (ui_category list \<times> invalid_data) option" where
  "job_item env how item = (\<lambda>(cats, d).
     let name = fst item; args = fst (snd (snd item));
         cats' = map (on_items (upd_item name (report_item_state env how item))) cats
     in if how = PROCESS_METHOD_SCAN \<and> (\<exists>c \<in> set cats. find_item name (uc_items c) \<noteq> None)
        then (case invalid_key name of
            None \<Rightarrow> Some (cats', d)
          | Some key \<Rightarrow> (case args of None \<Rightarrow> None | Some a \<Rightarrow> Some (cats', invalidDataParsing env a key d)))
        else Some (cats', d))"

fun job_items :: "page_env \<Rightarrow> process_method \<Rightarrow> report_item list \<Rightarrow> ui_category list \<times> invalid_data \<Rightarrow> (ui_category list \<times> invalid_data) option" where
  "job_items env how [] cd = Some cd"
| "job_items env how (item # items) cd =
     (case job_item env how item cd of None \<Rightarrow> None | Some cd \<Rightarrow> job_items env how items cd)"

definition ssrJobResult :: "page_env \<Rightarrow> job_report \<Rightarrow> progress_info \<Rightarrow> ui_category list \<Rightarrow> invalid_data
    \<Rightarrow> (progress_info \<times> ui_category list \<times> invalid_data) option" where
  "ssrJobResult env rep info cats d =
     map_option (Pair (info\<lparr>pi_jobID := jp_jobID rep, pi_jobState := jp_jobState rep, pi_progress := jp_process rep\<rparr>))
       (job_items env (pi_method info) (jp_items rep) (cats, d))"

section \<open>Operations of the page\<close>

definition call :: "page_call \<Rightarrow> scan_page \<Rightarrow> scan_page" where
  "call c p = p\<lparr>sp_calls := sp_calls p @ [c]\<rparr>"

definition popup :: "string \<Rightarrow> scan_page \<Rightarrow> scan_page" where
  "popup m p = p\<lparr>sp_popups := sp_popups p @ [m]\<rparr>"

definition chosen_items :: "int \<Rightarrow> scan_page \<Rightarrow> (string list \<times> scan_page) option" where
  "chosen_items strategy p =
     map_option (\<lambda>(names, cats, t). (names, p\<lparr>sp_categories := cats, sp_table := t\<rparr>))
       (if strategy = BR_STRATEGY_TYPE_CUSTOM then getString (sp_categories p) (sp_table p)
        else getAllString (sp_categories p) (sp_table p))"

definition startScan :: "bool \<Rightarrow> scan_page \<Rightarrow> scan_page option" where
  "startScan in_fallback p =
     (if in_fallback then Some (popup ''Fallback is in progress, please wait.'' p)
      else
        let p = p\<lparr>sp_onScan := True, sp_info := (sp_info p)\<lparr>pi_method := PROCESS_METHOD_SCAN\<rparr>\<rparr>;
            p = p\<lparr>sp_categories := clearState PROCESS_METHOD_SCAN (sp_categories p), sp_invalid := clearInvalidData (sp_invalid p)\<rparr>
        in case chosen_items (sp_strategy p) p of
             None \<Rightarrow> None
           | Some (names, p) \<Rightarrow>
               if names = [] then Some ((popup ''Please check the reinforcement items to be scanned or reinforcement classification for scanning.'' p)
                   \<lparr>sp_view := resetProgress (sp_view p)\<rparr>)
               else Some (call (CallScan names) (p\<lparr>sp_view := updateProgressUI PROCESS_METHOD_SCAN (sp_view p)\<rparr>)))"

text \<open>The reply to the call decides whether the page waits for reports.\<close>

definition startReinforcement :: "bool \<Rightarrow> bool \<Rightarrow> scan_page \<Rightarrow> scan_page option" where
  "startReinforcement in_fallback reply_ok p =
     (case chosen_items (sp_strategy p) p of
        None \<Rightarrow> None
      | Some (names, p) \<Rightarrow>
          if names = [] then Some (popup ''Please check the content to be reinforced.'' p)
          else if in_fallback then Some (popup ''Fallback is in progress, please wait.'' p)
          else
            let p = call (CallReinforce names) p
            in if \<not> reply_ok then Some (popup ''error reply'' p)
               else
                 let p = p\<lparr>sp_onReinforce := True, sp_info := (sp_info p)\<lparr>pi_method := PROCESS_METHOD_FASTEN\<rparr>\<rparr>;
                     p = p\<lparr>sp_categories := clearState PROCESS_METHOD_FASTEN (sp_categories p)\<rparr>
                 in case clearCheckedStatus STATE_UNREINFORCE (sp_categories p) (sp_table p) of
                      None \<Rightarrow> None
                    | Some cats \<Rightarrow> Some (p\<lparr>sp_categories := cats,
                        sp_view := updateProgress (sp_info p) (updateProgressUI PROCESS_METHOD_FASTEN (sp_view p)), sp_modify := False\<rparr>))"

definition runProgress :: "page_env \<Rightarrow> job_report \<Rightarrow> scan_page \<Rightarrow> scan_page option" where
  "runProgress env rep p =
     (case ssrJobResult env rep ((sp_info p)\<lparr>pi_total := it_count (sp_table p)\<rparr>) (sp_categories p) (sp_invalid p) of
        None \<Rightarrow> None
      | Some (info, cats, d) \<Rightarrow>
          (case setAllCheckBoxEditStatus False (sp_table p) of
             None \<Rightarrow> None
           | Some t \<Rightarrow>
               (case (if pi_progress info = 100 then getProgressCount cats t info else Some info) of
                  None \<Rightarrow> None
                | Some info \<Rightarrow>
                    (case updateStatus cats t of
                       None \<Rightarrow> None
                     | Some t \<Rightarrow> Some (p\<lparr>sp_categories := cats, sp_invalid := d, sp_table := t, sp_view := updateProgress info (sp_view p),
                         sp_info := (if pi_progress info = 100 then flushProgressInfo info else info),
                         sp_finished := (if pi_progress info = 100 \<and> pi_method info = PROCESS_METHOD_FASTEN then sp_finished p + 1 else sp_finished p)\<rparr>)))))"

definition cancelProgress :: "bool \<Rightarrow> scan_page \<Rightarrow> scan_page" where
  "cancelProgress reply_ok p =
     (if pi_progress (sp_info p) = 0 then p
      else let p = call (CallCancel (pi_jobID (sp_info p))) p; p = (if reply_ok then p else popup ''error reply'' p)
        in p\<lparr>sp_view := stopWorkingProcess (sp_view p)\<rparr>)"

definition page_reset :: "scan_page \<Rightarrow> scan_page" where
  "page_reset p = p\<lparr>sp_view := resetProgress (sp_view p)\<rparr>"

definition resetAllReinforcementItem :: "bool \<Rightarrow> reinforcement list \<Rightarrow> scan_page \<Rightarrow> scan_page" where
  "resetAllReinforcementItem reply_ok reply p =
     (let p = call CallResetReinforcements p
      in if \<not> reply_ok then popup ''error reply'' p else p\<lparr>sp_categories := ssrResetReinforcements reply (sp_categories p)\<rparr>)"

definition usingSystemStrategy :: "bool \<Rightarrow> reinforcement list \<Rightarrow> scan_page \<Rightarrow> scan_page option" where
  "usingSystemStrategy reply_ok reply p =
     (let p = resetAllReinforcementItem reply_ok reply (p\<lparr>sp_strategy := BR_STRATEGY_TYPE_SYSTEM\<rparr>)
      in case setAllCheckBoxEditStatus False (sp_table p) of
           None \<Rightarrow> None
         | Some t \<Rightarrow> map_option (\<lambda>t. p\<lparr>sp_table := t, sp_modify := False\<rparr>) (hideCheckBox True t))"

text \<open>The report: another scan, whose reports go to the copy of the categories only.\<close>

definition generateReport :: "page_env \<Rightarrow> bool \<Rightarrow> json \<Rightarrow> xml_reinforcement list \<Rightarrow> int \<Rightarrow> scan_page \<Rightarrow> scan_page option" where
  "generateReport env in_fallback categories reinforcements strategy p =
     (if in_fallback then Some (call (CallGenerateReport False) (popup ''Fallback is in progress, please wait.'' p))
      else
        case (if pi_method (sp_info p) = PROCESS_METHOD_FASTEN
              then ssrReinforcements env reinforcements (jsonParsing env categories (sp_after p)) else Some (sp_after p)) of
          None \<Rightarrow> None
        | Some after \<Rightarrow> map_option (\<lambda>(names, p). call (CallScan names) p) (chosen_items strategy (p\<lparr>sp_after := after, sp_onScan := False\<rparr>)))"

definition report_finished :: "bool \<Rightarrow> scan_page \<Rightarrow> scan_page" where
  "report_finished generated p =
     (let p = p\<lparr>sp_onScan := True\<rparr>
      in if \<not> generated then p else call (CallGenerateReport True) ((popup ''Export succeeded!'' p)\<lparr>sp_after := []\<rparr>))"

section \<open>What the reports do\<close>

definition report_state :: "report_item list \<Rightarrow> string \<Rightarrow> int \<Rightarrow> int" where
  "report_state items n old = fold (\<lambda>item acc. if fst item = n then fst (snd item) else acc) items old"

definition report_all :: "page_env \<Rightarrow> process_method \<Rightarrow> report_item list \<Rightarrow> ui_item \<Rightarrow> ui_item" where
  "report_all env how items x = fold (\<lambda>item x. if fst item = ut_name x then report_item_state env how item x else x) items x"

lemma report_item_state_fields [simp]:
  "ut_name (report_item_state env how item x) = ut_name x" "ut_state (report_item_state env how item x) = fst (snd item)"
  by (auto simp: report_item_state_def Let_def split: prod.splits option.splits process_method.splits)

lemma report_all_fields [simp]:
  "ut_name (report_all env how items x) = ut_name x"
  "ut_state (report_all env how items x) = report_state items (ut_name x) (ut_state x)"
proof -
  show "ut_name (report_all env how items x) = ut_name x"
    unfolding report_all_def by (induction items arbitrary: x) auto
  show "ut_state (report_all env how items x) = report_state items (ut_name x) (ut_state x)"
    unfolding report_all_def report_state_def by (induction items arbitrary: x) auto
qed

lemma job_item_eq:
  assumes "\<forall>c \<in> set cats. distinct (map ut_name (uc_items c))" "fst (snd (snd item)) \<noteq> None"
  shows "\<exists>d'. job_item env how item (cats, d) =
     Some (map (on_items (map (\<lambda>x. if fst item = ut_name x then report_item_state env how item x else x))) cats, d')"
proof -
  have "map (on_items (upd_item (fst item) (report_item_state env how item))) cats =
      map (on_items (map (\<lambda>x. if fst item = ut_name x then report_item_state env how item x else x))) cats"
    using assms(1) by (intro map_cong refl) (auto simp: on_items_def upd_item_eq intro!: arg_cong [where f = "\<lambda>xs. uc_items_update (\<lambda>_. xs) c" for c])
  then show ?thesis using assms(2) by (auto simp: job_item_def Let_def split: option.splits)
qed

lemma job_items_eq:
  assumes "\<forall>c \<in> set cats. distinct (map ut_name (uc_items c))" "\<forall>item \<in> set items. fst (snd (snd item)) \<noteq> None"
  shows "\<exists>d'. job_items env how items (cats, d) = Some (map (on_items (map (report_all env how items))) cats, d')"
  using assms
proof (induction items arbitrary: cats d)
  case Nil
  then show ?case by (simp add: report_all_def on_items_def map_idI)
next
  case (Cons item items)
  define f where "f = (\<lambda>x. if fst item = ut_name x then report_item_state env how item x else x)"
  obtain d1 where d1: "job_item env how item (cats, d) = Some (map (on_items (map f)) cats, d1)"
    using job_item_eq [OF Cons.prems(1), of item env how d] Cons.prems(2) by (auto simp: f_def)
  have "\<forall>c \<in> set (map (on_items (map f)) cats). distinct (map ut_name (uc_items c))"
    using Cons.prems(1) by (auto simp: on_items_def f_def comp_def if_distrib [of ut_name] cong: if_cong)
  from Cons.IH [OF this, of d1] Cons.prems(2) obtain d2 where
    "job_items env how items (map (on_items (map f)) cats, d1) = Some (map (on_items (map (report_all env how items))) (map (on_items (map f)) cats), d2)"
    by auto
  moreover have "on_items (map (report_all env how items)) (on_items (map f) c) = on_items (map (report_all env how (item # items))) c" for c
    by (simp add: on_items_def comp_def report_all_def f_def)
  ultimately show ?case using d1 by (simp add: comp_def)
qed

text \<open>The daemon keeps the same states by name.\<close>

lemma daemon_states:
  assumes "qm_ok (bd_jobResult d)"
  shows "qm_ok (bd_jobResult (readReinforceItemStatus items d))
     \<and> (case qm_value n (bd_jobResult (readReinforceItemStatus items d)) of None \<Rightarrow> u | Some st \<Rightarrow> st) =
       report_state items n (case qm_value n (bd_jobResult d) of None \<Rightarrow> u | Some st \<Rightarrow> st)"
proof -
  have "qm_ok (fold (\<lambda>(name, state, _) m. qm_insert name state m) items m) \<and>
      (case qm_value n (fold (\<lambda>(name, state, _) m. qm_insert name state m) items m) of None \<Rightarrow> u | Some st \<Rightarrow> st) =
       report_state items n (case qm_value n m of None \<Rightarrow> u | Some st \<Rightarrow> st)" if "qm_ok m" for m
    using that
  proof (induction items arbitrary: m)
    case (Cons item items)
    obtain name st rest where item: "item = (name, st, rest)" by (cases item) auto
    have "qm_ok (qm_insert name st m)" using Cons.prems by (rule qm_ok_insert)
    from Cons.IH [OF this] show ?case
      using qm_value_insert [OF Cons.prems, of n name st] by (auto simp: item report_state_def)
  qed (simp add: report_state_def)
  then show ?thesis using assms by (simp add: readReinforceItemStatus_def)
qed

section \<open>The list and the categories\<close>

text \<open>The table was made from the categories: it has their rows.\<close>

definition same_rows :: "ui_category list \<Rightarrow> item_table \<Rightarrow> bool" where
  "same_rows cats t \<longleftrightarrow> map (length \<circ> uc_items) cats = map (length \<circ> tc_items) (it_rows t)"

lemma same_rows_at:
  assumes "same_rows cats t"
  shows "length cats = length (it_rows t)" "i < length cats \<Longrightarrow> length (uc_items (cats ! i)) = length (tc_items (it_rows t ! i))"
proof -
  show len: "length cats = length (it_rows t)" using arg_cong [OF assms [unfolded same_rows_def], of length] by simp
  show "i < length cats \<Longrightarrow> length (uc_items (cats ! i)) = length (tc_items (it_rows t ! i))"
    using arg_cong [OF assms [unfolded same_rows_def], of "\<lambda>xs. xs ! i"] len by simp
qed

lemma same_rows_fits: "same_rows cats t \<Longrightarrow> fits cats t"
  using same_rows_at [of cats t] by (simp add: fits_def)

lemma same_rows_places: "same_rows cats t \<Longrightarrow> all_places cats = all_items t"
  using same_rows_at [of cats t] unfolding all_places_def all_items_def
  by (intro arg_cong [where f = concat]) (simp cong: map_cong)

lemma items_in_place: "same_rows cats t \<Longrightarrow> map (item_at cats) (all_items t) = all_ui cats"
proof -
  assume "same_rows cats t"
  then have "map (item_at cats) (all_items t) = concat (map (\<lambda>i. map (\<lambda>j. uc_items (cats ! i) ! j) [0..<length (uc_items (cats ! i))]) [0..<length cats])"
    by (simp add: same_rows_places [symmetric] all_places_def map_concat comp_def)
  also have "\<dots> = concat (map (\<lambda>i. uc_items (cats ! i)) [0..<length cats])" by (simp add: map_nth)
  also have "\<dots> = all_ui cats"
    unfolding all_ui_def by (rule arg_cong [where f = concat]) (metis (no_types, lifting) comp_apply map_map map_nth map_eq_conv)
  finally show ?thesis .
qed

lemma same_rows_shape: "shape t' = shape t \<Longrightarrow> same_rows cats t' = same_rows cats t"
proof -
  assume a: "shape t' = shape t"
  have "map (length \<circ> tc_items) (it_rows u) = map (\<lambda>(a, b, xs). length xs) (shape u)" for u by (simp add: shape_def comp_def)
  then show ?thesis using a by (simp add: same_rows_def)
qed

lemma same_rows_items: "same_rows (map (on_items (map f)) cats) t = same_rows cats t"
  by (simp add: same_rows_def on_items_def comp_def)

lemma set_status_shape: "shape (set_status v r t) = shape t"
proof -
  have "map (\<lambda>x. (ti_text x, ti_check x)) (xs[j := (xs ! j)\<lparr>ti_status := v\<rparr>]) = map (\<lambda>x. (ti_text x, ti_check x)) xs" for xs :: "tree_item list" and j
    by (cases "j < length xs") (simp_all add: map_update list_update_beyond list_update_same_conv)
  then have "shape (on_cat i (\<lambda>c. c\<lparr>tc_items := (tc_items c)[j := (tc_items c ! j)\<lparr>ti_status := v\<rparr>]\<rparr>) t) = shape t" for i j
    by (cases "i < length (it_rows t)") (simp_all add: shape_def on_cat_def map_update list_update_beyond list_update_same_conv)
  then show ?thesis by (cases r) (simp_all add: on_item_def)
qed

lemma updateStatus_ok:
  assumes "same_rows cats t"
  shows "\<exists>t'. updateStatus cats t = Some t' \<and> shape t' = shape t \<and> it_count t' = it_count t"
proof -
  have count: "it_count (set_status v r t) = it_count t" for v r and t :: item_table by (cases r) (simp_all add: on_item_def on_cat_def)
  have "shape (fold (\<lambda>r. set_status (v r) r) rs t) = shape t \<and> it_count (fold (\<lambda>r. set_status (v r) r) rs t) = it_count t" for v rs
    by (induction rs arbitrary: t) (simp_all add: set_status_shape count)
  moreover have "list_all (\<lambda>r. row_exists r t) (all_places cats)"
    using same_rows_at [OF assms] by (auto simp: list_all_iff all_places_def row_exists_def)
  ultimately show ?thesis by (simp add: updateStatus_def)
qed

section \<open>A run of reports\<close>

definition page_ready :: "scan_page \<Rightarrow> bool" where
  "page_ready p \<longleftrightarrow> same_rows (sp_categories p) (sp_table p) \<and> distinct (map ut_name (all_ui (sp_categories p)))
     \<and> pi_success (sp_info p) = 0 \<and> pi_failure (sp_info p) = 0"

definition report_info :: "job_report \<Rightarrow> ui_item list \<Rightarrow> nat \<Rightarrow> progress_info \<Rightarrow> progress_info" where
  "report_info rep items total_num info =
     info\<lparr>pi_total := total_num, pi_jobID := jp_jobID rep, pi_jobState := jp_jobState rep, pi_progress := jp_process rep,
       pi_success := (if jp_process rep = 100 then length (filter state_good (map ut_state items)) else 0),
       pi_failure := (if jp_process rep = 100 then length (filter state_bad (map ut_state items)) else 0)\<rparr>"

lemma runProgress_step:
  assumes "page_ready p" "\<forall>item \<in> set (jp_items rep). fst (snd (snd item)) \<noteq> None"
  shows "\<exists>p'. runProgress env rep p = Some p' \<and> page_ready p'
     \<and> all_ui (sp_categories p') = map (report_all env (pi_method (sp_info p)) (jp_items rep)) (all_ui (sp_categories p))
     \<and> it_count (sp_table p') = it_count (sp_table p) \<and> pi_method (sp_info p') = pi_method (sp_info p)
     \<and> sp_view p' = updateProgress (report_info rep (all_ui (sp_categories p')) (it_count (sp_table p)) (sp_info p)) (sp_view p)"
proof -
  let ?info = "(sp_info p)\<lparr>pi_total := it_count (sp_table p), pi_jobID := jp_jobID rep, pi_jobState := jp_jobState rep, pi_progress := jp_process rep\<rparr>"
  from assms(1) have p: "same_rows (sp_categories p) (sp_table p)" "distinct (map ut_name (all_ui (sp_categories p)))"
    "pi_success (sp_info p) = 0" "pi_failure (sp_info p) = 0" by (simp_all add: page_ready_def)
  define cats where "cats = map (on_items (map (report_all env (pi_method (sp_info p)) (jp_items rep)))) (sp_categories p)"
  have all: "all_ui cats = map (report_all env (pi_method (sp_info p)) (jp_items rep)) (all_ui (sp_categories p))"
    by (simp add: cats_def all_ui_map)
  have "\<forall>c \<in> set (sp_categories p). distinct (map ut_name (uc_items c))"
    using distinct_cat [OF p(2)] by (auto simp: in_set_conv_nth)
  then obtain d where d: "ssrJobResult env rep ((sp_info p)\<lparr>pi_total := it_count (sp_table p)\<rparr>) (sp_categories p) (sp_invalid p) = Some (?info, cats, d)"
    using job_items_eq [OF _ assms(2), of "sp_categories p" env "pi_method (sp_info p)" "sp_invalid p"] by (auto simp: ssrJobResult_def cats_def)
  obtain t1 where t1: "setAllCheckBoxEditStatus False (sp_table p) = Some t1" "shape t1 = shape (sp_table p)" "it_count t1 = it_count (sp_table p)"
    using edit_disabled [of "sp_table p"] by auto
  have rows: "same_rows cats t1" using p(1) by (simp add: same_rows_shape [OF t1(2)] cats_def same_rows_items)
  obtain t2 where t2: "updateStatus cats t1 = Some t2" "shape t2 = shape t1" "it_count t2 = it_count t1" using updateStatus_ok [OF rows] by blast
  define info where "info = report_info rep (all_ui cats) (it_count (sp_table p)) (sp_info p)"
  have "map (\<lambda>r. ut_state (item_at cats r)) (all_items t1) = map ut_state (all_ui cats)"
    using arg_cong [OF items_in_place [OF rows], of "map ut_state"] by (simp add: comp_def)
  then have count: "(if pi_progress ?info = 100 then getProgressCount cats t1 ?info else Some ?info) = Some info"
    using p(3,4) same_rows_fits [OF rows] by (simp add: getProgressCount_def Let_def info_def report_info_def)
  have "same_rows cats t2" using rows by (simp add: same_rows_shape [OF t2(2)])
  moreover have "distinct (map ut_name (all_ui cats))" using p(2) by (simp add: all comp_def)
  moreover have "pi_success (if pi_progress info = 100 then flushProgressInfo info else info) = 0"
    "pi_failure (if pi_progress info = 100 then flushProgressInfo info else info) = 0"
    "pi_method (if pi_progress info = 100 then flushProgressInfo info else info) = pi_method (sp_info p)"
    by (simp_all add: info_def report_info_def flushProgressInfo_def)
  ultimately show ?thesis
    using d t1(1,3) t2(1,3) count unfolding runProgress_def page_ready_def by (simp add: all [symmetric] info_def [symmetric])
qed

text \<open>A fresh page is ready: the reinforcements that the list leaves out were not read into a category either.\<close>

lemma fresh_page_ready:
  assumes "sp_table p = setItem env (sp_categories p)" "distinct (map ut_name (all_ui (sp_categories p)))"
    and "\<forall>x \<in> set (all_ui (sp_categories p)). \<not> (ut_name x = HOSTS_LIMIT \<and> \<not> pe_hosts env)"
    and "pi_success (sp_info p) = 0" "pi_failure (sp_info p) = 0"
  shows "page_ready p"
proof -
  have "length (filter (\<lambda>x. \<not> (ut_name x = HOSTS_LIMIT \<and> \<not> pe_hosts env)) (uc_items c)) = length (uc_items c)"
    if "c \<in> set (sp_categories p)" for c
    using that assms(3) by (intro arg_cong [where f = length] filter_True) (auto simp: all_ui_def)
  then have "same_rows (sp_categories p) (sp_table p)" unfolding same_rows_def assms(1) setItem_def by simp
  then show ?thesis using assms(2,4,5) by (simp add: page_ready_def)
qed

text \<open>Starting a scan.\<close>

lemma all_ui_mark:
  assumes "\<And>x. g (f x) = g x"
  shows "map g (all_ui (mark P f cats)) = map g (all_ui cats)"
proof -
  have "map g (uc_items (mark P f cats ! i)) = map g (uc_items (cats ! i))" if "i < length cats" for i
  proof -
    have "map g (uc_items (mark P f cats ! i)) = map (\<lambda>j. g (uc_items (cats ! i) ! j)) [0..<length (uc_items (cats ! i))]"
      using that by (simp add: mark_def on_items_def comp_def if_distrib [of g] assms cong: if_cong)
    also have "\<dots> = map g (uc_items (cats ! i))" by (rule nth_equalityI) simp_all
    finally show ?thesis .
  qed
  then have "map (map g \<circ> uc_items) (mark P f cats) = map (map g \<circ> uc_items) cats"
    by (intro nth_equalityI) (simp_all add: mark_def)
  then show ?thesis by (simp add: all_ui_def map_concat)
qed

lemma same_rows_mark: "same_rows (mark P f cats) t = same_rows cats t"
proof -
  have "map (length \<circ> uc_items) (mark P f cats) = map (length \<circ> uc_items) cats"
    by (intro nth_equalityI) (simp_all add: mark_def on_items_def)
  then show ?thesis by (simp add: same_rows_def)
qed

lemma clearState_eq: "clearState PROCESS_METHOD_SCAN cats = map (on_items (map (\<lambda>x. x\<lparr>ut_state := STATE_UNSCAN\<rparr>))) cats"
  by (auto simp: clearState_def category_clearState_def on_items_def)

lemma chosen_items_ok:
  assumes "same_rows (sp_categories p) (sp_table p)"
  shows "\<exists>names cats t. chosen_items strategy p = Some (names, p\<lparr>sp_categories := cats, sp_table := t\<rparr>)
     \<and> map (\<lambda>x. (ut_name x, ut_state x)) (all_ui cats) = map (\<lambda>x. (ut_name x, ut_state x)) (all_ui (sp_categories p))
     \<and> same_rows cats t \<and> it_count t = length names"
proof -
  have count: "same_rows cats (t\<lparr>it_count := k\<rparr>) = same_rows cats t" for cats t k by (simp add: same_rows_def)
  let ?ok = "\<lambda>names cats t. map (\<lambda>x. (ut_name x, ut_state x)) (all_ui cats) = map (\<lambda>x. (ut_name x, ut_state x)) (all_ui (sp_categories p))
     \<and> same_rows cats t \<and> it_count t = length names"
  note fit = same_rows_fits [OF assms]
  show ?thesis
  proof (cases "strategy = BR_STRATEGY_TYPE_CUSTOM")
    case True
    obtain names cats t where g: "getString (sp_categories p) (sp_table p) = Some (names, cats, t)" using fit by (simp add: getString_def Let_def)
    then have "?ok names cats t" using assms fit by (auto simp: getString_def Let_def count same_rows_mark all_ui_mark)
    then show ?thesis using g True by (auto simp: chosen_items_def)
  next
    case False
    obtain names cats t where g: "getAllString (sp_categories p) (sp_table p) = Some (names, cats, t)" using fit by (simp add: getAllString_def)
    then have "?ok names cats t" using assms fit by (auto simp: getAllString_def count same_rows_mark all_ui_mark)
    then show ?thesis using g False by (auto simp: chosen_items_def)
  qed
qed

text \<open>A page on which a scan runs, whose reports so far gave the states \<open>st\<close>.\<close>

definition scanning :: "scan_page \<Rightarrow> (string \<Rightarrow> int) \<Rightarrow> bool" where
  "scanning p st \<longleftrightarrow> page_ready p \<and> pi_method (sp_info p) = PROCESS_METHOD_SCAN
     \<and> map ut_state (all_ui (sp_categories p)) = map (st \<circ> ut_name) (all_ui (sp_categories p))"

lemma startScan_ok:
  assumes "page_ready p"
  shows "\<exists>names p'. startScan False p = Some p' \<and> map ut_name (all_ui (sp_categories p')) = map ut_name (all_ui (sp_categories p))
     \<and> scanning p' (\<lambda>_. STATE_UNSCAN) \<and> it_count (sp_table p') = length names
     \<and> (if names = [] then sp_calls p' = sp_calls p else sp_calls p' = sp_calls p @ [CallScan names])"
proof -
  define q where "q = p\<lparr>sp_onScan := True, sp_info := (sp_info p)\<lparr>pi_method := PROCESS_METHOD_SCAN\<rparr>,
     sp_categories := clearState PROCESS_METHOD_SCAN (sp_categories p), sp_invalid := clearInvalidData (sp_invalid p)\<rparr>"
  have q: "same_rows (sp_categories q) (sp_table q)" using assms by (simp add: q_def page_ready_def clearState_eq same_rows_items)
  obtain names cats t where ch: "chosen_items (sp_strategy p) q = Some (names, q\<lparr>sp_categories := cats, sp_table := t\<rparr>)"
    "map (\<lambda>x. (ut_name x, ut_state x)) (all_ui cats) = map (\<lambda>x. (ut_name x, ut_state x)) (all_ui (sp_categories q))"
    "same_rows cats t" "it_count t = length names"
    using chosen_items_ok [OF q, of "sp_strategy p"] by blast
  have ns: "map ut_name (all_ui cats) = map ut_name (all_ui (sp_categories p))" "map ut_state (all_ui cats) = map (\<lambda>_. STATE_UNSCAN) (all_ui cats)"
    using arg_cong [OF ch(2), of "map fst"] arg_cong [OF ch(2), of "map snd"] arg_cong [OF ch(2), of length]
    by (simp_all add: comp_def q_def clearState_eq all_ui_map map_replicate_const)
  have sc: "scanning (q\<lparr>sp_categories := cats, sp_table := t\<rparr>) (\<lambda>_. STATE_UNSCAN)"
    using assms ch(3) ns by (simp add: scanning_def page_ready_def q_def comp_def)
  have start: "startScan False p = (if names = [] then Some ((popup ''Please check the reinforcement items to be scanned or reinforcement classification for scanning.''
      (q\<lparr>sp_categories := cats, sp_table := t\<rparr>))\<lparr>sp_view := resetProgress (sp_view p)\<rparr>)
    else Some (call (CallScan names) (q\<lparr>sp_categories := cats, sp_table := t, sp_view := updateProgressUI PROCESS_METHOD_SCAN (sp_view p)\<rparr>)))"
    using ch(1) by (simp add: startScan_def q_def popup_def Let_def)
  then show ?thesis
    using sc ns(1) ch(4) by (intro exI [of _ names]) (auto simp: popup_def call_def scanning_def page_ready_def q_def)
qed

fun run_reports :: "page_env \<Rightarrow> job_report list \<Rightarrow> scan_page \<Rightarrow> scan_page option" where
  "run_reports env [] p = Some p"
| "run_reports env (rep # reps) p = (case runProgress env rep p of None \<Rightarrow> None | Some p \<Rightarrow> run_reports env reps p)"

lemma scanning_step:
  assumes "scanning p st" "\<forall>item \<in> set (jp_items rep). fst (snd (snd item)) \<noteq> None"
  shows "\<exists>p'. runProgress env rep p = Some p' \<and> scanning p' (\<lambda>n. report_state (jp_items rep) n (st n))
     \<and> map ut_name (all_ui (sp_categories p')) = map ut_name (all_ui (sp_categories p)) \<and> it_count (sp_table p') = it_count (sp_table p)
     \<and> sp_view p' = updateProgress (report_info rep (all_ui (sp_categories p')) (it_count (sp_table p)) (sp_info p)) (sp_view p)"
proof -
  from assms(1) have p: "page_ready p" "pi_method (sp_info p) = PROCESS_METHOD_SCAN" "map ut_state (all_ui (sp_categories p)) = map (st \<circ> ut_name) (all_ui (sp_categories p))"
    by (simp_all add: scanning_def)
  have st: "ut_state x = st (ut_name x)" if "x \<in> set (all_ui (sp_categories p))" for x
    using p(3) that by (auto simp: map_eq_conv)
  obtain p' where p': "runProgress env rep p = Some p'" "page_ready p'" "pi_method (sp_info p') = pi_method (sp_info p)"
    "all_ui (sp_categories p') = map (report_all env (pi_method (sp_info p)) (jp_items rep)) (all_ui (sp_categories p))"
    "it_count (sp_table p') = it_count (sp_table p)"
    "sp_view p' = updateProgress (report_info rep (all_ui (sp_categories p')) (it_count (sp_table p)) (sp_info p)) (sp_view p)"
    using runProgress_step [OF p(1) assms(2)] by blast
  then have "scanning p' (\<lambda>n. report_state (jp_items rep) n (st n))"
    using p(2) st by (simp add: scanning_def comp_def)
  moreover have "map ut_name (all_ui (sp_categories p')) = map ut_name (all_ui (sp_categories p))" by (simp add: p'(4) comp_def)
  ultimately show ?thesis using p'(1,5,6) by blast
qed

lemma scanning_run:
  assumes "scanning p st" "\<forall>rep \<in> set reps. \<forall>item \<in> set (jp_items rep). fst (snd (snd item)) \<noteq> None"
  shows "\<exists>p'. run_reports env reps p = Some p' \<and> scanning p' (\<lambda>n. fold (\<lambda>rep. report_state (jp_items rep) n) reps (st n))
     \<and> map ut_name (all_ui (sp_categories p')) = map ut_name (all_ui (sp_categories p)) \<and> it_count (sp_table p') = it_count (sp_table p)"
  using assms
proof (induction reps arbitrary: p st)
  case (Cons rep reps)
  then have a: "\<forall>item \<in> set (jp_items rep). fst (snd (snd item)) \<noteq> None" by simp
  obtain q where q: "runProgress env rep p = Some q" "scanning q (\<lambda>n. report_state (jp_items rep) n (st n))"
    "map ut_name (all_ui (sp_categories q)) = map ut_name (all_ui (sp_categories p))" "it_count (sp_table q) = it_count (sp_table p)"
    using scanning_step [OF Cons.prems(1) a, of env] by blast
  from Cons.IH [OF q(2)] Cons.prems(2) q show ?case by auto
qed simp

lemma run_reports_append: "run_reports env (reps @ [rep]) p = (case run_reports env reps p of None \<Rightarrow> None | Some p \<Rightarrow> runProgress env rep p)"
  by (induction reps arbitrary: p) (auto split: option.splits)

lemma daemon_states_run:
  assumes "qm_ok (bd_jobResult d)"
  shows "(case qm_value n (bd_jobResult (fold (\<lambda>rep. readReinforceItemStatus (jp_items rep)) reps d)) of None \<Rightarrow> u | Some st \<Rightarrow> st) =
     fold (\<lambda>rep. report_state (jp_items rep) n) reps (case qm_value n (bd_jobResult d) of None \<Rightarrow> u | Some st \<Rightarrow> st)"
  using assms
proof (induction reps arbitrary: d)
  case (Cons rep reps)
  from Cons.IH [of "readReinforceItemStatus (jp_items rep) d"] daemon_states [OF Cons.prems, where n = n and u = u and items = "jp_items rep"]
  show ?case by simp
qed simp

text \<open>After a cancelled job no report with all operations finished comes: the page keeps waiting, its only button is
  the one to cancel again, and the timer that runs out tells nobody.\<close>

lemma cancelled_page_waits:
  assumes "pv_scan v = None" "pv_return v = Some CancelClicked"
  shows "pv_scan (fst (waitProgress (stopWorkingProcess v))) = None" "pv_return (fst (waitProgress (stopWorkingProcess v))) = Some CancelClicked"
    "pv_scanShown (fst (waitProgress (stopWorkingProcess v))) = pv_scanShown v"
  using assms by (simp_all add: waitProgress_def stopWorkingProcess_def Let_def)

section \<open>Properties\<close>

text \<open>C40: The page shows what the daemon found: after a scan was started and the reports came in, the last of them
  saying that all operations are finished, every reinforcement has the state the daemon keeps for its name, or is not
  scanned when the daemon has none; the line above the list counts the conforming ones and the others among them, and
  the buttons offer the reinforcement, the report and the way back.\<close>

theorem page_agrees_with_daemon:
  assumes "page_ready p" "startScan False p = Some p0" "sp_calls p0 = sp_calls p @ [CallScan names]"
    and "\<forall>rep \<in> set (reps @ [final]). \<forall>item \<in> set (jp_items rep). fst (snd (snd item)) \<noteq> None" "jp_process final = 100"
    and "bd_jobResult d = []"
  shows "let all = map ut_name (all_ui (sp_categories p));
       verdict = (\<lambda>n. case qm_value n (bd_jobResult (fold (\<lambda>rep. readReinforceItemStatus (jp_items rep)) (reps @ [final]) d)) of
           None \<Rightarrow> STATE_UNSCAN | Some st \<Rightarrow> st);
       good = length (filter (state_good \<circ> verdict) all); bad = length (filter (state_bad \<circ> verdict) all)
     in \<exists>p'. run_reports env (reps @ [final]) p0 = Some p'
       \<and> map (\<lambda>x. (ut_name x, ut_state x)) (all_ui (sp_categories p')) = map (\<lambda>n. (n, verdict n)) all
       \<and> pv_definition (sp_view p') =
           (if good = length names then ''Scanned '' @ num (length names) @ '', '' @ num good @ '' conform!''
            else ''Scanned '' @ num (good + bad) @ '', '' @ num good @ '' conform, '' @ num bad @ '' inconform!'')
       \<and> pv_scan (sp_view p') = Some ReinforcementClicked \<and> pv_return (sp_view p') = Some ReturnHomeClicked \<and> pv_report (sp_view p')"
proof -
  define verdict where "verdict = (\<lambda>n. case qm_value n (bd_jobResult (fold (\<lambda>rep. readReinforceItemStatus (jp_items rep)) (reps @ [final]) d)) of
      None \<Rightarrow> STATE_UNSCAN | Some st \<Rightarrow> st)"
  have verdict: "verdict n = report_state (jp_items final) n (fold (\<lambda>rep. report_state (jp_items rep) n) reps STATE_UNSCAN)" for n
    unfolding verdict_def using daemon_states_run [where d = d and n = n and u = STATE_UNSCAN and reps = "reps @ [final]"] assms(6) by (simp add: qm_value_Nil)
  have p0: "scanning p0 (\<lambda>_. STATE_UNSCAN)" "map ut_name (all_ui (sp_categories p0)) = map ut_name (all_ui (sp_categories p))"
    "it_count (sp_table p0) = length names"
    using startScan_ok [OF assms(1)] assms(2,3) by (auto split: if_splits)
  obtain q where q: "run_reports env reps p0 = Some q" "scanning q (\<lambda>n. fold (\<lambda>rep. report_state (jp_items rep) n) reps STATE_UNSCAN)"
    "map ut_name (all_ui (sp_categories q)) = map ut_name (all_ui (sp_categories p0))" "it_count (sp_table q) = it_count (sp_table p0)"
    using scanning_run [OF p0(1), of reps env] assms(4) by auto
  have "\<forall>item \<in> set (jp_items final). fst (snd (snd item)) \<noteq> None" using assms(4) by simp
  from scanning_step [OF q(2) this, of env] obtain p' where p': "runProgress env final q = Some p'" "scanning p' verdict"
    "map ut_name (all_ui (sp_categories p')) = map ut_name (all_ui (sp_categories q))"
    "sp_view p' = updateProgress (report_info final (all_ui (sp_categories p')) (it_count (sp_table q)) (sp_info q)) (sp_view q)"
    unfolding verdict [symmetric] by blast
  have names: "map ut_name (all_ui (sp_categories p')) = map ut_name (all_ui (sp_categories p))" using p'(3) q(3) p0(2) by simp
  have "map ut_state (all_ui (sp_categories p')) = map verdict (map ut_name (all_ui (sp_categories p')))"
    using p'(2) by (simp add: scanning_def)
  then have states: "map ut_state (all_ui (sp_categories p')) = map verdict (map ut_name (all_ui (sp_categories p)))" by (simp only: names)
  have pairs: "map (\<lambda>x. (ut_name x, ut_state x)) (all_ui (sp_categories p')) = map (\<lambda>n. (n, verdict n)) (map ut_name (all_ui (sp_categories p)))"
    using p'(2) unfolding names [symmetric] by (simp add: scanning_def)
  have "pi_method (sp_info q) = PROCESS_METHOD_SCAN" using q(2) by (simp add: scanning_def)
  then show ?thesis
    using p'(1) q(1) pairs assms(5) states unfolding Let_def verdict_def [symmetric]
    by (intro exI [of _ p'])
      (simp add: run_reports_append p'(4) q(4) p0(3) updateProgress_def completeProcess_def complete_text_def report_info_def filter_map comp_assoc)
qed

section \<open>A sample\<close>

definition scan_sample :: scan_page where
  "scan_sample = \<lparr>sp_categories = [ui_category_sample [ui_sample ''a'' False, ui_sample ''b'' False]],
     sp_table = \<lparr>it_rows = [\<lparr>tc_text = [], tc_check = None, tc_checkable = False,
         tc_items = [\<lparr>ti_text = ''a'', ti_check = None, ti_checkable = False, ti_status = []\<rparr>,
                     \<lparr>ti_text = ''b'', ti_check = None, ti_checkable = False, ti_status = []\<rparr>]\<rparr>],
       it_header = Unchecked, it_closed = True, it_count = 0\<rparr>,
     sp_info = \<lparr>pi_jobID = -1, pi_jobState = -1, pi_total = 0, pi_success = 0, pi_failure = 0, pi_progress = 0, pi_method = PROCESS_METHOD_SCAN\<rparr>,
     sp_view = \<lparr>pv_icon = [], pv_timer = False, pv_waitTimer = False, pv_waitTimeOut = 0, pv_definition = [], pv_scan = Some ScanClicked,
       pv_scanShown = True, pv_return = None, pv_report = False, pv_bar = False\<rparr>,
     sp_strategy = 0, sp_invalid = no_invalid, sp_after = [], sp_calls = [], sp_popups = [], sp_onScan = False, sp_onReinforce = False,
     sp_modify = True, sp_finished = 0\<rparr>"

definition report_sample :: "rat \<Rightarrow> (string \<times> int) list \<Rightarrow> job_report" where
  "report_sample done states = \<lparr>jp_jobID = 1, jp_jobState = 1, jp_process = done, jp_items = map (\<lambda>(n, st). (n, st, Some [], None)) states\<rparr>"

lemma scan_sample_ready: "page_ready scan_sample"
  by (simp add: page_ready_def scan_sample_def same_rows_def all_ui_def ui_category_sample_def ui_sample_def)

lemma scan_sample_calls:
  "map_option sp_calls (startScan False scan_sample) = Some [CallScan [''a'', ''b'']]" "sp_calls scan_sample = []"
  by (code_simp, simp add: scan_sample_def)

lemma report_sample_fields: "jp_process (report_sample done states) = done"
    "\<forall>item \<in> set (jp_items (report_sample done states)). fst (snd (snd item)) \<noteq> None"
  by (auto simp: report_sample_def)

theorem page_agrees_with_daemon_witness:
  "\<exists>p0 p'. startScan False scan_sample = Some p0
     \<and> run_reports dialog_env [report_sample 50 [(''a'', 16)], report_sample 100 [(''a'', 1), (''b'', 2)]] p0 = Some p'
     \<and> map (\<lambda>x. (ut_name x, ut_state x)) (all_ui (sp_categories p')) = [(''a'', 1), (''b'', 2)]
     \<and> pv_definition (sp_view p') = ''Scanned 2, 1 conform, 1 inconform!''"
proof -
  let ?reps = "[report_sample 50 [(''a'', 16)]]" and ?final = "report_sample 100 [(''a'', 1), (''b'', 2)]"
  define verdict where "verdict = (\<lambda>n. case qm_value n (bd_jobResult (fold (\<lambda>rep. readReinforceItemStatus (jp_items rep)) (?reps @ [?final]) sample_brd)) of
      None \<Rightarrow> STATE_UNSCAN | Some st \<Rightarrow> st)"
  have verdict: "verdict ''a'' = 1" "verdict ''b'' = 2"
    unfolding verdict_def by (simp_all add: readReinforceItemStatus_def report_sample_def sample_brd_fields) (code_simp, code_simp)
  obtain p0 where p0: "startScan False scan_sample = Some p0" "sp_calls p0 = sp_calls scan_sample @ [CallScan [''a'', ''b'']]"
    using scan_sample_calls by auto
  have items: "\<forall>rep \<in> set (?reps @ [?final]). \<forall>item \<in> set (jp_items rep). fst (snd (snd item)) \<noteq> None"
    using report_sample_fields(2) by simp
  have all: "map ut_name (all_ui (sp_categories scan_sample)) = [''a'', ''b'']"
    by (simp add: scan_sample_def all_ui_def ui_category_sample_def ui_sample_def)
  have good: "filter (state_good \<circ> verdict) [''a'', ''b''] = [''a'']" "filter (state_bad \<circ> verdict) [''a'', ''b''] = [''b'']"
    by (simp_all add: verdict state_good_def state_bad_def)
  have num: "num (Suc 0) = ''1''" "num (Suc (Suc 0)) = ''2''" by code_simp+
  show ?thesis
    using page_agrees_with_daemon [where p = scan_sample and ?p0.0 = p0 and names = "[''a'', ''b'']" and reps = ?reps and final = ?final
        and d = sample_brd and env = dialog_env, OF scan_sample_ready p0 items report_sample_fields(1) sample_brd_fields(7)]
      p0(1) unfolding Let_def verdict_def [symmetric] all good
    by (auto simp: verdict num simp del: run_reports.simps)
qed

end
