(* ===== verification/LogFiles.thy ===== *)
theory LogFiles
  imports LogManager "HOL-Library.Multiset"
begin

text \<open>
  The files of the log (\<open>src/daemon/log/manager.cpp\<close>): reading them back when the daemon starts,
  the rotation the writer thread asks for when the current file is full, the rotation of the
  backup timer, and the copy to the remote host. The directory is the map from the names of its
  files to their lines; the map is kept in the order of the names, which is the order of
  \<open>QDir::Name\<close>. Both rotations remove elements of a list in a range-for over that list, which Qt
  leaves undefined: what such a loop leaves is a parameter (\<open>le_removing\<close>, \<open>None\<close> for a crash).
\<close>

section \<open>The directory\<close>

type_synonym log_dir = "(string, string list) qmap"

definition LOGFILENAME :: string where "LOGFILENAME = ''ks-ssr.log''"

text \<open>
  \<open>le_dir\<close> is \<open>LOGFILEDIR\<close>, \<open>le_stamp\<close> the current time in the ISO format, \<open>le_rename\<close>,
  \<open>le_open\<close> and \<open>le_remove\<close> say what the file system permits, \<open>le_slow\<close> that a program is still
  running after the 30 seconds of \<open>waitForFinished\<close>.
\<close>

record log_env =
  le_dir :: string
  le_stamp :: string
  le_rename :: "string \<Rightarrow> string \<Rightarrow> bool"
  le_open :: bool
  le_read :: "string \<Rightarrow> bool"
  le_remove :: "string \<Rightarrow> bool"
  le_slow :: "string list \<Rightarrow> bool"
  le_removing :: "(string \<Rightarrow> bool) \<Rightarrow> string list \<Rightarrow> string list option"

text \<open>The manager with its directory, the files removed so far and the programs started so far.\<close>

record log_store =
  ls_log :: log_manager
  ls_dir :: log_dir
  ls_gone :: "(string \<times> string list) list"
  ls_programs :: "(string \<times> string list) list"
  ls_backingUp :: bool
  ls_cleaningUp :: bool

text \<open>The name filter of \<open>QDir\<close> ignores the case.\<close>

definition getLogFileList :: "bool \<Rightarrow> log_dir \<Rightarrow> string list" where
  "getLogFileList isReverse dir =
     (let names = filter (\<lambda>n. startsWith (to_lower n) LOGFILENAME) (qm_keys dir)
      in if isReverse then rev names else names)"

text \<open>\<open>QFile::rename\<close> does not replace an existing file; the code goes on after a failure.\<close>

definition rename_log :: "log_env \<Rightarrow> string \<Rightarrow> string \<Rightarrow> log_dir \<Rightarrow> log_dir" where
  "rename_log env old new dir =
     (case qm_value old dir of
        None \<Rightarrow> dir
      | Some ls \<Rightarrow> if qm_contains new dir \<or> \<not> le_rename env old new then dir
                   else qm_insert new ls (qm_remove old dir))"

definition remove_log :: "log_env \<Rightarrow> string \<Rightarrow> log_store \<Rightarrow> log_store" where
  "remove_log env f st =
     (case qm_value f (ls_dir st) of
        None \<Rightarrow> st
      | Some ls \<Rightarrow> if \<not> le_remove env f then st
                   else st\<lparr>ls_dir := qm_remove f (ls_dir st), ls_gone := ls_gone st @ [(f, ls)]\<rparr>)"

text \<open>Opening the current file with \<open>Append\<close>: what it holds is kept.\<close>

definition open_log :: "log_env \<Rightarrow> log_store \<Rightarrow> log_store" where
  "open_log env st =
     (let ls = (case qm_value LOGFILENAME (ls_dir st) of None \<Rightarrow> [] | Some ls \<Rightarrow> ls)
      in if le_open env
         then st\<lparr>ls_log := (ls_log st)\<lparr>lm_writable := True, lm_file := ls\<rparr>,
                 ls_dir := qm_insert LOGFILENAME ls (ls_dir st)\<rparr>
         else st\<lparr>ls_log := (ls_log st)\<lparr>lm_writable := False\<rparr>\<rparr>)"

text \<open>A range-for that removes the elements with \<open>p\<close> from the list it walks over.\<close>

definition loop_removing :: "log_env \<Rightarrow> (string \<Rightarrow> bool) \<Rightarrow> string list \<Rightarrow> string list option" where
  "loop_removing env p xs = (if list_ex p xs then le_removing env p xs else Some xs)"

definition is_overflow :: "string \<Rightarrow> bool" where
  "is_overflow n \<longleftrightarrow> startsWith n (LOGFILENAME @ ''-'')"

definition overflow_name :: "log_env \<Rightarrow> int \<Rightarrow> string" where
  "overflow_name env i = LOGFILENAME @ ''-'' @ le_stamp env @ ''.'' @ show_int i"

section \<open>Backup\<close>

definition remote :: "log_config \<Rightarrow> string" where
  "remote c = lc_account c @ ''@'' @ qs_str (lc_ip c)"

definition backup_args :: "log_env \<Rightarrow> log_config \<Rightarrow> string list \<Rightarrow> string list" where
  "backup_args env c logs =
     [''-p'', lc_passwd c, ''rsync''] @ map (\<lambda>l. le_dir env @ l) logs @ [remote c @ '':'' @ lc_remotePath c]"

definition cleanup_args :: "log_config \<Rightarrow> string list \<Rightarrow> string list" where
  "cleanup_args c logs =
     [''-p'', lc_passwd c, ''ssh'', remote c,
      ''bash -c '' @ [CHR 0x27] @ ''echo '' @ [CHR 0x22] @ ''rm '' @ join '' '' (map (\<lambda>l. lc_remotePath c @ ''/'' @ l) logs)
        @ [CHR 0x22] @ '' | sudo at now + 6 months'' @ [CHR 0x27]]"

text \<open>
  \<open>backUpLog\<close>: the copy is started and waited for, then the removal of the copies in half a
  year; whether the copy succeeded is not looked at.
\<close>

definition backUpLog :: "log_env \<Rightarrow> string list \<Rightarrow> log_store \<Rightarrow> log_store" where
  "backUpLog env logs st =
     (let c = lm_config (ls_log st); b = backup_args env c logs; r = cleanup_args c logs
      in if lc_ip c = None \<or> ls_backingUp st then st
         else (let st = st\<lparr>ls_programs := ls_programs st @ [(''sshpass'', b)], ls_backingUp := le_slow env b\<rparr>
               in if ls_cleaningUp st then st
                  else st\<lparr>ls_programs := ls_programs st @ [(''sshpass'', r)], ls_cleaningUp := le_slow env r\<rparr>))"

section \<open>Rotation\<close>

text \<open>
  The loop that renames the oldest files out of the numbering, from the difference between the
  number of files and the limit down to 0: \<open>takeFirst\<close> of the empty list aborts.
\<close>

fun retire :: "log_env \<Rightarrow> int \<Rightarrow> string list \<Rightarrow> log_dir \<Rightarrow> (string list \<times> log_dir) option" where
  "retire env d [] dir = (if 0 \<le> d then None else Some ([], dir))"
| "retire env d (f # fs) dir =
     (if 0 \<le> d then retire env (d - 1) fs (rename_log env f (overflow_name env d) dir) else Some (f # fs, dir))"

definition next_name :: "string \<Rightarrow> string" where
  "next_name f = LOGFILENAME @ ''.'' @ show_int (toInt (mid 11 f) + 1)"

definition shift_logs :: "log_env \<Rightarrow> string list \<Rightarrow> log_dir \<Rightarrow> log_dir" where
  "shift_logs env logs dir = fold (\<lambda>f. rename_log env f (next_name f)) logs dir"

text \<open>The end of \<open>logFileRotate\<close>, from the new current file on; \<open>kept\<close> are the numbered files.\<close>

definition finish_rotate :: "log_env \<Rightarrow> bool \<Rightarrow> string list \<Rightarrow> log_store \<Rightarrow> log_store option" where
  "finish_rotate env isNeedBackUpLog kept st =
     (case loop_removing env (\<lambda>n. \<not> is_overflow n) (getLogFileList True (ls_dir st)) of
        None \<Rightarrow> None
      | Some over \<Rightarrow>
          if isNeedBackUpLog \<and> word_of_nat (length kept) \<noteq> lc_numLogs (lm_config (ls_log st)) - 1 then Some st
          else (let st = (if isNeedBackUpLog then backUpLog env over st else st);
                    st = fold (remove_log env) over st
                in Some (st\<lparr>ls_log := (ls_log st)\<lparr>lm_wake := True\<rparr>\<rparr>)))"

definition logFileRotate :: "log_env \<Rightarrow> log_store \<Rightarrow> log_store option" where
  "logFileRotate env st =
     (let lm = ls_log st
      in if lm_fileLine lm < lc_maxLogFileLine (lm_config lm) then Some st
         else (case loop_removing env is_overflow (getLogFileList True (ls_dir st)) of
                 None \<Rightarrow> None
               | Some logs \<Rightarrow>
                   (let d = sint (word_of_nat (length logs) - lc_numLogs (lm_config lm))
                    in case retire env d logs (ls_dir st) of
                         None \<Rightarrow> None
                       | Some (kept, dir) \<Rightarrow>
                           finish_rotate env (0 \<le> d) kept
                             (open_log env (st\<lparr>ls_log := lm\<lparr>lm_fileLine := 0\<rparr>,
                                               ls_dir := shift_logs env kept dir\<rparr>)))))"

text \<open>\<open>logFileRotateInTimer\<close>: every file is renamed, offered to the backup and removed.\<close>

fun rename_all :: "log_env \<Rightarrow> int \<Rightarrow> string list \<Rightarrow> log_dir \<Rightarrow> log_dir" where
  "rename_all env index [] dir = dir"
| "rename_all env index (f # fs) dir =
     rename_all env (index - 1) fs (rename_log env f (overflow_name env index) dir)"

definition logFileRotateInTimer :: "log_env \<Rightarrow> log_store \<Rightarrow> log_store" where
  "logFileRotateInTimer env st =
     (let logs = getLogFileList True (ls_dir st);
          st = st\<lparr>ls_log := (ls_log st)\<lparr>lm_fileLine := 0\<rparr>,
                  ls_dir := rename_all env (int (length logs)) logs (ls_dir st)\<rparr>;
          logs = getLogFileList True (ls_dir st);
          st = backUpLog env logs st;
          st = fold (remove_log env) logs st
      in open_log env st)"

section \<open>Start-up\<close>

definition lines_of :: "string \<Rightarrow> log_dir \<Rightarrow> string list" where
  "lines_of f dir = (case qm_value f dir of None \<Rightarrow> [] | Some ls \<Rightarrow> ls)"

definition read_log :: "(string \<Rightarrow> int) \<Rightarrow> string list \<Rightarrow> log_entry list" where
  "read_log parse_time ls = map (\<lambda>l. deserialize parse_time (l @ [CHR 0x0A])) ls"

text \<open>\<open>getAllLog\<close>: \<open>removeLast\<close> of the empty list aborts; each line is read with its newline.\<close>

definition getAllLog :: "log_env \<Rightarrow> (string \<Rightarrow> int) \<Rightarrow> log_dir \<Rightarrow> log_entry list option" where
  "getAllLog env parse_time dir =
     (let logs = getLogFileList True dir
      in if logs = [] then None
         else Some (concat (map (\<lambda>f. if is_overflow f \<or> \<not> le_read env f then []
                                     else read_log parse_time (lines_of f dir))
                          (butlast logs))))"

text \<open>The constructor of \<open>Manager\<close>; the timer's interval is in milliseconds.\<close>

definition timer_interval :: "log_config \<Rightarrow> int" where
  "timer_interval c = sint (lc_bakUpInterval c * 1000)"

definition log_startup :: "log_env \<Rightarrow> (string \<Rightarrow> int) \<Rightarrow> log_config \<Rightarrow> log_dir \<Rightarrow> log_store option" where
  "log_startup env parse_time c dir =
     (let lm = \<lparr>lm_logList = [], lm_firstNeedWrite = 0, lm_fileLine = 0, lm_tmp = [], lm_file = [], lm_writable = False,
                lm_wake = False, lm_rotate = False, lm_written = [], lm_config = c\<rparr>;
          st = open_log env \<lparr>ls_log = lm, ls_dir = dir, ls_gone = [], ls_programs = [],
                              ls_backingUp = False, ls_cleaningUp = False\<rparr>
      in case getAllLog env parse_time (ls_dir st) of
           None \<Rightarrow> None
         | Some old \<Rightarrow>
             (let cur = (if lm_writable (ls_log st) then read_log parse_time (lm_file (ls_log st)) else []);
                  logs = old @ cur
              in Some (st\<lparr>ls_log := (ls_log st)\<lparr>lm_logList := logs, lm_fileLine := word_of_nat (length cur),
                                               lm_firstNeedWrite := word_of_nat (length logs)\<rparr>\<rparr>)))"

section \<open>Names of the numbered files\<close>

definition log_name :: "nat \<Rightarrow> string" where
  "log_name i = (if i = 0 then LOGFILENAME else LOGFILENAME @ ''.'' @ show_nat i)"

text \<open>The directory of \<open>n\<close> numbered files, the current one first.\<close>

definition live_dir :: "string list list \<Rightarrow> log_dir" where
  "live_dir cs = zip (map log_name [0..<length cs]) cs"

lemma show_nat_inj: "show_nat i = show_nat j \<longleftrightarrow> i = j"
  by (metis option.inject parse_nat_show_nat)

lemma log_name_inj: "log_name i = log_name j \<longleftrightarrow> i = j"
  by (simp add: log_name_def show_nat_inj)

lemma log_name_no_overflow: "\<not> is_overflow (log_name i)" "\<not> is_overflow LOGFILENAME"
  by (simp_all add: is_overflow_def startsWith_def log_name_def LOGFILENAME_def)

lemma overflow_name_overflow: "is_overflow (overflow_name env i)"
  by (simp add: is_overflow_def startsWith_def overflow_name_def)

lemma next_log_name: "int i < 2 ^ 31 - 1 \<Longrightarrow> next_name (log_name i) = log_name (Suc i)"
proof -
  assume "int i < 2 ^ 31 - 1"
  then have "toInt (show_nat i) = int i"
    using toInt_show_int [of "int i"] by (simp add: show_int_def int32_ok_def)
  moreover have "toInt [] = 0" by (simp add: toInt_def toInt_base_def trimmed_def parse_nat_def strip_hex_def)
  ultimately show ?thesis
    by (simp add: next_name_def log_name_def LOGFILENAME_def mid_def show_int_def nat_add_distrib)
qed

lemma append_less: "xs @ ys < xs @ zs \<longleftrightarrow> ys < (zs :: string)"
  by (induction xs) simp_all

lemma log_name_less:
  assumes "i < j" "j < 10"
  shows "log_name i < log_name j"
proof -
  have d: "show_nat n = [digit_char n]" if "n < 10" for n using that by (subst show_nat.simps) simp
  have lt: "digit_char i < digit_char j" using assms by (simp add: digit_char_def less_char_def)
  show ?thesis
  proof (cases "i = 0")
    case True
    with assms show ?thesis using append_less [of LOGFILENAME "[]"] by (simp add: log_name_def)
  next
    case False
    then have "log_name n = (LOGFILENAME @ ''.'') @ [digit_char n]" if "n = i \<or> n = j" for n
      using that assms d by (auto simp: log_name_def)
    with lt show ?thesis by (simp add: append_less)
  qed
qed

lemma live_names: "k \<le> 10 \<Longrightarrow> sorted_wrt (<) (map log_name [0..<k])"
  by (simp add: sorted_wrt_map sorted_wrt_iff_nth_less log_name_less)

lemma live_dir_ok: "length cs \<le> 10 \<Longrightarrow> qm_ok (live_dir cs)"
  by (simp add: qm_ok_def live_dir_def live_names)

lemma live_keys [simp]: "map fst (live_dir cs) = map log_name [0..<length cs]" "map snd (live_dir cs) = cs"
  by (simp_all add: live_dir_def)

lemma live_dir_value:
  "i < length cs \<Longrightarrow> qm_value (log_name i) (live_dir cs) = Some (cs ! i)"
  "\<forall>i < length cs. n \<noteq> log_name i \<Longrightarrow> qm_value n (live_dir cs) = None"
proof -
  have d: "distinct (map log_name [0..<length cs])"
    by (simp add: distinct_map inj_on_def log_name_inj)
  show "qm_value (log_name i) (live_dir cs) = Some (cs ! i)" if "i < length cs"
    using map_of_zip_nth [of "map log_name [0..<length cs]" cs i] d that
    by (simp add: qm_value_def live_dir_def)
  show "qm_value n (live_dir cs) = None" if "\<forall>i < length cs. n \<noteq> log_name i"
    using that by (auto simp: qm_value_def live_dir_def)
qed

lemma live_value: "qm_value (log_name i) (live_dir cs) = (if i < length cs then Some (cs ! i) else None)"
  using live_dir_value(1) [of i cs] live_dir_value(2) [of cs "log_name i"] by (auto simp: log_name_inj)

text \<open>Two maps in key order with the same lookups are the same.\<close>

lemma qm_ext:
  assumes "qm_ok m" "qm_ok m'" and same: "\<And>k. qm_value k m = qm_value k m'"
  shows "m = m'"
proof -
  have sets: "set m = set m'"
    using same qm_value_mem [OF assms(1)] qm_value_mem [OF assms(2)] by auto
  moreover have "inj_on fst (set m \<union> set m')"
    using qm_distinct [OF assms(1)] sets by (simp add: distinct_map)
  moreover note qm_distinct [OF assms(1)] qm_distinct [OF assms(2)]
  moreover have "sorted (map fst m)" "sorted (map fst m')"
    using assms(1,2) by (simp_all add: qm_ok_def strict_sorted_imp_sorted)
  ultimately show ?thesis by (intro map_sorted_distinct_set_unique)
qed

section \<open>What a rotation does\<close>

text \<open>The file system refuses no rename; it refuses nothing at all.\<close>

definition renames :: "log_env \<Rightarrow> bool" where
  "renames env \<longleftrightarrow> (\<forall>a b. le_rename env a b)"

definition permissive :: "log_env \<Rightarrow> bool" where
  "permissive env \<longleftrightarrow> renames env \<and> le_open env \<and> (\<forall>f. le_remove env f)"

text \<open>What the loops that remove from their list are meant to leave: the other elements.\<close>

definition filters :: "log_env \<Rightarrow> bool" where
  "filters env \<longleftrightarrow> (\<forall>p xs. le_removing env p xs = Some (filter (\<lambda>x. \<not> p x) xs))"

lemma loop_removing_filter: "filters env \<Longrightarrow> loop_removing env p xs = Some (filter (\<lambda>x. \<not> p x) xs)"
  by (auto simp: loop_removing_def filters_def list_ex_iff)

lemma loop_removing_nothing: "\<forall>x \<in> set xs. \<not> p x \<Longrightarrow> loop_removing env p xs = Some xs"
  by (auto simp: loop_removing_def list_ex_iff)

lemma rename_value:
  assumes "renames env" "qm_ok dir" "qm_value old dir = Some ls" "qm_value new dir = None"
  shows "qm_ok (rename_log env old new dir)"
    and "qm_value n (rename_log env old new dir) = (if n = new then Some ls else if n = old then None else qm_value n dir)"
  using assms by (auto simp: rename_log_def renames_def qm_contains_value qm_ok_insert qm_ok_remove qm_value_insert qm_value_remove)

lemma shift_value:
  assumes "renames env" "m < 2 ^ 30"
  shows "qm_ok dir \<Longrightarrow> \<forall>i < m. qm_value (log_name i) dir = Some (c i) \<Longrightarrow> qm_value (log_name m) dir = None \<Longrightarrow>
     qm_ok (shift_logs env (rev (map log_name [0..<m])) dir)
   \<and> (\<forall>i. qm_value (log_name i) (shift_logs env (rev (map log_name [0..<m])) dir) =
         (if i = 0 \<and> 0 < m then None else if 0 < i \<and> i \<le> m then Some (c (i - 1)) else qm_value (log_name i) dir))
   \<and> (\<forall>n. (\<forall>i. n \<noteq> log_name i) \<longrightarrow> qm_value n (shift_logs env (rev (map log_name [0..<m])) dir) = qm_value n dir)"
  using assms(2)
proof (induction m arbitrary: dir)
  case 0
  then show ?case by (auto simp: shift_logs_def)
next
  case (Suc m)
  let ?d = "rename_log env (log_name m) (log_name (Suc m)) dir"
  have step: "shift_logs env (rev (map log_name [0..<Suc m])) dir = shift_logs env (rev (map log_name [0..<m])) ?d"
    using Suc.prems(4) by (simp add: shift_logs_def next_log_name)
  have v: "qm_ok ?d" "qm_value n ?d = (if n = log_name (Suc m) then Some (c m) else if n = log_name m then None else qm_value n dir)" for n
    using rename_value [OF assms(1) Suc.prems(1), of "log_name m" "c m" "log_name (Suc m)"] Suc.prems(2,3) by auto
  have "\<forall>i < m. qm_value (log_name i) ?d = Some (c i)" "qm_value (log_name m) ?d = None"
    using v(2) Suc.prems(2) by (simp_all add: log_name_inj)
  note IH = Suc.IH [OF v(1) this]
  from IH Suc.prems(4) have ok: "qm_ok (shift_logs env (rev (map log_name [0..<m])) ?d)"
    and other: "\<forall>i. n \<noteq> log_name i \<Longrightarrow> qm_value n (shift_logs env (rev (map log_name [0..<m])) ?d) = qm_value n ?d"
    and num: "qm_value (log_name i) (shift_logs env (rev (map log_name [0..<m])) ?d) =
         (if i = 0 \<and> 0 < m then None else if 0 < i \<and> i \<le> m then Some (c (i - 1)) else qm_value (log_name i) ?d)" for n i
    by simp_all
  show ?case unfolding step
  proof (intro conjI allI impI)
    fix i
    show "qm_value (log_name i) (shift_logs env (rev (map log_name [0..<m])) ?d) =
         (if i = 0 \<and> 0 < Suc m then None else if 0 < i \<and> i \<le> Suc m then Some (c (i - 1)) else qm_value (log_name i) dir)"
      unfolding num v(2) log_name_inj by (cases "i = Suc m") auto
  next
    fix n assume "\<forall>i. n \<noteq> log_name i"
    then show "qm_value n (shift_logs env (rev (map log_name [0..<m])) ?d) = qm_value n dir"
      using other [of n] v(2) [of n] by simp
  qed (rule ok)
qed

lemma listed: "startsWith (to_lower (LOGFILENAME @ x)) LOGFILENAME"
proof -
  have "to_lower (LOGFILENAME @ x) = LOGFILENAME @ to_lower x"
    by (simp add: to_lower_def LOGFILENAME_def lower_char_def)
  then show ?thesis by (simp add: startsWith_def)
qed

lemma log_name_listed: "startsWith (to_lower (log_name i)) LOGFILENAME"
  using listed [of "[]"] listed [of "''.'' @ show_nat i"] by (simp add: log_name_def)

lemma live_listing: "getLogFileList True (live_dir cs) = rev (map log_name [0..<length cs])"
  by (simp add: getLogFileList_def qm_keys_def log_name_listed filter_id_conv)

lemma overflow_not_live: "overflow_name env d \<noteq> log_name i"
  using overflow_name_overflow log_name_no_overflow by metis

lemma retire_negative: "d < 0 \<Longrightarrow> retire env d fs dir = Some (fs, dir)"
  by (cases fs) simp_all

text \<open>The files kept are the newest \<open>numLogs - 1\<close>; at the limit the oldest gets an overflow name.\<close>

lemma retire_live:
  assumes "renames env" "cs \<noteq> []" "length cs \<le> N" "N \<le> 10"
  obtains dir where
    "retire env (int (length cs) - int N) (rev (map log_name [0..<length cs])) (live_dir cs)
       = Some (rev (map log_name [0..<length (take (N - 1) cs)]), dir)" "qm_ok dir"
    "\<And>i. qm_value (log_name i) dir = (if i < length (take (N - 1) cs) then Some (cs ! i) else None)"
    "\<And>n. \<forall>i. n \<noteq> log_name i \<Longrightarrow>
       qm_value n dir = (if length cs = N \<and> n = overflow_name env 0 then Some (last cs) else None)"
proof (cases "length cs = N")
  case False
  with assms have "length (take (N - 1) cs) = length cs" by simp
  then show thesis
    using assms False live_value live_dir_value(2) [of cs] live_dir_ok [of cs]
    by (intro that [of "live_dir cs"]) (auto simp: retire_negative)
next
  case True
  define m where "m = N - 1"
  have k: "length cs = Suc m" using True assms(2) by (cases cs) (auto simp: m_def)
  let ?o = "overflow_name env 0"
  have old: "qm_value (log_name m) (live_dir cs) = Some (last cs)"
    using live_dir_value(1) [of m cs] k assms(2) by (simp add: last_conv_nth)
  have new: "qm_value ?o (live_dir cs) = None"
    by (rule live_dir_value(2)) (simp add: overflow_not_live)
  have "qm_ok (live_dir cs)" using assms(3,4) by (intro live_dir_ok) simp
  note ren = rename_value [OF assms(1) this old new]
  have "retire env (int (length cs) - int N) (rev (map log_name [0..<length cs])) (live_dir cs)
      = Some (rev (map log_name [0..<m]), rename_log env (log_name m) ?o (live_dir cs))"
  proof -
    have "rev (map log_name [0..<length cs]) = log_name m # rev (map log_name [0..<m])" by (simp add: k)
    moreover have "int (length cs) - int N = 0" using True by simp
    ultimately show ?thesis by (simp only: retire.simps) (simp add: retire_negative)
  qed
  moreover have "length (take (N - 1) cs) = m" using k by (simp add: m_def)
  moreover have "qm_value (log_name i) (rename_log env (log_name m) ?o (live_dir cs)) = (if i < m then Some (cs ! i) else None)" for i
    using ren(2) [of "log_name i"] live_value overflow_not_live [of env 0 i] k by (auto simp: log_name_inj)
  moreover have "qm_value n (rename_log env (log_name m) ?o (live_dir cs)) = (if length cs = N \<and> n = ?o then Some (last cs) else None)"
    if "\<forall>i. n \<noteq> log_name i" for n
    using ren(2) [of n] live_dir_value(2) [of cs n] that True by simp
  ultimately show thesis
    using ren(1) by (intro that) (simp_all only:)
qed

text \<open>The directory once the numbers are shifted and the new current file is there.\<close>

lemma shifted_dir:
  assumes "renames env" "cs \<noteq> []" "length cs \<le> N" "N \<le> 10"
  obtains dir kept where
    "retire env (int (length cs) - int N) (rev (map log_name [0..<length cs])) (live_dir cs) = Some (kept, dir)"
    "length kept = length (take (N - 1) cs)" "qm_value LOGFILENAME (shift_logs env kept dir) = None"
    "qm_insert LOGFILENAME [] (shift_logs env kept dir) =
       (if length cs = N then qm_insert (overflow_name env 0) (last cs) (live_dir ([] # take (N - 1) cs))
        else live_dir ([] # cs))"
proof -
  let ?m = "length (take (N - 1) cs)" and ?o = "overflow_name env 0" and ?ts = "[] # take (N - 1) cs"
  obtain dir where r: "retire env (int (length cs) - int N) (rev (map log_name [0..<length cs])) (live_dir cs)
       = Some (rev (map log_name [0..<?m]), dir)" and ok: "qm_ok dir"
    and num: "\<And>i. qm_value (log_name i) dir = (if i < ?m then Some (cs ! i) else None)"
    and other: "\<And>n. \<forall>i. n \<noteq> log_name i \<Longrightarrow> qm_value n dir = (if length cs = N \<and> n = ?o then Some (last cs) else None)"
    using retire_live [OF assms] by blast
  let ?d = "shift_logs env (rev (map log_name [0..<?m])) dir"
  have "?m < 2 ^ 30" using assms(4) by simp
  note sh = shift_value [OF assms(1) this ok, of "\<lambda>i. cs ! i"]
  have sok: "qm_ok ?d" and snum: "qm_value (log_name i) ?d = (if 0 < i \<and> i \<le> ?m then Some (cs ! (i - 1)) else None)"
    and soth: "\<forall>i. n \<noteq> log_name i \<Longrightarrow> qm_value n ?d = (if length cs = N \<and> n = ?o then Some (last cs) else None)" for i n
    using sh num other [of n] by auto
  have small: "length ?ts \<le> 10" using assms(3,4) by simp
  let ?new = "if length cs = N then qm_insert ?o (last cs) (live_dir ?ts) else live_dir ?ts"
  have "qm_insert LOGFILENAME [] ?d = ?new"
  proof (rule qm_ext)
    fix n
    have zero: "LOGFILENAME = log_name 0" by (simp add: log_name_def)
    show "qm_value n (qm_insert LOGFILENAME [] ?d) = qm_value n ?new"
    proof (cases "\<exists>i. n = log_name i")
      case True
      then obtain i where n: "n = log_name i" by blast
      have "qm_value n (live_dir ?ts) = (if i = 0 then Some [] else if i \<le> ?m then Some (cs ! (i - 1)) else None)"
        unfolding n live_value by (cases i) auto
      then show ?thesis
        using n snum [of i] sok small overflow_not_live [of env 0 i]
        by (auto simp: zero qm_value_insert log_name_inj live_dir_ok)
    next
      case False
      then show ?thesis
        using soth [of n] sok small live_dir_value(2) [of ?ts n]
        by (auto simp: zero qm_value_insert live_dir_ok)
    qed
  qed (use sok small in \<open>auto simp: qm_ok_insert live_dir_ok\<close>)
  moreover have "qm_value LOGFILENAME ?d = None" using snum [of 0] by (simp add: log_name_def)
  moreover have "length cs \<noteq> N \<Longrightarrow> take (N - 1) cs = cs" using assms(3) by simp
  ultimately show thesis using r by (intro that [of _ dir]) auto
qed

lemma overflow_listed: "startsWith (to_lower (overflow_name env d)) LOGFILENAME"
  unfolding overflow_name_def by (rule listed)

lemma filter_single: "distinct xs \<Longrightarrow> {x \<in> set xs. P x} = {a} \<Longrightarrow> filter P xs = [a]"
proof -
  assume "distinct xs" "{x \<in> set xs. P x} = {a}"
  then have "distinct (filter P xs)" "set (filter P xs) = {a}" by simp_all
  then show ?thesis by (cases "filter P xs") (auto simp: subset_singleton_iff)
qed

text \<open>The files that the second loop leaves to be removed.\<close>

lemma overflow_files:
  assumes "length ts \<le> 10"
  shows "filter is_overflow (getLogFileList True (live_dir ts)) = []"
    and "filter is_overflow (getLogFileList True (qm_insert (overflow_name env 0) ls (live_dir ts))) = [overflow_name env 0]"
    and "qm_remove (overflow_name env 0) (qm_insert (overflow_name env 0) ls (live_dir ts)) = live_dir ts"
proof -
  let ?o = "overflow_name env 0" and ?d = "qm_insert (overflow_name env 0) ls (live_dir ts)"
  have ok: "qm_ok ?d" "qm_ok (live_dir ts)" using assms by (simp_all add: qm_ok_insert live_dir_ok)
  show "filter is_overflow (getLogFileList True (live_dir ts)) = []"
    by (auto simp: live_listing filter_empty_conv log_name_no_overflow)
  have keys: "set (map fst ?d) = insert ?o (log_name ` {..<length ts})"
  proof -
    have "fst ` set (live_dir ts) = set (map log_name [0..<length ts])" by (simp only: set_map [symmetric] live_keys)
    also have "\<dots> = log_name ` {..<length ts}" by auto
    finally show ?thesis using qm_insert_keys [of ?o ls "live_dir ts"] by simp
  qed
  have "distinct (getLogFileList True ?d)"
    using qm_distinct [OF ok(1)] by (simp add: getLogFileList_def qm_keys_def)
  moreover have "{n \<in> set (getLogFileList True ?d). is_overflow n} = {?o}"
    using keys by (auto simp: getLogFileList_def qm_keys_def overflow_listed overflow_name_overflow log_name_no_overflow simp del: set_map)
  ultimately show "filter is_overflow (getLogFileList True ?d) = [?o]" by (rule filter_single)
  show "qm_remove ?o ?d = live_dir ts"
    using ok live_dir_value(2) [of ts ?o]
    by (intro qm_ext) (auto simp: qm_ok_remove qm_value_remove qm_value_insert overflow_not_live)
qed

text \<open>
  A rotation of a full current file, with at most \<open>numLogs\<close> numbered files: the newest \<open>numLogs - 1\<close>
  move up by one number behind a new, empty current file; the oldest, at the limit, is offered to the
  backup and removed.
\<close>

lemma remove_log_value:
  "qm_ok (ls_dir st) \<Longrightarrow> qm_ok (ls_dir (remove_log env f st))
     \<and> qm_value n (ls_dir (remove_log env f st)) = (if n = f \<and> le_remove env n then None else qm_value n (ls_dir st))
     \<and> ls_log (remove_log env f st) = ls_log st"
  by (auto simp: remove_log_def qm_ok_remove qm_value_remove split: option.split)

lemma remove_logs_value:
  "qm_ok (ls_dir st) \<Longrightarrow> qm_ok (ls_dir (fold (remove_log env) fs st))
     \<and> qm_value n (ls_dir (fold (remove_log env) fs st)) = (if n \<in> set fs \<and> le_remove env n then None else qm_value n (ls_dir st))
     \<and> ls_log (fold (remove_log env) fs st) = ls_log st"
proof (induction fs arbitrary: st)
  case (Cons f fs)
  from Cons.IH [of "remove_log env f st"] remove_log_value [OF Cons.prems, of env f n] show ?case by auto
qed simp

lemma backUpLog_frame:
  "ls_dir (backUpLog env logs st) = ls_dir st" "ls_gone (backUpLog env logs st) = ls_gone st"
  "ls_log (backUpLog env logs st) = ls_log st"
  "lc_ip (lm_config (ls_log st)) = None \<Longrightarrow> ls_programs (backUpLog env logs st) = ls_programs st"
  by (simp_all add: backUpLog_def Let_def)

text \<open>The rotation up to its second loop.\<close>

lemma rotate_to_finish:
  assumes env: "renames env" "le_open env" and dir: "ls_dir st = live_dir cs" "cs \<noteq> []"
    and N: "length cs \<le> unat (lc_numLogs (lm_config (ls_log st)))" "unat (lc_numLogs (lm_config (ls_log st))) \<le> 10"
    and full: "\<not> lm_fileLine (ls_log st) < lc_maxLogFileLine (lm_config (ls_log st))"
  obtains st1 kept where
    "logFileRotate env st = finish_rotate env (length cs = unat (lc_numLogs (lm_config (ls_log st)))) kept st1"
    "length cs = unat (lc_numLogs (lm_config (ls_log st))) \<Longrightarrow> word_of_nat (length kept) = lc_numLogs (lm_config (ls_log st)) - 1"
    "ls_dir st1 = (if length cs = unat (lc_numLogs (lm_config (ls_log st)))
       then qm_insert (overflow_name env 0) (last cs) (live_dir ([] # take (unat (lc_numLogs (lm_config (ls_log st))) - 1) cs))
       else live_dir ([] # cs))"
    "ls_gone st1 = ls_gone st" "ls_log st1 = (ls_log st)\<lparr>lm_fileLine := 0, lm_writable := True, lm_file := []\<rparr>"
proof -
  let ?c = "lm_config (ls_log st)"
  define N where "N = unat (lc_numLogs ?c)"
  have Nle: "length cs \<le> N" "N \<le> 10" using N by (simp_all add: N_def)
  obtain d kept where ret: "retire env (int (length cs) - int N) (rev (map log_name [0..<length cs])) (live_dir cs) = Some (kept, d)"
    and kept: "length kept = length (take (N - 1) cs)" and none: "qm_value LOGFILENAME (shift_logs env kept d) = None"
    and ins: "qm_insert LOGFILENAME [] (shift_logs env kept d) =
       (if length cs = N then qm_insert (overflow_name env 0) (last cs) (live_dir ([] # take (N - 1) cs)) else live_dir ([] # cs))"
    using shifted_dir [OF env(1) dir(2) Nle] by blast
  have diff: "sint (word_of_nat (length cs) - lc_numLogs ?c) = int (length cs) - int N"
  proof -
    have "lc_numLogs ?c = word_of_int (int N)" by (simp add: N_def)
    moreover have "(word_of_nat (length cs) :: 32 word) = word_of_int (int (length cs))" by simp
    ultimately have "word_of_nat (length cs) - lc_numLogs ?c = word_of_int (int (length cs) - int N)" by (simp only: of_int_diff)
    then show ?thesis using Nle sint_small [of "int (length cs) - int N"] by simp
  qed
  have names: "loop_removing env is_overflow (getLogFileList True (ls_dir st)) = Some (rev (map log_name [0..<length cs]))"
    unfolding dir(1) live_listing by (rule loop_removing_nothing) (auto simp: log_name_no_overflow)
  let ?st = "open_log env (st\<lparr>ls_log := (ls_log st)\<lparr>lm_fileLine := 0\<rparr>, ls_dir := shift_logs env kept d\<rparr>)"
  have opened: "ls_dir ?st = qm_insert LOGFILENAME [] (shift_logs env kept d)" "ls_gone ?st = ls_gone st"
    "ls_log ?st = (ls_log st)\<lparr>lm_fileLine := 0, lm_writable := True, lm_file := []\<rparr>"
    using env(2) by (simp_all add: open_log_def none)
  have "0 \<le> int (length cs) - int N \<longleftrightarrow> length cs = N" using Nle by auto
  then have rot: "logFileRotate env st = finish_rotate env (length cs = N) kept ?st"
    using full by (simp add: logFileRotate_def Let_def names [unfolded dir(1)] diff dir(1) ret)
  have "length cs = N \<Longrightarrow> word_of_nat (length kept) = lc_numLogs ?c - 1"
    using dir(2) kept by (cases cs) (auto simp: N_def)
  then show thesis
    using rot opened ins unfolding N_def by (intro that) simp_all
qed

lemma rotate_effect:
  assumes env: "permissive env" "filters env" and dir: "ls_dir st = live_dir cs" "cs \<noteq> []"
    and N: "length cs \<le> unat (lc_numLogs (lm_config (ls_log st)))" "unat (lc_numLogs (lm_config (ls_log st))) \<le> 10"
    and full: "\<not> lm_fileLine (ls_log st) < lc_maxLogFileLine (lm_config (ls_log st))"
  shows "\<exists>st'. logFileRotate env st = Some st'
     \<and> ls_dir st' = live_dir ([] # take (unat (lc_numLogs (lm_config (ls_log st))) - 1) cs)
     \<and> ls_gone st' = ls_gone st @ map (Pair (overflow_name env 0)) (drop (unat (lc_numLogs (lm_config (ls_log st))) - 1) cs)
     \<and> ls_log st' = (ls_log st)\<lparr>lm_fileLine := 0, lm_writable := True, lm_file := [], lm_wake := True\<rparr>"
proof -
  let ?o = "overflow_name env 0"
  define N where "N = unat (lc_numLogs (lm_config (ls_log st)))"
  have perm: "renames env" "le_open env" using env(1) by (simp_all add: permissive_def)
  obtain st1 kept where rot: "logFileRotate env st = finish_rotate env (length cs = N) kept st1"
    and kept: "length cs = N \<Longrightarrow> word_of_nat (length kept) = lc_numLogs (lm_config (ls_log st)) - 1"
    and st1: "ls_dir st1 = (if length cs = N then qm_insert ?o (last cs) (live_dir ([] # take (N - 1) cs)) else live_dir ([] # cs))"
      "ls_gone st1 = ls_gone st" "ls_log st1 = (ls_log st)\<lparr>lm_fileLine := 0, lm_writable := True, lm_file := []\<rparr>"
    using rotate_to_finish [OF perm dir N full] unfolding N_def by blast
  have Nle: "length cs \<le> N" "N \<le> 10" using N by (simp_all add: N_def)
  have small: "length ([] # take (N - 1) cs) \<le> 10" using Nle dir(2) by (cases cs) auto
  note files = overflow_files [OF small]
  show ?thesis
  proof (cases "length cs = N")
    case False
    then have "drop (N - 1) cs = []" "take (N - 1) cs = cs" using Nle by simp_all
    then show ?thesis unfolding rot N_def [symmetric] using False files(1)
      by (simp add: finish_rotate_def loop_removing_filter [OF env(2)] st1)
  next
    case True
    then have "drop (N - 1) cs = [last cs]" using dir(2) by (cases cs rule: rev_cases) auto
    moreover have "qm_value ?o (qm_insert ?o (last cs) (live_dir ([] # take (N - 1) cs))) = Some (last cs)"
      using live_dir_ok [OF small] by (simp add: qm_value_insert)
    ultimately show ?thesis unfolding rot N_def [symmetric] using True kept files env(1)
      by (simp add: finish_rotate_def loop_removing_filter [OF env(2)] st1 remove_log_def backUpLog_def permissive_def Let_def)
  qed
qed

text \<open>A limit of 0 files, which the constructor of the configuration lets through: \<open>takeFirst\<close> of the empty list.\<close>

lemma retire_all: "int (length fs) \<le> d \<Longrightarrow> retire env d fs dir = None"
  by (induction fs arbitrary: d dir) auto

lemma zero_limit_aborts:
  assumes "filters env" "lc_numLogs (lm_config (ls_log st)) = 0" "length (ls_dir st) < 2 ^ 31"
    and "\<not> lm_fileLine (ls_log st) < lc_maxLogFileLine (lm_config (ls_log st))"
  shows "logFileRotate env st = None"
proof -
  define logs where "logs = filter (\<lambda>n. \<not> is_overflow n) (getLogFileList True (ls_dir st))"
  have "length logs \<le> length (ls_dir st)"
    unfolding logs_def getLogFileList_def qm_keys_def Let_def
    by (auto intro: le_trans [OF length_filter_le] simp: rev_filter [symmetric])
  then have "length logs < 2 ^ 31" using assms(3) by simp
  then have "sint (word_of_nat (length logs) :: 32 word) = int (length logs)"
    using sint_small [of "int (length logs)"] by simp
  then show ?thesis
    using assms(2,4) by (simp add: logFileRotate_def loop_removing_filter [OF assms(1)] Let_def retire_all flip: logs_def)
qed

section \<open>Writers, the writer thread and rotations together\<close>

datatype store_event = StoreWrite log_entry | StoreWorker | StoreRotate log_env

text \<open>The writer thread's lines go to the current file.\<close>

definition store_worker :: "(int \<Rightarrow> string) \<Rightarrow> log_store \<Rightarrow> log_store option" where
  "store_worker fmt_time st =
     (case worker_turn fmt_time (ls_log st) of
        None \<Rightarrow> None
      | Some lm \<Rightarrow> Some (st\<lparr>ls_log := lm, ls_dir := (if lm_writable lm then qm_insert LOGFILENAME (lm_file lm) (ls_dir st) else ls_dir st)\<rparr>))"

fun store_step :: "(int \<Rightarrow> string) \<Rightarrow> store_event \<Rightarrow> log_store \<Rightarrow> log_store option" where
  "store_step fmt_time (StoreWrite l) st = Some (st\<lparr>ls_log := writeLog l (ls_log st)\<rparr>)"
| "store_step fmt_time StoreWorker st = store_worker fmt_time st"
| "store_step fmt_time (StoreRotate env) st = logFileRotate env st"

fun store_run :: "(int \<Rightarrow> string) \<Rightarrow> log_store \<Rightarrow> store_event list \<Rightarrow> log_store option" where
  "store_run fmt_time st [] = Some st"
| "store_run fmt_time st (e # es) =
     (case store_step fmt_time e st of None \<Rightarrow> None | Some st' \<Rightarrow> store_run fmt_time st' es)"

fun log_part :: "store_event \<Rightarrow> log_event list" where
  "log_part (StoreWrite l) = [LogWrite l]"
| "log_part StoreWorker = [WorkerTurn]"
| "log_part (StoreRotate env) = []"

definition log_events :: "store_event list \<Rightarrow> log_event list" where
  "log_events es = concat (map log_part es)"

text \<open>Everything ever logged, oldest first: the removed files, the files, the entries on their way.\<close>

definition file_history :: "log_dir \<Rightarrow> string list" where
  "file_history dir = concat (map (\<lambda>f. lines_of f dir) (getLogFileList True dir))"

definition log_history :: "(int \<Rightarrow> string) \<Rightarrow> log_store \<Rightarrow> string list" where
  "log_history fmt_time st = concat (map snd (ls_gone st)) @ file_history (ls_dir st)
     @ map (serialize fmt_time) (lm_tmp (ls_log st) @ pending (ls_log st))"

definition store_inv :: "log_store \<Rightarrow> bool" where
  "store_inv st \<longleftrightarrow> lm_inv (ls_log st) \<and> lm_writable (ls_log st) \<and> unat (lc_numLogs (lm_config (ls_log st))) \<le> 10
     \<and> (\<exists>cs. ls_dir st = live_dir cs \<and> cs \<noteq> [] \<and> hd cs = lm_file (ls_log st)
          \<and> length cs \<le> unat (lc_numLogs (lm_config (ls_log st))))"

lemma live_history: "file_history (live_dir cs) = concat (rev cs)"
proof -
  have "map (\<lambda>f. lines_of f (live_dir cs)) (map log_name [0..<length cs]) = map ((!) cs) [0..<length cs]"
    by (simp add: lines_of_def live_value)
  then have "map (\<lambda>f. lines_of f (live_dir cs)) (map log_name [0..<length cs]) = cs"
    by (simp only: map_nth)
  then show ?thesis by (simp only: file_history_def live_listing rev_map [symmetric])
qed

lemma store_write_step:
  assumes "store_inv st" "\<not> lm_saturated (ls_log st)"
  shows "store_inv (st\<lparr>ls_log := writeLog l (ls_log st)\<rparr>)"
    and "log_history fmt_time (st\<lparr>ls_log := writeLog l (ls_log st)\<rparr>) = log_history fmt_time st @ [serialize fmt_time l]"
  using assms by (simp_all add: store_inv_def log_history_def writeLog_frame writeLog_inv writeLog_pending writeLog_fields)

lemma live_dir_current:
  assumes "cs \<noteq> []" "length cs \<le> 10"
  shows "qm_insert LOGFILENAME ls (live_dir cs) = live_dir (ls # tl cs)"
proof (rule qm_ext)
  have zero: "LOGFILENAME = log_name 0" by (simp add: log_name_def)
  show "qm_value n (qm_insert LOGFILENAME ls (live_dir cs)) = qm_value n (live_dir (ls # tl cs))" for n
  proof (cases "\<exists>i. n = log_name i")
    case True
    then obtain i where "n = log_name i" by blast
    with assms show ?thesis
      by (cases i; cases cs) (simp_all add: zero qm_value_insert live_dir_ok live_value log_name_inj)
  next
    case False
    then show ?thesis
      using assms by (simp add: zero qm_value_insert live_dir_ok live_dir_value(2))
  qed
qed (use assms in \<open>simp_all add: qm_ok_insert live_dir_ok\<close>)

lemma store_worker_step:
  assumes "store_inv st"
  shows "\<exists>st'. store_worker fmt_time st = Some st' \<and> store_inv st' \<and> pending (ls_log st') = []
     \<and> lm_cap (ls_log st') = lm_cap (ls_log st) \<and> log_history fmt_time st' = log_history fmt_time st"
proof -
  let ?lm = "ls_log st"
  from assms obtain cs where cs: "ls_dir st = live_dir cs" "cs \<noteq> []" "hd cs = lm_file ?lm"
      "length cs \<le> unat (lc_numLogs (lm_config ?lm))" and inv: "lm_inv ?lm" "lm_writable ?lm"
    and ten: "unat (lc_numLogs (lm_config ?lm)) \<le> 10"
    unfolding store_inv_def by blast
  from worker_turn_defined [OF inv(1)] obtain lm' where t: "worker_turn fmt_time ?lm = Some lm'" by blast
  note facts = worker_turn_facts [OF inv(1) t]
  let ?st = "st\<lparr>ls_log := lm', ls_dir := live_dir (lm_file lm' # tl cs)\<rparr>"
  have run: "store_worker fmt_time st = Some ?st"
    using cs(4) ten by (simp add: store_worker_def t facts inv(2) cs(1) live_dir_current [OF cs(2)])
  have "length (lm_file lm' # tl cs) = length cs" using cs(2) by (cases cs) simp_all
  then have "store_inv ?st"
    using cs(4) ten facts(3) inv(2)
    by (auto simp: store_inv_def facts intro!: exI [of _ "lm_file lm' # tl cs"])
  moreover have "log_history fmt_time ?st = log_history fmt_time st"
  proof -
    have "lm_file lm' @ map (serialize fmt_time) (lm_tmp lm' @ pending lm')
        = lm_file ?lm @ map (serialize fmt_time) (lm_tmp ?lm @ pending ?lm)"
      using facts(1) [OF inv(2)] by (simp add: log_stream_def)
    moreover have "cs = lm_file ?lm # tl cs" using cs(2,3) by (cases cs) simp_all
    ultimately show ?thesis
      by (simp add: log_history_def cs(1) live_history) (metis append_assoc concat_append concat.simps rev.simps(2) append_Nil2)
  qed
  ultimately show ?thesis using run facts(2,4) by simp
qed

lemma rev_short: "length xs \<le> 1 \<Longrightarrow> rev xs = xs"
  by (cases xs; cases "tl xs") auto

lemma store_rotate_step:
  assumes "store_inv st" and env: "permissive env" "filters env"
  shows "\<exists>st'. logFileRotate env st = Some st' \<and> store_inv st' \<and> pending (ls_log st') = pending (ls_log st)
     \<and> lm_cap (ls_log st') = lm_cap (ls_log st) \<and> log_history fmt_time st' = log_history fmt_time st"
proof (cases "lm_fileLine (ls_log st) < lc_maxLogFileLine (lm_config (ls_log st))")
  case True
  then show ?thesis using assms(1) by (simp add: logFileRotate_def)
next
  case False
  let ?N = "unat (lc_numLogs (lm_config (ls_log st)))"
  from assms(1) obtain cs where cs: "ls_dir st = live_dir cs" "cs \<noteq> []" "length cs \<le> ?N" and inv: "lm_inv (ls_log st)" and ten: "?N \<le> 10"
    unfolding store_inv_def by blast
  obtain st' where st': "logFileRotate env st = Some st'" "ls_dir st' = live_dir ([] # take (?N - 1) cs)"
    "ls_gone st' = ls_gone st @ map (Pair (overflow_name env 0)) (drop (?N - 1) cs)"
    "ls_log st' = (ls_log st)\<lparr>lm_fileLine := 0, lm_writable := True, lm_file := [], lm_wake := True\<rparr>"
    using rotate_effect [OF env cs(1-3) ten False] by blast
  have "1 \<le> ?N" using cs(2,3) by (cases cs) auto
  then have "store_inv st'"
    using inv ten by (auto simp: store_inv_def st'(2,4) lm_inv_def lm_cap_def intro!: exI [of _ "[] # take (?N - 1) cs"])
  moreover have "concat (drop (?N - 1) cs) @ concat (rev (take (?N - 1) cs)) = concat (rev cs)"
  proof -
    have "length (drop (?N - 1) cs) \<le> 1" using cs(3) by simp
    then have "rev (drop (?N - 1) cs) = drop (?N - 1) cs" by (rule rev_short)
    then show ?thesis by (metis append_take_drop_id concat_append rev_append)
  qed
  then have "log_history fmt_time st' = log_history fmt_time st"
    by (simp add: log_history_def st'(2-4) cs(1) live_history pending_def comp_def)
  ultimately show ?thesis by (simp add: st'(1,4) pending_def lm_cap_def)
qed

lemma store_run_history:
  "store_inv st \<Longrightarrow> backlog_ok (unat (lm_cap (ls_log st))) (length (pending (ls_log st))) (log_events es) \<Longrightarrow>
     \<forall>env. StoreRotate env \<in> set es \<longrightarrow> permissive env \<and> filters env \<Longrightarrow>
     \<exists>st'. store_run fmt_time st es = Some st' \<and> store_inv st'
       \<and> log_history fmt_time st' = log_history fmt_time st @ map (serialize fmt_time) (log_writes (log_events es))"
proof (induction es arbitrary: st)
  case Nil
  then show ?case by (simp add: log_events_def)
next
  case (Cons e es)
  show ?case
  proof (cases e)
    case (StoreWrite l)
    with Cons.prems have inv: "lm_inv (ls_log st)" and "length (pending (ls_log st)) < unat (lm_cap (ls_log st))"
      by (auto simp: store_inv_def log_events_def)
    then have ns: "\<not> lm_saturated (ls_log st)" by (rule not_saturated_pending)
    note step = store_write_step [OF Cons.prems(1) ns, where l = l]
    from Cons.IH [OF step(1)] Cons.prems(2,3) StoreWrite show ?thesis
      by (auto simp: log_events_def lm_cap_writeLog writeLog_pending [OF inv ns] step(2))
  next
    case StoreWorker
    obtain st' where st': "store_worker fmt_time st = Some st'" "store_inv st'" "pending (ls_log st') = []"
      "lm_cap (ls_log st') = lm_cap (ls_log st)" "log_history fmt_time st' = log_history fmt_time st"
      using store_worker_step [OF Cons.prems(1)] by blast
    from Cons.IH [OF st'(2)] Cons.prems(2,3) StoreWorker st' show ?thesis by (auto simp: log_events_def)
  next
    case (StoreRotate env)
    with Cons.prems(3) have "permissive env" "filters env" by simp_all
    then obtain st' where st': "logFileRotate env st = Some st'" "store_inv st'" "pending (ls_log st') = pending (ls_log st)"
      "lm_cap (ls_log st') = lm_cap (ls_log st)" "log_history fmt_time st' = log_history fmt_time st"
      using store_rotate_step [OF Cons.prems(1)] by blast
    from Cons.IH [OF st'(2)] Cons.prems(2,3) StoreRotate st' show ?thesis by (auto simp: log_events_def)
  qed
qed

section \<open>The rotation of the timer\<close>

lemma qm_remove_contents:
  "qm_ok m \<Longrightarrow> qm_value k m = Some v \<Longrightarrow> add_mset v (mset (map snd (qm_remove k m))) = mset (map snd m)"
proof (induction m)
  case (Cons a m)
  obtain k' v' where a: "a = (k', v')" by (cases a)
  show ?case
  proof (cases "k = k'")
    case True
    have "filter (\<lambda>(x, _). x \<noteq> k) m = m"
      using Cons.prems(1) unfolding a True by (fastforce simp: qm_ok_Cons filter_id_conv)
    then show ?thesis using Cons.prems(2) True by (simp add: a qm_value_def qm_remove_def)
  next
    case False
    with Cons.prems have "qm_ok m" "qm_value k m = Some v" by (auto simp: a qm_ok_Cons qm_value_def)
    note IH = Cons.IH [OF this]
    have "add_mset v (mset (map snd (qm_remove k (a # m)))) = add_mset v' (add_mset v (mset (map snd (qm_remove k m))))"
      using False by (simp add: a qm_remove_def add_mset_commute)
    then show ?thesis unfolding IH by (simp add: a)
  qed
qed simp

lemma qm_insert_contents: "qm_value k m = None \<Longrightarrow> mset (map snd (qm_insert k v m)) = add_mset v (mset (map snd m))"
proof (induction k v m rule: qm_insert.induct)
  case (2 k v k' v' m)
  then show ?case by (auto simp: qm_value_def add_mset_commute split: if_splits)
qed simp

lemma rename_log_contents:
  assumes "qm_ok dir"
  shows "qm_ok (rename_log env old new dir)" "mset (map snd (rename_log env old new dir)) = mset (map snd dir)"
    and "fst ` set (rename_log env old new dir) \<subseteq> insert new (fst ` set dir)"
proof -
  show "qm_ok (rename_log env old new dir)"
    using assms by (simp add: rename_log_def qm_ok_insert qm_ok_remove split: option.split)
  show "mset (map snd (rename_log env old new dir)) = mset (map snd dir)"
  proof (cases "qm_value old dir")
    case (Some ls)
    have "mset (map snd (qm_insert new ls (qm_remove old dir))) = mset (map snd dir)" if "qm_value new dir = None"
      using qm_remove_contents [OF assms Some] qm_insert_contents [of new "qm_remove old dir" ls] that
      by (simp add: qm_value_remove)
    then show ?thesis using Some by (simp add: rename_log_def qm_contains_value del: mset_map)
  qed (simp add: rename_log_def)
  show "fst ` set (rename_log env old new dir) \<subseteq> insert new (fst ` set dir)"
    by (auto simp: rename_log_def qm_insert_keys qm_remove_def split: option.splits)
qed

lemma rename_all_contents:
  "qm_ok dir \<Longrightarrow> qm_ok (rename_all env i fs dir) \<and> mset (map snd (rename_all env i fs dir)) = mset (map snd dir)
     \<and> fst ` set (rename_all env i fs dir) \<subseteq> fst ` set dir \<union> range (overflow_name env)"
proof (induction env i fs dir rule: rename_all.induct)
  case (2 env i f fs dir)
  note ren = rename_log_contents [OF "2.prems", of env f "overflow_name env i"]
  from "2.IH" [OF ren(1)] ren(2,3) show ?case by (simp del: mset_map) blast
qed simp

lemma remove_log_step:
  assumes "permissive env" "qm_ok (ls_dir st)"
  shows "ls_dir (remove_log env f st) = filter (\<lambda>(n, _). n \<noteq> f) (ls_dir st)" "ls_log (remove_log env f st) = ls_log st"
    and "mset (map snd (ls_gone (remove_log env f st))) + mset (map snd (ls_dir (remove_log env f st)))
       = mset (map snd (ls_gone st)) + mset (map snd (ls_dir st))"
    and "ls_programs (remove_log env f st) = ls_programs st"
proof -
  show "ls_log (remove_log env f st) = ls_log st" "ls_programs (remove_log env f st) = ls_programs st"
    by (simp_all add: remove_log_def split: option.split)
  show "ls_dir (remove_log env f st) = filter (\<lambda>(n, _). n \<noteq> f) (ls_dir st)"
  proof (cases "qm_value f (ls_dir st)")
    case None
    then have "filter (\<lambda>(n, _). n \<noteq> f) (ls_dir st) = ls_dir st"
      by (force simp: qm_value_def map_of_eq_None_iff filter_id_conv)
    with None show ?thesis by (simp add: remove_log_def)
  next
    case (Some ls)
    then show ?thesis using assms(1) by (simp add: remove_log_def permissive_def qm_remove_def)
  qed
  show "mset (map snd (ls_gone (remove_log env f st))) + mset (map snd (ls_dir (remove_log env f st)))
       = mset (map snd (ls_gone st)) + mset (map snd (ls_dir st))"
  proof (cases "qm_value f (ls_dir st)")
    case (Some ls)
    from qm_remove_contents [OF assms(2) this] show ?thesis
      using Some assms(1) by (simp add: remove_log_def permissive_def)
  qed (simp add: remove_log_def)
qed

lemma remove_logs:
  assumes "permissive env"
  shows "qm_ok (ls_dir st) \<Longrightarrow> ls_dir (fold (remove_log env) fs st) = filter (\<lambda>(n, _). n \<notin> set fs) (ls_dir st)
     \<and> ls_log (fold (remove_log env) fs st) = ls_log st \<and> ls_programs (fold (remove_log env) fs st) = ls_programs st"
proof (induction fs arbitrary: st)
  case Nil
  then show ?case by (simp add: case_prod_beta)
next
  case (Cons f fs)
  note step = remove_log_step [OF assms Cons.prems, of f]
  have "qm_ok (ls_dir (remove_log env f st))"
    using Cons.prems unfolding step(1) qm_remove_def [symmetric] by (rule qm_ok_remove)
  note IH = Cons.IH [OF this]
  have "filter (\<lambda>(n, _). n \<notin> set fs) (ls_dir (remove_log env f st)) = filter (\<lambda>(n, _). n \<notin> set (f # fs)) (ls_dir st)"
    unfolding step(1) filter_filter by (rule filter_cong) auto
  then show ?case using IH step(2,4) by simp
qed

lemma remove_logs_contents:
  assumes "permissive env"
  shows "qm_ok (ls_dir st) \<Longrightarrow>
     mset (map snd (ls_gone (fold (remove_log env) fs st))) + mset (map snd (ls_dir (fold (remove_log env) fs st)))
       = mset (map snd (ls_gone st)) + mset (map snd (ls_dir st))"
proof (induction fs arbitrary: st)
  case (Cons f fs)
  note step = remove_log_step [OF assms Cons.prems, of f]
  have "qm_ok (ls_dir (remove_log env f st))"
    using Cons.prems unfolding step(1) qm_remove_def [symmetric] by (rule qm_ok_remove)
  from Cons.IH [OF this] step(3) show ?case by (simp only: fold_simps)
qed simp

lemma listing_all:
  "\<forall>n \<in> fst ` set dir. startsWith (to_lower n) LOGFILENAME \<Longrightarrow> set (getLogFileList isReverse dir) = fst ` set dir"
  by (auto simp: getLogFileList_def qm_keys_def Let_def)

lemma timer_effect:
  assumes env: "permissive env" and ok: "qm_ok (ls_dir st)"
    and listed: "\<forall>n \<in> fst ` set (ls_dir st). startsWith (to_lower n) LOGFILENAME"
  shows "ls_dir (logFileRotateInTimer env st) = live_dir [[]]
     \<and> mset (map snd (ls_gone (logFileRotateInTimer env st))) = mset (map snd (ls_gone st)) + mset (map snd (ls_dir st))
     \<and> ls_log (logFileRotateInTimer env st) = (ls_log st)\<lparr>lm_fileLine := 0, lm_writable := True, lm_file := []\<rparr>
     \<and> (lc_ip (lm_config (ls_log st)) = None \<longrightarrow> ls_programs (logFileRotateInTimer env st) = ls_programs st)"
proof -
  let ?logs = "getLogFileList True (ls_dir st)"
  let ?d = "rename_all env (int (length ?logs)) ?logs (ls_dir st)"
  let ?st = "st\<lparr>ls_log := (ls_log st)\<lparr>lm_fileLine := 0\<rparr>, ls_dir := ?d\<rparr>"
  let ?over = "getLogFileList True ?d"
  let ?b = "backUpLog env ?over ?st"
  have ren: "qm_ok ?d" "mset (map snd ?d) = mset (map snd (ls_dir st))"
      "fst ` set ?d \<subseteq> fst ` set (ls_dir st) \<union> range (overflow_name env)"
    using rename_all_contents [OF ok, of env "int (length ?logs)" ?logs] by (simp_all only:)
  have "\<forall>n \<in> fst ` set ?d. startsWith (to_lower n) LOGFILENAME"
  proof
    fix n assume "n \<in> fst ` set ?d"
    with ren(3) consider "n \<in> fst ` set (ls_dir st)" | i where "n = overflow_name env i" by blast
    then show "startsWith (to_lower n) LOGFILENAME" using listed overflow_listed by cases auto
  qed
  then have all: "set ?over = fst ` set ?d" by (rule listing_all)
  have bd: "ls_dir ?b = ?d" by (simp add: backUpLog_frame)
  then have bok: "qm_ok (ls_dir ?b)" using ren(1) by simp
  note rem = remove_logs [OF env bok, of ?over] remove_logs_contents [OF env bok, of ?over]
  let ?e = "fold (remove_log env) ?over ?b"
  have "filter (\<lambda>(n, _). n \<notin> set ?over) ?d = []" by (force simp: filter_empty_conv all)
  then have empty: "ls_dir ?e = []" using rem bd by simp
  obtain e where e: "logFileRotateInTimer env st = open_log env e" "ls_dir e = []"
    "mset (map snd (ls_gone e)) = mset (map snd (ls_gone st)) + mset (map snd (ls_dir st))"
    "ls_log e = (ls_log st)\<lparr>lm_fileLine := 0\<rparr>"
    "lc_ip (lm_config (ls_log st)) = None \<longrightarrow> ls_programs e = ls_programs st"
  proof
    show "logFileRotateInTimer env st = open_log env ?e" by (simp add: logFileRotateInTimer_def Let_def)
    show "ls_dir ?e = []" by (rule empty)
    show "mset (map snd (ls_gone ?e)) = mset (map snd (ls_gone st)) + mset (map snd (ls_dir st))"
      using rem(2) ren(2) unfolding empty bd by (simp add: backUpLog_frame)
    show "ls_log ?e = (ls_log st)\<lparr>lm_fileLine := 0\<rparr>" using rem(1) by (simp add: backUpLog_frame)
    show "lc_ip (lm_config (ls_log st)) = None \<longrightarrow> ls_programs ?e = ls_programs st"
      using rem(1) backUpLog_frame(4) [of ?st env ?over] by simp
  qed
  moreover have "live_dir [[]] = [(LOGFILENAME, [])]" by (simp add: live_dir_def log_name_def)
  ultimately show ?thesis using env by (simp add: open_log_def permissive_def)
qed

section \<open>A restart\<close>

lemma read_log_concat: "read_log parse_time (concat xs) = concat (map (read_log parse_time) xs)"
  by (induction xs) (simp_all add: read_log_def)

lemma startup_reads:
  assumes env: "permissive env" "\<forall>f. le_read env f" and cs: "cs \<noteq> []" "length cs \<le> 10"
  shows "\<exists>st. log_startup env parse_time c (live_dir cs) = Some st \<and> ls_dir st = live_dir cs \<and> ls_gone st = []
     \<and> lm_logList (ls_log st) = read_log parse_time (concat (rev cs))
     \<and> lm_firstNeedWrite (ls_log st) = word_of_nat (length (concat cs))
     \<and> lm_fileLine (ls_log st) = word_of_nat (length (hd cs))
     \<and> lm_file (ls_log st) = hd cs \<and> lm_tmp (ls_log st) = [] \<and> lm_writable (ls_log st) \<and> lm_config (ls_log st) = c"
proof -
  have zero: "LOGFILENAME = log_name 0" by (simp add: log_name_def)
  have cur: "qm_value LOGFILENAME (live_dir cs) = Some (hd cs)"
    using cs(1) by (simp add: zero live_value hd_conv_nth)
  have same: "qm_insert LOGFILENAME (hd cs) (live_dir cs) = live_dir cs"
    using live_dir_current [OF cs, of "hd cs"] cs(1) by simp
  have "butlast (getLogFileList True (live_dir cs)) = rev (map log_name [1..<length cs])"
    using cs(1) by (simp add: live_listing butlast_rev map_tl [symmetric] tl_upt)
  moreover have "map (\<lambda>f. if is_overflow f \<or> \<not> le_read env f then []
      else read_log parse_time (lines_of f (live_dir cs))) (rev (map log_name [1..<length cs]))
    = rev (map (read_log parse_time) (tl cs))"
  proof -
    let ?g = "\<lambda>f. if is_overflow f \<or> \<not> le_read env f then [] else read_log parse_time (lines_of f (live_dir cs))"
    have "map ((!) cs) [1..<length cs] = tl cs" by (rule nth_equalityI) (simp_all add: nth_tl)
    moreover have "map ?g (map log_name [1..<length cs]) = map (read_log parse_time) (map ((!) cs) [1..<length cs])"
      using env(2) by (simp add: log_name_no_overflow lines_of_def live_value)
    ultimately have "map ?g (map log_name [1..<length cs]) = map (read_log parse_time) (tl cs)" by (simp only:)
    then show ?thesis by (simp only: rev_map [symmetric])
  qed
  ultimately have old: "getAllLog env parse_time (live_dir cs) = Some (read_log parse_time (concat (rev (tl cs))))"
    using cs(1) by (simp add: getAllLog_def live_listing read_log_concat rev_map [symmetric])
  have "concat (rev cs) = concat (rev (tl cs)) @ hd cs" using cs(1) by (cases cs) simp_all
  moreover have "length (concat (rev (tl cs)) @ hd cs) = length (concat cs)"
    using cs(1) by (cases cs) (simp_all add: length_concat rev_map [symmetric])
  moreover have "(word_of_nat (length (concat (tl cs))) + word_of_nat (length (hd cs)) :: 32 word) = word_of_nat (length (concat cs))"
    using cs(1) by (cases cs) (simp_all add: add.commute)
  ultimately show ?thesis using env old
    by (simp add: log_startup_def open_log_def cur same permissive_def read_log_def Let_def)
qed

lemma startup_needs_the_file:
  "\<not> le_open env \<Longrightarrow> log_startup env parse_time c [] = None"
  by (simp add: log_startup_def open_log_def getAllLog_def getLogFileList_def qm_keys_def Let_def)

lemma no_interval_fires_at_once: "timer_interval (log_configurations host_address []) = 0"
  by (simp add: timer_interval_def log_configurations_def s_value_def s_group_def Let_def)

text \<open>
  Beyond ten numbered files the order of the names is no longer that of the numbers, and a file is
  shifted onto the next number while that is still taken, which the file system refuses.
\<close>

lemma ten_before_two: "log_name 10 < log_name 2"
proof -
  have "show_nat 10 = ''10''" "show_nat 2 = ''2''" by code_simp+
  then show ?thesis by (simp add: log_name_def append_less less_char_def)
qed

lemma rename_refused: "qm_contains new dir \<Longrightarrow> rename_log env old new dir = dir"
  by (simp add: rename_log_def split: option.split)

section \<open>Properties\<close>

definition sample_log_env :: log_env where
  "sample_log_env = \<lparr>le_dir = ''/l/'', le_stamp = ''2024'', le_rename = \<lambda>_ _. True, le_open = True, le_read = \<lambda>_. True,
     le_remove = \<lambda>_. True, le_slow = \<lambda>_. False, le_removing = \<lambda>p xs. Some (filter (\<lambda>x. \<not> p x) xs)\<rparr>"

definition sample_store :: log_store where
  "sample_store = \<lparr>ls_log = small_log, ls_dir = live_dir [[]], ls_gone = [], ls_programs = [],
     ls_backingUp = False, ls_cleaningUp = False\<rparr>"

lemma sample_store_ok: "permissive sample_log_env" "store_inv sample_store" "filters sample_log_env"
proof -
  show "permissive sample_log_env" "filters sample_log_env"
    by (simp_all add: permissive_def renames_def filters_def sample_log_env_def)
  show "store_inv sample_store"
    using small_log_inv by (auto simp: store_inv_def sample_store_def small_log_def intro!: exI [of _ "[[]]"])
qed

text \<open>C3: A rotation keeps every line until its last step. From a directory of at most \<open>numLogs\<close> (at most 10)
  numbered files, the current one full, when nothing fails to be renamed and the current file opens: every file
  but, at the limit, the oldest moves up one number with its lines, the oldest one gets a name out of
  the numbering, and the current file is new and empty. Then exactly those files are removed that the second
  loop over the listing leaves and that may be removed; what that loop leaves when it takes elements out of the
  list it walks over is undefined, so it may also crash. The entries in memory stay, and the writer is woken. When the
  loop leaves what it is meant to, the numbered files are the new one and the newest \<open>numLogs - 1\<close>.\<close>

theorem rotation_moves_files:
  assumes "renames env" "le_open env" and "ls_dir st = live_dir cs" "cs \<noteq> []"
    and "N = unat (lc_numLogs (lm_config (ls_log st)))" "length cs \<le> N" "N \<le> 10"
    and "\<not> lm_fileLine (ls_log st) < lc_maxLogFileLine (lm_config (ls_log st))"
    and "d = (if length cs = N then qm_insert (overflow_name env 0) (last cs) (live_dir ([] # butlast cs))
              else live_dir ([] # cs))"
  shows "case loop_removing env (\<lambda>n. \<not> is_overflow n) (getLogFileList True d) of
       None \<Rightarrow> logFileRotate env st = None
     | Some over \<Rightarrow> \<exists>st'. logFileRotate env st = Some st'
         \<and> (\<forall>n. qm_value n (ls_dir st') = (if n \<in> set over \<and> le_remove env n then None else qm_value n d))
         \<and> ls_log st' = (ls_log st)\<lparr>lm_fileLine := 0, lm_writable := True, lm_file := [], lm_wake := True\<rparr>
         \<and> (permissive env \<and> filters env \<longrightarrow> ls_dir st' = live_dir ([] # take (N - 1) cs))"
proof -
  let ?o = "overflow_name env 0"
  have N: "length cs \<le> unat (lc_numLogs (lm_config (ls_log st)))" "unat (lc_numLogs (lm_config (ls_log st))) \<le> 10"
    using assms(5-7) by simp_all
  obtain st1 kept where rot: "logFileRotate env st = finish_rotate env (length cs = N) kept st1"
    and kept: "length cs = N \<Longrightarrow> word_of_nat (length kept) = lc_numLogs (lm_config (ls_log st)) - 1"
    and st1: "ls_dir st1 = (if length cs = N then qm_insert ?o (last cs) (live_dir ([] # take (N - 1) cs)) else live_dir ([] # cs))"
      "ls_log st1 = (ls_log st)\<lparr>lm_fileLine := 0, lm_writable := True, lm_file := []\<rparr>"
    using rotate_to_finish [OF assms(1-4) N assms(8)] unfolding assms(5) by blast
  have d: "ls_dir st1 = d" using assms(9) by (simp add: st1 butlast_conv_take)
  have small: "length ([] # take (N - 1) cs) \<le> 10" "length cs \<noteq> N \<Longrightarrow> length ([] # cs) \<le> 10"
    using assms(4,6,7) by (cases cs; simp)+
  then have ok: "qm_ok d" unfolding d [symmetric] st1 by (simp add: qm_ok_insert live_dir_ok)
  show ?thesis
  proof (cases "loop_removing env (\<lambda>n. \<not> is_overflow n) (getLogFileList True d)")
    case None
    then show ?thesis by (simp add: rot finish_rotate_def d)
  next
    case (Some over)
    let ?b = "if length cs = N then backUpLog env over st1 else st1"
    let ?r = "fold (remove_log env) over ?b"
    have b: "ls_dir ?b = d" "ls_log ?b = ls_log st1" by (simp_all add: d backUpLog_frame)
    have r: "qm_value n (ls_dir ?r) = (if n \<in> set over \<and> le_remove env n then None else qm_value n d)" "ls_log ?r = ls_log st1" for n
      using remove_logs_value [of ?b env over n] ok by (simp_all only: b)
    have go: "\<not> (length cs = N \<and> word_of_nat (length kept) \<noteq> lc_numLogs (lm_config (ls_log st1)) - 1)"
      using kept by (auto simp: st1(2))
    have res: "logFileRotate env st = Some (?r\<lparr>ls_log := (ls_log ?r)\<lparr>lm_wake := True\<rparr>\<rparr>)"
      unfolding rot finish_rotate_def d Some option.case if_not_P [OF go] Let_def ..
    have "ls_dir ?r = live_dir ([] # take (N - 1) cs)" if "permissive env" "filters env"
      using rotate_effect [OF that assms(3,4) N assms(8)] res by (simp add: assms(5))
    then show ?thesis using r(1) by (simp add: Some res r(2) st1(2))
  qed
qed

definition sample_full :: log_store where
  "sample_full = sample_store\<lparr>ls_dir := live_dir [[''c''], [''b''], [''a'']],
     ls_log := small_log\<lparr>lm_fileLine := 2, lm_config := (lm_config small_log)\<lparr>lc_numLogs := 3\<rparr>\<rparr>\<rparr>"

theorem rotation_moves_files_witness:
  "\<exists>st'. logFileRotate sample_log_env sample_full = Some st' \<and> ls_dir st' = live_dir [[], [''c''], [''b'']]"
proof -
  let ?cs = "[[''c''], [''b''], [''a'']]"
  have env: "permissive sample_log_env" "filters sample_log_env" by (rule sample_store_ok)+
  then have "renames sample_log_env" "le_open sample_log_env" by (simp_all add: permissive_def)
  moreover have "ls_dir sample_full = live_dir ?cs" "(3 :: nat) = unat (lc_numLogs (lm_config (ls_log sample_full)))"
      "\<not> lm_fileLine (ls_log sample_full) < lc_maxLogFileLine (lm_config (ls_log sample_full))"
    by (simp_all add: sample_full_def small_log_def)
  ultimately show ?thesis
    using rotation_moves_files [of sample_log_env sample_full ?cs 3, OF _ _ _ _ _ _ _ _ refl] env
    by (simp add: loop_removing_filter) blast
qed

text \<open>Over a whole run the history is kept, when the file system refuses nothing and the loops that
  remove from the list they walk over leave what they are meant to: the lines removed from the directory, those of
  its files and the entries on their way are together the earlier ones followed by every new entry.\<close>

theorem log_history_kept:
  assumes "store_inv st" and "\<forall>env. StoreRotate env \<in> set es \<longrightarrow> permissive env \<and> filters env"
    and "backlog_ok (unat (lm_cap (ls_log st))) (length (pending (ls_log st))) (log_events es)"
  shows "\<exists>st'. store_run fmt_time st es = Some st' \<and> store_inv st'
     \<and> log_history fmt_time st' = log_history fmt_time st @ map (serialize fmt_time) (log_writes (log_events es))"
  by (rule store_run_history [OF assms(1,3,2)])

theorem log_history_kept_witness:
  "\<exists>st'. store_run show_int sample_store
      [StoreWrite (sample_entry ''a''), StoreWrite (sample_entry ''b''), StoreWorker, StoreWrite (sample_entry ''c''),
       StoreWorker, StoreRotate sample_log_env, StoreWorker] = Some st'
    \<and> length (log_history show_int st') = 3"
proof -
  let ?es = "[StoreWrite (sample_entry ''a''), StoreWrite (sample_entry ''b''), StoreWorker, StoreWrite (sample_entry ''c''),
       StoreWorker, StoreRotate sample_log_env, StoreWorker]"
  have "ls_log sample_store = small_log" by (simp add: sample_store_def)
  then have "backlog_ok (unat (lm_cap (ls_log sample_store))) (length (pending (ls_log sample_store))) (log_events ?es)"
    using small_log_inv by (simp add: log_events_def)
  then obtain st' where st': "store_run show_int sample_store ?es = Some st'"
      "log_history show_int st' = log_history show_int sample_store @ map (serialize show_int) (log_writes (log_events ?es))"
    using log_history_kept [OF sample_store_ok(2), of ?es show_int] sample_store_ok(1,3) by auto
  have "log_history show_int sample_store = []"
    using small_log_inv by (simp add: log_history_def sample_store_def live_history) (simp add: small_log_def)
  then show ?thesis using st' by (simp add: log_events_def)
qed

text \<open>C4: Every period of the backup timer all log files are removed, whatever became of the copy: the
  directory ends with one new empty file, every file that was in it is among the removed ones, and
  without a configured address nothing was even started to copy them. The entries in memory stay.\<close>

theorem timer_removes_every_log:
  assumes "permissive env" "qm_ok (ls_dir st)" "\<forall>n \<in> fst ` set (ls_dir st). startsWith (to_lower n) LOGFILENAME"
  shows "ls_dir (logFileRotateInTimer env st) = live_dir [[]]
     \<and> mset (map snd (ls_gone (logFileRotateInTimer env st))) = mset (map snd (ls_gone st)) + mset (map snd (ls_dir st))
     \<and> lm_logList (ls_log (logFileRotateInTimer env st)) = lm_logList (ls_log st)
     \<and> (lc_ip (lm_config (ls_log st)) = None \<longrightarrow> ls_programs (logFileRotateInTimer env st) = ls_programs st)"
  using timer_effect [OF assms] by simp

theorem timer_removes_every_log_witness:
  "ls_dir (logFileRotateInTimer sample_log_env (sample_store\<lparr>ls_dir := live_dir [[''x''], [''y'']]\<rparr>)) = live_dir [[]]
   \<and> ls_programs (logFileRotateInTimer sample_log_env (sample_store\<lparr>ls_dir := live_dir [[''x''], [''y'']]\<rparr>)) = []"
proof -
  let ?st = "sample_store\<lparr>ls_dir := live_dir [[''x''], [''y'']]\<rparr>"
  have "\<forall>n \<in> fst ` set (ls_dir ?st). startsWith (to_lower n) LOGFILENAME"
    by (auto simp: live_dir_def log_name_listed)
  from timer_removes_every_log [OF sample_store_ok(1) _ this] show ?thesis
    using live_dir_ok [of "[[''x''], [''y'']]"] by (simp add: sample_store_def small_log_def)
qed

text \<open>C5: A restart reads the history back: with the numbered files of a directory readable, the
  entries in memory are those of the lines of its files, the oldest file first and the current one last,
  none of them is written again, and the line count is that of the current file.\<close>

theorem restart_reads_history:
  assumes "permissive env" "\<forall>f. le_read env f" "cs \<noteq> []" "length cs \<le> 10" "length (concat cs) < 2 ^ 32"
  shows "\<exists>st. log_startup env parse_time c (live_dir cs) = Some st
     \<and> lm_logList (ls_log st) = read_log parse_time (file_history (live_dir cs))
     \<and> pending (ls_log st) = [] \<and> log_history fmt_time st = file_history (live_dir cs)
     \<and> lm_fileLine (ls_log st) = word_of_nat (length (hd cs))"
proof -
  obtain st where st: "log_startup env parse_time c (live_dir cs) = Some st" "ls_dir st = live_dir cs" "ls_gone st = []"
    "lm_logList (ls_log st) = read_log parse_time (concat (rev cs))"
    "lm_firstNeedWrite (ls_log st) = word_of_nat (length (concat cs))" "lm_tmp (ls_log st) = []"
    "lm_fileLine (ls_log st) = word_of_nat (length (hd cs))"
    using startup_reads [OF assms(1-4)] by blast
  have "length (read_log parse_time (concat (rev cs))) = length (concat cs)"
    by (simp add: read_log_def length_concat rev_map [symmetric])
  then have "pending (ls_log st) = []" using st(4,5) assms(5) by (simp add: pending_def unat_of_nat_small)
  then show ?thesis using st by (simp add: live_history log_history_def)
qed

theorem restart_reads_history_witness:
  "\<exists>st. log_startup sample_log_env toInt (lm_config small_log) (live_dir [[''b'', ''c''], [''a'']]) = Some st
     \<and> lm_logList (ls_log st) = read_log toInt [''a'', ''b'', ''c'']"
  using restart_reads_history [OF sample_store_ok(1), of "[[''b'', ''c''], [''a'']]" toInt "lm_config small_log" show_int]
  by (auto simp: sample_log_env_def live_history)

end
