(* ===== verification/Pagination.thy ===== *)
theory Pagination
  imports QtCore
begin

text \<open>
  The page selector of the tables, \<open>src/ui/common/table/pagination.cpp\<close>: the two arrows, the row of page
  buttons with its gaps, the button of the last page and the field to jump to a page. The buttons
  exclude each other: checking one unchecks the others, and a checked button that is deleted leaves
  none checked. The signal \<open>currentPageChanged\<close> is kept apart from the update it is emitted in
  (\<open>pg_clamp\<close> and \<open>pg_set\<close>), so that the log viewer can run its slot in between.
\<close>

section \<open>State\<close>

datatype page_mode = PageSelectByButton | PageSelectByNo

datatype page_button = LastButton | ListButton nat     \<comment> \<open>\<open>m_buttonLast\<close>, an index of \<open>m_buttonList\<close>\<close>

record pbutton =
  pb_text :: string
  pb_enabled :: bool

record pagination =
  pg_mode :: page_mode
  pg_maxShow :: int
  pg_total :: int
  pg_current :: int
  pg_last :: string
  pg_buttons :: "pbutton list"
  pg_checked :: "page_button option"
  pg_left :: bool
  pg_right :: bool
  pg_visible :: bool
  pg_top :: int                \<comment> \<open>the greatest page the field accepts\<close>
  pg_edit :: string
  pg_label :: string

section \<open>Operations\<close>

definition handleFirstLastPage :: "int \<Rightarrow> pagination \<Rightarrow> pagination" where
  "handleFirstLastPage currentPage p =
     (if currentPage = 1 \<and> currentPage \<noteq> pg_total p then p\<lparr>pg_left := False, pg_right := True\<rparr>
      else if currentPage = pg_total p \<and> currentPage \<noteq> 1 then p\<lparr>pg_right := False, pg_left := True\<rparr>
      else if currentPage = 1 \<and> currentPage = pg_total p then p\<lparr>pg_right := False, pg_left := False\<rparr>
      else p\<lparr>pg_left := True, pg_right := True\<rparr>)"

definition emptyPageBtnList :: "pagination \<Rightarrow> pagination" where
  "emptyPageBtnList p = p\<lparr>pg_buttons := [],
     pg_checked := (case pg_checked p of Some (ListButton _) \<Rightarrow> None | c \<Rightarrow> c)\<rparr>"

definition createPageBtnList :: "int \<Rightarrow> pagination \<Rightarrow> pagination" where
  "createPageBtnList btnListSize p = p\<lparr>pg_buttons := pg_buttons p @
     map (\<lambda>i. \<lparr>pb_text = show_int (int i), pb_enabled = True\<rparr>) [1..<nat btnListSize]\<rparr>"

definition set_button :: "nat \<Rightarrow> (pbutton \<Rightarrow> pbutton) \<Rightarrow> pagination \<Rightarrow> pagination" where
  "set_button i f p = p\<lparr>pg_buttons := (pg_buttons p)[i := f (pg_buttons p ! i)]\<rparr>"

definition gap :: "nat \<Rightarrow> pagination \<Rightarrow> pagination" where
  "gap i = set_button i (\<lambda>b. b\<lparr>pb_text := ''...'', pb_enabled := False\<rparr>)"

definition enable_button :: "nat \<Rightarrow> pagination \<Rightarrow> pagination" where
  "enable_button i = set_button i (\<lambda>b. b\<lparr>pb_enabled := True\<rparr>)"

text \<open>The loops that number the buttons: \<open>first\<close> is the index of the first button, \<open>n\<close> its page.\<close>

fun number_buttons :: "nat \<Rightarrow> int \<Rightarrow> nat \<Rightarrow> pagination \<Rightarrow> pagination" where
  "number_buttons first n 0 p = p"
| "number_buttons first n (Suc k) p =
     number_buttons (Suc first) (n + 1) k (set_button first (\<lambda>b. b\<lparr>pb_text := show_int n\<rparr>) p)"

text \<open>The row of buttons for more pages than it can show.\<close>

definition long_row :: "int \<Rightarrow> int \<Rightarrow> pagination \<Rightarrow> pagination" where
  "long_row totalPage currentPage p =
     (let m = pg_maxShow p; lst = nat (m - 2);
          p = (if int (length (pg_buttons p)) < m - 1 then createPageBtnList m (emptyPageBtnList p) else p)
      in if currentPage \<le> m - 3
         then number_buttons 0 1 lst (enable_button 0 (gap lst p))
         else if totalPage - 3 \<le> currentPage
         then number_buttons 1 (totalPage - 1 - (m - 3)) lst (enable_button lst (gap 0 p))
         else number_buttons 1 (currentPage + 1 - (m - 4)) (nat (m - 3)) (gap lst (gap 0 p)))"

text \<open>\<open>setCheckedButton\<close>: the last button of the row with the number is left checked.\<close>

definition setCheckedButton :: "int \<Rightarrow> pagination \<Rightarrow> pagination" where
  "setCheckedButton currentPage p =
     (let p = (if currentPage = pg_total p then p\<lparr>pg_checked := Some LastButton\<rparr> else p)
      in fold (\<lambda>i p. if toInt (pb_text (pg_buttons p ! i)) = currentPage then p\<lparr>pg_checked := Some (ListButton i)\<rparr> else p)
           [0..<length (pg_buttons p)] p)"

text \<open>The private \<open>setTotalPage\<close> with two arguments.\<close>

definition pg_set :: "int \<Rightarrow> int \<Rightarrow> pagination \<Rightarrow> pagination" where
  "pg_set totalPage currentPage p =
     (if totalPage < currentPage \<or> currentPage \<le> 0 then p
      else
        let p = handleFirstLastPage currentPage
                  (p\<lparr>pg_last := show_int totalPage, pg_total := totalPage, pg_current := currentPage\<rparr>)
        in if pg_mode p = PageSelectByNo then p\<lparr>pg_label := show_int totalPage, pg_edit := show_int currentPage\<rparr>
           else setCheckedButton currentPage
             (if totalPage \<le> pg_maxShow p
              then let p = createPageBtnList totalPage (emptyPageBtnList p)
                   in if currentPage = totalPage then p\<lparr>pg_checked := Some LastButton\<rparr> else p
              else long_row totalPage currentPage p))"

text \<open>The public \<open>setTotalPage\<close>: the signal, if any, is emitted between the two parts.\<close>

definition pg_clamp :: "int \<Rightarrow> pagination \<Rightarrow> pagination \<times> bool" where
  "pg_clamp totalPage p =
     (let p = p\<lparr>pg_top := totalPage\<rparr>
      in if totalPage < pg_current p then (p\<lparr>pg_current := totalPage\<rparr>, True) else (p, False))"

definition pg_show :: "pagination \<Rightarrow> pagination" where
  "pg_show p = p\<lparr>pg_visible := (1 < pg_total p)\<rparr>"

definition pg_setTotalPage :: "int \<Rightarrow> pagination \<Rightarrow> pagination" where
  "pg_setTotalPage totalPage p = (let p = fst (pg_clamp totalPage p) in pg_show (pg_set totalPage (pg_current p) p))"

definition gotoFirstPage :: "pagination \<Rightarrow> pagination" where
  "gotoFirstPage p = pg_set (pg_total p) 1 p"

definition forceChangeCurrentPage :: "int \<Rightarrow> pagination \<Rightarrow> pagination" where
  "forceChangeCurrentPage currentPage p = (if currentPage \<le> 0 then p else p\<lparr>pg_current := currentPage\<rparr>)"

text \<open>The slots that end with \<open>currentPageChanged(m_currentPage)\<close>; a disabled button gets no click.\<close>

definition jumpPage :: "string \<Rightarrow> pagination \<Rightarrow> pagination" where
  "jumpPage text p = pg_set (pg_total p) (toInt text) p"

definition clickedLeftPushButton :: "pagination \<Rightarrow> pagination" where
  "clickedLeftPushButton p = pg_set (pg_total p) (pg_current p - 1) (p\<lparr>pg_current := pg_current p - 1\<rparr>)"

definition clickedRightPushButton :: "pagination \<Rightarrow> pagination" where
  "clickedRightPushButton p = pg_set (pg_total p) (pg_current p + 1) (p\<lparr>pg_current := pg_current p + 1\<rparr>)"

definition button_text :: "page_button \<Rightarrow> pagination \<Rightarrow> string" where
  "button_text b p = (case b of LastButton \<Rightarrow> pg_last p | ListButton i \<Rightarrow> pb_text (pg_buttons p ! i))"

text \<open>A click checks the button; the slot then does nothing, and emits nothing, on the current page.\<close>

definition clickedSelectButton :: "page_button \<Rightarrow> pagination \<Rightarrow> pagination \<times> bool" where
  "clickedSelectButton b p =
     (let p = p\<lparr>pg_checked := Some b\<rparr>; n = toInt (button_text b p)
      in if n = pg_current p then (p, False) else (pg_set (pg_total p) n p, True))"

text \<open>The constructors: many buttons, or the number of the page.\<close>

definition new_pagination :: "int \<Rightarrow> int \<Rightarrow> pagination" where
  "new_pagination totalPage maxShowPages =
     pg_show (pg_set totalPage 1
       \<lparr>pg_mode = PageSelectByButton, pg_maxShow = maxShowPages, pg_total = totalPage, pg_current = 1,
        pg_last = show_int totalPage, pg_buttons = [], pg_checked = None, pg_left = True, pg_right = True, pg_visible = True,
        pg_top = totalPage, pg_edit = [], pg_label = []\<rparr>)"

definition new_pagination_no :: "int \<Rightarrow> pagination" where
  "new_pagination_no totalPage =
     pg_set totalPage 1
       \<lparr>pg_mode = PageSelectByNo, pg_maxShow = 0, pg_total = totalPage, pg_current = 1,
        pg_last = [], pg_buttons = [], pg_checked = None, pg_left = True, pg_right = True, pg_visible = True,
        pg_top = totalPage, pg_edit = [], pg_label = show_int totalPage\<rparr>"

section \<open>The row that should be shown\<close>

definition gap_button :: pbutton where
  "gap_button = \<lparr>pb_text = ''...'', pb_enabled = False\<rparr>"

definition pages_from :: "int \<Rightarrow> nat \<Rightarrow> pbutton list" where
  "pages_from a k = map (\<lambda>i. \<lparr>pb_text = show_int (a + int i), pb_enabled = True\<rparr>) [0..<k]"

text \<open>\<open>t\<close> pages of which \<open>c\<close> is the current one, in a row for \<open>m\<close>; the last page has its own button.\<close>

definition row :: "int \<Rightarrow> int \<Rightarrow> int \<Rightarrow> pbutton list" where
  "row t c m =
     (if t \<le> m then pages_from 1 (nat (t - 1))
      else if c \<le> m - 3 then pages_from 1 (nat (m - 2)) @ [gap_button]
      else if t - 3 \<le> c then gap_button # pages_from (t - m + 2) (nat (m - 2))
      else gap_button # pages_from (c + 5 - m) (nat (m - 3)) @ [gap_button])"

definition inner_enabled :: "pagination \<Rightarrow> bool" where
  "inner_enabled p \<longleftrightarrow> (\<forall>i. 0 < i \<longrightarrow> Suc i < length (pg_buttons p) \<longrightarrow> pb_enabled (pg_buttons p ! i))"

lemma number_buttons_fields:
  "length (pg_buttons (number_buttons f n k p)) = length (pg_buttons p)"
  "pg_mode (number_buttons f n k p) = pg_mode p" "pg_maxShow (number_buttons f n k p) = pg_maxShow p"
  "pg_total (number_buttons f n k p) = pg_total p" "pg_current (number_buttons f n k p) = pg_current p"
  "pg_last (number_buttons f n k p) = pg_last p" "pg_left (number_buttons f n k p) = pg_left p"
  "pg_right (number_buttons f n k p) = pg_right p"
  by (induction f n k p rule: number_buttons.induct) (simp_all add: set_button_def)

lemma number_buttons_nth:
  "i < length (pg_buttons p) \<Longrightarrow> pg_buttons (number_buttons f n k p) ! i =
     (if f \<le> i \<and> i < f + k then (pg_buttons p ! i)\<lparr>pb_text := show_int (n + int (i - f))\<rparr> else pg_buttons p ! i)"
proof (induction f n k p rule: number_buttons.induct)
  case (2 f n k p)
  then have i: "i < length (pg_buttons (set_button f (\<lambda>b. b\<lparr>pb_text := show_int n\<rparr>) p))" by (simp add: set_button_def)
  have at: "pg_buttons (set_button f (\<lambda>b. b\<lparr>pb_text := show_int n\<rparr>) p) ! i
      = (if i = f then (pg_buttons p ! i)\<lparr>pb_text := show_int n\<rparr> else pg_buttons p ! i)"
    using "2.prems" by (simp add: set_button_def nth_list_update)
  consider "i = f" | "f < i" | "i < f" by linarith
  then show ?case
  proof cases
    case 2
    then have "n + 1 + int (i - Suc f) = n + int (i - f)" by simp
    with 2 "2.IH" [OF i] at show ?thesis by simp
  qed (use "2.IH" [OF i] at in simp_all)
qed auto

lemma pages_from_nth: "i < k \<Longrightarrow> pages_from a k ! i = \<lparr>pb_text = show_int (a + int i), pb_enabled = True\<rparr>"
  by (simp add: pages_from_def)

lemma pages_from_length [simp]: "length (pages_from a k) = k"
  by (simp add: pages_from_def)

lemma set_button_nth:
  "i < length (pg_buttons p) \<Longrightarrow> pg_buttons (set_button j f p) ! i = (if i = j then f (pg_buttons p ! i) else pg_buttons p ! i)"
  "length (pg_buttons (set_button j f p)) = length (pg_buttons p)"
  by (simp_all add: set_button_def nth_list_update)

text \<open>A numbering of a part of the row whose buttons are enabled.\<close>

lemma numbered_part:
  assumes "f + k \<le> length (pg_buttons p)" and "\<forall>i. f \<le> i \<and> i < f + k \<longrightarrow> pb_enabled (pg_buttons p ! i)"
  shows "pg_buttons (number_buttons f n k p) = take f (pg_buttons p) @ pages_from n k @ drop (f + k) (pg_buttons p)"
proof (rule nth_equalityI)
  show "length (pg_buttons (number_buttons f n k p)) = length (take f (pg_buttons p) @ pages_from n k @ drop (f + k) (pg_buttons p))"
    using assms(1) by (simp add: number_buttons_fields)
next
  fix i assume "i < length (pg_buttons (number_buttons f n k p))"
  then have i: "i < length (pg_buttons p)" by (simp add: number_buttons_fields)
  show "pg_buttons (number_buttons f n k p) ! i = (take f (pg_buttons p) @ pages_from n k @ drop (f + k) (pg_buttons p)) ! i"
    using assms i by (cases "f \<le> i \<and> i < f + k") (auto simp: number_buttons_nth nth_append pages_from_nth)
qed

lemma long_row_start:
  assumes "5 \<le> pg_maxShow p" "int (length (pg_buttons p)) \<le> pg_maxShow p - 1" "inner_enabled p"
  defines "q \<equiv> (if int (length (pg_buttons p)) < pg_maxShow p - 1 then createPageBtnList (pg_maxShow p) (emptyPageBtnList p) else p)"
  shows "length (pg_buttons q) = Suc (nat (pg_maxShow p - 2))" "inner_enabled q"
    and "pg_mode q = pg_mode p" "pg_maxShow q = pg_maxShow p" "pg_total q = pg_total p" "pg_current q = pg_current p"
    "pg_last q = pg_last p" "pg_left q = pg_left p" "pg_right q = pg_right p"
proof -
  show "length (pg_buttons q) = Suc (nat (pg_maxShow p - 2))"
    using assms(1,2) by (auto simp: q_def createPageBtnList_def emptyPageBtnList_def)
  show "inner_enabled q"
    using assms(3) by (auto simp: q_def createPageBtnList_def emptyPageBtnList_def inner_enabled_def nth_append simp del: upt_Suc)
qed (simp_all add: q_def createPageBtnList_def emptyPageBtnList_def)

lemma long_row_buttons:
  assumes p: "5 \<le> pg_maxShow p" "int (length (pg_buttons p)) \<le> pg_maxShow p - 1" "inner_enabled p" and t: "pg_maxShow p < t"
  shows "pg_buttons (long_row t c p) = row t c (pg_maxShow p)"
proof -
  define q where "q = (if int (length (pg_buttons p)) < pg_maxShow p - 1 then createPageBtnList (pg_maxShow p) (emptyPageBtnList p) else p)"
  define L where "L = nat (pg_maxShow p - 2)"
  have q: "length (pg_buttons q) = Suc L" "\<And>i. 0 < i \<Longrightarrow> i < L \<Longrightarrow> pb_enabled (pg_buttons q ! i)"
    using long_row_start [OF p] by (auto simp: q_def L_def inner_enabled_def)
  have L: "3 \<le> L" "nat (pg_maxShow p - 3) = L - 1" "pg_maxShow p = int L + 2" using p(1) by (auto simp: L_def)
  have lst: "drop L xs = [xs ! L]" if "length xs = Suc L" for xs :: "pbutton list"
    using that by (metis Cons_nth_drop_Suc drop_all lessI order_refl)
  have fst: "take 1 xs = [xs ! 0]" if "length xs = Suc L" for xs :: "pbutton list" using that by (cases xs) auto
  have unfold: "long_row t c p =
     (if c \<le> pg_maxShow p - 3 then number_buttons 0 1 L (enable_button 0 (gap L q))
      else if t - 3 \<le> c then number_buttons 1 (t - 1 - (pg_maxShow p - 3)) L (enable_button L (gap 0 q))
      else number_buttons 1 (c + 1 - (pg_maxShow p - 4)) (L - 1) (gap L (gap 0 q)))"
    by (simp add: long_row_def Let_def L(2) flip: q_def L_def)
  consider (a) "c \<le> pg_maxShow p - 3" | (b) "\<not> c \<le> pg_maxShow p - 3" "t - 3 \<le> c" | (c) "\<not> c \<le> pg_maxShow p - 3" "\<not> t - 3 \<le> c"
    by blast
  then show ?thesis
  proof cases
    case a
    let ?r = "enable_button 0 (gap L q)"
    have r: "length (pg_buttons ?r) = Suc L" by (simp add: enable_button_def gap_def set_button_nth q)
    have "pg_buttons (number_buttons 0 1 L ?r) = take 0 (pg_buttons ?r) @ pages_from 1 L @ drop (0 + L) (pg_buttons ?r)"
      using q L(1) by (intro numbered_part) (auto simp: enable_button_def gap_def set_button_nth)
    moreover have "drop L (pg_buttons ?r) = [gap_button]"
      using L(1) q(1) unfolding lst [OF r] by (simp add: enable_button_def gap_def set_button_nth gap_button_def)
    ultimately show ?thesis using a t by (simp add: unfold row_def flip: L_def)
  next
    case b
    let ?r = "enable_button L (gap 0 q)"
    have r: "length (pg_buttons ?r) = Suc L" by (simp add: enable_button_def gap_def set_button_nth q)
    have "pg_buttons (number_buttons 1 (t - 1 - (pg_maxShow p - 3)) L ?r)
        = take 1 (pg_buttons ?r) @ pages_from (t - 1 - (pg_maxShow p - 3)) L @ drop (1 + L) (pg_buttons ?r)"
      using q L(1) by (intro numbered_part) (auto simp: enable_button_def gap_def set_button_nth)
    moreover have "take 1 (pg_buttons ?r) = [gap_button]"
      using L(1) q(1) unfolding fst [OF r] by (simp add: enable_button_def gap_def set_button_nth gap_button_def)
    moreover have "t - 1 - (pg_maxShow p - 3) = t - pg_maxShow p + 2" by simp
    ultimately have "pg_buttons (number_buttons 1 (t - 1 - (pg_maxShow p - 3)) L ?r) = gap_button # pages_from (t - pg_maxShow p + 2) L"
      using r by (simp only:) simp
    then show ?thesis using b t unfolding unfold row_def L_def [symmetric] by (simp only: if_False if_True not_le [symmetric])
  next
    case c
    let ?r = "gap L (gap 0 q)"
    have r: "length (pg_buttons ?r) = Suc L" by (simp add: gap_def set_button_nth q)
    have "pg_buttons (number_buttons 1 (c + 1 - (pg_maxShow p - 4)) (L - 1) ?r)
        = take 1 (pg_buttons ?r) @ pages_from (c + 1 - (pg_maxShow p - 4)) (L - 1) @ drop (1 + (L - 1)) (pg_buttons ?r)"
      using q L(1) by (intro numbered_part) (auto simp: gap_def set_button_nth)
    moreover have "take 1 (pg_buttons ?r) = [gap_button]" "drop L (pg_buttons ?r) = [gap_button]"
      using L(1) q(1) unfolding fst [OF r] lst [OF r] by (simp_all add: gap_def set_button_nth gap_button_def)
    moreover have "c + 1 - (pg_maxShow p - 4) = c + 5 - pg_maxShow p" "1 + (L - 1) = L" using L(1) by auto
    ultimately have "pg_buttons (number_buttons 1 (c + 1 - (pg_maxShow p - 4)) (L - 1) ?r)
        = gap_button # pages_from (c + 5 - pg_maxShow p) (L - 1) @ [gap_button]" by (simp only:) simp
    then show ?thesis using c t unfolding unfold row_def L(2) by (simp only: if_False if_True not_le [symmetric])
  qed
qed

section \<open>The row that is shown\<close>

lemma toInt_gap: "toInt ''...'' = 0"
  by code_simp

lemma row_buttons:
  assumes "5 \<le> m" "1 \<le> c" "c \<le> t"
  shows "b \<in> set (row t c m) \<Longrightarrow> b = gap_button \<or> (\<exists>n. 1 \<le> n \<and> n < t \<and> b = \<lparr>pb_text = show_int n, pb_enabled = True\<rparr>)"
    and "int (length (row t c m)) \<le> m - 1"
    and "c = t \<or> (\<exists>i < length (row t c m). row t c m ! i = \<lparr>pb_text = show_int c, pb_enabled = True\<rparr>)"
proof -
  show "int (length (row t c m)) \<le> m - 1" using assms by (auto simp: row_def)
  have pages: "b \<in> set (pages_from a k) \<Longrightarrow> 1 \<le> a \<Longrightarrow> a + int k \<le> t \<Longrightarrow>
      \<exists>n. 1 \<le> n \<and> n < t \<and> b = \<lparr>pb_text = show_int n, pb_enabled = True\<rparr>" for b a k
  proof -
    assume "b \<in> set (pages_from a k)" "1 \<le> a" "a + int k \<le> t"
    moreover then obtain i where "i < k" "b = \<lparr>pb_text = show_int (a + int i), pb_enabled = True\<rparr>" by (auto simp: pages_from_def)
    ultimately show ?thesis by (intro exI [of _ "a + int i"]) simp
  qed
  show "b \<in> set (row t c m) \<Longrightarrow> b = gap_button \<or> (\<exists>n. 1 \<le> n \<and> n < t \<and> b = \<lparr>pb_text = show_int n, pb_enabled = True\<rparr>)"
    using assms pages [of b 1 "nat (t - 1)"] pages [of b 1 "nat (m - 2)"] pages [of b "t - m + 2" "nat (m - 2)"]
      pages [of b "c + 5 - m" "nat (m - 3)"]
    by (simp add: row_def split: if_splits) blast+
  have here: "a \<le> c \<Longrightarrow> c < a + int k \<Longrightarrow> \<lparr>pb_text = show_int c, pb_enabled = True\<rparr> \<in> set (pages_from a k)" for a k
    by (auto simp: pages_from_def image_iff intro!: bexI [of _ "nat (c - a)"])
  have "c = t \<or> \<lparr>pb_text = show_int c, pb_enabled = True\<rparr> \<in> set (row t c m)"
  proof (cases "c = t")
    case False
    then have "c < t" using assms(3) by simp
    then show ?thesis
      using assms here [of 1 "nat (t - 1)"] here [of 1 "nat (m - 2)"] here [of "t - m + 2" "nat (m - 2)"] here [of "c + 5 - m" "nat (m - 3)"]
      by (auto simp: row_def)
  qed simp
  then show "c = t \<or> (\<exists>i < length (row t c m). row t c m ! i = \<lparr>pb_text = show_int c, pb_enabled = True\<rparr>)"
    by (auto simp: in_set_conv_nth)
qed

text \<open>The last button with the number is checked; nothing else changes.\<close>

definition check_at :: "int \<Rightarrow> nat \<Rightarrow> pagination \<Rightarrow> pagination" where
  "check_at c i p = (if toInt (pb_text (pg_buttons p ! i)) = c then p\<lparr>pg_checked := Some (ListButton i)\<rparr> else p)"

lemma check_all:
  "\<exists>ch. fold (check_at c) is p = p\<lparr>pg_checked := ch\<rparr>
     \<and> (ch = pg_checked p \<or> (\<exists>i \<in> set is. ch = Some (ListButton i) \<and> toInt (pb_text (pg_buttons p ! i)) = c))
     \<and> ((\<exists>i \<in> set is. toInt (pb_text (pg_buttons p ! i)) = c) \<longrightarrow>
         (\<exists>i \<in> set is. ch = Some (ListButton i) \<and> toInt (pb_text (pg_buttons p ! i)) = c))"
proof (induction "is" arbitrary: p)
  case Nil
  show ?case by (intro exI [of _ "pg_checked p"]) simp
next
  case (Cons i js)
  have same: "pg_buttons (check_at c i p) = pg_buttons p" by (simp add: check_at_def)
  obtain ch where ch: "fold (check_at c) js (check_at c i p) = (check_at c i p)\<lparr>pg_checked := ch\<rparr>"
    "ch = pg_checked (check_at c i p) \<or> (\<exists>j \<in> set js. ch = Some (ListButton j) \<and> toInt (pb_text (pg_buttons p ! j)) = c)"
    "(\<exists>j \<in> set js. toInt (pb_text (pg_buttons p ! j)) = c) \<longrightarrow>
         (\<exists>j \<in> set js. ch = Some (ListButton j) \<and> toInt (pb_text (pg_buttons p ! j)) = c)"
    using Cons.IH [of "check_at c i p"] unfolding same by blast
  have upd: "(check_at c i p)\<lparr>pg_checked := ch\<rparr> = p\<lparr>pg_checked := ch\<rparr>" by (simp add: check_at_def)
  have now: "pg_checked (check_at c i p) = (if toInt (pb_text (pg_buttons p ! i)) = c then Some (ListButton i) else pg_checked p)"
    by (simp add: check_at_def)
  show ?case using ch(2,3) unfolding now fold_simps ch(1) upd
    by (intro exI [of _ ch]) (auto split: if_splits)
qed

lemma setCheckedButton_eq:
  "setCheckedButton c p = fold (check_at c) [0..<length (pg_buttons p)] (if c = pg_total p then p\<lparr>pg_checked := Some LastButton\<rparr> else p)"
proof -
  have "(\<lambda>i p. if toInt (pb_text (pg_buttons p ! i)) = c then p\<lparr>pg_checked := Some (ListButton i)\<rparr> else p) = check_at c"
    by (rule ext)+ (simp add: check_at_def)
  then show ?thesis by (simp add: setCheckedButton_def Let_def)
qed

definition checked_button :: "pagination \<Rightarrow> page_button \<Rightarrow> bool" where
  "checked_button p b \<longleftrightarrow> pg_checked p = Some b \<and> button_text b p = show_int (pg_current p)
     \<and> (case b of LastButton \<Rightarrow> True | ListButton i \<Rightarrow> i < length (pg_buttons p) \<and> pb_enabled (pg_buttons p ! i))"

definition pg_ok :: "pagination \<Rightarrow> bool" where
  "pg_ok p \<longleftrightarrow> pg_mode p = PageSelectByButton \<and> 5 \<le> pg_maxShow p \<and> 1 \<le> pg_current p \<and> pg_current p \<le> pg_total p
     \<and> pg_total p < 2 ^ 31 \<and> pg_buttons p = row (pg_total p) (pg_current p) (pg_maxShow p)
     \<and> pg_last p = show_int (pg_total p) \<and> (\<exists>b. checked_button p b)
     \<and> (pg_left p \<longleftrightarrow> 1 < pg_current p) \<and> (pg_right p \<longleftrightarrow> pg_current p < pg_total p)"

lemma checked_ok:
  assumes p: "pg_buttons p = row t c m" "pg_total p = t" "pg_current p = c" "pg_last p = show_int t"
    and b: "5 \<le> m" "1 \<le> c" "c \<le> t" "t < 2 ^ 31"
  shows "\<exists>ch. setCheckedButton c p = p\<lparr>pg_checked := ch\<rparr> \<and> (\<exists>b. checked_button (p\<lparr>pg_checked := ch\<rparr>) b)"
proof -
  define q where "q = (if c = pg_total p then p\<lparr>pg_checked := Some LastButton\<rparr> else p)"
  have q: "pg_buttons q = row t c m" by (simp add: q_def p(1))
  have set: "setCheckedButton c p = fold (check_at c) [0..<length (row t c m)] q"
    by (simp add: setCheckedButton_eq q_def p(1))
  obtain ch where ch: "setCheckedButton c p = q\<lparr>pg_checked := ch\<rparr>"
    "ch = pg_checked q \<or> (\<exists>i \<in> set [0..<length (row t c m)]. ch = Some (ListButton i) \<and> toInt (pb_text (row t c m ! i)) = c)"
    "(\<exists>i \<in> set [0..<length (row t c m)]. toInt (pb_text (row t c m ! i)) = c) \<longrightarrow>
         (\<exists>i \<in> set [0..<length (row t c m)]. ch = Some (ListButton i) \<and> toInt (pb_text (row t c m ! i)) = c)"
    using check_all [of c "[0..<length (row t c m)]" q] unfolding q set by blast
  have eq: "q\<lparr>pg_checked := ch\<rparr> = p\<lparr>pg_checked := ch\<rparr>" by (simp add: q_def)
  have num: "row t c m ! i = \<lparr>pb_text = show_int c, pb_enabled = True\<rparr>"
    if "i < length (row t c m)" "toInt (pb_text (row t c m ! i)) = c" for i
    using row_buttons(1) [OF b(1-3), of "row t c m ! i"] that b(2,4)
    by (auto simp: gap_button_def toInt_gap toInt_show_int int32_ok_def)
  show ?thesis
  proof (cases "\<exists>i < length (row t c m). toInt (pb_text (row t c m ! i)) = c")
    case True
    then obtain i where i: "i < length (row t c m)" "ch = Some (ListButton i)" "toInt (pb_text (row t c m ! i)) = c" using ch(3) by auto
    then have "checked_button (p\<lparr>pg_checked := ch\<rparr>) (ListButton i)"
      using num [OF i(1,3)] i p by (simp add: checked_button_def button_text_def)
    then show ?thesis using ch(1) eq by auto
  next
    case False
    then have "c = t" using row_buttons(3) [OF b(1-3)] b(2-4) by (auto simp: toInt_show_int int32_ok_def)
    with False ch(2) have "ch = Some LastButton" using p(2) by (auto simp: q_def)
    then have "checked_button (p\<lparr>pg_checked := ch\<rparr>) LastButton"
      using p \<open>c = t\<close> by (simp add: checked_button_def button_text_def)
    then show ?thesis using ch(1) eq by auto
  qed
qed

text \<open>What an update needs of the row it finds.\<close>

definition row_usable :: "pagination \<Rightarrow> bool" where
  "row_usable p \<longleftrightarrow> pg_mode p = PageSelectByButton \<and> 5 \<le> pg_maxShow p
     \<and> int (length (pg_buttons p)) \<le> pg_maxShow p - 1 \<and> inner_enabled p"

lemma handleFirstLastPage_fields:
  "pg_buttons (handleFirstLastPage c p) = pg_buttons p" "pg_total (handleFirstLastPage c p) = pg_total p"
  "pg_current (handleFirstLastPage c p) = pg_current p" "pg_mode (handleFirstLastPage c p) = pg_mode p"
  "pg_maxShow (handleFirstLastPage c p) = pg_maxShow p" "pg_last (handleFirstLastPage c p) = pg_last p"
  "1 \<le> c \<Longrightarrow> c \<le> pg_total p \<Longrightarrow> pg_left (handleFirstLastPage c p) \<longleftrightarrow> 1 < c"
  "1 \<le> c \<Longrightarrow> c \<le> pg_total p \<Longrightarrow> pg_right (handleFirstLastPage c p) \<longleftrightarrow> c < pg_total p"
  by (auto simp: handleFirstLastPage_def)

lemma long_row_fields:
  "pg_mode (long_row t c p) = pg_mode p" "pg_maxShow (long_row t c p) = pg_maxShow p" "pg_total (long_row t c p) = pg_total p"
  "pg_current (long_row t c p) = pg_current p" "pg_last (long_row t c p) = pg_last p"
  "pg_left (long_row t c p) = pg_left p" "pg_right (long_row t c p) = pg_right p"
  by (simp_all add: long_row_def Let_def number_buttons_fields enable_button_def gap_def set_button_def
      createPageBtnList_def emptyPageBtnList_def)

lemma short_row: "t \<le> pg_maxShow p \<Longrightarrow> pg_buttons (createPageBtnList t (emptyPageBtnList p)) = row t c (pg_maxShow p)"
  by (rule nth_equalityI) (auto simp: createPageBtnList_def emptyPageBtnList_def row_def pages_from_def)

lemma inner_row: "5 \<le> m \<Longrightarrow> pg_buttons p = row t c m \<Longrightarrow> inner_enabled p"
  unfolding inner_enabled_def
  by (auto simp: row_def nth_append nth_Cons' pages_from_nth split: if_splits)

lemma pg_ok_usable: "pg_ok p \<Longrightarrow> row_usable p"
  using row_buttons(2) [of "pg_maxShow p" "pg_current p" "pg_total p"] inner_row [of "pg_maxShow p" p]
  by (auto simp: pg_ok_def row_usable_def)

lemma pg_set_ok:
  assumes p: "row_usable p" and ct: "1 \<le> c" "c \<le> t" "t < 2 ^ 31"
  shows "pg_ok (pg_set t c p)" "pg_total (pg_set t c p) = t" "pg_current (pg_set t c p) = c"
    and "pg_maxShow (pg_set t c p) = pg_maxShow p"
proof -
  let ?m = "pg_maxShow p"
  from p have m: "pg_mode p = PageSelectByButton" "5 \<le> ?m" "int (length (pg_buttons p)) \<le> ?m - 1" "inner_enabled p"
    by (auto simp: row_usable_def)
  define q where "q = handleFirstLastPage c (p\<lparr>pg_last := show_int t, pg_total := t, pg_current := c\<rparr>)"
  have q: "pg_buttons q = pg_buttons p" "pg_total q = t" "pg_current q = c" "pg_mode q = PageSelectByButton" "pg_maxShow q = ?m"
      "pg_last q = show_int t" "pg_left q \<longleftrightarrow> 1 < c" "pg_right q \<longleftrightarrow> c < t"
    using ct m(1) by (simp_all add: q_def handleFirstLastPage_fields)
  have inner: "inner_enabled q" using m(4) by (simp add: inner_enabled_def q(1))
  define r where "r = (if t \<le> ?m
     then let p = createPageBtnList t (emptyPageBtnList q) in if c = t then p\<lparr>pg_checked := Some LastButton\<rparr> else p
     else long_row t c q)"
  have set: "pg_set t c p = setCheckedButton c r"
    using ct q(4,5) by (simp add: pg_set_def r_def Let_def flip: q_def)
  have r: "pg_buttons r = row t c ?m" "pg_total r = t" "pg_current r = c" "pg_mode r = PageSelectByButton" "pg_maxShow r = ?m"
      "pg_last r = show_int t" "pg_left r \<longleftrightarrow> 1 < c" "pg_right r \<longleftrightarrow> c < t"
  proof -
    show "pg_buttons r = row t c ?m"
    proof (cases "t \<le> ?m")
      case True
      then show ?thesis using short_row [of t q c] by (simp add: r_def Let_def q(5))
    next
      case False
      then show ?thesis using long_row_buttons [of q t c] m(2,3) inner by (simp add: r_def q(1,5))
    qed
  qed (simp_all add: r_def Let_def q long_row_fields createPageBtnList_def emptyPageBtnList_def)
  obtain ch where ch: "setCheckedButton c r = r\<lparr>pg_checked := ch\<rparr>" "\<exists>b. checked_button (r\<lparr>pg_checked := ch\<rparr>) b"
    using checked_ok [OF r(1-3,6) m(2) ct] by blast
  show "pg_ok (pg_set t c p)" using ch(2) r m(2) ct unfolding set ch(1) by (simp add: pg_ok_def)
  show "pg_total (pg_set t c p) = t" "pg_current (pg_set t c p) = c" "pg_maxShow (pg_set t c p) = pg_maxShow p"
    unfolding set ch(1) by (simp_all add: r)
qed

section \<open>Users and the selector\<close>

text \<open>A disabled button gets no click; the table calls \<open>setTotalPage\<close>.\<close>

datatype page_event = PageTotal int | PageJump string | PageClick page_button | PageLeft | PageRight | PageFirst

definition can_click :: "page_button \<Rightarrow> pagination \<Rightarrow> bool" where
  "can_click b p \<longleftrightarrow> (case b of LastButton \<Rightarrow> True | ListButton i \<Rightarrow> i < length (pg_buttons p) \<and> pb_enabled (pg_buttons p ! i))"

fun page_step :: "pagination \<Rightarrow> page_event \<Rightarrow> pagination" where
  "page_step p (PageTotal n) = pg_setTotalPage n p"
| "page_step p (PageJump s) = jumpPage s p"
| "page_step p (PageClick b) = (if can_click b p then fst (clickedSelectButton b p) else p)"
| "page_step p PageLeft = (if pg_left p then clickedLeftPushButton p else p)"
| "page_step p PageRight = (if pg_right p then clickedRightPushButton p else p)"
| "page_step p PageFirst = gotoFirstPage p"

lemma pg_set_refused: "t < c \<or> c \<le> 0 \<Longrightarrow> pg_set t c p = p"
  by (simp add: pg_set_def)

lemma pg_ok_set: "pg_ok p \<Longrightarrow> pg_ok (pg_set (pg_total p) c p)"
  by (cases "pg_total p < c \<or> c \<le> 0")
    (auto simp: pg_set_refused pg_ok_def [of p] intro!: pg_set_ok(1) pg_ok_usable)

lemma row_usable_cong: "pg_mode q = pg_mode p \<Longrightarrow> pg_maxShow q = pg_maxShow p \<Longrightarrow> pg_buttons q = pg_buttons p \<Longrightarrow> row_usable q = row_usable p"
  by (simp add: row_usable_def inner_enabled_def)

lemma moved_ok:
  assumes "pg_ok p" "1 \<le> c" "c \<le> pg_total p"
  shows "pg_ok (pg_set (pg_total p) c (p\<lparr>pg_current := d\<rparr>))" "pg_ok (pg_set (pg_total p) c (p\<lparr>pg_checked := ch\<rparr>))"
proof -
  have t: "pg_total p < 2 ^ 31" using assms(1) by (simp add: pg_ok_def)
  have u: "row_usable (p\<lparr>pg_current := d\<rparr>)" "row_usable (p\<lparr>pg_checked := ch\<rparr>)"
    using pg_ok_usable [OF assms(1)] by (simp_all add: row_usable_def inner_enabled_def)
  show "pg_ok (pg_set (pg_total p) c (p\<lparr>pg_current := d\<rparr>))" by (rule pg_set_ok(1) [OF u(1) assms(2,3) t])
  show "pg_ok (pg_set (pg_total p) c (p\<lparr>pg_checked := ch\<rparr>))" by (rule pg_set_ok(1) [OF u(2) assms(2,3) t])
qed

lemma button_page:
  assumes "pg_ok p" "can_click b p"
  shows "button_text b p = show_int (toInt (button_text b p))" "1 \<le> toInt (button_text b p)" "toInt (button_text b p) \<le> pg_total p"
proof -
  from assms(1) have p: "5 \<le> pg_maxShow p" "1 \<le> pg_current p" "pg_current p \<le> pg_total p" "pg_total p < 2 ^ 31"
    "pg_buttons p = row (pg_total p) (pg_current p) (pg_maxShow p)" "pg_last p = show_int (pg_total p)" by (auto simp: pg_ok_def)
  have "\<exists>n. 1 \<le> n \<and> n \<le> pg_total p \<and> button_text b p = show_int n"
  proof (cases b)
    case LastButton
    then show ?thesis using p by (intro exI [of _ "pg_total p"]) (simp add: button_text_def)
  next
    case (ListButton i)
    with assms(2) have i: "pg_buttons p ! i \<in> set (row (pg_total p) (pg_current p) (pg_maxShow p))" "pb_enabled (pg_buttons p ! i)"
      using p(5) by (auto simp: can_click_def)
    from row_buttons(1) [OF p(1-3) i(1)] i(2) show ?thesis by (auto simp: ListButton button_text_def gap_button_def)
  qed
  then obtain n where "1 \<le> n" "n \<le> pg_total p" "button_text b p = show_int n" by blast
  then show "button_text b p = show_int (toInt (button_text b p))" "1 \<le> toInt (button_text b p)" "toInt (button_text b p) \<le> pg_total p"
    using p(4) by (simp_all add: toInt_show_int int32_ok_def)
qed

lemma pg_show_ok: "pg_ok (pg_show p) = pg_ok p"
  by (simp add: pg_ok_def pg_show_def checked_button_def button_text_def cong: page_button.case_cong)

lemma pg_clamp_usable: "row_usable (fst (pg_clamp t p)) = row_usable p"
  by (simp add: pg_clamp_def Let_def row_usable_def inner_enabled_def)

lemma setTotalPage_ok:
  assumes "row_usable p" "1 \<le> pg_current p" "1 \<le> t" "t < 2 ^ 31"
  shows "pg_ok (pg_setTotalPage t p)" "pg_total (pg_setTotalPage t p) = t" "pg_current (pg_setTotalPage t p) = min (pg_current p) t"
proof -
  let ?q = "fst (pg_clamp t p)"
  have q: "row_usable ?q" "pg_current ?q = min (pg_current p) t"
    using assms(1) by (simp_all add: pg_clamp_usable) (auto simp: pg_clamp_def Let_def)
  have c: "1 \<le> pg_current ?q" "pg_current ?q \<le> t" using assms(2,3) unfolding q(2) by auto
  note new = pg_set_ok [OF q(1) c assms(4)]
  show "pg_ok (pg_setTotalPage t p)" using new(1) by (simp add: pg_setTotalPage_def Let_def pg_show_ok)
  show "pg_total (pg_setTotalPage t p) = t" "pg_current (pg_setTotalPage t p) = min (pg_current p) t"
    using new(2,3) unfolding pg_setTotalPage_def Let_def by (simp_all add: pg_show_def q(2))
qed

lemma page_step_ok:
  assumes "pg_ok p" and "\<And>n. e = PageTotal n \<Longrightarrow> 1 \<le> n \<and> n < 2 ^ 31"
  shows "pg_ok (page_step p e)"
proof (cases e)
  case (PageTotal n)
  then show ?thesis using assms setTotalPage_ok(1) [OF pg_ok_usable [OF assms(1)], of n] by (simp add: pg_ok_def [of p])
next
  case (PageClick b)
  show ?thesis
  proof (cases "can_click b p")
    case True
    note page = button_page [OF assms(1) True]
    have txt_eq: "button_text b (p\<lparr>pg_checked := Some b\<rparr>) = button_text b p" by (simp add: button_text_def split: page_button.split)
    have "pg_ok (p\<lparr>pg_checked := Some b\<rparr>)" if "toInt (button_text b p) = pg_current p"
    proof -
      have "checked_button (p\<lparr>pg_checked := Some b\<rparr>) b"
        using page(1) that True by (simp add: checked_button_def txt_eq can_click_def split: page_button.splits)
      then show ?thesis using assms(1) by (auto simp: pg_ok_def)
    qed
    then show ?thesis
      using moved_ok(2) [OF assms(1) page(2,3), of "Some b"] True
      by (simp add: PageClick clickedSelectButton_def Let_def txt_eq)
  qed (use assms(1) PageClick in simp)
next
  case PageLeft
  then show ?thesis using assms(1) moved_ok(1) [OF assms(1), of "pg_current p - 1"]
    by (auto simp: clickedLeftPushButton_def pg_ok_def [of p])
next
  case PageRight
  then show ?thesis using assms(1) moved_ok(1) [OF assms(1), of "pg_current p + 1"]
    by (auto simp: clickedRightPushButton_def pg_ok_def [of p])
next
  case (PageJump s)
  then show ?thesis using pg_ok_set [OF assms(1)] by (simp add: jumpPage_def)
next
  case PageFirst
  then show ?thesis using pg_ok_set [OF assms(1)] by (simp add: gotoFirstPage_def)
qed

lemma new_pagination_usable: "5 \<le> m \<Longrightarrow> row_usable (new_pagination 0 m)"
  by (simp add: new_pagination_def pg_set_refused row_usable_def inner_enabled_def pg_show_def)

lemma new_pagination_ok: "5 \<le> m \<Longrightarrow> 1 \<le> t \<Longrightarrow> t < 2 ^ 31 \<Longrightarrow> pg_ok (new_pagination t m)"
  unfolding new_pagination_def pg_show_ok
  by (intro pg_set_ok(1)) (simp_all add: row_usable_def inner_enabled_def)

lemma new_pagination_fields:
  "5 \<le> m \<Longrightarrow> 1 \<le> t \<Longrightarrow> t < 2 ^ 31 \<Longrightarrow> pg_total (new_pagination t m) = t \<and> pg_current (new_pagination t m) = 1"
  unfolding new_pagination_def
  by (simp add: pg_show_def pg_set_ok(2,3) row_usable_def inner_enabled_def)

text \<open>A total of 0 pages is refused by the inner function only: the selector keeps its row, on page 0.\<close>

lemma no_pages_leaves_page_zero:
  assumes "pg_ok p"
  shows "pg_current (pg_setTotalPage 0 p) = 0" "pg_total (pg_setTotalPage 0 p) = pg_total p" "pg_buttons (pg_setTotalPage 0 p) = pg_buttons p"
  using assms by (simp_all add: pg_setTotalPage_def pg_clamp_def pg_set_refused pg_show_def Let_def pg_ok_def)

section \<open>Properties\<close>

text \<open>C37: Whatever the user clicks or enters, and whatever number of pages (at least one) the table
  reports, the page selector is consistent: its row is the intended one for the current page, every
  button that can be clicked shows a page of the table, exactly the button of the current page is
  checked, and an arrow can be clicked exactly when there is a page in its direction.\<close>

theorem selector_consistent:
  assumes "pg_ok p" and "\<forall>n. PageTotal n \<in> set es \<longrightarrow> 1 \<le> n \<and> n < 2 ^ 31"
  shows "let q = run page_step p es in pg_ok q
     \<and> (\<forall>b. can_click b q \<longrightarrow> 1 \<le> toInt (button_text b q) \<and> toInt (button_text b q) \<le> pg_total q)
     \<and> (\<exists>b. pg_checked q = Some b \<and> button_text b q = show_int (pg_current q))
     \<and> (pg_left q \<longleftrightarrow> 1 < pg_current q) \<and> (pg_right q \<longleftrightarrow> pg_current q < pg_total q)"
proof -
  have ok: "pg_ok (run page_step p es)" using assms
  proof (induction es arbitrary: p)
    case (Cons e es)
    then have "pg_ok (page_step p e)" by (intro page_step_ok) auto
    with Cons show ?case by auto
  qed simp
  then show ?thesis using button_page [OF ok] by (auto simp: Let_def) (auto simp: pg_ok_def checked_button_def)
qed

theorem selector_consistent_witness:
  "pg_ok (run page_step (new_pagination 9 6) [PageClick (ListButton 3), PageRight, PageJump ''99'', PageTotal 2, PageLeft])"
  using selector_consistent [of "new_pagination 9 6" "[PageClick (ListButton 3), PageRight, PageJump ''99'', PageTotal 2, PageLeft]"]
    new_pagination_ok [of 6 9] by (simp add: Let_def)

end
