(* ===== verification/LogViewer.thy ===== *)
theory LogViewer
  imports LogManager Pagination "HOL-Library.Signed_Division"
begin

text \<open>
  The log page of the user interface, \<open>src/ui/log\<close>: the model behind its table (\<open>table.cpp\<close>), the
  texts of its cells and the reading of the lines the daemon sends (\<open>utils.cpp\<close>), and the page with
  its tips and page selector (\<open>log-page.cpp\<close>). The daemon's side is the model of \<open>GetLog\<close> and
  \<open>GetLogNum\<close> on a log manager. Texts are those of the source, not their translations; the text of a
  time is Qt's: the daemon's and the viewer's are parameters.
\<close>

section \<open>Texts and lines\<close>

definition log_type_texts :: "(int \<times> string) list" where
  "log_type_texts = [(1, ''Device log''), (2, ''Tool box log''), (4, ''Baseline reinforcement log''), (8, ''Trusted protection log''),
     (16, ''Files protection log''), (32, ''Private box log''), (64, ''Account log''), (128, ''AVC log'')]"

definition logTypeEnum2Str :: "int \<Rightarrow> qstring" where
  "logTypeEnum2Str t = map_of log_type_texts t"

definition str2LogTypeEnum :: "string \<Rightarrow> int" where
  "str2LogTypeEnum s = (case map_of (map (\<lambda>(t, x). (x, t)) log_type_texts) s of Some t \<Rightarrow> t | None \<Rightarrow> -1)"

definition accountRoleEnum2Str :: "int \<Rightarrow> string" where
  "accountRoleEnum2Str r = (if r = role_sysadm then ''Sysadm'' else if r = role_secadm then ''Secadm''
     else if r = role_audadm then ''Audadm'' else ''Unknown'')"

definition str2AccountRoleEnum :: "string \<Rightarrow> int" where
  "str2AccountRoleEnum s = (if s = ''Sysadm'' then role_sysadm else if s = ''Secadm'' then role_secadm
     else if s = ''Audadm'' then role_audadm else -1)"

definition logStrType2Enum :: "string \<Rightarrow> int" where
  "logStrType2Enum s =
     (if s = ''TOOL_BOX'' then 2 else if s = ''DEVICE'' then 1 else if s = ''BASELINE_REINFORCEMENT'' then 4
      else if s = ''TRUSTED_PROTECTION'' then 8 else if s = ''FILES_PROTECTION'' then 16 else if s = ''PRIVATE_BOX'' then 32
      else if s = ''ACCOUNT'' then 64 else if s = ''AVC'' then 128 else -1)"

definition roleStrType2Enum :: "string \<Rightarrow> int" where
  "roleStrType2Enum s = (if s = ''sysadm'' then role_sysadm else if s = ''secadm'' then role_secadm
     else if s = ''audadm'' then role_audadm else if s = ''unknown_account'' then role_unknown else -1)"

record log_info =
  li_type :: int
  li_role :: int
  li_dateTime :: string
  li_message :: string
  li_result :: bool

text \<open>\<open>Utils::deserialize\<close>: a line with another number of fields is left out; \<open>show_time\<close> rewrites the time.\<close>

definition read_line :: "(string \<Rightarrow> string) \<Rightarrow> string \<Rightarrow> log_info list" where
  "read_line show_time log =
     (let p = split log ''|''
      in if length p \<noteq> 5 then []
         else [\<lparr>li_type = logStrType2Enum (p ! 2), li_role = roleStrType2Enum (p ! 0), li_dateTime = show_time (p ! 1),
                li_message = p ! 4, li_result = (p ! 3 = ''true'')\<rparr>])"

definition viewer_deserialize :: "(string \<Rightarrow> string) \<Rightarrow> string list \<Rightarrow> log_info list" where
  "viewer_deserialize show_time logs = concat (map (read_line show_time) logs)"

text \<open>The cells of a row, from its number to the result.\<close>

definition cells :: "nat \<Rightarrow> log_info \<Rightarrow> string list" where
  "cells r i = [show_int (int r + 1), qs_str (logTypeEnum2Str (li_type i)), accountRoleEnum2Str (li_role i), li_dateTime i,
     li_message i, if li_result i then ''Success'' else ''Failed'']"

section \<open>The model\<close>

definition LOG_PAGE_NUMBER :: int where "LOG_PAGE_NUMBER = 20"

definition MAX_PAGINATION_BUTTON_NUMBER :: int where "MAX_PAGINATION_BUTTON_NUMBER = 6"

text \<open>The times of \<open>initGetLogArgs\<close>: a month ago, and the last second of the day the page is made.\<close>

definition initGetLogArgs :: "int \<Rightarrow> int \<Rightarrow> log_query" where
  "initGetLogArgs month_ago day_end =
     \<lparr>q_role = role_sysadm OR role_secadm OR role_audadm, q_begin = month_ago, q_end = day_end, q_type = 0xFFFF,
      q_result = LOG_RESULT_ALL, q_text = []\<rparr>"

record log_viewer =
  lv_query :: log_query
  lv_page :: "32 word"
  lv_rows :: "log_info list"
  lv_tips :: int
  lv_pages :: pagination

record viewer_env =
  ve_fmt :: "int \<Rightarrow> string"          \<comment> \<open>the daemon's text of a time\<close>
  ve_role :: account_role             \<comment> \<open>the daemon's role of the viewer\<close>
  ve_show :: "string \<Rightarrow> string"

text \<open>An error reply has no value: an empty list, and 0.\<close>

definition fetch :: "viewer_env \<Rightarrow> log_manager \<Rightarrow> log_query \<Rightarrow> 32 word \<Rightarrow> log_info list" where
  "fetch env lm q page =
     (case GetLog (ve_fmt env) (ve_role env) q (word_of_int LOG_PAGE_NUMBER) page lm of
        Inl _ \<Rightarrow> []
      | Inr ls \<Rightarrow> viewer_deserialize (ve_show env) ls)"

definition getLogNumbers :: "log_manager \<Rightarrow> log_query \<Rightarrow> 32 word" where
  "getLogNumbers lm q = GetLogNum q lm"

text \<open>The pages for a number of entries, by C++'s division; \<open>updateTipsAndPagination\<close> asks for at least one.\<close>

definition page_total :: "int \<Rightarrow> int" where
  "page_total n = (if n smod LOG_PAGE_NUMBER \<noteq> 0 then n sdiv LOG_PAGE_NUMBER + 1 else n sdiv LOG_PAGE_NUMBER)"

definition shown_pages :: "log_manager \<Rightarrow> log_query \<Rightarrow> int" where
  "shown_pages lm q = (let n = page_total (sint (getLogNumbers lm q)) in if n = 0 then 1 else n)"

text \<open>
  \<open>updateRecord\<close> and the slots its signal runs: the tips, then the page selector, which goes to its
  last page when the current one is gone, and so has the page fetched that it shows.
\<close>

function updateRecord :: "viewer_env \<Rightarrow> log_manager \<Rightarrow> log_viewer \<Rightarrow> log_viewer" where
  "updateRecord env lm v =
     (let n = shown_pages lm (lv_query v);
          moved = snd (pg_clamp n (lv_pages v)); p = fst (pg_clamp n (lv_pages v));
          v = v\<lparr>lv_rows := fetch env lm (lv_query v) (lv_page v), lv_tips := sint (getLogNumbers lm (lv_query v)), lv_pages := p\<rparr>;
          v = (if moved \<and> lv_page v \<noteq> word_of_int (pg_current p)
               then updateRecord env lm (v\<lparr>lv_page := word_of_int (pg_current p)\<rparr>) else v)
      in v\<lparr>lv_pages := pg_show (pg_set n (pg_current (lv_pages v)) (lv_pages v))\<rparr>)"
  by pat_completeness auto
termination
  by (relation "measure (\<lambda>(env, lm, v). if shown_pages lm (lv_query v) < pg_current (lv_pages v) then 1 else 0)")
    (auto simp: pg_clamp_def Let_def split: if_split_asm)

declare updateRecord.simps [simp del]

definition setCurrentPage :: "viewer_env \<Rightarrow> log_manager \<Rightarrow> 32 word \<Rightarrow> log_viewer \<Rightarrow> log_viewer" where
  "setCurrentPage env lm page v = (if lv_page v = page then v else updateRecord env lm (v\<lparr>lv_page := page\<rparr>))"

definition setQuery :: "viewer_env \<Rightarrow> log_manager \<Rightarrow> log_query \<Rightarrow> log_viewer \<Rightarrow> log_viewer" where
  "setQuery env lm q v = (if lv_query v = q then v else updateRecord env lm (v\<lparr>lv_query := q\<rparr>))"

definition setRole :: "viewer_env \<Rightarrow> log_manager \<Rightarrow> int \<Rightarrow> log_viewer \<Rightarrow> log_viewer" where
  "setRole env lm r v = setQuery env lm ((lv_query v)\<lparr>q_role := r\<rparr>) v"

definition setTimeStampBegin :: "viewer_env \<Rightarrow> log_manager \<Rightarrow> int \<Rightarrow> log_viewer \<Rightarrow> log_viewer" where
  "setTimeStampBegin env lm t v = setQuery env lm ((lv_query v)\<lparr>q_begin := t\<rparr>) v"

definition setTimeStampEnd :: "viewer_env \<Rightarrow> log_manager \<Rightarrow> int \<Rightarrow> log_viewer \<Rightarrow> log_viewer" where
  "setTimeStampEnd env lm t v = setQuery env lm ((lv_query v)\<lparr>q_end := t\<rparr>) v"

definition setLogType :: "viewer_env \<Rightarrow> log_manager \<Rightarrow> int \<Rightarrow> log_viewer \<Rightarrow> log_viewer" where
  "setLogType env lm t v = setQuery env lm ((lv_query v)\<lparr>q_type := t\<rparr>) v"

definition setLogResult :: "viewer_env \<Rightarrow> log_manager \<Rightarrow> 32 word \<Rightarrow> log_viewer \<Rightarrow> log_viewer" where
  "setLogResult env lm r v = setQuery env lm ((lv_query v)\<lparr>q_result := r\<rparr>) v"

definition setSearchKey :: "viewer_env \<Rightarrow> log_manager \<Rightarrow> string \<Rightarrow> log_viewer \<Rightarrow> log_viewer" where
  "setSearchKey env lm t v = updateRecord env lm (v\<lparr>lv_query := (lv_query v)\<lparr>q_text := t\<rparr>\<rparr>)"

text \<open>The filter menus: the checked entries of a menu.\<close>

definition type_filter :: "string list \<Rightarrow> int" where
  "type_filter checked = fold (\<lambda>s t. t OR str2LogTypeEnum s) checked 0"

definition role_filter :: "string list \<Rightarrow> int" where
  "role_filter checked = fold (\<lambda>s r. r OR str2AccountRoleEnum s) checked 0"

definition result_filter :: "bool \<Rightarrow> bool \<Rightarrow> 32 word" where
  "result_filter success failed =
     (if success \<and> failed then LOG_RESULT_ALL
      else if \<not> success \<and> \<not> failed then 3
      else if success then LOG_RESULT_TRUE else LOG_RESULT_FALSE)"

text \<open>A click on the page selector, and the slot of \<open>currentPageChanged\<close>.\<close>

fun viewer_page :: "viewer_env \<Rightarrow> log_manager \<Rightarrow> page_event \<Rightarrow> log_viewer \<Rightarrow> log_viewer" where
  "viewer_page env lm e v =
     (let p = page_step (lv_pages v) e;
          emitted = (case e of
              PageJump s \<Rightarrow> True
            | PageClick b \<Rightarrow> can_click b (lv_pages v) \<and> snd (clickedSelectButton b (lv_pages v))
            | PageLeft \<Rightarrow> pg_left (lv_pages v)
            | PageRight \<Rightarrow> pg_right (lv_pages v)
            | _ \<Rightarrow> False);
          v = v\<lparr>lv_pages := p\<rparr>
      in if emitted then setCurrentPage env lm (word_of_int (pg_current p)) v else v)"

text \<open>The constructors: the table is filled before the page selector is made.\<close>

definition new_viewer :: "viewer_env \<Rightarrow> log_manager \<Rightarrow> log_query \<Rightarrow> log_viewer" where
  "new_viewer env lm q =
     (let n = uint (getLogNumbers lm q)
      in \<lparr>lv_query = q, lv_page = 1, lv_rows = fetch env lm q 1, lv_tips = n,
          lv_pages = new_pagination (if n mod LOG_PAGE_NUMBER \<noteq> 0 then n div LOG_PAGE_NUMBER + 1 else n div LOG_PAGE_NUMBER)
            MAX_PAGINATION_BUTTON_NUMBER\<rparr>)"

section \<open>What is shown\<close>

lemma page_total_eq: "0 \<le> n \<Longrightarrow> page_total n = (n + 19) div 20"
proof -
  assume "0 \<le> n"
  then have "n sdiv 20 = n div 20" "n smod 20 = n mod 20"
    by (cases "n = 0"; simp add: signed_divide_int_def signed_modulo_int_def)+
  moreover have "(if n mod 20 \<noteq> 0 then n div 20 + 1 else n div 20) = (n + 19) div 20"
  proof -
    have "n + 19 = 20 * (n div 20) + (n mod 20 + 19)" by simp
    then have "(n + 19) div 20 = n div 20 + (n mod 20 + 19) div 20" by (metis div_mult_self4 zero_neq_numeral add.commute mult.commute)
    moreover have "0 \<le> n mod 20" "n mod 20 < 20" by simp_all
    then have "(n mod 20 + 19) div 20 = (if n mod 20 \<noteq> 0 then 1 else 0)" by (auto simp: div_pos_geq)
    ultimately show ?thesis by simp
  qed
  ultimately show ?thesis by (simp only: page_total_def LOG_PAGE_NUMBER_def)
qed

text \<open>The log manager keeps its list below \<open>2\<^sup>3\<^sup>1\<close> entries.\<close>

definition log_small :: "log_manager \<Rightarrow> bool" where
  "log_small lm \<longleftrightarrow> length (lm_logList lm) \<le> unat (lm_cap lm) \<and> unat (lm_cap lm) < 2 ^ 31"

lemma log_small_write: "log_small lm \<Longrightarrow> log_small (writeLog l lm)"
proof -
  assume s: "log_small lm"
  then have "Suc (length (lm_logList lm)) < 2 ^ 32" by (simp add: log_small_def)
  then have "unat (word_of_nat (Suc (length (lm_logList lm))) :: 32 word) = Suc (length (lm_logList lm))" by (rule unat_of_nat_small)
  then have "lm_cap lm < word_of_nat (length (lm_logList lm @ [l])) \<longleftrightarrow> unat (lm_cap lm) < Suc (length (lm_logList lm))"
    by (simp add: word_less_nat_alt del: of_nat_Suc)
  with s show ?thesis
    unfolding log_small_def lm_cap_writeLog by (auto simp: writeLog_def Let_def lm_cap_def)
qed

lemma number_of_entries:
  assumes "log_small lm"
  shows "sint (getLogNumbers lm q) = int (length (matching q lm))" "uint (getLogNumbers lm q) = int (length (matching q lm))"
    and "length (matching q lm) < 2 ^ 31"
proof -
  have "length (matching q lm) \<le> length (lm_logList lm)"
    unfolding matching_def by (rule le_trans [OF length_filter_le]) simp
  with assms show small: "length (matching q lm) < 2 ^ 31" by (simp add: log_small_def)
  then show "sint (getLogNumbers lm q) = int (length (matching q lm))"
    using sint_small [of "int (length (matching q lm))"] by (simp add: getLogNumbers_def GetLogNum_matching)
  from small have "unat (word_of_nat (length (matching q lm)) :: 32 word) = length (matching q lm)"
    by (intro unat_of_nat_small) simp
  then show "uint (getLogNumbers lm q) = int (length (matching q lm))"
    by (simp add: getLogNumbers_def GetLogNum_matching uint_nat)
qed

lemma shown_pages_eq:
  assumes "log_small lm"
  shows "shown_pages lm q = max 1 ((int (length (matching q lm)) + 19) div 20)" "1 \<le> shown_pages lm q" "shown_pages lm q < 2 ^ 31"
proof -
  show eq: "shown_pages lm q = max 1 ((int (length (matching q lm)) + 19) div 20)"
  proof -
    have "(let n = (k + 19) div 20 in if n = 0 then 1 else n) = max 1 ((k + 19) div 20)" if "0 \<le> k" for k :: int
      using that by (auto simp: Let_def max_def)
    then show ?thesis using number_of_entries(1) [OF assms, of q] by (simp add: shown_pages_def page_total_eq)
  qed
  show "1 \<le> shown_pages lm q" "shown_pages lm q < 2 ^ 31"
    using number_of_entries(3) [OF assms, of q] unfolding eq by auto
qed

text \<open>
  The viewer agrees with the log: its page selector shows the number of pages there are and the page
  that was fetched.
\<close>

definition viewer_ok :: "viewer_env \<Rightarrow> log_manager \<Rightarrow> log_viewer \<Rightarrow> bool" where
  "viewer_ok env lm v \<longleftrightarrow> pg_ok (lv_pages v) \<and> pg_total (lv_pages v) = shown_pages lm (lv_query v)
     \<and> lv_page v = word_of_int (pg_current (lv_pages v))
     \<and> lv_rows v = fetch env lm (lv_query v) (lv_page v) \<and> lv_tips v = int (length (matching (lv_query v) lm))"

definition viewer_usable :: "log_viewer \<Rightarrow> bool" where
  "viewer_usable v \<longleftrightarrow> row_usable (lv_pages v) \<and> 1 \<le> pg_current (lv_pages v) \<and> lv_page v = word_of_int (pg_current (lv_pages v))
     \<and> pg_current (lv_pages v) < 2 ^ 31"

lemma viewer_ok_usable: "viewer_ok env lm v \<Longrightarrow> viewer_usable v"
  using pg_ok_usable [of "lv_pages v"] by (auto simp: viewer_ok_def viewer_usable_def pg_ok_def)

lemma page_word_inj: "1 \<le> a \<Longrightarrow> a < 2 ^ 31 \<Longrightarrow> 1 \<le> b \<Longrightarrow> b < 2 ^ 31 \<Longrightarrow> (word_of_int a :: 32 word) = word_of_int b \<longleftrightarrow> a = b"
  by (simp add: word_of_int_eq_iff take_bit_int_eq_self)

lemma update_stays:
  assumes "log_small lm" "viewer_usable v" "pg_current (lv_pages v) \<le> shown_pages lm (lv_query v)"
  shows "viewer_ok env lm (updateRecord env lm v)" "lv_query (updateRecord env lm v) = lv_query v"
    "pg_current (lv_pages (updateRecord env lm v)) = pg_current (lv_pages v)"
proof -
  let ?n = "shown_pages lm (lv_query v)" and ?p = "(lv_pages v)\<lparr>pg_top := shown_pages lm (lv_query v)\<rparr>"
  have u: "updateRecord env lm v = v\<lparr>lv_rows := fetch env lm (lv_query v) (lv_page v),
      lv_tips := sint (getLogNumbers lm (lv_query v)), lv_pages := pg_show (pg_set ?n (pg_current (lv_pages v)) ?p)\<rparr>"
    using assms(3) by (subst updateRecord.simps) (simp add: pg_clamp_def Let_def)
  have "row_usable ?p" using assms(2) by (simp add: viewer_usable_def row_usable_def inner_enabled_def)
  note set = pg_set_ok [OF this, of "pg_current (lv_pages v)" ?n]
  show "viewer_ok env lm (updateRecord env lm v)" "lv_query (updateRecord env lm v) = lv_query v"
    "pg_current (lv_pages (updateRecord env lm v)) = pg_current (lv_pages v)"
    using assms set shown_pages_eq(3) [OF assms(1), of "lv_query v"] number_of_entries(1) [OF assms(1), of "lv_query v"]
    unfolding u by (simp_all add: viewer_ok_def viewer_usable_def pg_show_ok) (simp_all add: pg_show_def)
qed

lemma update_moves:
  assumes small: "log_small lm" and use: "viewer_usable v" and gone: "shown_pages lm (lv_query v) < pg_current (lv_pages v)"
  shows "viewer_ok env lm (updateRecord env lm v)" "lv_query (updateRecord env lm v) = lv_query v"
proof -
  let ?n = "shown_pages lm (lv_query v)"
  define p where "p = (lv_pages v)\<lparr>pg_top := ?n, pg_current := ?n\<rparr>"
  define w where "w = v\<lparr>lv_rows := fetch env lm (lv_query v) (lv_page v), lv_tips := sint (getLogNumbers lm (lv_query v)),
     lv_pages := p, lv_page := word_of_int ?n\<rparr>"
  have n: "1 \<le> ?n" "?n < 2 ^ 31" using shown_pages_eq(2,3) [OF small] by auto
  have ne: "lv_page v \<noteq> word_of_int ?n"
    using use gone n page_word_inj [of "pg_current (lv_pages v)" ?n] by (auto simp: viewer_usable_def)
  have u: "updateRecord env lm v = (updateRecord env lm w)\<lparr>lv_pages := pg_show (pg_set ?n
      (pg_current (lv_pages (updateRecord env lm w))) (lv_pages (updateRecord env lm w)))\<rparr>"
    using gone ne by (subst updateRecord.simps) (simp add: pg_clamp_def Let_def w_def p_def)
  have wu: "viewer_usable w" using use n by (simp add: viewer_usable_def w_def p_def row_usable_def inner_enabled_def)
  have wq: "lv_query w = lv_query v" "pg_current (lv_pages w) = ?n" by (simp_all add: w_def p_def)
  have le: "pg_current (lv_pages w) \<le> shown_pages lm (lv_query w)" using wq by simp
  define x where "x = updateRecord env lm w"
  have x: "viewer_ok env lm x" "lv_query x = lv_query v" "pg_current (lv_pages x) = ?n"
    using update_stays [OF small wu le, of env] by (simp_all add: x_def wq)
  then have "row_usable (lv_pages x)" by (auto simp: viewer_ok_def intro: pg_ok_usable)
  note set = pg_set_ok [OF this, of ?n ?n]
  show "viewer_ok env lm (updateRecord env lm v)" "lv_query (updateRecord env lm v) = lv_query v"
    using x set n unfolding u x_def [symmetric]
    by (simp_all add: viewer_ok_def pg_show_ok) (simp_all add: pg_show_def)
qed

lemma updateRecord_ok:
  assumes "log_small lm" "viewer_usable v"
  shows "viewer_ok env lm (updateRecord env lm v)" "lv_query (updateRecord env lm v) = lv_query v"
  using update_stays [OF assms] update_moves [OF assms]
  by (cases "pg_current (lv_pages v) \<le> shown_pages lm (lv_query v)"; simp)+

lemma fetch_page:
  assumes "log_small lm" "ve_role env \<noteq> role_unknown" "1 \<le> c" "c \<le> shown_pages lm q"
  shows "fetch env lm q (word_of_int c) =
     concat (map (\<lambda>l. read_line (ve_show env) (serialize (ve_fmt env) l)) (take 20 (drop (20 * (nat c - 1)) (matching q lm))))"
proof -
  define i where "i = nat c - 1"
  have c: "word_of_int c = (word_of_nat (Suc i) :: 32 word)" using assms(3) by (simp add: i_def flip: of_nat_Suc)
  have "int i \<le> (int (length (matching q lm)) + 19) div 20 - 1 \<or> i = 0"
    using assms(3,4) unfolding shown_pages_eq(1) [OF assms(1)] i_def by auto
  moreover have "(int (length (matching q lm)) + 19) div 20 < 2 ^ 31 div 20 + 2"
    using number_of_entries(3) [OF assms(1), of q] by auto
  ultimately have "log_page_valid 20 i" by (auto simp: log_page_valid_def)
  note page = GetLog_page [OF this assms(2), of "ve_fmt env" q lm] log_page_slice [OF this, of q lm]
  have "(word_of_int LOG_PAGE_NUMBER :: 32 word) = word_of_nat 20" by (simp add: LOG_PAGE_NUMBER_def)
  then show ?thesis
    using page by (simp add: fetch_def c viewer_deserialize_def comp_def i_def mult.commute del: of_nat_Suc)
qed

section \<open>The user and the daemon\<close>

datatype viewer_event =
    NewLog log_entry
  | FilterRole "string list"
  | FilterType "string list"
  | FilterResult bool bool
  | FilterBegin int
  | FilterEnd int
  | Search string
  | UserPage page_event

definition user_page :: "page_event \<Rightarrow> bool" where
  "user_page e \<longleftrightarrow> (case e of PageTotal _ \<Rightarrow> False | PageFirst \<Rightarrow> False | _ \<Rightarrow> True)"

text \<open>The daemon writes an entry and tells the viewer; the other events come from the user.\<close>

fun viewer_step :: "viewer_env \<Rightarrow> log_manager \<times> log_viewer \<Rightarrow> viewer_event \<Rightarrow> log_manager \<times> log_viewer" where
  "viewer_step env (lm, v) (NewLog l) = (writeLog l lm, updateRecord env (writeLog l lm) v)"
| "viewer_step env (lm, v) (FilterRole ss) = (lm, setRole env lm (role_filter ss) v)"
| "viewer_step env (lm, v) (FilterType ss) = (lm, setLogType env lm (type_filter ss) v)"
| "viewer_step env (lm, v) (FilterResult s f) = (lm, setLogResult env lm (result_filter s f) v)"
| "viewer_step env (lm, v) (FilterBegin t) = (lm, setTimeStampBegin env lm t v)"
| "viewer_step env (lm, v) (FilterEnd t) = (lm, setTimeStampEnd env lm t v)"
| "viewer_step env (lm, v) (Search t) = (lm, setSearchKey env lm t v)"
| "viewer_step env (lm, v) (UserPage e) = (lm, if user_page e then viewer_page env lm e v else v)"

definition viewer_inv :: "viewer_env \<Rightarrow> log_manager \<times> log_viewer \<Rightarrow> bool" where
  "viewer_inv env = (\<lambda>(lm, v). log_small lm \<and> viewer_ok env lm v)"

lemma setQuery_ok: "log_small lm \<Longrightarrow> viewer_ok env lm v \<Longrightarrow> viewer_ok env lm (setQuery env lm q v)"
  using viewer_ok_usable [of env lm v] updateRecord_ok(1) [of lm "v\<lparr>lv_query := q\<rparr>" env]
  by (simp add: setQuery_def viewer_usable_def)

lemma page_step_total:
  assumes "pg_ok p" "user_page e"
  shows "pg_total (page_step p e) = pg_total p"
proof -
  have set: "pg_total (pg_set (pg_total q) c q) = pg_total q" if "pg_mode q = pg_mode p" "pg_maxShow q = pg_maxShow p" "pg_buttons q = pg_buttons p" "pg_total q = pg_total p" for c q
  proof (cases "pg_total q < c \<or> c \<le> 0")
    case False
    have "row_usable q" using row_usable_cong [OF that(1-3)] pg_ok_usable [OF assms(1)] by simp
    then show ?thesis using False that(4) assms(1) by (intro pg_set_ok(2)) (auto simp: pg_ok_def)
  qed (simp add: pg_set_refused)
  show ?thesis
    using assms(2) set [of p] set [of "p\<lparr>pg_current := d\<rparr>" for d] set [of "p\<lparr>pg_checked := ch\<rparr>" for ch]
    by (cases e) (simp_all add: user_page_def jumpPage_def clickedLeftPushButton_def clickedRightPushButton_def clickedSelectButton_def Let_def)
qed

lemma viewer_page_ok:
  assumes "log_small lm" "viewer_ok env lm v" "user_page e"
  shows "viewer_ok env lm (viewer_page env lm e v)"
proof -
  let ?p = "page_step (lv_pages v) e" and ?v = "v\<lparr>lv_pages := page_step (lv_pages v) e\<rparr>"
  from assms(2) have v: "pg_ok (lv_pages v)" "pg_total (lv_pages v) = shown_pages lm (lv_query v)"
    "lv_page v = word_of_int (pg_current (lv_pages v))" by (simp_all add: viewer_ok_def)
  have ok: "pg_ok ?p" using assms(3) by (intro page_step_ok [OF v(1)]) (auto simp: user_page_def)
  have total: "pg_total ?p = shown_pages lm (lv_query v)" using page_step_total [OF v(1) assms(3)] v(2) by simp
  have quiet: "viewer_ok env lm ?v" if "pg_current ?p = pg_current (lv_pages v) \<or> word_of_int (pg_current ?p) = lv_page v"
    using assms(2) that ok total by (auto simp: viewer_ok_def)
  have moved: "viewer_ok env lm (setCurrentPage env lm (word_of_int (pg_current ?p)) ?v)"
  proof (cases "lv_page v = word_of_int (pg_current ?p)")
    case True
    then show ?thesis using quiet by (simp add: setCurrentPage_def)
  next
    case False
    let ?w = "v\<lparr>lv_pages := ?p, lv_page := word_of_int (pg_current ?p)\<rparr>"
    have "viewer_usable ?w" using pg_ok_usable [OF ok] ok by (simp add: viewer_usable_def pg_ok_def)
    from updateRecord_ok(1) [OF assms(1) this] False show ?thesis by (simp add: setCurrentPage_def)
  qed
  show ?thesis
  proof (cases e)
    case (PageClick b)
    have "pg_current ?p = pg_current (lv_pages v)" if "\<not> (can_click b (lv_pages v) \<and> snd (clickedSelectButton b (lv_pages v)))"
      using that by (auto simp: PageClick clickedSelectButton_def Let_def split: if_splits)
    then show ?thesis using moved quiet by (auto simp: PageClick Let_def)
  qed (use moved quiet assms(2,3) in \<open>auto simp: Let_def user_page_def\<close>)
qed

lemma viewer_step_inv: "viewer_inv env s \<Longrightarrow> viewer_inv env (viewer_step env s e)"
proof -
  assume inv: "viewer_inv env s"
  obtain lm v where s: "s = (lm, v)" by (cases s)
  from inv have ok: "log_small lm" "viewer_ok env lm v" by (simp_all add: viewer_inv_def s)
  note use = viewer_ok_usable [OF ok(2)]
  show ?thesis
  proof (cases e)
    case (NewLog l)
    then show ?thesis using updateRecord_ok(1) [OF log_small_write [OF ok(1)] use] log_small_write [OF ok(1)]
      by (simp add: s viewer_inv_def)
  next
    case (Search t)
    have "viewer_usable (v\<lparr>lv_query := (lv_query v)\<lparr>q_text := t\<rparr>\<rparr>)" using use by (simp add: viewer_usable_def)
    from updateRecord_ok(1) [OF ok(1) this] ok(1) show ?thesis by (simp add: Search s viewer_inv_def setSearchKey_def)
  next
    case (UserPage e')
    then show ?thesis using viewer_page_ok [OF ok] ok by (simp add: s viewer_inv_def)
  qed (use setQuery_ok [OF ok] ok in \<open>simp_all add: s viewer_inv_def setRole_def setLogType_def setLogResult_def
      setTimeStampBegin_def setTimeStampEnd_def\<close>)
qed

interpretation viewer_machine: step_invariant "viewer_step env" "viewer_inv env" for env
  by unfold_locales (rule viewer_step_inv)

text \<open>The page is usable from the start when the log has an entry to show.\<close>

lemma new_viewer_inv:
  assumes "log_small lm" "matching q lm \<noteq> []"
  shows "viewer_inv env (lm, new_viewer env lm q)"
proof -
  let ?k = "int (length (matching q lm))" and ?n = "(int (length (matching q lm)) + 19) div 20"
  have k: "1 \<le> ?k" using assms(2) by (cases "matching q lm") auto
  then have n: "1 \<le> ?n" "shown_pages lm q = ?n" using shown_pages_eq(1) [OF assms(1), of q] by auto
  have u: "uint (getLogNumbers lm q) = ?k" by (rule number_of_entries(2) [OF assms(1)])
  have "(if ?k mod LOG_PAGE_NUMBER \<noteq> 0 then ?k div LOG_PAGE_NUMBER + 1 else ?k div LOG_PAGE_NUMBER) = page_total ?k"
    using k assms(2) by (simp add: page_total_def LOG_PAGE_NUMBER_def signed_divide_int_def signed_modulo_int_def)
  also have "\<dots> = ?n" using k by (intro page_total_eq) simp
  finally have p: "lv_pages (new_viewer env lm q) = new_pagination ?n 6"
    by (simp add: new_viewer_def u Let_def MAX_PAGINATION_BUTTON_NUMBER_def)
  have "pg_ok (new_pagination ?n 6)" "pg_total (new_pagination ?n 6) = ?n" "pg_current (new_pagination ?n 6) = 1"
    using new_pagination_ok [of 6 ?n] new_pagination_fields [of 6 ?n] n shown_pages_eq(3) [OF assms(1), of q] by simp_all
  then show ?thesis using assms(1) n(2) u p
    by (simp add: viewer_inv_def viewer_ok_def new_viewer_def Let_def)
qed

text \<open>A line whose message has no bar is read back; one whose message has a bar is not shown.\<close>

lemma length_split: "length (split_acc [c] acc s) = Suc (length (filter ((=) c) s))"
  by (induction s arbitrary: acc) auto

lemma read_line_serialize:
  assumes "valid_role (l_role l)" "valid_log_type (l_type l)" "CHR ''|'' \<notin> set (fmt (l_time l))"
  shows "CHR ''|'' \<notin> set (l_msg l) \<Longrightarrow> read_line sh (serialize fmt l) =
      [\<lparr>li_type = l_type l, li_role = l_role l, li_dateTime = sh (fmt (l_time l)), li_message = l_msg l, li_result = l_result l\<rparr>]"
    and "CHR ''|'' \<in> set (l_msg l) \<Longrightarrow> read_line sh (serialize fmt l) = []"
proof -
  let ?parts = "[qs_str (valueToKey account_role_enum (l_role l)), fmt (l_time l),
      qs_str (valueToKey log_type_enum (l_type l)), if l_result l then ''true'' else ''false'', l_msg l]"
  have role: "roleStrType2Enum (qs_str (valueToKey account_role_enum (l_role l))) = l_role l"
    using assms(1) by (auto simp: valid_role_def roleStrType2Enum_def valueToKey_def account_role_enum_def)
  have type: "logStrType2Enum (qs_str (valueToKey log_type_enum (l_type l))) = l_type l"
    using assms(2) by (auto simp: valid_log_type_def logStrType2Enum_def valueToKey_def log_type_enum_def)
  note keys = role_key_roundtrip [OF assms(1)] log_type_key_roundtrip [OF assms(2)]
  show "read_line sh (serialize fmt l) = [\<lparr>li_type = l_type l, li_role = l_role l,
      li_dateTime = sh (fmt (l_time l)), li_message = l_msg l, li_result = l_result l\<rparr>]" if "CHR ''|'' \<notin> set (l_msg l)"
  proof -
    have "split (join ''|'' ?parts) ''|'' = ?parts" using that assms(3) keys by (intro split_join) auto
    then show ?thesis by (simp add: read_line_def serialize_def Let_def numeral_eq_Suc role type)
  qed
  show "read_line sh (serialize fmt l) = []" if "CHR ''|'' \<in> set (l_msg l)"
  proof -
    have "filter ((=) (CHR ''|'')) (l_msg l) \<noteq> []" using that by (auto simp: filter_empty_conv)
    then have "length (split (serialize fmt l) ''|'') \<noteq> 5"
      by (simp add: split_def length_split serialize_def)
    then show ?thesis by (simp add: read_line_def Let_def)
  qed
qed

section \<open>Properties\<close>

text \<open>C36: Whatever the daemon writes and the user filters, searches and clicks, the log page shows the
  log: for the filters in force and the page \<open>c\<close> the page selector shows as checked, the rows are those of the
  entries \<open>20 (c - 1)\<close> to \<open>20 c - 1\<close> of the matching ones, newest first, the tips count all matching entries,
  and the selector has the pages that hold them, at least one, with \<open>c\<close> among them.\<close>

theorem viewer_shows_its_page:
  assumes "viewer_inv env (lm, v)" and "ve_role env \<noteq> role_unknown"
  shows "let s = run (viewer_step env) (lm, v) es; found = matching (lv_query (snd s)) (fst s); p = lv_pages (snd s); c = pg_current p
    in lv_rows (snd s) = concat (map (\<lambda>l. read_line (ve_show env) (serialize (ve_fmt env) l)) (take 20 (drop (20 * (nat c - 1)) found)))
     \<and> lv_tips (snd s) = int (length found)
     \<and> pg_total p = max 1 ((int (length found) + 19) div 20) \<and> 1 \<le> c \<and> c \<le> pg_total p
     \<and> (\<exists>b. pg_checked p = Some b \<and> button_text b p = show_int c)"
proof -
  obtain lm' v' where s: "run (viewer_step env) (lm, v) es = (lm', v')" by fastforce
  have "viewer_inv env (lm', v')" using viewer_machine.run_inv [OF assms(1), of es] by (simp only: s)
  then have ok: "log_small lm'" "viewer_ok env lm' v'" by (simp_all add: viewer_inv_def)
  then have pg: "pg_ok (lv_pages v')" "pg_total (lv_pages v') = shown_pages lm' (lv_query v')" by (simp_all add: viewer_ok_def)
  then have c: "1 \<le> pg_current (lv_pages v')" "pg_current (lv_pages v') \<le> shown_pages lm' (lv_query v')"
    by (simp_all add: pg_ok_def)
  have "\<exists>b. pg_checked (lv_pages v') = Some b \<and> button_text b (lv_pages v') = show_int (pg_current (lv_pages v'))"
    using pg(1) by (auto simp: pg_ok_def checked_button_def)
  with ok(2) pg(2) c show ?thesis
    unfolding s Let_def by (simp add: viewer_ok_def fetch_page [OF ok(1) assms(2)] shown_pages_eq(1) [OF ok(1)])
qed

theorem viewer_shows_its_page_witness:
  "let env = \<lparr>ve_fmt = show_int, ve_role = role_audadm, ve_show = rev\<rparr>;
       lm = small_log\<lparr>lm_logList := map sample_entry [''a'', ''b'']\<rparr>;
       s = run (viewer_step env) (lm, new_viewer env lm sample_query) [Search ''b'', UserPage PageRight, NewLog (sample_entry ''bcd'')]
   in lv_tips (snd s) = int (length (matching (lv_query (snd s)) (fst s)))"
proof -
  define env where "env = \<lparr>ve_fmt = show_int, ve_role = role_audadm, ve_show = rev\<rparr>"
  define lm where "lm = small_log\<lparr>lm_logList := map sample_entry [''a'', ''b'']\<rparr>"
  have "log_small lm" using small_log_inv(2) by (simp add: log_small_def lm_def lm_cap_def small_log_def)
  moreover have "matching sample_query lm \<noteq> []"
    by (simp add: lm_def matching_def log_matches_def sample_query_def sample_entry_def toSecsSinceEpoch_def
        contains_ci_def contains_def indexOf_def to_lower_def)
  ultimately have "viewer_inv env (lm, new_viewer env lm sample_query)" by (rule new_viewer_inv)
  from viewer_shows_its_page [OF this, of "[Search ''b'', UserPage PageRight, NewLog (sample_entry ''bcd'')]"]
  show ?thesis by (simp add: Let_def env_def lm_def)
qed

end
