(* ===== verification/Account.thy ===== *)
theory Account
  imports Daemon
begin

text \<open>
  The account manager (\<open>src/daemon/account/manager.cpp\<close>): the table of users with the
  failed attempts of each, the lock-out of an account, login and logout of a D-Bus
  client, and the change of a password. Encryption is a parameter (\<open>crypto\<close>); whether a
  statement of the database succeeds is a parameter too. The source puts the name of the user
  into the statement as it is: for a name with a quote the statement is another one, and what
  that one answers, or which rows it updates, is a parameter as well.
\<close>

section \<open>State\<close>

text \<open>A row of the table \<open>userInfo\<close>.\<close>

record user_row =
  u_name :: string
  u_role :: string
  u_passwd :: string
  u_tryTimes :: int
  u_lastTryTime :: int

record acc = daemon +
  ac_users :: "user_row list"
  ac_watched :: "string list"
  ac_uidReusable :: bool
  ac_uidConfig :: qsettings

text \<open>
  The statements of the source. \<open>ae_db_ok\<close> says which of them the database executes as they are
  meant, on the rows of the given name. Otherwise the statement fails, unless there is a quote in
  the name: then it may be another valid statement, which selects the rows \<open>ae_injected\<close> or updates
  those with \<open>ae_injected_where\<close> (\<open>None\<close> when it fails).
\<close>

datatype db_stmt = SelectPasswd | SelectRole | SelectUser | UpdateFreeze | ResetFreeze | UpdatePasswd

record acc_env =
  ae_crypto :: crypto
  ae_db_ok :: "db_stmt \<Rightarrow> bool"
  ae_injected :: "db_stmt \<Rightarrow> user_row list option"
  ae_injected_where :: "db_stmt \<Rightarrow> (user_row \<Rightarrow> bool) option"

abbreviation (input) "freezeLoginTimeSec \<equiv> (180 :: int)"

section \<open>The table\<close>

definition select_user :: "string \<Rightarrow> 'a acc_scheme \<Rightarrow> user_row list" where
  "select_user userName s = filter (\<lambda>r. u_name r = userName) (ac_users s)"

definition update_user :: "string \<Rightarrow> (user_row \<Rightarrow> user_row) \<Rightarrow> 'a acc_scheme \<Rightarrow> 'a acc_scheme" where
  "update_user userName f s = s\<lparr>ac_users := map (\<lambda>r. if u_name r = userName then f r else r) (ac_users s)\<rparr>"

text \<open>\<open>m_db->exec\<close> on a statement with the name put in: the selected rows, or the updated table.\<close>

definition db_select :: "acc_env \<Rightarrow> db_stmt \<Rightarrow> string \<Rightarrow> 'a acc_scheme \<Rightarrow> user_row list option" where
  "db_select env st userName s =
     (if ae_db_ok env st then Some (select_user userName s)
      else if has_quote userName then ae_injected env st
      else None)"

definition db_update :: "acc_env \<Rightarrow> db_stmt \<Rightarrow> string \<Rightarrow> (user_row \<Rightarrow> user_row) \<Rightarrow> 'a acc_scheme
    \<Rightarrow> 'a acc_scheme option" where
  "db_update env st userName f s =
     (if ae_db_ok env st then Some (update_user userName f s)
      else if has_quote userName
      then map_option (\<lambda>w. s\<lparr>ac_users := map (\<lambda>r. if w r then f r else r) (ac_users s)\<rparr>)
             (ae_injected_where env st)
      else None)"

definition currentSecs :: "'a daemon_scheme \<Rightarrow> int" where
  "currentSecs s = toSecsSinceEpoch (d_now s)"

definition getRoleFromDB :: "acc_env \<Rightarrow> string \<Rightarrow> 'a acc_scheme \<Rightarrow> account_role" where
  "getRoleFromDB env userName s =
     (case db_select env SelectRole userName s of
        None \<Rightarrow> role_unknown
      | Some [] \<Rightarrow> role_unknown
      | Some (r # _) \<Rightarrow> keyToValue account_role_enum (u_role r))"

definition verifyPassword :: "acc_env \<Rightarrow> string \<Rightarrow> string \<Rightarrow> 'a acc_scheme \<Rightarrow> bool" where
  "verifyPassword env userName passwd s =
     (case db_select env SelectPasswd userName s of
        None \<Rightarrow> False
      | Some [] \<Rightarrow> False
      | Some (r # _) \<Rightarrow> rsaDecrypt (ae_crypto env) passwd = aesDecrypt (ae_crypto env) (u_passwd r))"

definition updateFreezeInfo :: "acc_env \<Rightarrow> string \<Rightarrow> 'a acc_scheme \<Rightarrow> 'a acc_scheme" where
  "updateFreezeInfo env userName s =
     (case db_update env UpdateFreeze userName
             (\<lambda>r. r\<lparr>u_tryTimes := u_tryTimes r + 1, u_lastTryTime := currentSecs s\<rparr>) s of
        None \<Rightarrow> s
      | Some s \<Rightarrow> s)"

definition resetFreezeInfo :: "acc_env \<Rightarrow> string \<Rightarrow> 'a acc_scheme \<Rightarrow> 'a acc_scheme" where
  "resetFreezeInfo env userName s =
     (case db_update env ResetFreeze userName (\<lambda>r. r\<lparr>u_tryTimes := 0, u_lastTryTime := 0\<rparr>) s of
        None \<Rightarrow> s
      | Some s \<Rightarrow> s)"

text \<open>\<open>isFreeze\<close> also resets the row when the lock-out has ended.\<close>

definition isFreeze :: "acc_env \<Rightarrow> string \<Rightarrow> 'a acc_scheme \<Rightarrow> bool \<times> 'a acc_scheme" where
  "isFreeze env userName s =
     (case db_select env SelectUser userName s of
        None \<Rightarrow> (True, s)
      | Some [] \<Rightarrow> (True, s)
      | Some (r # _) \<Rightarrow>
          (let tryLoginTimes = u_tryTimes r; lastLoginTime = u_lastTryTime r;
               currentTime = currentSecs s
           in if 5 \<le> tryLoginTimes \<and> lastLoginTime + freezeLoginTimeSec < currentTime
              then (False, resetFreezeInfo env userName s)
              else (5 \<le> tryLoginTimes \<and> currentTime < lastLoginTime + freezeLoginTimeSec, s)))"

definition changePassword :: "acc_env \<Rightarrow> string \<Rightarrow> string \<Rightarrow> 'a acc_scheme \<Rightarrow> bool \<times> 'a acc_scheme" where
  "changePassword env userName newPasswd s =
     (let aesEncryptedPassword = aesEncrypt (ae_crypto env) (rsaDecrypt (ae_crypto env) newPasswd)
      in case db_update env UpdatePasswd userName (\<lambda>r. r\<lparr>u_passwd := aesEncryptedPassword\<rparr>) s of
           None \<Rightarrow> (False, s)
         | Some s \<Rightarrow> (True, s))"

text \<open>The first rows: one user per enumerator, named after it, with the initial password.\<close>

definition initUserInfoTable :: "crypto \<Rightarrow> user_row list" where
  "initUserInfoTable c =
     map (\<lambda>(key, _). \<lparr>u_name = key, u_role = key, u_passwd = aesEncrypt c ''kylin.123'',
                       u_tryTimes = 0, u_lastTryTime = 0\<rparr>) account_role_enum"

section \<open>The methods\<close>

definition clientIsLogin :: "account option \<Rightarrow> bool" where
  "clientIsLogin it = (case it of None \<Rightarrow> False | Some c \<Rightarrow> a_isLogin c)"

definition Login :: "acc_env \<Rightarrow> string \<Rightarrow> int \<Rightarrow> string \<Rightarrow> string \<Rightarrow> 'a acc_scheme \<Rightarrow> bool \<times> 'a acc_scheme" where
  "Login env callerUnique callerPid userName passWord s =
     (let role = getRoleFromDB env userName s;
          log = (\<lambda>s result msg. write_log \<lparr>l_name = userName, l_role = role, l_time = d_now s,
                   l_type = log_ACCOUNT, l_result = result, l_msg = msg\<rparr> s)
      in if role = role_unknown
         then (False, act (ReplyError callerUnique ERROR_ACCOUNT_UNKNOWN_ACCOUNT) s)
         else
           let s = s\<lparr>ac_watched := List.insert callerUnique (ac_watched s)\<rparr> in
           if clientIsLogin (qm_value callerUnique (d_clients s)) then (False, s)
           else
             case isFreeze env userName s of
               (True, s) \<Rightarrow>
                 (False, act (ReplyError callerUnique ERROR_ACCOUNT_BE_FREEZE)
                    (log s False ''Failed to login, because this account has been freeze''))
             | (False, s) \<Rightarrow>
                 if \<not> verifyPassword env userName passWord s
                 then (False, act (ReplyError callerUnique ERROR_ACCOUNT_PASSWORD_ERROR)
                        (log (updateFreezeInfo env userName s) False ''Failed to login, Passwd error''))
                 else
                   let s = resetFreezeInfo env userName s;
                       s = s\<lparr>d_clients := qm_insert callerUnique
                              \<lparr>a_isLogin = True, a_role = role, a_name = userName, a_pid = callerPid\<rparr>
                              (d_clients s)\<rparr>
                   in (True, log s True ''Login''))"

definition Logout :: "string \<Rightarrow> 'a acc_scheme \<Rightarrow> bool \<times> 'a acc_scheme" where
  "Logout callerUnique s =
     (if getRole callerUnique s = role_unknown
      then (False, act (ReplyError callerUnique ERROR_ACCOUNT_UNKNOWN_ACCOUNT) s)
      else case qm_value callerUnique (d_clients s) of
             None \<Rightarrow> (False, s)
           | Some c \<Rightarrow>
               if \<not> clientIsLogin (Some c) then (False, s)
               else (True, SSR_LOG_SUCCESS log_ACCOUNT ''Logout'' callerUnique
                       (s\<lparr>d_clients := qm_insert callerUnique (c\<lparr>a_isLogin := False\<rparr>) (d_clients s)\<rparr>)))"

definition ChangePassphrase :: "acc_env \<Rightarrow> string \<Rightarrow> string \<Rightarrow> string \<Rightarrow> string \<Rightarrow> 'a acc_scheme
    \<Rightarrow> bool \<times> 'a acc_scheme" where
  "ChangePassphrase env caller userName oldPassphrase newPassphrase s =
     (let role = getRole caller s;
          roleName = qs_str (valueToKey account_role_enum role);
          dec = rsaDecrypt (ae_crypto env)
      in if role = role_unknown \<or> userName \<noteq> roleName
         then (False, act (ReplyError caller ERROR_ACCOUNT_PERMISSION_DENIED)
                (SSR_LOG_ERROR log_ACCOUNT
                  (''Failed to change '' @ userName @ [CHR 0x27] @ ''s passphrase, unique name: '' @ caller
                     @ '', actor role: '' @ roleName) caller s))
         else if \<not> verifyPassword env userName oldPassphrase s
         then (False, act (ReplyError caller ERROR_ACCOUNT_PASSWORD_ERROR)
                (SSR_LOG_ERROR log_ACCOUNT ''Change password'' caller s))
         else if \<not> checkPassword (dec newPassphrase) userName
         then (False, act (ReplyError caller ERROR_ACCOUNT_CHECK_PASSWORD_FAILED)
                (SSR_LOG_ERROR log_ACCOUNT ''Change password failed.'' caller s))
         else if dec oldPassphrase = dec newPassphrase
         then (False, act (ReplyError caller ERROR_ACCOUNT_BE_DIFF_NEW_PASSWORD) s)
         else case changePassword env userName newPassphrase s of
                (isSuccess, s) \<Rightarrow>
                  (isSuccess, SSR_LOG_SUCCESS log_ACCOUNT ''Change password'' caller
                     (act (EmitSignal ''PasswordChanged'' userName 0) s)))"

definition SetUidReusable :: "string \<Rightarrow> bool \<Rightarrow> 'a acc_scheme \<Rightarrow> 'a acc_scheme" where
  "SetUidReusable caller enabled s =
     (if getRole caller s = role_unknown
      then act (ReplyError caller ERROR_ACCOUNT_PERMISSION_DENIED)
             (SSR_LOG_ERROR log_TOOL_BOX ''Permission Denied'' caller s)
      else
        let s = SSR_LOG_SUCCESS log_TOOL_BOX
                  (if enabled then ''Enable uid reuse'' else ''Disable uid reuse'') caller s
        in s\<lparr>ac_uidReusable := enabled,
             ac_uidConfig := s_setValue ''General'' ''UID_REUSE_CONTROL''
               (VInt (if enabled then 1 else 0)) (ac_uidConfig s)\<rparr>)"

definition GetUidReusable :: "'a acc_scheme \<Rightarrow> bool" where
  "GetUidReusable s = ac_uidReusable s"

text \<open>The slot of the service watcher: the client has left the bus.\<close>

definition serviceUnregistered :: "string \<Rightarrow> 'a acc_scheme \<Rightarrow> 'a acc_scheme" where
  "serviceUnregistered service s =
     (let s = s\<lparr>ac_watched := filter (\<lambda>w. w \<noteq> service) (ac_watched s)\<rparr>
      in case qm_value service (d_clients s) of
           None \<Rightarrow> s
         | Some _ \<Rightarrow> s\<lparr>d_clients := qm_remove service (d_clients s)\<rparr>)"

section \<open>What the operations leave alone\<close>

lemma acc_frame [frame_simps, simp]:
  "ac_users (act e s) = ac_users s" "ac_users (write_log l s) = ac_users s"
  "ac_users (SSR_LOG t m r c s) = ac_users s"
  "ac_watched (act e s) = ac_watched s" "ac_watched (write_log l s) = ac_watched s"
  "ac_watched (SSR_LOG t m r c s) = ac_watched s"
  "ac_uidReusable (act e s) = ac_uidReusable s" "ac_uidReusable (SSR_LOG t m r c s) = ac_uidReusable s"
  by (simp_all add: act_def write_log_def SSR_LOG_def)

lemma update_user_frame [frame_simps, simp]:
  "d_clients (update_user u f s) = d_clients s" "ac_watched (update_user u f s) = ac_watched s"
  "d_now (update_user u f s) = d_now s" "d_effects (update_user u f s) = d_effects s"
  by (simp_all add: update_user_def)

text \<open>A statement that updates touches some rows of the table and nothing else.\<close>

lemma db_update_Some:
  "db_update env st u f s = Some s' \<Longrightarrow>
     \<exists>w. s' = s\<lparr>ac_users := map (\<lambda>r. if w r then f r else r) (ac_users s)\<rparr>"
  by (auto simp: db_update_def update_user_def split: if_splits)

lemma freeze_ops_frame [frame_simps, simp]:
  "d_clients (resetFreezeInfo env u s) = d_clients s" "d_clients (updateFreezeInfo env u s) = d_clients s"
  "ac_watched (resetFreezeInfo env u s) = ac_watched s" "ac_watched (updateFreezeInfo env u s) = ac_watched s"
  "d_now (resetFreezeInfo env u s) = d_now s" "d_now (updateFreezeInfo env u s) = d_now s"
  "d_clients (snd (isFreeze env u s)) = d_clients s" "ac_watched (snd (isFreeze env u s)) = ac_watched s"
  "d_now (snd (isFreeze env u s)) = d_now s"
  by (auto simp: resetFreezeInfo_def updateFreezeInfo_def isFreeze_def Let_def
      split: list.splits option.splits dest!: db_update_Some)

text \<open>A statement that succeeds as it is meant, and one on a name without a quote.\<close>

lemma db_select_ok [simp]: "ae_db_ok env st \<Longrightarrow> db_select env st u s = Some (select_user u s)"
  by (simp add: db_select_def)

lemma db_update_ok [simp]: "ae_db_ok env st \<Longrightarrow> db_update env st u f s = Some (update_user u f s)"
  by (simp add: db_update_def)

lemma db_select_plain:
  "\<not> has_quote u \<Longrightarrow> db_select env st u s = (if ae_db_ok env st then Some (select_user u s) else None)"
  by (simp add: db_select_def)

lemma db_update_plain:
  "\<not> has_quote u \<Longrightarrow> db_update env st u f s = (if ae_db_ok env st then Some (update_user u f s) else None)"
  by (simp add: db_update_def)

lemma db_select_cong [simp]:
  "db_select env st u (act e s) = db_select env st u s" "db_select env st u (write_log l s) = db_select env st u s"
  "db_select env st u (SSR_LOG t m b c s) = db_select env st u s"
  "db_select env st u (s\<lparr>ac_watched := w\<rparr>) = db_select env st u s"
  "db_select env st u (s\<lparr>d_clients := cl\<rparr>) = db_select env st u s"
  "db_select env st u (s\<lparr>d_now := n\<rparr>) = db_select env st u s"
  by (simp_all add: db_select_def select_user_def)

lemma select_user_update:
  "(\<And>r. u_name (f r) = u_name r) \<Longrightarrow>
     select_user u (update_user v f s) = (if u = v then map f (select_user u s) else select_user u s)"
proof -
  assume nm: "\<And>r. u_name (f r) = u_name r"
  have "filter (\<lambda>r. u_name r = u) (map (\<lambda>r. if u_name r = v then f r else r) rs)
      = (if u = v then map f (filter (\<lambda>r. u_name r = u) rs) else filter (\<lambda>r. u_name r = u) rs)" for rs
    by (induction rs) (auto simp: nm)
  then show ?thesis by (simp add: select_user_def update_user_def)
qed

lemma select_user_cong [simp]:
  "select_user u (act e s) = select_user u s" "select_user u (write_log l s) = select_user u s"
  "select_user u (s\<lparr>ac_watched := w\<rparr>) = select_user u s"
  "select_user u (s\<lparr>d_clients := c\<rparr>) = select_user u s" "select_user u (s\<lparr>d_now := n\<rparr>) = select_user u s"
  by (simp_all add: select_user_def)

lemma currentSecs_simps [simp]:
  "currentSecs (s\<lparr>ac_watched := w\<rparr>) = currentSecs s" "currentSecs (s\<lparr>d_now := t\<rparr>) = toSecsSinceEpoch t"
  by (simp_all add: currentSecs_def)

text \<open>The rows of another user, and the name, role and password of every user, survive the lock-out bookkeeping.\<close>

definition identity :: "user_row \<Rightarrow> string \<times> string \<times> string" where
  "identity r = (u_name r, u_role r, u_passwd r)"

lemma identity_frame:
  "map identity (ac_users (resetFreezeInfo env u s)) = map identity (ac_users s)"
  "map identity (ac_users (updateFreezeInfo env u s)) = map identity (ac_users s)"
  "map identity (ac_users (snd (isFreeze env u s))) = map identity (ac_users s)"
  by (auto simp: resetFreezeInfo_def updateFreezeInfo_def isFreeze_def identity_def
      Let_def split: list.splits option.splits dest!: db_update_Some)

lemma select_user_identity:
  "map identity (ac_users s) = map identity (ac_users s') \<Longrightarrow>
     map identity (select_user u s) = map identity (select_user u s')"
proof -
  have "map identity (filter (\<lambda>r. u_name r = u) rs) = filter (\<lambda>(n, _). n = u) (map identity rs)" for rs
    by (induction rs) (auto simp: identity_def)
  then show "map identity (ac_users s) = map identity (ac_users s') \<Longrightarrow> ?thesis"
    by (simp add: select_user_def)
qed

lemma identity_queries:
  assumes "map identity (ac_users s) = map identity (ac_users s')"
  shows "getRoleFromDB env u s = getRoleFromDB env u s'"
    and "verifyPassword env u p s = verifyPassword env u p s'"
  using select_user_identity [OF assms, of u]
  by (auto simp: getRoleFromDB_def verifyPassword_def db_select_def identity_def split: list.splits option.splits)

section \<open>Login\<close>

text \<open>The branches of \<open>Login\<close>.\<close>

lemma Login_refused:
  "getRoleFromDB env u s = role_unknown \<Longrightarrow>
     Login env c pid u p s = (False, act (ReplyError c ERROR_ACCOUNT_UNKNOWN_ACCOUNT) s)"
  by (simp add: Login_def)

lemma Login_twice:
  "getRoleFromDB env u s \<noteq> role_unknown \<Longrightarrow> clientIsLogin (qm_value c (d_clients s)) \<Longrightarrow>
     Login env c pid u p s = (False, s\<lparr>ac_watched := List.insert c (ac_watched s)\<rparr>)"
  by (simp add: Login_def Let_def)

lemma isFreeze_watched [simp]:
  "fst (isFreeze env u (s\<lparr>ac_watched := w\<rparr>)) = fst (isFreeze env u s)"
  "snd (isFreeze env u (s\<lparr>ac_watched := w\<rparr>)) = (snd (isFreeze env u s))\<lparr>ac_watched := w\<rparr>"
  by (auto simp: isFreeze_def Let_def resetFreezeInfo_def db_update_def update_user_def split: list.splits option.splits)

lemma verifyPassword_watched [simp]:
  "verifyPassword env u p (s\<lparr>ac_watched := w\<rparr>) = verifyPassword env u p s"
  by (simp add: verifyPassword_def)

lemma Login_success_iff:
  "fst (Login env c pid u p s) \<longleftrightarrow>
     getRoleFromDB env u s \<noteq> role_unknown \<and> \<not> clientIsLogin (qm_value c (d_clients s))
     \<and> \<not> fst (isFreeze env u s) \<and> verifyPassword env u p s"
proof -
  let ?w = "s\<lparr>ac_watched := List.insert c (ac_watched s)\<rparr>"
  have "verifyPassword env u p (snd (isFreeze env u ?w)) = verifyPassword env u p s"
    by (rule identity_queries) (simp add: identity_frame)
  moreover obtain fz s1 where fz: "isFreeze env u ?w = (fz, s1)" by fastforce
  moreover from fz have "fz = fst (isFreeze env u s)" by (metis fst_conv isFreeze_watched(1))
  ultimately show ?thesis by (cases fz) (simp_all add: Login_def Let_def)
qed

lemma Login_clients:
  "d_clients (snd (Login env c pid u p s)) =
     (if fst (Login env c pid u p s)
      then qm_insert c \<lparr>a_isLogin = True, a_role = getRoleFromDB env u s, a_name = u, a_pid = pid\<rparr> (d_clients s)
      else d_clients s)"
proof -
  let ?w = "s\<lparr>ac_watched := List.insert c (ac_watched s)\<rparr>"
  have "d_clients (snd (isFreeze env u ?w)) = d_clients s" by simp
  then show ?thesis
    by (cases "isFreeze env u ?w"; cases "fst (isFreeze env u ?w)") (auto simp: Login_def Let_def)
qed

lemma freeze_ops_effects [simp]:
  "d_effects (resetFreezeInfo env u s) = d_effects s" "d_effects (updateFreezeInfo env u s) = d_effects s"
  "d_effects (snd (isFreeze env u s)) = d_effects s"
  by (auto simp: resetFreezeInfo_def updateFreezeInfo_def isFreeze_def Let_def
      split: list.splits option.splits dest!: db_update_Some)

lemma Login_effects:
  "d_effects (snd (Login env c pid u p s)) = d_effects s @
     (if getRoleFromDB env u s = role_unknown then [ReplyError c ERROR_ACCOUNT_UNKNOWN_ACCOUNT]
      else if clientIsLogin (qm_value c (d_clients s)) then []
      else if fst (isFreeze env u s) then [ReplyError c ERROR_ACCOUNT_BE_FREEZE]
      else if \<not> verifyPassword env u p s then [ReplyError c ERROR_ACCOUNT_PASSWORD_ERROR]
      else [])"
proof -
  let ?w = "s\<lparr>ac_watched := List.insert c (ac_watched s)\<rparr>"
  have v: "verifyPassword env u p (snd (isFreeze env u ?w)) = verifyPassword env u p s"
    by (rule identity_queries) (simp add: identity_frame)
  have e: "d_effects (snd (isFreeze env u ?w)) = d_effects s"
    unfolding freeze_ops_effects by simp
  obtain fz s1 where fz: "isFreeze env u ?w = (fz, s1)" by fastforce
  have f: "fz = fst (isFreeze env u s)" using fz isFreeze_watched(1) by (metis fst_conv)
  have "verifyPassword env u p s1 = verifyPassword env u p s" "d_effects s1 = d_effects s"
    using v e by (simp_all only: fz snd_conv)
  then show ?thesis using fz f by (cases fz) (simp_all add: Login_def Let_def)
qed

lemma Login_identity: "map identity (ac_users (snd (Login env c pid u p s))) = map identity (ac_users s)"
proof -
  let ?w = "s\<lparr>ac_watched := List.insert c (ac_watched s)\<rparr>"
  have "map identity (ac_users (snd (isFreeze env u ?w))) = map identity (ac_users s)"
    by (simp add: identity_frame)
  then show ?thesis
    by (cases "isFreeze env u ?w"; cases "fst (isFreeze env u ?w)")
      (auto simp: Login_def Let_def identity_frame)
qed

lemma Login_watched:
  "ac_watched (snd (Login env c pid u p s)) =
     (if getRoleFromDB env u s = role_unknown then ac_watched s else List.insert c (ac_watched s))"
proof -
  let ?w = "s\<lparr>ac_watched := List.insert c (ac_watched s)\<rparr>"
  have "ac_watched (snd (isFreeze env u ?w)) = List.insert c (ac_watched s)" by simp
  then show ?thesis
    by (cases "isFreeze env u ?w"; cases "fst (isFreeze env u ?w)") (auto simp: Login_def Let_def)
qed

text \<open>A frozen account: no password is even looked at.\<close>

lemma isFreeze_locked:
  "ae_db_ok env SelectUser \<Longrightarrow> select_user u s = r # rs \<Longrightarrow> 5 \<le> u_tryTimes r \<Longrightarrow> currentSecs s < u_lastTryTime r + freezeLoginTimeSec \<Longrightarrow>
     isFreeze env u s = (True, s)"
  by (simp add: isFreeze_def Let_def)

lemma isFreeze_open:
  "ae_db_ok env SelectUser \<Longrightarrow> select_user u s = r # rs \<Longrightarrow> u_tryTimes r < 5 \<Longrightarrow> isFreeze env u s = (False, s)"
  by (simp add: isFreeze_def Let_def)

lemma Login_frozen:
  assumes "ae_db_ok env SelectUser" "getRoleFromDB env u s \<noteq> role_unknown" "\<not> clientIsLogin (qm_value c (d_clients s))"
    and "select_user u s = r # rs" "5 \<le> u_tryTimes r" "currentSecs s < u_lastTryTime r + freezeLoginTimeSec"
  shows "\<not> fst (Login env c pid u p s)" "ac_users (snd (Login env c pid u p s)) = ac_users s"
    and "d_clients (snd (Login env c pid u p s)) = d_clients s"
    and "d_effects (snd (Login env c pid u p s)) = d_effects s @ [ReplyError c ERROR_ACCOUNT_BE_FREEZE]"
  using assms isFreeze_locked [of env u "s\<lparr>ac_watched := List.insert c (ac_watched s)\<rparr>" r rs]
  by (simp_all add: Login_def Let_def)

text \<open>A wrong password on an account that is open counts one attempt.\<close>

lemma Login_wrong:
  assumes ok: "\<forall>st. ae_db_ok env st" and role: "getRoleFromDB env u s \<noteq> role_unknown"
    and cl: "\<not> clientIsLogin (qm_value c (d_clients s))"
    and row: "select_user u s = r # rs" and tries: "u_tryTimes r < 5"
    and wrong: "\<not> verifyPassword env u p s"
  shows "select_user u (snd (Login env c pid u p s)) =
      map (\<lambda>r. r\<lparr>u_tryTimes := u_tryTimes r + 1, u_lastTryTime := currentSecs s\<rparr>) (r # rs)"
    and "d_clients (snd (Login env c pid u p s)) = d_clients s"
    and "d_effects (snd (Login env c pid u p s)) = d_effects s @ [ReplyError c ERROR_ACCOUNT_PASSWORD_ERROR]"
proof -
  let ?w = "s\<lparr>ac_watched := List.insert c (ac_watched s)\<rparr>"
  have fr: "isFreeze env u ?w = (False, ?w)" using ok row tries by (intro isFreeze_open) auto
  have v: "\<not> verifyPassword env u p ?w" using wrong by simp
  have L: "snd (Login env c pid u p s) =
     act (ReplyError c ERROR_ACCOUNT_PASSWORD_ERROR)
       (write_log \<lparr>l_name = u, l_role = getRoleFromDB env u s, l_time = d_now s, l_type = log_ACCOUNT,
           l_result = False, l_msg = ''Failed to login, Passwd error''\<rparr> (updateFreezeInfo env u ?w))"
    using role cl fr v by (simp add: Login_def Let_def)
  show "select_user u (snd (Login env c pid u p s)) =
      map (\<lambda>r. r\<lparr>u_tryTimes := u_tryTimes r + 1, u_lastTryTime := currentSecs s\<rparr>) (r # rs)"
    using ok row by (simp add: L updateFreezeInfo_def select_user_update)
  show "d_clients (snd (Login env c pid u p s)) = d_clients s"
    and "d_effects (snd (Login env c pid u p s)) = d_effects s @ [ReplyError c ERROR_ACCOUNT_PASSWORD_ERROR]"
    using ok by (simp_all add: L updateFreezeInfo_def)
qed

section \<open>Attempts over time\<close>

text \<open>Login attempts of one client for one user: the time (in ms) and the password of each.\<close>

fun attempts :: "acc_env \<Rightarrow> string \<Rightarrow> int \<Rightarrow> string \<Rightarrow> (int \<times> string) list \<Rightarrow> 'a acc_scheme \<Rightarrow> 'a acc_scheme" where
  "attempts env c pid u [] s = s"
| "attempts env c pid u ((t, p) # as) s = attempts env c pid u as (snd (Login env c pid u p (s\<lparr>d_now := t\<rparr>)))"

lemma identity_queries_now [simp]:
  "getRoleFromDB env u (s\<lparr>d_now := t\<rparr>) = getRoleFromDB env u s"
  "verifyPassword env u p (s\<lparr>d_now := t\<rparr>) = verifyPassword env u p s"
  by (simp_all add: getRoleFromDB_def verifyPassword_def)

lemma Login_queries:
  "getRoleFromDB env v (snd (Login env c pid u p s)) = getRoleFromDB env v s"
  "verifyPassword env v q (snd (Login env c pid u p s)) = verifyPassword env v q s"
  using identity_queries [OF Login_identity] by blast+

lemma attempts_count:
  assumes "\<forall>st. ae_db_ok env st"
  shows "getRoleFromDB env u s \<noteq> role_unknown \<Longrightarrow> \<not> clientIsLogin (qm_value c (d_clients s)) \<Longrightarrow>
    select_user u s = r # rs \<Longrightarrow> u_tryTimes r + int (length as) \<le> 5 \<Longrightarrow>
    \<forall>(t, p) \<in> set as. \<not> verifyPassword env u p s \<Longrightarrow> as \<noteq> [] \<Longrightarrow>
    \<exists>r' rs'. select_user u (attempts env c pid u as s) = r' # rs'
      \<and> u_tryTimes r' = u_tryTimes r + int (length as)
      \<and> u_lastTryTime r' = toSecsSinceEpoch (fst (last as))
      \<and> d_clients (attempts env c pid u as s) = d_clients s
      \<and> getRoleFromDB env u (attempts env c pid u as s) = getRoleFromDB env u s"
proof (induction as arbitrary: s r rs)
  case Nil
  then show ?case by simp
next
  case (Cons a as)
  obtain t p where a: "a = (t, p)" by fastforce
  let ?s = "snd (Login env c pid u p (s\<lparr>d_now := t\<rparr>))"
  let ?f = "\<lambda>r. r\<lparr>u_tryTimes := u_tryTimes r + 1, u_lastTryTime := toSecsSinceEpoch t\<rparr>"
  have sel: "select_user u ?s = ?f r # map ?f rs" and cl: "d_clients ?s = d_clients s"
    using Login_wrong(1,2) [OF assms, of u "s\<lparr>d_now := t\<rparr>" c r rs p pid] Cons.prems a by auto
  have q: "getRoleFromDB env u ?s = getRoleFromDB env u s" "verifyPassword env u x ?s = verifyPassword env u x s" for x
    by (simp_all add: Login_queries)
  show ?case
  proof (cases "as = []")
    case True
    with a sel cl q show ?thesis by simp
  next
    case False
    have "\<exists>r' rs'. select_user u (attempts env c pid u as ?s) = r' # rs'
      \<and> u_tryTimes r' = u_tryTimes (?f r) + int (length as)
      \<and> u_lastTryTime r' = toSecsSinceEpoch (fst (last as))
      \<and> d_clients (attempts env c pid u as ?s) = d_clients ?s
      \<and> getRoleFromDB env u (attempts env c pid u as ?s) = getRoleFromDB env u ?s"
      by (rule Cons.IH [OF _ _ sel]) (use Cons.prems a cl q False in auto)
    with a False cl q show ?thesis by auto
  qed
qed

section \<open>Change of a password\<close>

lemma key_no_quote: "\<not> has_quote (qs_str (valueToKey account_role_enum r))"
  by (simp add: has_quote_def valueToKey_def account_role_enum_def)

lemma changePassword_verify:
  assumes "\<And>p. aesDecrypt (ae_crypto env) (aesEncrypt (ae_crypto env) p) = p"
    and "fst (changePassword env u np s)" and "\<not> has_quote u"
  shows "verifyPassword env v q (snd (changePassword env u np s)) =
     (if v = u then ae_db_ok env SelectPasswd \<and> select_user u s \<noteq> []
          \<and> rsaDecrypt (ae_crypto env) q = rsaDecrypt (ae_crypto env) np
      else verifyPassword env v q s)"
  using assms
  by (auto simp: changePassword_def verifyPassword_def db_update_plain db_select_def select_user_update Let_def
      split: list.splits if_splits option.splits)

lemma verifyPassword_plain:
  assumes "verifyPassword env u p s" "\<not> has_quote u"
  shows "ae_db_ok env SelectPasswd" "select_user u s \<noteq> []"
  using assms by (auto simp: verifyPassword_def db_select_plain [OF assms(2)] split: if_splits list.splits)

lemma verifyPassword_frame [simp]:
  "verifyPassword env u p (act e s) = verifyPassword env u p s"
  "verifyPassword env u p (SSR_LOG t m r c s) = verifyPassword env u p s"
  by (simp_all add: verifyPassword_def SSR_LOG_def)

lemma changePassword_frame [simp]:
  "d_clients (snd (changePassword env u np s)) = d_clients s"
  "ac_watched (snd (changePassword env u np s)) = ac_watched s"
  "map u_name (ac_users (snd (changePassword env u np s))) = map u_name (ac_users s)"
  "map u_role (ac_users (snd (changePassword env u np s))) = map u_role (ac_users s)"
  by (auto simp: changePassword_def Let_def split: option.splits dest!: db_update_Some)

text \<open>\<open>ChangePassphrase\<close> either leaves the table alone or is the one statement of \<open>changePassword\<close>.\<close>

lemma ChangePassphrase_cases:
  obtains (refused) "\<not> fst (ChangePassphrase env c u op np s)"
      "ac_users (snd (ChangePassphrase env c u op np s)) = ac_users s"
      "d_clients (snd (ChangePassphrase env c u op np s)) = d_clients s"
      "ac_watched (snd (ChangePassphrase env c u op np s)) = ac_watched s"
  | (changed) "getRole c s \<noteq> role_unknown" "u = qs_str (valueToKey account_role_enum (getRole c s))"
      "verifyPassword env u op s" "checkPassword (rsaDecrypt (ae_crypto env) np) u"
      "rsaDecrypt (ae_crypto env) op \<noteq> rsaDecrypt (ae_crypto env) np"
      "ChangePassphrase env c u op np s =
         (fst (changePassword env u np s),
          SSR_LOG log_ACCOUNT ''Change password'' True c
            (act (EmitSignal ''PasswordChanged'' u 0) (snd (changePassword env u np s))))"
proof (cases "getRole c s = role_unknown \<or> u \<noteq> qs_str (valueToKey account_role_enum (getRole c s))
    \<or> \<not> verifyPassword env u op s \<or> \<not> checkPassword (rsaDecrypt (ae_crypto env) np) u
    \<or> rsaDecrypt (ae_crypto env) op = rsaDecrypt (ae_crypto env) np")
  case True
  then show ?thesis by (intro refused) (auto simp: ChangePassphrase_def Let_def)
next
  case False
  then show ?thesis by (intro changed) (auto simp: ChangePassphrase_def Let_def split: prod.splits)
qed

section \<open>The manager as a machine\<close>

datatype acc_event =
    EvLogin string int string string
  | EvLogout string
  | EvChangePassphrase string string string string
  | EvSetUidReusable string bool
  | EvServiceGone string
  | EvClock int

fun acc_step :: "acc_env \<Rightarrow> acc \<Rightarrow> acc_event \<Rightarrow> acc" where
  "acc_step env s (EvLogin c pid u p) = snd (Login env c pid u p s)"
| "acc_step env s (EvLogout c) = snd (Logout c s)"
| "acc_step env s (EvChangePassphrase c u op np) = snd (ChangePassphrase env c u op np s)"
| "acc_step env s (EvSetUidReusable c b) = SetUidReusable c b s"
| "acc_step env s (EvServiceGone c) = serviceUnregistered c s"
| "acc_step env s (EvClock t) = s\<lparr>d_now := t\<rparr>"

text \<open>
  The manager's invariant: every client it knows is watched, so that its exit removes it,
  and has a known role; unless its name has a quote, name and role are those of a row of the table.
\<close>

definition cols :: "user_row list \<Rightarrow> (string \<times> string) list" where
  "cols users = map (\<lambda>r. (u_name r, u_role r)) users"

definition backed :: "user_row list \<Rightarrow> account \<Rightarrow> bool" where
  "backed users c \<longleftrightarrow> a_role c \<noteq> role_unknown
     \<and> (has_quote (a_name c) \<or> (\<exists>(n, rl) \<in> set (cols users). n = a_name c \<and> keyToValue account_role_enum rl = a_role c))"

definition acc_inv :: "'a acc_scheme \<Rightarrow> bool" where
  "acc_inv s \<longleftrightarrow> qm_ok (d_clients s)
     \<and> (\<forall>k c. qm_value k (d_clients s) = Some c \<longrightarrow> k \<in> set (ac_watched s) \<and> backed (ac_users s) c)"

lemma acc_invI:
  assumes "acc_inv s" "d_clients s' = d_clients s" "set (ac_watched s) \<subseteq> set (ac_watched s')"
    and "cols (ac_users s') = cols (ac_users s)"
  shows "acc_inv s'"
  using assms by (auto simp: acc_inv_def backed_def)

lemma identity_cols: "map identity us = map identity us' \<Longrightarrow> cols us = cols us'"
proof -
  have "cols us = map (\<lambda>(n, rl, _). (n, rl)) (map identity us)" for us
    by (simp add: identity_def cols_def)
  then show "map identity us = map identity us' \<Longrightarrow> ?thesis" by metis
qed

lemma getRoleFromDB_row:
  assumes "getRoleFromDB env u s \<noteq> role_unknown" "\<not> has_quote u"
  shows "\<exists>r \<in> set (ac_users s). u_name r = u \<and> keyToValue account_role_enum (u_role r) = getRoleFromDB env u s"
proof -
  from assms obtain r rs where sel: "select_user u s = r # rs"
    and role: "getRoleFromDB env u s = keyToValue account_role_enum (u_role r)"
    by (auto simp: getRoleFromDB_def db_select_plain split: if_splits list.splits)
  from sel have "r \<in> set (ac_users s)" "u_name r = u"
    by (auto simp: select_user_def dest: filter_eq_ConsD)
  with role show ?thesis by auto
qed

lemma Login_inv: "acc_inv s \<Longrightarrow> acc_inv (snd (Login env c pid u p s))"
proof -
  assume inv: "acc_inv s"
  let ?s = "snd (Login env c pid u p s)"
  have cols: "cols (ac_users ?s) = cols (ac_users s)" by (rule identity_cols) (rule Login_identity)
  show "acc_inv ?s"
  proof (cases "fst (Login env c pid u p s)")
    case False
    then show ?thesis using inv cols by (intro acc_invI [OF inv]) (auto simp: Login_clients Login_watched)
  next
    case True
    then have role: "getRoleFromDB env u s \<noteq> role_unknown" by (simp add: Login_success_iff)
    have "has_quote u \<or> (\<exists>r \<in> set (ac_users s). u_name r = u
        \<and> keyToValue account_role_enum (u_role r) = getRoleFromDB env u s)"
      using role getRoleFromDB_row by blast
    then have "backed (ac_users s) \<lparr>a_isLogin = True, a_role = getRoleFromDB env u s, a_name = u, a_pid = pid\<rparr>"
      using role by (force simp: backed_def cols_def)
    then show ?thesis
      using inv True role cols
      by (auto simp: acc_inv_def backed_def Login_clients Login_watched qm_ok_insert qm_value_insert split: if_splits)
  qed
qed

lemma backed_logout [simp]: "backed us (x\<lparr>a_isLogin := b\<rparr>) = backed us x"
  by (simp add: backed_def)

lemma acc_inv_insert:
  assumes "acc_inv s" "backed (ac_users s) x" "c \<in> set (ac_watched s)"
    and "d_clients s' = qm_insert c x (d_clients s)" "ac_watched s' = ac_watched s" "ac_users s' = ac_users s"
  shows "acc_inv s'"
  using assms unfolding acc_inv_def by (auto simp: qm_ok_insert qm_value_insert split: if_splits)

lemma Logout_success:
  "fst (Logout c s) \<Longrightarrow> \<exists>x. qm_value c (d_clients s) = Some x
     \<and> snd (Logout c s) = SSR_LOG log_ACCOUNT ''Logout'' True c
         (s\<lparr>d_clients := qm_insert c (x\<lparr>a_isLogin := False\<rparr>) (d_clients s)\<rparr>)"
  by (auto simp: Logout_def split: option.splits if_splits)

lemma Logout_failure:
  "\<not> fst (Logout c s) \<Longrightarrow> d_clients (snd (Logout c s)) = d_clients s
     \<and> ac_watched (snd (Logout c s)) = ac_watched s \<and> ac_users (snd (Logout c s)) = ac_users s"
  by (simp add: Logout_def split: option.splits if_splits)

lemma Logout_inv:
  assumes inv: "acc_inv s"
  shows "acc_inv (snd (Logout c s))"
proof (cases "fst (Logout c s)")
  case True
  from Logout_success [OF True] obtain x where x: "qm_value c (d_clients s) = Some x"
    and L: "snd (Logout c s) = SSR_LOG log_ACCOUNT ''Logout'' True c
         (s\<lparr>d_clients := qm_insert c (x\<lparr>a_isLogin := False\<rparr>) (d_clients s)\<rparr>)" by blast
  from inv x have "backed (ac_users s) x" "c \<in> set (ac_watched s)" by (simp_all add: acc_inv_def)
  then show ?thesis
    by (intro acc_inv_insert [OF inv, of "x\<lparr>a_isLogin := False\<rparr>" c]) (simp_all add: L)
next
  case False
  then show ?thesis by (intro acc_invI [OF inv]) (simp_all add: Logout_failure)
qed

lemma ChangePassphrase_inv:
  assumes inv: "acc_inv s"
  shows "acc_inv (snd (ChangePassphrase env c u op np s))"
proof (cases rule: ChangePassphrase_cases [of env c u op np s])
  case refused
  then show ?thesis by (intro acc_invI [OF inv]) auto
next
  case changed
  have "cols (ac_users (snd (changePassword env u np s))) = cols (ac_users s)"
    by (auto simp: changePassword_def cols_def Let_def split: option.splits dest!: db_update_Some)
  with changed show ?thesis by (intro acc_invI [OF inv]) auto
qed

lemma SetUidReusable_fields [simp]:
  "d_clients (SetUidReusable c b s) = d_clients s" "ac_watched (SetUidReusable c b s) = ac_watched s"
  "ac_users (SetUidReusable c b s) = ac_users s"
  by (simp_all add: SetUidReusable_def Let_def)

lemma serviceUnregistered_inv: "acc_inv s \<Longrightarrow> acc_inv (serviceUnregistered c s)"
  by (simp add: acc_inv_def serviceUnregistered_def qm_ok_remove qm_value_remove
      Let_def split: option.splits) auto

lemma acc_step_inv:
  assumes inv: "acc_inv s"
  shows "acc_inv (acc_step env s e)"
proof (cases e)
  case (EvSetUidReusable c b)
  then show ?thesis by (intro acc_invI [OF inv]) auto
next
  case (EvClock t)
  then show ?thesis by (intro acc_invI [OF inv]) auto
qed (simp_all add: inv Login_inv Logout_inv ChangePassphrase_inv serviceUnregistered_inv)

text \<open>The answers of the database may be others at every event.\<close>

abbreviation acc_run :: "acc \<Rightarrow> (acc_env \<times> acc_event) list \<Rightarrow> acc" where
  "acc_run \<equiv> run (\<lambda>s (env, e). acc_step env s e)"

interpretation acc_machine: step_invariant "\<lambda>s (env, e). acc_step env s e" acc_inv
  by unfold_locales (auto intro: acc_step_inv)

section \<open>Properties\<close>

text \<open>A concrete manager for the witnesses: the initial table, no client, an empty log.\<close>

definition sample_crypto :: crypto where
  "sample_crypto = \<lparr>rsaDecrypt = rev, aesEncrypt = (\<lambda>p. CHR ''x'' # p), aesDecrypt = tl\<rparr>"

definition sample_acc_env :: acc_env where
  "sample_acc_env = \<lparr>ae_crypto = sample_crypto, ae_db_ok = (\<lambda>_. True),
     ae_injected = (\<lambda>_. None), ae_injected_where = (\<lambda>_. None)\<rparr>"

definition sample_log :: log_manager where
  "sample_log = \<lparr>lm_logList = [], lm_firstNeedWrite = 0, lm_fileLine = 0, lm_tmp = [], lm_file = [],
     lm_writable = True, lm_wake = False, lm_rotate = False, lm_written = [],
     lm_config = log_configurations (\<lambda>_. None) []\<rparr>"

definition sample_acc :: acc where
  "sample_acc = \<lparr>d_clients = [], d_log = sample_log, d_now = 1000000, d_effects = [],
     ac_users = initUserInfoTable sample_crypto, ac_watched = [], ac_uidReusable = False, ac_uidConfig = []\<rparr>"

text \<open>The sample manager with one client of the system administrator.\<close>

definition sample_acc_in :: acc where
  "sample_acc_in = sample_acc\<lparr>
     d_clients := [('':1'', \<lparr>a_isLogin = True, a_role = 1, a_name = ''sysadm'', a_pid = 7\<rparr>)], ac_watched := ['':1'']\<rparr>"

lemmas sample_acc_defs = sample_acc_def sample_acc_in_def sample_acc_env_def sample_crypto_def
  initUserInfoTable_def account_role_enum_def

text \<open>C1: A login succeeds exactly when the account has a known role, the calling client is not
  logged in already, the account is not frozen and the password is the stored one; then, and
  only then, the client is recorded with the role of the account. A refusal for an unknown role, a
  frozen account or a wrong password is answered with the error of that case, tested in this order,
  and with no other; a client already logged in is answered false, without an error.\<close>

theorem Login_decides:
  "(fst (Login env c pid u p s) \<longleftrightarrow>
      getRoleFromDB env u s \<noteq> role_unknown \<and> \<not> clientIsLogin (qm_value c (d_clients s))
      \<and> \<not> fst (isFreeze env u s) \<and> verifyPassword env u p s)
   \<and> d_clients (snd (Login env c pid u p s)) =
      (if fst (Login env c pid u p s)
       then qm_insert c \<lparr>a_isLogin = True, a_role = getRoleFromDB env u s, a_name = u, a_pid = pid\<rparr> (d_clients s)
       else d_clients s)
   \<and> d_effects (snd (Login env c pid u p s)) = d_effects s @
      (if getRoleFromDB env u s = role_unknown then [ReplyError c ERROR_ACCOUNT_UNKNOWN_ACCOUNT]
       else if clientIsLogin (qm_value c (d_clients s)) then []
       else if fst (isFreeze env u s) then [ReplyError c ERROR_ACCOUNT_BE_FREEZE]
       else if \<not> verifyPassword env u p s then [ReplyError c ERROR_ACCOUNT_PASSWORD_ERROR]
       else [])"
  using Login_success_iff Login_clients Login_effects by blast

text \<open>C2: Five wrong passwords in a row lock the account: until three minutes after the fifth, every
  login to it from any client fails with \<open>ERROR_ACCOUNT_BE_FREEZE\<close>, whatever the password, and the
  table is not touched (so that waiting attempts do not extend the lock-out).\<close>

theorem lockout_after_five_failures:
  assumes "\<forall>st. ae_db_ok env st" and "getRoleFromDB env u s \<noteq> role_unknown"
    and "\<not> clientIsLogin (qm_value c (d_clients s))" "\<not> clientIsLogin (qm_value c' (d_clients s))"
    and "select_user u s = r # rs" "u_tryTimes r = 0"
    and "length as = 5" "\<forall>(t, p) \<in> set as. \<not> verifyPassword env u p s"
    and "toSecsSinceEpoch t < toSecsSinceEpoch (fst (last as)) + 180"
  shows "\<not> fst (Login env c' pid' u p ((attempts env c pid u as s)\<lparr>d_now := t\<rparr>))
     \<and> ac_users (snd (Login env c' pid' u p ((attempts env c pid u as s)\<lparr>d_now := t\<rparr>)))
         = ac_users (attempts env c pid u as s)
     \<and> d_effects (snd (Login env c' pid' u p ((attempts env c pid u as s)\<lparr>d_now := t\<rparr>)))
         = d_effects (attempts env c pid u as s) @ [ReplyError c' ERROR_ACCOUNT_BE_FREEZE]"
proof -
  let ?s = "attempts env c pid u as s"
  have "as \<noteq> []" "u_tryTimes r + int (length as) \<le> 5" using assms(6,7) by auto
  from attempts_count [where pid = pid, OF assms(1,2,3,5) this(2) assms(8) this(1)]
  obtain r' rs' where sel: "select_user u ?s = r' # rs'"
    and "u_tryTimes r' = 5" "u_lastTryTime r' = toSecsSinceEpoch (fst (last as))"
    and "d_clients ?s = d_clients s" "getRoleFromDB env u ?s = getRoleFromDB env u s"
    using assms(6,7) by auto
  then show ?thesis
    using assms(1,2,4,9) sel Login_frozen [of env u "?s\<lparr>d_now := t\<rparr>" c' r' rs' pid' p] by simp
qed

theorem lockout_after_five_failures_witness:
  "\<not> fst (Login sample_acc_env '':2'' 9 ''sysadm'' (rev ''kylin.123'')
     ((attempts sample_acc_env '':1'' 7 ''sysadm'' (replicate 5 (2000000, ''guess'')) sample_acc)\<lparr>d_now := 2179000\<rparr>))"
proof -
  have "select_user ''sysadm'' sample_acc = hd (ac_users sample_acc) # []"
    by (simp add: select_user_def sample_acc_defs)
  moreover have "u_tryTimes (hd (ac_users sample_acc)) = 0" by (simp add: sample_acc_defs)
  moreover have "getRoleFromDB sample_acc_env ''sysadm'' sample_acc \<noteq> role_unknown"
    by (simp add: getRoleFromDB_def select_user_def keyToValue_def sample_acc_defs)
  moreover have "\<not> verifyPassword sample_acc_env ''sysadm'' ''guess'' sample_acc"
    by (simp add: verifyPassword_def select_user_def sample_acc_defs)
  moreover have "qm_value c (d_clients sample_acc) = None" for c
    by (simp add: sample_acc_defs qm_value_def)
  ultimately show ?thesis
    using lockout_after_five_failures [of sample_acc_env "''sysadm''" sample_acc "'':1''" "'':2''"
        "hd (ac_users sample_acc)" "[]" "replicate 5 (2000000, ''guess'')" 2179000 9 "rev ''kylin.123''" 7]
    by (simp add: sample_acc_env_def clientIsLogin_def toSecsSinceEpoch_def)
qed

text \<open>In the second exactly three minutes after the last of five or more failures the account is
  neither frozen nor reset: the login is tried, and a wrong password locks the account again with
  the counter still growing, while one second later the counter is back at 0 first.\<close>

theorem freeze_boundary:
  assumes "ae_db_ok env SelectUser" "ae_db_ok env ResetFreeze"
    and "select_user u s = r # rs" "5 \<le> u_tryTimes r"
  shows "(currentSecs s = u_lastTryTime r + 180 \<longrightarrow> isFreeze env u s = (False, s))
     \<and> (u_lastTryTime r + 180 < currentSecs s \<longrightarrow>
          \<not> fst (isFreeze env u s)
          \<and> (\<forall>r \<in> set (select_user u (snd (isFreeze env u s))). u_tryTimes r = 0))"
  using assms by (auto simp: isFreeze_def Let_def resetFreezeInfo_def select_user_update)

text \<open>The sample manager with five failures of the system administrator at second 1000.\<close>

definition sample_acc_locked :: acc where
  "sample_acc_locked = sample_acc\<lparr>ac_users := [\<lparr>u_name = ''sysadm'', u_role = ''sysadm'',
     u_passwd = ''xkylin.123'', u_tryTimes = 5, u_lastTryTime = 1000\<rparr>]\<rparr>"

theorem freeze_boundary_witness:
  "isFreeze sample_acc_env ''sysadm'' (sample_acc_locked\<lparr>d_now := 1180000\<rparr>)
      = (False, sample_acc_locked\<lparr>d_now := 1180000\<rparr>)"
proof -
  let ?s = "sample_acc_locked\<lparr>d_now := 1180000\<rparr>"
  have row: "select_user ''sysadm'' ?s = hd (ac_users sample_acc_locked) # []"
    by (simp add: select_user_def sample_acc_locked_def)
  have ok: "ae_db_ok sample_acc_env SelectUser" "ae_db_ok sample_acc_env ResetFreeze"
    by (simp_all add: sample_acc_env_def)
  have n: "5 \<le> u_tryTimes (hd (ac_users sample_acc_locked))"
    "currentSecs ?s = u_lastTryTime (hd (ac_users sample_acc_locked)) + 180"
    by (simp_all add: sample_acc_locked_def toSecsSinceEpoch_def)
  show ?thesis by (rule freeze_boundary [OF ok row n(1), THEN conjunct1, THEN mp, OF n(2)])
qed

text \<open>After a logout the client still has its role: the record stays, only its login flag is
  cleared, and the flag is not what the privileged methods test. A client that has logged out can
  still change the reuse of user ids, as long as its process lives.\<close>

theorem logout_keeps_role:
  assumes "acc_inv s" and "fst (Logout c s)"
  shows "getRole c (snd (Logout c s)) = getRole c s \<and> getRole c s \<noteq> role_unknown
     \<and> ac_uidReusable (SetUidReusable c b (snd (Logout c s))) = b
     \<and> \<not> clientIsLogin (qm_value c (d_clients (snd (Logout c s))))"
proof -
  from Logout_success [OF assms(2)] obtain x where x: "qm_value c (d_clients s) = Some x"
    and L: "snd (Logout c s) = SSR_LOG log_ACCOUNT ''Logout'' True c
         (s\<lparr>d_clients := qm_insert c (x\<lparr>a_isLogin := False\<rparr>) (d_clients s)\<rparr>)" by blast
  have v: "qm_value c (d_clients (snd (Logout c s))) = Some (x\<lparr>a_isLogin := False\<rparr>)"
    using assms(1) by (simp add: L acc_inv_def qm_value_insert)
  then have "getRole c (snd (Logout c s)) = getRole c s" using x by (simp add: getRole_def)
  moreover have "getRole c s \<noteq> role_unknown"
    using assms(1) x by (auto simp: acc_inv_def backed_def getRole_def)
  ultimately show ?thesis using v by (simp add: SetUidReusable_def clientIsLogin_def Let_def)
qed

theorem logout_keeps_role_witness:
  "getRole '':1'' (snd (Logout '':1'' sample_acc_in)) = 1
     \<and> ac_uidReusable (SetUidReusable '':1'' True (snd (Logout '':1'' sample_acc_in)))"
proof -
  have "acc_inv sample_acc_in"
    by (auto simp: acc_inv_def backed_def cols_def keyToValue_def qm_ok_def qm_value_def sample_acc_defs split: if_splits)
  moreover have "fst (Logout '':1'' sample_acc_in)" and "getRole '':1'' sample_acc_in = 1"
    by (simp_all add: Logout_def clientIsLogin_def getRole_def qm_value_def sample_acc_defs)
  ultimately show ?thesis using logout_keeps_role [of sample_acc_in "'':1''" True] by simp
qed

text \<open>C8: After a successful change of the password of \<open>u\<close>, the password check of \<open>u\<close> accepts
  exactly the new password, the check of every other user is unchanged, and the new password meets
  the complexity rule and differs from the old one.\<close>

theorem ChangePassphrase_correct:
  assumes "\<And>p. aesDecrypt (ae_crypto env) (aesEncrypt (ae_crypto env) p) = p"
    and "fst (ChangePassphrase env c u op np s)"
  shows "verifyPassword env v q (snd (ChangePassphrase env c u op np s)) =
       (if v = u then rsaDecrypt (ae_crypto env) q = rsaDecrypt (ae_crypto env) np else verifyPassword env v q s)
     \<and> verifyPassword env u op s \<and> checkPassword (rsaDecrypt (ae_crypto env) np) u
     \<and> \<not> verifyPassword env u op (snd (ChangePassphrase env c u op np s))"
proof (cases rule: ChangePassphrase_cases [of env c u op np s])
  case refused
  with assms(2) show ?thesis by simp
next
  case changed
  then have q: "\<not> has_quote u" using key_no_quote by blast
  with changed(3) have "ae_db_ok env SelectPasswd" "select_user u s \<noteq> []"
    using verifyPassword_plain by blast+
  moreover have suc: "fst (changePassword env u np s)" using assms(2) changed(6) by simp
  ultimately show ?thesis
    using changed(3-5) by (simp add: changed(6) changePassword_verify [OF assms(1) suc q])
qed

theorem ChangePassphrase_correct_witness:
  "fst (ChangePassphrase sample_acc_env '':1'' ''sysadm'' (rev ''kylin.123'') (rev ''New.pass1'') sample_acc_in)
   \<and> verifyPassword sample_acc_env ''sysadm'' (rev ''New.pass1'')
       (snd (ChangePassphrase sample_acc_env '':1'' ''sysadm'' (rev ''kylin.123'') (rev ''New.pass1'') sample_acc_in))"
proof -
  have "fst (ChangePassphrase sample_acc_env '':1'' ''sysadm'' (rev ''kylin.123'') (rev ''New.pass1'') sample_acc_in)"
    by (simp add: ChangePassphrase_def Let_def getRole_def qm_value_def valueToKey_def verifyPassword_def
        select_user_def checkPassword_def contains_ci_def contains_def indexOf_def to_lower_def
        lower_char_def password_regex_def newline_def is_digit_def is_lower_def is_upper_def
        is_special_def changePassword_def sample_acc_defs)
  moreover have "\<And>p. aesDecrypt (ae_crypto sample_acc_env) (aesEncrypt (ae_crypto sample_acc_env) p) = p"
    by (simp add: sample_acc_defs)
  ultimately show ?thesis
    using ChangePassphrase_correct [of sample_acc_env "'':1''" "''sysadm''" "rev ''kylin.123''" "rev ''New.pass1''"
        sample_acc_in "''sysadm''" "rev ''New.pass1''"]
    by (metis (full_types))
qed



text \<open>What a quote in the name can do: a client logs in under a name that no row of the table has,
  with the role and the password that its own statement selects.\<close>

theorem quoted_name_login:
  assumes "has_quote u" "\<forall>st. \<not> ae_db_ok env st" "\<not> clientIsLogin (qm_value c (d_clients s))"
    and "\<forall>st. ae_injected env st = Some [r]" "u_tryTimes r < 5"
    and "keyToValue account_role_enum (u_role r) \<noteq> role_unknown"
    and "rsaDecrypt (ae_crypto env) p = aesDecrypt (ae_crypto env) (u_passwd r)"
  shows "fst (Login env c pid u p s)"
  using assms by (simp add: Login_success_iff getRoleFromDB_def verifyPassword_def isFreeze_def db_select_def Let_def)

end
