(* ===== verification/ConfigText.thy ===== *)
theory ConfigText
  imports QtCore
begin

text \<open>
  What the editors of configuration files share: \<open>lib/base/str-utils.cpp\<close>, \<open>lib/base/file-utils.cpp\<close> and
  \<open>file-lock.cpp\<close>, and the regular expressions of \<open>QRegExp\<close>. A text is its UTF-8 bytes.
\<close>

section \<open>Lines\<close>

abbreviation (input) "LF \<equiv> CHR 0x0A"
abbreviation (input) "CR \<equiv> CHR 0x0D"

function splitLines_from :: "string \<Rightarrow> string \<Rightarrow> string list" where
  "splitLines_from line [] = (if line = [] then [] else [line])"
| "splitLines_from line (c # s) =
     (if c = LF then line # splitLines_from [] s
      else if c = CR then line # splitLines_from [] (if s \<noteq> [] \<and> hd s = LF then tl s else s)
      else splitLines_from (line @ [c]) s)"
  by pat_completeness auto
termination
  by (relation "measure (\<lambda>(line, s). length s)") auto

definition splitLines :: "string \<Rightarrow> string list" where
  "splitLines s = splitLines_from [] s"

text \<open>What the editors put together again: every line with a newline.\<close>

definition put_lines :: "string list \<Rightarrow> string" where
  "put_lines ls = concat (map (\<lambda>l. l @ [LF]) ls)"

lemma put_lines_simps [simp]: "put_lines [] = []" "put_lines (l # ls) = l @ LF # put_lines ls"
  "put_lines (ls @ ms) = put_lines ls @ put_lines ms"
  by (simp_all add: put_lines_def)

lemma splitLines_from_line:
  "plain_line l \<Longrightarrow> splitLines_from line (l @ LF # s) = (line @ l) # splitLines_from [] s"
  by (induction l arbitrary: line) (auto simp: plain_line_def)

lemma splitLines_put: "\<forall>l \<in> set ls. plain_line l \<Longrightarrow> splitLines (put_lines ls) = ls"
  unfolding splitLines_def by (induction ls) (simp_all add: splitLines_from_line del: splitLines_from.simps(2))

lemma splitLines_from_subset:
  "plain_line line \<Longrightarrow> l \<in> set (splitLines_from line s) \<Longrightarrow> plain_line l \<and> set l \<subseteq> set line \<union> set s"
proof (induction line s rule: splitLines_from.induct)
  case (1 line)
  then show ?case by (simp split: if_splits)
next
  case (2 line c s)
  have rest: "set (if s \<noteq> [] \<and> hd s = LF then tl s else s) \<subseteq> set s" by (auto dest: list.set_sel(2))
  have start: "plain_line []" by (simp add: plain_line_def)
  consider (lf) "c = LF" | (cr) "c = CR" | (plain) "c \<noteq> LF" "c \<noteq> CR" by blast
  then show ?case
  proof cases
    case lf
    with 2(1) [OF lf start] 2(4,5) show ?thesis by auto
  next
    case cr
    then have "c \<noteq> LF" by simp
    with cr 2(2) [OF this cr start] 2(4,5) rest show ?thesis by auto
  next
    case plain
    have "plain_line (line @ [c])" using 2(4) plain by (simp add: plain_line_def)
    with plain 2(3) [OF plain this] 2(5) show ?thesis by auto
  qed
qed

lemma splitLines_plain: "l \<in> set (splitLines s) \<Longrightarrow> plain_line l"
  using splitLines_from_subset [of "[]" l s] by (simp add: splitLines_def plain_line_def)

section \<open>Trimming and splitting\<close>

definition ltrim :: "string \<Rightarrow> string" where
  "ltrim s = dropWhile is_space s"

definition rtrim :: "string \<Rightarrow> string" where
  "rtrim s = rev (dropWhile is_space (rev s))"

definition trim :: "string \<Rightarrow> string" where
  "trim s = ltrim (rtrim s)"

fun splitWithChar_from :: "string \<Rightarrow> char \<Rightarrow> bool \<Rightarrow> string \<Rightarrow> string list" where
  "splitWithChar_from part d merge [] = [part]"
| "splitWithChar_from part d merge (c # s) =
     (if c = d then (if part \<noteq> [] \<or> \<not> merge then [part] else []) @ splitWithChar_from [] d merge s
      else splitWithChar_from (part @ [c]) d merge s)"

definition splitWithChar :: "string \<Rightarrow> char \<Rightarrow> bool \<Rightarrow> string list" where
  "splitWithChar s delimiter is_merge_delimiter = splitWithChar_from [] delimiter is_merge_delimiter s"

definition startswith :: "string \<Rightarrow> string \<Rightarrow> bool" where
  "startswith str p \<longleftrightarrow> \<not> length str < length p \<and> take (length p) str = p"

definition intersect :: "string list \<Rightarrow> string list \<Rightarrow> string list" where
  "intersect a1 a2 = concat (map (\<lambda>x. map (\<lambda>y. x) (filter (\<lambda>y. x = y) a2)) a1)"

lemma startswith_prefix: "startswith str p \<longleftrightarrow> prefix p str"
  by (auto simp: startswith_def prefix_def) (metis append_take_drop_id)

lemma splitWithChar_plain: "d \<notin> set s \<Longrightarrow> splitWithChar_from part d m s = [part @ s]"
  by (induction s arbitrary: part) auto

lemma splitWithChar_cut: "d \<notin> set s \<Longrightarrow> splitWithChar_from part d False (s @ d # t) = (part @ s) # splitWithChar_from [] d False t"
  by (induction s arbitrary: part) auto

lemma set_intersect: "set (intersect a1 a2) = set a1 \<inter> set a2"
  by (auto simp: intersect_def)

section \<open>Files\<close>

text \<open>The length of a \<open>QString\<close>: its UTF-16 units, two for a character of four bytes.\<close>

definition utf16_length :: "string \<Rightarrow> nat" where
  "utf16_length t =
     length (filter (\<lambda>c. \<not> (128 \<le> (of_char c :: nat) \<and> (of_char c :: nat) < 192)) t) + length (filter (\<lambda>c. 240 \<le> (of_char c :: nat)) t)"

text \<open>\<open>writeContents\<close> hands over the bytes of the text with the length of the \<open>QString\<close>.\<close>

definition stored :: "string \<Rightarrow> string" where
  "stored t = take (utf16_length t) t"

datatype write_outcome = Written | NotOpened | NotWritten

text \<open>Whether a lock on the file is granted, and what happens when it is written.\<close>

record file_env =
  fe_lock :: bool
  fe_write :: write_outcome

definition writeContents :: "file_env \<Rightarrow> string \<Rightarrow> string option \<Rightarrow> bool \<times> string option" where
  "writeContents env contents f =
     (case fe_write env of
        Written \<Rightarrow> (True, Some (stored contents))
      | NotOpened \<Rightarrow> (False, f)
      | NotWritten \<Rightarrow> (False, Some []))"

definition readContentsWithLock :: "file_env \<Rightarrow> string option \<Rightarrow> string option" where
  "readContentsWithLock env f = (if fe_lock env then f else None)"

text \<open>An exclusive lock creates the file; what is then read from it.\<close>

definition locked_text :: "string option \<Rightarrow> string" where
  "locked_text f = (case f of None \<Rightarrow> [] | Some t \<Rightarrow> t)"

definition ascii :: "string \<Rightarrow> bool" where
  "ascii t \<longleftrightarrow> (\<forall>c \<in> set t. (of_char c :: nat) < 128)"

lemma stored_ascii: "ascii t \<Longrightarrow> stored t = t"
proof -
  assume "ascii t"
  then have "filter (\<lambda>c. \<not> (128 \<le> (of_char c :: nat) \<and> (of_char c :: nat) < 192)) t = t"
    by (intro filter_True) (force simp: ascii_def)
  then show ?thesis by (simp add: stored_def utf16_length_def)
qed

lemma ascii_simps [simp]:
  "ascii []" "ascii (s @ t) \<longleftrightarrow> ascii s \<and> ascii t" "ascii (c # t) \<longleftrightarrow> (of_char c :: nat) < 128 \<and> ascii t"
  by (auto simp: ascii_def)

lemma ascii_put_lines: "ascii (put_lines ls) \<longleftrightarrow> (\<forall>l \<in> set ls. ascii l)"
  by (induction ls) auto

lemma ascii_splitLines: "ascii s \<Longrightarrow> l \<in> set (splitLines s) \<Longrightarrow> ascii l"
  using splitLines_from_subset [of "[]" l s] by (auto simp: splitLines_def plain_line_def ascii_def)



section \<open>Regular expressions\<close>

text \<open>
  A regular expression, given the text before a place and the text from it, is the list of its matches at that
  place, in the order the engine prefers them: their lengths and the texts of their groups.
\<close>

type_synonym regex = "string \<Rightarrow> string \<Rightarrow> (nat \<times> string list) list"

definition rx_some :: "nat \<Rightarrow> (char \<Rightarrow> bool) \<Rightarrow> regex" where
  "rx_some k P b s = map (\<lambda>n. (n, [])) (rev [k..<Suc (length (takeWhile P s))])"

definition rx_spaces :: regex where "rx_spaces = rx_some 0 is_space"          \<comment> \<open>\<open>\s*\<close>\<close>
definition rx_spaces1 :: regex where "rx_spaces1 = rx_some 1 is_space"        \<comment> \<open>\<open>\s+\<close>\<close>
definition rx_word :: regex where "rx_word = rx_some 1 (\<lambda>c. \<not> is_space c)"    \<comment> \<open>\<open>\S+\<close>\<close>

definition rx_seq :: "regex \<Rightarrow> regex \<Rightarrow> regex" where
  "rx_seq x y b s = concat (map (\<lambda>(n, cs). map (\<lambda>(m, ds). (n + m, cs @ ds)) (y (b @ take n s) (drop n s))) (x b s))"

definition rx_group :: "regex \<Rightarrow> regex" where
  "rx_group x b s = map (\<lambda>(n, cs). (n, take n s # cs)) (x b s)"

text \<open>\<open>indexIn\<close>: the first place with a match, the length of the match and its groups.\<close>

definition rx_at :: "regex \<Rightarrow> string \<Rightarrow> string \<Rightarrow> (nat \<times> string list) option" where
  "rx_at x b s = find (\<lambda>(n, cs). n \<le> length s) (x b s)"

fun rx_find :: "regex \<Rightarrow> string \<Rightarrow> string \<Rightarrow> (nat \<times> nat \<times> string list) option" where
  "rx_find x b s =
     (case rx_at x b s of
        Some (n, cs) \<Rightarrow> Some (0, n, cs)
      | None \<Rightarrow> (case s of [] \<Rightarrow> None | c # s \<Rightarrow> map_option (\<lambda>(i, r). (Suc i, r)) (rx_find x (b @ [c]) s)))"

declare rx_find.simps [simp del]

text \<open>The text has a match somewhere.\<close>

definition rx_hits :: "regex \<Rightarrow> string \<Rightarrow> bool" where
  "rx_hits x l \<longleftrightarrow> rx_find x [] l \<noteq> None"

lemma rx_at_bound: "rx_at x b s = Some (n, cs) \<Longrightarrow> n \<le> length s"
  by (auto simp: rx_at_def find_Some_iff)

lemma rx_find_bound: "rx_find x b s = Some (i, n, cs) \<Longrightarrow> i + n \<le> length s"
proof (induction x b s arbitrary: i n cs rule: rx_find.induct)
  case (1 x b s)
  then show ?case
    by (subst (asm) (2) rx_find.simps) (fastforce split: option.splits list.splits dest: rx_at_bound)
qed

text \<open>\<open>QString::split\<close>; behind an empty match the search goes on one character later.\<close>

function rx_split_from :: "regex \<Rightarrow> string \<Rightarrow> string \<Rightarrow> nat \<Rightarrow> string list" where
  "rx_split_from x b s extra =
     (if extra > length s then [s]
      else case rx_find x (b @ take extra s) (drop extra s) of
             None \<Rightarrow> [s]
           | Some (i, n, cs) \<Rightarrow>
               take (extra + i) s # rx_split_from x (b @ take (extra + i + n) s) (drop (extra + i + n) s) (if n = 0 then 1 else 0))"
  by pat_completeness auto
termination
  by (relation "measure (\<lambda>(x, b, s, extra). 2 * length s + 1 - extra)") (auto dest: rx_find_bound)

declare rx_split_from.simps [simp del]

definition rx_split :: "regex \<Rightarrow> string \<Rightarrow> string list" where
  "rx_split x s = rx_split_from x [] s 0"

text \<open>\<open>QString::replace\<close>: every match, with the groups of the match for \<open>\1\<close>, \<open>\2\<close> (fewer than ten groups).\<close>

fun expand_refs :: "string list \<Rightarrow> string \<Rightarrow> string" where
  "expand_refs cs (c # d # s) =
     (case digit_val d of
        Some k \<Rightarrow> if c = CHR 0x5C \<and> 1 \<le> k \<and> k \<le> length cs then cs ! (k - 1) @ expand_refs cs s else c # expand_refs cs (d # s)
      | None \<Rightarrow> c # expand_refs cs (d # s))"
| "expand_refs cs s = s"

function rx_replace_from :: "regex \<Rightarrow> string \<Rightarrow> string \<Rightarrow> string \<Rightarrow> string" where
  "rx_replace_from x after b s =
     (case rx_find x b s of
        None \<Rightarrow> s
      | Some (i, n, cs) \<Rightarrow>
          if n = 0 then (if i < length s then take i s @ expand_refs cs after @ take 1 (drop i s)
                            @ rx_replace_from x after (b @ take (Suc i) s) (drop (Suc i) s)
                         else s @ expand_refs cs after)
          else take i s @ expand_refs cs after @ rx_replace_from x after (b @ take (i + n) s) (drop (i + n) s))"
  by pat_completeness auto
termination
  by (relation "measure (\<lambda>(x, after, b, s). length s)") (auto dest: rx_find_bound)

declare rx_replace_from.simps [simp del]

definition rx_replace :: "regex \<Rightarrow> string \<Rightarrow> string \<Rightarrow> string" where
  "rx_replace x after s = rx_replace_from x after [] s"

section \<open>Two fields with white space between them\<close>

definition word :: "string \<Rightarrow> bool" where
  "word t \<longleftrightarrow> t \<noteq> [] \<and> (\<forall>c \<in> set t. \<not> is_space c)"

definition spaces :: "string \<Rightarrow> bool" where
  "spaces t \<longleftrightarrow> (\<forall>c \<in> set t. is_space c)"

definition backslash_free :: "string \<Rightarrow> bool" where
  "backslash_free t \<longleftrightarrow> CHR 0x5C \<notin> set t"

lemma rx_some_prefix:
  assumes "\<forall>c \<in> set u. P c" and "v = [] \<or> \<not> P (hd v)" and "k \<le> length u"
  shows "\<exists>xs. rx_some k P b (u @ v) = (length u, []) # xs"
proof -
  have "takeWhile P (u @ v) = u" using assms(1,2) by (cases v) (auto simp: takeWhile_append)
  moreover have "rev [k..<Suc (length u)] = length u # rev [k..<length u]" using assms(3) by simp
  ultimately show ?thesis by (simp add: rx_some_def)
qed

lemma rx_some_none: "k = 1 \<Longrightarrow> s = [] \<or> \<not> P (hd s) \<Longrightarrow> rx_some k P b s = []"
  by (cases s) (auto simp: rx_some_def)

lemma rx_seq_first:
  assumes "x b s = (n, cs) # xs" and "y (b @ take n s) (drop n s) = (m, ds) # ys"
  shows "\<exists>zs. rx_seq x y b s = (n + m, cs @ ds) # zs"
  using assms by (simp add: rx_seq_def)

lemma rx_group_first: "x b s = (n, cs) # xs \<Longrightarrow> \<exists>zs. rx_group x b s = (n, take n s # cs) # zs"
  by (simp add: rx_group_def)

lemma rx_find_first: "x b s = (n, cs) # xs \<Longrightarrow> n \<le> length s \<Longrightarrow> rx_find x b s = Some (0, n, cs)"
  by (simp add: rx_find.simps [of x b s] rx_at_def)

lemma rx_find_never: "(\<And>b k. x b (drop k s) = []) \<Longrightarrow> rx_find x b s = None"
proof (induction s arbitrary: b)
  case Nil
  from Nil [of b 0] show ?case by (simp add: rx_find.simps [of x b "[]"] rx_at_def)
next
  case (Cons c s)
  have "rx_find x (b @ [c]) s = None" by (rule Cons.IH) (use Cons.prems [of _ "Suc _"] in simp)
  with Cons.prems [of b 0] show ?case by (simp add: rx_find.simps [of x b "c # s"] rx_at_def)
qed

lemma rx_find_spaces1:
  "rx_find rx_spaces1 b t = (if \<forall>c \<in> set t. \<not> is_space c then None
     else Some (length (takeWhile (\<lambda>c. \<not> is_space c) t), length (takeWhile is_space (dropWhile (\<lambda>c. \<not> is_space c) t)), []))"
proof (induction t arbitrary: b)
  case Nil
  show ?case by (simp add: rx_find.simps [of _ b "[]"] rx_at_def rx_spaces1_def rx_some_def)
next
  case (Cons c t)
  show ?case
  proof (cases "is_space c")
    case True
    let ?u = "takeWhile is_space (c # t)"
    have "\<exists>xs. rx_some 1 is_space b (?u @ dropWhile is_space (c # t)) = (length ?u, []) # xs"
      by (rule rx_some_prefix) (use True hd_dropWhile [of is_space "c # t"] in \<open>auto dest: set_takeWhileD\<close>)
    then obtain xs where "rx_spaces1 b (c # t) = (length ?u, []) # xs" unfolding rx_spaces1_def takeWhile_dropWhile_id by blast
    then have "rx_find rx_spaces1 b (c # t) = Some (0, length ?u, [])"
      by (rule rx_find_first) (simp add: length_takeWhile_le)
    with True show ?thesis by simp
  next
    case False
    then have "rx_at rx_spaces1 b (c # t) = None" by (simp add: rx_at_def rx_spaces1_def rx_some_none)
    with False Cons.IH [of "b @ [c]"] show ?thesis by (simp add: rx_find.simps [of _ b "c # t"])
  qed
qed

lemma split_spaces1:
  "rx_split_from rx_spaces1 b t 0 = (if \<forall>c \<in> set t. \<not> is_space c then [t]
     else takeWhile (\<lambda>c. \<not> is_space c) t
       # rx_split_from rx_spaces1 (b @ take (length t - length (dropWhile is_space (dropWhile (\<lambda>c. \<not> is_space c) t))) t)
           (dropWhile is_space (dropWhile (\<lambda>c. \<not> is_space c) t)) 0)"
proof (cases "\<forall>c \<in> set t. \<not> is_space c")
  case True
  then show ?thesis by (simp add: rx_split_from.simps [of _ b t 0] rx_find_spaces1)
next
  case False
  let ?k = "takeWhile (\<lambda>c. \<not> is_space c) t" and ?r = "dropWhile (\<lambda>c. \<not> is_space c) t"
  let ?w = "takeWhile is_space ?r" and ?u = "dropWhile is_space ?r"
  have t: "t = ?k @ ?w @ ?u" by simp
  have "?r \<noteq> []" using False by (auto simp: dropWhile_eq_Nil_conv)
  then have "?w \<noteq> []" using hd_dropWhile [of "\<lambda>c. \<not> is_space c" t] by (cases ?r) auto
  moreover have "drop (length ?k + length ?w) t = ?u" "take (length ?k) t = ?k" "length ?k + length ?w = length t - length ?u"
    by (metis t append_assoc append_eq_conv_conj length_append, metis t append_eq_conv_conj, metis t append_assoc length_append diff_add_inverse2)
  ultimately show ?thesis using False
    by (auto simp: rx_split_from.simps [of _ b t 0] rx_find_spaces1)
qed

lemma split_some:
  assumes "\<not> (\<forall>c \<in> set t. \<not> is_space c)"
  shows "\<exists>b'. rx_split_from rx_spaces1 b t 0 = takeWhile (\<lambda>c. \<not> is_space c) t
     # rx_split_from rx_spaces1 b' (dropWhile is_space (dropWhile (\<lambda>c. \<not> is_space c) t)) 0"
  unfolding split_spaces1 [of b t] if_not_P [OF assms] by blast

lemma split_none: "\<forall>c \<in> set t. \<not> is_space c \<Longrightarrow> rx_split_from rx_spaces1 b t 0 = [t]"
  unfolding split_spaces1 [of b t] by simp

lemma split_from_nonempty: "rx_split_from x b s e \<noteq> []"
  by (simp add: rx_split_from.simps [of x b s e] split: option.split)

text \<open>A line has two fields exactly when it is two words with white space around.\<close>

definition two_fields :: "string \<Rightarrow> string \<Rightarrow> string \<Rightarrow> bool" where
  "two_fields k v l \<longleftrightarrow> (\<exists>a w z. l = a @ k @ w @ v @ z \<and> spaces a \<and> spaces z \<and> spaces w \<and> w \<noteq> [] \<and> word k \<and> word v)"

lemma trim_fields:
  assumes "spaces a" and "spaces z" and "word k" and "word v"
  shows "trim (a @ k @ w @ v @ z) = k @ w @ v"
proof -
  have z: "dropWhile is_space (rev z @ xs) = dropWhile is_space xs" for xs using assms(2) by (auto simp: spaces_def dropWhile_append)
  have v: "dropWhile is_space (rev v @ xs) = rev v @ xs" for xs
  proof -
    have "rev v \<noteq> []" "\<not> is_space (hd (rev v))" using assms(4) by (simp_all add: word_def hd_rev)
    then show ?thesis by (cases "rev v") simp_all
  qed
  have a: "dropWhile is_space (a @ xs) = dropWhile is_space xs" for xs using assms(1) by (auto simp: spaces_def dropWhile_append)
  have k: "dropWhile is_space (k @ xs) = k @ xs" for xs using assms(3) by (cases k) (auto simp: word_def)
  show ?thesis by (simp add: trim_def ltrim_def rtrim_def z v a k)
qed

lemma word_split: "word v \<Longrightarrow> \<forall>c \<in> set v. \<not> is_space c" and word_nonempty: "word v \<Longrightarrow> v \<noteq> []"
  by (simp_all add: word_def)

lemma two_fields_split: "two_fields k v l \<Longrightarrow> rx_split rx_spaces1 (trim l) = [k, v]"
proof -
  assume "two_fields k v l"
  then obtain a w z where l: "l = a @ k @ w @ v @ z" "spaces a" "spaces z" "spaces w" "w \<noteq> []" "word k" "word v"
    unfolding two_fields_def by blast
  have k: "takeWhile (\<lambda>c. \<not> is_space c) (k @ w @ v) = k" "dropWhile (\<lambda>c. \<not> is_space c) (k @ w @ v) = w @ v"
    using l(4-6) by (cases w; auto simp: word_def spaces_def takeWhile_append dropWhile_append)+
  have w: "dropWhile is_space (w @ v) = v"
    using l(4,7) by (cases v) (auto simp: word_def spaces_def dropWhile_append)
  have "\<not> (\<forall>c \<in> set (k @ w @ v). \<not> is_space c)" using l(4,5) by (cases w) (auto simp: spaces_def)
  then obtain b where "rx_split_from rx_spaces1 [] (k @ w @ v) 0 = k # rx_split_from rx_spaces1 b v 0"
    using split_some [of "k @ w @ v" "[]"] unfolding k w by blast
  moreover have "rx_split_from rx_spaces1 b v 0 = [v]" by (rule split_none [OF word_split [OF l(7)]])
  ultimately show ?thesis unfolding rx_split_def l(1) trim_fields [OF l(2,3,6,7)] by simp
qed

lemma trim_parts: "\<exists>a z. l = a @ trim l @ z \<and> spaces a \<and> spaces z
    \<and> (trim l = [] \<or> \<not> is_space (hd (trim l)) \<and> \<not> is_space (last (trim l)))"
proof -
  let ?r = "dropWhile is_space (rev l)"
  have l: "l = rev ?r @ rev (takeWhile is_space (rev l))" by (metis rev_append rev_rev_ident takeWhile_dropWhile_id)
  have t: "rev ?r = takeWhile is_space (rev ?r) @ trim l" by (simp add: trim_def ltrim_def rtrim_def)
  have ends: "\<not> is_space (hd (trim l)) \<and> \<not> is_space (last (trim l))" if "trim l \<noteq> []"
  proof
    show "\<not> is_space (hd (trim l))" using that hd_dropWhile [of is_space "rtrim l"] unfolding trim_def ltrim_def by blast
    have "last (trim l) = last (rev ?r)" using t that by (metis last_appendR)
    moreover have "?r \<noteq> []" using that t by (metis append_Nil append_is_Nil_conv rev.simps(1))
    ultimately show "\<not> is_space (last (trim l))" using hd_dropWhile [of is_space "rev l"] by (simp add: last_rev)
  qed
  show ?thesis
  proof (intro exI conjI)
    show "l = takeWhile is_space (rev ?r) @ trim l @ rev (takeWhile is_space (rev l))" using l t by (metis append_assoc)
    show "spaces (takeWhile is_space (rev ?r))" "spaces (rev (takeWhile is_space (rev l)))"
      by (auto simp: spaces_def dest: set_takeWhileD)
    show "trim l = [] \<or> \<not> is_space (hd (trim l)) \<and> \<not> is_space (last (trim l))" using ends by blast
  qed
qed

lemma split_two_fields:
  assumes "rx_split rx_spaces1 (trim l) = [k, v]"
  shows "two_fields k v l"
proof -
  obtain t where t_def: "trim l = t" by blast
  obtain a z where l: "l = a @ t @ z" "spaces a" "spaces z"
    and ends: "t = [] \<or> \<not> is_space (hd t) \<and> \<not> is_space (last t)" using trim_parts [of l] unfolding t_def by blast
  have split: "rx_split rx_spaces1 t = [k, v]" using assms unfolding t_def .
  let ?k = "takeWhile (\<lambda>c. \<not> is_space c) t" and ?r = "dropWhile (\<lambda>c. \<not> is_space c) t"
  let ?w = "takeWhile is_space ?r" and ?u = "dropWhile is_space ?r"
  have some: "\<not> (\<forall>c \<in> set t. \<not> is_space c)"
  proof
    assume "\<forall>c \<in> set t. \<not> is_space c"
    then have "rx_split rx_spaces1 t = [t]" unfolding rx_split_def by (rule split_none)
    with split show False by simp
  qed
  obtain b where "rx_split rx_spaces1 t = ?k # rx_split_from rx_spaces1 b ?u 0"
    using split_some [OF some] unfolding rx_split_def by blast
  with split have k: "k = ?k" and u: "rx_split_from rx_spaces1 b ?u 0 = [v]" by simp_all
  have all: "\<forall>c \<in> set ?u. \<not> is_space c"
  proof (rule ccontr)
    assume "\<not> (\<forall>c \<in> set ?u. \<not> is_space c)"
    from split_some [OF this, of b] u show False by (auto simp: split_from_nonempty split_from_nonempty [symmetric])
  qed
  from u have v: "v = ?u" unfolding split_none [OF all] by simp
  have t: "t = ?k @ ?w @ ?u" by simp
  have r: "?r \<noteq> []" using some by (auto simp: dropWhile_eq_Nil_conv)
  have tne: "t \<noteq> []" using some by auto
  have "?k \<noteq> []" using ends tne by (cases t) auto
  moreover have "?w \<noteq> []" using r hd_dropWhile [of "\<lambda>c. \<not> is_space c" t] by (cases ?r) auto
  moreover have "?u \<noteq> []"
  proof
    assume none: "?u = []"
    have "last t = last ?w" using \<open>?w \<noteq> []\<close> t none by (metis append.right_neutral last_appendR)
    then have "is_space (last t)" using \<open>?w \<noteq> []\<close> last_in_set set_takeWhileD by metis
    with ends tne show False by blast
  qed
  moreover have "\<forall>c \<in> set ?k. \<not> is_space c" "\<forall>c \<in> set ?w. is_space c" using set_takeWhileD by fast+
  ultimately have "word k" "word v" "spaces ?w" "?w \<noteq> []"
    using all unfolding k v word_def spaces_def by blast+
  moreover have "l = a @ k @ ?w @ v @ z" using l(1) t unfolding k v by (metis append_assoc)
  ultimately show ?thesis using l(2,3) unfolding two_fields_def by blast
qed

text \<open>Replacing the second field with \<open>(\s*\S+\s+)(\S+)\<close>.\<close>

definition second_field_regex :: "regex \<Rightarrow> regex" where
  "second_field_regex pat = rx_seq (rx_group (rx_seq rx_spaces (rx_seq rx_word pat))) (rx_group rx_word)"

lemma expand_step: "c \<noteq> CHR 0x5C \<Longrightarrow> expand_refs cs (c # s) = c # expand_refs cs s"
  by (cases s) (simp_all split: option.split)

lemma expand_plain: "backslash_free t \<Longrightarrow> expand_refs cs t = t"
proof (induction t)
  case (Cons c t)
  then have "c \<noteq> CHR 0x5C" "backslash_free t" by (auto simp: backslash_free_def)
  then show ?case using Cons.IH expand_step [of c cs t] by metis
qed simp

lemma expand_first: "backslash_free t \<Longrightarrow> cs \<noteq> [] \<Longrightarrow> expand_refs cs (CHR 0x5C # CHR 0x31 # t) = hd cs @ t"
  by (cases cs) (simp_all add: digit_val_def expand_plain)

lemma not_space_hd: "word v \<Longrightarrow> v = [] \<or> \<not> is_space (hd v)" and space_hd: "spaces w \<Longrightarrow> w = [] \<or> \<not> \<not> is_space (hd w)"
  by (cases v; simp add: word_def) (cases w; simp add: spaces_def)

lemma second_field_at:
  assumes "spaces a" and "word k" and "spaces w" and "w \<noteq> []" and "word v" and "spaces z"
  shows "\<exists>xs. second_field_regex rx_spaces1 b (a @ k @ w @ v @ z) = (length (a @ k @ w @ v), [a @ k @ w, v]) # xs"
proof -
  let ?s = "a @ k @ w @ v @ z"
  have 1: "\<exists>xs. rx_spaces b ?s = (length a, []) # xs" for b unfolding rx_spaces_def
    by (rule rx_some_prefix) (use assms in \<open>auto simp: spaces_def word_def hd_append\<close>)
  have 2: "\<exists>xs. rx_word b (k @ w @ v @ z) = (length k, []) # xs" for b unfolding rx_word_def
    by (rule rx_some_prefix) (use assms in \<open>auto simp: spaces_def word_def hd_append Suc_le_eq\<close>)
  have 3: "\<exists>xs. rx_spaces1 b (w @ v @ z) = (length w, []) # xs" for b unfolding rx_spaces1_def
    by (rule rx_some_prefix) (use assms in \<open>auto simp: spaces_def word_def hd_append Suc_le_eq\<close>)
  have 4: "\<exists>xs. rx_word b (v @ z) = (length v, []) # xs" for b unfolding rx_word_def
    by (rule rx_some_prefix) (use assms space_hd [OF assms(6)] in \<open>auto simp: word_def Suc_le_eq\<close>)
  have 23: "\<exists>xs. rx_seq rx_word rx_spaces1 b (k @ w @ v @ z) = (length k + length w, []) # xs" for b
  proof -
    from 2 [of b] obtain xs where "rx_word b (k @ w @ v @ z) = (length k, []) # xs" by blast
    moreover from 3 [of "b @ k"] obtain ys where "rx_spaces1 (b @ k) (w @ v @ z) = (length w, []) # ys" by blast
    ultimately show ?thesis using rx_seq_first [of rx_word b "k @ w @ v @ z" "length k" "[]" xs rx_spaces1 "length w" "[]" ys] by simp
  qed
  have 123: "\<exists>xs. rx_seq rx_spaces (rx_seq rx_word rx_spaces1) b ?s = (length (a @ k @ w), []) # xs"
  proof -
    from 1 [of b] obtain xs where "rx_spaces b ?s = (length a, []) # xs" by blast
    moreover from 23 [of "b @ a"] obtain ys where "rx_seq rx_word rx_spaces1 (b @ a) (k @ w @ v @ z) = (length k + length w, []) # ys" by blast
    ultimately show ?thesis
      using rx_seq_first [of rx_spaces b ?s "length a" "[]" xs "rx_seq rx_word rx_spaces1" "length k + length w" "[]" ys] by simp
  qed
  then obtain xs where "rx_group (rx_seq rx_spaces (rx_seq rx_word rx_spaces1)) b ?s = (length (a @ k @ w), [a @ k @ w]) # xs"
    using rx_group_first [of "rx_seq rx_spaces (rx_seq rx_word rx_spaces1)" b ?s "length (a @ k @ w)" "[]"] by auto
  moreover from 4 [of "b @ a @ k @ w"] obtain ys where "rx_group rx_word (b @ a @ k @ w) (v @ z) = (length v, [v]) # ys"
    using rx_group_first [of rx_word "b @ a @ k @ w" "v @ z" "length v" "[]"] by auto
  ultimately show ?thesis
    using rx_seq_first [of "rx_group (rx_seq rx_spaces (rx_seq rx_word rx_spaces1))" b ?s "length (a @ k @ w)" "[a @ k @ w]" xs
        "rx_group rx_word" "length v" "[v]" ys]
    by (simp add: second_field_regex_def add.assoc)
qed

lemma second_field_none: "spaces z \<Longrightarrow> rx_find (second_field_regex pat) b z = None"
proof (rule rx_find_never)
  fix b k
  assume z: "spaces z"
  have none: "rx_word b' (drop m z) = []" for b' m
    unfolding rx_word_def
  proof (rule rx_some_none)
    have "spaces (drop m z)" using z in_set_dropD unfolding spaces_def by fast
    then show "drop m z = [] \<or> \<not> \<not> is_space (hd (drop m z))" by (rule space_hd)
  qed simp
  have "rx_seq rx_word pat b' (drop m z) = []" for b' m by (simp add: rx_seq_def none)
  then have "rx_seq rx_spaces (rx_seq rx_word pat) b (drop k z) = []" by (auto simp: rx_seq_def [of rx_spaces])
  then show "second_field_regex pat b (drop k z) = []" by (simp add: second_field_regex_def rx_seq_def rx_group_def)
qed

text \<open>The second field is exchanged, everything else stays as it is.\<close>

lemma replace_second_field:
  assumes "two_fields k v l" and "word x" and "backslash_free x"
  shows "two_fields k x (rx_replace (second_field_regex rx_spaces1) (CHR 0x5C # CHR 0x31 # x) l)"
    and "set (rx_replace (second_field_regex rx_spaces1) (CHR 0x5C # CHR 0x31 # x) l) \<subseteq> set l \<union> set x"
    and "hd (rx_replace (second_field_regex rx_spaces1) (CHR 0x5C # CHR 0x31 # x) l) = hd l"
proof -
  obtain a w z where l: "l = a @ k @ w @ v @ z" and parts: "spaces a" "spaces z" "spaces w" "w \<noteq> []" "word k" "word v"
    using assms(1) unfolding two_fields_def by blast
  obtain xs where "second_field_regex rx_spaces1 [] l = (length (a @ k @ w @ v), [a @ k @ w, v]) # xs"
    using second_field_at [OF parts(1,5,3,4,6,2), of "[]"] unfolding l by blast
  then have find: "rx_find (second_field_regex rx_spaces1) [] l = Some (0, length (a @ k @ w @ v), [a @ k @ w, v])"
    by (rule rx_find_first) (simp add: l)
  have rest: "rx_replace_from (second_field_regex rx_spaces1) (CHR 0x5C # CHR 0x31 # x) b z = z" for b
    using second_field_none [OF parts(2)] by (simp add: rx_replace_from.simps [of _ _ b z])
  have "rx_replace (second_field_regex rx_spaces1) (CHR 0x5C # CHR 0x31 # x) l = a @ k @ w @ x @ z"
    using parts(4) rest expand_first [OF assms(3), of "[a @ k @ w, v]"]
    by (simp add: rx_replace_def rx_replace_from.simps [of _ _ "[]" l] find) (simp add: l)
  then show "two_fields k x (rx_replace (second_field_regex rx_spaces1) (CHR 0x5C # CHR 0x31 # x) l)"
    "set (rx_replace (second_field_regex rx_spaces1) (CHR 0x5C # CHR 0x31 # x) l) \<subseteq> set l \<union> set x"
    "hd (rx_replace (second_field_regex rx_spaces1) (CHR 0x5C # CHR 0x31 # x) l) = hd l"
    using parts assms(2) word_nonempty [OF parts(5)] unfolding two_fields_def by (blast, auto simp: l hd_append)
qed

end
