(* ===== verification/MultiFactor.thy ===== *)
theory MultiFactor
  imports Account ConfigText
begin

text \<open>
  The switch of the multi-factor authentication in \<open>src/daemon/account/manager.cpp\<close>: the calls to the
  authentication service, the lines added to and removed from \<open>/etc/pam.d/system-auth\<close> and the two
  lines of \<open>/etc/pam.d/kiran-authentication-service\<close> that are put in and out of comments. The
  numbers of the authentication types come from a header outside the sources: they are parameters,
  as are the answers of the service and whether the files can be opened (both are opened for reading and
  writing, which creates a missing file).
\<close>

section \<open>Regular expressions of the source\<close>

definition rx_lit :: "string \<Rightarrow> regex" where
  "rx_lit t b s = (if prefix t s then [(length t, [])] else [])"

definition rx_one :: "(char \<Rightarrow> bool) \<Rightarrow> regex" where
  "rx_one P b s = (if s \<noteq> [] \<and> P (hd s) then [(1, [])] else [])"

definition rx_blanks :: regex where "rx_blanks = rx_some 1 (\<lambda>c. c = CHR '' '')"       \<comment> \<open>\<open>[ ]+\<close>\<close>
definition rx_dot :: regex where "rx_dot = rx_one (\<lambda>c. c \<noteq> CHR 0x0A)"                \<comment> \<open>\<open>.\<close> of \<open>QRegularExpression\<close>\<close>
definition rx_line :: regex where "rx_line = rx_some 0 (\<lambda>c. c \<noteq> CHR 0x0A)"            \<comment> \<open>\<open>.*\<close>\<close>

fun rx_seqs :: "regex list \<Rightarrow> regex" where
  "rx_seqs [] = rx_lit []"
| "rx_seqs [x] = x"
| "rx_seqs (x # y # ys) = rx_seq x (rx_seqs (y # ys))"

text \<open>\<open>.\<close> of \<open>QRegExp\<close> matches a newline too.\<close>

definition authReqFailLockDotSo :: regex where
  "authReqFailLockDotSo = rx_seqs [rx_lit ''auth'', rx_blanks, rx_lit ''requisite'', rx_blanks, rx_lit ''pam_faillock'',
     rx_one (\<lambda>c. True), rx_lit ''so'']"

definition authIncKiranAuthService :: regex where
  "authIncKiranAuthService = rx_seqs [rx_lit ''auth'', rx_blanks, rx_lit ''include'', rx_blanks,
     rx_lit (''kiran-authentication-service'' @ [CHR 0x0A])]"

definition accountIncKiranAuthService :: regex where
  "accountIncKiranAuthService = rx_seqs [rx_lit ''account'', rx_blanks, rx_lit ''include'', rx_blanks,
     rx_lit (''kiran-authentication-service'' @ [CHR 0x0A])]"

definition authSufPamUnixDotSO :: regex where
  "authSufPamUnixDotSO = rx_group (rx_group (rx_seqs [rx_lit ''auth'', rx_blanks, rx_lit ''sufficient'', rx_blanks,
     rx_lit ''pam_unix'', rx_dot, rx_lit ''so'']))"

definition accountReqPamUnixDotSO :: regex where
  "accountReqPamUnixDotSO = rx_group (rx_group (rx_seqs [rx_lit ''account'', rx_blanks, rx_lit ''required'', rx_blanks,
     rx_lit ''pam_unix'', rx_dot, rx_lit ''so'']))"

definition kiran_line :: "string \<Rightarrow> regex" where
  "kiran_line control = rx_seq (rx_group rx_line) (rx_group (rx_seqs [rx_lit ''auth'', rx_blanks, rx_lit control, rx_blanks,
     rx_lit ''pam_kiran_authentication'', rx_dot, rx_lit ''so'', rx_blanks, rx_lit ''doauth'']))"

definition multiWay :: regex where
  "multiWay = kiran_line ''[success=done ignore=2 default=bad authinfo_unavail=die]''"

definition multiFactor :: regex where
  "multiFactor = kiran_line ''[success=2 default=bad]''"

definition PAM_KIRAN_AUTH_CONFIG :: string where
  "PAM_KIRAN_AUTH_CONFIG = ''auth        include        kiran-authentication-service'' @ [CHR 0x0A]"

definition PAM_KIRAN_ACCOUNT_CONFIG :: string where
  "PAM_KIRAN_ACCOUNT_CONFIG = ''account     include       kiran-authentication-service'' @ [CHR 0x0A]"

section \<open>Edits of the two files\<close>

text \<open>\<open>QString::replace\<close> of a text, which is not empty here, by another.\<close>

function qs_replace :: "string \<Rightarrow> string \<Rightarrow> string \<Rightarrow> string" where
  "qs_replace before after s =
     (if s = [] then []
      else if before \<noteq> [] \<and> prefix before s then after @ qs_replace before after (drop (length before) s)
      else hd s # qs_replace before after (tl s))"
  by pat_completeness auto
termination
  by (relation "measure (\<lambda>(before, after, s). length s)") auto

declare qs_replace.simps [simp del]

datatype edit = Skip | Fail | Put string

definition enable_system :: "string \<Rightarrow> edit" where
  "enable_system t =
     (if rx_hits authIncKiranAuthService t \<or> rx_hits accountIncKiranAuthService t then Skip
      else case rx_find authSufPamUnixDotSO [] t of
             None \<Rightarrow> Fail
           | Some (_, _, g) \<Rightarrow>
               (let t = rx_replace authSufPamUnixDotSO (PAM_KIRAN_AUTH_CONFIG @ g ! 0) t
                in case rx_find accountReqPamUnixDotSO [] t of
                     None \<Rightarrow> Fail
                   | Some (_, _, h) \<Rightarrow> Put (rx_replace accountReqPamUnixDotSO (PAM_KIRAN_ACCOUNT_CONFIG @ h ! 0) t)))"

definition disable_system :: "string \<Rightarrow> edit" where
  "disable_system t =
     (if \<not> rx_hits authIncKiranAuthService t \<or> \<not> rx_hits accountIncKiranAuthService t then Skip
      else Put (rx_replace accountIncKiranAuthService [] (rx_replace authIncKiranAuthService [] t)))"

text \<open>The comment marks put before the two lines: \<open>#\<close> or nothing.\<close>

definition switch_kiran :: "string \<Rightarrow> string \<Rightarrow> string \<Rightarrow> edit" where
  "switch_kiran way factor t =
     (case rx_find multiWay [] t of
        None \<Rightarrow> Fail
      | Some (i, n, g) \<Rightarrow>
          (let t = qs_replace (take n (drop i t)) (way @ g ! 1) t
           in case rx_find multiFactor [] t of
                None \<Rightarrow> Fail
              | Some (i, n, g) \<Rightarrow> Put (qs_replace (take n (drop i t)) (factor @ g ! 1) t)))"

section \<open>State and methods\<close>

record mfa = acc +
  mf_system :: string
  mf_kiran :: string
  mf_types :: "(int \<times> bool) list"     \<comment> \<open>the calls of \<open>SetAuthTypeEnabled\<close>\<close>
  mf_state :: bool

record kad =
  kad_fingerprint :: int
  kad_face :: int
  kad_ukey :: int
  kad_fingervein :: int
  kad_iris :: int

record mfa_env =
  me_kad :: kad
  me_set :: "int \<Rightarrow> bool \<Rightarrow> bool"          \<comment> \<open>the call is answered\<close>
  me_app_types :: "int list option"       \<comment> \<open>\<open>GetAuthTypeByApp\<close>, \<open>None\<close> for an error\<close>
  me_ukey_enabled :: "bool option"        \<comment> \<open>\<open>GetAuthTypeEnabled\<close>\<close>
  me_open_system :: bool
  me_open_kiran :: bool

definition auth_types :: "mfa_env \<Rightarrow> int list" where
  "auth_types env = (let k = me_kad env in [kad_fingerprint k, kad_face k, kad_ukey k, kad_fingervein k, kad_iris k])"

definition setAuthType :: "bool \<Rightarrow> int \<Rightarrow> 'a mfa_scheme \<Rightarrow> 'a mfa_scheme" where
  "setAuthType enabled t s = s\<lparr>mf_types := mf_types s @ [(t, enabled)]\<rparr>"

definition disableAuthType :: "int list \<Rightarrow> 'a mfa_scheme \<Rightarrow> 'a mfa_scheme" where
  "disableAuthType ts s = fold (setAuthType False) ts s"

definition enableAuthType :: "int list \<Rightarrow> 'a mfa_scheme \<Rightarrow> 'a mfa_scheme" where
  "enableAuthType ts s = fold (setAuthType True) ts s"

definition mfa_fail :: "string \<Rightarrow> 'a mfa_scheme \<Rightarrow> 'a mfa_scheme" where
  "mfa_fail caller s = act (ReplyError caller ERROR_ACCOUNT_FAILED_SET_MULTI_FACTOR_AUTH_STATE) s"

text \<open>\<open>system-auth\<close> is truncated before it is written; the other file is written over from its start.\<close>

definition write_system :: "string \<Rightarrow> 'a mfa_scheme \<Rightarrow> 'a mfa_scheme" where
  "write_system t s = s\<lparr>mf_system := t\<rparr>"

definition write_kiran :: "string \<Rightarrow> 'a mfa_scheme \<Rightarrow> 'a mfa_scheme" where
  "write_kiran t s = s\<lparr>mf_kiran := t @ drop (length t) (mf_kiran s)\<rparr>"

definition edit_kiran :: "mfa_env \<Rightarrow> string \<Rightarrow> string \<Rightarrow> string \<Rightarrow> 'a mfa_scheme \<Rightarrow> 'a mfa_scheme" where
  "edit_kiran env way factor caller s =
     (if \<not> me_open_kiran env then mfa_fail caller s
      else case switch_kiran way factor (mf_kiran s) of
             Put t \<Rightarrow> write_kiran t s
           | _ \<Rightarrow> mfa_fail caller s)"

definition disableMultiFactorAuthState :: "mfa_env \<Rightarrow> string \<Rightarrow> 'a mfa_scheme \<Rightarrow> 'a mfa_scheme" where
  "disableMultiFactorAuthState env caller s =
     (let s = enableAuthType (auth_types env) s
      in if \<not> me_open_system env then mfa_fail caller s
         else case disable_system (mf_system s) of
                Put t \<Rightarrow> edit_kiran env [] ''#'' caller (write_system t s)
              | _ \<Rightarrow> s)"

definition enableMultiFactorAuthState :: "mfa_env \<Rightarrow> string \<Rightarrow> 'a mfa_scheme \<Rightarrow> 'a mfa_scheme" where
  "enableMultiFactorAuthState env caller s =
     (let s = disableAuthType (auth_types env) s;
          ukey = kad_ukey (me_kad env);
          s = setAuthType True ukey s
      in if \<not> me_set env ukey True then mfa_fail caller s
         else if \<not> me_open_system env then mfa_fail caller s
         else case enable_system (mf_system s) of
                Skip \<Rightarrow> s
              | Fail \<Rightarrow> mfa_fail caller s
              | Put t \<Rightarrow> edit_kiran env ''#'' [] caller (write_system t s))"

definition SetMultiFactorAuthState :: "mfa_env \<Rightarrow> string \<Rightarrow> bool \<Rightarrow> 'a mfa_scheme \<Rightarrow> 'a mfa_scheme" where
  "SetMultiFactorAuthState env caller enabled s =
     (if getRole caller s = role_unknown
      then act (ReplyError caller ERROR_ACCOUNT_PERMISSION_DENIED)
             (SSR_LOG_ERROR log_TOOL_BOX ''Permission Denied'' caller s)
      else
        let s = SSR_LOG_SUCCESS log_TOOL_BOX
                  (if enabled then ''Enable Multi-Factor Authentication'' else ''Disable Multi-Factor Authentication'') caller s
        in if enabled then enableMultiFactorAuthState env caller s else disableMultiFactorAuthState env caller s)"

text \<open>What the constructor asks once; the method answers from that.\<close>

definition getMultiFactorAuthState :: "mfa_env \<Rightarrow> 'a mfa_scheme \<Rightarrow> bool" where
  "getMultiFactorAuthState env s =
     (case me_app_types env of
        None \<Rightarrow> False
      | Some ret \<Rightarrow>
          if kad_ukey (me_kad env) \<notin> set ret then False
          else case me_ukey_enabled env of
                 None \<Rightarrow> False
               | Some False \<Rightarrow> False
               | Some True \<Rightarrow>
                   if \<not> me_open_system env then False
                   else if \<not> rx_hits authReqFailLockDotSo (mf_system s) then False
                   else if \<not> rx_hits authIncKiranAuthService (mf_system s) then False
                   else if \<not> rx_hits accountIncKiranAuthService (mf_system s) then False
                   else True)"

definition mfa_init :: "mfa_env \<Rightarrow> 'a mfa_scheme \<Rightarrow> 'a mfa_scheme" where
  "mfa_init env s = s\<lparr>mf_state := getMultiFactorAuthState env s\<rparr>"

definition GetMultiFactorAuthState :: "'a mfa_scheme \<Rightarrow> bool" where
  "GetMultiFactorAuthState s = mf_state s"

section \<open>What a replacement leaves\<close>

lemma rx_hits_context:
  assumes "\<And>b. rx_at x b (w @ v) \<noteq> None"
  shows "rx_find x b (u @ w @ v) \<noteq> None"
proof (induction u arbitrary: b)
  case Nil
  then show ?case using assms [of b] by (auto simp: rx_find.simps [of x b "w @ v"])
next
  case (Cons c u)
  have "rx_find x (b @ [c]) (u @ w @ v) \<noteq> None" by (rule Cons.IH)
  then show ?case by (subst rx_find.simps) (auto split: option.split)
qed

text \<open>A replacement with a match puts the new text somewhere.\<close>

lemma rx_replace_puts:
  assumes "rx_find x [] s = Some (i, n, cs)"
  shows "\<exists>u v. rx_replace x after s = u @ expand_refs cs after @ v"
proof -
  let ?r = "rx_replace_from x after"
  consider "n = 0" "i < length s" | "n = 0" "\<not> i < length s" | "n \<noteq> 0" by blast
  then show ?thesis
  proof cases
    case 1
    then show ?thesis using assms
      by (intro exI [of _ "take i s"] exI [of _ "take 1 (drop i s) @ ?r (take (Suc i) s) (drop (Suc i) s)"])
        (simp add: rx_replace_def rx_replace_from.simps [of x after "[]" s])
  next
    case 2
    then show ?thesis using assms
      by (intro exI [of _ s] exI [of _ "[]"]) (simp add: rx_replace_def rx_replace_from.simps [of x after "[]" s])
  next
    case 3
    then show ?thesis using assms
      by (intro exI [of _ "take i s"] exI [of _ "?r (take (i + n) s) (drop (i + n) s)"])
        (simp add: rx_replace_def rx_replace_from.simps [of x after "[]" s])
  qed
qed

lemma expand_front: "backslash_free t \<Longrightarrow> expand_refs cs (t @ u) = t @ expand_refs cs u"
proof (induction t)
  case (Cons c t)
  then have "c \<noteq> CHR 0x5C" "backslash_free t" by (auto simp: backslash_free_def)
  then show ?case using Cons.IH expand_step [of c cs "t @ u"] by simp
qed simp

lemma account_line_matches: "rx_at accountIncKiranAuthService b (PAM_KIRAN_ACCOUNT_CONFIG @ v) \<noteq> None"
  by (simp add: rx_at_def accountIncKiranAuthService_def PAM_KIRAN_ACCOUNT_CONFIG_def rx_seq_def rx_lit_def rx_blanks_def rx_some_def
      upt_rec)

text \<open>Once the lines are in, the edit is skipped from then on.\<close>

lemma enabled_system_stays:
  assumes "enable_system t = Put t'"
  shows "enable_system t' = Skip"
proof -
  from assms obtain t1 i n h where f: "rx_find accountReqPamUnixDotSO [] t1 = Some (i, n, h)"
    and t': "t' = rx_replace accountReqPamUnixDotSO (PAM_KIRAN_ACCOUNT_CONFIG @ h ! 0) t1"
    by (auto simp: enable_system_def Let_def split: if_splits option.splits)
  obtain u v where "t' = u @ expand_refs h (PAM_KIRAN_ACCOUNT_CONFIG @ h ! 0) @ v"
    using rx_replace_puts [OF f] t' by blast
  moreover have "backslash_free PAM_KIRAN_ACCOUNT_CONFIG"
    by (simp add: backslash_free_def PAM_KIRAN_ACCOUNT_CONFIG_def)
  ultimately have "t' = u @ PAM_KIRAN_ACCOUNT_CONFIG @ expand_refs h (h ! 0) @ v"
    by (simp add: expand_front)
  then have "rx_hits accountIncKiranAuthService t'"
    using rx_hits_context [OF account_line_matches] by (simp add: rx_hits_def)
  then show ?thesis by (simp add: enable_system_def)
qed

section \<open>Enabling\<close>

lemma setAuthType_fields [simp]:
  "mf_system (setAuthType e t s) = mf_system s" "mf_kiran (setAuthType e t s) = mf_kiran s"
  "mf_state (setAuthType e t s) = mf_state s" "d_effects (setAuthType e t s) = d_effects s"
  by (simp_all add: setAuthType_def)

lemma setAuthTypes_fields [simp]:
  "mf_system (fold (setAuthType e) ts s) = mf_system s" "mf_kiran (fold (setAuthType e) ts s) = mf_kiran s"
  "mf_state (fold (setAuthType e) ts s) = mf_state s" "d_effects (fold (setAuthType e) ts s) = d_effects s"
  by (induction ts arbitrary: s) simp_all

lemma mfa_act [simp]:
  "mf_system (act e s) = mf_system s" "mf_kiran (act e s) = mf_kiran s" "mf_state (act e s) = mf_state s"
  "mf_types (act e s) = mf_types s"
  by (simp_all add: act_def)

lemma mfa_log [simp]:
  "mf_system (SSR_LOG t m r c s) = mf_system s" "mf_kiran (SSR_LOG t m r c s) = mf_kiran s"
  "mf_state (SSR_LOG t m r c s) = mf_state s"
  by (simp_all add: SSR_LOG_def write_log_def)

text \<open>A call that finds the lines in \<open>system-auth\<close> changes neither file.\<close>

lemma enable_skips:
  assumes "enable_system (mf_system s) = Skip"
  shows "mf_system (enableMultiFactorAuthState env caller s) = mf_system s"
    and "mf_kiran (enableMultiFactorAuthState env caller s) = mf_kiran s"
  using assms by (simp_all add: enableMultiFactorAuthState_def mfa_fail_def disableAuthType_def Let_def)

lemma edit_kiran_fields:
  "mf_system (edit_kiran env a b caller s) = mf_system s" "mf_state (edit_kiran env a b caller s) = mf_state s"
  by (simp_all add: edit_kiran_def mfa_fail_def write_kiran_def split: edit.split)

lemma enable_writes:
  assumes "mf_system (enableMultiFactorAuthState env caller s) \<noteq> mf_system s"
  shows "enable_system (mf_system (enableMultiFactorAuthState env caller s)) = Skip"
proof -
  from assms obtain t where t: "enable_system (mf_system s) = Put t" and ok: "me_set env (kad_ukey (me_kad env)) True" "me_open_system env"
    by (cases "enable_system (mf_system s)")
      (auto simp: enableMultiFactorAuthState_def mfa_fail_def disableAuthType_def Let_def split: if_splits)
  then have "mf_system (enableMultiFactorAuthState env caller s) = t"
    by (simp add: enableMultiFactorAuthState_def disableAuthType_def edit_kiran_fields write_system_def Let_def)
  with enabled_system_stays [OF t] show ?thesis by simp
qed

text \<open>A call that is answered with an error: where it stopped.\<close>

lemma enable_error:
  assumes "d_effects (enableMultiFactorAuthState env caller s) \<noteq> d_effects s"
  shows "d_effects (enableMultiFactorAuthState env caller s)
        = d_effects s @ [ReplyError caller ERROR_ACCOUNT_FAILED_SET_MULTI_FACTOR_AUTH_STATE]"
    and "mf_kiran (enableMultiFactorAuthState env caller s) = mf_kiran s"
    and "mf_system (enableMultiFactorAuthState env caller s) = mf_system s
       \<or> \<not> me_open_kiran env \<or> (\<forall>t. switch_kiran ''#'' [] (mf_kiran s) \<noteq> Put t)"
  using assms
  by (auto simp: enableMultiFactorAuthState_def mfa_fail_def disableAuthType_def edit_kiran_def write_system_def
      write_kiran_def act_def Let_def split: if_splits edit.splits)

lemma mfa_state_stale: "GetMultiFactorAuthState (SetMultiFactorAuthState env caller enabled s) = GetMultiFactorAuthState s"
  by (simp add: GetMultiFactorAuthState_def SetMultiFactorAuthState_def enableMultiFactorAuthState_def disableMultiFactorAuthState_def
      mfa_fail_def disableAuthType_def enableAuthType_def edit_kiran_fields write_system_def Let_def split: edit.split)

section \<open>Properties\<close>

definition mfa_calls :: "(mfa_env \<times> string) list \<Rightarrow> 'a mfa_scheme \<Rightarrow> 'a mfa_scheme" where
  "mfa_calls calls s = fold (\<lambda>(env, caller). enableMultiFactorAuthState env caller) calls s"

lemma enable_again:
  "enable_system (mf_system s) = Skip \<Longrightarrow> mf_system (mfa_calls calls s) = mf_system s \<and> mf_kiran (mfa_calls calls s) = mf_kiran s"
proof (induction calls arbitrary: s)
  case (Cons c calls)
  obtain env caller where c: "c = (env, caller)" by (cases c)
  have "mfa_calls (c # calls) s = mfa_calls calls (enableMultiFactorAuthState env caller s)" by (simp add: mfa_calls_def c)
  then show ?case using Cons enable_skips [OF Cons.prems, of env caller] by simp
qed (simp add: mfa_calls_def)

text \<open>C6: A half-done switch cannot be repeated: when a call to enable the multi-factor authentication
  is answered with an error, wherever it stopped, it is this one error and the file of the kiran service
  is as it was; and if it had already changed \<open>system-auth\<close>, because that file could not be opened or
  one of its two lines was not found, then every further call to enable it, whatever the system
  answers, leaves both files as they are.\<close>

theorem half_enabled_stays:
  assumes "d_effects (enableMultiFactorAuthState env caller s) \<noteq> d_effects s"
  shows "d_effects (enableMultiFactorAuthState env caller s)
        = d_effects s @ [ReplyError caller ERROR_ACCOUNT_FAILED_SET_MULTI_FACTOR_AUTH_STATE]
     \<and> mf_kiran (enableMultiFactorAuthState env caller s) = mf_kiran s
     \<and> (mf_system (enableMultiFactorAuthState env caller s) = mf_system s
        \<or> (\<not> me_open_kiran env \<or> (\<forall>t. switch_kiran ''#'' [] (mf_kiran s) \<noteq> Put t))
          \<and> mf_system (mfa_calls calls (enableMultiFactorAuthState env caller s))
              = mf_system (enableMultiFactorAuthState env caller s)
          \<and> mf_kiran (mfa_calls calls (enableMultiFactorAuthState env caller s)) = mf_kiran s)"
proof -
  let ?s = "enableMultiFactorAuthState env caller s"
  have "d_effects ?s = d_effects s @ [ReplyError caller ERROR_ACCOUNT_FAILED_SET_MULTI_FACTOR_AUTH_STATE]"
    and k: "mf_kiran ?s = mf_kiran s" using enable_error [OF assms] by simp_all
  moreover have "mf_system ?s = mf_system s \<or> (\<not> me_open_kiran env \<or> (\<forall>t. switch_kiran ''#'' [] (mf_kiran s) \<noteq> Put t))"
    using enable_error(3) [OF assms] by blast
  moreover have "mf_system ?s = mf_system s \<or>
      mf_system (mfa_calls calls ?s) = mf_system ?s \<and> mf_kiran (mfa_calls calls ?s) = mf_kiran s"
    using enable_again [OF enable_writes, of env caller s calls] k by auto
  ultimately show ?thesis by blast
qed

definition sample_mfa_env :: mfa_env where
  "sample_mfa_env = \<lparr>me_kad = \<lparr>kad_fingerprint = 1, kad_face = 2, kad_ukey = 3, kad_fingervein = 4, kad_iris = 5\<rparr>,
     me_set = \<lambda>_ _. True, me_app_types = Some [3], me_ukey_enabled = Some True, me_open_system = True, me_open_kiran = False\<rparr>"

definition sample_system :: string where
  "sample_system = ''auth sufficient pam_unix.so'' @ [CHR 0x0A] @ ''account required pam_unix.so''"

definition sample_mfa :: mfa where
  "sample_mfa = acc.extend sample_acc_in \<lparr>mf_system = sample_system, mf_kiran = [], mf_types = [], mf_state = False\<rparr>"

lemma sample_enable:
  "enable_system sample_system = Put (PAM_KIRAN_AUTH_CONFIG @ ''auth sufficient pam_unix.so'' @ [CHR 0x0A]
     @ PAM_KIRAN_ACCOUNT_CONFIG @ ''account required pam_unix.so'')"
  by code_simp

lemma sample_mfa_changes:
  "mf_system (enableMultiFactorAuthState sample_mfa_env '':1'' sample_mfa) \<noteq> mf_system sample_mfa"
  by (simp add: enableMultiFactorAuthState_def disableAuthType_def edit_kiran_def mfa_fail_def write_system_def
      sample_mfa_env_def Let_def sample_mfa_def acc.extend_def sample_enable)
    (simp add: sample_system_def PAM_KIRAN_AUTH_CONFIG_def)

theorem half_enabled_stays_witness:
  "mf_kiran (mfa_calls [(sample_mfa_env\<lparr>me_open_kiran := True\<rparr>, '':1'')]
      (enableMultiFactorAuthState sample_mfa_env '':1'' sample_mfa)) = []"
proof -
  let ?s = "enableMultiFactorAuthState sample_mfa_env '':1'' sample_mfa"
  have "enable_system (mf_system sample_mfa) = Put (PAM_KIRAN_AUTH_CONFIG @ ''auth sufficient pam_unix.so'' @ [CHR 0x0A]
     @ PAM_KIRAN_ACCOUNT_CONFIG @ ''account required pam_unix.so'')"
    unfolding sample_enable [symmetric] by (simp add: sample_mfa_def acc.extend_def)
  then have "d_effects ?s \<noteq> d_effects sample_mfa"
    by (simp add: enableMultiFactorAuthState_def disableAuthType_def edit_kiran_def mfa_fail_def write_system_def
        sample_mfa_env_def act_def Let_def)
  from half_enabled_stays [OF this, of "[(sample_mfa_env\<lparr>me_open_kiran := True\<rparr>, '':1'')]"] sample_mfa_changes
  show ?thesis by (simp add: sample_mfa_def acc.extend_def)
qed

text \<open>The file of the kiran service never gets shorter: behind a shorter new text the end of the old one stays.\<close>

lemma kiran_never_shrinks: "length (mf_kiran (write_kiran t s)) \<ge> length (mf_kiran s)"
  by (simp add: write_kiran_def)

end
