(* ===== verification/DmConfig.thy ===== *)
theory DmConfig
  imports Daemon
begin

text \<open>
  Device management, first part: the state of the component and
  \<open>src/daemon/dm/configuration.cpp\<close>, \<open>udev-rule-manager.cpp\<close>: the settings of the devices
  and of the interfaces, the udev rules generated from them, the switches of bluetooth and of
  the network, and the rewriting of the boot loader's options by a background thread.

  \<open>dm_env\<close> is what one event finds outside the daemon: the build flag \<open>_345_GC_\<close>, which
  paths can be opened for writing, what \<open>grub2-mkconfig\<close> makes of the defaults file, the devices
  systemd's library lists, the text of the mount table, and Qt's JSON parser.
\<close>

section \<open>State\<close>

record permission =
  p_read :: bool
  p_write :: bool
  p_execute :: bool

datatype device_class = USBDevice | DRMDevice

record device =
  dv_class :: device_class
  dv_id :: string
  dv_name :: string
  dv_syspath :: string
  dv_type :: DeviceType
  dv_interfaceType :: int
  dv_state :: DeviceState
  dv_permission :: permission
  dv_connectedTime :: int
  dv_idProduct :: string
  dv_idVendor :: string
  dv_manufacturer :: string
  dv_product :: string
  dv_uid :: string

record device_setting =
  ds_uid :: string
  ds_id :: string
  ds_name :: string
  ds_idVendor :: string
  ds_idProduct :: string
  ds_read :: bool
  ds_write :: bool
  ds_execute :: bool
  ds_enable :: bool
  ds_type :: int
  ds_interfaceType :: int

record device_rule =
  dr_idVendor :: string
  dr_idProduct :: string
  dr_read :: bool
  dr_write :: bool
  dr_execute :: bool
  dr_interfaceType :: int

record device_mount =
  dm_device :: string
  dm_path :: string
  dm_read :: bool
  dm_write :: bool
  dm_execute :: bool

text \<open>\<open>m_grubUpdateThread\<close>: the pointer is null, or points to a thread that runs or has ended.\<close>

datatype grub_thread = NoThread | ThreadRunning | ThreadFinished

record dm = daemon +
  dm_deviceSettings :: qsettings
  dm_interfaceSettings :: qsettings
  dm_isEnableHDMI :: bool
  dm_waitingUpdateGrub :: bool
  dm_grubUpdateThread :: grub_thread
  dm_rules :: "device_rule list"
  dm_devices :: "(string, device) qmap"
  dm_monitored :: "(string, unit) qmap"
  dm_mounts :: "(string, device_mount) qmap"
  dm_connectLog :: qsettings
  dm_descs :: "(string, string) qmap"
  dm_files :: files

text \<open>A device of systemd's library: every query may fail, which gives the null string.\<close>

record sd_device =
  sd_syspath :: qstring
  sd_subsystem :: qstring
  sd_devtype :: qstring
  sd_devname :: qstring
  sd_sysname :: qstring
  sd_sysattr :: "string \<Rightarrow> qstring"

record dm_env =
  de_gc :: bool
  de_can_write :: "string \<Rightarrow> bool"
  de_mkconfig :: "string option \<Rightarrow> string option"
  de_devices :: "sd_device list"
  de_from_syspath :: "string \<Rightarrow> sd_device"
  de_exists :: "string \<Rightarrow> bool"
  de_now_ms :: int
  de_mount_file :: "string option"
  de_parse_json :: "string \<Rightarrow> json option"

abbreviation (input) "SSR_DI_GRUB_FILE \<equiv> ''/etc/default/grub''"
abbreviation (input) "SSR_DEVICE_UDEV_RULES_FILE \<equiv> ''/etc/udev/rules.d/99-ssr-device.rules''"
abbreviation (input) "TMP_GRUB_CFG_FILE_PATH \<equiv> ''/tmp/ks-ssr/grub.cfg''"
abbreviation (input) "GRUB_LEGACY_FILE_PATH \<equiv> ''/boot/grub2/grub.cfg''"
abbreviation (input) "GRUB_EFI_FILE_PATH \<equiv> ''/boot/efi/EFI/KylinSecOS/grub.cfg''"

section \<open>Settings of the devices\<close>

definition putSetting :: "device_setting \<Rightarrow> qsettings \<Rightarrow> qsettings" where
  "putSetting x s =
     s_setValue (ds_uid x) ''enable'' (VBool (ds_enable x))
    (s_setValue (ds_uid x) ''execute'' (VBool (ds_execute x))
    (s_setValue (ds_uid x) ''write'' (VBool (ds_write x))
    (s_setValue (ds_uid x) ''read'' (VBool (ds_read x))
    (s_setValue (ds_uid x) ''interfaceType'' (VInt (ds_interfaceType x))
    (s_setValue (ds_uid x) ''type'' (VInt (ds_type x))
    (s_setValue (ds_uid x) ''idVendor'' (VStr (ds_idVendor x))
    (s_setValue (ds_uid x) ''idProduct'' (VStr (ds_idProduct x))
    (s_setValue (ds_uid x) ''name'' (VStr (ds_name x))
    (s_setValue (ds_uid x) ''id'' (VStr (ds_id x)) s)))))))))"

definition getDeviceSetting :: "string \<Rightarrow> qsettings \<Rightarrow> device_setting option" where
  "getDeviceSetting uid s =
     (if uid \<notin> set (s_childGroups s) then None
      else Some \<lparr>ds_uid = uid,
                 ds_id = v_toString (s_value uid ''id'' s),
                 ds_name = v_toString (s_value uid ''name'' s),
                 ds_idVendor = v_toString (s_value uid ''idVendor'' s),
                 ds_idProduct = v_toString (s_value uid ''idProduct'' s),
                 ds_read = v_toBool (s_value uid ''read'' s),
                 ds_write = v_toBool (s_value uid ''write'' s),
                 ds_execute = v_toBool (s_value uid ''execute'' s),
                 ds_enable = v_toBool (s_value uid ''enable'' s),
                 ds_type = v_toInt (s_value uid ''type'' s),
                 ds_interfaceType = v_toInt (s_value uid ''interfaceType'' s)\<rparr>)"

definition getDeviceSettings :: "qsettings \<Rightarrow> device_setting list" where
  "getDeviceSettings s = List.map_filter (\<lambda>group. getDeviceSetting group s) (s_childGroups s)"

section \<open>Udev rules\<close>

definition find_rule :: "string \<Rightarrow> string \<Rightarrow> device_rule list \<Rightarrow> device_rule option" where
  "find_rule idVendor idProduct rules =
     List.find (\<lambda>r. dr_idVendor r = idVendor \<and> dr_idProduct r = idProduct) rules"

fun rules_loop :: "device_setting list \<Rightarrow> device_rule list \<Rightarrow> device_rule list" where
  "rules_loop [] rules = rules"
| "rules_loop (x # xs) rules =
     (if ds_enable x \<or> find_rule (ds_idVendor x) (ds_idProduct x) rules \<noteq> None then rules_loop xs rules
      else rules_loop xs (rules @ [\<lparr>dr_idVendor = ds_idVendor x, dr_idProduct = ds_idProduct x,
             dr_read = ds_read x, dr_write = ds_write x, dr_execute = ds_execute x,
             dr_interfaceType = ds_interfaceType x\<rparr>]))"

definition getUdevModeValue :: "device_rule \<Rightarrow> string" where
  "getUdevModeValue r =
     (let permission = of_bool (dr_read r) * 4 + of_bool (dr_write r) * 2 + of_bool (dr_execute r) * 1 :: int
      in ''0'' @ show_int permission @ show_int permission @ show_int permission)"

definition rulleObj2Str :: "device_rule \<Rightarrow> qstring" where
  "rulleObj2Str r =
     (if dr_interfaceType r = INTERFACE_TYPE_USB
      then Some (''ACTION!=\"remove\", SUBSYSTEMS==\"usb\", ATTRS{idVendor}==\"'' @ dr_idVendor r
             @ ''\", ATTRS{idProduct}==\"'' @ dr_idProduct r @ ''\", MODE=\"'' @ getUdevModeValue r
             @ ''\", RUN=\"/bin/sh -c '' @ [CHR 0x27] @ ''echo 0 >/sys/$devpath/authorized'' @ [CHR 0x27] @ ''\"'')
      else None)"

definition updateUdevRules :: "dm_env \<Rightarrow> dm \<Rightarrow> dm" where
  "updateUdevRules env d =
     (let rules = rules_loop (getDeviceSettings (dm_deviceSettings d)) []
      in d\<lparr>dm_rules := rules,
           dm_files := save_lines (de_can_write env) (List.map_filter rulleObj2Str rules)
                         SSR_DEVICE_UDEV_RULES_FILE (dm_files d)\<rparr>)"

text \<open>
  \<open>addSetting\<close> emits \<open>deviceSettingChanged\<close>, which the rule manager is connected to: the
  rules are rewritten before it returns.
\<close>

definition addSetting :: "dm_env \<Rightarrow> device_setting \<Rightarrow> dm \<Rightarrow> dm" where
  "addSetting env x d = updateUdevRules env (d\<lparr>dm_deviceSettings := putSetting x (dm_deviceSettings d)\<rparr>)"

section \<open>Interfaces\<close>

definition interface_group :: "int \<Rightarrow> string" where
  "interface_group type = ''interface'' @ show_int type"

definition isIFCEnable :: "int \<Rightarrow> dm \<Rightarrow> bool" where
  "isIFCEnable type d =
     (if interface_group type \<notin> set (s_childGroups (dm_interfaceSettings d)) then True
      else if type = INTERFACE_TYPE_HDMI then dm_isEnableHDMI d
      else v_toBool (s_value (interface_group type) ''enable'' (dm_interfaceSettings d)))"

definition setIFC :: "int \<Rightarrow> bool \<Rightarrow> qsettings \<Rightarrow> qsettings" where
  "setIFC type enable s =
     s_setValue (interface_group type) ''enable'' (VBool enable)
    (s_setValue (interface_group type) ''type'' (VInt type) s)"

definition syncToBluetoothService :: "dm \<Rightarrow> dm" where
  "syncToBluetoothService d =
     (if isIFCEnable INTERFACE_TYPE_BLUETOOTH d then startAndEnableUnit ''bluetooth.service'' d
      else stopAndDisableUnit ''bluetooth.service'' d)"

definition syncToNMService :: "dm \<Rightarrow> dm" where
  "syncToNMService d =
     act (Exec ''/usr/bin/nmcli'' [''n'', if isIFCEnable INTERFACE_TYPE_NET d then ''on'' else ''off'']) d"

section \<open>The boot loader\<close>

text \<open>\<open>std::sort\<close> by connection time, latest first; the order of equal times is the map's.\<close>

definition sort_devices :: "device list \<Rightarrow> device list" where
  "sort_devices ds = sort_key (\<lambda>dv. - dv_connectedTime dv) ds"

definition getDevicesByInterface :: "int \<Rightarrow> dm \<Rightarrow> device list" where
  "getDevicesByInterface interfaceType d =
     sort_devices (filter (\<lambda>dv. dv_interfaceType dv = interfaceType) (qm_values (dm_devices d)))"

definition hdmi_name :: "device \<Rightarrow> string option" where
  "hdmi_name dv =
     (let syspathBaseName = baseName (dv_syspath dv)
      in case indexOf syspathBaseName ''HDMI'' of
           None \<Rightarrow> None
         | Some hdmiPos \<Rightarrow> Some (right (length syspathBaseName - hdmiPos) syspathBaseName))"

definition getHDMINames :: "dm \<Rightarrow> string list" where
  "getHDMINames d = List.map_filter hdmi_name (getDevicesByInterface INTERFACE_TYPE_HDMI d)"

definition grub_value :: "dm \<Rightarrow> string" where
  "grub_value d =
     (if \<not> dm_isEnableHDMI d \<and> getHDMINames d \<noteq> []
      then join '' '' (map (\<lambda>name. ''video='' @ name @ '':d'') (getHDMINames d)) else [])"

definition grub_lines :: "string \<Rightarrow> string list \<Rightarrow> string list" where
  "grub_lines value ls =
     filter (\<lambda>l. \<not> contains l ''GRUB_CMDLINE_LINUX_DEFAULT'') ls
     @ [''GRUB_CMDLINE_LINUX_DEFAULT=\"'' @ value @ ''\"'']"

definition checkWaitingUpdateGrubs :: "dm \<Rightarrow> dm" where
  "checkWaitingUpdateGrubs d =
     (if dm_grubUpdateThread d \<noteq> NoThread then d
      else if dm_waitingUpdateGrub d
      then d\<lparr>dm_waitingUpdateGrub := False, dm_grubUpdateThread := ThreadRunning\<rparr>
      else d)"

definition syncInterfaceToGrubFile :: "dm_env \<Rightarrow> dm \<Rightarrow> dm" where
  "syncInterfaceToGrubFile env d =
     (case qm_value SSR_DI_GRUB_FILE (dm_files d) of
        None \<Rightarrow> d
      | Some text \<Rightarrow>
          checkWaitingUpdateGrubs
            (d\<lparr>dm_files := save_lines (de_can_write env) (grub_lines (grub_value d) (read_lines text))
                            SSR_DI_GRUB_FILE (dm_files d),
               dm_waitingUpdateGrub := True\<rparr>))"

text \<open>The body of the thread: the new configuration, copied over each one that is in use.\<close>

definition updateGrub :: "dm_env \<Rightarrow> string \<Rightarrow> dm \<Rightarrow> dm" where
  "updateGrub env filePath d =
     (let d = act (Exec ''/usr/sbin/grub2-mkconfig'' [''-o'', filePath]) d
      in case de_mkconfig env (qm_value SSR_DI_GRUB_FILE (dm_files d)) of
           None \<Rightarrow> d
         | Some text \<Rightarrow> d\<lparr>dm_files := qm_insert filePath text (dm_files d)\<rparr>)"

definition copy_file :: "string \<Rightarrow> string \<Rightarrow> files \<Rightarrow> files" where
  "copy_file from dest fs =
     (case (qm_value from fs, qm_value dest fs) of
        (Some text, None) \<Rightarrow> qm_insert dest text fs
      | _ \<Rightarrow> fs)"

definition replace_file :: "string \<Rightarrow> string \<Rightarrow> files \<Rightarrow> files" where
  "replace_file from dest fs = (if qm_contains dest fs then copy_file from dest (qm_remove dest fs) else fs)"

definition updateGrubsInThread :: "dm_env \<Rightarrow> dm \<Rightarrow> dm" where
  "updateGrubsInThread env d =
     (let d = updateGrub env TMP_GRUB_CFG_FILE_PATH d
      in d\<lparr>dm_files := replace_file TMP_GRUB_CFG_FILE_PATH GRUB_EFI_FILE_PATH
                        (replace_file TMP_GRUB_CFG_FILE_PATH GRUB_LEGACY_FILE_PATH (dm_files d)),
           dm_grubUpdateThread := ThreadFinished\<rparr>)"

definition finishGrubsUpdate :: "dm \<Rightarrow> dm" where
  "finishGrubsUpdate d =
     (let d = checkWaitingUpdateGrubs (d\<lparr>dm_grubUpdateThread := NoThread\<rparr>)
      in d\<lparr>dm_interfaceSettings := setIFC INTERFACE_TYPE_HDMI (dm_isEnableHDMI d) (dm_interfaceSettings d)\<rparr>)"

text \<open>
  \<open>setIFCEnable\<close>: enabling the USB interface enables its two sub-interfaces first; with
  \<open>_345_GC_\<close> the HDMI switch goes through the boot loader and is stored when that is done.
\<close>

definition sync_interface :: "int \<Rightarrow> dm \<Rightarrow> dm" where
  "sync_interface type d =
     (if type = INTERFACE_TYPE_BLUETOOTH then syncToBluetoothService d
      else if type = INTERFACE_TYPE_NET then syncToNMService d else d)"

function setIFCEnable :: "dm_env \<Rightarrow> int \<Rightarrow> bool \<Rightarrow> dm \<Rightarrow> dm" where
  "setIFCEnable env type enable d =
     (let d = (if type = INTERFACE_TYPE_USB \<and> enable
               then setIFCEnable env INTERFACE_TYPE_USB_MOUSE True (setIFCEnable env INTERFACE_TYPE_USB_KBD True d)
               else d)
      in if de_gc env \<and> type = INTERFACE_TYPE_HDMI
         then syncInterfaceToGrubFile env (d\<lparr>dm_isEnableHDMI := enable\<rparr>)
         else sync_interface type (d\<lparr>dm_interfaceSettings := setIFC type enable (dm_interfaceSettings d)\<rparr>))"
  by pat_completeness auto
termination
  by (relation "measure (\<lambda>(env, type, enable, d). if type = INTERFACE_TYPE_USB then 1 else 0)") auto

declare setIFCEnable.simps [simp del]

definition syncInterfaceFile :: "dm_env \<Rightarrow> dm \<Rightarrow> dm" where
  "syncInterfaceFile env d =
     syncToNMService (syncToBluetoothService (if de_gc env then syncInterfaceToGrubFile env d else d))"

text \<open>\<open>Configuration::init\<close>: the HDMI flag as stored, enabled when nothing is.\<close>

definition config_init :: "dm \<Rightarrow> dm" where
  "config_init d =
     d\<lparr>dm_isEnableHDMI :=
        (if interface_group INTERFACE_TYPE_HDMI \<in> set (s_childGroups (dm_interfaceSettings d))
         then v_toBool (s_value (interface_group INTERFACE_TYPE_HDMI) ''enable'' (dm_interfaceSettings d))
         else True)\<rparr>"

section \<open>Settings come back\<close>

lemma show_nat_inject: "show_nat a = show_nat b \<longleftrightarrow> a = b"
  by (metis option.inject parse_nat_show_nat)

lemma show_int_inject [simp]: "show_int a = show_int b \<longleftrightarrow> a = b"
proof
  assume eq: "show_int a = show_int b"
  have neg: "show_nat n \<noteq> CHR ''-'' # s" for n s
    using show_nat_chars [of "CHR ''-''" n] by (metis list.set_intros(1))
  show "a = b"
    using eq neg by (auto simp: show_int_def show_nat_inject nat_eq_iff split: if_splits)
      (metis neg)+
qed simp

lemma interface_group_inject [simp]: "interface_group a = interface_group b \<longleftrightarrow> a = b"
  by (simp add: interface_group_def)

lemma s_ok_setIFC [simp]: "s_ok s \<Longrightarrow> s_ok (setIFC type enable s)"
  by (simp add: setIFC_def s_ok_setValue)

lemma setIFC_groups:
  "set (s_childGroups (setIFC type enable s)) = insert (interface_group type) (set (s_childGroups s))"
  by (simp add: setIFC_def s_childGroups_setValue)

lemma s_value_setIFC:
  "s_ok s \<Longrightarrow> s_value (interface_group t) ''enable'' (setIFC type enable s) =
     (if t = type then VBool enable else s_value (interface_group t) ''enable'' s)"
  by (simp add: setIFC_def s_value_setValue s_ok_setValue)

lemma s_ok_putSetting [simp]: "s_ok s \<Longrightarrow> s_ok (putSetting x s)"
  by (simp add: putSetting_def s_ok_setValue)

lemma putSetting_groups [simp]:
  "set (s_childGroups (putSetting x s)) = insert (ds_uid x) (set (s_childGroups s))"
  by (simp add: putSetting_def s_childGroups_setValue)

lemma getDeviceSetting_put_same: "s_ok s \<Longrightarrow> getDeviceSetting (ds_uid x) (putSetting x s) = Some x"
  unfolding getDeviceSetting_def putSetting_groups
  by (simp add: putSetting_def s_value_setValue s_ok_setValue)

lemma s_value_putSetting_other:
  "s_ok s \<Longrightarrow> uid \<noteq> ds_uid x \<Longrightarrow> s_value uid k (putSetting x s) = s_value uid k s"
  by (simp add: putSetting_def s_value_setValue s_ok_setValue)

lemma getDeviceSetting_put:
  "s_ok s \<Longrightarrow> getDeviceSetting uid (putSetting x s) = (if uid = ds_uid x then Some x else getDeviceSetting uid s)"
  by (cases "uid = ds_uid x")
    (simp add: getDeviceSetting_put_same, simp add: getDeviceSetting_def s_value_putSetting_other)

section \<open>The switches\<close>

lemma setIFCEnable_other:
  "\<not> (type = INTERFACE_TYPE_USB \<and> enable) \<Longrightarrow> setIFCEnable env type enable d =
     (if de_gc env \<and> type = INTERFACE_TYPE_HDMI
      then syncInterfaceToGrubFile env (d\<lparr>dm_isEnableHDMI := enable\<rparr>)
      else sync_interface type (d\<lparr>dm_interfaceSettings := setIFC type enable (dm_interfaceSettings d)\<rparr>))"
  by (subst setIFCEnable.simps) (simp only: if_False Let_def)

lemma setIFCEnable_plain:
  "type \<notin> {INTERFACE_TYPE_USB, INTERFACE_TYPE_BLUETOOTH, INTERFACE_TYPE_NET, INTERFACE_TYPE_HDMI} \<Longrightarrow>
     setIFCEnable env type enable d = d\<lparr>dm_interfaceSettings := setIFC type enable (dm_interfaceSettings d)\<rparr>"
  by (simp add: setIFCEnable_other sync_interface_def)

lemma setIFCEnable_USB:
  "setIFCEnable env INTERFACE_TYPE_USB enable d =
     d\<lparr>dm_interfaceSettings :=
         (if enable then setIFC 1 True (setIFC 6 True (setIFC 5 True (dm_interfaceSettings d)))
          else setIFC 1 False (dm_interfaceSettings d))\<rparr>"
  by (subst setIFCEnable.simps) (simp add: sync_interface_def setIFCEnable_plain)

lemma isIFCEnable_set:
  assumes "s_ok s"
  shows "isIFCEnable t (d\<lparr>dm_interfaceSettings := setIFC type enable s\<rparr>) =
     (if t = type \<and> t \<noteq> INTERFACE_TYPE_HDMI then enable
      else if t = type then dm_isEnableHDMI d
      else isIFCEnable t (d\<lparr>dm_interfaceSettings := s\<rparr>))"
  using assms by (simp add: isIFCEnable_def setIFC_groups s_value_setIFC)

lemma sync_fields [frame_simps, simp]:
  "dm_interfaceSettings (sync_interface t d) = dm_interfaceSettings d"
  "dm_isEnableHDMI (sync_interface t d) = dm_isEnableHDMI d"
  "dm_files (sync_interface t d) = dm_files d"
  "dm_waitingUpdateGrub (sync_interface t d) = dm_waitingUpdateGrub d"
  "dm_grubUpdateThread (sync_interface t d) = dm_grubUpdateThread d"
  "dm_deviceSettings (sync_interface t d) = dm_deviceSettings d"
  "dm_devices (sync_interface t d) = dm_devices d"
  by (simp_all add: sync_interface_def syncToBluetoothService_def syncToNMService_def
      startAndEnableUnit_def stopAndDisableUnit_def enableUnit_def disableUnit_def
      startUnit_def stopUnit_def reload_def callNoReplay_def act_def)

lemma isIFCEnable_sync [simp]: "isIFCEnable t (sync_interface t' d) = isIFCEnable t d"
  by (simp add: isIFCEnable_def)

lemma isIFCEnable_self [simp]: "isIFCEnable t (d\<lparr>dm_interfaceSettings := dm_interfaceSettings d\<rparr>) = isIFCEnable t d"
  by simp

definition interface_effects :: "int \<Rightarrow> bool \<Rightarrow> effect list" where
  "interface_effects type enable =
     (if type = INTERFACE_TYPE_BLUETOOTH
      then (if enable
            then [SystemdCall ''StartUnit'' [''bluetooth.service'', ''replace''],
                  SystemdCall ''EnableUnitFiles'' [''bluetooth.service'', ''false''], SystemdCall ''Reload'' []]
            else [SystemdCall ''StopUnit'' [''bluetooth.service'', ''replace''],
                  SystemdCall ''DisableUnitFiles'' [''bluetooth.service'', ''false''], SystemdCall ''Reload'' []])
      else if type = INTERFACE_TYPE_NET
      then [Exec ''/usr/bin/nmcli'' [''n'', if enable then ''on'' else ''off'']]
      else [])"

lemma sync_interface_effects:
  "s_ok s \<Longrightarrow> d_effects (sync_interface t (d\<lparr>dm_interfaceSettings := setIFC t enable s\<rparr>)) =
     d_effects d @ interface_effects t enable"
  by (simp add: sync_interface_def syncToBluetoothService_def syncToNMService_def isIFCEnable_set
      interface_effects_def)

text \<open>An interface other than HDMI is switched as asked: afterwards it is reported with its new
  value, enabling USB also enables the keyboards and mice under it, no other interface changes, and
  the bluetooth and the network service are told exactly the new value.\<close>

theorem setIFCEnable_switches:
  assumes "s_ok (dm_interfaceSettings d)" and "type \<noteq> INTERFACE_TYPE_HDMI"
  shows "isIFCEnable t (setIFCEnable env type enable d) =
       (if t = type \<or> type = INTERFACE_TYPE_USB \<and> enable \<and> t \<in> {INTERFACE_TYPE_USB_KBD, INTERFACE_TYPE_USB_MOUSE}
        then enable else isIFCEnable t d)
     \<and> d_effects (setIFCEnable env type enable d) = d_effects d @ interface_effects type enable"
proof (cases "type = INTERFACE_TYPE_USB")
  case True
  then show ?thesis
    using assms(1) by (simp add: setIFCEnable_USB isIFCEnable_set interface_effects_def)
next
  case False
  with assms show ?thesis
    by (simp add: setIFCEnable_other isIFCEnable_set sync_interface_effects)
qed

definition sample_dm :: dm where
  "sample_dm = \<lparr>d_clients = [], d_log = small_log, d_now = 0, d_effects = [],
     dm_deviceSettings = [], dm_interfaceSettings = [], dm_isEnableHDMI = True,
     dm_waitingUpdateGrub = False, dm_grubUpdateThread = NoThread, dm_rules = [], dm_devices = [],
     dm_monitored = [], dm_mounts = [], dm_connectLog = [], dm_descs = [], dm_files = []\<rparr>"

definition null_sd :: sd_device where
  "null_sd = \<lparr>sd_syspath = None, sd_subsystem = None, sd_devtype = None, sd_devname = None,
     sd_sysname = None, sd_sysattr = (\<lambda>_. None)\<rparr>"

definition sample_env :: "bool \<Rightarrow> dm_env" where
  "sample_env gc = \<lparr>de_gc = gc, de_can_write = (\<lambda>_. True), de_mkconfig = (\<lambda>t. t),
     de_devices = [], de_from_syspath = (\<lambda>_. null_sd), de_exists = (\<lambda>_. False),
     de_now_ms = 0, de_mount_file = None, de_parse_json = (\<lambda>_. None)\<rparr>"

theorem setIFCEnable_switches_witness:
  "isIFCEnable INTERFACE_TYPE_USB_KBD (setIFCEnable (sample_env False) INTERFACE_TYPE_USB True
      (setIFCEnable (sample_env False) INTERFACE_TYPE_USB_KBD False sample_dm))
   \<and> \<not> isIFCEnable INTERFACE_TYPE_NET (setIFCEnable (sample_env False) INTERFACE_TYPE_NET False sample_dm)"
proof -
  have "s_ok (dm_interfaceSettings sample_dm)" by (simp add: sample_dm_def)
  moreover from this have "s_ok (dm_interfaceSettings (setIFCEnable (sample_env False) 5 False sample_dm))"
    by (simp add: setIFCEnable_plain)
  ultimately show ?thesis
    using setIFCEnable_switches [of "setIFCEnable (sample_env False) 5 False sample_dm" 1 5 "sample_env False" True]
      setIFCEnable_switches [of sample_dm 3 3 "sample_env False" False] by simp
qed

section \<open>The boot loader's update\<close>

lemma checkWaiting_fields [frame_simps, simp]:
  "dm_interfaceSettings (checkWaitingUpdateGrubs d) = dm_interfaceSettings d"
  "dm_isEnableHDMI (checkWaitingUpdateGrubs d) = dm_isEnableHDMI d"
  "dm_files (checkWaitingUpdateGrubs d) = dm_files d"
  by (simp_all add: checkWaitingUpdateGrubs_def)

lemma syncInterfaceToGrubFile_fields [frame_simps, simp]:
  "dm_interfaceSettings (syncInterfaceToGrubFile env d) = dm_interfaceSettings d"
  "dm_isEnableHDMI (syncInterfaceToGrubFile env d) = dm_isEnableHDMI d"
  by (simp_all add: syncInterfaceToGrubFile_def split: option.splits)

lemma finishGrubsUpdate_fields [frame_simps, simp]:
  "dm_interfaceSettings (finishGrubsUpdate d) = setIFC INTERFACE_TYPE_HDMI (dm_isEnableHDMI d) (dm_interfaceSettings d)"
  "dm_isEnableHDMI (finishGrubsUpdate d) = dm_isEnableHDMI d"
  "dm_files (finishGrubsUpdate d) = dm_files d"
  by (simp_all add: finishGrubsUpdate_def Let_def)

text \<open>The HDMI switch takes effect late or not at all. Without \<open>_345_GC_\<close> the new value is stored but
  the value reported is the flag read at start-up; with it, the flag is set but as long as nothing
  is stored for the interface, which first happens when the boot loader's update has finished, the
  interface is reported as enabled.\<close>

theorem HDMI_switch_is_late:
  assumes "s_ok (dm_interfaceSettings d)"
  shows "(\<not> de_gc env \<longrightarrow>
       isIFCEnable INTERFACE_TYPE_HDMI (setIFCEnable env INTERFACE_TYPE_HDMI enable d) = dm_isEnableHDMI d)
     \<and> (de_gc env \<and> interface_group INTERFACE_TYPE_HDMI \<notin> set (s_childGroups (dm_interfaceSettings d)) \<longrightarrow>
       isIFCEnable INTERFACE_TYPE_HDMI (setIFCEnable env INTERFACE_TYPE_HDMI enable d)
       \<and> isIFCEnable INTERFACE_TYPE_HDMI (finishGrubsUpdate (setIFCEnable env INTERFACE_TYPE_HDMI enable d)) = enable)"
proof -
  have "isIFCEnable 4 (finishGrubsUpdate d') = dm_isEnableHDMI d'" for d'
    by (simp add: isIFCEnable_def setIFC_groups)
  then show ?thesis
    using assms by (simp add: setIFCEnable_other sync_interface_def isIFCEnable_def setIFC_groups)
qed

theorem HDMI_switch_is_late_witness:
  "isIFCEnable INTERFACE_TYPE_HDMI (setIFCEnable (sample_env False) INTERFACE_TYPE_HDMI False sample_dm)
   \<and> isIFCEnable INTERFACE_TYPE_HDMI (setIFCEnable (sample_env True) INTERFACE_TYPE_HDMI False sample_dm)"
  using HDMI_switch_is_late [of sample_dm "sample_env False" False] HDMI_switch_is_late [of sample_dm "sample_env True" False]
  by (simp add: sample_dm_def sample_env_def s_childGroups_def qm_keys_def)

text \<open>
  The thread runs beside the main loop, and each of its operations may fail. Its operations as
  single steps: \<open>gr_at\<close> is the one that comes next while it runs. The rest is bookkeeping for
  the statement: whether the defaults file is unchanged since the last \<open>grub2-mkconfig\<close> was
  started, the defaults it read and the configuration it made (\<open>None\<close> when it failed), and whether
  every operation of the last round has succeeded so far.
\<close>

datatype grub_at = AtMkconfig | InMkconfig | AtLegacy | CopyLegacy | AtEfi | CopyEfi

record grub_run =
  gr_dm :: dm
  gr_at :: grub_at
  gr_clean :: bool
  gr_read :: "string option"
  gr_made :: "string option"
  gr_ok :: bool

definition grub_files :: "(files \<Rightarrow> files) \<Rightarrow> grub_run \<Rightarrow> grub_run" where
  "grub_files f g = g\<lparr>gr_dm := (gr_dm g)\<lparr>dm_files := f (dm_files (gr_dm g))\<rparr>\<rparr>"

definition grub_end :: "grub_run \<Rightarrow> grub_run" where
  "grub_end g = g\<lparr>gr_dm := (gr_dm g)\<lparr>dm_grubUpdateThread := ThreadFinished\<rparr>, gr_at := AtMkconfig\<rparr>"

text \<open>\<open>ok\<close> says whether the removal or the copy of this step succeeds.\<close>

definition grub_thread_step :: "dm_env \<Rightarrow> bool \<Rightarrow> grub_run \<Rightarrow> grub_run" where
  "grub_thread_step env ok g =
     (let fs = dm_files (gr_dm g)
      in case gr_at g of
           AtMkconfig \<Rightarrow>
             g\<lparr>gr_dm := act (Exec ''/usr/sbin/grub2-mkconfig'' [''-o'', TMP_GRUB_CFG_FILE_PATH]) (gr_dm g),
               gr_at := InMkconfig, gr_clean := True, gr_ok := True\<rparr>
         | InMkconfig \<Rightarrow>
             (let made = de_mkconfig env (qm_value SSR_DI_GRUB_FILE fs)
              in grub_files (\<lambda>fs. case made of None \<Rightarrow> fs | Some text \<Rightarrow> qm_insert TMP_GRUB_CFG_FILE_PATH text fs)
                   (g\<lparr>gr_at := AtLegacy, gr_read := qm_value SSR_DI_GRUB_FILE fs, gr_made := made,
                      gr_ok := (made \<noteq> None)\<rparr>))
         | AtLegacy \<Rightarrow>
             (if \<not> qm_contains GRUB_LEGACY_FILE_PATH fs then g\<lparr>gr_at := AtEfi\<rparr>
              else grub_files (if ok then qm_remove GRUB_LEGACY_FILE_PATH else id)
                     (g\<lparr>gr_at := CopyLegacy, gr_ok := gr_ok g \<and> ok\<rparr>))
         | CopyLegacy \<Rightarrow>
             grub_files (if ok then copy_file TMP_GRUB_CFG_FILE_PATH GRUB_LEGACY_FILE_PATH else id)
               (g\<lparr>gr_at := AtEfi, gr_ok := gr_ok g \<and> ok\<rparr>)
         | AtEfi \<Rightarrow>
             (if \<not> qm_contains GRUB_EFI_FILE_PATH fs then grub_end g
              else grub_files (if ok then qm_remove GRUB_EFI_FILE_PATH else id)
                     (g\<lparr>gr_at := CopyEfi, gr_ok := gr_ok g \<and> ok\<rparr>))
         | CopyEfi \<Rightarrow>
             grub_end (grub_files (if ok then copy_file TMP_GRUB_CFG_FILE_PATH GRUB_EFI_FILE_PATH else id)
               (g\<lparr>gr_ok := gr_ok g \<and> ok\<rparr>)))"

text \<open>
  The events: a switch of an interface, the settings read again (\<open>syncInterfaceFile\<close>), one step of
  the thread, and the signal of its end reaching the main loop. The answers of the system may be
  others at every event.
\<close>

datatype grub_event = GrubSet dm_env int bool | GrubSync dm_env | GrubThread dm_env bool | GrubThreadEnds

definition grub_main :: "dm \<Rightarrow> grub_run \<Rightarrow> grub_run" where
  "grub_main d g = g\<lparr>gr_dm := d, gr_clean := gr_clean g \<and> dm_files d = dm_files (gr_dm g)\<rparr>"

fun grub_step :: "grub_run \<Rightarrow> grub_event \<Rightarrow> grub_run" where
  "grub_step g (GrubSet env type enable) = grub_main (setIFCEnable env type enable (gr_dm g)) g"
| "grub_step g (GrubSync env) = grub_main (syncInterfaceFile env (gr_dm g)) g"
| "grub_step g (GrubThread env ok) =
     (if dm_grubUpdateThread (gr_dm g) = ThreadRunning then grub_thread_step env ok g else g)"
| "grub_step g GrubThreadEnds =
     (if dm_grubUpdateThread (gr_dm g) = ThreadFinished then g\<lparr>gr_dm := finishGrubsUpdate (gr_dm g)\<rparr> else g)"

definition grub_settled :: "dm \<Rightarrow> bool" where
  "grub_settled d \<longleftrightarrow> dm_grubUpdateThread d = NoThread \<and> \<not> dm_waitingUpdateGrub d"

definition grub_begin :: "dm \<Rightarrow> grub_run" where
  "grub_begin d = \<lparr>gr_dm = d, gr_at = AtMkconfig, gr_clean = True,
     gr_read = qm_value SSR_DI_GRUB_FILE (dm_files d), gr_made = None, gr_ok = False\<rparr>"

text \<open>Without failures and interference the six steps are \<open>updateGrubsInThread\<close>.\<close>

definition grub_at_step :: "dm \<Rightarrow> grub_run \<Rightarrow> files \<Rightarrow> grub_thread \<Rightarrow> grub_at \<Rightarrow> grub_run" where
  "grub_at_step d g fs th at = g\<lparr>gr_dm := d\<lparr>dm_files := fs, dm_grubUpdateThread := th\<rparr>, gr_at := at\<rparr>"

lemma grub_at_steps:
  fixes env :: dm_env
  defines "e \<equiv> GrubThread env True"
  assumes "gr_ok g"
  shows "grub_step (grub_at_step d g fs ThreadRunning AtLegacy) e =
      (if qm_contains GRUB_LEGACY_FILE_PATH fs
       then grub_at_step d g (qm_remove GRUB_LEGACY_FILE_PATH fs) ThreadRunning CopyLegacy
       else grub_at_step d g fs ThreadRunning AtEfi)"
    and "grub_step (grub_at_step d g fs ThreadRunning CopyLegacy) e =
      grub_at_step d g (copy_file TMP_GRUB_CFG_FILE_PATH GRUB_LEGACY_FILE_PATH fs) ThreadRunning AtEfi"
    and "grub_step (grub_at_step d g fs ThreadRunning AtEfi) e =
      (if qm_contains GRUB_EFI_FILE_PATH fs
       then grub_at_step d g (qm_remove GRUB_EFI_FILE_PATH fs) ThreadRunning CopyEfi
       else grub_at_step d g fs ThreadFinished AtMkconfig)"
    and "grub_step (grub_at_step d g fs ThreadRunning CopyEfi) e =
      grub_at_step d g (copy_file TMP_GRUB_CFG_FILE_PATH GRUB_EFI_FILE_PATH fs) ThreadFinished AtMkconfig"
    and "grub_step (grub_at_step d g fs ThreadFinished at) e = grub_at_step d g fs ThreadFinished at"
  using assms
  by (simp_all add: grub_at_step_def grub_thread_step_def grub_files_def grub_end_def)

lemma grub_steps_are_the_thread:
  assumes "gr_at g = AtMkconfig" "dm_grubUpdateThread (gr_dm g) = ThreadRunning"
    and "de_mkconfig env (qm_value SSR_DI_GRUB_FILE (dm_files (gr_dm g))) = Some text"
  shows "gr_dm (run grub_step g (replicate 6 (GrubThread env True))) = updateGrubsInThread env (gr_dm g)"
proof -
  let ?e = "GrubThread env True"
  have six: "replicate 6 ?e = [?e, ?e, ?e, ?e, ?e, ?e]" by (simp add: eval_nat_numeral)
  let ?fs = "qm_insert TMP_GRUB_CFG_FILE_PATH text (dm_files (gr_dm g))"
  let ?d = "act (Exec ''/usr/sbin/grub2-mkconfig'' [''-o'', TMP_GRUB_CFG_FILE_PATH]) (gr_dm g)"
  let ?fs' = "replace_file TMP_GRUB_CFG_FILE_PATH GRUB_EFI_FILE_PATH
                (replace_file TMP_GRUB_CFG_FILE_PATH GRUB_LEGACY_FILE_PATH ?fs)"
  define h where "h = g\<lparr>gr_clean := True, gr_ok := True,
      gr_read := qm_value SSR_DI_GRUB_FILE (dm_files (gr_dm g)), gr_made := Some text\<rparr>"
  have h: "gr_ok h" by (simp add: h_def)
  have two: "grub_step (grub_step g ?e) ?e = grub_at_step ?d h ?fs ThreadRunning AtLegacy"
    using assms by (cases g; cases "gr_dm g") (simp add: grub_thread_step_def grub_files_def grub_at_step_def act_def h_def Let_def
        del: qm_insert.simps)
  have four: "run grub_step (grub_at_step ?d h fs ThreadRunning AtLegacy) [?e, ?e, ?e, ?e] =
      grub_at_step ?d h (replace_file TMP_GRUB_CFG_FILE_PATH GRUB_EFI_FILE_PATH
        (replace_file TMP_GRUB_CFG_FILE_PATH GRUB_LEGACY_FILE_PATH fs)) ThreadFinished AtMkconfig" for fs
    by (cases "qm_contains GRUB_LEGACY_FILE_PATH fs"; cases "qm_contains GRUB_EFI_FILE_PATH
          (replace_file TMP_GRUB_CFG_FILE_PATH GRUB_LEGACY_FILE_PATH fs)")
      (simp_all add: grub_at_steps [OF h] replace_file_def del: grub_step.simps)
  have "run grub_step g (replicate 6 ?e) = run grub_step (grub_at_step ?d h ?fs ThreadRunning AtLegacy) [?e, ?e, ?e, ?e]"
    unfolding six two [symmetric] by (simp only: run.simps)
  also have "\<dots> = grub_at_step ?d h ?fs' ThreadFinished AtMkconfig" by (rule four)
  finally show ?thesis
    using assms(3) by (simp add: grub_at_step_def updateGrubsInThread_def updateGrub_def act_def)
qed

text \<open>What holds of the files before each step of the thread, while every operation has succeeded.\<close>

definition in_use :: "string \<Rightarrow> string option \<Rightarrow> files \<Rightarrow> bool" where
  "in_use path made fs \<longleftrightarrow> (qm_contains path fs \<longrightarrow> qm_value path fs = made)"

fun grub_good :: "grub_at \<Rightarrow> string option \<Rightarrow> files \<Rightarrow> bool" where
  "grub_good AtMkconfig made fs = (in_use GRUB_LEGACY_FILE_PATH made fs \<and> in_use GRUB_EFI_FILE_PATH made fs)"
| "grub_good InMkconfig made fs = True"
| "grub_good AtLegacy made fs = (qm_value TMP_GRUB_CFG_FILE_PATH fs = made)"
| "grub_good CopyLegacy made fs =
     (qm_value TMP_GRUB_CFG_FILE_PATH fs = made \<and> \<not> qm_contains GRUB_LEGACY_FILE_PATH fs)"
| "grub_good AtEfi made fs = (qm_value TMP_GRUB_CFG_FILE_PATH fs = made \<and> in_use GRUB_LEGACY_FILE_PATH made fs)"
| "grub_good CopyEfi made fs =
     (qm_value TMP_GRUB_CFG_FILE_PATH fs = made \<and> in_use GRUB_LEGACY_FILE_PATH made fs
      \<and> \<not> qm_contains GRUB_EFI_FILE_PATH fs)"

definition grub_inv :: "grub_run \<Rightarrow> bool" where
  "grub_inv g \<longleftrightarrow> (let d = gr_dm g; fs = dm_files d in
     qm_ok fs
     \<and> (dm_waitingUpdateGrub d \<longrightarrow> dm_grubUpdateThread d \<noteq> NoThread)
     \<and> (dm_grubUpdateThread d \<noteq> ThreadRunning \<longrightarrow> gr_at g = AtMkconfig)
     \<and> (\<not> dm_waitingUpdateGrub d \<and> (dm_grubUpdateThread d = ThreadRunning \<longrightarrow> gr_at g \<noteq> AtMkconfig) \<longrightarrow> gr_clean g)
     \<and> (gr_clean g \<and> gr_at g \<noteq> InMkconfig \<longrightarrow> gr_read g = qm_value SSR_DI_GRUB_FILE fs)
     \<and> (gr_ok g \<and> gr_at g \<noteq> InMkconfig \<longrightarrow> gr_made g \<noteq> None)
     \<and> (gr_ok g \<longrightarrow> grub_good (gr_at g) (gr_made g) fs))"

lemma qm_ok_save_lines [simp]: "qm_ok fs \<Longrightarrow> qm_ok (save_lines w ls p fs)"
  by (simp add: save_lines_def Let_def qm_ok_insert qm_ok_remove)

lemma replace_file_ok: "qm_ok fs \<Longrightarrow> qm_ok (replace_file a b fs)"
  by (simp add: replace_file_def copy_file_def qm_ok_remove qm_ok_insert split: option.splits)

lemma replace_file_value:
  "qm_ok fs \<Longrightarrow> a \<noteq> b \<Longrightarrow> qm_value k (replace_file a b fs) =
     (if k = b \<and> qm_contains b fs then qm_value a fs else qm_value k fs)"
  by (auto simp: replace_file_def copy_file_def qm_value_remove qm_value_insert qm_ok_remove split: option.splits)

lemma grub_good_cong:
  assumes "\<And>p. p \<noteq> SSR_DI_GRUB_FILE \<Longrightarrow> qm_value p fs' = qm_value p fs"
  shows "grub_good at made fs' = grub_good at made fs"
  by (cases at) (simp_all add: in_use_def qm_contains_value assms)

lemma save_lines_other: "qm_ok fs \<Longrightarrow> p \<noteq> path \<Longrightarrow> qm_value p (save_lines w ls path fs) = qm_value p fs"
  by (simp add: save_lines_def qm_value_insert qm_value_remove qm_ok_remove Let_def)

text \<open>What the main loop does to the update: nothing, or it saves the defaults file and asks for one.\<close>

definition grub_asked :: "dm_env \<Rightarrow> dm \<Rightarrow> dm \<Rightarrow> bool" where
  "grub_asked env d d' \<longleftrightarrow>
     dm_files d' = dm_files d \<and> dm_grubUpdateThread d' = dm_grubUpdateThread d
       \<and> dm_waitingUpdateGrub d' = dm_waitingUpdateGrub d
     \<or> (\<exists>ls. dm_files d' = save_lines (de_can_write env) ls SSR_DI_GRUB_FILE (dm_files d))
       \<and> dm_grubUpdateThread d' = (if dm_grubUpdateThread d = NoThread then ThreadRunning else dm_grubUpdateThread d)
       \<and> dm_waitingUpdateGrub d' = (dm_grubUpdateThread d \<noteq> NoThread)"

lemma grub_asked_fields:
  "grub_asked env d d' \<Longrightarrow> dm_files d'' = dm_files d' \<Longrightarrow> dm_grubUpdateThread d'' = dm_grubUpdateThread d' \<Longrightarrow>
     dm_waitingUpdateGrub d'' = dm_waitingUpdateGrub d' \<Longrightarrow> grub_asked env d d''"
  by (auto simp: grub_asked_def)

lemma syncInterfaceToGrubFile_asks: "grub_asked env d (syncInterfaceToGrubFile env d)"
  by (cases "dm_grubUpdateThread d")
    (auto simp: grub_asked_def syncInterfaceToGrubFile_def checkWaitingUpdateGrubs_def split: option.splits)

lemma setIFCEnable_asks: "grub_asked env d (setIFCEnable env type enable d)"
proof -
  have "grub_asked env d (syncInterfaceToGrubFile env (d\<lparr>dm_isEnableHDMI := enable\<rparr>))"
    using syncInterfaceToGrubFile_asks [of env "d\<lparr>dm_isEnableHDMI := enable\<rparr>"] by (auto simp: grub_asked_def)
  moreover have "grub_asked env d (sync_interface type (d\<lparr>dm_interfaceSettings := x\<rparr>))"
      "grub_asked env d (d\<lparr>dm_interfaceSettings := x\<rparr>)" for x
    by (simp_all add: grub_asked_def)
  ultimately show ?thesis
    by (cases "type = INTERFACE_TYPE_USB") (simp_all add: setIFCEnable_USB setIFCEnable_other)
qed

lemma syncInterfaceFile_asks: "grub_asked env d (syncInterfaceFile env d)"
proof -
  have "grub_asked env d (if de_gc env then syncInterfaceToGrubFile env d else d)"
    by (simp add: syncInterfaceToGrubFile_asks) (simp add: grub_asked_def)
  then show ?thesis
    by (rule grub_asked_fields)
      (simp_all add: syncInterfaceFile_def syncToBluetoothService_def syncToNMService_def startAndEnableUnit_def
        stopAndDisableUnit_def enableUnit_def disableUnit_def startUnit_def stopUnit_def reload_def
        callNoReplay_def act_def)
qed

lemma grub_main_inv:
  assumes inv: "grub_inv g" and ask: "grub_asked env (gr_dm g) d'"
  shows "grub_inv (grub_main d' g)"
proof (cases "dm_files d' = dm_files (gr_dm g) \<and> dm_grubUpdateThread d' = dm_grubUpdateThread (gr_dm g)
    \<and> dm_waitingUpdateGrub d' = dm_waitingUpdateGrub (gr_dm g)")
  case True
  then show ?thesis using inv by (simp add: grub_main_def grub_inv_def Let_def)
next
  case False
  with ask obtain ls where fs: "dm_files d' = save_lines (de_can_write env) ls SSR_DI_GRUB_FILE (dm_files (gr_dm g))"
    and th: "dm_grubUpdateThread d' =
        (if dm_grubUpdateThread (gr_dm g) = NoThread then ThreadRunning else dm_grubUpdateThread (gr_dm g))"
      "dm_waitingUpdateGrub d' = (dm_grubUpdateThread (gr_dm g) \<noteq> NoThread)"
    by (auto simp: grub_asked_def)
  have ok: "qm_ok (dm_files (gr_dm g))" using inv by (simp add: grub_inv_def Let_def)
  have "grub_good (gr_at g) (gr_made g) (dm_files d') = grub_good (gr_at g) (gr_made g) (dm_files (gr_dm g))"
    by (rule grub_good_cong) (simp add: fs save_lines_other ok)
  then show ?thesis
    using inv ok th fs by (auto simp: grub_main_def grub_inv_def Let_def)
qed

lemma copy_file_value:
  "qm_ok fs \<Longrightarrow> a \<noteq> b \<Longrightarrow> qm_value k (copy_file a b fs) =
     (if k = b \<and> \<not> qm_contains b fs then qm_value a fs else qm_value k fs)"
  by (auto simp: copy_file_def qm_contains_value qm_value_insert split: option.splits)

lemma copy_file_ok: "qm_ok fs \<Longrightarrow> qm_ok (copy_file a b fs)"
  by (simp add: copy_file_def qm_ok_insert split: option.splits)

lemma grub_thread_inv:
  assumes "grub_inv g" "dm_grubUpdateThread (gr_dm g) = ThreadRunning"
  shows "grub_inv (grub_thread_step env ok g)"
  using assms
  by (cases "gr_at g"; cases ok; cases "de_mkconfig env (qm_value SSR_DI_GRUB_FILE (dm_files (gr_dm g)))")
    (auto simp: grub_inv_def grub_thread_step_def grub_files_def grub_end_def act_def in_use_def Let_def
      copy_file_ok qm_ok_remove qm_ok_insert qm_contains_value copy_file_value qm_value_remove qm_value_insert
      simp del: qm_insert.simps)

lemma finishGrubs_thread:
  "dm_grubUpdateThread (finishGrubsUpdate d) = (if dm_waitingUpdateGrub d then ThreadRunning else NoThread)"
  "\<not> dm_waitingUpdateGrub (finishGrubsUpdate d)"
  by (simp_all add: finishGrubsUpdate_def checkWaitingUpdateGrubs_def Let_def)

lemma grub_step_inv: "grub_inv g \<Longrightarrow> grub_inv (grub_step g e)"
proof (cases e)
  case GrubThreadEnds
  assume "grub_inv g"
  with GrubThreadEnds show ?thesis
    by (auto simp: grub_inv_def finishGrubs_thread Let_def)
qed (simp_all add: grub_main_inv [OF _ setIFCEnable_asks] grub_main_inv [OF _ syncInterfaceFile_asks] grub_thread_inv)

interpretation grub_machine: step_invariant grub_step grub_inv
  by unfold_locales (rule grub_step_inv)

text \<open>The number of steps the thread still has to do, and that it does them.\<close>

fun grub_left :: "grub_at \<Rightarrow> nat" where
  "grub_left AtMkconfig = 6" | "grub_left InMkconfig = 5" | "grub_left AtLegacy = 4"
| "grub_left CopyLegacy = 3" | "grub_left AtEfi = 2" | "grub_left CopyEfi = 1"

definition grub_steps :: "(dm_env \<times> bool) list \<Rightarrow> grub_event list" where
  "grub_steps rs = map (\<lambda>(env, ok). GrubThread env ok) rs"

lemma grub_thread_step_left:
  "dm_grubUpdateThread (gr_dm g) = ThreadRunning \<Longrightarrow>
     (dm_grubUpdateThread (gr_dm (grub_thread_step env ok g)) = ThreadFinished
      \<or> dm_grubUpdateThread (gr_dm (grub_thread_step env ok g)) = ThreadRunning
        \<and> grub_left (gr_at (grub_thread_step env ok g)) < grub_left (gr_at g))
     \<and> dm_waitingUpdateGrub (gr_dm (grub_thread_step env ok g)) = dm_waitingUpdateGrub (gr_dm g)"
  by (cases "gr_at g") (simp_all add: grub_thread_step_def grub_files_def grub_end_def act_def Let_def)

lemma grub_steps_end:
  "dm_grubUpdateThread (gr_dm g) = ThreadRunning \<Longrightarrow> grub_left (gr_at g) \<le> length rs \<Longrightarrow>
     dm_grubUpdateThread (gr_dm (run grub_step g (grub_steps rs))) = ThreadFinished
     \<and> dm_waitingUpdateGrub (gr_dm (run grub_step g (grub_steps rs))) = dm_waitingUpdateGrub (gr_dm g)"
proof (induction rs arbitrary: g)
  case Nil
  then show ?case by (cases "gr_at g") simp_all
next
  case (Cons r rs)
  obtain env ok where r: "r = (env, ok)" by (cases r)
  let ?g = "grub_thread_step env ok g"
  have idle: "dm_grubUpdateThread (gr_dm h) \<noteq> ThreadRunning \<Longrightarrow> run grub_step h (grub_steps rs) = h" for h
    by (induction rs) (auto simp: grub_steps_def)
  have step: "run grub_step g (grub_steps (r # rs)) = run grub_step ?g (grub_steps rs)"
    using Cons.prems(1) by (simp add: grub_steps_def r)
  show ?case
  proof (cases "dm_grubUpdateThread (gr_dm ?g) = ThreadFinished")
    case True
    then show ?thesis
      using idle [of ?g] grub_thread_step_left [OF Cons.prems(1), of env ok] by (simp add: step)
  next
    case False
    then have "dm_grubUpdateThread (gr_dm ?g) = ThreadRunning" "grub_left (gr_at ?g) \<le> length rs"
      using grub_thread_step_left [OF Cons.prems(1), of env ok] Cons.prems(2) by auto
    with Cons.IH [of ?g] show ?thesis
      using grub_thread_step_left [OF Cons.prems(1), of env ok] by (simp add: step)
  qed
qed

lemma grub_idle: "dm_grubUpdateThread (gr_dm g) \<noteq> ThreadRunning \<Longrightarrow> run grub_step g (grub_steps rs) = g"
  by (induction rs) (auto simp: grub_steps_def)

lemma grub_left_6: "grub_left a \<le> 6"
  by (cases a) simp_all

text \<open>One round: six steps of the thread and its signal.\<close>

lemma grub_round:
  assumes "6 \<le> length rs" "dm_waitingUpdateGrub (gr_dm g) \<longrightarrow> dm_grubUpdateThread (gr_dm g) \<noteq> NoThread"
  shows "dm_grubUpdateThread (gr_dm (run grub_step g (grub_steps rs @ [GrubThreadEnds]))) =
      (if dm_waitingUpdateGrub (gr_dm g) then ThreadRunning else NoThread)
    \<and> \<not> dm_waitingUpdateGrub (gr_dm (run grub_step g (grub_steps rs @ [GrubThreadEnds])))"
proof (cases "dm_grubUpdateThread (gr_dm g)")
  case ThreadRunning
  then show ?thesis
    using grub_steps_end [OF ThreadRunning, of rs] grub_left_6 [of "gr_at g"] assms(1)
    by (simp add: run_append finishGrubs_thread)
qed (use assms(2) in \<open>simp_all add: run_append grub_idle finishGrubs_thread\<close>)


definition sample_boot :: dm where
  "sample_boot = sample_dm\<lparr>dm_files :=
     qm_insert SSR_DI_GRUB_FILE (lines_text [''GRUB_TIMEOUT=5''])
    (qm_insert GRUB_LEGACY_FILE_PATH (lines_text [''GRUB_TIMEOUT=5'']) [])\<rparr>"

definition echo_env :: dm_env where
  "echo_env = (sample_env True)\<lparr>de_mkconfig := (\<lambda>t. Some (case t of None \<Rightarrow> [] | Some s \<Rightarrow> s))\<rparr>"

definition sample_grub_run :: grub_run where
  "sample_grub_run = run grub_step (grub_begin sample_boot)
     ([GrubSet echo_env INTERFACE_TYPE_HDMI False, GrubThread echo_env True, GrubSet echo_env INTERFACE_TYPE_HDMI True]
      @ grub_steps (replicate 6 (echo_env, False)) @ [GrubThreadEnds]
      @ grub_steps (replicate 6 (echo_env, True)) @ [GrubThreadEnds])"


text \<open>When \<open>grub2-mkconfig\<close> fails and left no file of an earlier run, the thread still removes the
  boot configuration in use before it copies a file that does not exist: the machine is left
  without one.\<close>

theorem failed_mkconfig_removes_boot_config:
  assumes "qm_ok (dm_files d)" and "de_mkconfig env (qm_value SSR_DI_GRUB_FILE (dm_files d)) = None"
    and "\<not> qm_contains TMP_GRUB_CFG_FILE_PATH (dm_files d)" and "path \<in> {GRUB_LEGACY_FILE_PATH, GRUB_EFI_FILE_PATH}"
  shows "\<not> qm_contains path (dm_files (updateGrubsInThread env d))"
proof -
  have "dm_files (updateGrubsInThread env d) =
      replace_file TMP_GRUB_CFG_FILE_PATH GRUB_EFI_FILE_PATH
        (replace_file TMP_GRUB_CFG_FILE_PATH GRUB_LEGACY_FILE_PATH (dm_files d))"
    using assms(2) by (simp add: updateGrubsInThread_def updateGrub_def act_def)
  with assms(1,3,4) show ?thesis
    by (auto simp: qm_contains_value replace_file_value replace_file_ok)
qed

theorem failed_mkconfig_removes_boot_config_witness:
  "qm_contains GRUB_LEGACY_FILE_PATH (dm_files sample_boot)
   \<and> \<not> qm_contains GRUB_LEGACY_FILE_PATH (dm_files (updateGrubsInThread (echo_env\<lparr>de_mkconfig := (\<lambda>_. None)\<rparr>) sample_boot))"
proof -
  have "qm_contains GRUB_LEGACY_FILE_PATH (dm_files sample_boot)"
      "\<not> qm_contains TMP_GRUB_CFG_FILE_PATH (dm_files sample_boot)" "qm_ok (dm_files sample_boot)"
    by (simp_all add: sample_boot_def sample_dm_def qm_contains_value qm_value_insert qm_ok_insert
        del: qm_insert.simps)
  then show ?thesis
    using failed_mkconfig_removes_boot_config [of sample_boot "echo_env\<lparr>de_mkconfig := (\<lambda>_. None)\<rparr>" GRUB_LEGACY_FILE_PATH]
    by simp
qed

section \<open>The boot option\<close>

lemma split_parts_free: "l \<in> set (split_acc [c] acc s) \<Longrightarrow> c \<notin> set acc \<Longrightarrow> c \<notin> set l"
  by (induction "[c]" acc s arbitrary: l rule: split_acc.induct) (auto split: if_splits)

lemma split_parts_subset: "l \<in> set (split_acc sep acc s) \<Longrightarrow> set l \<subseteq> set acc \<union> set s"
proof (induction sep acc s arbitrary: l rule: split_acc.induct)
  case (1 sep acc)
  then show ?case by simp
next
  case (2 sep acc c s)
  have "set l \<subseteq> set (c # s)" if "l \<in> set (split_acc sep [] (drop (length sep) (c # s)))"
      "sep \<noteq> [] \<and> prefix sep (c # s)"
    using 2(1) [OF that(2,1)] set_drop_subset [of "length sep" "c # s"] by simp
  with 2(2) [of l] 2(3) show ?case by (auto split: if_splits)
qed

lemma read_lines_plain: "l \<in> set (read_lines s) \<Longrightarrow> plain_line l"
proof -
  assume "l \<in> set (read_lines s)"
  then have l: "l \<in> set (split_acc [CHR 0x0A] [] (filter (\<lambda>c. c \<noteq> CHR 0x0D) s))"
    by (auto simp: read_lines_def split_def Let_def dest: in_set_butlastD split: if_splits)
  have "CHR 0x0A \<notin> set l" by (rule split_parts_free [OF l]) simp
  moreover have "CHR 0x0D \<notin> set l" using split_parts_subset [OF l] by auto
  ultimately show "plain_line l" by (simp add: plain_line_def)
qed

lemma contains_append: "contains (p @ s) p"
  by (simp add: contains_iff_sublist sublist_appendI sublist_append_rightI)

text \<open>Switching HDMI with \<open>_345_GC_\<close> rewrites the defaults file so that it has exactly one line with
  \<open>GRUB_CMDLINE_LINUX_DEFAULT\<close>, the last, which disables every HDMI connector when HDMI is off and
  nothing when it is on, after all the other lines in their order: what the option held before is lost.\<close>

theorem HDMI_switch_replaces_boot_option:
  assumes "de_gc env" and "de_can_write env SSR_DI_GRUB_FILE" and "qm_ok (dm_files d)"
    and "qm_value SSR_DI_GRUB_FILE (dm_files d) = Some old"
    and "plain_line (grub_value (d\<lparr>dm_isEnableHDMI := enable\<rparr>))"
  shows "\<exists>new. qm_value SSR_DI_GRUB_FILE (dm_files (setIFCEnable env INTERFACE_TYPE_HDMI enable d)) = Some new
     \<and> read_lines new = filter (\<lambda>l. \<not> contains l ''GRUB_CMDLINE_LINUX_DEFAULT'') (read_lines old)
         @ [''GRUB_CMDLINE_LINUX_DEFAULT=\"'' @ (if enable then [] else
              join '' '' (map (\<lambda>name. ''video='' @ name @ '':d'') (getHDMINames d))) @ ''\"'']
     \<and> filter (\<lambda>l. contains l ''GRUB_CMDLINE_LINUX_DEFAULT'') (read_lines new) = [last (read_lines new)]"
proof -
  let ?v = "grub_value (d\<lparr>dm_isEnableHDMI := enable\<rparr>)"
  let ?ls = "grub_lines ?v (read_lines old)"
  have names: "getHDMINames (d\<lparr>dm_isEnableHDMI := b\<rparr>) = getHDMINames d" for b
    by (simp add: getHDMINames_def getDevicesByInterface_def)
  then have v: "?v = (if enable then [] else join '' '' (map (\<lambda>name. ''video='' @ name @ '':d'') (getHDMINames d)))"
    by (simp add: grub_value_def)
  have ne: "?ls \<noteq> []" by (simp add: grub_lines_def)
  have "plain_line (''GRUB_CMDLINE_LINUX_DEFAULT=\"'' @ ?v @ ''\"'')"
    using assms(5) by (simp add: plain_line_def)
  then have plain: "\<forall>l \<in> set ?ls. plain_line l"
    by (auto simp: grub_lines_def read_lines_plain)
  have saved: "qm_value SSR_DI_GRUB_FILE (dm_files (setIFCEnable env INTERFACE_TYPE_HDMI enable d)) = Some (lines_text ?ls)"
    using assms ne by (simp add: setIFCEnable_other syncInterfaceToGrubFile_def save_lines_def Let_def
        qm_value_insert qm_ok_remove del: qm_insert.simps)
  have last: "contains (''GRUB_CMDLINE_LINUX_DEFAULT=\"'' @ ?v @ ''\"'') ''GRUB_CMDLINE_LINUX_DEFAULT''"
    using contains_append [of "''GRUB_CMDLINE_LINUX_DEFAULT''" "''=\"'' @ ?v @ ''\"''"] by simp
  have one: "filter (\<lambda>l. contains l ''GRUB_CMDLINE_LINUX_DEFAULT'') ?ls = [last ?ls]"
    using last by (simp add: grub_lines_def)
  show ?thesis
    using saved one read_lines_text [OF ne plain] by (simp add: grub_lines_def v)
qed

theorem HDMI_switch_replaces_boot_option_witness:
  "\<exists>new. qm_value SSR_DI_GRUB_FILE (dm_files (setIFCEnable echo_env INTERFACE_TYPE_HDMI True sample_boot)) = Some new
     \<and> read_lines new = [''GRUB_TIMEOUT=5'', ''GRUB_CMDLINE_LINUX_DEFAULT=\"\"'']"
proof -
  have "read_lines (lines_text [''GRUB_TIMEOUT=5'']) = [''GRUB_TIMEOUT=5'']"
    by (rule read_lines_text) (simp_all add: plain_line_def)
  moreover have "de_gc echo_env" "de_can_write echo_env SSR_DI_GRUB_FILE" "qm_ok (dm_files sample_boot)"
      "qm_value SSR_DI_GRUB_FILE (dm_files sample_boot) = Some (lines_text [''GRUB_TIMEOUT=5''])"
    by (simp_all add: echo_env_def sample_env_def sample_boot_def sample_dm_def qm_value_insert qm_ok_insert
        del: qm_insert.simps)
  moreover have "plain_line (grub_value (sample_boot\<lparr>dm_isEnableHDMI := True\<rparr>))"
    by (simp add: grub_value_def plain_line_def)
  moreover have "\<not> contains ''GRUB_TIMEOUT=5'' ''GRUB_CMDLINE_LINUX_DEFAULT''"
    by (simp add: contains_def indexOf_def)
  ultimately show ?thesis
    using HDMI_switch_replaces_boot_option [of echo_env sample_boot "lines_text [''GRUB_TIMEOUT=5'']" True] by auto
qed

section \<open>The rules follow the settings\<close>

definition has_rule :: "string \<Rightarrow> string \<Rightarrow> device_rule list \<Rightarrow> bool" where
  "has_rule v p rs \<longleftrightarrow> (\<exists>r \<in> set rs. dr_idVendor r = v \<and> dr_idProduct r = p)"

lemma find_rule_None: "find_rule v p rs = None \<longleftrightarrow> \<not> has_rule v p rs"
  by (auto simp: find_rule_def has_rule_def find_None_iff)

lemma rules_loop_has:
  "has_rule v p (rules_loop xs rs) \<longleftrightarrow> has_rule v p rs
     \<or> (\<exists>x \<in> set xs. \<not> ds_enable x \<and> ds_idVendor x = v \<and> ds_idProduct x = p)"
proof (induction xs rs rule: rules_loop.induct)
  case (1 rules)
  then show ?case by simp
next
  case (2 x xs rs)
  have app: "has_rule v p (rs @ [r]) \<longleftrightarrow> has_rule v p rs \<or> dr_idVendor r = v \<and> dr_idProduct r = p" for r
    by (auto simp: has_rule_def)
  show ?case
  proof (cases "ds_enable x \<or> find_rule (ds_idVendor x) (ds_idProduct x) rs \<noteq> None")
    case True
    then show ?thesis using 2(1) by (auto simp: find_rule_None simp del: not_None_eq)
  next
    case False
    then show ?thesis using 2(2) by (auto simp: find_rule_None app simp del: not_None_eq)
  qed
qed

lemma getDeviceSettings_iff:
  "y \<in> set (getDeviceSettings s) \<longleftrightarrow> (\<exists>uid. getDeviceSetting uid s = Some y)"
  by (auto simp: getDeviceSettings_def List.map_filter_def getDeviceSetting_def split: if_splits)

lemma udev_rules_after:
  assumes "s_ok (dm_deviceSettings d)"
  shows "has_rule v p (dm_rules (addSetting env x d)) \<longleftrightarrow>
      \<not> ds_enable x \<and> ds_idVendor x = v \<and> ds_idProduct x = p
      \<or> (\<exists>uid y. uid \<noteq> ds_uid x \<and> getDeviceSetting uid (dm_deviceSettings d) = Some y \<and> \<not> ds_enable y
            \<and> ds_idVendor y = v \<and> ds_idProduct y = p)"
proof -
  let ?s = "putSetting x (dm_deviceSettings d)"
  have rules: "dm_rules (addSetting env x d) = rules_loop (getDeviceSettings ?s) []"
    by (simp add: addSetting_def updateUdevRules_def Let_def)
  have get: "getDeviceSetting uid ?s = (if uid = ds_uid x then Some x else getDeviceSetting uid (dm_deviceSettings d))" for uid
    by (rule getDeviceSetting_put [OF assms])
  have "has_rule v p (dm_rules (addSetting env x d)) \<longleftrightarrow>
      (\<exists>uid y. getDeviceSetting uid ?s = Some y \<and> \<not> ds_enable y \<and> ds_idVendor y = v \<and> ds_idProduct y = p)"
    unfolding rules rules_loop_has Bex_def getDeviceSettings_iff by (auto simp: has_rule_def)
  then show ?thesis unfolding get by auto
qed

lemma udev_rules_hold:
  "s_ok (dm_deviceSettings d) \<Longrightarrow> \<not> ds_enable x \<Longrightarrow> has_rule (ds_idVendor x) (ds_idProduct x) (dm_rules (addSetting env x d))"
  by (simp add: udev_rules_after)

text \<open>The rule of a setting, and the settings that have one: the first of those with the same vendor and product.\<close>

definition rule_of :: "device_setting \<Rightarrow> device_rule" where
  "rule_of y = \<lparr>dr_idVendor = ds_idVendor y, dr_idProduct = ds_idProduct y, dr_read = ds_read y,
     dr_write = ds_write y, dr_execute = ds_execute y, dr_interfaceType = ds_interfaceType y\<rparr>"

definition first_of_ids :: "device_setting \<Rightarrow> device_setting list \<Rightarrow> bool" where
  "first_of_ids y ys \<longleftrightarrow> List.find (\<lambda>z. ds_idVendor z = ds_idVendor y \<and> ds_idProduct z = ds_idProduct y) ys = Some y"

lemma first_of_ids_Cons:
  "first_of_ids y (x # ys) \<longleftrightarrow> y = x \<or> first_of_ids y ys \<and> (ds_idVendor x, ds_idProduct x) \<noteq> (ds_idVendor y, ds_idProduct y)"
  by (auto simp: first_of_ids_def)

lemma rules_loop_set:
  "set (rules_loop xs rs) = set rs
     \<union> rule_of ` {y. first_of_ids y (filter (\<lambda>y. \<not> ds_enable y) xs) \<and> \<not> has_rule (ds_idVendor y) (ds_idProduct y) rs}"
proof (induction xs rs rule: rules_loop.induct)
  case (1 rules)
  then show ?case by (simp add: first_of_ids_def)
next
  case (2 x xs rs)
  have app: "has_rule v p (rs @ [r]) \<longleftrightarrow> has_rule v p rs \<or> dr_idVendor r = v \<and> dr_idProduct r = p" for r v p
    by (auto simp: has_rule_def)
  show ?case
  proof (cases "ds_enable x \<or> find_rule (ds_idVendor x) (ds_idProduct x) rs \<noteq> None")
    case True
    then show ?thesis using 2(1) by (auto simp: find_rule_None first_of_ids_Cons simp del: not_None_eq)
  next
    case False
    then have "set (rules_loop (x # xs) rs) = set (rules_loop xs (rs @ [rule_of x]))" by (simp add: rule_of_def)
    also have "\<dots> = set rs \<union> {rule_of x} \<union> rule_of ` {y. first_of_ids y (filter (\<lambda>y. \<not> ds_enable y) xs)
          \<and> \<not> has_rule (ds_idVendor y) (ds_idProduct y) (rs @ [rule_of x])}"
      using 2(2) [OF False] by (simp add: rule_of_def)
    also have "\<dots> = set rs \<union> rule_of ` {y. first_of_ids y (filter (\<lambda>y. \<not> ds_enable y) (x # xs))
          \<and> \<not> has_rule (ds_idVendor y) (ds_idProduct y) rs}"
      using False by (auto simp: app first_of_ids_Cons find_rule_None rule_of_def)
    finally show ?thesis .
  qed
qed

definition rule_ids :: "device_rule \<Rightarrow> string \<times> string" where
  "rule_ids r = (dr_idVendor r, dr_idProduct r)"

lemma rules_loop_distinct: "distinct (map rule_ids rs) \<Longrightarrow> distinct (map rule_ids (rules_loop xs rs))"
proof (induction xs rs rule: rules_loop.induct)
  case (2 x xs rs)
  show ?case
  proof (cases "ds_enable x \<or> find_rule (ds_idVendor x) (ds_idProduct x) rs \<noteq> None")
    case True
    then show ?thesis using 2(1) [OF True 2(3)] by simp
  next
    case False
    then have "rule_ids (rule_of x) \<notin> set (map rule_ids rs)"
      by (auto simp: find_rule_None has_rule_def rule_ids_def rule_of_def)
    with 2(3) have "distinct (map rule_ids (rs @ [rule_of x]))" by simp
    from 2(2) [OF False this [unfolded rule_of_def]] False show ?thesis by simp
  qed
qed simp

text \<open>C14: Every change of a device's settings changes the settings of this device only, and rewrites the
  udev rules before it returns: they are exactly the rules of the disabled devices, one for each
  vendor and product (that of the first such device), and the rules file holds exactly their texts;
  it does not exist when there is none or when it cannot be opened for writing.\<close>

theorem udev_rules_follow_settings:
  assumes "s_ok (dm_deviceSettings d)" and "qm_ok (dm_files d)"
    and "d' = addSetting env x d" "disabled = filter (\<lambda>y. \<not> ds_enable y) (getDeviceSettings (dm_deviceSettings d'))"
  shows "(\<forall>uid. getDeviceSetting uid (dm_deviceSettings d') =
            (if uid = ds_uid x then Some x else getDeviceSetting uid (dm_deviceSettings d)))
     \<and> set disabled = {y. (\<exists>uid. getDeviceSetting uid (dm_deviceSettings d') = Some y) \<and> \<not> ds_enable y}
     \<and> set (dm_rules d') = rule_of ` {y. first_of_ids y disabled}
     \<and> distinct (map rule_ids (dm_rules d')) \<and> rule_ids ` set (dm_rules d') = (\<lambda>y. (ds_idVendor y, ds_idProduct y)) ` set disabled
     \<and> qm_value SSR_DEVICE_UDEV_RULES_FILE (dm_files d') =
          (let ls = List.map_filter rulleObj2Str (dm_rules d')
           in if ls = [] \<or> \<not> de_can_write env SSR_DEVICE_UDEV_RULES_FILE then None else Some (lines_text ls))"
proof (intro conjI)
  let ?s = "putSetting x (dm_deviceSettings d)"
  have s: "dm_deviceSettings d' = ?s" and rules: "dm_rules d' = rules_loop (getDeviceSettings ?s) []"
    by (simp_all add: assms(3) addSetting_def updateUdevRules_def Let_def)
  show "\<forall>uid. getDeviceSetting uid (dm_deviceSettings d') =
            (if uid = ds_uid x then Some x else getDeviceSetting uid (dm_deviceSettings d))"
    unfolding s by (blast intro: getDeviceSetting_put [OF assms(1)])
  show "set disabled = {y. (\<exists>uid. getDeviceSetting uid (dm_deviceSettings d') = Some y) \<and> \<not> ds_enable y}"
    unfolding assms(4) set_filter getDeviceSettings_iff ..
  show r: "set (dm_rules d') = rule_of ` {y. first_of_ids y disabled}"
    unfolding rules rules_loop_set assms(4) s by (simp add: has_rule_def)
  show "distinct (map rule_ids (dm_rules d'))"
    unfolding rules by (rule rules_loop_distinct) simp
  have "(v, p) \<in> rule_ids ` set (dm_rules d') \<longleftrightarrow> (v, p) \<in> (\<lambda>y. (ds_idVendor y, ds_idProduct y)) ` set disabled" for v p
    using rules_loop_has [of v p "getDeviceSettings ?s" "[]"] unfolding rules assms(4) s
    by (auto simp: has_rule_def rule_ids_def image_iff)
  then show "rule_ids ` set (dm_rules d') = (\<lambda>y. (ds_idVendor y, ds_idProduct y)) ` set disabled"
    by (auto simp only: set_eq_iff split_paired_All)
  show "qm_value SSR_DEVICE_UDEV_RULES_FILE (dm_files d') =
          (let ls = List.map_filter rulleObj2Str (dm_rules d')
           in if ls = [] \<or> \<not> de_can_write env SSR_DEVICE_UDEV_RULES_FILE then None else Some (lines_text ls))"
    using assms(2) by (simp add: assms(3) addSetting_def updateUdevRules_def save_lines_def Let_def
        qm_value_insert qm_value_remove qm_ok_remove del: qm_insert.simps)
qed

definition sample_setting :: "bool \<Rightarrow> device_setting" where
  "sample_setting enable = \<lparr>ds_uid = ''USB096e0202'', ds_id = ''096e:0202:1-2'', ds_name = ''key'',
     ds_idVendor = ''096e'', ds_idProduct = ''0202'', ds_read = True, ds_write = False, ds_execute = False,
     ds_enable = enable, ds_type = 1, ds_interfaceType = 1\<rparr>"

theorem udev_rules_follow_settings_witness:
  "(''096e'', ''0202'') \<in> rule_ids ` set (dm_rules (addSetting (sample_env False) (sample_setting False) sample_dm))"
proof -
  let ?d = "addSetting (sample_env False) (sample_setting False) sample_dm"
  have ok: "s_ok (dm_deviceSettings sample_dm)" "qm_ok (dm_files sample_dm)" by (simp_all add: sample_dm_def)
  note all = udev_rules_follow_settings [OF ok refl refl, of "sample_env False" "sample_setting False"]
  have "getDeviceSetting (ds_uid (sample_setting False)) (dm_deviceSettings ?d) = Some (sample_setting False)"
    using all [THEN conjunct1] by simp
  then have "sample_setting False \<in> set (filter (\<lambda>y. \<not> ds_enable y) (getDeviceSettings (dm_deviceSettings ?d)))"
    unfolding set_filter getDeviceSettings_iff by (auto simp: sample_setting_def)
  then have "(ds_idVendor (sample_setting False), ds_idProduct (sample_setting False)) \<in> rule_ids ` set (dm_rules ?d)"
    using all [THEN conjunct2, THEN conjunct2, THEN conjunct2, THEN conjunct2, THEN conjunct1] by (simp only:) (rule imageI)
  then show ?thesis by (simp add: sample_setting_def)
qed

end
