(* ===== verification/UsbDevice.thy ===== *)
theory UsbDevice
  imports DmConfig
begin

text \<open>
  Device management, second part: \<open>src/daemon/dm/device.cpp\<close>, \<open>usb-device.cpp\<close>,
  \<open>usb-device-description.cpp\<close>, \<open>drm-device.cpp\<close> and \<open>device-factory.cpp\<close>: what a device
  is created as, its type, whether the kernel is told to authorize it, and how a decision of the
  administrator is stored and found again. The attributes of a device are read through
  \<open>de_from_syspath\<close>, as the object of systemd's library answers at that moment.
\<close>

section \<open>Descriptions\<close>

text \<open>One line of \<open>usb.ids\<close>; the pair is \<open>m_prevVendorID\<close> and \<open>m_descs\<close>.\<close>

definition processDescriptionLine :: "string \<Rightarrow> string \<times> (string, string) qmap \<Rightarrow> string \<times> (string, string) qmap" where
  "processDescriptionLine idLine u =
     (if contains idLine ''#'' \<or> idLine = [] then u
      else let strs = split idLine ''  '' in
           if length strs \<noteq> 2 then u
           else let ident = right 4 (strs ! 0); desc = strs ! 1 in
                if startsWith idLine [CHR 0x09]
                then (fst u, qm_insert (fst u @ '':'' @ ident) desc (snd u))
                else (ident, qm_insert ident desc (snd u)))"

definition desc_init :: "string option \<Rightarrow> (string, string) qmap" where
  "desc_init f = (case f of None \<Rightarrow> [] | Some s \<Rightarrow> snd (fold processDescriptionLine (read_lines s) ([], [])))"

definition getManufacturerDesc :: "string \<Rightarrow> (string, string) qmap \<Rightarrow> string" where
  "getManufacturerDesc idVendor descs = qs_str (qm_value idVendor descs)"

definition getProductDesc :: "string \<Rightarrow> string \<Rightarrow> (string, string) qmap \<Rightarrow> string" where
  "getProductDesc idVendor idProduct descs = qs_str (qm_value (idVendor @ '':'' @ idProduct) descs)"

section \<open>The type of a USB device\<close>

record interface_class =
  bInterfaceClass :: int
  bInterfaceSubClass :: int
  bInterfaceProtocol :: int

definition hidProtocol2DevcieType :: "interface_class \<Rightarrow> DeviceType" where
  "hidProtocol2DevcieType i =
     (if bInterfaceSubClass i = 1 \<and> bInterfaceProtocol i = 1 then DEVICE_TYPE_KEYBOARD else DEVICE_TYPE_MOUSE)"

definition wcProtocol2DevcieType :: "interface_class \<Rightarrow> DeviceType" where
  "wcProtocol2DevcieType i =
     (if bInterfaceSubClass i = 1 \<and> bInterfaceProtocol i = 1 then DEVICE_TYPE_BLUETOOTH else DEVICE_TYPE_BLUETOOTH)"

definition interfaceProtocol2DevcieType :: "interface_class \<Rightarrow> DeviceType" where
  "interfaceProtocol2DevcieType i =
     (let c = bInterfaceClass i in
      if c = 1 then DEVICE_TYPE_AUDIO
      else if c = 2 then DEVICE_TYPE_COMMUNICATIONS
      else if c = 3 then hidProtocol2DevcieType i
      else if c = 7 then DEVICE_TYPE_PRINTER
      else if c = 8 then DEVICE_TYPE_STORAGE
      else if c = 9 then DEVICE_TYPE_HUB
      else if c = 14 then DEVICE_TYPE_VIDEO
      else if c = 224 then wcProtocol2DevcieType i
      else DEVICE_TYPE_OTHER)"

definition sysattr :: "sd_device \<Rightarrow> string \<Rightarrow> string" where
  "sysattr sd attr = qs_str (sd_sysattr sd attr)"

definition parseDeviceInterfaceClassType :: "dm_env \<Rightarrow> string \<Rightarrow> DeviceType" where
  "parseDeviceInterfaceClassType env syspath =
     (case sd_sysname (de_from_syspath env syspath) of
        None \<Rightarrow> DEVICE_TYPE_OTHER
      | Some sysname \<Rightarrow>
          let child = syspath @ ''/'' @ sysname @ '':1.0'' in
          if \<not> de_exists env child then DEVICE_TYPE_OTHER
          else let sd = de_from_syspath env child in
               interfaceProtocol2DevcieType
                 \<lparr>bInterfaceClass = toInt_base 16 (sysattr sd ''bInterfaceClass''),
                  bInterfaceSubClass = toInt_base 16 (sysattr sd ''bInterfaceSubClass''),
                  bInterfaceProtocol = toInt_base 16 (sysattr sd ''bInterfaceProtocol'')\<rparr>)"

definition deviceClass2DeviceType :: "dm_env \<Rightarrow> string \<Rightarrow> DeviceType" where
  "deviceClass2DeviceType env syspath =
     (if toInt_base 16 (sysattr (de_from_syspath env syspath) ''bDeviceClass'') = 9
      then DEVICE_TYPE_HUB else DEVICE_TYPE_OTHER)"

definition m_fixedTypes :: "(string, DeviceType) qmap" where
  "m_fixedTypes = [(''096e:0202'', DEVICE_TYPE_STORAGE)]"

definition parseDeviceType :: "dm_env \<Rightarrow> string \<Rightarrow> string \<Rightarrow> string \<Rightarrow> DeviceType" where
  "parseDeviceType env idVendor idProduct syspath =
     (let type = (case qm_value (idVendor @ '':'' @ idProduct) m_fixedTypes of
                    None \<Rightarrow> parseDeviceInterfaceClassType env syspath
                  | Some t \<Rightarrow> t)
      in if type \<noteq> DEVICE_TYPE_OTHER then type else deviceClass2DeviceType env syspath)"

section \<open>Authorization\<close>

definition isEnable :: "device \<Rightarrow> dm \<Rightarrow> bool" where
  "isEnable dv d =
     (let usbEnable = isIFCEnable INTERFACE_TYPE_USB d;
          kbdEnable = isIFCEnable INTERFACE_TYPE_USB_KBD d;
          mouseEnable = isIFCEnable INTERFACE_TYPE_USB_MOUSE d;
          type = dv_type dv
      in if dv_state dv = DEVICE_STATE_DISABLE then False
         else if \<not> usbEnable
         then (if (kbdEnable \<or> mouseEnable) \<and> type = DEVICE_TYPE_HUB then True
               else if kbdEnable \<and> type = DEVICE_TYPE_KEYBOARD then True
               else if mouseEnable \<and> type = DEVICE_TYPE_MOUSE then True
               else False)
         else if type = DEVICE_TYPE_HUB \<or> type = DEVICE_TYPE_KEYBOARD \<or> type = DEVICE_TYPE_MOUSE then True
         else dv_state dv = DEVICE_STATE_ENABLE)"

definition authorized_path :: "string \<Rightarrow> string" where
  "authorized_path syspath = syspath @ ''/authorized''"

definition setDeviceAuthorized :: "dm_env \<Rightarrow> device \<Rightarrow> dm \<Rightarrow> dm" where
  "setDeviceAuthorized env dv d =
     (if \<not> de_can_write env (authorized_path (dv_syspath dv)) then d
      else d\<lparr>dm_files := qm_insert (authorized_path (dv_syspath dv)) (if isEnable dv d then ''1'' else ''0'') (dm_files d)\<rparr>)"

definition initPermission :: "dm_env \<Rightarrow> device \<Rightarrow> dm \<Rightarrow> device \<times> dm" where
  "initPermission env dv d =
     (case getDeviceSetting (dv_uid dv) (dm_deviceSettings d) of
        None \<Rightarrow>
          (let dv = dv\<lparr>dv_state := DEVICE_STATE_UNAUTHORIED\<rparr> in (dv, setDeviceAuthorized env dv d))
      | Some setting \<Rightarrow>
          (let dv = dv\<lparr>dv_permission := \<lparr>p_read = ds_read setting, p_write = ds_write setting, p_execute = ds_execute setting\<rparr>,
                       dv_state := (if ds_enable setting then DEVICE_STATE_ENABLE else DEVICE_STATE_DISABLE)\<rparr>
           in (dv, setDeviceAuthorized env dv d)))"

section \<open>Construction\<close>

definition new_device :: "dm_env \<Rightarrow> device_class \<Rightarrow> string \<Rightarrow> device" where
  "new_device env cl syspath =
     \<lparr>dv_class = cl, dv_id = [], dv_name = [], dv_syspath = syspath, dv_type = DEVICE_TYPE_OTHER,
      dv_interfaceType = INTERFACE_TYPE_OTHER, dv_state = DEVICE_STATE_UNAUTHORIED,
      dv_permission = \<lparr>p_read = False, p_write = False, p_execute = False\<rparr>,
      dv_connectedTime = de_now_ms env, dv_idProduct = [], dv_idVendor = [],
      dv_manufacturer = [], dv_product = [], dv_uid = []\<rparr>"

definition usb_init :: "dm_env \<Rightarrow> (string, string) qmap \<Rightarrow> device \<Rightarrow> device" where
  "usb_init env descs dv =
     (let sd = de_from_syspath env (dv_syspath dv);
          idVendor = sysattr sd ''idVendor'';
          idProduct = sysattr sd ''idProduct'';
          product = (case sd_sysattr sd ''product'' of None \<Rightarrow> getProductDesc idVendor idProduct descs | Some s \<Rightarrow> s);
          manufacturer = (case sd_sysattr sd ''manufacturer'' of None \<Rightarrow> getManufacturerDesc idVendor descs | Some s \<Rightarrow> s)
      in dv\<lparr>dv_idVendor := idVendor, dv_idProduct := idProduct, dv_product := product,
            dv_manufacturer := manufacturer,
            dv_uid := ''USB'' @ idVendor @ idProduct,
            dv_id := idVendor @ '':'' @ idProduct @ '':'' @ sysattr sd ''busnum'' @ ''-'' @ sysattr sd ''devnum'',
            dv_name := product,
            dv_type := parseDeviceType env idVendor idProduct (dv_syspath dv),
            dv_interfaceType := INTERFACE_TYPE_USB\<rparr>)"

definition newUSBDevice :: "dm_env \<Rightarrow> string \<Rightarrow> dm \<Rightarrow> device \<times> dm" where
  "newUSBDevice env syspath d =
     initPermission env (usb_init env (dm_descs d) (new_device env USBDevice syspath)) d"

definition newDRMDevice :: "dm_env \<Rightarrow> string \<Rightarrow> device" where
  "newDRMDevice env syspath =
     (let dv = new_device env DRMDevice syspath
      in if contains (baseName (qs_str (sd_syspath (de_from_syspath env syspath)))) ''HDMI''
         then dv\<lparr>dv_interfaceType := INTERFACE_TYPE_HDMI\<rparr> else dv)"

definition createDevice :: "dm_env \<Rightarrow> sd_device \<Rightarrow> dm \<Rightarrow> device option \<times> dm" where
  "createDevice env sd d =
     (let subsystem = qs_str (sd_subsystem sd);
          devtype = qs_str (sd_devtype sd);
          syspath = qs_str (sd_syspath sd)
      in if subsystem = ''usb'' \<and> devtype = ''usb_device''
         then (let (dv, d) = newUSBDevice env syspath d in (Some dv, d))
         else if subsystem = ''drm'' then (Some (newDRMDevice env syspath), d)
         else (None, d))"

section \<open>Operations of a device\<close>

text \<open>The methods of \<open>Device\<close> that \<open>USBDevice\<close> overrides.\<close>

definition device_setting_of :: "device \<Rightarrow> bool \<Rightarrow> device_setting" where
  "device_setting_of dv enable =
     \<lparr>ds_uid = dv_uid dv, ds_id = dv_id dv, ds_name = dv_name dv, ds_idVendor = dv_idVendor dv,
      ds_idProduct = dv_idProduct dv, ds_read = p_read (dv_permission dv), ds_write = p_write (dv_permission dv),
      ds_execute = p_execute (dv_permission dv), ds_enable = enable, ds_type = DeviceType_int (dv_type dv),
      ds_interfaceType = dv_interfaceType dv\<rparr>"

definition setEnable :: "dm_env \<Rightarrow> bool \<Rightarrow> device \<Rightarrow> dm \<Rightarrow> bool \<times> device \<times> dm" where
  "setEnable env enable dv d =
     (case dv_class dv of
        DRMDevice \<Rightarrow> (False, dv, d)
      | USBDevice \<Rightarrow>
          (let d = addSetting env (device_setting_of dv enable) d;
               dv = dv\<lparr>dv_state := (if enable then DEVICE_STATE_ENABLE else DEVICE_STATE_DISABLE)\<rparr>
           in (True, dv, setDeviceAuthorized env dv d)))"

definition update :: "dm_env \<Rightarrow> device \<Rightarrow> dm \<Rightarrow> device \<times> dm" where
  "update env dv d =
     (case dv_class dv of
        DRMDevice \<Rightarrow> (dv, d)
      | USBDevice \<Rightarrow>
          (let type = parseDeviceType env (dv_idVendor dv) (dv_idProduct dv) (dv_syspath dv);
               dv = (if type \<noteq> DEVICE_TYPE_OTHER then dv\<lparr>dv_type := type\<rparr> else dv)
           in (dv, setDeviceAuthorized env dv d)))"

definition trigger :: "dm_env \<Rightarrow> device \<Rightarrow> dm \<Rightarrow> dm" where
  "trigger env dv d =
     (let filename = qs_str (sd_syspath (de_from_syspath env (dv_syspath dv))) @ ''/uevent''
      in if \<not> de_can_write env filename then d
         else d\<lparr>dm_files := qm_insert filename ''change'' (dm_files d)\<rparr>)"

definition device_toJsonObject :: "device \<Rightarrow> json" where
  "device_toJsonObject dv =
     JObj [(''id'', JStr (dv_id dv)), (''name'', JStr (dv_name dv)),
           (''type'', JInt (DeviceType_int (dv_type dv))),
           (''interface_type'', JInt (dv_interfaceType dv)),
           (''read'', JBool (p_read (dv_permission dv))), (''write'', JBool (p_write (dv_permission dv))),
           (''execute'', JBool (p_execute (dv_permission dv))),
           (''state'', JInt (DeviceState_int (dv_state dv)))]"

section \<open>What a device file says\<close>

lemma addSetting_fields [frame_simps, simp]:
  "dm_deviceSettings (addSetting env x d) = putSetting x (dm_deviceSettings d)"
  "dm_interfaceSettings (addSetting env x d) = dm_interfaceSettings d"
  "dm_isEnableHDMI (addSetting env x d) = dm_isEnableHDMI d"
  "dm_devices (addSetting env x d) = dm_devices d"
  "d_effects (addSetting env x d) = d_effects d"
  by (simp_all add: addSetting_def updateUdevRules_def Let_def)

lemma setDeviceAuthorized_fields [frame_simps, simp]:
  "dm_deviceSettings (setDeviceAuthorized env dv d) = dm_deviceSettings d"
  "dm_interfaceSettings (setDeviceAuthorized env dv d) = dm_interfaceSettings d"
  "dm_isEnableHDMI (setDeviceAuthorized env dv d) = dm_isEnableHDMI d"
  "dm_devices (setDeviceAuthorized env dv d) = dm_devices d"
  "d_effects (setDeviceAuthorized env dv d) = d_effects d"
  by (simp_all add: setDeviceAuthorized_def)

lemma isEnable_cong:
  "dm_interfaceSettings d = dm_interfaceSettings d' \<Longrightarrow> isEnable dv d = isEnable dv d'"
  by (simp add: isEnable_def isIFCEnable_def)

lemma authorized_written:
  "qm_ok (dm_files d) \<Longrightarrow> de_can_write env (authorized_path (dv_syspath dv)) \<Longrightarrow>
     qm_value (authorized_path (dv_syspath dv)) (dm_files (setDeviceAuthorized env dv d)) =
       Some (if isEnable dv d then ''1'' else ''0'')"
  by (simp add: setDeviceAuthorized_def qm_value_insert)

lemma isEnable_disabled: "dv_state dv = DEVICE_STATE_DISABLE \<Longrightarrow> \<not> isEnable dv d"
  by (simp add: isEnable_def)

lemma usb_init_fields [simp]:
  "dv_uid (usb_init env descs dv) = ''USB'' @ sysattr (de_from_syspath env (dv_syspath dv)) ''idVendor''
     @ sysattr (de_from_syspath env (dv_syspath dv)) ''idProduct''"
  "dv_syspath (usb_init env descs dv) = dv_syspath dv"
  "dv_class (usb_init env descs dv) = dv_class dv"
  "dv_permission (usb_init env descs dv) = dv_permission dv"
  by (simp_all add: usb_init_def Let_def)

lemma new_device_fields [simp]:
  "dv_syspath (new_device env cl syspath) = syspath" "dv_class (new_device env cl syspath) = cl"
  by (simp_all add: new_device_def)

lemma initPermission_device:
  "fst (initPermission env dv d) =
     (case getDeviceSetting (dv_uid dv) (dm_deviceSettings d) of
        None \<Rightarrow> dv\<lparr>dv_state := DEVICE_STATE_UNAUTHORIED\<rparr>
      | Some x \<Rightarrow> dv\<lparr>dv_permission := \<lparr>p_read = ds_read x, p_write = ds_write x, p_execute = ds_execute x\<rparr>,
                       dv_state := (if ds_enable x then DEVICE_STATE_ENABLE else DEVICE_STATE_DISABLE)\<rparr>)"
  "snd (initPermission env dv d) = setDeviceAuthorized env (fst (initPermission env dv d)) d"
  by (simp_all add: initPermission_def Let_def split: option.splits)

text \<open>C11: The administrator's decision on a USB device survives: whenever later, in a daemon with the same
  stored settings, a device of the same vendor and product appears at any place, it gets the state
  and the permissions the decision left, and a disabled one is not authorized, whatever the switches
  of the interfaces are.\<close>

theorem decision_survives_replug:
  assumes "s_ok (dm_deviceSettings d)" and "dv_class dv = USBDevice"
    and "dv_uid dv = ''USB'' @ dv_idVendor dv @ dv_idProduct dv"
    and "setEnable env enable dv d = (res, dv', d')"
    and "dm_deviceSettings d2 = dm_deviceSettings d'" and "qm_ok (dm_files d2)"
    and "sysattr (de_from_syspath env2 path) ''idVendor'' = dv_idVendor dv"
    and "sysattr (de_from_syspath env2 path) ''idProduct'' = dv_idProduct dv"
    and "de_can_write env2 (authorized_path path)"
  shows "dv_state (fst (newUSBDevice env2 path d2)) = (if enable then DEVICE_STATE_ENABLE else DEVICE_STATE_DISABLE)
     \<and> dv_permission (fst (newUSBDevice env2 path d2)) = dv_permission dv
     \<and> (\<not> enable \<longrightarrow> qm_value (authorized_path path) (dm_files (snd (newUSBDevice env2 path d2))) = Some ''0'')"
proof -
  let ?dv = "usb_init env2 (dm_descs d2) (new_device env2 USBDevice path)"
  have "dm_deviceSettings d2 = putSetting (device_setting_of dv enable) (dm_deviceSettings d)"
    using assms(2,4,5) by (auto simp: setEnable_def Let_def)
  moreover have "dv_uid ?dv = ds_uid (device_setting_of dv enable)"
    using assms(3,7,8) by (simp add: device_setting_of_def)
  ultimately have get: "getDeviceSetting (dv_uid ?dv) (dm_deviceSettings d2) = Some (device_setting_of dv enable)"
    using getDeviceSetting_put_same [OF assms(1)] by simp
  let ?nv = "fst (newUSBDevice env2 path d2)"
  have nv: "dv_state ?nv = (if enable then DEVICE_STATE_ENABLE else DEVICE_STATE_DISABLE)"
      "dv_permission ?nv = dv_permission dv" "dv_syspath ?nv = path"
    by (simp_all add: newUSBDevice_def initPermission_device get del: usb_init_fields(1))
      (simp_all add: device_setting_of_def)
  have "snd (newUSBDevice env2 path d2) = setDeviceAuthorized env2 ?nv d2"
    by (simp add: newUSBDevice_def initPermission_device(2))
  then have "qm_value (authorized_path path) (dm_files (snd (newUSBDevice env2 path d2))) =
      Some (if isEnable ?nv d2 then ''1'' else ''0'')"
    using authorized_written [OF assms(6), of env2 ?nv] assms(9) nv(3) by simp
  with nv(1,2) isEnable_disabled [of ?nv d2] show ?thesis by simp
qed

text \<open>A USB device nobody has decided on is not authorized, unless it is a hub, a keyboard or a mouse.\<close>

theorem usb_default_deny:
  assumes "newUSBDevice env path d = (dv, d')" and "qm_ok (dm_files d)" and "de_can_write env (authorized_path path)"
    and "getDeviceSetting (dv_uid dv) (dm_deviceSettings d) = None"
    and "dv_type dv \<notin> {DEVICE_TYPE_HUB, DEVICE_TYPE_KEYBOARD, DEVICE_TYPE_MOUSE}"
  shows "qm_value (authorized_path path) (dm_files d') = Some ''0'' \<and> dv_state dv = DEVICE_STATE_UNAUTHORIED"
proof -
  let ?dv = "usb_init env (dm_descs d) (new_device env USBDevice path)"
  have dv: "dv = fst (initPermission env ?dv d)" and d': "d' = setDeviceAuthorized env dv d"
    using assms(1) initPermission_device(2) [of env ?dv d] by (simp_all add: newUSBDevice_def)
  have "dv_uid dv = dv_uid ?dv" "dv_syspath dv = path"
    by (simp_all add: dv initPermission_device split: option.splits)
  with assms(4) have "dv_state dv = DEVICE_STATE_UNAUTHORIED"
    by (simp add: dv initPermission_device)
  moreover from this assms(5) have "\<not> isEnable dv d" by (simp add: isEnable_def Let_def)
  ultimately show ?thesis
    using authorized_written [OF assms(2), of env dv] assms(3) \<open>dv_syspath dv = path\<close> by (simp add: d')
qed

definition sample_sd :: "string \<Rightarrow> sd_device" where
  "sample_sd path = null_sd\<lparr>sd_syspath := Some path, sd_subsystem := Some ''usb'', sd_devtype := Some ''usb_device'',
     sd_sysname := Some ''1-1'',
     sd_sysattr := (\<lambda>a. map_of [(''idVendor'', ''096e''), (''idProduct'', ''0202''), (''busnum'', ''1''), (''devnum'', ''2'')] a)\<rparr>"

definition usb_env :: dm_env where
  "usb_env = (sample_env False)\<lparr>de_from_syspath := sample_sd, de_devices := [sample_sd ''/sys/u1'']\<rparr>"

definition sample_usb :: device where
  "sample_usb = fst (newUSBDevice usb_env ''/sys/u1'' sample_dm)"

lemma usb_env_attrs [simp]:
  "sysattr (de_from_syspath usb_env path) ''idVendor'' = ''096e''"
  "sysattr (de_from_syspath usb_env path) ''idProduct'' = ''0202''"
  "de_can_write usb_env path"
  by (simp_all add: usb_env_def sample_sd_def sysattr_def sample_env_def)

lemma sample_dm_ok [simp]: "s_ok (dm_deviceSettings sample_dm)" "qm_ok (dm_files sample_dm)"
  by (simp_all add: sample_dm_def)

lemma sample_usb_fields [simp]:
  "dv_class sample_usb = USBDevice" "dv_uid sample_usb = ''USB096e0202''"
  "dv_idVendor sample_usb = ''096e''" "dv_idProduct sample_usb = ''0202''"
  "dv_type sample_usb = DEVICE_TYPE_STORAGE" "dv_interfaceType sample_usb = INTERFACE_TYPE_USB"
  by (simp_all add: sample_usb_def newUSBDevice_def initPermission_device getDeviceSetting_def sample_dm_def
      s_childGroups_def qm_keys_def) (simp_all add: usb_init_def Let_def parseDeviceType_def m_fixedTypes_def qm_value_def)

theorem decision_survives_replug_witness:
  "qm_value ''/sys/u2/authorized'' (dm_files (snd (newUSBDevice usb_env ''/sys/u2''
      (snd (snd (setEnable usb_env False sample_usb sample_dm)))))) = Some ''0''"
proof -
  obtain res dv' d' where E: "setEnable usb_env False sample_usb sample_dm = (res, dv', d')"
    by (cases "setEnable usb_env False sample_usb sample_dm")
  have "d' = setDeviceAuthorized usb_env dv' (addSetting usb_env (device_setting_of sample_usb False) sample_dm)"
    using E by (auto simp: setEnable_def Let_def)
  then have "qm_ok (dm_files d')"
    by (simp add: setDeviceAuthorized_def addSetting_def updateUdevRules_def Let_def qm_ok_insert)
  then show ?thesis
    using decision_survives_replug [OF sample_dm_ok(1) _ _ E refl, of usb_env "''/sys/u2''"] E
    by (simp add: authorized_path_def)
qed

theorem usb_default_deny_witness:
  "qm_value ''/sys/u1/authorized'' (dm_files (snd (newUSBDevice usb_env ''/sys/u1'' sample_dm))) = Some ''0''"
proof -
  obtain d' where E: "newUSBDevice usb_env ''/sys/u1'' sample_dm = (sample_usb, d')"
    by (cases "newUSBDevice usb_env ''/sys/u1'' sample_dm") (simp add: sample_usb_def)
  have "getDeviceSetting (dv_uid sample_usb) (dm_deviceSettings sample_dm) = None"
    by (simp add: getDeviceSetting_def sample_dm_def s_childGroups_def qm_keys_def)
  then show ?thesis
    using usb_default_deny [OF E sample_dm_ok(2)] E by (simp add: authorized_path_def)
qed

section \<open>The switches and the devices\<close>

lemma switch_reads:
  assumes "s_ok (dm_interfaceSettings d)" and "type \<in> {INTERFACE_TYPE_USB, INTERFACE_TYPE_USB_KBD, INTERFACE_TYPE_USB_MOUSE}"
  shows "isIFCEnable t (setIFCEnable env type enable d) =
     (if t = type \<or> type = INTERFACE_TYPE_USB \<and> enable \<and> t \<in> {INTERFACE_TYPE_USB_KBD, INTERFACE_TYPE_USB_MOUSE}
      then enable else isIFCEnable t d)"
  using assms by (auto simp: setIFCEnable_USB setIFCEnable_plain isIFCEnable_set)

text \<open>The three USB switches are monotone: turning one on never takes the authorization of a device
  away, turning one off never gives it. But while the USB interface is on, the switches of keyboards
  and mice change nothing for any device.\<close>

theorem usb_switches_monotone:
  assumes "s_ok (dm_interfaceSettings d)" and "type \<in> {INTERFACE_TYPE_USB, INTERFACE_TYPE_USB_KBD, INTERFACE_TYPE_USB_MOUSE}"
  shows "(isEnable dv d \<longrightarrow> isEnable dv (setIFCEnable env type True d))
     \<and> (isEnable dv (setIFCEnable env type False d) \<longrightarrow> isEnable dv d)
     \<and> (type \<noteq> INTERFACE_TYPE_USB \<and> isIFCEnable INTERFACE_TYPE_USB d \<longrightarrow>
          isEnable dv (setIFCEnable env type enable d) = isEnable dv d)"
  unfolding isEnable_def switch_reads [OF assms] Let_def using assms(2) by auto

theorem usb_switches_monotone_witness:
  "isEnable sample_usb (setIFCEnable usb_env INTERFACE_TYPE_USB_KBD False sample_dm) = isEnable sample_usb sample_dm"
proof -
  have "s_ok (dm_interfaceSettings sample_dm)" "isIFCEnable INTERFACE_TYPE_USB sample_dm"
    by (simp_all add: sample_dm_def isIFCEnable_def s_childGroups_def qm_keys_def)
  then show ?thesis
    using usb_switches_monotone [of sample_dm INTERFACE_TYPE_USB_KBD sample_usb usb_env False] by simp
qed

section \<open>Looking up descriptions\<close>

text \<open>A file of vendors, each with its products, as \<open>usb.ids\<close> lists them.\<close>

type_synonym vendor = "string \<times> string \<times> (string \<times> string) list"

definition vendor_lines :: "vendor \<Rightarrow> string list" where
  "vendor_lines x = (case x of (v, n, ps) \<Rightarrow>
     (v @ ''  '' @ n) # map (\<lambda>(p, m). [CHR 0x09] @ p @ ''  '' @ m) ps)"

definition vendor_entries :: "vendor \<Rightarrow> (string \<times> string) list" where
  "vendor_entries x = (case x of (v, n, ps) \<Rightarrow> (v, n) # map (\<lambda>(p, m). (v @ '':'' @ p, m)) ps)"

definition usb_ident :: "string \<Rightarrow> bool" where
  "usb_ident i \<longleftrightarrow> length i = 4 \<and> (\<forall>c \<in> set i. is_digit c \<or> is_lower c)"

definition usb_name :: "string \<Rightarrow> bool" where
  "usb_name n \<longleftrightarrow> plain_line n \<and> CHR ''#'' \<notin> set n \<and> \<not> contains n ''  ''"

definition vendor_ok :: "vendor \<Rightarrow> bool" where
  "vendor_ok x = (case x of (v, n, ps) \<Rightarrow> usb_ident v \<and> usb_name n
     \<and> (\<forall>(p, m) \<in> set ps. usb_ident p \<and> usb_name m))"

lemma split_acc_none: "\<not> sublist sep s \<Longrightarrow> split_acc sep acc s = [rev acc @ s]"
  by (induction sep acc s rule: split_acc.induct) (auto simp: sublist_Cons_right)

lemma split_acc_skip:
  "sep \<noteq> [] \<Longrightarrow> hd sep \<notin> set a \<Longrightarrow>
     split_acc sep acc (a @ sep @ s) = (rev acc @ a) # split_acc sep [] s"
proof (induction a arbitrary: acc)
  case Nil
  then show ?case by (cases sep) auto
next
  case (Cons c a)
  then have "\<not> prefix sep (c # a @ sep @ s)" by (cases sep) auto
  with Cons show ?case by simp
qed

lemma split_line:
  assumes "CHR '' '' \<notin> set a" and "\<not> contains b ''  ''"
  shows "split (a @ ''  '' @ b) ''  '' = [a, b]"
  using split_acc_skip [of "''  ''" a "[]" b] split_acc_none [of "''  ''" b "[]"] assms
  by (simp add: split_def contains_iff_sublist)

lemma contains_char: "contains s [c] \<longleftrightarrow> c \<in> set s"
  by (simp add: contains_iff_sublist sublist_def) (metis split_list_first in_set_conv_decomp)

lemma usb_ident_chars: "usb_ident i \<Longrightarrow> c \<in> {CHR '' '', CHR ''#'', CHR 0x09, CHR 0x0A, CHR 0x0D} \<Longrightarrow> c \<notin> set i"
  by (auto simp: usb_ident_def is_digit_def is_lower_def Let_def)

lemma vendor_line:
  assumes "usb_ident v" and "usb_name n"
  shows "processDescriptionLine (v @ ''  '' @ n) u = (v, qm_insert v n (snd u))"
proof -
  have "CHR '' '' \<notin> set v" "CHR ''#'' \<notin> set (v @ ''  '' @ n)" "CHR 0x09 \<notin> set v" "length v = 4"
    using assms usb_ident_chars [OF assms(1)] by (auto simp: usb_name_def usb_ident_def)
  moreover from this have "\<not> startsWith (v @ ''  '' @ n) [CHR 0x09]"
    by (cases v) (auto simp: startsWith_def)
  moreover have "split (v @ ''  '' @ n) ''  '' = [v, n]"
    by (rule split_line) (use calculation assms(2) in \<open>auto simp: usb_name_def\<close>)
  ultimately show ?thesis
    by (simp add: processDescriptionLine_def contains_char right_def)
qed

lemma product_line:
  assumes "usb_ident p" and "usb_name m"
  shows "processDescriptionLine ([CHR 0x09] @ p @ ''  '' @ m) u = (fst u, qm_insert (fst u @ '':'' @ p) m (snd u))"
proof -
  have "CHR '' '' \<notin> set ([CHR 0x09] @ p)" "CHR ''#'' \<notin> set ([CHR 0x09] @ p @ ''  '' @ m)" "length p = 4"
    using assms usb_ident_chars [OF assms(1)] by (auto simp: usb_name_def usb_ident_def)
  moreover have "startsWith ([CHR 0x09] @ p @ ''  '' @ m) [CHR 0x09]" by (simp add: startsWith_def)
  moreover have "split (([CHR 0x09] @ p) @ ''  '' @ m) ''  '' = [[CHR 0x09] @ p, m]"
    by (rule split_line) (use calculation(1) assms(2) in \<open>auto simp: usb_name_def\<close>)
  ultimately show ?thesis
    by (simp add: processDescriptionLine_def contains_char right_def)
qed

abbreviation (input) "insert_entries \<equiv> fold (\<lambda>(k, v). qm_insert k v)"

lemma product_lines:
  "\<forall>(p, m) \<in> set ps. usb_ident p \<and> usb_name m \<Longrightarrow>
     fold processDescriptionLine (map (\<lambda>(p, m). [CHR 0x09] @ p @ ''  '' @ m) ps) u =
       (fst u, insert_entries (map (\<lambda>(p, m). (fst u @ '':'' @ p, m)) ps) (snd u))"
proof (induction ps arbitrary: u)
  case Nil
  then show ?case by simp
next
  case (Cons x ps)
  obtain p m where x: "x = (p, m)" by force
  show ?case using Cons by (simp add: x product_line [simplified])
qed

lemma vendor_fold:
  assumes "vendor_ok x"
  shows "fold processDescriptionLine (vendor_lines x) u = (fst x, insert_entries (vendor_entries x) (snd u))"
proof -
  obtain v n ps where x: "x = (v, n, ps)" by (cases x)
  with assms have "usb_ident v" "usb_name n" "\<forall>(p, m) \<in> set ps. usb_ident p \<and> usb_name m"
    by (auto simp: vendor_ok_def)
  then show ?thesis
    using product_lines [of ps "(v, qm_insert v n (snd u))"]
    by (simp add: x vendor_lines_def vendor_entries_def vendor_line [simplified])
qed

lemma vendors_fold:
  "\<forall>x \<in> set vs. vendor_ok x \<Longrightarrow>
     snd (fold processDescriptionLine (concat (map vendor_lines vs)) u) =
       insert_entries (concat (map vendor_entries vs)) (snd u)"
  by (induction vs arbitrary: u) (simp_all add: vendor_fold)

lemma vendor_lines_plain:
  assumes "vendor_ok x" and "l \<in> set (vendor_lines x)"
  shows "plain_line l"
proof -
  have line: "plain_line (i @ ''  '' @ n)" "plain_line (CHR 0x09 # i @ ''  '' @ n)"
    if "usb_ident i" "usb_name n" for i n
    using that usb_ident_chars [OF that(1), of "CHR 0x0A"] usb_ident_chars [OF that(1), of "CHR 0x0D"]
    by (simp_all add: plain_line_def usb_name_def)
  obtain v n ps where x: "x = (v, n, ps)" by (cases x)
  from assms(2) consider "l = v @ ''  '' @ n" | p m where "(p, m) \<in> set ps" "l = CHR 0x09 # p @ ''  '' @ m"
    by (auto simp: x vendor_lines_def)
  then show ?thesis
  proof cases
    case 1
    have "usb_ident v" "usb_name n" using assms(1) by (simp_all add: x vendor_ok_def)
    then show ?thesis unfolding 1 by (rule line(1))
  next
    case 2
    have "\<forall>(p, m) \<in> set ps. usb_ident p \<and> usb_name m" using assms(1) by (simp add: x vendor_ok_def)
    with 2(1) have "usb_ident p" "usb_name m" by blast+
    then show ?thesis unfolding 2 by (rule line(2))
  qed
qed

text \<open>The description file is read back as it is meant: from a file that lists vendors and, under each,
  its products, with four-digit identifiers and no identifier twice, every vendor's and every
  product's name is found under its identifiers.\<close>

theorem usb_ids_lookup:
  assumes "\<forall>x \<in> set vs. vendor_ok x" and "distinct (map fst (concat (map vendor_entries vs)))"
    and "(v, n, ps) \<in> set vs"
  shows "getManufacturerDesc v (desc_init (Some (lines_text (concat (map vendor_lines vs))))) = n
     \<and> (\<forall>(p, m) \<in> set ps.
          getProductDesc v p (desc_init (Some (lines_text (concat (map vendor_lines vs))))) = m)"
proof -
  let ?ls = "concat (map vendor_lines vs)" and ?es = "concat (map vendor_entries vs)"
  have "vendor_lines (v, n, ps) \<noteq> []" by (simp add: vendor_lines_def)
  then have ne: "?ls \<noteq> []" using assms(3) by auto
  have "read_lines (lines_text ?ls) = ?ls"
    by (rule read_lines_text [OF ne]) (use assms(1) vendor_lines_plain in auto)
  then have init: "desc_init (Some (lines_text ?ls)) = insert_entries ?es []"
    using vendors_fold [OF assms(1)] by (simp add: desc_init_def)
  have look: "qm_value k (insert_entries ?es []) = Some d" if "(k, d) \<in> set ?es" for k d
  proof -
    have "distinct (map fst (rev ?es))" using assms(2) by (simp add: rev_map [symmetric])
    then have "map_of (rev ?es) k = Some d" using that by (simp add: map_of_eq_Some_iff)
    then show ?thesis using qmap.lookup_fold_insert [OF qm_ok_Nil, of k ?es] by simp
  qed
  have sub: "e \<in> set (vendor_entries (v, n, ps)) \<Longrightarrow> e \<in> set ?es" for e
    using assms(3) by auto
  have "qm_value v (insert_entries ?es []) = Some n"
    by (rule look, rule sub) (simp add: vendor_entries_def)
  moreover have "qm_value (v @ '':'' @ p) (insert_entries ?es []) = Some m" if "(p, m) \<in> set ps" for p m
    by (rule look, rule sub) (use that in \<open>auto simp: vendor_entries_def\<close>)
  ultimately show ?thesis
    by (auto simp: init getManufacturerDesc_def getProductDesc_def)
qed

theorem usb_ids_lookup_witness:
  "getProductDesc ''096e'' ''0202'' (desc_init (Some (lines_text
      (concat (map vendor_lines [(''096e'', ''Feitian'', [(''0202'', ''Key 2'')])]))))) = ''Key 2''"
proof -
  let ?vs = "[(''096e'', ''Feitian'', [(''0202'', ''Key 2'')])]"
  have "\<forall>x \<in> set ?vs. vendor_ok x"
    by (simp add: vendor_ok_def usb_ident_def usb_name_def is_digit_def is_lower_def plain_line_def
        contains_def indexOf_def)
  moreover have "distinct (map fst (concat (map vendor_entries ?vs)))" by (simp add: vendor_entries_def)
  ultimately show ?thesis using usb_ids_lookup [of ?vs "''096e''" "''Feitian''" "[(''0202'', ''Key 2'')]"] by simp
qed

end
