(* ===== verification/DeviceManager.thy ===== *)
theory DeviceManager
  imports UsbDevice
begin

text \<open>
  Device management, third part: \<open>src/daemon/dm/device-mount-monitor.cpp\<close>,
  \<open>device-log.cpp\<close>, \<open>sd/sd-device-monitor.cpp\<close> and \<open>device-manager.cpp\<close>: the mount
  table and the remounting of storage whose permissions differ, the record of connections, and
  the events of udev from the monitor to the map of devices. Signals between the parts are direct
  calls, as Qt makes them within one thread.
\<close>

section \<open>The mount table\<close>

text \<open>
  One line of the table. The inner \<open>None\<close> is the null pointer; the outer one is
  \<open>QList::at\<close> past the end of a line of fewer than four fields, which aborts the daemon.
\<close>

definition processMountLine :: "string \<Rightarrow> device_mount option option" where
  "processMountLine mountLine =
     (if \<not> startsWith mountLine ''/dev'' then Some None
      else let strs = split mountLine '' '' in
           if length strs < 4 then None
           else let permissions = strs ! 3 in
                Some (Some \<lparr>dm_device = strs ! 0, dm_path = strs ! 1, dm_read = True,
                            dm_write = startsWith permissions ''rw,'',
                            dm_execute = \<not> contains permissions '',noexec,''\<rparr>))"

fun mount_loop :: "string list \<Rightarrow> (string, device_mount) qmap \<Rightarrow> (string, device_mount) qmap option" where
  "mount_loop [] mounts = Some mounts"
| "mount_loop (l # ls) mounts =
     (case processMountLine l of
        None \<Rightarrow> None
      | Some None \<Rightarrow> mount_loop ls mounts
      | Some (Some m) \<Rightarrow> mount_loop ls (qm_insert (dm_device m) m mounts))"

definition processMountFile :: "dm_env \<Rightarrow> (string, device_mount) qmap option" where
  "processMountFile env = (case de_mount_file env of None \<Rightarrow> Some [] | Some s \<Rightarrow> mount_loop (read_lines s) [])"

definition mount_changed :: "device_mount \<Rightarrow> dm \<Rightarrow> bool" where
  "mount_changed mount d =
     (case qm_value (dm_device mount) (dm_mounts d) of
        None \<Rightarrow> True
      | Some prev \<Rightarrow> dm_write prev \<noteq> dm_write mount \<or> dm_execute prev \<noteq> dm_execute mount)"

section \<open>Devices and mounts\<close>

definition getMountSyspath :: "dm_env \<Rightarrow> device_mount \<Rightarrow> qstring" where
  "getMountSyspath env mount =
     (case List.find (\<lambda>sd. qs_str (sd_devname sd) = dm_device mount) (de_devices env) of
        None \<Rightarrow> None | Some sd \<Rightarrow> sd_syspath sd)"

definition getParentDevice :: "string \<Rightarrow> dm \<Rightarrow> device option" where
  "getParentDevice syspath d =
     List.find (\<lambda>dv. dv_type dv \<noteq> DEVICE_TYPE_HUB
         \<and> startsWith syspath (if endsWith (dv_syspath dv) ''/'' then dv_syspath dv else dv_syspath dv @ ''/''))
       (qm_values (dm_devices d))"

definition isDeviceMountPerChanged :: "device \<Rightarrow> device_mount \<Rightarrow> bool" where
  "isDeviceMountPerChanged dv mount \<longleftrightarrow>
     dm_write mount \<noteq> p_write (dv_permission dv) \<or> dm_execute mount \<noteq> p_execute (dv_permission dv)"

definition remountDevice :: "device \<Rightarrow> device_mount \<Rightarrow> dm \<Rightarrow> dm" where
  "remountDevice dv mount d =
     (let options = ''remount'' @ (if p_write (dv_permission dv) then '',rw'' else '',ro'')
                    @ (if p_execute (dv_permission dv) then [] else '',noexec'')
      in act (Exec ''mount'' [''-o'', options, dm_device mount, dm_path mount]) d)"

definition handleMountEvent :: "dm_env \<Rightarrow> device_mount \<Rightarrow> dm \<Rightarrow> dm" where
  "handleMountEvent env mount d =
     (let mountSyspath = qs_str (getMountSyspath env mount)
      in if mountSyspath = [] then d
         else case getParentDevice mountSyspath d of
                None \<Rightarrow> d
              | Some dv \<Rightarrow> if isDeviceMountPerChanged dv mount then remountDevice dv mount d else d)"

definition checkMount :: "dm_env \<Rightarrow> device_mount \<Rightarrow> dm \<Rightarrow> dm" where
  "checkMount env mount d = (if mount_changed mount d then handleMountEvent env mount d else d)"

definition handleMountFileChanged :: "dm_env \<Rightarrow> dm \<Rightarrow> dm option" where
  "handleMountFileChanged env d =
     (case processMountFile env of
        None \<Rightarrow> None
      | Some mounts \<Rightarrow> Some ((fold (checkMount env) (qm_values mounts) d)\<lparr>dm_mounts := mounts\<rparr>))"

definition checkDeviceMount :: "dm_env \<Rightarrow> device \<Rightarrow> dm \<Rightarrow> dm" where
  "checkDeviceMount env dv d =
     (if dv_type dv \<noteq> DEVICE_TYPE_STORAGE then d
      else fold (\<lambda>mount d.
             let mountSyspath = qs_str (getMountSyspath env mount)
             in if mountSyspath = [] then d
                else if startsWith mountSyspath (dv_syspath dv) \<and> isDeviceMountPerChanged dv mount
                then remountDevice dv mount d else d)
           (qm_values (dm_mounts d)) d)"

section \<open>The record of connections\<close>

record device_record =
  rec_name :: string
  rec_type :: int
  rec_time :: int
  rec_state :: int

definition removeLastDeviceLog :: "qsettings \<Rightarrow> qsettings" where
  "removeLastDeviceLog s =
     (let groups = s_childGroups s
      in if \<not> (length groups > 1000) then s else s_remove (hd groups) s)"

definition addDeviceRecord :: "device_record \<Rightarrow> qsettings \<Rightarrow> qsettings" where
  "addDeviceRecord r s =
     (let grp = show_int (rec_time r); s = removeLastDeviceLog s
      in s_setValue grp ''state'' (VInt (rec_state r))
        (s_setValue grp ''type'' (VInt (rec_type r))
        (s_setValue grp ''name'' (VStr (rec_name r)) s)))"

definition getDeviceRecord :: "string \<Rightarrow> qsettings \<Rightarrow> device_record" where
  "getDeviceRecord grp s =
     \<lparr>rec_name = v_toString (s_value grp ''name'' s), rec_type = v_toInt (s_value grp ''type'' s),
      rec_time = toInt grp, rec_state = v_toInt (s_value grp ''state'' s)\<rparr>"

definition getDeviceRecords :: "qsettings \<Rightarrow> device_record list" where
  "getDeviceRecords s = map (\<lambda>grp. getDeviceRecord grp s) (s_childGroups s)"

definition record_toJsonObject :: "device_record \<Rightarrow> json" where
  "record_toJsonObject r =
     JObj [(''name'', JStr (rec_name r)), (''type'', JInt (rec_type r)),
           (''time'', JInt (rec_time r)), (''state'', JInt (rec_state r))]"

section \<open>Names of the enumerators\<close>

definition interfaceTypeEnum2Str :: "int \<Rightarrow> string" where
  "interfaceTypeEnum2Str type =
     (if type = INTERFACE_TYPE_OTHER then ''Other''
      else if type = INTERFACE_TYPE_USB then ''USB''
      else if type = INTERFACE_TYPE_BLUETOOTH then ''Bluetooth''
      else if type = INTERFACE_TYPE_NET then ''Network card''
      else if type = INTERFACE_TYPE_HDMI then ''HDMI''
      else if type = INTERFACE_TYPE_USB_KBD then ''Keyboard''
      else if type = INTERFACE_TYPE_USB_MOUSE then ''Mouse''
      else [])"

fun deviceTypeEnum2Str :: "DeviceType \<Rightarrow> string" where
  "deviceTypeEnum2Str DEVICE_TYPE_STORAGE = ''Storage''"
| "deviceTypeEnum2Str DEVICE_TYPE_CD = ''CD''"
| "deviceTypeEnum2Str DEVICE_TYPE_MOUSE = ''Mouse''"
| "deviceTypeEnum2Str DEVICE_TYPE_KEYBOARD = ''Keyboard''"
| "deviceTypeEnum2Str DEVICE_TYPE_NET_CARD = ''Network card''"
| "deviceTypeEnum2Str DEVICE_TYPE_WIRELESS_NET_CARD = ''Wireless network card''"
| "deviceTypeEnum2Str DEVICE_TYPE_VIDEO = ''Video''"
| "deviceTypeEnum2Str DEVICE_TYPE_AUDIO = ''Audio''"
| "deviceTypeEnum2Str DEVICE_TYPE_PRINTER = ''Printer''"
| "deviceTypeEnum2Str DEVICE_TYPE_HUB = ''Hub''"
| "deviceTypeEnum2Str DEVICE_TYPE_COMMUNICATIONS = ''Communications''"
| "deviceTypeEnum2Str DEVICE_TYPE_BLUETOOTH = ''Bluetooth''"
| "deviceTypeEnum2Str DEVICE_TYPE_OTHER = ''Other''"

section \<open>The map of devices\<close>

definition getDevices :: "dm \<Rightarrow> device list" where
  "getDevices d = sort_devices (qm_values (dm_devices d))"

definition getDeviceByID :: "string \<Rightarrow> dm \<Rightarrow> device option" where
  "getDeviceByID ident d = List.find (\<lambda>dv. dv_id dv = ident) (qm_values (dm_devices d))"

text \<open>A device is shared by pointer: what an operation leaves it as is what the map holds.\<close>

definition store_device :: "device \<Rightarrow> dm \<Rightarrow> dm" where
  "store_device dv d = d\<lparr>dm_devices := qm_insert (dv_syspath dv) dv (dm_devices d)\<rparr>"

definition addDevice :: "dm_env \<Rightarrow> sd_device \<Rightarrow> dm \<Rightarrow> dm" where
  "addDevice env sd d =
     (if qs_isNull (sd_syspath sd) then d
      else case createDevice env sd d of
             (None, d) \<Rightarrow> d
           | (Some dv, d) \<Rightarrow> store_device dv d)"

definition initDevices :: "dm_env \<Rightarrow> dm \<Rightarrow> dm" where
  "initDevices env d = fold (addDevice env) (de_devices env) d"

definition deviceChanged :: "string \<Rightarrow> DeviceAction \<Rightarrow> dm \<Rightarrow> dm" where
  "deviceChanged ident action d =
     act (EmitSignal ''DeviceChanged'' ident
       (case action of DEVICE_ACTION_ADD \<Rightarrow> 0 | DEVICE_ACTION_REMOVE \<Rightarrow> 1 | DEVICE_ACTION_CHANGE \<Rightarrow> 2)) d"

definition recordDeviceConnection :: "device \<Rightarrow> dm \<Rightarrow> dm" where
  "recordDeviceConnection dv d =
     (let r = \<lparr>rec_name = dv_name dv, rec_type = DeviceType_int (dv_type dv),
               rec_time = toSecsSinceEpoch (d_now d),
               rec_state = (if dv_state dv = DEVICE_STATE_ENABLE then DEVICE_CONNECT_SUCCESSED else DEVICE_CONNECT_FAILED)\<rparr>;
          d = write_log \<lparr>l_name = ''sysadm'', l_role = role_sysadm, l_time = d_now d, l_type = log_DEVICE,
                l_result = True,
                l_msg = ''Device access, name is '' @ (if rec_name r = [] then ''Unknown device'' else rec_name r)
                        @ '', type is '' @ deviceTypeEnum2Str (dv_type dv)\<rparr> d
      in d\<lparr>dm_connectLog := addDeviceRecord r (dm_connectLog d)\<rparr>)"

definition handleUdevAddEvent :: "dm_env \<Rightarrow> sd_device \<Rightarrow> dm \<Rightarrow> dm" where
  "handleUdevAddEvent env sd d =
     (let syspath = qs_str (sd_syspath sd)
      in if qm_contains syspath (dm_devices d) then d
         else let d = addDevice env sd d in
              case qm_value syspath (dm_devices d) of
                None \<Rightarrow> d
              | Some dv \<Rightarrow> deviceChanged (dv_id dv) DEVICE_ACTION_ADD (recordDeviceConnection dv d))"

definition handleUdevRemoveEvent :: "sd_device \<Rightarrow> dm \<Rightarrow> dm" where
  "handleUdevRemoveEvent sd d =
     (let syspath = qs_str (sd_syspath sd)
      in case qm_value syspath (dm_devices d) of
           None \<Rightarrow> d
         | Some dv \<Rightarrow> deviceChanged (dv_id dv) DEVICE_ACTION_REMOVE
                        (d\<lparr>dm_devices := qm_remove syspath (dm_devices d)\<rparr>))"

definition handleUdevChangeEvent :: "dm_env \<Rightarrow> sd_device \<Rightarrow> dm \<Rightarrow> dm" where
  "handleUdevChangeEvent env sd d =
     (let syspath = qs_str (sd_syspath sd)
      in case qm_value syspath (dm_devices d) of
           None \<Rightarrow> d
         | Some dv \<Rightarrow>
             (let (dv, d) = update env dv d
              in deviceChanged (dv_id dv) DEVICE_ACTION_CHANGE (store_device dv d)))"

definition handleUdevEvent :: "dm_env \<Rightarrow> sd_device \<Rightarrow> SDDeviceAction \<Rightarrow> dm \<Rightarrow> dm" where
  "handleUdevEvent env sd action d =
     (case action of
        SD_DEVICE_ACTION_REMOVE \<Rightarrow> handleUdevRemoveEvent sd d
      | SD_DEVICE_ACTION_ADD \<Rightarrow> handleUdevAddEvent env sd d
      | SD_DEVICE_ACTION_CHANGE \<Rightarrow> handleUdevChangeEvent env sd d
      | SD_DEVICE_ACTION_INVALID \<Rightarrow> d)"

definition triggerInterfaceDevices :: "dm_env \<Rightarrow> int \<Rightarrow> dm \<Rightarrow> dm" where
  "triggerInterfaceDevices env interfaceType d =
     (let type = (if interfaceType = INTERFACE_TYPE_USB_KBD \<or> interfaceType = INTERFACE_TYPE_USB_MOUSE
                  then INTERFACE_TYPE_USB else interfaceType)
      in fold (\<lambda>dv d. if dv_interfaceType dv = type then trigger env dv d else d) (qm_values (dm_devices d)) d)"

definition isSupportHDMIDisable :: "dm \<Rightarrow> bool" where
  "isSupportHDMIDisable d \<longleftrightarrow>
     list_ex (\<lambda>dv. dv_interfaceType dv = INTERFACE_TYPE_HDMI) (qm_values (dm_devices d))"

section \<open>The monitor of udev\<close>

definition isDeviceExisted :: "dm_env \<Rightarrow> string \<Rightarrow> bool" where
  "isDeviceExisted env syspath \<longleftrightarrow> list_ex (\<lambda>sd. qs_str (sd_syspath sd) = syspath) (de_devices env)"

text \<open>
  \<open>handleDeviceChange\<close>: an event of udev becomes an addition, a change or a removal by
  comparing the devices that exist with those the monitor has seen. The monitor starts with none:
  its \<open>initDevices\<close> has no caller.
\<close>

definition handleDeviceChange :: "dm_env \<Rightarrow> sd_device \<Rightarrow> dm \<Rightarrow> dm" where
  "handleDeviceChange env sd d =
     (let syspath = qs_str (sd_syspath sd)
      in if isDeviceExisted env syspath
         then if qm_value syspath (dm_monitored d) = None
              then handleUdevEvent env sd SD_DEVICE_ACTION_ADD
                     (d\<lparr>dm_monitored := qm_insert syspath () (dm_monitored d)\<rparr>)
              else handleUdevEvent env sd SD_DEVICE_ACTION_CHANGE d
         else (let d = handleUdevEvent env sd SD_DEVICE_ACTION_REMOVE d
               in d\<lparr>dm_monitored := qm_remove syspath (dm_monitored d)\<rparr>))"

definition dm_init :: "dm_env \<Rightarrow> (string, string) qmap \<Rightarrow> dm \<Rightarrow> dm option" where
  "dm_init env descs d =
     (case processMountFile env of
        None \<Rightarrow> None
      | Some mounts \<Rightarrow>
          Some (updateUdevRules env
            (initDevices env (config_init
              (d\<lparr>dm_devices := [], dm_monitored := [], dm_mounts := mounts, dm_descs := descs,
                 dm_waitingUpdateGrub := False, dm_grubUpdateThread := NoThread\<rparr>)))))"

section \<open>The invariant of the component\<close>

definition dev_ok :: "string \<Rightarrow> device \<Rightarrow> bool" where
  "dev_ok k dv \<longleftrightarrow> dv_syspath dv = k
     \<and> (dv_class dv = USBDevice \<longrightarrow> dv_interfaceType dv = INTERFACE_TYPE_USB
          \<and> dv_uid dv = ''USB'' @ dv_idVendor dv @ dv_idProduct dv)"

definition devices_ok :: "(string, device) qmap \<Rightarrow> bool" where
  "devices_ok m \<longleftrightarrow> qm_ok m \<and> (\<forall>(k, dv) \<in> set m. dev_ok k dv)"

text \<open>Everything that is stored in order stays in order, and a device is found under its path.\<close>

definition dm_inv :: "dm \<Rightarrow> bool" where
  "dm_inv d \<longleftrightarrow> devices_ok (dm_devices d) \<and> s_ok (dm_deviceSettings d) \<and> s_ok (dm_interfaceSettings d)
     \<and> s_ok (dm_connectLog d) \<and> length (s_childGroups (dm_connectLog d)) \<le> 1001
     \<and> qm_ok (dm_mounts d) \<and> qm_ok (dm_monitored d) \<and> qm_ok (dm_files d)"

lemma devices_ok_insert: "devices_ok m \<Longrightarrow> dev_ok k dv \<Longrightarrow> devices_ok (qm_insert k dv m)"
  using qm_insert_set [of k dv m] by (auto simp: devices_ok_def qm_ok_insert)

lemma devices_ok_remove: "devices_ok m \<Longrightarrow> devices_ok (qm_remove k m)"
  by (auto simp: devices_ok_def qm_ok_remove) (auto simp: qm_remove_def)

lemma devices_ok_value: "devices_ok m \<Longrightarrow> qm_value k m = Some dv \<Longrightarrow> dev_ok k dv"
  by (auto simp: devices_ok_def qm_value_mem)

lemma devices_ok_values: "devices_ok m \<Longrightarrow> dv \<in> set (qm_values m) \<Longrightarrow> \<exists>k. dev_ok k dv \<and> qm_value k m = Some dv"
  unfolding devices_ok_def qm_values_def by (fastforce simp: qm_value_mem)

lemma dm_inv_act [simp]: "dm_inv (act e d) = dm_inv d"
  by (simp add: dm_inv_def act_def)

lemma dm_inv_write_log [simp]: "dm_inv (write_log l d) = dm_inv d"
  by (simp add: dm_inv_def write_log_def)

lemma dm_inv_files: "dm_inv d \<Longrightarrow> qm_ok fs \<Longrightarrow> dm_inv (d\<lparr>dm_files := fs\<rparr>)"
  by (simp add: dm_inv_def)

lemma dm_inv_addSetting: "dm_inv d \<Longrightarrow> dm_inv (addSetting env x d)"
  by (simp add: addSetting_def updateUdevRules_def dm_inv_def Let_def)

lemma dm_inv_authorized: "dm_inv d \<Longrightarrow> dm_inv (setDeviceAuthorized env dv d)"
  by (simp add: setDeviceAuthorized_def dm_inv_def qm_ok_insert)

lemma dm_inv_trigger: "dm_inv d \<Longrightarrow> dm_inv (trigger env dv d)"
  by (simp add: trigger_def dm_inv_def qm_ok_insert Let_def)

lemma dm_inv_store: "dm_inv d \<Longrightarrow> dev_ok (dv_syspath dv) dv \<Longrightarrow> dm_inv (store_device dv d)"
  by (simp add: store_device_def dm_inv_def devices_ok_insert)

lemma dm_inv_fold: "(\<And>x d. dm_inv d \<Longrightarrow> dm_inv (f x d)) \<Longrightarrow> dm_inv d \<Longrightarrow> dm_inv (fold f xs d)"
  by (induction xs arbitrary: d) auto

lemma dm_inv_remount [simp]: "dm_inv (remountDevice dv mount d) = dm_inv d"
  by (simp add: remountDevice_def Let_def)

lemma dm_inv_mount_event: "dm_inv d \<Longrightarrow> dm_inv (handleMountEvent env mount d)"
  by (simp add: handleMountEvent_def Let_def split: option.splits)

lemma dm_inv_checkDeviceMount: "dm_inv d \<Longrightarrow> dm_inv (checkDeviceMount env dv d)"
  by (simp add: checkDeviceMount_def Let_def dm_inv_fold)

lemma mount_loop_ok: "mount_loop ls m = Some m' \<Longrightarrow> qm_ok m \<Longrightarrow> qm_ok m'"
  by (induction ls m rule: mount_loop.induct) (auto simp: qm_ok_insert split: option.splits)

lemma dm_inv_mount_file: "dm_inv d \<Longrightarrow> handleMountFileChanged env d = Some d' \<Longrightarrow> dm_inv d'"
proof -
  assume inv: "dm_inv d" and "handleMountFileChanged env d = Some d'"
  then obtain ms where ms: "processMountFile env = Some ms"
    and d': "d' = (fold (checkMount env) (qm_values ms) d)\<lparr>dm_mounts := ms\<rparr>"
    by (auto simp: handleMountFileChanged_def split: option.splits)
  have "dm_inv (fold (checkMount env) (qm_values ms) d)"
    by (rule dm_inv_fold [OF _ inv]) (simp add: checkMount_def dm_inv_mount_event)
  moreover have "qm_ok ms"
    using ms mount_loop_ok by (auto simp: processMountFile_def split: option.splits)
  ultimately show ?thesis by (simp add: d' dm_inv_def)
qed

lemma initPermission_dev_ok: "dev_ok k dv \<Longrightarrow> dev_ok k (fst (initPermission env dv d))"
  by (simp add: initPermission_device dev_ok_def split: option.splits)

lemma newUSBDevice_ok:
  "dv_syspath (fst (newUSBDevice env path d)) = path" "dev_ok path (fst (newUSBDevice env path d))"
  "dm_inv d \<Longrightarrow> dm_inv (snd (newUSBDevice env path d))"
proof -
  have "dev_ok path (usb_init env (dm_descs d) (new_device env USBDevice path))"
    by (simp add: dev_ok_def) (simp add: usb_init_def Let_def)
  then show ok: "dev_ok path (fst (newUSBDevice env path d))"
    by (simp add: newUSBDevice_def initPermission_dev_ok)
  then show "dv_syspath (fst (newUSBDevice env path d)) = path" by (simp add: dev_ok_def)
  show "dm_inv d \<Longrightarrow> dm_inv (snd (newUSBDevice env path d))"
    by (simp add: newUSBDevice_def initPermission_device(2) dm_inv_authorized)
qed

lemma newDRMDevice_ok: "dv_syspath (newDRMDevice env path) = path" "dev_ok path (newDRMDevice env path)"
  by (simp_all add: newDRMDevice_def dev_ok_def Let_def)

lemma createDevice_ok:
  assumes "createDevice env sd d = (r, d')" and "dm_inv d"
  shows "dm_inv d' \<and> (\<forall>dv. r = Some dv \<longrightarrow> dv_syspath dv = qs_str (sd_syspath sd) \<and> dev_ok (dv_syspath dv) dv)"
  using assms newUSBDevice_ok [where env = env and path = "qs_str (sd_syspath sd)" and d = d]
    newDRMDevice_ok [where env = env and path = "qs_str (sd_syspath sd)"]
  by (auto simp: createDevice_def Let_def split: if_splits prod.splits)

lemma dm_inv_addDevice: "dm_inv d \<Longrightarrow> dm_inv (addDevice env sd d)"
  using createDevice_ok [of env sd d]
  by (auto simp: addDevice_def dm_inv_store split: option.splits prod.splits)

lemma update_ok:
  assumes "dev_ok k dv" and "dm_inv d"
  shows "dev_ok k (fst (update env dv d)) \<and> dm_inv (snd (update env dv d))"
  using assms by (cases "dv_class dv") (simp_all add: update_def Let_def dm_inv_authorized, simp add: dev_ok_def)

lemma s_childGroups_card: "s_ok s \<Longrightarrow> length (s_childGroups s) = card (set (s_childGroups s))"
  using s_childGroups_distinct distinct_card by metis

lemma removeLast_ok: "s_ok s \<Longrightarrow> s_ok (removeLastDeviceLog s)"
  by (simp add: removeLastDeviceLog_def Let_def s_ok_remove)

lemma removeLast_length:
  assumes "s_ok s"
  shows "length (s_childGroups (removeLastDeviceLog s)) =
     (if 1000 < length (s_childGroups s) then length (s_childGroups s) - 1 else length (s_childGroups s))"
proof (cases "1000 < length (s_childGroups s)")
  case True
  then have "hd (s_childGroups s) \<in> set (s_childGroups s)" by (intro hd_in_set) auto
  with True assms show ?thesis
    by (simp add: removeLastDeviceLog_def s_childGroups_card s_ok_remove s_childGroups_remove)
next
  case False
  then show ?thesis by (simp add: removeLastDeviceLog_def Let_def)
qed

lemma addDeviceRecord_ok: "s_ok s \<Longrightarrow> s_ok (addDeviceRecord r s)"
  by (simp add: addDeviceRecord_def Let_def s_ok_setValue removeLast_ok)

lemma addDeviceRecord_groups:
  "set (s_childGroups (addDeviceRecord r s)) =
     insert (show_int (rec_time r)) (set (s_childGroups (removeLastDeviceLog s)))"
  by (simp add: addDeviceRecord_def Let_def s_childGroups_setValue)

lemma addDeviceRecord_length:
  assumes "s_ok s"
  shows "length (s_childGroups (addDeviceRecord r s)) =
     length (s_childGroups (removeLastDeviceLog s))
     + of_bool (show_int (rec_time r) \<notin> set (s_childGroups (removeLastDeviceLog s)))"
  using s_childGroups_card [OF addDeviceRecord_ok [OF assms]] s_childGroups_card [OF removeLast_ok [OF assms]]
  by (simp add: addDeviceRecord_groups card_insert_if)

lemma addDeviceRecord_bound:
  "s_ok s \<Longrightarrow> length (s_childGroups s) \<le> 1001 \<Longrightarrow> length (s_childGroups (addDeviceRecord r s)) \<le> 1001"
  by (auto simp: addDeviceRecord_length removeLast_length)

lemma dm_inv_record: "dm_inv d \<Longrightarrow> dm_inv (recordDeviceConnection dv d)"
  by (simp add: recordDeviceConnection_def dm_inv_def Let_def addDeviceRecord_ok addDeviceRecord_bound write_log_def)

lemma dm_inv_udev: "dm_inv d \<Longrightarrow> dm_inv (handleUdevEvent env sd action d)"
proof -
  assume inv: "dm_inv d"
  have "dm_inv (handleUdevAddEvent env sd d)"
    using inv by (simp add: handleUdevAddEvent_def Let_def deviceChanged_def dm_inv_addDevice dm_inv_record split: option.splits)
  moreover have "dm_inv (handleUdevRemoveEvent sd d)"
    using inv by (simp add: handleUdevRemoveEvent_def Let_def deviceChanged_def split: option.splits)
      (simp add: dm_inv_def devices_ok_remove)
  moreover have "dm_inv (handleUdevChangeEvent env sd d)"
  proof (cases "qm_value (qs_str (sd_syspath sd)) (dm_devices d)")
    case None
    with inv show ?thesis by (simp add: handleUdevChangeEvent_def)
  next
    case (Some dv)
    with inv have "dev_ok (qs_str (sd_syspath sd)) dv" by (auto simp: dm_inv_def devices_ok_value)
    from update_ok [OF this inv, of env] have "dev_ok (dv_syspath (fst (update env dv d))) (fst (update env dv d))"
        "dm_inv (snd (update env dv d))"
      by (simp_all add: dev_ok_def)
    with Some show ?thesis
      by (simp add: handleUdevChangeEvent_def deviceChanged_def dm_inv_store split_beta)
  qed
  ultimately show ?thesis using inv by (simp add: handleUdevEvent_def split: SDDeviceAction.splits)
qed

lemma dm_inv_deviceChange: "dm_inv d \<Longrightarrow> dm_inv (handleDeviceChange env sd d)"
proof -
  assume inv: "dm_inv d"
  have "dm_inv (d\<lparr>dm_monitored := qm_insert k () (dm_monitored d)\<rparr>)" for k
    using inv by (simp add: dm_inv_def qm_ok_insert)
  moreover have "dm_inv (d'\<lparr>dm_monitored := qm_remove k (dm_monitored d')\<rparr>)" if "dm_inv d'" for k d'
    using that by (simp add: dm_inv_def qm_ok_remove)
  ultimately show ?thesis using inv by (simp add: handleDeviceChange_def Let_def dm_inv_udev)
qed

lemma dm_inv_triggerInterface: "dm_inv d \<Longrightarrow> dm_inv (triggerInterfaceDevices env t d)"
  by (simp add: triggerInterfaceDevices_def Let_def dm_inv_fold dm_inv_trigger)

lemma dm_inv_setting: "dm_inv d \<Longrightarrow> dm_inv (d\<lparr>dm_interfaceSettings := setIFC t b (dm_interfaceSettings d)\<rparr>)"
  by (simp add: dm_inv_def)

lemma dm_inv_sync: "dm_inv d \<Longrightarrow> dm_inv (sync_interface t d)"
  by (simp add: sync_interface_def syncToBluetoothService_def syncToNMService_def startAndEnableUnit_def
      stopAndDisableUnit_def enableUnit_def disableUnit_def startUnit_def stopUnit_def reload_def callNoReplay_def)

lemma dm_inv_checkWaiting: "dm_inv d \<Longrightarrow> dm_inv (checkWaitingUpdateGrubs d)"
  by (simp add: checkWaitingUpdateGrubs_def dm_inv_def)

lemma dm_inv_syncGrub: "dm_inv d \<Longrightarrow> dm_inv (syncInterfaceToGrubFile env d)"
  by (auto simp: syncInterfaceToGrubFile_def intro!: dm_inv_checkWaiting split: option.splits)
    (simp add: dm_inv_def)

lemma dm_inv_setIFCEnable: "dm_inv d \<Longrightarrow> dm_inv (setIFCEnable env t b d)"
proof -
  assume inv: "dm_inv d"
  have "dm_inv (syncInterfaceToGrubFile env (d\<lparr>dm_isEnableHDMI := b\<rparr>))"
    by (rule dm_inv_syncGrub) (use inv in \<open>simp add: dm_inv_def\<close>)
  then show ?thesis
    using inv by (cases "t = INTERFACE_TYPE_USB")
      (simp_all add: setIFCEnable_other dm_inv_sync dm_inv_setting, simp add: setIFCEnable_USB dm_inv_def)
qed

lemma dm_inv_grub_thread: "dm_inv d \<Longrightarrow> dm_inv (updateGrubsInThread env d)"
  by (simp add: updateGrubsInThread_def updateGrub_def Let_def act_def dm_inv_def replace_file_ok qm_ok_insert
      split: option.splits)

lemma dm_inv_grub_end: "dm_inv d \<Longrightarrow> dm_inv (finishGrubsUpdate d)"
  by (simp add: finishGrubsUpdate_def checkWaitingUpdateGrubs_def dm_inv_def Let_def)

section \<open>Properties\<close>

text \<open>The monitor takes the first event of a device that was there when the daemon started for its
  addition, and the manager ignores the addition of a device it has: a change of such a device, for
  instance the one the daemon itself triggers to enforce a switch, does nothing but mark the device
  as seen; only the second one reaches the device.\<close>

theorem first_change_is_lost:
  assumes "sd_syspath sd = Some path" and "isDeviceExisted env path" and "qm_value path (dm_monitored d) = None"
    and "qm_value path (dm_devices d) = Some dv" and "qm_ok (dm_monitored d)"
  shows "handleDeviceChange env sd d = d\<lparr>dm_monitored := qm_insert path () (dm_monitored d)\<rparr>
     \<and> handleDeviceChange env sd (handleDeviceChange env sd d) =
         handleUdevChangeEvent env sd (handleDeviceChange env sd d)"
proof -
  have "handleDeviceChange env sd d = d\<lparr>dm_monitored := qm_insert path () (dm_monitored d)\<rparr>"
    using assms by (simp add: handleDeviceChange_def handleUdevEvent_def handleUdevAddEvent_def qm_contains_value)
  then show ?thesis
    using assms by (simp add: handleDeviceChange_def [of env sd "d\<lparr>dm_monitored := qm_insert path () (dm_monitored d)\<rparr>"]
        handleUdevEvent_def qm_value_insert)
qed

definition sample_plugged :: dm where
  "sample_plugged = sample_dm\<lparr>dm_devices := qm_insert ''/sys/u1'' sample_usb []\<rparr>"

theorem first_change_is_lost_witness:
  "dm_devices (handleDeviceChange usb_env (sample_sd ''/sys/u1'') sample_plugged) = dm_devices sample_plugged"
proof -
  have "sd_syspath (sample_sd ''/sys/u1'') = Some ''/sys/u1''" by (simp add: sample_sd_def)
  moreover from this have "isDeviceExisted usb_env ''/sys/u1''" by (simp add: isDeviceExisted_def usb_env_def)
  moreover have "qm_value ''/sys/u1'' (dm_monitored sample_plugged) = None" "qm_ok (dm_monitored sample_plugged)"
    by (simp_all add: sample_plugged_def sample_dm_def)
  moreover have "qm_value ''/sys/u1'' (dm_devices sample_plugged) = Some sample_usb"
    by (simp add: sample_plugged_def qm_value_insert del: qm_insert.simps)
  ultimately show ?thesis using first_change_is_lost [THEN conjunct1] by simp
qed

text \<open>The record of connections never holds more than 1001 entries; the limit of 1000 is tested before
  the new entry, so a log of 1000 entries grows to 1001 with an entry of a new second and only then
  drops one for each new one. An entry made after the year 2038 is read back with time 0.\<close>

theorem connection_log_bounds:
  assumes "s_ok s" and "length (s_childGroups s) \<le> 1001"
  shows "length (s_childGroups (addDeviceRecord r s)) \<le> 1001
     \<and> (length (s_childGroups s) = 1000 \<and> show_int (rec_time r) \<notin> set (s_childGroups s) \<longrightarrow>
          length (s_childGroups (addDeviceRecord r s)) = 1001)
     \<and> rec_time (getDeviceRecord (show_int (rec_time r)) (addDeviceRecord r s)) =
         (if int32_ok (rec_time r) then rec_time r else 0)"
proof -
  have "removeLastDeviceLog s = s" if "length (s_childGroups s) = 1000"
    using that by (simp add: removeLastDeviceLog_def)
  then show ?thesis
    using addDeviceRecord_bound [OF assms] by (simp add: addDeviceRecord_length [OF assms(1)] getDeviceRecord_def toInt_show_int)
qed

definition sample_record :: device_record where
  "sample_record = \<lparr>rec_name = ''key'', rec_type = 1, rec_time = 2147483648, rec_state = 0\<rparr>"

theorem connection_log_bounds_witness:
  "rec_time (getDeviceRecord (show_int (rec_time sample_record)) (addDeviceRecord sample_record [])) = 0"
  using connection_log_bounds [of "[]" sample_record]
  by (simp add: s_childGroups_def qm_keys_def sample_record_def int32_ok_def)

text \<open>C15: Plugging in and pulling out a USB device: after the addition the device is found under its path,
  its connection is recorded and the clients are told its id; after the removal the map of devices is
  as it was and the clients are told the same id.\<close>

theorem plug_and_unplug:
  assumes "dm_inv d" and "qm_value path (dm_devices d) = None"
    and "sd_syspath sd = Some path" "sd_subsystem sd = Some ''usb''" "sd_devtype sd = Some ''usb_device''"
  shows "\<exists>dv. qm_value path (dm_devices (handleUdevAddEvent env sd d)) = Some dv \<and> dev_ok path dv
     \<and> d_effects (handleUdevAddEvent env sd d) = d_effects d @ [EmitSignal ''DeviceChanged'' (dv_id dv) 0]
     \<and> show_int (toSecsSinceEpoch (d_now d)) \<in> set (s_childGroups (dm_connectLog (handleUdevAddEvent env sd d)))
     \<and> d_effects (handleUdevRemoveEvent sd (handleUdevAddEvent env sd d)) =
         d_effects d @ [EmitSignal ''DeviceChanged'' (dv_id dv) 0, EmitSignal ''DeviceChanged'' (dv_id dv) 1]
     \<and> (\<forall>k. qm_value k (dm_devices (handleUdevRemoveEvent sd (handleUdevAddEvent env sd d))) = qm_value k (dm_devices d))"
proof -
  obtain dv d1 where N: "newUSBDevice env path d = (dv, d1)" by force
  have d1: "d1 = setDeviceAuthorized env dv d"
    using N initPermission_device(2) [of env "usb_init env (dm_descs d) (new_device env USBDevice path)" d]
    by (simp add: newUSBDevice_def)
  have dv: "dv_syspath dv = path" "dev_ok path dv" using newUSBDevice_ok(1,2) [where env = env and path = path and d = d] N by simp_all
  have add: "addDevice env sd d = store_device dv d1"
    using assms N by (simp add: addDevice_def createDevice_def)
  have ok: "qm_ok (dm_devices d)" using assms(1) by (simp add: dm_inv_def devices_ok_def)
  let ?d = "handleUdevAddEvent env sd d"
  have "?d = deviceChanged (dv_id dv) DEVICE_ACTION_ADD (recordDeviceConnection dv (store_device dv d1))"
    using assms add ok dv(1) by (simp add: handleUdevAddEvent_def qm_contains_value store_device_def d1 qm_value_insert)
  then have D: "dm_devices ?d = qm_insert path dv (dm_devices d)"
      "d_effects ?d = d_effects d @ [EmitSignal ''DeviceChanged'' (dv_id dv) 0]"
      "show_int (toSecsSinceEpoch (d_now d)) \<in> set (s_childGroups (dm_connectLog ?d))"
    by (simp_all add: deviceChanged_def recordDeviceConnection_def store_device_def d1 dv(1) act_def write_log_def
        Let_def addDeviceRecord_groups setDeviceAuthorized_def)
  have R: "handleUdevRemoveEvent sd ?d = deviceChanged (dv_id dv) DEVICE_ACTION_REMOVE
      (?d\<lparr>dm_devices := qm_remove path (dm_devices ?d)\<rparr>)"
    using assms(3) D(1) ok by (simp add: handleUdevRemoveEvent_def qm_value_insert)
  have "d_effects (handleUdevRemoveEvent sd ?d) =
      d_effects d @ [EmitSignal ''DeviceChanged'' (dv_id dv) 0, EmitSignal ''DeviceChanged'' (dv_id dv) 1]"
    by (simp add: R deviceChanged_def act_def D(2))
  moreover have "qm_value k (dm_devices (handleUdevRemoveEvent sd ?d)) = qm_value k (dm_devices d)" for k
    using ok assms(2) by (simp add: R deviceChanged_def act_def D(1) qm_value_remove qm_value_insert)
  moreover have "qm_value path (dm_devices ?d) = Some dv" by (simp add: D(1) qm_value_insert ok)
  ultimately show ?thesis using D dv(2) by blast
qed

lemma sample_dm_inv: "dm_inv sample_dm"
  by (simp add: dm_inv_def sample_dm_def devices_ok_def s_childGroups_def qm_keys_def)

theorem plug_and_unplug_witness:
  "\<exists>dv. qm_value ''/sys/u1'' (dm_devices (handleUdevAddEvent usb_env (sample_sd ''/sys/u1'') sample_dm)) = Some dv"
  using plug_and_unplug [OF sample_dm_inv, of "''/sys/u1''" "sample_sd ''/sys/u1''" usb_env]
  by (auto simp: sample_dm_def sample_sd_def)

section \<open>Reading a mount line\<close>

lemma sublist_after_sep:
  "c \<notin> set a \<Longrightarrow> sublist (c # y) (a @ c # r) \<longleftrightarrow> prefix y r \<or> sublist (c # y) r"
  by (induction a) (auto simp: sublist_Cons_right)

lemma sublist_no_sep: "c \<notin> set a \<Longrightarrow> \<not> sublist (c # y) a"
  using set_mono_sublist by fastforce

lemma prefix_first_part:
  assumes "c \<notin> set x" and "c \<notin> set b"
  shows "prefix (x @ [c]) (join [c] (b # os)) \<longleftrightarrow> b = x \<and> os \<noteq> []"
proof (cases os)
  case Nil
  then show ?thesis using assms(2) set_mono_prefix by fastforce
next
  case (Cons o' os')
  have tw: "takeWhile (\<lambda>d. d \<noteq> c) (y @ c # z) = y" if "c \<notin> set y" for y z
    using that by (induction y) auto
  have "prefix (x @ [c]) (b @ c # r) \<longleftrightarrow> b = x" for r
  proof
    assume "prefix (x @ [c]) (b @ c # r)"
    then obtain z where "b @ c # r = x @ c # z" by (auto elim: prefixE)
    then show "b = x" using tw [OF assms(1), of z] tw [OF assms(2), of r] by simp
  qed simp
  then show ?thesis using Cons by simp
qed

lemma inner_option:
  assumes "c \<notin> set x" and "\<forall>a \<in> set os. c \<notin> set a"
  shows "sublist (c # x @ [c]) (join [c] os) \<longleftrightarrow> x \<in> set (butlast (tl os))"
  using assms(2)
proof (induction os)
  case Nil
  then show ?case by simp
next
  case (Cons a os)
  show ?case
  proof (cases os)
    case Nil
    then show ?thesis using Cons.prems sublist_no_sep [of c a] by simp
  next
    case (Cons b os')
    have "sublist (c # x @ [c]) (join [c] (a # os)) \<longleftrightarrow>
        prefix (x @ [c]) (join [c] os) \<or> sublist (c # x @ [c]) (join [c] os)"
      using Cons.prems Cons sublist_after_sep [of c a] by simp
    also have "\<dots> \<longleftrightarrow> b = x \<and> os' \<noteq> [] \<or> x \<in> set (butlast os')"
      using Cons.IH Cons.prems Cons prefix_first_part [OF assms(1), of b os'] by simp
    finally show ?thesis using Cons by auto
  qed
qed

text \<open>What is read of a mount line: its device and place; writing is seen as allowed exactly when the
  first option is \<open>rw\<close> and another option follows, and execution as forbidden exactly when
  \<open>noexec\<close> is an option that is neither the first nor the last. A line whose last option is
  \<open>noexec\<close>, or whose only one is \<open>rw\<close>, is read the wrong way.\<close>

theorem mount_line_options:
  assumes "startsWith dev ''/dev''" and "os \<noteq> []" and "\<forall>a \<in> set os. CHR '','' \<notin> set a"
    and "\<forall>f \<in> set ([dev, path, kind, join '','' os] @ rest). CHR '' '' \<notin> set f"
  shows "processMountLine (join '' '' ([dev, path, kind, join '','' os] @ rest)) = Some (Some
     \<lparr>dm_device = dev, dm_path = path, dm_read = True,
      dm_write = (hd os = ''rw'' \<and> tl os \<noteq> []), dm_execute = (''noexec'' \<notin> set (butlast (tl os)))\<rparr>)"
proof -
  let ?fs = "[dev, path, kind, join '','' os] @ rest"
  have sp: "split (join '' '' ?fs) '' '' = ?fs" by (rule split_join) (use assms(4) in simp_all)
  have start: "startsWith (join '' '' ?fs) ''/dev''"
    using assms(1) by (simp add: startsWith_def join_Cons)
  have w: "startsWith (join '','' os) ''rw,'' \<longleftrightarrow> hd os = ''rw'' \<and> tl os \<noteq> []"
    using prefix_first_part [of "CHR '',''" "''rw''" "hd os" "tl os"] assms(2,3)
    by (cases os) (simp_all add: startsWith_def)
  have x: "contains (join '','' os) '',noexec,'' \<longleftrightarrow> ''noexec'' \<in> set (butlast (tl os))"
    using inner_option [of "CHR '',''" "''noexec''" os] assms(3) by (simp add: contains_iff_sublist)
  show ?thesis
    unfolding processMountLine_def sp Let_def using start w x by simp
qed

theorem mount_line_options_witness:
  "map_option (map_option dm_execute) (processMountLine (join '' '' [''/dev/sdb1'', ''/mnt'', ''vfat'', ''rw,noexec'', ''0'', ''0'']))
     = Some (Some True)"
  using mount_line_options [of "''/dev/sdb1''" "[''rw'', ''noexec'']" "''/mnt''" "''vfat''" "[''0'', ''0'']"]
  by (simp add: startsWith_def)

end
