(* ===== verification/PolkitGate.thy ===== *)
theory PolkitGate
  imports Daemon
begin

text \<open>
  \<open>src/daemon/common/polkit-proxy.{h,cpp}\<close>: a privileged D-Bus method (macros
  \<open>CHECK_AUTH*\<close>) only asks polkit and returns; its handler runs when polkit's answer arrives and
  allows it. The requests in flight, the answers in any order and the timeouts are the steps of a
  relation over labels. The locale \<open>polkit_gate\<close> is the contract of a service behind the
  proxy: what it does when allowed, what it sends when refused, and an invariant both keep.
\<close>

section \<open>The proxy\<close>

record 'c check_auth =
  ca_caller :: string
  ca_action :: string
  ca_call :: 'c
  ca_timer :: bool        \<comment> \<open>the timeout is connected\<close>

record ('c, 's) polkit =
  pk_next :: nat
  pk_pending :: "(nat \<times> 'c check_auth) list"
  pk_state :: 's

text \<open>polkit's reply: an error, or whether the caller is authorized and whether it was challenged.\<close>

datatype polkit_reply = PolkitError | PolkitResult bool bool

definition checkAuthorization :: "string \<Rightarrow> string \<Rightarrow> 'c \<Rightarrow> ('c, 's) polkit \<Rightarrow> ('c, 's) polkit" where
  "checkAuthorization action caller call p =
     p\<lparr>pk_next := Suc (pk_next p),
       pk_pending := pk_pending p @ [(pk_next p, \<lparr>ca_caller = caller, ca_action = action, ca_call = call, ca_timer = True\<rparr>)]\<rparr>"

text \<open>On a timeout polkit is asked to cancel and the timer is disconnected; the request stays open.\<close>

definition onCancelCheckAuth :: "nat \<Rightarrow> ('c, 's) polkit \<Rightarrow> ('c, 's) polkit" where
  "onCancelCheckAuth i p =
     p\<lparr>pk_pending := map (\<lambda>(j, ca). if j = i then (j, ca\<lparr>ca_timer := False\<rparr>) else (j, ca)) (pk_pending p)\<rparr>"

definition reply_success :: "polkit_reply \<Rightarrow> bool" where
  "reply_success r = (case r of PolkitError \<Rightarrow> False | PolkitResult is_authorized is_challenge \<Rightarrow> is_authorized)"

definition onFinishCheckAuth ::
    "('c \<Rightarrow> string \<Rightarrow> 's \<Rightarrow> 's) \<Rightarrow> (string \<Rightarrow> 's \<Rightarrow> 's) \<Rightarrow> nat \<Rightarrow> polkit_reply \<Rightarrow> ('c, 's) polkit \<Rightarrow> ('c, 's) polkit" where
  "onFinishCheckAuth handler deny i reply p =
     (case map_of (pk_pending p) i of
        None \<Rightarrow> p
      | Some ca \<Rightarrow>
          p\<lparr>pk_pending := filter (\<lambda>(j, _). j \<noteq> i) (pk_pending p),
            pk_state := (if reply_success reply then handler (ca_call ca) (ca_caller ca) (pk_state p)
                         else deny (ca_caller ca) (pk_state p))\<rparr>)"

section \<open>Steps\<close>

datatype 'c polkit_label =
    LCall string 'c
  | LAnswer nat string 'c polkit_reply
  | LTimeout nat

inductive polkit_step ::
    "('c \<Rightarrow> string \<Rightarrow> 's \<Rightarrow> 's) \<Rightarrow> (string \<Rightarrow> 's \<Rightarrow> 's) \<Rightarrow>
     ('c, 's) polkit \<Rightarrow> 'c polkit_label \<Rightarrow> ('c, 's) polkit \<Rightarrow> bool"
  for handler deny where
  call: "polkit_step handler deny p (LCall caller c) (checkAuthorization action caller c p)"
| answer: "map_of (pk_pending p) i = Some ca \<Longrightarrow>
    polkit_step handler deny p (LAnswer i (ca_caller ca) (ca_call ca) r) (onFinishCheckAuth handler deny i r p)"
| timeout: "map_of (pk_pending p) i = Some ca \<Longrightarrow> ca_timer ca \<Longrightarrow>
    polkit_step handler deny p (LTimeout i) (onCancelCheckAuth i p)"

inductive polkit_run ::
    "('c \<Rightarrow> string \<Rightarrow> 's \<Rightarrow> 's) \<Rightarrow> (string \<Rightarrow> 's \<Rightarrow> 's) \<Rightarrow>
     ('c, 's) polkit \<Rightarrow> 'c polkit_label list \<Rightarrow> ('c, 's) polkit \<Rightarrow> bool"
  for handler deny where
  done_run: "polkit_run handler deny p [] p"
| step_run: "polkit_run handler deny p ls p' \<Longrightarrow> polkit_step handler deny p' l p'' \<Longrightarrow>
    polkit_run handler deny p (ls @ [l]) p''"

inductive_cases polkit_stepE: "polkit_step handler deny p l p'"

inductive_simps polkit_step_call: "polkit_step handler deny p (LCall caller c) p'"
inductive_simps polkit_step_timeout: "polkit_step handler deny p (LTimeout i) p'"

section \<open>The contract\<close>

text \<open>What a label makes the service do.\<close>

fun perform :: "('c \<Rightarrow> string \<Rightarrow> 's \<Rightarrow> 's) \<Rightarrow> (string \<Rightarrow> 's \<Rightarrow> 's) \<Rightarrow> 'c polkit_label \<Rightarrow> 's \<Rightarrow> 's" where
  "perform handler deny (LAnswer i caller c r) s =
     (if reply_success r then handler c caller s else deny caller s)"
| "perform handler deny (LCall caller c) s = s"
| "perform handler deny (LTimeout i) s = s"

fun answered :: "'c polkit_label \<Rightarrow> nat option" where
  "answered (LAnswer i caller c r) = Some i"
| "answered (LCall caller c) = None"
| "answered (LTimeout i) = None"

definition answers :: "'c polkit_label list \<Rightarrow> nat list" where
  "answers ls = List.map_filter answered ls"

lemma answers_append [simp]: "answers (ls @ ls') = answers ls @ answers ls'"
  by (simp add: answers_def List.map_filter_def)

lemma answers_single [simp]:
  "answers [] = []" "answers [LCall caller c] = []" "answers [LAnswer i caller c r] = [i]" "answers [LTimeout i] = []"
  by (simp_all add: answers_def List.map_filter_def)

text \<open>The requests in flight: each was made by a call of the run, has a number of its own and no answer yet.\<close>

definition pending_ok :: "('c, 's) polkit \<Rightarrow> 'c polkit_label list \<Rightarrow> bool" where
  "pending_ok p ls \<longleftrightarrow> distinct (map fst (pk_pending p))
     \<and> (\<forall>(i, ca) \<in> set (pk_pending p). i < pk_next p \<and> i \<notin> set (answers ls) \<and> LCall (ca_caller ca) (ca_call ca) \<in> set ls)
     \<and> distinct (answers ls) \<and> (\<forall>i \<in> set (answers ls). i < pk_next p)"

locale polkit_gate =
  fixes handler :: "'c \<Rightarrow> string \<Rightarrow> 's \<Rightarrow> 's"
    and deny :: "string \<Rightarrow> 's \<Rightarrow> 's"
    and inv :: "'s \<Rightarrow> bool"
  assumes handler_inv: "inv s \<Longrightarrow> inv (handler c caller s)"
    and deny_inv: "inv s \<Longrightarrow> inv (deny caller s)"
begin

lemma step_state: "polkit_step handler deny p l p' \<Longrightarrow> pk_state p' = perform handler deny l (pk_state p)"
  by (erule polkit_stepE)
    (simp_all add: checkAuthorization_def onFinishCheckAuth_def onCancelCheckAuth_def)

lemma run_state: "polkit_run handler deny p ls p' \<Longrightarrow> pk_state p' = fold (perform handler deny) ls (pk_state p)"
  by (induction rule: polkit_run.induct) (simp_all add: step_state)

lemma perform_inv: "inv s \<Longrightarrow> inv (perform handler deny l s)"
  by (cases l) (simp_all add: handler_inv deny_inv)

lemma run_inv: "polkit_run handler deny p ls p' \<Longrightarrow> inv (pk_state p) \<Longrightarrow> inv (pk_state p')"
  by (induction rule: polkit_run.induct) (simp_all add: step_state perform_inv)

lemma step_pending:
  assumes "polkit_step handler deny p l p'" and "pending_ok p ls"
  shows "pending_ok p' (ls @ [l])"
  using assms(1)
proof (cases rule: polkit_step.cases)
  case (call caller c action)
  then show ?thesis
    using assms(2) by (auto simp: pending_ok_def checkAuthorization_def)
next
  case (answer i ca r)
  have "(i, ca) \<in> set (pk_pending p)" by (rule map_of_SomeD [OF answer(3)])
  with assms(2) have "i < pk_next p" "i \<notin> set (answers ls)" by (auto simp: pending_ok_def)
  moreover have "distinct (map fst (filter (\<lambda>(j, _). j \<noteq> i) (pk_pending p)))"
    using assms(2) by (auto simp: pending_ok_def intro: distinct_map_filter)
  ultimately show ?thesis
    using assms(2) answer by (auto simp: pending_ok_def onFinishCheckAuth_def)
next
  case (timeout i ca)
  let ?f = "\<lambda>(j, ca). if j = i then (j, ca\<lparr>ca_timer := False\<rparr>) else (j, ca)"
  have fst: "map fst (map ?f xs) = map fst xs" for xs :: "(nat \<times> 'c check_auth) list"
    by (simp add: comp_def split_beta)
  have same: "\<exists>ca. (j, ca) \<in> set (pk_pending p) \<and> ca_caller ca = ca_caller ca' \<and> ca_call ca = ca_call ca'"
    if "(j, ca') \<in> set (map ?f (pk_pending p))" for j ca'
  proof -
    from that obtain x where x: "x \<in> set (pk_pending p)" "?f x = (j, ca')" by auto
    obtain k ca where k: "x = (k, ca)" by force
    show ?thesis
    proof (intro exI conjI)
      show "(j, ca) \<in> set (pk_pending p)" using x k by (simp split: if_splits)
      show "ca_caller ca = ca_caller ca'" "ca_call ca = ca_call ca'"
        using x(2) unfolding k by (cases "k = i"; fastforce)+
    qed
  qed
  have p': "pk_pending p' = map ?f (pk_pending p)" "pk_next p' = pk_next p"
    using timeout(2) by (simp_all add: onCancelCheckAuth_def)
  have ans: "answers (ls @ [l]) = answers ls" using timeout(1) by simp
  have "j < pk_next p \<and> j \<notin> set (answers ls) \<and> LCall (ca_caller ca') (ca_call ca') \<in> set (ls @ [l])"
    if "(j, ca') \<in> set (map ?f (pk_pending p))" for j ca'
  proof -
    from same [OF that] obtain ca where "(j, ca) \<in> set (pk_pending p)" "ca_caller ca = ca_caller ca'" "ca_call ca = ca_call ca'"
      by blast
    moreover from this(1) assms(2) have "j < pk_next p \<and> j \<notin> set (answers ls) \<and> LCall (ca_caller ca) (ca_call ca) \<in> set ls"
      unfolding pending_ok_def by blast
    ultimately show ?thesis by simp
  qed
  then show ?thesis
    using assms(2) unfolding pending_ok_def p' fst ans by blast
qed

lemma run_pending: "polkit_run handler deny p ls p' \<Longrightarrow> pk_pending p = [] \<Longrightarrow> pending_ok p' ls"
proof (induction rule: polkit_run.induct)
  case (done_run p)
  then show ?case by (simp add: pending_ok_def)
next
  case (step_run p ls p' l p'')
  then show ?case using step_pending by blast
qed

lemma answer_was_asked:
  assumes "polkit_run handler deny p ls p'" and "pk_pending p = []"
  shows "ls = ls1 @ LAnswer i caller c r # ls2 \<Longrightarrow> LCall caller c \<in> set ls1"
  using assms
proof (induction arbitrary: ls2 rule: polkit_run.induct)
  case (done_run p)
  then show ?case by simp
next
  case (step_run p ls p' l p'')
  show ?case
  proof (cases ls2 rule: rev_cases)
    case Nil
    then have l: "ls = ls1" "l = LAnswer i caller c r" using step_run.prems(1) by simp_all
    from step_run.hyps(2)[unfolded l] obtain ca where
      "map_of (pk_pending p') i = Some ca" "caller = ca_caller ca" "c = ca_call ca"
      by (cases rule: polkit_stepE) auto
    moreover from run_pending [OF step_run.hyps(1) step_run.prems(2)] have "pending_ok p' ls" .
    ultimately show ?thesis using l(1) by (auto simp: pending_ok_def dest!: map_of_SomeD)
  next
    case (snoc ls2' x)
    then have "ls = ls1 @ LAnswer i caller c r # ls2'" using step_run.prems(1) by simp
    then show ?thesis using step_run.IH step_run.prems(2) by simp
  qed
qed

end

end
