(* ===== verification/DmDBus.thy ===== *)
theory DmDBus
  imports DeviceManager PolkitGate
begin

text \<open>
  Device management, last part: \<open>src/daemon/dm/dbus.cpp\<close>, the methods the clients call. The
  four that change something run behind polkit; the others answer with JSON, of which the model
  keeps the value and leaves the printing to Qt. The events of the whole component and its
  invariant are at the end.
\<close>

section \<open>Queries\<close>

definition GetDevices :: "dm \<Rightarrow> json" where
  "GetDevices d = JArr (map device_toJsonObject (getDevices d))"

definition bad_interface :: "int \<Rightarrow> bool" where
  "bad_interface type \<longleftrightarrow> type \<le> INTERFACE_TYPE_OTHER \<or> type \<ge> INTERFACE_TYPE_LAST"

definition GetDevicesByInterface :: "int \<Rightarrow> dm \<Rightarrow> SSRErrorCode + json" where
  "GetDevicesByInterface interfaceType d =
     (if bad_interface interfaceType then Inl ERROR_DEVICE_INVALID_IFC_TYPE
      else Inr (JArr (map device_toJsonObject (getDevicesByInterface interfaceType d))))"

definition GetDevice :: "string \<Rightarrow> dm \<Rightarrow> SSRErrorCode + json" where
  "GetDevice ident d =
     (case getDeviceByID ident d of
        None \<Rightarrow> Inl ERROR_DEVICE_INVALID_ID
      | Some dv \<Rightarrow> Inr (device_toJsonObject dv))"

definition interface_json :: "int \<Rightarrow> dm \<Rightarrow> json" where
  "interface_json type d = JObj [(''type'', JInt type), (''enable'', JBool (isIFCEnable type d))]"

definition GetInterfaces :: "dm_env \<Rightarrow> dm \<Rightarrow> json" where
  "GetInterfaces env d =
     JArr (map (\<lambda>type. interface_json type d)
       (filter (\<lambda>type. de_gc env \<or> type \<noteq> INTERFACE_TYPE_HDMI) [INTERFACE_TYPE_USB .. INTERFACE_TYPE_LAST - 1]))"

definition GetInterface :: "int \<Rightarrow> dm \<Rightarrow> SSRErrorCode + json" where
  "GetInterface interfaceType d =
     (if bad_interface interfaceType then Inl ERROR_DEVICE_INVALID_IFC_TYPE
      else Inr (interface_json interfaceType d))"

definition GetRecords :: "dm \<Rightarrow> json" where
  "GetRecords d = JArr (map record_toJsonObject (getDeviceRecords (dm_connectLog d)))"

section \<open>Changes\<close>

definition dm_fail :: "string \<Rightarrow> string \<Rightarrow> SSRErrorCode \<Rightarrow> dm \<Rightarrow> dm" where
  "dm_fail caller msg code d = act (ReplyError caller code) (SSR_LOG_ERROR log_DEVICE msg caller d)"

definition dm_done :: "string \<Rightarrow> string \<Rightarrow> dm \<Rightarrow> dm" where
  "dm_done caller msg d = act (Reply caller) (SSR_LOG_SUCCESS log_DEVICE msg caller d)"

definition json_bool :: "(string \<times> json) list \<Rightarrow> string \<Rightarrow> bool" where
  "json_bool obj key = (case map_of obj key of Some (JBool b) \<Rightarrow> b | _ \<Rightarrow> False)"

definition changePermission :: "dm_env \<Rightarrow> string \<Rightarrow> string \<Rightarrow> string \<Rightarrow> dm \<Rightarrow> dm" where
  "changePermission env caller ident permissions d =
     (let failed = ''Failed to change permissions. ID is '' @ ident
      in case getDeviceByID ident d of
           None \<Rightarrow> dm_fail caller failed ERROR_DEVICE_INVALID_ID d
         | Some dv \<Rightarrow>
             (case de_parse_json env permissions of
                None \<Rightarrow> dm_fail caller failed ERROR_DEVICE_INVALID_PERM d
              | Some (JObj obj) \<Rightarrow>
                  (let dv = dv\<lparr>dv_permission := \<lparr>p_read = json_bool obj ''read'', p_write = json_bool obj ''write'',
                                                  p_execute = json_bool obj ''execute''\<rparr>\<rparr>;
                       d = checkDeviceMount env dv (store_device dv d);
                       (res, dv, d) = setEnable env True dv d;
                       d = trigger env dv (store_device dv d)
                   in dm_done caller (''Change permissions. ID is '' @ ident @ '' permissions is '' @ permissions) d)
              | Some _ \<Rightarrow> dm_fail caller failed ERROR_DEVICE_INVALID_PERM d))"

definition enable :: "dm_env \<Rightarrow> string \<Rightarrow> string \<Rightarrow> dm \<Rightarrow> dm" where
  "enable env caller ident d =
     (case getDeviceByID ident d of
        None \<Rightarrow> dm_fail caller (''Failed to enable device. ID is '' @ ident) ERROR_DEVICE_INVALID_ID d
      | Some dv \<Rightarrow>
          (let (res, dv, d) = setEnable env True dv d
           in dm_done caller (''Enable device. ID is '' @ ident @ '' !'') (trigger env dv (store_device dv d))))"

definition disable :: "dm_env \<Rightarrow> string \<Rightarrow> string \<Rightarrow> dm \<Rightarrow> dm" where
  "disable env caller ident d =
     (case getDeviceByID ident d of
        None \<Rightarrow> dm_fail caller (''Failed to disable device. ID is '' @ ident) ERROR_DEVICE_INVALID_ID d
      | Some dv \<Rightarrow>
          (let (res, dv, d) = setEnable env False dv d
           in dm_done caller (''Disable device. ID is '' @ ident) (trigger env dv (store_device dv d))))"

definition enableInterface :: "dm_env \<Rightarrow> string \<Rightarrow> int \<Rightarrow> bool \<Rightarrow> dm \<Rightarrow> dm" where
  "enableInterface env caller interfaceType enabled d =
     (let word = (if enabled then ''enabled'' else ''disabled'');
          failed = ''Failed to '' @ word @ '' interface. type is '' @ interfaceTypeEnum2Str interfaceType
      in if bad_interface interfaceType then dm_fail caller failed ERROR_DEVICE_INVALID_IFC_TYPE d
         else if interfaceType = INTERFACE_TYPE_HDMI \<and> \<not> isSupportHDMIDisable d
         then dm_fail caller failed ERROR_DEVICE_DISABLE_HDMI d
         else dm_done caller (word @ '' interface. type is '' @ interfaceTypeEnum2Str interfaceType)
                (triggerInterfaceDevices env interfaceType (setIFCEnable env interfaceType enabled d)))"

text \<open>The calls behind polkit: \<open>CHECK_AUTH_WITH_*ARGS\<close> binds each to its handler.\<close>

datatype dm_call =
    ChangePermission string string
  | Enable string
  | Disable string
  | EnableInterface int bool

fun dm_handle :: "dm_env \<Rightarrow> dm_call \<Rightarrow> string \<Rightarrow> dm \<Rightarrow> dm" where
  "dm_handle env (ChangePermission ident permissions) caller d = changePermission env caller ident permissions d"
| "dm_handle env (Enable ident) caller d = enable env caller ident d"
| "dm_handle env (Disable ident) caller d = disable env caller ident d"
| "dm_handle env (EnableInterface type enabled) caller d = enableInterface env caller type enabled d"

text \<open>A refused caller gets \<open>AccessDenied\<close>.\<close>

definition deny_caller :: "string \<Rightarrow> 'a daemon_scheme \<Rightarrow> 'a daemon_scheme" where
  "deny_caller caller d = act (ReplyDenied caller) d"

section \<open>The invariant holds\<close>

lemma dm_inv_SSR_LOG [simp]: "dm_inv (SSR_LOG t m b c d) = dm_inv d"
  by (simp add: SSR_LOG_def)

lemma dm_inv_replies [simp]:
  "dm_inv (dm_fail caller msg code d) = dm_inv d" "dm_inv (dm_done caller msg d) = dm_inv d"
  "dm_inv (deny_caller caller d) = dm_inv d"
  by (simp_all add: dm_fail_def dm_done_def deny_caller_def)

lemma getDeviceByID_ok:
  assumes "dm_inv d" and "getDeviceByID ident d = Some dv"
  shows "dev_ok (dv_syspath dv) dv" "qm_value (dv_syspath dv) (dm_devices d) = Some dv" "dv_id dv = ident"
proof -
  have mem: "dv \<in> set (qm_values (dm_devices d))" and "dv_id dv = ident"
    using assms(2) by (auto simp: getDeviceByID_def find_Some_iff)
  then obtain k where k: "dev_ok k dv" "qm_value k (dm_devices d) = Some dv"
    using assms(1) devices_ok_values by (auto simp: dm_inv_def)
  moreover from this(1) have "k = dv_syspath dv" by (simp add: dev_ok_def)
  ultimately show "dev_ok (dv_syspath dv) dv" "qm_value (dv_syspath dv) (dm_devices d) = Some dv" "dv_id dv = ident"
    using \<open>dv_id dv = ident\<close> by simp_all
qed

lemma setEnable_ok:
  assumes "setEnable env b dv d = (res, dv', d')" and "dm_inv d" and "dev_ok (dv_syspath dv) dv"
  shows "dm_inv (trigger env dv' (store_device dv' d'))"
proof -
  have "dm_inv d'" "dev_ok (dv_syspath dv') dv'"
    using assms by (auto simp: setEnable_def Let_def dev_ok_def intro!: dm_inv_authorized dm_inv_addSetting
        split: device_class.splits)
  then show ?thesis by (simp add: dm_inv_trigger dm_inv_store)
qed

lemma dm_inv_switch_device:
  assumes "dm_inv d"
  shows "dm_inv (enable env caller ident d)" "dm_inv (disable env caller ident d)"
  using assms getDeviceByID_ok(1) [OF assms] setEnable_ok [OF _ assms]
  by (auto simp: enable_def disable_def split: option.splits prod.splits)

lemma dm_inv_changePermission: "dm_inv d \<Longrightarrow> dm_inv (changePermission env caller ident permissions d)"
proof -
  assume inv: "dm_inv d"
  have "dm_inv (trigger env dv' (store_device dv' d'))"
    if "getDeviceByID ident d = Some dv"
      "setEnable env True (dv\<lparr>dv_permission := p\<rparr>) (checkDeviceMount env (dv\<lparr>dv_permission := p\<rparr>)
         (store_device (dv\<lparr>dv_permission := p\<rparr>) d)) = (res, dv', d')" for dv p res dv' d'
  proof -
    have ok: "dev_ok (dv_syspath (dv\<lparr>dv_permission := p\<rparr>)) (dv\<lparr>dv_permission := p\<rparr>)"
      using getDeviceByID_ok(1) [OF inv that(1)] by (simp add: dev_ok_def)
    show ?thesis
      by (rule setEnable_ok [OF that(2) _ ok]) (rule dm_inv_checkDeviceMount, rule dm_inv_store [OF inv ok])
  qed
  then show ?thesis
    using inv by (auto simp: changePermission_def Let_def split: option.splits json.splits prod.splits)
qed

lemma dm_inv_enableInterface: "dm_inv d \<Longrightarrow> dm_inv (enableInterface env caller type enabled d)"
  by (simp add: enableInterface_def Let_def dm_inv_triggerInterface dm_inv_setIFCEnable)

lemma dm_inv_handle: "dm_inv d \<Longrightarrow> dm_inv (dm_handle env c caller d)"
  by (cases c) (simp_all add: dm_inv_switch_device dm_inv_changePermission dm_inv_enableInterface)

interpretation dm_gate: polkit_gate "dm_handle env" deny_caller dm_inv for env
  by unfold_locales (simp_all add: dm_inv_handle)

section \<open>Runs of the component\<close>

datatype dm_event =
    EvUdev dm_env sd_device
  | EvMountFile dm_env
  | EvGrubThread dm_env
  | EvGrubEnd
  | EvCall dm_env string dm_call
  | EvTime int

text \<open>A daemon that aborts on a bad mount line makes no further step; the model leaves its state as it was.\<close>

fun dm_step :: "dm \<Rightarrow> dm_event \<Rightarrow> dm" where
  "dm_step d (EvUdev env sd) = handleDeviceChange env sd d"
| "dm_step d (EvMountFile env) = (case handleMountFileChanged env d of None \<Rightarrow> d | Some d' \<Rightarrow> d')"
| "dm_step d (EvGrubThread env) = (if dm_grubUpdateThread d = ThreadRunning then updateGrubsInThread env d else d)"
| "dm_step d EvGrubEnd = (if dm_grubUpdateThread d = ThreadFinished then finishGrubsUpdate d else d)"
| "dm_step d (EvCall env caller c) = dm_handle env c caller d"
| "dm_step d (EvTime t) = d\<lparr>d_now := t\<rparr>"

interpretation dm_machine: step_invariant dm_step dm_inv
proof
  show "dm_inv d \<Longrightarrow> dm_inv (dm_step d e)" for d e
  proof (cases e)
    case (EvMountFile env)
    then show "dm_inv d \<Longrightarrow> dm_inv (dm_step d e)" by (auto simp: dm_inv_mount_file split: option.splits)
  next
    case (EvTime t)
    then show "dm_inv d \<Longrightarrow> dm_inv (dm_step d e)" by (simp add: dm_inv_def)
  qed (simp_all add: dm_inv_deviceChange dm_inv_grub_thread dm_inv_grub_end dm_inv_handle)
qed

text \<open>C12: Over any run of udev events, changes of the mount table, boot loader updates and client calls,
  in any order and whatever the environment answers, every device is found under its own path and
  under no other, a USB device has the identifier its settings are stored under, no setting is
  stored twice and the record of connections stays within its bound.\<close>

theorem device_map_consistent:
  assumes "dm_inv d"
  shows "(\<forall>k dv. qm_value k (dm_devices (run dm_step d es)) = Some dv \<longrightarrow> dv_syspath dv = k
        \<and> (dv_class dv = USBDevice \<longrightarrow> dv_uid dv = ''USB'' @ dv_idVendor dv @ dv_idProduct dv))
     \<and> distinct (qm_keys (dm_devices (run dm_step d es)))
     \<and> distinct (s_childGroups (dm_deviceSettings (run dm_step d es)))
     \<and> length (s_childGroups (dm_connectLog (run dm_step d es))) \<le> 1001"
proof -
  have inv: "dm_inv (run dm_step d es)" by (rule dm_machine.run_inv [OF assms])
  then have "dev_ok k dv" if "qm_value k (dm_devices (run dm_step d es)) = Some dv" for k dv
    using that by (auto simp: dm_inv_def devices_ok_value)
  with inv show ?thesis
    by (auto simp: dev_ok_def dm_inv_def devices_ok_def qm_keys_def qm_distinct s_childGroups_distinct)
qed

theorem device_map_consistent_witness:
  "distinct (qm_keys (dm_devices (run dm_step sample_dm
     [EvUdev usb_env (sample_sd ''/sys/u1''), EvCall usb_env '':1.7'' (Disable ''096e:0202:1-2''),
      EvUdev (sample_env False) (sample_sd ''/sys/u1'')])))"
  using device_map_consistent [OF sample_dm_inv] by blast

section \<open>Calls\<close>

lemma path_suffix: "a @ ''/uevent'' \<noteq> authorized_path b" "authorized_path b \<noteq> a @ ''/uevent''"
proof -
  have "last (a @ ''/uevent'') \<noteq> last (authorized_path b)" by (simp add: authorized_path_def)
  then show "a @ ''/uevent'' \<noteq> authorized_path b" "authorized_path b \<noteq> a @ ''/uevent''" by metis+
qed

lemma trigger_fields [simp]:
  "dm_deviceSettings (trigger env dv d) = dm_deviceSettings d" "dm_rules (trigger env dv d) = dm_rules d"
  "dm_devices (trigger env dv d) = dm_devices d" "d_effects (trigger env dv d) = d_effects d"
  by (simp_all add: trigger_def Let_def)

lemma trigger_authorized:
  "qm_ok (dm_files d) \<Longrightarrow> qm_value (authorized_path p) (dm_files (trigger env dv d)) = qm_value (authorized_path p) (dm_files d)"
  by (simp add: trigger_def Let_def qm_value_insert path_suffix)

lemma store_device_fields [simp]:
  "dm_deviceSettings (store_device dv d) = dm_deviceSettings d" "dm_rules (store_device dv d) = dm_rules d"
  "dm_files (store_device dv d) = dm_files d" "d_effects (store_device dv d) = d_effects d"
  "dm_devices (store_device dv d) = qm_insert (dv_syspath dv) dv (dm_devices d)"
  "dm_interfaceSettings (store_device dv d) = dm_interfaceSettings d"
  by (simp_all add: store_device_def)

lemma dm_done_fields [simp]:
  "dm_deviceSettings (dm_done c m d) = dm_deviceSettings d" "dm_rules (dm_done c m d) = dm_rules d"
  "dm_devices (dm_done c m d) = dm_devices d" "dm_files (dm_done c m d) = dm_files d"
  "d_effects (dm_done c m d) = d_effects d @ [Reply c]"
  by (simp_all add: dm_done_def act_def SSR_LOG_def write_log_def)

text \<open>C10: Disabling a USB device takes hold everywhere: the kernel is told to deauthorize it, the decision
  is stored under its identifier, a udev rule exists for its vendor and product, the device is shown
  as disabled, and the caller gets exactly one reply.\<close>

theorem disable_takes_hold:
  assumes "dm_inv d" and "getDeviceByID ident d = Some dv" and "dv_class dv = USBDevice"
    and "\<forall>p. de_can_write env p"
  shows "qm_value (authorized_path (dv_syspath dv)) (dm_files (disable env caller ident d)) = Some ''0''
     \<and> getDeviceSetting (dv_uid dv) (dm_deviceSettings (disable env caller ident d)) = Some (device_setting_of dv False)
     \<and> has_rule (dv_idVendor dv) (dv_idProduct dv) (dm_rules (disable env caller ident d))
     \<and> map_option dv_state (qm_value (dv_syspath dv) (dm_devices (disable env caller ident d))) = Some DEVICE_STATE_DISABLE
     \<and> d_effects (disable env caller ident d) = d_effects d @ [Reply caller]"
proof -
  let ?x = "device_setting_of dv False" and ?dv = "dv\<lparr>dv_state := DEVICE_STATE_DISABLE\<rparr>"
  let ?d1 = "addSetting env ?x d"
  let ?d2 = "setDeviceAuthorized env ?dv ?d1"
  have D: "disable env caller ident d = dm_done caller (''Disable device. ID is '' @ ident) (trigger env ?dv (store_device ?dv ?d2))"
    using assms(2,3) by (simp add: disable_def setEnable_def Let_def)
  have ok: "qm_ok (dm_files ?d1)" "s_ok (dm_deviceSettings d)" "qm_ok (dm_files ?d2)" "qm_ok (dm_devices ?d1)"
      "qm_ok (dm_files d)"
    using dm_inv_addSetting [OF assms(1), of env ?x] assms(1)
      dm_inv_authorized [OF dm_inv_addSetting [OF assms(1), of env ?x], of env ?dv]
    by (simp_all add: dm_inv_def devices_ok_def)
  have "qm_value (authorized_path (dv_syspath ?dv)) (dm_files ?d2) = Some ''0''"
    using authorized_written [OF ok(1), of env ?dv] isEnable_disabled [of ?dv] assms(4) by simp
  moreover have "has_rule (ds_idVendor ?x) (ds_idProduct ?x) (dm_rules ?d1)"
    using udev_rules_hold [OF ok(2), of ?x env] by (simp add: device_setting_of_def)
  moreover have "dm_rules ?d2 = dm_rules ?d1" by (simp add: setDeviceAuthorized_def)
  moreover have "getDeviceSetting (ds_uid ?x) (putSetting ?x (dm_deviceSettings d)) = Some ?x"
    by (rule getDeviceSetting_put_same [OF ok(2)])
  ultimately show ?thesis
    using ok by (simp add: D trigger_authorized qm_value_insert) (simp add: device_setting_of_def)
qed

section \<open>Replies\<close>

fun is_reply :: "effect \<Rightarrow> bool" where
  "is_reply (Reply c) = True"
| "is_reply (ReplyError c code) = True"
| "is_reply (ReplyDenied c) = True"
| "is_reply e = False"

text \<open>An operation that sends no reply.\<close>

definition quiet :: "dm \<Rightarrow> dm \<Rightarrow> bool" where
  "quiet d d' \<longleftrightarrow> (\<exists>es. d_effects d' = d_effects d @ es \<and> list_all (\<lambda>e. \<not> is_reply e) es)"

lemma quiet_same: "d_effects d' = d_effects d \<Longrightarrow> quiet d d'"
  by (simp add: quiet_def)

lemma quiet_refl [simp]: "quiet d d"
  by (simp add: quiet_same)

lemma quiet_trans: "quiet d d' \<Longrightarrow> quiet d' d'' \<Longrightarrow> quiet d d''"
  unfolding quiet_def by force

lemma quiet_fold: "(\<And>x d. quiet d (f x d)) \<Longrightarrow> quiet d (fold f xs d)"
proof (induction xs arbitrary: d)
  case Nil
  then show ?case by (simp add: quiet_same)
next
  case (Cons x xs)
  then show ?case using quiet_trans [of d "f x d"] by simp
qed

lemma quiet_remount: "quiet d (remountDevice dv m d)"
  by (simp add: quiet_def remountDevice_def Let_def act_def)

lemma quiet_checkDeviceMount: "quiet d (checkDeviceMount env dv d)"
  unfolding checkDeviceMount_def Let_def by (auto simp: quiet_remount intro!: quiet_fold)

lemma quiet_setEnable: "setEnable env b dv d = (res, dv', d') \<Longrightarrow> quiet d d'"
  by (rule quiet_same) (auto simp: setEnable_def Let_def split: device_class.splits)

lemma quiet_triggerInterface: "quiet d (triggerInterfaceDevices env t d)"
  unfolding triggerInterfaceDevices_def Let_def by (intro quiet_fold) (simp add: quiet_same)

lemma quiet_sync: "quiet d (sync_interface t d)"
  by (simp add: quiet_def sync_interface_def syncToBluetoothService_def syncToNMService_def act_def)

lemma quiet_setIFCEnable: "quiet d (setIFCEnable env t b d)"
proof (cases "t = INTERFACE_TYPE_USB")
  case True
  then show ?thesis by (simp add: setIFCEnable_USB quiet_same)
next
  case False
  have "d_effects (syncInterfaceToGrubFile env d') = d_effects d'" for d'
    by (simp add: syncInterfaceToGrubFile_def checkWaitingUpdateGrubs_def split: option.splits)
  moreover have "quiet d (sync_interface t (d\<lparr>dm_interfaceSettings := x\<rparr>))" for x
    using quiet_sync [of "d\<lparr>dm_interfaceSettings := x\<rparr>" t] by (simp add: quiet_def)
  ultimately show ?thesis using False by (simp add: setIFCEnable_other quiet_same)
qed

definition one_reply :: "string \<Rightarrow> dm \<Rightarrow> dm \<Rightarrow> bool" where
  "one_reply caller d d' \<longleftrightarrow> (\<exists>es r. d_effects d' = d_effects d @ es @ [r] \<and> list_all (\<lambda>e. \<not> is_reply e) es
     \<and> (r = Reply caller \<or> (\<exists>code. r = ReplyError caller code)))"

lemma one_reply_fail: "one_reply caller d (dm_fail caller msg code d)"
  by (simp add: one_reply_def dm_fail_def)

lemma one_reply_done: "quiet d d' \<Longrightarrow> one_reply caller d (dm_done caller msg d')"
  by (auto simp: one_reply_def quiet_def)

lemma quiet_same_left: "d_effects d = d_effects d1 \<Longrightarrow> quiet d d' \<Longrightarrow> quiet d1 d'"
  by (simp add: quiet_def)

text \<open>Every call that reaches its handler is answered exactly once, to its caller and after everything
  else it does, on every branch; a call that is answered with an error has changed nothing but the
  audit log.\<close>

theorem calls_answered_once:
  "one_reply caller d (dm_handle env c caller d)
   \<and> (\<forall>code. last (d_effects (dm_handle env c caller d)) = ReplyError caller code \<longrightarrow>
        (\<exists>msg. dm_handle env c caller d = dm_fail caller msg code d))"
proof -
  have sw: "quiet d (trigger env dv' (store_device dv' d'))" if "setEnable env b dv d = (res, dv', d')" for b dv res dv' d'
    using quiet_setEnable [OF that] by (simp add: quiet_def)
  have chg: "quiet d (trigger env dv' (store_device dv' d'))"
    if "setEnable env True dv (checkDeviceMount env dv (store_device dv d)) = (res, dv', d')" for dv res dv' d'
    using quiet_trans [OF quiet_checkDeviceMount [of "store_device dv d" env dv] quiet_setEnable [OF that]]
    by (simp add: quiet_def)
  have ifc: "quiet d (triggerInterfaceDevices env t (setIFCEnable env t b d))" for t b
    using quiet_trans [OF quiet_setIFCEnable quiet_triggerInterface] .
  have "\<exists>msg code d'. dm_handle env c caller d = dm_fail caller msg code d
      \<or> quiet d d' \<and> dm_handle env c caller d = dm_done caller msg d'"
    by (cases c; simp add: changePermission_def enable_def disable_def enableInterface_def Let_def
        split: option.splits json.splits prod.splits) (use sw chg ifc in blast)+
  then obtain msg code d' where "dm_handle env c caller d = dm_fail caller msg code d
      \<or> quiet d d' \<and> dm_handle env c caller d = dm_done caller msg d'" by blast
  moreover have "last (d_effects (dm_fail caller msg code d)) = ReplyError caller code"
    by (simp add: dm_fail_def)
  ultimately show ?thesis using one_reply_fail one_reply_done by auto
qed

text \<open>C9: Nothing privileged happens without polkit: whatever the clients call and in whatever order polkit's
  answers, errors and timeouts come, the component's state is what the authorized calls alone, in the
  order of their answers, make of it (a refused caller only gets its denial); every answered call was
  made before, by the caller it is run for, and none is answered twice.\<close>

theorem privileged_calls_authorized:
  assumes "polkit_run (dm_handle env) deny_caller p ls p'" and "pk_pending p = []" and "dm_inv (pk_state p)"
  shows "pk_state p' = fold (perform (dm_handle env) deny_caller) ls (pk_state p)
     \<and> dm_inv (pk_state p') \<and> distinct (answers ls)
     \<and> (\<forall>ls1 i caller c r ls2. ls = ls1 @ LAnswer i caller c r # ls2 \<longrightarrow> LCall caller c \<in> set ls1)"
  using dm_gate.run_state [OF assms(1)] dm_gate.run_inv [OF assms(1,3)]
    dm_gate.run_pending [OF assms(1,2)] dm_gate.answer_was_asked [OF assms(1,2)]
  by (simp add: pending_ok_def)

definition sample_polkit :: "(dm_call, dm) polkit" where
  "sample_polkit = \<lparr>pk_next = 0, pk_pending = [], pk_state = sample_dm\<rparr>"

theorem privileged_calls_authorized_witness:
  "\<exists>p'. polkit_run (dm_handle usb_env) deny_caller sample_polkit
       [LCall '':1.7'' (Disable ''x''), LAnswer 0 '':1.7'' (Disable ''x'') PolkitError] p'
     \<and> pk_state p' = deny_caller '':1.7'' sample_dm"
proof -
  let ?p1 = "checkAuthorization ''com.kylinsec.SSR.PermissionAuthentication'' '':1.7'' (Disable ''x'') sample_polkit"
  have "polkit_run (dm_handle usb_env) deny_caller sample_polkit ([] @ [LCall '':1.7'' (Disable ''x'')]) ?p1"
    by (rule step_run [OF done_run call])
  moreover have "polkit_step (dm_handle usb_env) deny_caller ?p1 (LAnswer 0 '':1.7'' (Disable ''x'') PolkitError)
      (onFinishCheckAuth (dm_handle usb_env) deny_caller 0 PolkitError ?p1)"
    using answer [of ?p1 0 "\<lparr>ca_caller = '':1.7'', ca_action = ''com.kylinsec.SSR.PermissionAuthentication'',
        ca_call = Disable ''x'', ca_timer = True\<rparr>" "dm_handle usb_env" deny_caller PolkitError]
    by (simp add: checkAuthorization_def sample_polkit_def)
  ultimately have "polkit_run (dm_handle usb_env) deny_caller sample_polkit
      ([LCall '':1.7'' (Disable ''x'')] @ [LAnswer 0 '':1.7'' (Disable ''x'') PolkitError])
      (onFinishCheckAuth (dm_handle usb_env) deny_caller 0 PolkitError ?p1)"
    using step_run by fastforce
  from privileged_calls_authorized [OF this] this show ?thesis
    using sample_dm_inv by (simp add: sample_polkit_def reply_success_def) blast
qed

theorem calls_answered_once_witness:
  "\<exists>msg. dm_handle usb_env (Disable ''x'') '':1.7'' sample_dm = dm_fail '':1.7'' msg ERROR_DEVICE_INVALID_ID sample_dm"
proof -
  have "getDeviceByID ''x'' sample_dm = None" by (simp add: getDeviceByID_def sample_dm_def qm_values_def)
  then have "last (d_effects (dm_handle usb_env (Disable ''x'') '':1.7'' sample_dm)) = ReplyError '':1.7'' ERROR_DEVICE_INVALID_ID"
    by (simp only: dm_handle.simps disable_def option.case) (simp add: dm_fail_def)
  then show ?thesis using calls_answered_once [of "'':1.7''" sample_dm usb_env "Disable ''x''"] by blast
qed

theorem disable_takes_hold_witness:
  "qm_value ''/sys/u1/authorized'' (dm_files (disable usb_env '':1.7'' ''096e:0202:1-2'' sample_plugged)) = Some ''0''"
proof -
  have path: "dv_syspath sample_usb = ''/sys/u1''" "dev_ok ''/sys/u1'' sample_usb"
    unfolding sample_usb_def by (rule newUSBDevice_ok)+
  have ident: "dv_id sample_usb = ''096e:0202:1-2''"
    by (simp add: sample_usb_def newUSBDevice_def initPermission_device split: option.splits)
      (simp add: usb_init_def Let_def new_device_def usb_env_def sample_env_def sample_sd_def sysattr_def)
  have "devices_ok (qm_insert ''/sys/u1'' sample_usb [])"
    by (rule devices_ok_insert [OF _ path(2)]) (simp add: devices_ok_def)
  then have "dm_inv sample_plugged"
    using sample_dm_inv by (simp add: sample_plugged_def dm_inv_def del: qm_insert.simps)
  moreover have "getDeviceByID ''096e:0202:1-2'' sample_plugged = Some sample_usb"
    by (simp add: getDeviceByID_def sample_plugged_def qm_values_def ident)
  ultimately show ?thesis
    using disable_takes_hold [of sample_plugged "''096e:0202:1-2''" sample_usb usb_env "'':1.7''"] path(1)
    by (simp add: authorized_path_def)
qed

end
