(* ===== verification/PrivateBox.thy ===== *)
theory PrivateBox
  imports Daemon
begin

text \<open>
  The private boxes: \<open>src/daemon/private-box/box-dao.cpp\<close> (the table \<open>boxs\<close>),
  \<open>ecryptfs.cpp\<close> (the shell commands), \<open>box.cpp\<close> (one box) and \<open>box-manager.cpp\<close> (the
  methods the clients call). A box is a directory of encrypted data, mounted on a directory named
  after the box, with a row in the table.

  \<open>box_env\<close> is what one call finds outside: which statements the database executes, the output
  and the error output of each shell command, which directories can be made or removed, the user
  names, the random numbers and the time's hash that random strings are drawn from, and the
  sender's user id.
\<close>

section \<open>State\<close>

record box_record =
  br_boxName :: string
  br_boxID :: string
  br_mounted :: bool
  br_encryptpassword :: string
  br_encryptPassphrase :: string
  br_encryptSig :: string
  br_userUID :: int

record box =
  bx_name :: string
  bx_boxID :: string
  bx_password :: string
  bx_userUID :: int

record bm = daemon +
  bm_rows :: "box_record list"
  bm_boxs :: "(string, box) qmap"
  bm_watched :: "string list"
  bm_dirs :: "string list"

datatype box_stmt = BoxInsert | BoxMountStatus | BoxPasswd | BoxDelete | BoxSelect | BoxCount | BoxDrop

record box_env =
  be_crypto :: crypto
  be_db_ok :: "box_stmt \<Rightarrow> bool"
  be_injected :: "box_record list"
  be_command :: "string \<Rightarrow> string \<times> string"
  be_mkpath :: "string \<Rightarrow> bool"
  be_removable :: "string \<Rightarrow> bool"
  be_user :: "int \<Rightarrow> string"
  be_md5 :: string
  be_random :: "nat \<Rightarrow> nat \<Rightarrow> nat"
  be_mount_dir :: string
  be_data_dir :: string
  be_sender :: int

section \<open>The table\<close>

definition null_record :: box_record where
  "null_record = \<lparr>br_boxName = [], br_boxID = [], br_mounted = False, br_encryptpassword = [],
     br_encryptPassphrase = [], br_encryptSig = [], br_userUID = 0\<rparr>"

text \<open>
  The name of the box is put into the insert statement as it is. When that statement is not executed as it
  is meant, it fails; with a quote in the name it may be another valid statement, which inserts the rows
  \<open>be_injected\<close>.
\<close>

definition dao_addBox :: "box_env \<Rightarrow> box_record \<Rightarrow> bm \<Rightarrow> bm" where
  "dao_addBox env r s =
     (if be_db_ok env BoxInsert then s\<lparr>bm_rows := bm_rows s @ [r]\<rparr>
      else if has_quote (br_boxName r) then s\<lparr>bm_rows := bm_rows s @ be_injected env\<rparr>
      else s)"

definition update_rows :: "string \<Rightarrow> (box_record \<Rightarrow> box_record) \<Rightarrow> box_record list \<Rightarrow> box_record list" where
  "update_rows boxID f rows = map (\<lambda>r. if br_boxID r = boxID then f r else r) rows"

definition modifyMountStatus :: "box_env \<Rightarrow> string \<Rightarrow> bool \<Rightarrow> bm \<Rightarrow> bool \<times> bm" where
  "modifyMountStatus env boxID mounted s =
     (if be_db_ok env BoxMountStatus
      then (True, s\<lparr>bm_rows := update_rows boxID (\<lambda>r. r\<lparr>br_mounted := mounted\<rparr>) (bm_rows s)\<rparr>)
      else (False, s))"

definition modifyPasswd :: "box_env \<Rightarrow> string \<Rightarrow> string \<Rightarrow> bm \<Rightarrow> bm" where
  "modifyPasswd env boxID encryptpassword s =
     (if be_db_ok env BoxPasswd
      then s\<lparr>bm_rows := update_rows boxID (\<lambda>r. r\<lparr>br_encryptpassword := encryptpassword\<rparr>) (bm_rows s)\<rparr> else s)"

definition dao_delBox :: "box_env \<Rightarrow> string \<Rightarrow> bm \<Rightarrow> bool \<times> bm" where
  "dao_delBox env boxID s =
     (if be_db_ok env BoxDelete then (True, s\<lparr>bm_rows := filter (\<lambda>r. br_boxID r \<noteq> boxID) (bm_rows s)\<rparr>)
      else (False, s))"

definition getBoxRows :: "box_env \<Rightarrow> bm \<Rightarrow> box_record list" where
  "getBoxRows env s = (if be_db_ok env BoxSelect then bm_rows s else [])"

definition getBox :: "box_env \<Rightarrow> string \<Rightarrow> bm \<Rightarrow> box_record" where
  "getBox env boxID s =
     (case List.find (\<lambda>r. br_boxID r = boxID) (getBoxRows env s) of None \<Rightarrow> null_record | Some r \<Rightarrow> r)"

definition getBoxCount :: "box_env \<Rightarrow> bm \<Rightarrow> int" where
  "getBoxCount env s = (if be_db_ok env BoxCount then int (length (bm_rows s)) else - 1)"

text \<open>The constructor of \<open>BoxDao\<close>, which every box runs: a table counted as empty is made anew.\<close>

definition dao_init :: "box_env \<Rightarrow> bm \<Rightarrow> bm" where
  "dao_init env s =
     (if getBoxCount env s < 1 then (if be_db_ok env BoxDrop then s\<lparr>bm_rows := []\<rparr> else s) else s)"

section \<open>The encrypted file system\<close>

text \<open>A command runs through \<open>bash -c\<close>; the result is its output and its error output.\<close>

definition execute :: "box_env \<Rightarrow> string \<Rightarrow> bm \<Rightarrow> (string \<times> string) \<times> bm" where
  "execute env cmd s = (be_command env cmd, act (Exec ''bash'' [''-c'', cmd]) s)"

definition isExistEcryptFSMod :: "box_env \<Rightarrow> bm \<Rightarrow> bool \<times> bm" where
  "isExistEcryptFSMod env s = (let ((out, err), s) = execute env ''lsmod |grep ecryptfs'' s in (out \<noteq> [], s))"

definition addPassphrase :: "box_env \<Rightarrow> string \<Rightarrow> bm \<Rightarrow> string \<times> bm" where
  "addPassphrase env passphrase s =
     (let (present, s) = isExistEcryptFSMod env s
      in if \<not> present then ([], s)
         else let ((out, err), s) = execute env
                (''echo '' @ [CHR 0x27] @ passphrase @ [CHR 0x27]
                 @ '' | ecryptfs-add-passphrase |grep -v Passphrase |cut -d[ -f 2 |cut -d] -f 1'') s
              in (out, s))"

definition umount_command :: "string \<Rightarrow> bool \<Rightarrow> string" where
  "umount_command umountPath isForce = (if isForce then ''umount -lf '' @ umountPath else ''umount '' @ umountPath)"

definition encrypt :: "box_env \<Rightarrow> string \<Rightarrow> bool \<Rightarrow> bm \<Rightarrow> string \<times> bm" where
  "encrypt env umountPath isForce s =
     (let ((out, err), s) = execute env (umount_command umountPath isForce) s in (err, s))"

definition mount_command :: "string \<Rightarrow> string \<Rightarrow> string \<Rightarrow> string \<Rightarrow> string" where
  "mount_command mountObjectPath mountPath passphrase sig =
     ''mount -t ecryptfs '' @ mountObjectPath @ '' '' @ mountPath @ ''  -o passphrase_passwd='' @ passphrase
     @ '',ecryptfs_sig='' @ sig @ '',ecryptfs_fnek_sig='' @ sig
     @ '',key=passphrase,ecryptfs_cipher=aes,ecryptfs_key_bytes=16,ecryptfs_passthrough,''
     @ ''ecryptfs_enable_filename_crypto=y,no_sig_cache''"

definition decrypt :: "box_env \<Rightarrow> string \<Rightarrow> string \<Rightarrow> string \<Rightarrow> string \<Rightarrow> bm \<Rightarrow> bool \<times> bm" where
  "decrypt env mountObjectPath mountPath passphrase sig s =
     (let ((out, err), s) = execute env (mount_command mountObjectPath mountPath passphrase sig) s
      in (err = [], s))"

definition mkdirBoxDir :: "box_env \<Rightarrow> string \<Rightarrow> string \<Rightarrow> bm \<Rightarrow> bool \<times> bm" where
  "mkdirBoxDir env path userName s =
     (if path \<in> set (bm_dirs s) then (True, s)
      else if \<not> be_mkpath env path then (False, s)
      else (True, snd (execute env (''chown '' @ userName @ '':'' @ userName @ '' '' @ path)
                    (s\<lparr>bm_dirs := bm_dirs s @ [path]\<rparr>))))"

text \<open>\<open>removeRecursively\<close>: the directory goes with everything below it.\<close>

definition rmBoxDir :: "box_env \<Rightarrow> string \<Rightarrow> bm \<Rightarrow> bm" where
  "rmBoxDir env path s =
     (let s = act (RemoveFile path) s
      in if be_removable env path
         then s\<lparr>bm_dirs := filter (\<lambda>p. p \<noteq> path \<and> \<not> startsWith p (path @ ''/'')) (bm_dirs s)\<rparr> else s)"

section \<open>One box\<close>

definition mountPath :: "box_env \<Rightarrow> string \<Rightarrow> string" where
  "mountPath env boxName = be_mount_dir env @ ''/'' @ boxName"

definition dataPath :: "box_env \<Rightarrow> string \<Rightarrow> string \<Rightarrow> string" where
  "dataPath env boxName boxID = be_data_dir env @ ''/'' @ boxName @ boxID"

text \<open>The \<open>k\<close>-th random string of a call: characters of the hexadecimal hash of the time.\<close>

definition getRandStr :: "box_env \<Rightarrow> nat \<Rightarrow> nat \<Rightarrow> string" where
  "getRandStr env k n = map (\<lambda>i. be_md5 env ! (be_random env k i mod length (be_md5 env))) [0..<n]"

fun uid_loop :: "box_env \<Rightarrow> nat \<Rightarrow> nat \<Rightarrow> bm \<Rightarrow> string" where
  "uid_loop env k 0 s = []"
| "uid_loop env k (Suc n) s =
     (let uid = getRandStr env k 6
      in if br_boxID (getBox env uid s) \<noteq> [] then uid_loop env (Suc k) n s else uid)"

definition getRandBoxUid :: "box_env \<Rightarrow> bm \<Rightarrow> string" where
  "getRandBoxUid env s = uid_loop env 1 5 s"

definition addToDao :: "box_env \<Rightarrow> box \<Rightarrow> bm \<Rightarrow> bool \<times> box \<times> bm" where
  "addToDao env b s =
     (if br_boxName (getBox env (bx_boxID b) s) \<noteq> [] then (True, b, s)
      else let passphrase = getRandStr env 0 8;
               (sig, s) = addPassphrase env passphrase s
           in if sig = [] then (False, b, s)
              else let b = b\<lparr>bx_boxID := getRandBoxUid env s\<rparr>;
                       enc = aesEncrypt (be_crypto env)
                   in (True, b, dao_addBox env
                        \<lparr>br_boxName = bx_name b, br_boxID = bx_boxID b, br_mounted = False,
                         br_encryptpassword = enc (bx_password b), br_encryptPassphrase = enc passphrase,
                         br_encryptSig = enc (trimmed sig), br_userUID = bx_userUID b\<rparr> s))"

definition mkdirSourceDir :: "box_env \<Rightarrow> box \<Rightarrow> bm \<Rightarrow> bool \<times> bm" where
  "mkdirSourceDir env b s =
     (let (result, s) = mkdirBoxDir env (dataPath env (bx_name b) (bx_boxID b)) (be_user env (bx_userUID b)) s
      in if \<not> result
         then (False, snd (dao_delBox env (bx_boxID b) (rmBoxDir env (dataPath env (bx_name b) (bx_boxID b)) s)))
         else (True, s))"

definition box_init :: "box_env \<Rightarrow> box \<Rightarrow> bm \<Rightarrow> (SSRErrorCode + box) \<times> bm" where
  "box_init env b s =
     (let (added, b, s) = addToDao env b s
      in if \<not> added then (Inl ERROR_BM_MOUDLE_UNLOAD, s)
         else let (made, s) = mkdirSourceDir env b s
              in if \<not> made then (Inl ERROR_BM_MKDIR_DATA_DIR_FAILED, s) else (Inr b, s))"

definition box_create :: "box_env \<Rightarrow> string \<Rightarrow> string \<Rightarrow> int \<Rightarrow> string \<Rightarrow> bm \<Rightarrow> (SSRErrorCode + box) \<times> bm" where
  "box_create env name password userUID boxID s =
     box_init env \<lparr>bx_name = name, bx_boxID = boxID, bx_password = password, bx_userUID = userUID\<rparr> (dao_init env s)"

definition getBoxInfo :: "box_env \<Rightarrow> box \<Rightarrow> bm \<Rightarrow> box_record" where
  "getBoxInfo env b s = getBox env (bx_boxID b) s"

definition mounted :: "box_env \<Rightarrow> box \<Rightarrow> bm \<Rightarrow> bool" where
  "mounted env b s = br_mounted (getBoxInfo env b s)"

definition getPassphrase :: "box_env \<Rightarrow> box \<Rightarrow> bm \<Rightarrow> string" where
  "getPassphrase env b s = aesDecrypt (be_crypto env) (br_encryptPassphrase (getBox env (bx_boxID b) s))"

definition retrievePassword :: "box_env \<Rightarrow> box \<Rightarrow> string \<Rightarrow> bm \<Rightarrow> string" where
  "retrievePassword env b passphrase s =
     (if getPassphrase env b s \<noteq> passphrase then []
      else aesDecrypt (be_crypto env) (br_encryptpassword (getBox env (bx_boxID b) s)))"

definition box_umount :: "box_env \<Rightarrow> box \<Rightarrow> bool \<Rightarrow> bm \<Rightarrow> SSRErrorCode \<times> bm" where
  "box_umount env b isForce s =
     (let path = mountPath env (br_boxName (getBoxInfo env b s))
      in case modifyMountStatus env (bx_boxID b) False s of
           (False, s) \<Rightarrow> (ERROR_BM_INTERNAL_ERRORS, s)
         | (True, s) \<Rightarrow>
             (let (err, s) = encrypt env path isForce s
              in if err \<noteq> [] then (ERROR_BM_UMOUNT_FAIL, snd (modifyMountStatus env (bx_boxID b) True s))
                 else (SUCCESS, rmBoxDir env path s)))"

definition box_mount :: "box_env \<Rightarrow> box \<Rightarrow> string \<Rightarrow> bm \<Rightarrow> SSRErrorCode \<times> bm" where
  "box_mount env b currentPassword s =
     (let boxInfo = getBoxInfo env b s; dec = aesDecrypt (be_crypto env)
      in if currentPassword \<noteq> dec (br_encryptpassword boxInfo) then (ERROR_BM_INPUT_PASSWORD_ERROR, s)
         else if br_mounted boxInfo then (SUCCESS, s)
         else let path = mountPath env (br_boxName boxInfo);
                  (made, s) = mkdirBoxDir env path (be_user env (bx_userUID b)) s
              in if \<not> made then (ERROR_BM_INTERNAL_ERRORS, s)
                 else let (opened, s) = decrypt env (dataPath env (br_boxName boxInfo) (br_boxID boxInfo)) path
                            (dec (br_encryptPassphrase boxInfo)) (dec (br_encryptSig boxInfo)) s
                      in if \<not> opened then (ERROR_BM_INTERNAL_ERRORS, s)
                         else case modifyMountStatus env (bx_boxID b) True s of
                                (False, s) \<Rightarrow> (ERROR_BM_INTERNAL_ERRORS, s)
                              | (True, s) \<Rightarrow> (SUCCESS, s))"

definition box_delBox :: "box_env \<Rightarrow> box \<Rightarrow> string \<Rightarrow> bm \<Rightarrow> SSRErrorCode \<times> bm" where
  "box_delBox env b currentPassword s =
     (let boxInfo = getBoxInfo env b s
      in if currentPassword \<noteq> aesDecrypt (be_crypto env) (br_encryptpassword boxInfo)
         then (ERROR_BM_INPUT_PASSWORD_ERROR, s)
         else let (code, s) = (if br_mounted boxInfo then box_umount env b False s else (SUCCESS, s))
              in if code \<noteq> SUCCESS then (code, s)
                 else let s = rmBoxDir env (dataPath env (br_boxName boxInfo) (br_boxID boxInfo)) s;
                          s = rmBoxDir env (mountPath env (br_boxName boxInfo)) s
                      in (SUCCESS, snd (dao_delBox env (bx_boxID b) s)))"

definition modifyPassword :: "box_env \<Rightarrow> box \<Rightarrow> string \<Rightarrow> string \<Rightarrow> bm \<Rightarrow> bool \<times> bm" where
  "modifyPassword env b currentPassword newPassword s =
     (if currentPassword \<noteq> aesDecrypt (be_crypto env) (br_encryptpassword (getBoxInfo env b s)) then (False, s)
      else (True, modifyPasswd env (bx_boxID b) (aesEncrypt (be_crypto env) newPassword) s))"

text \<open>After a restart: the status of the box is whether \<open>df\<close> shows its data directory.\<close>

definition clearMountStatus :: "box_env \<Rightarrow> box \<Rightarrow> bm \<Rightarrow> bm" where
  "clearMountStatus env b s =
     (let ((out, err), s) = execute env ''df -h'' s;
          s = snd (modifyMountStatus env (bx_boxID b)
                (contains (filter (\<lambda>c. \<not> is_space c) out) (bx_name b @ bx_boxID b)) s)
      in if \<not> mounted env b s then rmBoxDir env (mountPath env (bx_name b)) s else s)"

end
