(* ===== verification/BoxManager.thy ===== *)
theory BoxManager
  imports PrivateBox
begin

text \<open>
  \<open>src/daemon/private-box/box-manager.cpp\<close>: the methods of the private boxes, the restart
  and the exit of a client, and the properties of the component.
\<close>

section \<open>The methods\<close>

definition bm_error :: "string \<Rightarrow> string \<Rightarrow> SSRErrorCode \<Rightarrow> bm \<Rightarrow> bm" where
  "bm_error caller msg code s = act (ReplyError caller code) (SSR_LOG_ERROR log_PRIVATE_BOX msg caller s)"

definition bm_success :: "string \<Rightarrow> string \<Rightarrow> bm \<Rightarrow> bm" where
  "bm_success caller msg s = SSR_LOG_SUCCESS log_PRIVATE_BOX msg caller s"

definition name_taken :: "box_env \<Rightarrow> string \<Rightarrow> bm \<Rightarrow> bool" where
  "name_taken env boxName s \<longleftrightarrow>
     list_ex (\<lambda>b. bx_userUID b = be_sender env \<and> bx_name b = boxName) (qm_values (bm_boxs s))"

text \<open>The result is the identifier and the passphrase; an error leaves both empty.\<close>

definition CreateBox :: "box_env \<Rightarrow> string \<Rightarrow> string \<Rightarrow> string \<Rightarrow> bm \<Rightarrow> (string \<times> string) \<times> bm" where
  "CreateBox env caller boxName password s =
     (let failed = ''Failed to create box. name is '' @ boxName
      in if boxName = [] \<or> password = [] then (([], []), bm_error caller failed ERROR_COMMON_INVALID_ARGS s)
         else if name_taken env boxName s
         then (([], []), bm_error caller (''Fail to create box. name is '' @ boxName) ERROR_BM_REPEATED_NAME s)
         else let decryptPasswd = rsaDecrypt (be_crypto env) password
              in if \<not> checkPassword decryptPasswd boxName
                 then (([], []), bm_error caller failed ERROR_BM_CHECK_PASSWORD_FAILED s)
                 else case box_create env boxName decryptPasswd (be_sender env) [] s of
                        (Inl code, s) \<Rightarrow> (([], []), bm_error caller failed code s)
                      | (Inr b, s) \<Rightarrow>
                          (let s = s\<lparr>bm_boxs := qm_insert (bx_boxID b) b (bm_boxs s)\<rparr>
                           in ((bx_boxID b, getPassphrase env b s),
                               bm_success caller (''Create box. name is '' @ boxName) s)))"

definition DelBox :: "box_env \<Rightarrow> string \<Rightarrow> string \<Rightarrow> string \<Rightarrow> bm \<Rightarrow> bm" where
  "DelBox env caller boxID password s =
     (case qm_value boxID (bm_boxs s) of
        None \<Rightarrow> bm_error caller (''Failed to delete box. box ID is '' @ boxID) ERROR_BM_NOT_FOUND s
      | Some b \<Rightarrow>
          (let (code, s) = box_delBox env b (rsaDecrypt (be_crypto env) password) s
           in if code \<noteq> SUCCESS then bm_error caller (''Failed to delete box. box name is '' @ bx_name b) code s
              else bm_success caller (''Delete box. box name is '' @ bx_name b)
                     (act (EmitSignal ''BoxDeleted'' boxID 0) (s\<lparr>bm_boxs := qm_remove boxID (bm_boxs s)\<rparr>))))"

definition box_json :: "box_env \<Rightarrow> string \<Rightarrow> box \<Rightarrow> bm \<Rightarrow> json" where
  "box_json env boxID b s = JObj [(''name'', JStr (bx_name b)), (''uid'', JStr boxID), (''mounted'', JBool (mounted env b s))]"

definition GetBoxByUID :: "box_env \<Rightarrow> string \<Rightarrow> bm \<Rightarrow> SSRErrorCode + json" where
  "GetBoxByUID env boxID s =
     (case qm_value boxID (bm_boxs s) of None \<Rightarrow> Inl ERROR_BM_NOT_FOUND | Some b \<Rightarrow> Inr (box_json env boxID b s))"

definition GetBoxs :: "box_env \<Rightarrow> bm \<Rightarrow> json" where
  "GetBoxs env s =
     JArr (map (\<lambda>b. box_json env (bx_boxID b) b s)
       (filter (\<lambda>b. be_sender env = bx_userUID b) (qm_values (bm_boxs s))))"

definition IsMounted :: "box_env \<Rightarrow> string \<Rightarrow> bm \<Rightarrow> SSRErrorCode + bool" where
  "IsMounted env boxID s =
     (case qm_value boxID (bm_boxs s) of None \<Rightarrow> Inl ERROR_BM_NOT_FOUND | Some b \<Rightarrow> Inr (mounted env b s))"

definition ModifyBoxPassword :: "box_env \<Rightarrow> string \<Rightarrow> string \<Rightarrow> string \<Rightarrow> string \<Rightarrow> bm \<Rightarrow> bm" where
  "ModifyBoxPassword env caller boxID currentPassword newPassword s =
     (let failed = ''Failed to modfify box password. box ID is '' @ boxID;
          decrypted = rsaDecrypt (be_crypto env) currentPassword;
          decryptNew = rsaDecrypt (be_crypto env) newPassword
      in if boxID = [] \<or> currentPassword = [] \<or> newPassword = []
         then bm_error caller failed ERROR_COMMON_INVALID_ARGS s
         else if decrypted = decryptNew then bm_error caller failed ERROR_BM_SETTINGS_SAME_PASSWORD s
         else case qm_value boxID (bm_boxs s) of
                None \<Rightarrow> bm_error caller failed ERROR_BM_NOT_FOUND s
              | Some b \<Rightarrow>
                  if \<not> checkPassword decryptNew (bx_name b)
                  then bm_error caller failed ERROR_BM_CHECK_PASSWORD_FAILED s
                  else case modifyPassword env b decrypted decryptNew s of
                         (False, s) \<Rightarrow> bm_error caller (''Fail to modfify box password. box name is '' @ bx_name b)
                                        ERROR_BM_MODIFY_PASSWORD_FAILED s
                       | (True, s) \<Rightarrow> bm_success caller (''Modfify box password. box name is '' @ bx_name b) s)"

definition Mount :: "box_env \<Rightarrow> string \<Rightarrow> string \<Rightarrow> string \<Rightarrow> bm \<Rightarrow> bm" where
  "Mount env caller boxID password s =
     (case qm_value boxID (bm_boxs s) of
        None \<Rightarrow> bm_error caller (''Failed to mount box. box ID is '' @ boxID) ERROR_BM_NOT_FOUND s
      | Some b \<Rightarrow>
          if bx_boxID b \<noteq> boxID then s
          else let (code, s) = box_mount env b (rsaDecrypt (be_crypto env) password) s
               in if code \<noteq> SUCCESS then bm_error caller (''Failed to mount box. box name is '' @ bx_name b) code s
                  else bm_success caller (''Mount box. box name is '' @ bx_name b)
                         (act (EmitSignal ''BoxChanged'' boxID 0)
                           (s\<lparr>bm_watched := List.insert caller (bm_watched s)\<rparr>)))"

definition RetrieveBoxPassword :: "box_env \<Rightarrow> string \<Rightarrow> string \<Rightarrow> string \<Rightarrow> bm \<Rightarrow> string \<times> bm" where
  "RetrieveBoxPassword env caller boxID passphrase s =
     (let failed = ''Failed to retrieve box password. box ID is '' @ boxID
      in if passphrase = [] then ([], bm_error caller failed ERROR_COMMON_INVALID_ARGS s)
         else case qm_value boxID (bm_boxs s) of
                None \<Rightarrow> ([], bm_error caller failed ERROR_BM_NOT_FOUND s)
              | Some b \<Rightarrow>
                  (let password = retrievePassword env b (rsaDecrypt (be_crypto env) passphrase) s
                   in if password = []
                      then ([], bm_error caller (''Failed to retrieve box password. box name is '' @ bx_name b)
                                  ERROR_BM_INPUT_PASSPHRASE_ERROR s)
                      else (password, bm_success caller (''Retrieve box password. box name is '' @ bx_name b) s)))"

definition UnMount :: "box_env \<Rightarrow> string \<Rightarrow> string \<Rightarrow> bm \<Rightarrow> bm" where
  "UnMount env caller boxID s =
     (case qm_value boxID (bm_boxs s) of
        None \<Rightarrow> bm_error caller (''Failed to unmount box. box ID is '' @ boxID) ERROR_BM_NOT_FOUND s
      | Some b \<Rightarrow>
          if bx_boxID b \<noteq> boxID then s
          else let (code, s) = box_umount env b False s
               in if code \<noteq> SUCCESS then bm_error caller (''Failed to unmount box. box name is '' @ bx_name b) code s
                  else act (EmitSignal ''BoxChanged'' boxID 0)
                         (bm_success caller (''Unmount box. box name is '' @ bx_name b) s))"

text \<open>The exit of a client that has mounted a box: every mounted box is unmounted by force.\<close>

definition unMountAllBoxs :: "box_env \<Rightarrow> string \<Rightarrow> bm \<Rightarrow> bm" where
  "unMountAllBoxs env service s =
     fold (\<lambda>b s. if mounted env b s
                 then act (EmitSignal ''BoxChanged'' (bx_boxID b) 0) (snd (box_umount env b True s)) else s)
       (qm_values (bm_boxs s)) (s\<lparr>bm_watched := removeAll service (bm_watched s)\<rparr>)"

text \<open>A restart: every row of the table becomes a box again.\<close>

definition load_box :: "box_env \<Rightarrow> box_record \<Rightarrow> bm \<Rightarrow> bm" where
  "load_box env r s =
     (case box_create env (br_boxName r) (aesDecrypt (be_crypto env) (br_encryptpassword r)) (br_userUID r) (br_boxID r) s of
        (Inl code, s) \<Rightarrow> s
      | (Inr b, s) \<Rightarrow> (let s = clearMountStatus env b s in s\<lparr>bm_boxs := qm_insert (br_boxID r) b (bm_boxs s)\<rparr>))"

definition bm_init :: "box_env \<Rightarrow> bm \<Rightarrow> bm" where
  "bm_init env s =
     (let s = dao_init env (s\<lparr>bm_boxs := []\<rparr>) in fold (load_box env) (getBoxRows env s) s)"

section \<open>What the parts leave alone\<close>

lemma box_frame [frame_simps, simp]:
  "bm_boxs (snd (execute env cmd s)) = bm_boxs s" "bm_rows (snd (execute env cmd s)) = bm_rows s"
  "bm_dirs (snd (execute env cmd s)) = bm_dirs s" "fst (execute env cmd s) = be_command env cmd"
  "bm_boxs (rmBoxDir env path s) = bm_boxs s" "bm_rows (rmBoxDir env path s) = bm_rows s"
  "bm_boxs (dao_init env s) = bm_boxs s"
  "bm_boxs (dao_addBox env r s) = bm_boxs s"
  "bm_boxs (snd (dao_delBox env boxID s)) = bm_boxs s"
  "bm_boxs (snd (modifyMountStatus env boxID b s)) = bm_boxs s"
  "bm_dirs (snd (modifyMountStatus env boxID b s)) = bm_dirs s"
  "bm_dirs (snd (dao_delBox env boxID s)) = bm_dirs s"
  "bm_boxs (modifyPasswd env boxID pw s) = bm_boxs s"
  by (simp_all add: execute_def rmBoxDir_def dao_init_def dao_addBox_def dao_delBox_def modifyMountStatus_def
      modifyPasswd_def act_def Let_def)

lemma box_frame_commands [frame_simps, simp]:
  "bm_boxs (snd (addPassphrase env p s)) = bm_boxs s" "bm_rows (snd (addPassphrase env p s)) = bm_rows s"
  "bm_boxs (snd (encrypt env path f s)) = bm_boxs s" "bm_rows (snd (encrypt env path f s)) = bm_rows s"
  "bm_dirs (snd (encrypt env path f s)) = bm_dirs s"
  "fst (encrypt env path f s) = snd (be_command env (umount_command path f))"
  "bm_boxs (snd (decrypt env o' path p sig s)) = bm_boxs s" "bm_rows (snd (decrypt env o' path p sig s)) = bm_rows s"
  "bm_dirs (snd (decrypt env o' path p sig s)) = bm_dirs s"
  "fst (decrypt env o' path p sig s) \<longleftrightarrow> snd (be_command env (mount_command o' path p sig)) = []"
  "bm_boxs (snd (mkdirBoxDir env path u s)) = bm_boxs s" "bm_rows (snd (mkdirBoxDir env path u s)) = bm_rows s"
  "fst (mkdirBoxDir env path u s) \<Longrightarrow> path \<in> set (bm_dirs (snd (mkdirBoxDir env path u s)))"
  by (simp_all add: addPassphrase_def isExistEcryptFSMod_def encrypt_def decrypt_def mkdirBoxDir_def
      execute_def act_def Let_def split_beta split: if_splits)

lemma box_frame_replies [frame_simps, simp]:
  "bm_boxs (bm_error c m e s) = bm_boxs s" "bm_rows (bm_error c m e s) = bm_rows s" "bm_dirs (bm_error c m e s) = bm_dirs s"
  "bm_boxs (bm_success c m s) = bm_boxs s" "bm_rows (bm_success c m s) = bm_rows s" "bm_dirs (bm_success c m s) = bm_dirs s"
  "d_effects (bm_error c m e s) = d_effects s @ [ReplyError c e]" "d_effects (bm_success c m s) = d_effects s"
  "bm_boxs (act e' s) = bm_boxs s" "bm_rows (act e' s) = bm_rows s" "bm_dirs (act e' s) = bm_dirs s"
  by (simp_all add: bm_error_def bm_success_def SSR_LOG_def act_def write_log_def)

lemma getBox_cong: "bm_rows s = bm_rows s' \<Longrightarrow> getBox env boxID s = getBox env boxID s'"
  by (simp add: getBox_def getBoxRows_def)

lemma getBox_boxs [simp]: "getBox env boxID (s\<lparr>bm_boxs := x\<rparr>) = getBox env boxID s"
    "getBox env boxID (s\<lparr>bm_watched := w\<rparr>) = getBox env boxID s"
  by (simp_all add: getBox_def getBoxRows_def)

lemma box_umount_boxs [simp]: "bm_boxs (snd (box_umount env b f s)) = bm_boxs s"
proof (cases "modifyMountStatus env (bx_boxID b) False s")
  case (Pair ok t)
  then have "bm_boxs t = bm_boxs s" using box_frame(10) [of env "bx_boxID b" False s] by simp
  then show ?thesis by (simp add: box_umount_def Let_def Pair split_beta split: bool.splits)
qed

lemma box_mount_boxs [simp]: "bm_boxs (snd (box_mount env b pw s)) = bm_boxs s"
  by (simp add: box_mount_def Let_def split_beta modifyMountStatus_def split: prod.splits bool.splits)

lemma box_delBox_boxs [simp]: "bm_boxs (snd (box_delBox env b pw s)) = bm_boxs s"
  by (simp add: box_delBox_def Let_def split_beta)

lemma addToDao_frame:
  "addToDao env b s = (r, b', s') \<Longrightarrow> bm_boxs s' = bm_boxs s \<and> bx_name b' = bx_name b \<and> bx_userUID b' = bx_userUID b
     \<and> bx_password b' = bx_password b"
  by (auto simp: addToDao_def Let_def split_beta split: if_splits)

lemma mkdirSourceDir_boxs [simp]: "bm_boxs (snd (mkdirSourceDir env b s)) = bm_boxs s"
  by (simp add: mkdirSourceDir_def split_beta)

lemma box_create_frame:
  assumes "box_create env name pw uid boxID s = (r, s')"
  shows "bm_boxs s' = bm_boxs s \<and> (\<forall>b. r = Inr b \<longrightarrow> bx_name b = name \<and> bx_userUID b = uid)"
proof -
  let ?b = "\<lparr>bx_name = name, bx_boxID = boxID, bx_password = pw, bx_userUID = uid\<rparr>"
  obtain ok b' t where A: "addToDao env ?b (dao_init env s) = (ok, b', t)" by (metis prod_cases3)
  obtain made u where M: "mkdirSourceDir env b' t = (made, u)" by force
  from addToDao_frame [OF A] assms A M mkdirSourceDir_boxs [of env b' t] show ?thesis
    by (auto simp: box_create_def box_init_def Let_def split: if_splits)
qed

section \<open>Names\<close>

datatype bm_event =
    EvCreateBox box_env string string string
  | EvDelBox box_env string string string
  | EvModifyPassword box_env string string string string
  | EvMount box_env string string string
  | EvRetrieve box_env string string string
  | EvUnMount box_env string string
  | EvClientGone box_env string

fun bm_step :: "bm \<Rightarrow> bm_event \<Rightarrow> bm" where
  "bm_step s (EvCreateBox env caller name pw) = snd (CreateBox env caller name pw s)"
| "bm_step s (EvDelBox env caller boxID pw) = DelBox env caller boxID pw s"
| "bm_step s (EvModifyPassword env caller boxID pw new) = ModifyBoxPassword env caller boxID pw new s"
| "bm_step s (EvMount env caller boxID pw) = Mount env caller boxID pw s"
| "bm_step s (EvRetrieve env caller boxID pp) = snd (RetrieveBoxPassword env caller boxID pp s)"
| "bm_step s (EvUnMount env caller boxID) = UnMount env caller boxID s"
| "bm_step s (EvClientGone env service) = unMountAllBoxs env service s"

definition unique_names :: "(string, box) qmap \<Rightarrow> bool" where
  "unique_names m \<longleftrightarrow> qm_ok m \<and> (\<forall>k k' b b'. qm_value k m = Some b \<longrightarrow> qm_value k' m = Some b' \<longrightarrow>
     bx_userUID b = bx_userUID b' \<longrightarrow> bx_name b = bx_name b' \<longrightarrow> k = k')"

definition names_inv :: "bm \<Rightarrow> bool" where
  "names_inv s \<longleftrightarrow> unique_names (bm_boxs s)"

lemma unique_names_insert:
  assumes "unique_names m" and "\<And>k b'. qm_value k m = Some b' \<Longrightarrow> bx_userUID b' = bx_userUID b \<Longrightarrow> bx_name b' \<noteq> bx_name b"
  shows "unique_names (qm_insert i b m)"
proof -
  have ok: "qm_ok m" using assms(1) by (simp add: unique_names_def)
  have "k = k'" if v: "qm_value k (qm_insert i b m) = Some c" "qm_value k' (qm_insert i b m) = Some c'"
      and eq: "bx_userUID c = bx_userUID c'" "bx_name c = bx_name c'" for k k' c c'
  proof (cases "k = i \<or> k' = i")
    case True
    then show ?thesis
      using v eq assms(2) [of k c] assms(2) [of k' c'] by (auto simp: qm_value_insert [OF ok] split: if_splits)
  next
    case False
    then have "qm_value k m = Some c" "qm_value k' m = Some c'" using v by (simp_all add: qm_value_insert [OF ok])
    with assms(1) eq show ?thesis unfolding unique_names_def by blast
  qed
  then show ?thesis unfolding unique_names_def using qm_ok_insert [OF ok] by blast
qed

lemma unique_names_remove:
  assumes "unique_names m"
  shows "unique_names (qm_remove i m)"
proof -
  have "qm_value k m = Some b" if "qm_value k (qm_remove i m) = Some b" for k b
    using that by (simp add: qm_value_remove split: if_splits)
  then show ?thesis using assms unfolding unique_names_def by (meson qm_ok_remove)
qed

lemma names_inv_cong: "bm_boxs s' = bm_boxs s \<Longrightarrow> names_inv s \<Longrightarrow> names_inv s'"
  by (simp only: names_inv_def)

lemma name_taken_iff:
  "qm_ok (bm_boxs s) \<Longrightarrow> name_taken env name s \<longleftrightarrow>
     (\<exists>k b. qm_value k (bm_boxs s) = Some b \<and> bx_userUID b = be_sender env \<and> bx_name b = name)"
  by (force simp: name_taken_def list_ex_iff qm_values_def qm_value_mem)

lemma CreateBox_boxs:
  "bm_boxs (snd (CreateBox env caller name pw s)) = bm_boxs s
   \<or> \<not> name_taken env name s \<and> (\<exists>b. bx_name b = name \<and> bx_userUID b = be_sender env
        \<and> bm_boxs (snd (CreateBox env caller name pw s)) = qm_insert (bx_boxID b) b (bm_boxs s))"
proof -
  obtain r s' where C: "box_create env name (rsaDecrypt (be_crypto env) pw) (be_sender env) [] s = (r, s')" by force
  from box_create_frame [OF C] C show ?thesis
    by (cases r) (auto simp: CreateBox_def Let_def)
qed

lemma CreateBox_names: "names_inv s \<Longrightarrow> names_inv (snd (CreateBox env caller name pw s))"
proof -
  assume inv: "names_inv s"
  show ?thesis
    using CreateBox_boxs [of env caller name pw s]
  proof
    assume "bm_boxs (snd (CreateBox env caller name pw s)) = bm_boxs s"
    then show ?thesis using inv by (rule names_inv_cong)
  next
    assume "\<not> name_taken env name s \<and> (\<exists>b. bx_name b = name \<and> bx_userUID b = be_sender env
        \<and> bm_boxs (snd (CreateBox env caller name pw s)) = qm_insert (bx_boxID b) b (bm_boxs s))"
    then obtain b where b: "\<not> name_taken env name s" "bx_name b = name" "bx_userUID b = be_sender env"
      "bm_boxs (snd (CreateBox env caller name pw s)) = qm_insert (bx_boxID b) b (bm_boxs s)" by blast
    have ok: "qm_ok (bm_boxs s)" using inv by (simp add: names_inv_def unique_names_def)
    have "bx_name b' \<noteq> bx_name b" if "qm_value k (bm_boxs s) = Some b'" "bx_userUID b' = bx_userUID b" for k b'
      using that b(1-3) name_taken_iff [OF ok] by metis
    then show ?thesis
      using inv unfolding names_inv_def b(4) by (intro unique_names_insert)
  qed
qed

lemma DelBox_names: "names_inv s \<Longrightarrow> names_inv (DelBox env caller boxID pw s)"
proof -
  assume inv: "names_inv s"
  have "bm_boxs (DelBox env caller boxID pw s) \<in> {bm_boxs s, qm_remove boxID (bm_boxs s)}"
    by (simp add: DelBox_def split_beta split: option.splits)
  then show ?thesis using inv unique_names_remove [of "bm_boxs s" boxID] by (auto simp only: names_inv_def)
qed

lemma other_boxs:
  "bm_boxs (ModifyBoxPassword env caller boxID pw new s) = bm_boxs s"
  "bm_boxs (Mount env caller boxID pw s) = bm_boxs s"
  "bm_boxs (snd (RetrieveBoxPassword env caller boxID pp s)) = bm_boxs s"
  "bm_boxs (UnMount env caller boxID s) = bm_boxs s"
  "bm_boxs (unMountAllBoxs env service s) = bm_boxs s"
proof -
  show "bm_boxs (ModifyBoxPassword env caller boxID pw new s) = bm_boxs s"
    by (simp add: ModifyBoxPassword_def Let_def modifyPassword_def split: option.splits)
  show "bm_boxs (Mount env caller boxID pw s) = bm_boxs s"
    by (simp add: Mount_def Let_def split_beta split: option.splits)
  show "bm_boxs (snd (RetrieveBoxPassword env caller boxID pp s)) = bm_boxs s"
    by (simp add: RetrieveBoxPassword_def Let_def split: option.splits)
  show "bm_boxs (UnMount env caller boxID s) = bm_boxs s"
    by (simp add: UnMount_def Let_def split_beta split: option.splits)
  have "bm_boxs (fold (\<lambda>b s. if mounted env b s
      then act (EmitSignal ''BoxChanged'' (bx_boxID b) 0) (snd (box_umount env b True s)) else s) bs t) = bm_boxs t" for bs t
    by (induction bs arbitrary: t) simp_all
  then show "bm_boxs (unMountAllBoxs env service s) = bm_boxs s"
    by (simp add: unMountAllBoxs_def)
qed

interpretation bm_machine: step_invariant bm_step names_inv
proof
  show "names_inv s \<Longrightarrow> names_inv (bm_step s e)" for s e
    by (cases e) (auto simp: CreateBox_names DelBox_names other_boxs intro: names_inv_cong)
qed

section \<open>Creation\<close>

text \<open>What the statements of the table do when they succeed.\<close>

lemma db_simps:
  "be_db_ok env BoxSelect \<Longrightarrow> getBoxRows env s = bm_rows s"
  "be_db_ok env BoxMountStatus \<Longrightarrow> modifyMountStatus env boxID b s =
     (True, s\<lparr>bm_rows := update_rows boxID (\<lambda>r. r\<lparr>br_mounted := b\<rparr>) (bm_rows s)\<rparr>)"
  by (simp_all add: getBoxRows_def modifyMountStatus_def)

lemma dao_init_ok: "be_db_ok env BoxCount \<Longrightarrow> dao_init env s = s"
  by (cases s) (simp add: dao_init_def getBoxCount_def)

lemma dao_addBox_rows:
  "bm_rows (dao_addBox env r s) = bm_rows s
     @ (if be_db_ok env BoxInsert then [r] else if has_quote (br_boxName r) then be_injected env else [])"
  by (simp add: dao_addBox_def)

lemma getRandStr_length [simp]: "length (getRandStr env k n) = n"
  by (simp add: getRandStr_def)

lemma uid_loop_fresh:
  "be_db_ok env BoxSelect \<Longrightarrow> uid_loop env k n s = [] \<or>
     length (uid_loop env k n s) = 6 \<and> (\<forall>r \<in> set (bm_rows s). br_boxID r \<noteq> uid_loop env k n s)"
proof (induction n arbitrary: k)
  case 0
  then show ?case by simp
next
  case (Suc n)
  let ?u = "getRandStr env k 6"
  have "\<forall>r \<in> set (bm_rows s). br_boxID r \<noteq> ?u" if "br_boxID (getBox env ?u s) = []"
  proof (cases "List.find (\<lambda>r. br_boxID r = ?u) (bm_rows s)")
    case None
    then show ?thesis by (simp add: find_None_iff)
  next
    case (Some r)
    then have "br_boxID r = ?u" by (auto simp: find_Some_iff)
    with that Some Suc.prems have "?u = []" by (simp add: getBox_def db_simps)
    then show ?thesis using getRandStr_length [of env k 6] by simp
  qed
  then show ?case using Suc by (simp add: Let_def)
qed

text \<open>The row of a new box, and what a creation does to the table when the two queries before it succeed.\<close>

definition new_row :: "box_env \<Rightarrow> string \<Rightarrow> string \<Rightarrow> int \<Rightarrow> string \<Rightarrow> string \<Rightarrow> box_record" where
  "new_row env name pw uid i sig =
     \<lparr>br_boxName = name, br_boxID = i, br_mounted = False, br_encryptpassword = aesEncrypt (be_crypto env) pw,
      br_encryptPassphrase = aesEncrypt (be_crypto env) (getRandStr env 0 8),
      br_encryptSig = aesEncrypt (be_crypto env) sig, br_userUID = uid\<rparr>"

lemma box_create_new:
  assumes "be_db_ok env BoxCount" "be_db_ok env BoxSelect" and "box_create env name pw uid [] s = (r, s')"
    and "\<forall>x \<in> set (bm_rows s). br_boxID x \<noteq> []"
  shows "(\<exists>code. r = Inl code
          \<and> (be_db_ok env BoxDelete \<and> (be_db_ok env BoxInsert \<or> \<not> has_quote name) \<longrightarrow> bm_rows s' = bm_rows s))
     \<or> (\<exists>i sig. r = Inr \<lparr>bx_name = name, bx_boxID = i, bx_password = pw, bx_userUID = uid\<rparr>
          \<and> (i = [] \<or> length i = 6 \<and> (\<forall>x \<in> set (bm_rows s). br_boxID x \<noteq> i))
          \<and> (be_db_ok env BoxInsert \<longrightarrow> bm_rows s' = bm_rows s @ [new_row env name pw uid i sig])
          \<and> (\<not> be_db_ok env BoxInsert \<and> \<not> has_quote name \<longrightarrow> bm_rows s' = bm_rows s))"
proof -
  let ?b = "\<lparr>bx_name = name, bx_boxID = [], bx_password = pw, bx_userUID = uid\<rparr>"
  have "List.find (\<lambda>r. br_boxID r = []) (bm_rows s) = None" using assms(4) by (simp add: find_None_iff)
  then have none: "br_boxName (getBox env [] s) = []"
    using assms(2) by (simp add: getBox_def null_record_def db_simps)
  obtain sig t where P: "addPassphrase env (getRandStr env 0 8) s = (sig, t)" by force
  have t: "bm_rows t = bm_rows s" using box_frame_commands(2) [of env "getRandStr env 0 8" s] P by simp
  show ?thesis
  proof (cases "sig = []")
    case True
    then show ?thesis
      using assms(1-3) none P t by (auto simp: box_create_def box_init_def addToDao_def dao_init_ok Let_def)
  next
    case False
    let ?i = "getRandBoxUid env t"
    let ?r = "new_row env name pw uid ?i (trimmed sig)"
    have i: "?i = [] \<or> length ?i = 6 \<and> (\<forall>x \<in> set (bm_rows s). br_boxID x \<noteq> ?i)"
      using uid_loop_fresh [OF assms(2), of 1 5 t] t by (simp add: getRandBoxUid_def)
    then have fresh: "filter (\<lambda>x. br_boxID x \<noteq> ?i) (bm_rows s) = bm_rows s"
      using assms(4) by (intro filter_True) auto
    let ?t = "dao_addBox env ?r t"
    have rows: "bm_rows ?t = bm_rows s
        @ (if be_db_ok env BoxInsert then [?r] else if has_quote name then be_injected env else [])"
      by (simp add: dao_addBox_rows t new_row_def)
    have add: "addToDao env ?b s = (True, ?b\<lparr>bx_boxID := ?i\<rparr>, ?t)"
      using none P False by (simp add: addToDao_def new_row_def Let_def)
    obtain made u where K: "mkdirBoxDir env (dataPath env name ?i) (be_user env uid) ?t = (made, u)" by force
    have u: "bm_rows u = bm_rows ?t"
      using box_frame_commands(12) [of env "dataPath env name ?i" "be_user env uid" ?t] K by simp
    have init: "box_create env name pw uid [] s = box_init env ?b s"
      by (simp add: box_create_def dao_init_ok [OF assms(1)])
    show ?thesis
    proof (cases made)
      case True
      then have "r = Inr (?b\<lparr>bx_boxID := ?i\<rparr>)" "s' = u"
        using assms(3) add K by (simp_all add: init box_init_def mkdirSourceDir_def)
      then show ?thesis using u rows i by (intro disjI2 exI [of _ ?i] exI [of _ "trimmed sig"]) simp
    next
      case False
      then have "r = Inl ERROR_BM_MKDIR_DATA_DIR_FAILED" "s' = snd (dao_delBox env ?i (rmBoxDir env (dataPath env name ?i) u))"
        using assms(3) add K by (simp_all add: init box_init_def mkdirSourceDir_def)
      moreover from this have "bm_rows s' = (if be_db_ok env BoxDelete then filter (\<lambda>x. br_boxID x \<noteq> ?i) (bm_rows u) else bm_rows u)"
        by (simp add: dao_delBox_def)
      ultimately show ?thesis using u rows fresh by (intro disjI1) (auto simp: new_row_def)
    qed
  qed
qed

text \<open>A created box has its data directory, whatever the database answers.\<close>

lemma box_create_dir:
  assumes "box_create env name pw uid boxID s = (Inr b, s')"
  shows "dataPath env (bx_name b) (bx_boxID b) \<in> set (bm_dirs s')"
proof -
  let ?b = "\<lparr>bx_name = name, bx_boxID = boxID, bx_password = pw, bx_userUID = uid\<rparr>"
  obtain ok b' t where A: "addToDao env ?b (dao_init env s) = (ok, b', t)" by (metis prod_cases3)
  obtain made u where K: "mkdirBoxDir env (dataPath env (bx_name b') (bx_boxID b')) (be_user env (bx_userUID b')) t = (made, u)"
    by force
  have "made" "b = b'" "s' = u"
    using assms A K by (auto simp: box_create_def box_init_def mkdirSourceDir_def Let_def split: if_splits)
  then show ?thesis
    using box_frame_commands(13) [of env "dataPath env (bx_name b') (bx_boxID b')" "be_user env (bx_userUID b')" t] K by simp
qed

lemma CreateBox_refused:
  assumes "name = [] \<or> pw = [] \<or> name_taken env name s \<or> \<not> checkPassword (rsaDecrypt (be_crypto env) pw) name"
  shows "\<exists>m e. CreateBox env caller name pw s = (([], []), bm_error caller m e s)"
proof (cases "name = [] \<or> pw = []")
  case True
  then show ?thesis unfolding CreateBox_def Let_def if_P [OF True] by blast
next
  case False
  show ?thesis
  proof (cases "name_taken env name s")
    case True
    show ?thesis unfolding CreateBox_def Let_def if_not_P [OF False] if_P [OF True] by blast
  next
    case nt: False
    with False assms have c: "\<not> checkPassword (rsaDecrypt (be_crypto env) pw) name" by blast
    show ?thesis unfolding CreateBox_def Let_def if_not_P [OF False] if_not_P [OF nt] if_P [OF c] by blast
  qed
qed

lemma CreateBox_failed:
  assumes "\<not> (name = [] \<or> pw = [])" "\<not> name_taken env name s" "checkPassword (rsaDecrypt (be_crypto env) pw) name"
    and "box_create env name (rsaDecrypt (be_crypto env) pw) (be_sender env) [] s = (Inl code, t)"
  shows "\<exists>m. CreateBox env caller name pw s = (([], []), bm_error caller m code t)"
proof -
  have "\<not> \<not> checkPassword (rsaDecrypt (be_crypto env) pw) name" using assms(3) by simp
  then show ?thesis
    unfolding CreateBox_def Let_def if_not_P [OF assms(1)] if_not_P [OF assms(2)] assms(4) by auto
qed

lemma getBox_appended:
  "be_db_ok env BoxSelect \<Longrightarrow> \<forall>x \<in> set rows. br_boxID x \<noteq> br_boxID r \<Longrightarrow> bm_rows s = rows @ [r] \<Longrightarrow>
     getBox env (br_boxID r) s = r"
proof -
  assume "\<forall>x \<in> set rows. br_boxID x \<noteq> br_boxID r"
  then have "List.find (\<lambda>x. br_boxID x = br_boxID r) (rows @ [r]) = Some r" by (induction rows) auto
  then show "be_db_ok env BoxSelect \<Longrightarrow> bm_rows s = rows @ [r] \<Longrightarrow> getBox env (br_boxID r) s = r"
    by (simp add: getBox_def db_simps)
qed

text \<open>The two outcomes of a call: an error reply, or a box.\<close>

lemma CreateBox_cases:
  assumes "CreateBox env caller name pw s = (res, s')"
  obtains (refused) m e where "res = ([], [])" "s' = bm_error caller m e s"
  | (failed) m code t where "box_create env name (rsaDecrypt (be_crypto env) pw) (be_sender env) [] s = (Inl code, t)"
      "res = ([], [])" "s' = bm_error caller m code t"
  | (created) b t where "box_create env name (rsaDecrypt (be_crypto env) pw) (be_sender env) [] s = (Inr b, t)"
      "\<not> name_taken env name s" "checkPassword (rsaDecrypt (be_crypto env) pw) name"
      "res = (bx_boxID b, getPassphrase env b t)"
      "s' = bm_success caller (''Create box. name is '' @ name) (t\<lparr>bm_boxs := qm_insert (bx_boxID b) b (bm_boxs t)\<rparr>)"
proof (cases "name = [] \<or> pw = [] \<or> name_taken env name s \<or> \<not> checkPassword (rsaDecrypt (be_crypto env) pw) name")
  case True
  then show ?thesis using CreateBox_refused [OF True, of caller] assms refused by auto
next
  case False
  then have go: "\<not> (name = [] \<or> pw = [])" "\<not> name_taken env name s" "checkPassword (rsaDecrypt (be_crypto env) pw) name"
    by simp_all
  obtain r t where C: "box_create env name (rsaDecrypt (be_crypto env) pw) (be_sender env) [] s = (r, t)" by force
  show ?thesis
  proof (cases r)
    case (Inl code)
    with C have I: "box_create env name (rsaDecrypt (be_crypto env) pw) (be_sender env) [] s = (Inl code, t)" by simp
    obtain m where "CreateBox env caller name pw s = (([], []), bm_error caller m code t)"
      using CreateBox_failed [OF go I] by blast
    then show ?thesis using assms by (intro failed [OF I]) auto
  next
    case (Inr b)
    have "res = (bx_boxID b, getPassphrase env b t)"
        "s' = bm_success caller (''Create box. name is '' @ name) (t\<lparr>bm_boxs := qm_insert (bx_boxID b) b (bm_boxs t)\<rparr>)"
      using assms go C Inr by (auto simp: CreateBox_def Let_def getPassphrase_def)
    with C Inr go(2,3) show ?thesis by (intro created) auto
  qed
qed


text \<open>When the count fails, the constructor of the table's object drops the table: all rows are lost.\<close>

lemma failed_count_drops_table:
  "\<not> be_db_ok env BoxCount \<Longrightarrow> be_db_ok env BoxDrop \<Longrightarrow> bm_rows (dao_init env s) = []"
  by (simp add: dao_init_def getBoxCount_def)

definition sample_box_env :: box_env where
  "sample_box_env = \<lparr>be_crypto = \<lparr>rsaDecrypt = (\<lambda>s. s), aesEncrypt = (\<lambda>s. s), aesDecrypt = (\<lambda>s. s)\<rparr>,
     be_db_ok = (\<lambda>_. True), be_injected = [], be_command = (\<lambda>_. (''00ff'', [])), be_mkpath = (\<lambda>_. True), be_removable = (\<lambda>_. True),
     be_user = (\<lambda>_. ''alice''), be_md5 = ''0123456789abcdef'', be_random = (\<lambda>k i. k + i),
     be_mount_dir = ''/box'', be_data_dir = ''/data'', be_sender = 1000\<rparr>"

definition sample_bm :: bm where
  "sample_bm = \<lparr>d_clients = [], d_log = small_log, d_now = 0, d_effects = [],
     bm_rows = [], bm_boxs = [], bm_watched = [], bm_dirs = []\<rparr>"

lemma sample_create: "fst (CreateBox sample_box_env '':1.7'' ''docs'' ''Secret123'' sample_bm) = (''123456'', ''01234567'')"
  by code_simp


section \<open>Names, passwords and mounts\<close>

text \<open>C17: Over any run of calls and client exits, whatever the database and the commands do, no user has two
  boxes of one name.\<close>

theorem box_names_unique:
  assumes "names_inv s" and "qm_value k (bm_boxs (run bm_step s es)) = Some b"
    and "qm_value k' (bm_boxs (run bm_step s es)) = Some b'"
    and "bx_userUID b = bx_userUID b'" and "bx_name b = bx_name b'"
  shows "k = k' \<and> b = b'"
proof -
  have "unique_names (bm_boxs (run bm_step s es))"
    using bm_machine.run_inv [OF assms(1)] by (simp only: names_inv_def)
  then have "k = k'" using assms(2-5) unfolding unique_names_def by blast
  with assms(2,3) show ?thesis by simp
qed

definition sample_run :: bm where
  "sample_run = run bm_step sample_bm
     [EvCreateBox sample_box_env '':1.7'' ''docs'' ''Secret123'',
      EvCreateBox (sample_box_env\<lparr>be_random := (\<lambda>k i. k)\<rparr>) '':1.8'' ''docs'' ''Secret456'',
      EvCreateBox (sample_box_env\<lparr>be_random := (\<lambda>k i. k), be_sender := 1001\<rparr>) '':1.9'' ''docs'' ''Secret456'']"

lemma sample_run_boxs:
  "map (\<lambda>(k, b). (k, bx_name b, bx_userUID b)) (bm_boxs sample_run) =
     [(''111111'', ''docs'', 1001), (''123456'', ''docs'', 1000)]"
  by code_simp

theorem box_names_unique_witness:
  "\<exists>b. qm_value ''123456'' (bm_boxs sample_run) = Some b \<and> bx_name b = ''docs'' \<and> bx_userUID b = 1000
     \<and> (\<nexists>k' b'. qm_value k' (bm_boxs sample_run) = Some b' \<and> bx_name b' = ''docs'' \<and> bx_userUID b' = 1000 \<and> k' \<noteq> ''123456'')"
proof -
  have "names_inv sample_bm" by (simp add: names_inv_def unique_names_def sample_bm_def)
  note unique = box_names_unique [OF this, where es =
     "[EvCreateBox sample_box_env '':1.7'' ''docs'' ''Secret123'',
      EvCreateBox (sample_box_env\<lparr>be_random := (\<lambda>k i. k)\<rparr>) '':1.8'' ''docs'' ''Secret456'',
      EvCreateBox (sample_box_env\<lparr>be_random := (\<lambda>k i. k), be_sender := 1001\<rparr>) '':1.9'' ''docs'' ''Secret456'']",
     folded sample_run_def]
  have "map_option (\<lambda>b. (bx_name b, bx_userUID b)) (qm_value ''123456'' (bm_boxs sample_run)) = Some (''docs'', 1000)"
    by code_simp
  then obtain b where "qm_value ''123456'' (bm_boxs sample_run) = Some b" "bx_name b = ''docs''" "bx_userUID b = 1000" by auto
  with unique show ?thesis by metis
qed

text \<open>A wrong password opens nothing: mounting, deleting and changing the password of a box are refused
  with one error reply; no command is run, and the table, the boxes and the directories stay as
  they were.\<close>

theorem wrong_password_refused:
  assumes "qm_value boxID (bm_boxs s) = Some b" and "bx_boxID b = boxID"
    and "rsaDecrypt (be_crypto env) pw \<noteq> aesDecrypt (be_crypto env) (br_encryptpassword (getBoxInfo env b s))"
    and "s' \<in> {Mount env caller boxID pw s, DelBox env caller boxID pw s, ModifyBoxPassword env caller boxID pw new s}"
  shows "bm_rows s' = bm_rows s \<and> bm_boxs s' = bm_boxs s \<and> bm_dirs s' = bm_dirs s
     \<and> (\<exists>code. d_effects s' = d_effects s @ [ReplyError caller code])"
proof -
  have "\<exists>m code. s' = bm_error caller m code s"
    using assms(4)
  proof (elim insertE)
    assume s': "s' = Mount env caller boxID pw s"
    have "box_mount env b (rsaDecrypt (be_crypto env) pw) s = (ERROR_BM_INPUT_PASSWORD_ERROR, s)"
      using assms(3) by (simp add: box_mount_def Let_def)
    then have "s' = bm_error caller (''Failed to mount box. box name is '' @ bx_name b) ERROR_BM_INPUT_PASSWORD_ERROR s"
      unfolding s' Mount_def assms(1,2) option.case by simp
    then show ?thesis by blast
  next
    assume s': "s' = DelBox env caller boxID pw s"
    have "box_delBox env b (rsaDecrypt (be_crypto env) pw) s = (ERROR_BM_INPUT_PASSWORD_ERROR, s)"
      using assms(3) by (simp add: box_delBox_def Let_def)
    then have "s' = bm_error caller (''Failed to delete box. box name is '' @ bx_name b) ERROR_BM_INPUT_PASSWORD_ERROR s"
      unfolding s' DelBox_def assms(1,2) option.case by simp
    then show ?thesis by blast
  next
    assume s': "s' = ModifyBoxPassword env caller boxID pw new s"
    have "modifyPassword env b (rsaDecrypt (be_crypto env) pw) (rsaDecrypt (be_crypto env) new) s = (False, s)"
      using assms(3) by (simp add: modifyPassword_def)
    then show ?thesis unfolding s' ModifyBoxPassword_def Let_def assms(1) option.case by (auto split: if_splits)
  qed simp
  then show ?thesis by auto
qed

definition sample_docs :: bm where
  "sample_docs = snd (CreateBox sample_box_env '':1.7'' ''docs'' ''Secret123'' sample_bm)"

lemma sample_docs_box:
  "qm_value ''123456'' (bm_boxs sample_docs) =
     Some \<lparr>bx_name = ''docs'', bx_boxID = ''123456'', bx_password = ''Secret123'', bx_userUID = 1000\<rparr>"
  by code_simp

theorem wrong_password_refused_witness:
  "bm_rows (DelBox sample_box_env '':1.7'' ''123456'' ''guess'' sample_docs) = bm_rows sample_docs"
proof -
  have "rsaDecrypt (be_crypto sample_box_env) ''guess'' \<noteq> aesDecrypt (be_crypto sample_box_env) (br_encryptpassword
      (getBoxInfo sample_box_env \<lparr>bx_name = ''docs'', bx_boxID = ''123456'', bx_password = ''Secret123'', bx_userUID = 1000\<rparr>
        sample_docs))"
    by code_simp
  moreover have "DelBox sample_box_env '':1.7'' ''123456'' ''guess'' sample_docs \<in>
      {Mount sample_box_env '':1.7'' ''123456'' ''guess'' sample_docs, DelBox sample_box_env '':1.7'' ''123456'' ''guess'' sample_docs,
       ModifyBoxPassword sample_box_env '':1.7'' ''123456'' ''guess'' [] sample_docs}"
    by blast
  ultimately show ?thesis
    using wrong_password_refused [OF sample_docs_box box.select_convs(2)] by blast
qed

lemma getBox_update:
  assumes "be_db_ok env BoxSelect" and "\<And>r. br_boxID (f r) = br_boxID r" and "bm_rows s' = update_rows i f (bm_rows s)"
    and "\<exists>r \<in> set (bm_rows s). br_boxID r = j"
  shows "getBox env j s' = (if j = i then f (getBox env j s) else getBox env j s)"
proof -
  have find: "List.find (\<lambda>r. br_boxID r = j) (update_rows i f rows) =
      map_option (\<lambda>r. if br_boxID r = i then f r else r) (List.find (\<lambda>r. br_boxID r = j) rows)" for rows
    by (induction rows) (auto simp: update_rows_def assms(2))
  obtain r where r: "List.find (\<lambda>r. br_boxID r = j) (bm_rows s) = Some r" "br_boxID r = j"
    using assms(4) by (metis (mono_tags, lifting) find_None_iff2 find_Some_iff option.exhaust)
  have "getBox env j s = r" "getBox env j s' = (if br_boxID r = i then f r else r)"
    using assms(1) r(1) by (simp_all add: getBox_def db_simps assms(3) find)
  then show ?thesis using r(2) by metis
qed

lemma update_rows_twice:
  "(\<And>r. br_boxID (g r) = br_boxID r) \<Longrightarrow> update_rows i f (update_rows i g rows) = update_rows i (\<lambda>r. f (g r)) rows"
  by (induction rows) (simp_all add: update_rows_def)

lemma IsMounted_cong:
  "bm_boxs s' = bm_boxs s \<Longrightarrow> qm_value boxID (bm_boxs s) = Some b \<Longrightarrow> bx_boxID b = boxID \<Longrightarrow>
     IsMounted env boxID s' = Inr (br_mounted (getBox env boxID s'))"
  by (simp add: IsMounted_def mounted_def getBoxInfo_def)

lemma box_mount_rows:
  assumes "be_db_ok env BoxMountStatus" and "r = getBox env (bx_boxID b) s"
    and "\<not> br_mounted r" and "be_mkpath env (mountPath env (br_boxName r))"
    and "pw = aesDecrypt (be_crypto env) (br_encryptpassword r)"
  shows "bm_rows (snd (box_mount env b pw s)) =
     (if snd (be_command env (mount_command (dataPath env (br_boxName r) (br_boxID r)) (mountPath env (br_boxName r))
            (aesDecrypt (be_crypto env) (br_encryptPassphrase r)) (aesDecrypt (be_crypto env) (br_encryptSig r)))) = []
      then update_rows (bx_boxID b) (\<lambda>r. r\<lparr>br_mounted := True\<rparr>) (bm_rows s) else bm_rows s)"
proof -
  have "fst (mkdirBoxDir env (mountPath env (br_boxName r)) u s)" for u
    using assms(4) by (simp add: mkdirBoxDir_def)
  then show ?thesis
    using assms(1,3) by (simp add: box_mount_def getBoxInfo_def Let_def split_beta db_simps assms(2,5))
qed

lemma box_umount_rows:
  assumes "be_db_ok env BoxMountStatus"
  shows "bm_rows (snd (box_umount env b force s)) = update_rows (bx_boxID b)
     (\<lambda>r. r\<lparr>br_mounted := snd (be_command env (umount_command (mountPath env (br_boxName (getBox env (bx_boxID b) s))) force)) \<noteq> []\<rparr>)
     (bm_rows s)"
  using assms by (simp add: box_umount_def getBoxInfo_def Let_def split_beta db_simps update_rows_twice)

text \<open>The status of a box follows the commands: after a mount with the right password it is shown as
  mounted exactly when the mount command wrote no error, and after an unmount, which asks for no
  password, exactly when the unmount command did write one.\<close>

theorem mount_status_follows_commands:
  assumes "be_db_ok env BoxSelect" and "qm_value boxID (bm_boxs s) = Some b" and "bx_boxID b = boxID"
    and "\<exists>r \<in> set (bm_rows s). br_boxID r = boxID" and "r = getBox env boxID s"
    and "be_db_ok env BoxMountStatus"
  shows "(\<not> br_mounted r \<and> be_mkpath env (mountPath env (br_boxName r))
          \<and> rsaDecrypt (be_crypto env) pw = aesDecrypt (be_crypto env) (br_encryptpassword r) \<longrightarrow>
        IsMounted env boxID (Mount env caller boxID pw s) =
          Inr (snd (be_command env (mount_command (dataPath env (br_boxName r) (br_boxID r)) (mountPath env (br_boxName r))
            (aesDecrypt (be_crypto env) (br_encryptPassphrase r)) (aesDecrypt (be_crypto env) (br_encryptSig r)))) = []))
     \<and> IsMounted env boxID (UnMount env caller boxID s) =
          Inr (snd (be_command env (umount_command (mountPath env (br_boxName r)) False)) \<noteq> [])"
proof (intro conjI impI)
  have shown: "IsMounted env boxID (Mount env caller boxID pw s) =
      Inr (br_mounted (getBox env boxID (Mount env caller boxID pw s)))"
    by (rule IsMounted_cong [OF other_boxs(2) assms(2,3)])
  note get = getBox_update [OF assms(1) _ _ assms(4)]
  assume m: "\<not> br_mounted r \<and> be_mkpath env (mountPath env (br_boxName r))
      \<and> rsaDecrypt (be_crypto env) pw = aesDecrypt (be_crypto env) (br_encryptpassword r)"
  let ?ok = "snd (be_command env (mount_command (dataPath env (br_boxName r) (br_boxID r)) (mountPath env (br_boxName r))
            (aesDecrypt (be_crypto env) (br_encryptPassphrase r)) (aesDecrypt (be_crypto env) (br_encryptSig r)))) = []"
  have "bm_rows (Mount env caller boxID pw s) = bm_rows (snd (box_mount env b (rsaDecrypt (be_crypto env) pw) s))"
    by (simp add: Mount_def assms(2,3) split_beta Let_def)
  then have rows: "bm_rows (Mount env caller boxID pw s) =
      (if ?ok then update_rows boxID (\<lambda>r. r\<lparr>br_mounted := True\<rparr>) (bm_rows s) else bm_rows s)"
    using box_mount_rows [OF assms(6), of r b s] m assms(3,5) by simp
  show "IsMounted env boxID (Mount env caller boxID pw s) = Inr ?ok"
  proof (cases ?ok)
    case True
    with rows get [of "\<lambda>r. r\<lparr>br_mounted := True\<rparr>" "Mount env caller boxID pw s" boxID] shown show ?thesis by simp
  next
    case False
    with rows m assms(5) getBox_cong [of "Mount env caller boxID pw s" s env boxID] shown show ?thesis by simp
  qed
next
  let ?fail = "snd (be_command env (umount_command (mountPath env (br_boxName r)) False)) \<noteq> []"
  have "bm_rows (UnMount env caller boxID s) = bm_rows (snd (box_umount env b False s))"
    by (simp add: UnMount_def assms(2,3) split_beta Let_def)
  also have "\<dots> = update_rows boxID (\<lambda>r. r\<lparr>br_mounted := ?fail\<rparr>) (bm_rows s)"
    using box_umount_rows [OF assms(6), of b False s] by (simp only: assms(3,5))
  finally show "IsMounted env boxID (UnMount env caller boxID s) = Inr ?fail"
    using getBox_update [OF assms(1) _ _ assms(4), of "\<lambda>r. r\<lparr>br_mounted := ?fail\<rparr>" "UnMount env caller boxID s" boxID]
      IsMounted_cong [OF other_boxs(4) assms(2,3), of env env caller] by simp
qed

theorem mount_status_follows_commands_witness:
  "IsMounted sample_box_env ''123456'' (Mount sample_box_env '':1.7'' ''123456'' ''Secret123'' sample_docs) = Inr True"
proof -
  have fine: "be_db_ok sample_box_env st" for st by (simp add: sample_box_env_def)
  have "list_ex (\<lambda>r. br_boxID r = ''123456'') (bm_rows sample_docs)" by code_simp
  then have row: "\<exists>r \<in> set (bm_rows sample_docs). br_boxID r = ''123456''" by (simp only: list_ex_iff)
  have env: "be_mkpath sample_box_env p" "snd (be_command sample_box_env c) = []" for p c
    by (simp_all add: sample_box_env_def)
  have "\<not> br_mounted (getBox sample_box_env ''123456'' sample_docs)"
       "rsaDecrypt (be_crypto sample_box_env) ''Secret123'' = aesDecrypt (be_crypto sample_box_env)
          (br_encryptpassword (getBox sample_box_env ''123456'' sample_docs))"
    by code_simp+
  from mount_status_follows_commands [OF fine sample_docs_box box.select_convs(2) row refl fine, THEN conjunct1,
      THEN mp, OF conjI [OF this(1) conjI [OF env(1) this(2)]]]
  show ?thesis by (simp only: env(2) simp_thms)
qed

end
