(* ===== verification/ToolBox.thy ===== *)
theory ToolBox
  imports PolkitGate
begin

text \<open>
  The tool box, \<open>src/daemon/tool-box/manager.cpp\<close>: the switch of the access control, the labels of files and
  users, shredding, removal of users, and the two lists of objects the clients keep. Its state is the
  part of the file system it looks at, the tables of the database, the accounts of the system and the
  threads it has started.

  \<open>tb_env\<close> is what the outside answers: exit code and output of a program, the files \<open>shred\<close> removes,
  what a recursive removal removes, the rows and the new tables a statement gives, the accounts. \<open>None\<close>
  is an index out of range. Texts are put together as if no argument held a place marker.
\<close>

section \<open>State\<close>

text \<open>A path that is no regular file is treated as a directory, with the names \<open>entryList\<close> gives; a link is
  what it points to.\<close>

datatype node = FileNode | DirNode "string list"

type_synonym fs = "(string \<times> node) list"

type_synonym tables = "(string \<times> string list) list"

record os_group =
  gr_gid :: int
  gr_name :: string
  gr_passwd :: string
  gr_mem :: "string list"

record os_passwd =
  pw_name :: string
  pw_passwd :: string
  pw_uid :: int
  pw_gid :: int
  pw_gecos :: string
  pw_dir :: string
  pw_shell :: string

record tb = daemon +
  tb_fs :: fs
  tb_tables :: tables
  tb_osGroupInfo :: "os_group list"
  tb_osUserInfo :: "(string, os_passwd) qmap"
  tb_threads :: "(string \<times> string list) list"

record tb_env =
  te_exec :: "string \<Rightarrow> string list \<Rightarrow> int \<times> string"
  te_shred :: "string list \<Rightarrow> fs \<Rightarrow> int \<times> string list"
  te_remove :: "string \<Rightarrow> fs \<Rightarrow> string list"
  te_db :: "string \<Rightarrow> tables \<Rightarrow> bool \<times> string list \<times> tables"
  te_groups :: "os_group list"
  te_users :: "os_passwd list"
  te_selinux :: bool

datatype SeLabelType = MLS | KIC

section \<open>Files\<close>

definition node_of :: "fs \<Rightarrow> string \<Rightarrow> node option" where
  "node_of fs p = map_of fs p"

definition path_exists :: "fs \<Rightarrow> string \<Rightarrow> bool" where
  "path_exists fs p \<longleftrightarrow> node_of fs p \<noteq> None"

text \<open>A removed path is gone from the directory it was in, too.\<close>

definition child :: "string \<Rightarrow> string \<Rightarrow> string" where
  "child p e = p @ ''/'' @ e"

fun strip :: "string list \<Rightarrow> string \<Rightarrow> node \<Rightarrow> node" where
  "strip gone p FileNode = FileNode"
| "strip gone p (DirNode es) = DirNode (filter (\<lambda>e. child p e \<notin> set gone) es)"

definition unlink :: "string list \<Rightarrow> fs \<Rightarrow> fs" where
  "unlink gone fs = map (\<lambda>(p, n). (p, strip gone p n)) (filter (\<lambda>(p, n). p \<notin> set gone) fs)"

definition isPathsExist :: "string list \<Rightarrow> tb \<Rightarrow> string list" where
  "isPathsExist paths s = filter (path_exists (tb_fs s)) paths"

section \<open>Programs\<close>

definition run_program :: "tb_env \<Rightarrow> string \<Rightarrow> string list \<Rightarrow> tb \<Rightarrow> bool \<times> string \<times> tb" where
  "run_program env program arguments s =
     (fst (te_exec env program arguments) = 0, snd (te_exec env program arguments), act (Exec program arguments) s)"

definition setFileSeLabels :: "tb_env \<Rightarrow> string \<Rightarrow> string \<Rightarrow> SeLabelType \<Rightarrow> tb \<Rightarrow> bool \<times> string \<times> tb" where
  "setFileSeLabels env filePath seLabel seLabelType s =
     run_program env ''/usr/bin/rbapol''
       [''-s'', ''-k'', (case seLabelType of MLS \<Rightarrow> ''mls/'' | KIC \<Rightarrow> ''kic/'') @ seLabel, ''-f'', filePath] s"

definition getFileSeLabels :: "tb_env \<Rightarrow> string \<Rightarrow> SeLabelType \<Rightarrow> tb \<Rightarrow> bool \<times> string \<times> tb" where
  "getFileSeLabels env filePath seLabelType s =
     run_program env ''/usr/bin/rbapol''
       [''-g'', ''-k'', (case seLabelType of MLS \<Rightarrow> ''mls'' | KIC \<Rightarrow> ''kic''), ''-f'', filePath] s"

definition setUserSeLabels :: "tb_env \<Rightarrow> string \<Rightarrow> string \<Rightarrow> tb \<Rightarrow> bool \<times> string \<times> tb" where
  "setUserSeLabels env userName seLabel s = run_program env ''/usr/bin/rbauser'' [''-s'', ''-M'', seLabel, userName] s"

text \<open>The user is bound to a role first; whether that works does not matter.\<close>

definition getUserSeLabels :: "tb_env \<Rightarrow> string \<Rightarrow> tb \<Rightarrow> bool \<times> string \<times> tb" where
  "getUserSeLabels env userName s =
     (let (_, _, s) = run_program env ''/usr/bin/rbauser'' [''-n'', ''-M'', ''s0'', ''-N'', ''user_u'', userName] s
      in run_program env ''/usr/bin/rbauser'' [''-q'', userName] s)"

section \<open>Replies and audit lines\<close>

definition tb_refuse :: "string \<Rightarrow> SSRErrorCode \<Rightarrow> tb \<Rightarrow> tb" where
  "tb_refuse caller code s = act (ReplyError caller code) s"

definition tb_refuse_logged :: "string \<Rightarrow> string \<Rightarrow> SSRErrorCode \<Rightarrow> tb \<Rightarrow> tb" where
  "tb_refuse_logged caller msg code s = tb_refuse caller code (SSR_LOG_ERROR log_TOOL_BOX msg caller s)"

definition tb_denied :: "string \<Rightarrow> string \<Rightarrow> tb \<Rightarrow> tb" where
  "tb_denied caller what s = tb_refuse_logged caller (what @ '', permission denied'') ERROR_ACCOUNT_PERMISSION_DENIED s"

definition is_secadm :: "string \<Rightarrow> tb \<Rightarrow> bool" where
  "is_secadm caller s \<longleftrightarrow> getRole caller s = role_secadm"

section \<open>Access control and labels\<close>

definition setAccessControlStatus :: "tb_env \<Rightarrow> string \<Rightarrow> bool \<Rightarrow> tb \<Rightarrow> tb" where
  "setAccessControlStatus env caller enable s =
     (if \<not> is_secadm caller s then tb_denied caller ''Failed to set access control status'' s
      else let (ok, _, s) = run_program env ''/usr/bin/sed''
                 [''-i'', ''-re'', if enable then ''{s#SELINUX=(enforcing|permissive|disabled)#SELINUX=enforcing#}''
                                   else ''{s/SELINUX=(enforcing|permissive|disabled)/SELINUX=disabled/}'', ''/etc/selinux/config''] s
           in if \<not> ok then tb_refuse_logged caller ''Failed to set access control status'' ERROR_TOOL_BOX_FAILED_SET_ACCESS_CONTROL s
              else SSR_LOG_SUCCESS log_TOOL_BOX (''set access control status to '' @ (if enable then ''enable'' else ''disable''))
                     caller (act (Reply caller) s))"

text \<open>The part after the first colon and blank; there must be one.\<close>

definition label_value :: "string \<Rightarrow> string option" where
  "label_value output = (let parts = split output '': '' in if length parts \<le> 1 then None else Some (trimmed (parts ! 1)))"

definition get_failed :: "string \<Rightarrow> string \<Rightarrow> string \<Rightarrow> string \<Rightarrow> tb \<Rightarrow> string \<times> tb" where
  "get_failed caller object kind output s =
     ([], SSR_LOG_ERROR log_TOOL_BOX (''Failed to get '' @ object @ '' '' @ kind @ '' label, error msg '' @ output) caller s)"

definition GetFileMLSLabel :: "tb_env \<Rightarrow> string \<Rightarrow> string \<Rightarrow> tb \<Rightarrow> (string \<times> tb) option" where
  "GetFileMLSLabel env caller filePath s =
     (if filePath = [] then Some ([], tb_refuse caller ERROR_COMMON_INVALID_ARGS s)
      else if \<not> is_secadm caller s then Some ([], tb_refuse caller ERROR_ACCOUNT_PERMISSION_DENIED s)
      else let (ok, output, s) = getFileSeLabels env filePath MLS s
           in if \<not> ok then Some (get_failed caller (''files '' @ filePath) ''mls'' output s)
              else map_option (\<lambda>v. (v, s)) (label_value output))"

text \<open>\<open>rbapol\<close> shortens the mark \<open>system\<close>.\<close>

definition GetFileKICLabel :: "tb_env \<Rightarrow> string \<Rightarrow> string \<Rightarrow> tb \<Rightarrow> (string \<times> tb) option" where
  "GetFileKICLabel env caller filePath s =
     (if filePath = [] then Some ([], tb_refuse caller ERROR_COMMON_INVALID_ARGS s)
      else if \<not> is_secadm caller s then Some ([], tb_refuse caller ERROR_ACCOUNT_PERMISSION_DENIED s)
      else let (ok, output, s) = getFileSeLabels env filePath KIC s
           in if \<not> ok then Some (get_failed caller (''files '' @ filePath) ''kic'' output s)
              else map_option (\<lambda>v. (if v = ''sys'' then ''system'' else v, s)) (label_value output))"

text \<open>The two setters of a file differ in the label and the texts.\<close>

definition set_file_label :: "SeLabelType \<Rightarrow> tb_env \<Rightarrow> string \<Rightarrow> string \<Rightarrow> string \<Rightarrow> tb \<Rightarrow> tb" where
  "set_file_label seLabelType env caller filePath SecurityContext s =
     (let kind = (case seLabelType of MLS \<Rightarrow> ''mls'' | KIC \<Rightarrow> ''kic'');
          code = (case seLabelType of MLS \<Rightarrow> ERROR_TOOL_BOX_FAILED_SET_MLS_CONTEXT | KIC \<Rightarrow> ERROR_TOOL_BOX_FAILED_SET_KIC_CONTEXT)
      in if filePath = [] \<or> SecurityContext = [] then tb_refuse caller ERROR_COMMON_INVALID_ARGS s
         else if \<not> is_secadm caller s then tb_denied caller (''Failed to set '' @ kind @ '' label'') s
         else let (ok, output, s) = setFileSeLabels env filePath SecurityContext seLabelType s;
                  shown = (case seLabelType of MLS \<Rightarrow> output | KIC \<Rightarrow> ''Failed to SetKic'')
              in if \<not> ok then tb_refuse_logged caller (''Failed to set '' @ filePath @ '' '' @ kind @ '' label, error msg: '' @ shown) code s
                 else act (EmitSignal ''FileSignListChanged'' [] 0)
                        (SSR_LOG_SUCCESS log_TOOL_BOX (''Set '' @ filePath @ '' '' @ kind @ '' label to: '' @ SecurityContext) caller
                          (act (Reply caller) s)))"

definition setFileMLSLabel :: "tb_env \<Rightarrow> string \<Rightarrow> string \<Rightarrow> string \<Rightarrow> tb \<Rightarrow> tb" where
  "setFileMLSLabel = set_file_label MLS"

definition setFileKICLabel :: "tb_env \<Rightarrow> string \<Rightarrow> string \<Rightarrow> string \<Rightarrow> tb \<Rightarrow> tb" where
  "setFileKICLabel = set_file_label KIC"

text \<open>The first match of \<open>(s[\d+].*)\<close>: an s before a digit or a plus sign, to the end of the line.\<close>

fun user_label :: "string \<Rightarrow> string" where
  "user_label (c # d # t) =
     (if c = CHR ''s'' \<and> (is_digit d \<or> d = CHR ''+'') then c # d # takeWhile (\<lambda>x. x \<noteq> newline) t else user_label (d # t))"
| "user_label _ = []"

definition GetUserMLSLabel :: "tb_env \<Rightarrow> string \<Rightarrow> string \<Rightarrow> tb \<Rightarrow> string \<times> tb" where
  "GetUserMLSLabel env caller userName s =
     (if userName = [] then ([], tb_refuse caller ERROR_COMMON_INVALID_ARGS s)
      else if \<not> is_secadm caller s then ([], tb_refuse caller ERROR_ACCOUNT_PERMISSION_DENIED s)
      else let (ok, output, s) = getUserSeLabels env userName s
           in if \<not> ok then get_failed caller (''user '' @ userName) ''mls'' output s
              else (trimmed (user_label output), s))"

definition setUserMLSLabel :: "tb_env \<Rightarrow> string \<Rightarrow> string \<Rightarrow> string \<Rightarrow> tb \<Rightarrow> tb" where
  "setUserMLSLabel env caller userName SecurityContext s =
     (if userName = [] \<or> SecurityContext = [] then tb_refuse caller ERROR_COMMON_INVALID_ARGS s
      else if \<not> is_secadm caller s then tb_denied caller ''Failed to set user mls label'' s
      else let (ok, output, s) = setUserSeLabels env userName SecurityContext s
           in if \<not> ok then tb_refuse_logged caller (''Failed to set '' @ userName @ '' mls label, error msg: '' @ output)
                             ERROR_TOOL_BOX_FAILED_SET_MLS_CONTEXT s
              else act (EmitSignal ''FileSignListChanged'' [] 0)
                     (SSR_LOG_SUCCESS log_TOOL_BOX (''Set '' @ userName @ '' user mls label to: '' @ SecurityContext) caller
                       (act (Reply caller) s)))"

definition GetAccessStatus :: "tb_env \<Rightarrow> bool" where
  "GetAccessStatus env = te_selinux env"

section \<open>The tables\<close>

definition db_exec :: "tb_env \<Rightarrow> string \<Rightarrow> tb \<Rightarrow> bool \<times> string list \<times> tb" where
  "db_exec env cmd s =
     (let (ok, rows, tables) = te_db env cmd (tb_tables s) in (ok, rows, s\<lparr>tb_tables := tables\<rparr>))"

definition quote :: string where
  "quote = [CHR 0x27]"

definition select_table :: "string \<Rightarrow> string" where
  "select_table table = ''SELECT * FROM sqlite_master WHERE type='' @ quote @ ''table'' @ quote @ '' AND name ='' @ quote @ table @ quote @ '';''"

definition create_table :: "string \<Rightarrow> string" where
  "create_table table = ''CREATE table '' @ table @ '' ( filePath vchar UNIQUE'' @ (if table = ''fileSign'' then '');'' else '' );'')"

definition select_rows :: "string \<Rightarrow> string" where
  "select_rows table = ''select filePath from '' @ table"

definition insert_rows :: "string \<Rightarrow> string list \<Rightarrow> string" where
  "insert_rows table names =
     ''insert OR IGNORE into '' @ table @ '' values ('' @ quote @ join (quote @ ''), ('' @ quote) names @ quote @ '');''"

definition delete_rows :: "string \<Rightarrow> string list \<Rightarrow> string" where
  "delete_rows table names =
     ''delete from '' @ table @ '' where filePath in ('' @ quote @ join (quote @ '', '' @ quote) names @ quote @ '');''"

text \<open>The rows of a query are appended to those \<open>res\<close> still holds from the query before.\<close>

definition initDatabase :: "tb_env \<Rightarrow> tb \<Rightarrow> tb" where
  "initDatabase env s =
     (case db_exec env (select_table ''fileSign'') s of
        (False, _, s) \<Rightarrow> s
      | (True, res, s) \<Rightarrow>
          (let (res, s) = (if res = [] then (let (_, rows, s) = db_exec env (create_table ''fileSign'') s in (res @ rows, s)) else (res, s))
           in case db_exec env (select_table ''fileShred'') s of
                (False, _, s) \<Rightarrow> s
              | (True, rows, s) \<Rightarrow>
                  if res @ rows = [] then (case db_exec env (create_table ''fileShred'') s of (_, _, s) \<Rightarrow> s) else s))"

definition removeObjFromSecuritySign_db :: "tb_env \<Rightarrow> string list \<Rightarrow> tb \<Rightarrow> bool \<times> tb" where
  "removeObjFromSecuritySign_db env objList s =
     (let (ok, _, s) = db_exec env (delete_rows ''fileSign'' objList) s in (ok, s))"

definition known_user :: "tb_env \<Rightarrow> string \<Rightarrow> bool" where
  "known_user env name \<longleftrightarrow> name \<in> pw_name ` set (te_users env)"

text \<open>Objects that no longer exist leave the table, whoever asks.\<close>

definition GetObjListFromSecuritySign :: "tb_env \<Rightarrow> tb \<Rightarrow> string list \<times> tb" where
  "GetObjListFromSecuritySign env s =
     (let (_, ret, s) = db_exec env (select_rows ''fileSign'') s;
          valid = (\<lambda>obj. path_exists (tb_fs s) obj \<or> known_user env obj);
          invalidObjList = filter (\<lambda>obj. \<not> valid obj) ret
      in (filter valid ret, if invalidObjList = [] then s else snd (removeObjFromSecuritySign_db env invalidObjList s)))"

definition AddObjToSecuritySign :: "tb_env \<Rightarrow> string \<Rightarrow> string list \<Rightarrow> tb \<Rightarrow> tb" where
  "AddObjToSecuritySign env caller objList s =
     (if objList = [] then tb_refuse caller ERROR_COMMON_INVALID_ARGS s
      else if \<not> is_secadm caller s then tb_denied caller ''Failed to add files to SignFile list'' s
      else let objs = filter (\<lambda>obj. obj \<noteq> []) objList;
               unknown = (\<lambda>obj. \<not> startsWith obj ''/'' \<and> \<not> known_user env obj);
               invalidList = filter unknown objs;
               validList = filter (\<lambda>obj. \<not> unknown obj) objs
           in if invalidList \<noteq> []
              then tb_refuse_logged caller (''Failed to add user to object list, unknown user '' @ join '' '' invalidList)
                     ERROR_TOOL_BOX_FAILED_ADD_OBJ_TO_SECURITY_SIGN s
              else if validList = [] then s
              else let (ok, _, s) = db_exec env (insert_rows ''fileSign'' validList) s;
                       s = (if ok then s else SSR_LOG_ERROR log_TOOL_BOX ''Failed to add object to object list, database error'' caller s)
                   in SSR_LOG_SUCCESS log_TOOL_BOX (''Add obj to object list: '' @ join '' '' validList) caller
                        (act (EmitSignal ''FileSignListChanged'' [] 0) s))"

definition RemoveObjFromSecuritySign :: "tb_env \<Rightarrow> string \<Rightarrow> string list \<Rightarrow> tb \<Rightarrow> tb" where
  "RemoveObjFromSecuritySign env caller objList s =
     (if objList = [] then tb_refuse caller ERROR_COMMON_INVALID_ARGS s
      else if \<not> is_secadm caller s then tb_denied caller ''Failed to remove obj from obj list'' s
      else let (ok, s) = removeObjFromSecuritySign_db env objList s;
               s = (if ok then s else SSR_LOG_ERROR log_TOOL_BOX ''Failed to remove file from object list, database error'' caller s)
           in SSR_LOG_SUCCESS log_TOOL_BOX (''Remove file from object list: '' @ join '' '' objList) caller
                (act (EmitSignal ''FileSignListChanged'' [] 0) s))"

definition GetFileListFromFileShred :: "tb_env \<Rightarrow> tb \<Rightarrow> string list \<times> tb" where
  "GetFileListFromFileShred env s = (let (_, ret, s) = db_exec env (select_rows ''fileShred'') s in (ret, s))"

definition AddFileToFileShred :: "tb_env \<Rightarrow> string \<Rightarrow> string list \<Rightarrow> tb \<Rightarrow> tb" where
  "AddFileToFileShred env caller fileList s =
     (if fileList = [] then tb_refuse caller ERROR_COMMON_INVALID_ARGS s
      else if \<not> is_secadm caller s then tb_denied caller ''Failed to add files to ShredFile list'' s
      else let (ok, _, s) = db_exec env (insert_rows ''fileShred'' fileList) s;
               s = (if ok then s else SSR_LOG_ERROR log_TOOL_BOX ''Failed to add files to ShredFile list, database error'' caller s)
           in SSR_LOG_SUCCESS log_TOOL_BOX (''Add file to ShredFile list: '' @ join '' '' fileList) caller
                (act (EmitSignal ''FileShredListChanged'' [] 0) s))"

definition removeFileFromFileShred_db :: "tb_env \<Rightarrow> string list \<Rightarrow> tb \<Rightarrow> bool \<times> tb" where
  "removeFileFromFileShred_db env fileList s =
     (let (existed, s) = GetFileListFromFileShred env s;
          valid = filter (\<lambda>f. f \<in> set existed) fileList
      in if valid = [] then (True, s)
         else let (ok, _, s) = db_exec env (delete_rows ''fileShred'' fileList) s
              in if \<not> ok then (False, s) else (True, act (EmitSignal ''FileShredListChanged'' [] 0) s))"

definition RemoveFileFromFileShred :: "tb_env \<Rightarrow> string \<Rightarrow> string list \<Rightarrow> tb \<Rightarrow> tb" where
  "RemoveFileFromFileShred env caller fileList s =
     (if fileList = [] then tb_refuse caller ERROR_COMMON_INVALID_ARGS s
      else if \<not> is_secadm caller s then tb_denied caller ''Failed to remove file from ShredFile list'' s
      else let (ok, s) = removeFileFromFileShred_db env fileList s;
               s = (if ok then s else SSR_LOG_ERROR log_TOOL_BOX ''Failed to remove file from ShredFile list, database error'' caller s)
           in SSR_LOG_SUCCESS log_TOOL_BOX (''Remove file from ShredFile list: '' @ join '' '' fileList) caller s)"

section \<open>Shredding\<close>

definition shred :: "tb_env \<Rightarrow> string list \<Rightarrow> tb \<Rightarrow> bool \<times> tb" where
  "shred env targetPaths s =
     (let (code, gone) = te_shred env targetPaths (tb_fs s)
      in (code = 0, act (Exec ''/usr/bin/shred'' ([''-f'', ''-u'', ''-x''] @ targetPaths)) (s\<lparr>tb_fs := unlink gone (tb_fs s)\<rparr>)))"

text \<open>A call of \<open>shred\<close> and, when it fails, the files it left.\<close>

definition shred_noting :: "tb_env \<Rightarrow> string list \<Rightarrow> string list \<Rightarrow> tb \<Rightarrow> string list \<times> tb" where
  "shred_noting env paths failedToShred s =
     (let (ok, s) = shred env paths s in (if ok then failedToShred else failedToShred @ isPathsExist paths s, s))"

abbreviation (input) "FILE_LIST_LIMIT \<equiv> (100 :: nat)"

text \<open>
  The loop over the paths: a full batch is shredded and dropped, a file stays in the list, a directory is
  taken out of it and its entries are put at its end. \<open>Inl\<close> is the index out of range, with the state
  reached; \<open>Inr\<close> is the end, with the files not yet shredded, those that were not removed, and the
  directories.
\<close>

partial_function (option) shred_loop ::
    "tb_env \<Rightarrow> string list \<Rightarrow> nat \<Rightarrow> nat \<Rightarrow> string list \<Rightarrow> string list \<Rightarrow> tb
     \<Rightarrow> (tb + string list \<times> string list \<times> string list \<times> tb) option" where
  "shred_loop env needShred index count failedToShred dir s =
     (if \<not> index < count then Some (Inr (needShred, failedToShred, dir, s))
      else let (needShred, index, failedToShred, s) =
                 (if index \<ge> FILE_LIST_LIMIT
                  then let (failedToShred, s) = shred_noting env (take index needShred) failedToShred s
                       in (drop index needShred, 0, failedToShred, s)
                  else (needShred, index, failedToShred, s))
           in if index \<ge> length needShred then Some (Inl s)
              else let path = needShred ! index
                   in case node_of (tb_fs s) path of
                        None \<Rightarrow> shred_loop env needShred (Suc index) count failedToShred dir s
                      | Some FileNode \<Rightarrow> shred_loop env needShred (Suc index) count failedToShred dir s
                      | Some (DirNode entryList) \<Rightarrow>
                          (let needShred = needShred @ map (child path) entryList;
                               needShred = take index needShred @ drop (Suc index) needShred
                           in shred_loop env needShred index (length needShred) failedToShred (dir @ [path]) s))"

declare shred_loop.simps [code]

definition remove_dirs :: "tb_env \<Rightarrow> string list \<Rightarrow> string list \<Rightarrow> tb \<Rightarrow> tb" where
  "remove_dirs env targetPath dir s =
     fold (\<lambda>dirPath s. if dirPath \<notin> set targetPath then s else s\<lparr>tb_fs := unlink (te_remove env dirPath (tb_fs s)) (tb_fs s)\<rparr>) dir s"

text \<open>\<open>Some None\<close> is the index out of range, \<open>None\<close> a loop that does not end.\<close>

definition shredFile :: "tb_env \<Rightarrow> string \<Rightarrow> string list \<Rightarrow> tb \<Rightarrow> tb option option" where
  "shredFile env caller targetPath s =
     (if targetPath = [] then Some (Some (tb_refuse caller ERROR_COMMON_INVALID_ARGS s))
      else if \<not> is_secadm caller s then Some (Some (tb_denied caller ''Failed to shred file'' s))
      else case shred_loop env targetPath 0 (length targetPath) [] [] s of
             None \<Rightarrow> None
           | Some (Inl _) \<Rightarrow> Some None
           | Some (Inr (needShred, failedToShred, dir, s)) \<Rightarrow>
               (let (failedToShred, s) = shred_noting env needShred failedToShred s;
                    s = remove_dirs env targetPath dir s;
                    shreddedFile = filter (\<lambda>p. \<not> path_exists (tb_fs s) p) targetPath;
                    (_, s) = removeFileFromFileShred_db env shreddedFile s;
                    s = (if failedToShred = [] then s
                         else SSR_LOG_ERROR log_TOOL_BOX (''Failed to shred file: '' @ join '','' failedToShred) caller
                                (act (ReplyError caller ERROR_TOOL_BOX_FAILED_SHRED_FILES) s));
                    s = (if shreddedFile = [] then s
                         else act (Reply caller) (SSR_LOG_SUCCESS log_TOOL_BOX (''Shred files '' @ join '','' shreddedFile) caller s))
                in Some (Some s)))"

section \<open>Accounts of the system\<close>

definition updateAccountInfo :: "tb_env \<Rightarrow> tb \<Rightarrow> tb" where
  "updateAccountInfo env s =
     s\<lparr>tb_osGroupInfo := te_groups env, tb_osUserInfo := fold (\<lambda>u. qm_insert (pw_name u) u) (te_users env) []\<rparr>"

text \<open>The file \<open>/etc/passwd\<close> has changed.\<close>

definition fileChanged :: "tb_env \<Rightarrow> tb \<Rightarrow> tb" where
  "fileChanged env s = act (EmitSignal ''UserChanged'' [] 0) (updateAccountInfo env s)"

definition user_json :: "string \<Rightarrow> int \<Rightarrow> json" where
  "user_json name type = JObj [(''name'', JStr name), (''type'', JInt type)]"

definition GetAllUsers :: "tb_env \<Rightarrow> tb \<Rightarrow> json \<times> tb" where
  "GetAllUsers env s =
     (let s = updateAccountInfo env s;
          managerUserList = (case find (\<lambda>g. gr_name g = ''wheel'') (tb_osGroupInfo s) of None \<Rightarrow> [] | Some g \<Rightarrow> gr_mem g);
          others = filter (\<lambda>u. pw_name u \<notin> set managerUserList \<and> \<not> pw_uid u < 1000 \<and> pw_name u \<noteq> ''nobody'')
                     (qm_values (tb_osUserInfo s))
      in (JArr (map (\<lambda>m. user_json m 0) managerUserList @ map (\<lambda>u. user_json (pw_name u) 1) others), s))"

text \<open>The names of the users removed and of those that were not, and the files of the former.\<close>

fun remove_users :: "tb_env \<Rightarrow> string \<Rightarrow> (string, os_passwd) qmap \<Rightarrow> string list \<Rightarrow> tb \<Rightarrow> string list \<times> string list \<times> string list \<times> tb" where
  "remove_users env caller osUserInfo [] s = ([], [], [], s)"
| "remove_users env caller osUserInfo (userName # userNames) s =
     (let (ok, output, s) = run_program env ''/usr/sbin/userdel'' [userName] s;
          s = (if ok then s else SSR_LOG_ERROR log_TOOL_BOX (''Failed to remove user '' @ userName @ '', error msg: '' @ output) caller s);
          home = (case qm_value userName osUserInfo of None \<Rightarrow> [] | Some u \<Rightarrow> pw_dir u);
          (removed, failed, userSpace, s) = remove_users env caller osUserInfo userNames s
      in if ok then (userName # removed, failed, (''/var/spool/mail/'' @ userName) # home # userSpace, s)
         else (removed, userName # failed, userSpace, s))"

text \<open>The files are shredded by a thread of its own, which answers the same call again.\<close>

definition removeUser :: "tb_env \<Rightarrow> string \<Rightarrow> string list \<Rightarrow> tb \<Rightarrow> tb" where
  "removeUser env caller userNames s =
     (if userNames = [] then tb_refuse caller ERROR_COMMON_INVALID_ARGS s
      else if \<not> is_secadm caller s then tb_denied caller ''Failed to remove user'' s
      else let (removed, failedToRemove, userSpace, s) = remove_users env caller (tb_osUserInfo s) userNames s;
               s = (if failedToRemove = [] then s else tb_refuse caller ERROR_TOOL_BOX_FAILED_REMOVE_USERS s)
           in if removed = [] then s
              else (SSR_LOG_SUCCESS log_TOOL_BOX (''Remove users: '' @ join '','' removed) caller (act (Reply caller) s))
                     \<lparr>tb_threads := tb_threads s @ [(caller, userSpace)]\<rparr>)"

end
