(* ===== verification/ToolShred.thy ===== *)
theory ToolShred
  imports ToolBox "HOL-Library.Multiset_Order"
begin

text \<open>
  What shredding does, \<open>Manager::shredFile\<close>: which files reach the program \<open>shred\<close>, that the loop over the
  directories ends, that a batch that is full leads out of the list, and what becomes of a file the
  program could not overwrite.
\<close>

section \<open>The file system\<close>

lemma map_of_filter_key: "map_of (filter (\<lambda>(k, v). P k) m) x = (if P x then map_of m x else None)"
  by (induction m) (auto split: if_splits)

lemma map_of_map_value: "map_of (map (\<lambda>(k, v). (k, f k v)) m) x = map_option (f x) (map_of m x)"
  by (induction m) (auto split: if_splits)

lemma node_of_unlink [simp]:
  "node_of (unlink gone fs) p = (if p \<in> set gone then None else map_option (strip gone p) (node_of fs p))"
  by (simp add: node_of_def unlink_def map_of_map_value map_of_filter_key)

lemma path_exists_unlink [simp]: "path_exists (unlink gone fs) p \<longleftrightarrow> path_exists fs p \<and> p \<notin> set gone"
  by (simp add: path_exists_def)

definition is_dir :: "fs \<Rightarrow> string \<Rightarrow> bool" where
  "is_dir fs p \<longleftrightarrow> (\<exists>es. node_of fs p = Some (DirNode es))"

lemma strip_Dir: "strip gone p n = DirNode es \<longleftrightarrow> (\<exists>es'. n = DirNode es' \<and> es = filter (\<lambda>e. child p e \<notin> set gone) es')"
  by (cases n) auto

lemma is_dir_unlink: "is_dir (unlink gone fs) p \<longleftrightarrow> is_dir fs p \<and> p \<notin> set gone"
  by (cases "node_of fs p") (auto simp: is_dir_def strip_Dir)

text \<open>What lies below a path, through any number of directories.\<close>

inductive below :: "fs \<Rightarrow> string \<Rightarrow> string \<Rightarrow> bool" for fs where
  self: "below fs p p"
| enter: "node_of fs p = Some (DirNode es) \<Longrightarrow> e \<in> set es \<Longrightarrow> below fs (child p e) q \<Longrightarrow> below fs p q"

definition files_below :: "fs \<Rightarrow> string list \<Rightarrow> string set" where
  "files_below fs ps = {q. \<exists>p \<in> set ps. below fs p q \<and> \<not> is_dir fs q}"

definition dirs_below :: "fs \<Rightarrow> string list \<Rightarrow> string set" where
  "dirs_below fs ps = {q. \<exists>p \<in> set ps. below fs p q \<and> is_dir fs q}"

lemma below_leaf: "\<not> is_dir fs p \<Longrightarrow> below fs p q \<longleftrightarrow> q = p"
  by (auto simp: is_dir_def intro: below.self elim: below.cases)

lemma below_dir:
  "node_of fs p = Some (DirNode es) \<Longrightarrow> below fs p q \<longleftrightarrow> q = p \<or> (\<exists>e \<in> set es. below fs (child p e) q)"
  by (auto intro: below.intros elim: below.cases)

lemma below_lists:
  "files_below fs [] = {}" "dirs_below fs [] = {}"
  "files_below fs (ps @ qs) = files_below fs ps \<union> files_below fs qs"
  "dirs_below fs (ps @ qs) = dirs_below fs ps \<union> dirs_below fs qs"
  by (auto simp: files_below_def dirs_below_def)

lemma below_file: "\<not> is_dir fs p \<Longrightarrow> files_below fs (p # ps) = insert p (files_below fs ps)"
  "\<not> is_dir fs p \<Longrightarrow> dirs_below fs (p # ps) = dirs_below fs ps"
  by (auto simp: files_below_def dirs_below_def below_leaf)

lemma below_entries:
  assumes "node_of fs p = Some (DirNode es)"
  shows "files_below fs (p # ps) = files_below fs (map (child p) es) \<union> files_below fs ps"
    and "dirs_below fs (p # ps) = insert p (dirs_below fs (map (child p) es) \<union> dirs_below fs ps)"
proof -
  have "is_dir fs p" using assms by (simp add: is_dir_def)
  then show "files_below fs (p # ps) = files_below fs (map (child p) es) \<union> files_below fs ps"
    "dirs_below fs (p # ps) = insert p (dirs_below fs (map (child p) es) \<union> dirs_below fs ps)"
    by (auto simp: files_below_def dirs_below_def below_dir [OF assms])
qed

text \<open>Files that go away take nothing with them.\<close>

lemma below_unlink_sub: "below (unlink gone fs) p q \<Longrightarrow> below fs p q"
proof (induction rule: below.induct)
  case (self p)
  show ?case by (rule below.self)
next
  case (enter p es e q)
  from enter.hyps(1) obtain es' where "node_of fs p = Some (DirNode es')" "e \<in> set es'"
    using enter.hyps(2) by (auto simp: strip_Dir split: if_splits)
  then show ?case using enter.IH by (rule below.enter)
qed

lemma below_unlink:
  assumes "\<forall>g \<in> set gone. \<not> is_dir fs g"
  shows "below fs p q \<Longrightarrow> below (unlink gone fs) p q \<or> q \<in> set gone"
proof (induction rule: below.induct)
  case (self p)
  show ?case by (simp add: below.self)
next
  case (enter p es e q)
  have dir: "node_of (unlink gone fs) p = Some (DirNode (filter (\<lambda>e. child p e \<notin> set gone) es))"
    using enter.hyps(1) assms by (auto simp: is_dir_def)
  show ?case
  proof (cases "child p e \<in> set gone")
    case True
    then have "\<not> is_dir fs (child p e)" using assms by blast
    then have "q = child p e" using enter.hyps(3) by (simp add: below_leaf)
    with True show ?thesis by simp
  next
    case False
    then show ?thesis using enter.IH enter.hyps(2) below.enter [OF dir] by auto
  qed
qed

lemma files_below_unlink:
  assumes "\<forall>g \<in> set gone. \<not> is_dir fs g"
  shows "files_below fs ps - set gone \<subseteq> files_below (unlink gone fs) ps"
    and "files_below (unlink gone fs) ps \<subseteq> files_below fs ps"
    and "dirs_below (unlink gone fs) ps = dirs_below fs ps"
proof -
  have dir: "is_dir (unlink gone fs) q \<longleftrightarrow> is_dir fs q" for q using assms by (auto simp: is_dir_unlink)
  show "files_below fs ps - set gone \<subseteq> files_below (unlink gone fs) ps"
    using below_unlink [OF assms] by (fastforce simp: files_below_def dir)
  show "files_below (unlink gone fs) ps \<subseteq> files_below fs ps"
    using below_unlink_sub by (fastforce simp: files_below_def dir)
  have "below fs p q \<longleftrightarrow> below (unlink gone fs) p q" if "is_dir fs q" for p q
    using below_unlink [OF assms] below_unlink_sub assms that by blast
  then show "dirs_below (unlink gone fs) ps = dirs_below fs ps" by (auto simp: dirs_below_def dir)
qed

section \<open>The program\<close>

text \<open>\<open>shred\<close> removes files it was given, and all of them when it exits with 0.\<close>

definition shred_law :: "tb_env \<Rightarrow> bool" where
  "shred_law env \<longleftrightarrow> (\<forall>ps fs. set (snd (te_shred env ps fs)) \<subseteq> {p \<in> set ps. node_of fs p = Some FileNode}
     \<and> (fst (te_shred env ps fs) = 0 \<longrightarrow> {p \<in> set ps. node_of fs p = Some FileNode} \<subseteq> set (snd (te_shred env ps fs))))"

definition shred_exec :: "string list \<Rightarrow> effect" where
  "shred_exec ps = Exec ''/usr/bin/shred'' ([''-f'', ''-u'', ''-x''] @ ps)"

lemma shred_law_dirs: "shred_law env \<Longrightarrow> \<forall>g \<in> set (snd (te_shred env ps fs)). \<not> is_dir fs g"
  unfolding shred_law_def is_dir_def by fastforce

text \<open>A call of the program and what it leaves.\<close>

lemma shred_noting_eq:
  "shred_noting env ps failed s =
     (let gone = snd (te_shred env ps (tb_fs s)); t = act (shred_exec ps) (s\<lparr>tb_fs := unlink gone (tb_fs s)\<rparr>)
      in (if fst (te_shred env ps (tb_fs s)) = 0 then failed else failed @ filter (path_exists (unlink gone (tb_fs s))) ps, t))"
  by (simp add: shred_noting_def shred_def isPathsExist_def shred_exec_def act_def split_beta Let_def)


section \<open>The loop\<close>

lemma loop_end: "\<not> i < bound \<Longrightarrow> shred_loop env need i bound failed dir s = Some (Inr (need, failed, dir, s))"
  by (subst shred_loop.simps) simp

lemma loop_batch:
  assumes "i < bound" and "\<not> i < 100" and "shred_noting env (take i need) failed s = (failed', s')"
  shows "shred_loop env need i bound failed dir s = shred_loop env (drop i need) 0 bound failed' dir s'"
  using assms by (subst (1 2) shred_loop.simps) (simp add: Let_def)

lemma loop_out:
  "i < bound \<Longrightarrow> i < 100 \<Longrightarrow> \<not> i < length need \<Longrightarrow> shred_loop env need i bound failed dir s = Some (Inl s)"
  by (subst shred_loop.simps) simp

lemma loop_file:
  assumes "i < bound" "i < 100" "i < length need" "\<not> is_dir (tb_fs s) (need ! i)"
  shows "shred_loop env need i bound failed dir s = shred_loop env need (Suc i) bound failed dir s"
proof (cases "node_of (tb_fs s) (need ! i)")
  case None
  then show ?thesis using assms(1-3) by (subst shred_loop.simps) simp
next
  case (Some n)
  then have "n = FileNode" using assms(4) by (cases n) (auto simp: is_dir_def)
  then show ?thesis using assms(1-3) Some by (subst shred_loop.simps) simp
qed

lemma loop_dir:
  assumes "i < bound" "i < 100" "i < length need" "node_of (tb_fs s) (need ! i) = Some (DirNode es)"
  shows "shred_loop env need i bound failed dir s =
     (let need' = take i need @ drop (Suc i) need @ map (child (need ! i)) es
      in shred_loop env need' i (length need') failed (dir @ [need ! i]) s)"
  using assms by (subst shred_loop.simps) (simp add: Let_def)

text \<open>What the loop has done when it ends: the batches it gave to \<open>shred\<close>, the files that are gone, the
  files it noted and the directories it took out.\<close>

definition loop_post ::
    "tb_env \<Rightarrow> string list \<Rightarrow> nat \<Rightarrow> nat \<Rightarrow> string list \<Rightarrow> string list \<Rightarrow> tb \<Rightarrow> tb + string list \<times> string list \<times> string list \<times> tb \<Rightarrow> bool" where
  "loop_post env need i bound failed dir s r \<longleftrightarrow>
     (case r of
        Inl t \<Rightarrow> \<exists>bs. d_effects t = d_effects s @ map shred_exec bs \<and> (\<forall>b \<in> set bs. length b = 100) \<and> (length need < bound \<or> bs \<noteq> [])
      | Inr (need', failed', dir', t) \<Rightarrow>
          \<exists>bs gone fl ds. t = s\<lparr>tb_fs := unlink gone (tb_fs s), d_effects := d_effects s @ map shred_exec bs\<rparr>
            \<and> (\<forall>b \<in> set bs. length b = 100) \<and> failed' = failed @ fl \<and> dir' = dir @ ds
            \<and> set (concat bs) \<union> set need' = set (take i need) \<union> files_below (tb_fs s) (drop i need)
            \<and> set ds = dirs_below (tb_fs s) (drop i need) \<and> set gone \<subseteq> set (concat bs)
            \<and> (\<forall>g \<in> set gone. node_of (tb_fs s) g = Some FileNode)
            \<and> (\<forall>p \<in> set (concat bs). node_of (tb_fs s) p = Some FileNode \<longrightarrow> p \<in> set gone \<or> p \<in> set fl)
            \<and> set fl \<subseteq> set (concat bs)
            \<and> ((\<forall>ps fs. fst (te_shred env ps fs) = 0) \<longrightarrow> fl = [])
            \<and> ((\<forall>ps fs. snd (te_shred env ps fs) = []) \<longrightarrow> gone = []))"

lemma unlink_unlink: "unlink g (unlink g' fs) = unlink (g' @ g) fs"
proof -
  have "strip g p (strip g' p n) = strip (g' @ g) p n" for p n by (cases n) auto
  then show ?thesis by (induction fs) (auto simp: unlink_def)
qed

lemma unlink_Nil [simp]: "unlink [] fs = fs"
proof -
  have "strip [] p n = n" for p n by (cases n) auto
  then show ?thesis by (induction fs) (auto simp: unlink_def)
qed

lemma loop_post_end:
  "\<not> i < bound \<Longrightarrow> length need \<le> bound \<Longrightarrow> loop_post env need i bound failed dir s (Inr (need, failed, dir, s))"
  unfolding loop_post_def sum.case prod.case
  by (rule exI [of _ "[]"], rule exI [of _ "[]"], rule exI [of _ "[]"], rule exI [of _ "[]"]) (simp add: below_lists)

lemma loop_post_batch:
  assumes "shred_law env" and "i = 100" and "i \<le> length need"
    and "shred_noting env (take i need) failed s = (failed', s')"
    and "loop_post env (drop i need) 0 bound failed' dir s' r"
  shows "loop_post env need i bound failed dir s r"
proof -
  define g where "g = snd (te_shred env (take i need) (tb_fs s))"
  define fl0 where "fl0 = (if fst (te_shred env (take i need) (tb_fs s)) = 0 then []
       else filter (path_exists (unlink g (tb_fs s))) (take i need))"
  have noting: "failed' = failed @ fl0" "s' = act (shred_exec (take i need)) (s\<lparr>tb_fs := unlink g (tb_fs s)\<rparr>)"
    using assms(4) by (auto simp: shred_noting_eq Let_def g_def fl0_def)
  have g: "set g \<subseteq> set (take i need)" "\<forall>x \<in> set g. node_of (tb_fs s) x = Some FileNode"
    "fst (te_shred env (take i need) (tb_fs s)) = 0 \<Longrightarrow> {p \<in> set (take i need). node_of (tb_fs s) p = Some FileNode} \<subseteq> set g"
    using assms(1) unfolding shred_law_def g_def by blast+
  have dirs: "\<forall>x \<in> set g. \<not> is_dir (tb_fs s) x" using shred_law_dirs [OF assms(1)] by (simp add: g_def)
  have len: "length (take i need) = 100" using assms(2,3) by simp
  have noted: "p \<in> set g \<or> p \<in> set fl0" if "p \<in> set (take i need)" "node_of (tb_fs s) p = Some FileNode" for p
    using that g(3) by (auto simp: fl0_def path_exists_def)
  have s': "tb_fs s' = unlink g (tb_fs s)" "d_effects s' = d_effects s @ [shred_exec (take i need)]"
    by (simp_all add: noting(2) act_def)
  note below = files_below_unlink [OF dirs, of "drop i need"]
  show ?thesis
  proof (cases r)
    case (Inl t)
    with assms(5) obtain bs where "d_effects t = d_effects s' @ map shred_exec bs" "\<forall>b \<in> set bs. length b = 100"
      by (auto simp: loop_post_def)
    then show ?thesis unfolding loop_post_def Inl using len s'(2)
      by (simp only: sum.case) (rule exI [of _ "take i need # bs"], simp)
  next
    case (Inr x)
    obtain need' failed2 dir' t where x: "x = (need', failed2, dir', t)" by (cases x)
    from assms(5) obtain bs gone fl ds where
      t: "t = s'\<lparr>tb_fs := unlink gone (tb_fs s'), d_effects := d_effects s' @ map shred_exec bs\<rparr>"
      and bs: "\<forall>b \<in> set bs. length b = 100" "failed2 = failed' @ fl" "dir' = dir @ ds"
        "set (concat bs) \<union> set need' = files_below (tb_fs s') (drop i need)"
        "set ds = dirs_below (tb_fs s') (drop i need)" "set gone \<subseteq> set (concat bs)"
        "\<forall>g \<in> set gone. node_of (tb_fs s') g = Some FileNode"
        "\<forall>p \<in> set (concat bs). node_of (tb_fs s') p = Some FileNode \<longrightarrow> p \<in> set gone \<or> p \<in> set fl"
        "set fl \<subseteq> set (concat bs)" "(\<forall>ps fs. fst (te_shred env ps fs) = 0) \<longrightarrow> fl = []"
        "(\<forall>ps fs. snd (te_shred env ps fs) = []) \<longrightarrow> gone = []"
      unfolding loop_post_def Inr x sum.case prod.case take_0 drop_0 list.set(1) Un_empty_left by blast
    have keep: "node_of (tb_fs s) p = Some FileNode" if "node_of (tb_fs s') p = Some FileNode" for p
    proof -
      obtain n where "node_of (tb_fs s) p = Some n" "strip g p n = FileNode" using \<open>node_of (tb_fs s') p = Some FileNode\<close> by (auto simp: s'(1) split: if_splits)
      then show ?thesis by (cases n) auto
    qed
    have keep': "node_of (tb_fs s') p = Some FileNode" if "node_of (tb_fs s) p = Some FileNode" "p \<notin> set g" for p
      using that by (simp add: s'(1))
    show ?thesis unfolding loop_post_def Inr x sum.case prod.case
    proof (rule exI [of _ "take i need # bs"], rule exI [of _ "g @ gone"], rule exI [of _ "fl0 @ fl"], rule exI [of _ ds], intro conjI)
      show "t = s\<lparr>tb_fs := unlink (g @ gone) (tb_fs s), d_effects := d_effects s @ map shred_exec (take i need # bs)\<rparr>"
        by (simp add: t s' unlink_unlink noting(2) act_def)
      show "set (concat (take i need # bs)) \<union> set need' = set (take i need) \<union> files_below (tb_fs s) (drop i need)"
        using bs(4) below(1,2) g(1) unfolding s'(1) concat.simps set_append by blast
      show "set ds = dirs_below (tb_fs s) (drop i need)" using bs(5) below(3) by (simp add: s'(1))
      show "\<forall>p \<in> set (concat (take i need # bs)). node_of (tb_fs s) p = Some FileNode \<longrightarrow> p \<in> set (g @ gone) \<or> p \<in> set (fl0 @ fl)"
      proof (intro ballI impI)
        fix p assume p: "p \<in> set (concat (take i need # bs))" "node_of (tb_fs s) p = Some FileNode"
        then show "p \<in> set (g @ gone) \<or> p \<in> set (fl0 @ fl)" using noted [of p] keep' [of p] bs(8) by auto
      qed
      show "(\<forall>ps fs. fst (te_shred env ps fs) = 0) \<longrightarrow> fl0 @ fl = []" using bs(10) by (simp add: fl0_def)
      show "(\<forall>ps fs. snd (te_shred env ps fs) = []) \<longrightarrow> g @ gone = []" using bs(11) by (simp add: g_def)
    qed (use len bs g noting keep in \<open>auto simp: fl0_def\<close>)
  qed
qed

lemma loop_post_file:
  assumes "i < length need" and "\<not> is_dir (tb_fs s) (need ! i)" and "loop_post env need (Suc i) bound failed dir s r"
  shows "loop_post env need i bound failed dir s r"
proof -
  have "drop i need = (need ! i) # drop (Suc i) need" using assms(1) by (simp add: Cons_nth_drop_Suc)
  then have eq: "set (take i need) \<union> files_below (tb_fs s) (drop i need) =
      set (take (Suc i) need) \<union> files_below (tb_fs s) (drop (Suc i) need)"
    "dirs_below (tb_fs s) (drop i need) = dirs_below (tb_fs s) (drop (Suc i) need)"
    using assms(1,2) by (simp_all add: below_file take_Suc_conv_app_nth)
  show ?thesis using assms(3) unfolding loop_post_def eq .
qed

lemma loop_post_dir:
  assumes "i < length need" and "node_of (tb_fs s) (need ! i) = Some (DirNode es)" and "length need \<le> bound"
    and "need' = take i need @ drop (Suc i) need @ map (child (need ! i)) es"
    and "loop_post env need' i (length need') failed (dir @ [need ! i]) s r"
  shows "loop_post env need i bound failed dir s r"
proof -
  have split: "drop i need = (need ! i) # drop (Suc i) need" using assms(1) by (simp add: Cons_nth_drop_Suc)
  have tk: "take i need' = take i need" "drop i need' = drop (Suc i) need @ map (child (need ! i)) es"
    using assms(1) by (simp_all add: assms(4))
  have files: "files_below (tb_fs s) (drop i need) = files_below (tb_fs s) (drop i need')"
    and dirs: "dirs_below (tb_fs s) (drop i need) = insert (need ! i) (dirs_below (tb_fs s) (drop i need'))"
    unfolding split tk below_entries [OF assms(2)] below_lists by auto
  show ?thesis
  proof (cases r)
    case (Inl t)
    with assms(5) show ?thesis by (auto simp: loop_post_def)
  next
    case (Inr x)
    obtain n' f' d' t where x: "x = (n', f', d', t)" by (cases x)
    from assms(5) obtain bs gone fl ds where H: "d' = (dir @ [need ! i]) @ ds"
      "set ds = dirs_below (tb_fs s) (drop i need')"
      "t = s\<lparr>tb_fs := unlink gone (tb_fs s), d_effects := d_effects s @ map shred_exec bs\<rparr>"
      "\<forall>b \<in> set bs. length b = 100" "f' = failed @ fl"
      "set (concat bs) \<union> set n' = set (take i need') \<union> files_below (tb_fs s) (drop i need')"
      "set gone \<subseteq> set (concat bs)" "\<forall>g \<in> set gone. node_of (tb_fs s) g = Some FileNode"
      "\<forall>p \<in> set (concat bs). node_of (tb_fs s) p = Some FileNode \<longrightarrow> p \<in> set gone \<or> p \<in> set fl"
      "set fl \<subseteq> set (concat bs)" "(\<forall>ps fs. fst (te_shred env ps fs) = 0) \<longrightarrow> fl = []"
        "(\<forall>ps fs. snd (te_shred env ps fs) = []) \<longrightarrow> gone = []"
      unfolding loop_post_def Inr x sum.case prod.case by blast
    show ?thesis unfolding loop_post_def Inr x sum.case prod.case
    proof (rule exI [of _ bs], rule exI [of _ gone], rule exI [of _ fl], rule exI [of _ "need ! i # ds"], intro conjI)
      show "d' = dir @ need ! i # ds" using H(1) by simp
      show "set (need ! i # ds) = dirs_below (tb_fs s) (drop i need)" using H(2) dirs by simp
      show "set (concat bs) \<union> set n' = set (take i need) \<union> files_below (tb_fs s) (drop i need)"
        using H(6) by (simp only: files tk(1))
    qed (fact H)+
  qed
qed

text \<open>The loop ends, since a directory gives way to paths that are longer than it, and no directory has a
  path longer than the longest.\<close>

lemma entries_decrease:
  assumes "length p \<le> N"
  shows "mset (map (\<lambda>p. Suc N - length p) (ps @ map (child p) es)) < mset (map (\<lambda>p. Suc N - length p) (p # ps))"
proof -
  have "mset (map (\<lambda>p. Suc N - length p) (map (child p) es)) < {#Suc N - length p#}"
    by (rule ex_gt_imp_less_multiset) (use assms in \<open>auto simp: child_def\<close>)
  then have "mset (map (\<lambda>p. Suc N - length p) ps) + mset (map (\<lambda>p. Suc N - length p) (map (child p) es))
      < mset (map (\<lambda>p. Suc N - length p) ps) + {#Suc N - length p#}"
    by (rule add_strict_left_mono)
  then show ?thesis by simp
qed

lemma shred_loop_spec:
  assumes law: "shred_law env"
  shows "i \<le> 100 \<Longrightarrow> i \<le> length need \<Longrightarrow> length need \<le> bound \<Longrightarrow> \<forall>p. is_dir (tb_fs s) p \<longrightarrow> length p \<le> N
    \<Longrightarrow> \<exists>r. shred_loop env need i bound failed dir s = Some r \<and> loop_post env need i bound failed dir s r"
proof (induction "(mset (map (\<lambda>p. Suc N - length p) (drop i need)), i)" arbitrary: need i bound failed dir s
    rule: wf_induct_rule [OF wf_lex_prod [OF wf_less_multiset wf_less_than]])
  case (1 need i bound failed dir s)
  note IH = "1.hyps" and pre = "1.prems"
  consider (finish) "\<not> i < bound" | (batch) "i < bound" "i = 100" | (out) "i < bound" "i < 100" "\<not> i < length need"
    | (plain) "i < bound" "i < 100" "i < length need" "\<not> is_dir (tb_fs s) (need ! i)"
    | (folder) es where "i < bound" "i < 100" "i < length need" "node_of (tb_fs s) (need ! i) = Some (DirNode es)"
    using pre(1) le_neq_implies_less unfolding is_dir_def by blast
  then show ?case
  proof cases
    case finish
    then show ?thesis using loop_end loop_post_end pre(3) by blast
  next
    case batch
    obtain failed' s' where noting: "shred_noting env (take i need) failed s = (failed', s')" by (cases "shred_noting env (take i need) failed s")
    then have "\<forall>p. is_dir (tb_fs s') p \<longrightarrow> length p \<le> N" using pre(4) by (auto simp: shred_noting_eq Let_def act_def is_dir_unlink)
    then have "\<exists>r. shred_loop env (drop i need) 0 bound failed' dir s' = Some r \<and> loop_post env (drop i need) 0 bound failed' dir s' r"
      by (intro IH) (use batch pre(3) in auto)
    then show ?thesis using loop_batch [OF batch(1) _ noting] loop_post_batch [OF law batch(2) pre(2) noting] batch by auto
  next
    case out
    then have "loop_post env need i bound failed dir s (Inl s)"
      unfolding loop_post_def sum.case by (intro exI [of _ "[]"]) simp
    then show ?thesis using loop_out [OF out] by blast
  next
    case plain
    then have "drop i need = (need ! i) # drop (Suc i) need" by (simp add: Cons_nth_drop_Suc)
    then have "\<exists>r. shred_loop env need (Suc i) bound failed dir s = Some r \<and> loop_post env need (Suc i) bound failed dir s r"
      by (intro IH) (use plain pre in auto)
    then show ?thesis using loop_file [OF plain] loop_post_file [OF plain(3,4)] by auto
  next
    case folder
    let ?need = "take i need @ drop (Suc i) need @ map (child (need ! i)) es"
    have "drop i need = (need ! i) # drop (Suc i) need" using folder(3) by (simp add: Cons_nth_drop_Suc)
    moreover have "length (need ! i) \<le> N" using folder(4) pre(4) by (auto simp: is_dir_def)
    ultimately have "\<exists>r. shred_loop env ?need i (length ?need) failed (dir @ [need ! i]) s = Some r
        \<and> loop_post env ?need i (length ?need) failed (dir @ [need ! i]) s r"
      by (intro IH) (use folder pre entries_decrease [of "need ! i" N "drop (Suc i) need" es] in auto)
    then show ?thesis using loop_dir [OF folder] loop_post_dir [OF folder(3,4) pre(3) refl] by (auto simp: Let_def)
  qed
qed

section \<open>The reference\<close>

text \<open>The files below a list of paths by descending into each directory when it comes up.\<close>

definition longest :: "fs \<Rightarrow> nat" where
  "longest fs = fold (\<lambda>(p, n). max (length p)) fs 0"

lemma longest_ge: "p \<in> fst ` set fs \<Longrightarrow> length p \<le> longest fs"
proof -
  have "m \<le> fold (\<lambda>(p, n). max (length p)) xs m \<and> (\<forall>p \<in> fst ` set xs. length p \<le> fold (\<lambda>(p, n). max (length p)) xs m)"
    for m and xs :: fs
    by (induction xs arbitrary: m) (auto, (meson le_trans max.cobounded1 max.cobounded2)+)
  then show "p \<in> fst ` set fs \<Longrightarrow> length p \<le> longest fs" unfolding longest_def by blast
qed

lemma longest_dir: "node_of fs p = Some n \<Longrightarrow> length p \<le> longest fs"
  by (rule longest_ge) (force simp: node_of_def dest: map_of_SomeD)

definition ranks :: "nat \<Rightarrow> string list \<Rightarrow> nat multiset" where
  "ranks n ps = mset (map (\<lambda>p. Suc n - length p) ps)"

lemma ranks_less:
  "ranks n ps < ranks n (p # ps)"
  "length p \<le> n \<Longrightarrow> ranks n (map (child p) es) < ranks n (p # ps)"
proof -
  show "ranks n ps < ranks n (p # ps)" by (simp add: ranks_def)
  show "length p \<le> n \<Longrightarrow> ranks n (map (child p) es) < ranks n (p # ps)"
    unfolding ranks_def by (rule ex_gt_imp_less_multiset) (auto simp: child_def)
qed

function tree_files :: "fs \<Rightarrow> string list \<Rightarrow> string list" where
  "tree_files fs [] = []"
| "tree_files fs (p # ps) =
     (case node_of fs p of
        Some (DirNode es) \<Rightarrow> tree_files fs (map (child p) es)
      | _ \<Rightarrow> [p]) @ tree_files fs ps"
  by pat_completeness auto
termination
  by (relation "inv_image {(x, y). x < y} (\<lambda>(fs, ps). ranks (longest fs) ps)")
    (auto simp: wf_less_multiset ranks_less dest: longest_dir)

lemma tree_files_append: "tree_files fs (ps @ qs) = tree_files fs ps @ tree_files fs qs"
  by (induction ps) auto

lemma tree_files_file: "\<not> is_dir fs p \<Longrightarrow> tree_files fs (p # ps) = p # tree_files fs ps"
  by (auto simp: is_dir_def split: option.split node.split)

lemma set_tree_files: "set (tree_files fs ps) = files_below fs ps"
proof (induction fs ps rule: tree_files.induct)
  case (1 fs)
  show ?case by (simp add: below_lists)
next
  case (2 fs p ps)
  show ?case
  proof (cases "is_dir fs p")
    case True
    then obtain es where es: "node_of fs p = Some (DirNode es)" by (auto simp: is_dir_def)
    with 2 show ?thesis by (simp add: below_entries(1) [OF es])
  next
    case False
    with 2 show ?thesis by (simp add: tree_files_file below_file del: tree_files.simps)
  qed
qed

text \<open>With fewer than a hundred files no batch is ever full, and the loop collects what the reference does.\<close>

lemma loop_few:
  assumes "i \<le> length need" and "length need = bound" and "i + length (tree_files (tb_fs s) (drop i need)) < 100"
  shows "\<exists>need' ds. shred_loop env need i bound failed dir s = Some (Inr (need', failed, dir @ ds, s))
     \<and> mset need' = mset (take i need) + mset (tree_files (tb_fs s) (drop i need))
     \<and> set ds = dirs_below (tb_fs s) (drop i need)"
  using assms
proof (induction "ranks (longest (tb_fs s)) (drop i need)" arbitrary: need i bound dir rule: wf_induct_rule [OF wf_less_multiset])
  case (1 need i bound dir)
  show ?case
  proof (cases "i < bound")
    case False
    then show ?thesis using "1.prems" by (simp add: loop_end below_lists)
  next
    case True
    then have d: "drop i need = (need ! i) # drop (Suc i) need" using "1.prems"(2) by (simp add: Cons_nth_drop_Suc)
    have i: "i < 100" using "1.prems"(3) by simp
    show ?thesis
    proof (cases "is_dir (tb_fs s) (need ! i)")
      case False
      have "ranks (longest (tb_fs s)) (drop (Suc i) need) < ranks (longest (tb_fs s)) (drop i need)" by (simp add: d ranks_less)
      from "1.hyps" [of "Suc i" need bound dir] this obtain need' ds where
        "shred_loop env need (Suc i) bound failed dir s = Some (Inr (need', failed, dir @ ds, s))"
        "mset need' = mset (take (Suc i) need) + mset (tree_files (tb_fs s) (drop (Suc i) need))"
        "set ds = dirs_below (tb_fs s) (drop (Suc i) need)"
        using True "1.prems" by (auto simp: d tree_files_file [OF False] simp del: tree_files.simps)
      then show ?thesis
        using loop_file [OF True i _ False] True "1.prems"(2)
        by (simp add: d tree_files_file [OF False] below_file [OF False] take_Suc_conv_app_nth del: tree_files.simps)
    next
      case dir: True
      then obtain es where es: "node_of (tb_fs s) (need ! i) = Some (DirNode es)" by (auto simp: is_dir_def)
      let ?need = "take i need @ drop (Suc i) need @ map (child (need ! i)) es"
      have dr: "drop i ?need = drop (Suc i) need @ map (child (need ! i)) es" "take i ?need = take i need"
        using True "1.prems"(2) by simp_all
      have "ranks (longest (tb_fs s)) (drop i ?need) < ranks (longest (tb_fs s)) (drop i need)"
        unfolding d dr ranks_def by (rule entries_decrease) (rule longest_dir [OF es])
      then have "(ranks (longest (tb_fs s)) (drop i ?need), ranks (longest (tb_fs s)) (drop i need)) \<in> {(M, N). M < N}" by simp
      moreover have "i \<le> length ?need" using "1.prems"(1) by simp
      moreover have "i + length (tree_files (tb_fs s) (drop i ?need)) < 100"
        using "1.prems"(3) unfolding dr by (simp add: d tree_files_append es)
      ultimately obtain need' ds where
        "shred_loop env ?need i (length ?need) failed (dir @ [need ! i]) s = Some (Inr (need', failed, (dir @ [need ! i]) @ ds, s))"
        "mset need' = mset (take i ?need) + mset (tree_files (tb_fs s) (drop i ?need))"
        "set ds = dirs_below (tb_fs s) (drop i ?need)"
        using "1.hyps" [of i ?need "length ?need" "dir @ [need ! i]"] by blast
      then show ?thesis
        using loop_dir [OF True i _ es] True "1.prems"(2)
        by (intro exI [of _ need'] exI [of _ "need ! i # ds"])
          (simp add: Let_def dr d es tree_files_append below_entries [OF es] below_lists Un_commute)
    qed
  qed
qed


section \<open>Plain files\<close>

text \<open>The number of paths the loop runs to is not corrected when a batch leaves the list.\<close>

lemma plain_noting:
  "\<forall>p \<in> set need. \<not> is_dir (tb_fs s) p \<Longrightarrow> \<forall>p \<in> set need. \<not> is_dir (tb_fs (snd (shred_noting env ps failed s))) p"
  by (simp add: shred_noting_eq Let_def act_def is_dir_unlink)

lemma plain_batch:
  assumes "100 < bound" and "\<forall>p \<in> set need. \<not> is_dir (tb_fs s) p"
  shows "\<exists>failed' s'. shred_loop env need 100 bound failed dir s = shred_loop env (drop 100 need) 0 bound failed' dir s'
     \<and> (\<forall>p \<in> set (drop 100 need). \<not> is_dir (tb_fs s') p)"
proof -
  obtain failed' s' where n: "shred_noting env (take 100 need) failed s = (failed', s')" by (cases "shred_noting env (take 100 need) failed s")
  have "\<forall>p \<in> set need. \<not> is_dir (tb_fs s') p" using plain_noting [OF assms(2), of env "take 100 need" failed] by (simp add: n)
  then show ?thesis using loop_batch [OF assms(1) _ n] by (auto dest: in_set_dropD)
qed

lemma plain_over:
  assumes "i \<le> 100" and "i \<le> length need" and "length need < bound" and "\<forall>p \<in> set need. \<not> is_dir (tb_fs s) p"
  shows "\<exists>t. shred_loop env need i bound failed dir s = Some (Inl t)"
  using assms
proof (induction "length need - i" arbitrary: need i failed s rule: less_induct)
  case less
  note pre = less.prems
  have step: "\<exists>t. shred_loop env need i bound failed dir s = Some (Inl t)"
    if "i < 100" "i \<le> length need" "length need < bound" "\<forall>p \<in> set need. \<not> is_dir (tb_fs s) p"
       "\<And>failed. i < length need \<Longrightarrow> \<exists>t. shred_loop env need (Suc i) bound failed dir s = Some (Inl t)" for need i failed s
    using that loop_out [of i bound need env failed dir s] loop_file [of i bound need s env failed dir]
    by (cases "i < length need") auto
  show ?case
  proof (cases "i = 100")
    case False
    show ?thesis
      by (rule step) (use False pre in \<open>auto intro!: less.hyps\<close>)
  next
    case True
    then obtain failed' s' where b: "shred_loop env need i bound failed dir s = shred_loop env (drop 100 need) 0 bound failed' dir s'"
      "\<forall>p \<in> set (drop 100 need). \<not> is_dir (tb_fs s') p"
      using plain_batch [of bound need s env failed dir] pre by auto
    have "\<exists>t. shred_loop env (drop 100 need) 0 bound failed' dir s' = Some (Inl t)"
      by (rule step) (use True pre b(2) in \<open>auto intro!: less.hyps\<close>)
    then show ?thesis by (simp add: b(1))
  qed
qed

lemma plain_long:
  assumes "i \<le> 100" and "length need = bound" and "100 < bound" and "\<forall>p \<in> set need. \<not> is_dir (tb_fs s) p"
  shows "\<exists>t. shred_loop env need i bound failed dir s = Some (Inl t)"
  using assms(1)
proof (induction rule: inc_induct)
  case base
  obtain failed' s' where b: "shred_loop env need 100 bound failed dir s = shred_loop env (drop 100 need) 0 bound failed' dir s'"
    "\<forall>p \<in> set (drop 100 need). \<not> is_dir (tb_fs s') p"
    using plain_batch [OF assms(3,4)] by blast
  show ?case unfolding b(1) by (rule plain_over) (use assms(2,3) b(2) in auto)
next
  case (step i)
  have "shred_loop env need i bound failed dir s = shred_loop env need (Suc i) bound failed dir s"
    by (rule loop_file) (use step assms in auto)
  with step.IH show ?case by simp
qed

lemma plain_short:
  assumes "i \<le> bound" and "length need = bound" and "bound \<le> 100" and "\<forall>p \<in> set need. \<not> is_dir (tb_fs s) p"
  shows "shred_loop env need i bound failed dir s = Some (Inr (need, failed, dir, s))"
  using assms(1)
proof (induction rule: inc_induct)
  case base
  show ?case by (rule loop_end) simp
next
  case (step i)
  have "shred_loop env need i bound failed dir s = shred_loop env need (Suc i) bound failed dir s"
    by (rule loop_file) (use step assms in auto)
  with step.IH show ?case by simp
qed

lemma plain_limit:
  assumes "\<forall>p \<in> set need. \<not> is_dir (tb_fs s) p"
  shows "(\<exists>t. shred_loop env need 0 (length need) [] dir s = Some (Inl t)) \<longleftrightarrow> 100 < length need"
    and "\<not> 100 < length need \<Longrightarrow> shred_loop env need 0 (length need) [] dir s = Some (Inr (need, [], dir, s))"
  using plain_long [OF _ refl _ assms, of 0 env "[]" dir] plain_short [OF _ refl _ assms, of 0 env "[]" dir]
  by (cases "100 < length need", simp_all)

section \<open>After the loop\<close>

definition remove_all :: "tb_env \<Rightarrow> string list \<Rightarrow> string list \<Rightarrow> fs \<Rightarrow> fs" where
  "remove_all env ts ds fs = fold (\<lambda>d fs. if d \<notin> set ts then fs else unlink (te_remove env d fs) fs) ds fs"

lemma remove_dirs_eq: "remove_dirs env ts ds s = s\<lparr>tb_fs := remove_all env ts ds (tb_fs s)\<rparr>"
  unfolding remove_dirs_def remove_all_def
proof (induction ds arbitrary: s)
  case (Cons d ds)
  show ?case
    by (simp only: fold.simps o_apply Cons.IH) (simp add: remove_all_def)
qed simp

lemma remove_all_gone: "node_of fs q = None \<Longrightarrow> node_of (remove_all env ts ds fs) q = None"
  unfolding remove_all_def by (induction ds arbitrary: fs) auto

lemma removeFileFromFileShred_db_fields:
  "tb_fs (snd (removeFileFromFileShred_db env ps s)) = tb_fs s"
  "\<exists>sig \<in> {[], [EmitSignal ''FileShredListChanged'' [] 0]}. d_effects (snd (removeFileFromFileShred_db env ps s)) = d_effects s @ sig"
  by (auto simp: removeFileFromFileShred_db_def GetFileListFromFileShred_def db_exec_def Let_def split_beta act_def)

lemma shredFile_end:
  assumes "is_secadm caller s" and "ts \<noteq> []"
    and "shred_loop env ts 0 (length ts) [] [] s = Some (Inr (need', failed', ds, t))"
  shows "\<exists>s' sig. shredFile env caller ts s = Some (Some s')
     \<and> tb_fs s' = remove_all env ts ds (unlink (snd (te_shred env need' (tb_fs t))) (tb_fs t))
     \<and> sig \<in> {[], [EmitSignal ''FileShredListChanged'' [] 0]}
     \<and> d_effects s' = d_effects t @ [shred_exec need'] @ sig
         @ (if fst (shred_noting env need' failed' t) = [] then [] else [ReplyError caller ERROR_TOOL_BOX_FAILED_SHRED_FILES])
         @ (if filter (\<lambda>p. \<not> path_exists (tb_fs s') p) ts = [] then [] else [Reply caller])"
proof -
  obtain failed t1 where t1: "shred_noting env need' failed' t = (failed, t1)" by (cases "shred_noting env need' failed' t")
  let ?t2 = "remove_dirs env ts ds t1"
  let ?gone = "filter (\<lambda>p. \<not> path_exists (tb_fs ?t2) p) ts"
  obtain b t3 where t3: "removeFileFromFileShred_db env ?gone ?t2 = (b, t3)" by (cases "removeFileFromFileShred_db env ?gone ?t2")
  have t1': "tb_fs t1 = unlink (snd (te_shred env need' (tb_fs t))) (tb_fs t)" "d_effects t1 = d_effects t @ [shred_exec need']"
    using t1 by (auto simp: shred_noting_eq Let_def act_def)
  obtain sig where sig: "sig \<in> {[], [EmitSignal ''FileShredListChanged'' [] 0]}" "d_effects t3 = d_effects ?t2 @ sig" "tb_fs t3 = tb_fs ?t2"
    using removeFileFromFileShred_db_fields [of env ?gone ?t2] by (auto simp: t3)
  define s' where "s' = (let t4 = (if failed = [] then t3
         else SSR_LOG_ERROR log_TOOL_BOX (''Failed to shred file: '' @ join '','' failed) caller
                (act (ReplyError caller ERROR_TOOL_BOX_FAILED_SHRED_FILES) t3))
       in if ?gone = [] then t4 else act (Reply caller) (SSR_LOG_SUCCESS log_TOOL_BOX (''Shred files '' @ join '','' ?gone) caller t4))"
  have "shredFile env caller ts s = Some (Some s')"
    using assms unfolding shredFile_def s'_def by (simp add: t1 t3 Let_def)
  moreover have fs: "tb_fs s' = tb_fs ?t2"
    unfolding s'_def by (simp add: Let_def act_def SSR_LOG_SUCCESS_def SSR_LOG_ERROR_def SSR_LOG_def write_log_def sig(3))
  moreover have "d_effects s' = d_effects t3 @ (if failed = [] then [] else [ReplyError caller ERROR_TOOL_BOX_FAILED_SHRED_FILES])
      @ (if ?gone = [] then [] else [Reply caller])"
    unfolding s'_def by (simp add: Let_def)
  moreover have "d_effects ?t2 = d_effects t1" "tb_fs ?t2 = remove_all env ts ds (tb_fs t1)" by (simp_all add: remove_dirs_eq)
  ultimately show ?thesis using sig t1' t1 by (intro exI [of _ s'] exI [of _ sig]) simp
qed

definition is_exec :: "effect \<Rightarrow> bool" where
  "is_exec e = (case e of Exec _ _ \<Rightarrow> True | _ \<Rightarrow> False)"

definition is_reply :: "effect \<Rightarrow> bool" where
  "is_reply e = (case e of Reply _ \<Rightarrow> True | ReplyError _ _ \<Rightarrow> True | _ \<Rightarrow> False)"

lemma effect_kinds [simp]:
  "is_exec (shred_exec ps)" "\<not> is_exec (Reply c)" "\<not> is_exec (ReplyError c code)" "\<not> is_exec (EmitSignal n x k)"
  "\<not> is_reply (shred_exec ps)" "is_reply (Reply c)" "is_reply (ReplyError c code)" "\<not> is_reply (EmitSignal n x k)"
  by (simp_all add: is_exec_def is_reply_def shred_exec_def)

section \<open>Properties\<close>

text \<open>C26: With fewer than a hundred files below the paths given, the walk over the directories, which grows the
  list it runs over, collects exactly the files a recursive descent finds: they reach \<open>shred\<close> in one call,
  and when that succeeds none of them is left and the call is not answered with an error.\<close>

theorem shredFile_as_descent:
  assumes "shred_law env" and "is_secadm caller s" and "ts \<noteq> []" and "length (tree_files (tb_fs s) ts) < 100"
  shows "\<exists>ps s'. shredFile env caller ts s = Some (Some s') \<and> mset ps = mset (tree_files (tb_fs s) ts)
     \<and> filter is_exec (d_effects s') = filter is_exec (d_effects s) @ [shred_exec ps]
     \<and> (fst (te_shred env ps (tb_fs s)) = 0 \<longrightarrow>
          (\<forall>q \<in> set ps. \<not> path_exists (tb_fs s') q) \<and> set (d_effects s') \<inter> {ReplyError caller c | c. True} \<subseteq> set (d_effects s))"
proof -
  from loop_few [of 0 ts "length ts" s env "[]" "[]"] assms(4) obtain ps ds where
    loop: "shred_loop env ts 0 (length ts) [] [] s = Some (Inr (ps, [], ds, s))" "mset ps = mset (tree_files (tb_fs s) ts)"
    by auto
  from shredFile_end [OF assms(2,3) loop(1)] obtain s' sig where
    s': "shredFile env caller ts s = Some (Some s')" "sig \<in> {[], [EmitSignal ''FileShredListChanged'' [] 0]}"
      "tb_fs s' = remove_all env ts ds (unlink (snd (te_shred env ps (tb_fs s))) (tb_fs s))"
      "d_effects s' = d_effects s @ [shred_exec ps] @ sig
         @ (if fst (shred_noting env ps [] s) = [] then [] else [ReplyError caller ERROR_TOOL_BOX_FAILED_SHRED_FILES])
         @ (if filter (\<lambda>p. \<not> path_exists (tb_fs s') p) ts = [] then [] else [Reply caller])" by blast
  have "filter is_exec (d_effects s') = filter is_exec (d_effects s) @ [shred_exec ps]" using s'(2,4) by auto
  moreover have "\<not> path_exists (tb_fs s') q" if "fst (te_shred env ps (tb_fs s)) = 0" "q \<in> set ps" for q
  proof -
    have "q \<in> files_below (tb_fs s) ts" using that(2) loop(2) by (metis set_mset_mset set_tree_files)
    then have "node_of (tb_fs s) q = Some FileNode \<or> node_of (tb_fs s) q = None"
      by (auto simp: files_below_def is_dir_def) (metis node.exhaust not_Some_eq)
    moreover have "{p \<in> set ps. node_of (tb_fs s) p = Some FileNode} \<subseteq> set (snd (te_shred env ps (tb_fs s)))"
      using assms(1) that(1) by (simp add: shred_law_def)
    ultimately have "node_of (unlink (snd (te_shred env ps (tb_fs s))) (tb_fs s)) q = None" using that(2) by auto
    then show ?thesis by (simp add: path_exists_def s'(3) remove_all_gone)
  qed
  moreover have "set (d_effects s') \<inter> {ReplyError caller c | c. True} \<subseteq> set (d_effects s)" if "fst (te_shred env ps (tb_fs s)) = 0"
    using s'(2,4) that by (auto simp: shred_noting_eq Let_def shred_exec_def)
  ultimately show ?thesis using s'(1) loop(2) by blast
qed

text \<open>A hundred files are the limit: a list of more plain files, or a directory with more of them, leads
  out of the list the loop runs over, after a batch has been shredded.\<close>

theorem shred_batch_limit:
  assumes "is_secadm caller s" and "ts \<noteq> []" and "\<forall>p \<in> set ts. \<not> is_dir (tb_fs s) p"
  shows "(shredFile env caller ts s = Some None \<longleftrightarrow> 100 < length ts)
     \<and> (\<forall>d es. node_of (tb_fs s) d = Some (DirNode es) \<and> (\<forall>e \<in> set es. \<not> is_dir (tb_fs s) (child d e)) \<longrightarrow>
          (shredFile env caller [d] s = Some None \<longleftrightarrow> 100 < length es))"
proof -
  have crash: "shredFile env caller ps s = Some None \<longleftrightarrow> (\<exists>t. shred_loop env ps 0 (length ps) [] [] s = Some (Inl t))"
    if "ps \<noteq> []" for ps
    using assms(1) that by (auto simp: shredFile_def split_beta Let_def split: option.splits sum.splits)
  have "shredFile env caller [d] s = Some None \<longleftrightarrow> 100 < length es"
    if "node_of (tb_fs s) d = Some (DirNode es)" "\<forall>e \<in> set es. \<not> is_dir (tb_fs s) (child d e)" for d es
  proof -
    have "shred_loop env [d] 0 (length [d]) [] [] s = shred_loop env (map (child d) es) 0 (length (map (child d) es)) [] [d] s"
      using loop_dir [of 0 1 "[d]" s es env "[]" "[]"] that(1) by simp
    moreover have "\<forall>p \<in> set (map (child d) es). \<not> is_dir (tb_fs s) p" using that(2) by simp
    ultimately show ?thesis using crash [of "[d]"] plain_limit(1) [of "map (child d) es" s env "[d]"] by simp
  qed
  then show ?thesis using crash [OF assms(2)] plain_limit(1) [OF assms(3), of env "[]"] by blast
qed


text \<open>A file below a directory of the call is gone at the end whether \<open>shred\<close> has overwritten it or not, since
  the directory is then removed as a whole; when \<open>shred\<close> fails the call is answered twice, with an error
  and with success.\<close>

theorem unshredded_files_are_deleted:
  assumes "shred_law env" and "is_secadm caller s" and "is_dir (tb_fs s) d"
    and removes: "\<forall>fs q. below fs d q \<and> path_exists fs q \<longrightarrow> q \<in> set (te_remove env d fs)"
    and s': "shredFile env caller [d] s = Some (Some s')"
  shows "(\<forall>q. below (tb_fs s) d q \<longrightarrow> \<not> path_exists (tb_fs s') q) \<and> Reply caller \<in> set (d_effects s')
     \<and> ((\<forall>ps fs. fst (te_shred env ps fs) \<noteq> 0 \<and> snd (te_shred env ps fs) = []) \<and> (\<exists>q. below (tb_fs s) d q \<and> node_of (tb_fs s) q = Some FileNode)
        \<longrightarrow> filter is_reply (d_effects s') = filter is_reply (d_effects s) @ [ReplyError caller ERROR_TOOL_BOX_FAILED_SHRED_FILES, Reply caller])"
proof -
  have "\<forall>p. is_dir (tb_fs s) p \<longrightarrow> length p \<le> longest (tb_fs s)" by (auto simp: is_dir_def dest: longest_dir)
  from shred_loop_spec [OF assms(1), of 0 "[d]" 1 s "longest (tb_fs s)" "[]" "[]"] this obtain r where
    r: "shred_loop env [d] 0 (length [d]) [] [] s = Some r" "loop_post env [d] 0 1 [] [] s r" by auto
  then obtain ps failed ds t where x: "r = Inr (ps, failed, ds, t)"
    using s' assms(2) by (cases r) (auto simp: shredFile_def)
  from r(2) obtain bs gone where H:
    "t = s\<lparr>tb_fs := unlink gone (tb_fs s), d_effects := d_effects s @ map shred_exec bs\<rparr>"
    "set (concat bs) \<union> set ps = files_below (tb_fs s) [d]" "set ds = dirs_below (tb_fs s) [d]"
    "\<forall>g \<in> set gone. node_of (tb_fs s) g = Some FileNode" "set gone \<subseteq> set (concat bs)"
    "\<forall>p \<in> set (concat bs). node_of (tb_fs s) p = Some FileNode \<longrightarrow> p \<in> set gone \<or> p \<in> set failed"
    "(\<forall>ps fs. snd (te_shred env ps fs) = []) \<longrightarrow> gone = []"
    unfolding loop_post_def x sum.case prod.case take_0 drop_0 list.set(1) Un_empty_left append_Nil by blast
  obtain sig where e: "tb_fs s' = remove_all env [d] ds (unlink (snd (te_shred env ps (tb_fs t))) (tb_fs t))"
    "sig \<in> {[], [EmitSignal ''FileShredListChanged'' [] 0]}"
    "d_effects s' = d_effects t @ [shred_exec ps] @ sig
       @ (if fst (shred_noting env ps failed t) = [] then [] else [ReplyError caller ERROR_TOOL_BOX_FAILED_SHRED_FILES])
       @ (if filter (\<lambda>p. \<not> path_exists (tb_fs s') p) [d] = [] then [] else [Reply caller])"
    using shredFile_end [OF assms(2) list.distinct(2) r(1)[unfolded x]] unfolding s' option.inject by blast
  let ?g = "gone @ snd (te_shred env ps (tb_fs t))"
  have fs: "tb_fs t = unlink gone (tb_fs s)" "d_effects t = d_effects s @ map shred_exec bs" by (simp_all add: H(1))
  have last: "unlink (snd (te_shred env ps (tb_fs t))) (tb_fs t) = unlink ?g (tb_fs s)" by (simp add: fs unlink_unlink)
  have nodir: "\<forall>g \<in> set ?g. \<not> is_dir (tb_fs s) g"
  proof
    fix g assume g: "g \<in> set ?g"
    show "\<not> is_dir (tb_fs s) g"
    proof (cases "g \<in> set gone")
      case True
      then show ?thesis using H(4) by (simp add: is_dir_def)
    next
      case False
      then show ?thesis using g shred_law_dirs [OF assms(1), of ps "tb_fs t"] by (auto simp: fs is_dir_unlink)
    qed
  qed
  have all_gone: "node_of (remove_all env [d] (d # xs) fs') q = None"
    if "below fs' d q" for fs' q xs
  proof -
    have "node_of (unlink (te_remove env d fs') fs') q = None"
      using removes that by (auto simp: path_exists_def)
    then show ?thesis using remove_all_gone [of "unlink (te_remove env d fs') fs'" q env "[d]" xs] by (simp add: remove_all_def)
  qed
  have skip: "remove_all env [d] (us @ xs) fs' = remove_all env [d] xs fs'" if "d \<notin> set us" for us xs fs'
    using that unfolding remove_all_def by (induction us arbitrary: fs') auto
  have "d \<in> set ds" using assms(3) H(3) by (auto simp: dirs_below_def intro: below.self)
  then obtain us xs where ds: "ds = us @ d # xs" "d \<notin> set us" by (meson split_list_first)
  have gone: "\<not> path_exists (tb_fs s') q" if "below (tb_fs s) d q" for q
  proof (cases "q \<in> set ?g")
    case True
    then have "node_of (unlink ?g (tb_fs s)) q = None" by simp
    from remove_all_gone [OF this, of env "[d]" ds] show ?thesis unfolding path_exists_def e(1) last by simp
  next
    case False
    with below_unlink [OF nodir that] have "below (unlink ?g (tb_fs s)) d q" by blast
    from all_gone [OF this, of xs] show ?thesis unfolding path_exists_def e(1) last ds(1) skip [OF ds(2)] by simp
  qed
  have "\<not> path_exists (tb_fs s') d" by (rule gone) (rule below.self)
  then have reply: "filter (\<lambda>p. \<not> path_exists (tb_fs s') p) [d] = [d]" by simp
  have "fst (shred_noting env ps failed t) \<noteq> []"
    if no: "\<forall>ps fs. fst (te_shred env ps fs) \<noteq> 0 \<and> snd (te_shred env ps fs) = []"
      and q: "below (tb_fs s) d q" "node_of (tb_fs s) q = Some FileNode" for q
  proof -
    have "q \<in> files_below (tb_fs s) [d]" using q by (auto simp: files_below_def is_dir_def)
    then have "q \<in> set failed \<or> q \<in> set gone \<or> q \<in> set ps" using H(2,6) q(2) by blast
    moreover have "path_exists (tb_fs t) q" if "q \<notin> set gone" using that q(2) by (simp add: fs path_exists_def)
    moreover have "gone = []" using no H(7) by blast
    ultimately show ?thesis using no by (auto simp: shred_noting_eq Let_def filter_empty_conv)
  qed
  then show ?thesis using gone e(2,3) reply by (auto simp: fs filter_empty_conv)
qed

section \<open>Samples\<close>

definition sample_te :: tb_env where
  "sample_te = \<lparr>te_exec = (\<lambda>_ _. (0, ''mls: s0'')), te_shred = (\<lambda>ps fs. (0, filter (\<lambda>p. node_of fs p = Some FileNode) ps)),
     te_remove = (\<lambda>d fs. filter (\<lambda>p. p = d \<or> startsWith p (d @ ''/'')) (map fst fs)),
     te_db = (\<lambda>cmd tables. (True, [], tables)), te_groups = [], te_users = [], te_selinux = True\<rparr>"

definition sample_tb :: tb where
  "sample_tb = \<lparr>d_clients = [('':1.7'', \<lparr>a_isLogin = True, a_role = role_secadm, a_name = ''secadm'', a_pid = 7\<rparr>)],
     d_log = small_log, d_now = 0, d_effects = [],
     tb_fs = [(''/d'', DirNode [''a'', ''b'']), (''/d/a'', FileNode), (''/d/b'', FileNode)],
     tb_tables = [], tb_osGroupInfo = [], tb_osUserInfo = [], tb_threads = []\<rparr>"

lemma sample_law: "shred_law sample_te"
  by (auto simp: shred_law_def sample_te_def)

lemma sample_secadm: "is_secadm '':1.7'' sample_tb"
  by (simp add: is_secadm_def sample_tb_def getRole_def qm_value_def)

theorem shredFile_as_descent_witness:
  "\<exists>ps s'. shredFile sample_te '':1.7'' [''/d''] sample_tb = Some (Some s') \<and> mset ps = mset [''/d/a'', ''/d/b'']
     \<and> filter is_exec (d_effects s') = [shred_exec ps]"
proof -
  have files: "tree_files (tb_fs sample_tb) [''/d''] = [''/d/a'', ''/d/b'']" by code_simp
  have none: "filter is_exec (d_effects sample_tb) = []" by (simp add: sample_tb_def)
  have "length (tree_files (tb_fs sample_tb) [''/d'']) < 100" by (simp only: files list.size)
  from shredFile_as_descent [OF sample_law sample_secadm not_Cons_self2 this] show ?thesis
    unfolding files none append_Nil by blast
qed

theorem shred_batch_limit_witness: "shredFile sample_te '':1.7'' (replicate 101 ''/x'') sample_tb = Some None"
proof -
  have "\<not> is_dir (tb_fs sample_tb) ''/x''" by (simp add: is_dir_def sample_tb_def node_of_def)
  then have "\<forall>p \<in> set (replicate 101 ''/x''). \<not> is_dir (tb_fs sample_tb) p" by simp
  from shred_batch_limit [OF sample_secadm _ this, of sample_te] show ?thesis by simp
qed


lemma below_prefix: "below fs d q \<Longrightarrow> q = d \<or> startsWith q (d @ ''/'')"
proof (induction rule: below.induct)
  case (enter p es e q)
  then show ?case by (auto simp: child_def startsWith_def prefix_def)
qed simp

theorem unshredded_files_are_deleted_witness:
  "\<exists>s'. shredFile (sample_te\<lparr>te_shred := \<lambda>ps fs. (1, [])\<rparr>) '':1.7'' [''/d''] sample_tb = Some (Some s')
     \<and> \<not> path_exists (tb_fs s') ''/d/a''
     \<and> filter is_reply (d_effects s') = [ReplyError '':1.7'' ERROR_TOOL_BOX_FAILED_SHRED_FILES, Reply '':1.7'']"
proof -
  let ?env = "sample_te\<lparr>te_shred := \<lambda>ps fs. (1, [])\<rparr>"
  have "case shredFile ?env '':1.7'' [''/d''] sample_tb of Some (Some _) \<Rightarrow> True | _ \<Rightarrow> False" by code_simp
  then obtain s' where s': "shredFile ?env '':1.7'' [''/d''] sample_tb = Some (Some s')" by (auto split: option.splits)
  have law: "shred_law ?env" by (simp add: shred_law_def)
  have a: "node_of (tb_fs sample_tb) ''/d'' = Some (DirNode [''a'', ''b''])" "node_of (tb_fs sample_tb) ''/d/a'' = Some FileNode"
    by (simp_all add: node_of_def sample_tb_def)
  then have dir: "is_dir (tb_fs sample_tb) ''/d''" by (simp add: is_dir_def)
  have "below (tb_fs sample_tb) (child ''/d'' ''a'') ''/d/a''" by (simp add: child_def below.self)
  then have below: "below (tb_fs sample_tb) ''/d'' ''/d/a''" by (rule below.enter [OF a(1), rotated]) simp
  have removes: "\<forall>fs q. below fs ''/d'' q \<and> path_exists fs q \<longrightarrow> q \<in> set (te_remove ?env ''/d'' fs)"
  proof (intro allI impI)
    fix fs q
    assume q: "below fs ''/d'' q \<and> path_exists fs q"
    then have "q \<in> fst ` set fs" by (force simp: path_exists_def node_of_def dest: map_of_SomeD)
    with q show "q \<in> set (te_remove ?env ''/d'' fs)" using below_prefix [of fs "''/d''" q] by (simp add: sample_te_def)
  qed
  have "d_effects sample_tb = []" by (simp add: sample_tb_def)
  with unshredded_files_are_deleted [OF law sample_secadm dir removes s'] below a(2) s' show ?thesis
    by auto
qed

end
