(* ===== verification/ToolSystem.thy ===== *)
theory ToolSystem
  imports ToolShred
begin

text \<open>
  The tool box as a whole: the six calls behind polkit in any order of the answers, who may do what, the
  lists of objects over the database, and the removal of users with the thread it starts.
\<close>

section \<open>The calls behind polkit\<close>

datatype tb_call =
    SetAccessControlStatus bool | RemoveUser "string list" | ShredFile "string list"
  | SetFileMLSLabel string string | SetFileKICLabel string string | SetUserMLSLabel string string

text \<open>\<open>None\<close>: the daemon has crashed.\<close>

fun tb_perform :: "tb_env \<Rightarrow> tb_call \<Rightarrow> string \<Rightarrow> tb \<Rightarrow> tb option" where
  "tb_perform env (SetAccessControlStatus b) caller s = Some (setAccessControlStatus env caller b s)"
| "tb_perform env (RemoveUser us) caller s = Some (removeUser env caller us s)"
| "tb_perform env (ShredFile ps) caller s = (case shredFile env caller ps s of None \<Rightarrow> None | Some r \<Rightarrow> r)"
| "tb_perform env (SetFileMLSLabel p l) caller s = Some (setFileMLSLabel env caller p l s)"
| "tb_perform env (SetFileKICLabel p l) caller s = Some (setFileKICLabel env caller p l s)"
| "tb_perform env (SetUserMLSLabel u l) caller s = Some (setUserMLSLabel env caller u l s)"

definition tb_handle :: "tb_env \<Rightarrow> tb_call \<Rightarrow> string \<Rightarrow> tb option \<Rightarrow> tb option" where
  "tb_handle env c caller s = Option.bind s (tb_perform env c caller)"

definition tb_deny :: "string \<Rightarrow> tb option \<Rightarrow> tb option" where
  "tb_deny caller s = map_option (act (ReplyDenied caller)) s"

section \<open>Frames\<close>

lemma run_program_eq [simp]:
  "run_program env p as s = (fst (te_exec env p as) = 0, snd (te_exec env p as), act (Exec p as) s)"
  by (simp add: run_program_def)

lemmas label_defs = setAccessControlStatus_def setFileMLSLabel_def setFileKICLabel_def set_file_label_def setUserMLSLabel_def
  setFileSeLabels_def setUserSeLabels_def tb_refuse_logged_def tb_refuse_def tb_denied_def

text \<open>No operation of the tool box logs anybody in or out.\<close>

lemma remove_users_clients: "d_clients (snd (snd (snd (remove_users env c info us s)))) = d_clients s"
  by (induction us arbitrary: s) (auto simp: Let_def split_beta)

lemma tb_update_clients [simp]:
  "d_clients (s\<lparr>tb_fs := x\<rparr>) = d_clients s" "d_clients (s\<lparr>tb_tables := y\<rparr>) = d_clients s" "d_clients (s\<lparr>tb_threads := z\<rparr>) = d_clients s"
  by (cases s; simp)+

lemma shred_clients: "d_clients (snd (shred_noting env ps failed s)) = d_clients s"
  by (simp add: shred_noting_eq Let_def)

lemma db_clients: "d_clients (snd (snd (db_exec env cmd s))) = d_clients s"
  by (simp add: db_exec_def split_beta)

lemma removeFile_clients: "d_clients (snd (removeFileFromFileShred_db env ps s)) = d_clients s"
  using db_clients by (simp add: removeFileFromFileShred_db_def GetFileListFromFileShred_def Let_def split_beta)

definition left_clients :: "tb + string list \<times> string list \<times> string list \<times> tb \<Rightarrow> (string, account) qmap" where
  "left_clients r = (case r of Inl t \<Rightarrow> d_clients t | Inr (_, _, _, t) \<Rightarrow> d_clients t)"

lemma shred_loop_clients:
  assumes "shred_loop env need i n failed dir s = Some r"
  shows "left_clients r = d_clients s"
proof (rule shred_loop.raw_induct [OF _ assms], goal_cases)
  case (1 loop env need i n failed dir s r)
  obtain need' i' failed' s' where at: "(if 100 \<le> i then let (f, t) = shred_noting env (take i need) failed s in (drop i need, 0, f, t)
      else (need, i, failed, s)) = (need', i', failed', s')" by (rule prod_cases4)
  then have same: "d_clients s' = d_clients s"
    using shred_clients [of env "take i need" failed s] by (auto simp: Let_def split_beta split: if_splits)
  have IH: "left_clients y = d_clients u" if "loop e nd k m f ds u = Some y" for e nd k m f ds u y
    using that by (rule "1"(1))
  show ?case
  proof (cases "i < n")
    case False
    then show ?thesis using "1"(2) by (auto simp: left_clients_def)
  next
    case True
    then show ?thesis using "1"(2) same unfolding at
      by (auto simp: Let_def left_clients_def [of "Inl _"] dest: IH split: if_splits option.splits node.splits)
  qed
qed

lemma shredFile_clients: "shredFile env caller ps s = Some (Some s') \<Longrightarrow> d_clients s' = d_clients s"
proof -
  assume run: "shredFile env caller ps s = Some (Some s')"
  show ?thesis
  proof (cases "ps = [] \<or> \<not> is_secadm caller s")
    case True
    with run show ?thesis by (cases "ps = []") (auto simp: shredFile_def tb_refuse_def tb_denied_def tb_refuse_logged_def)
  next
    case False
    with run obtain need failed dir t where loop: "shred_loop env ps 0 (length ps) [] [] s = Some (Inr (need, failed, dir, t))"
      by (auto simp: shredFile_def split: option.splits sum.splits)
    have "d_clients t = d_clients s" using shred_loop_clients [OF loop] by (simp add: left_clients_def)
    with run False loop show ?thesis
      by (auto simp: shredFile_def Let_def split_beta shred_clients removeFile_clients remove_dirs_eq split: if_splits)
  qed
qed

lemma tb_perform_clients: "tb_perform env c caller s = Some s' \<Longrightarrow> d_clients s' = d_clients s"
proof (cases c)
  case (RemoveUser us)
  assume "tb_perform env c caller s = Some s'"
  then show ?thesis unfolding RemoveUser
    using remove_users_clients [of env caller "tb_osUserInfo s" us s]
    by (auto simp: removeUser_def Let_def split_beta tb_refuse_def tb_denied_def tb_refuse_logged_def)
next
  case (ShredFile ps)
  assume "tb_perform env c caller s = Some s'"
  then show ?thesis unfolding ShredFile by (auto split: option.splits dest: shredFile_clients)
qed (auto simp: label_defs Let_def)

text \<open>The roles of the callers stay what they were, so the gate keeps them over a run.\<close>

definition clients_are :: "(string, account) qmap \<Rightarrow> tb option \<Rightarrow> bool" where
  "clients_are cl s \<longleftrightarrow> (\<forall>t. s = Some t \<longrightarrow> d_clients t = cl)"

lemma gate_clients: "polkit_gate (tb_handle env) tb_deny (clients_are cl)"
  by unfold_locales
    (auto simp: clients_are_def tb_handle_def tb_deny_def bind_eq_Some_conv dest: tb_perform_clients)

interpretation tb_gate: polkit_gate "tb_handle env" tb_deny "clients_are cl" for env cl
  by (rule gate_clients)

section \<open>Who may do what\<close>

text \<open>What matters outside: files, tables, accounts, threads and programs run.\<close>

definition untouched :: "tb \<Rightarrow> tb \<Rightarrow> bool" where
  "untouched s s' \<longleftrightarrow> d_clients s' = d_clients s \<and> tb_fs s' = tb_fs s \<and> tb_tables s' = tb_tables s \<and> tb_threads s' = tb_threads s
     \<and> tb_osUserInfo s' = tb_osUserInfo s \<and> filter is_exec (d_effects s') = filter is_exec (d_effects s)"

lemma untouched_refl: "untouched s s" and untouched_trans: "untouched s t \<Longrightarrow> untouched t u \<Longrightarrow> untouched s u"
  by (simp_all add: untouched_def)

lemma untouched_act: "\<not> is_exec e \<Longrightarrow> untouched s (act e s)"
  by (simp add: untouched_def act_def)

lemma untouched_log: "untouched s (SSR_LOG t m r c s)"
  by (simp add: untouched_def SSR_LOG_def write_log_def)

lemma is_exec_denied [simp]: "\<not> is_exec (ReplyDenied c)"
  by (simp add: is_exec_def)

lemma refusals_untouched: "untouched s (tb_refuse caller code s)" "untouched s (tb_denied caller m s)"
  unfolding tb_refuse_def tb_denied_def tb_refuse_logged_def SSR_LOG_variants
  by (rule untouched_act, simp) (rule untouched_trans [OF untouched_log untouched_act], simp)

lemma not_secadm_untouched:
  assumes "\<not> is_secadm caller s"
  shows "\<exists>s'. tb_perform env c caller s = Some s' \<and> untouched s s'"
  using assms refusals_untouched
  by (cases c) (auto simp: setAccessControlStatus_def removeUser_def shredFile_def setFileMLSLabel_def setFileKICLabel_def
      set_file_label_def setUserMLSLabel_def Let_def)


section \<open>The lists of objects\<close>

text \<open>What SQL makes of the statements, for names without a quote: an insertion adds the rows that are not yet
  there, a deletion takes the named ones out, a query gives the rows.\<close>

definition insert_all :: "string list \<Rightarrow> string list \<Rightarrow> string list" where
  "insert_all names rows = fold (\<lambda>n rs. if n \<in> set rs then rs else rs @ [n]) names rows"

definition plain_names :: "string list \<Rightarrow> bool" where
  "plain_names names \<longleftrightarrow> names \<noteq> [] \<and> (\<forall>n \<in> set names. CHR 0x27 \<notin> set n)"

definition set_rows :: "string \<Rightarrow> (string list \<Rightarrow> string list) \<Rightarrow> tables \<Rightarrow> tables" where
  "set_rows table f ts = map (\<lambda>(t, rows). (t, if t = table then f rows else rows)) ts"

definition sql_law :: "tb_env \<Rightarrow> string \<Rightarrow> bool" where
  "sql_law env table \<longleftrightarrow> (\<forall>ts rows names. map_of ts table = Some rows \<longrightarrow>
     te_db env (select_rows table) ts = (True, rows, ts)
     \<and> (plain_names names \<longrightarrow> te_db env (insert_rows table names) ts = (True, [], set_rows table (insert_all names) ts)
          \<and> te_db env (delete_rows table names) ts = (True, [], set_rows table (filter (\<lambda>r. r \<notin> set names)) ts)))"

lemma map_of_set_rows: "map_of (set_rows table f ts) table = map_option f (map_of ts table)"
  by (induction ts) (auto simp: set_rows_def)

lemma insert_all_set: "set (insert_all names rows) = set names \<union> set rows"
  and insert_all_distinct: "distinct rows \<Longrightarrow> distinct (insert_all names rows)"
  unfolding insert_all_def by (induction names arbitrary: rows) auto

definition object_exists :: "tb_env \<Rightarrow> tb \<Rightarrow> string \<Rightarrow> bool" where
  "object_exists env s obj \<longleftrightarrow> path_exists (tb_fs s) obj \<or> known_user env obj"

lemma object_exists_eq: "object_exists env s = (\<lambda>obj. path_exists (tb_fs s) obj \<or> known_user env obj)"
  by (simp add: object_exists_def fun_eq_iff)

lemma log_fields [simp]:
  "tb_tables (SSR_LOG t m r c s) = tb_tables s" "tb_fs (SSR_LOG t m r c s) = tb_fs s"
  "tb_tables (act e s) = tb_tables s" "tb_fs (act e s) = tb_fs s"
  by (simp_all add: SSR_LOG_def write_log_def act_def)

text \<open>A query of the list: the objects that exist, and afterwards the table holds no others.\<close>

lemma get_objects:
  assumes "sql_law env ''fileSign''" and "map_of (tb_tables s) ''fileSign'' = Some rows" and "\<forall>r \<in> set rows. CHR 0x27 \<notin> set r"
  shows "fst (GetObjListFromSecuritySign env s) = filter (object_exists env s) rows"
    and "map_of (tb_tables (snd (GetObjListFromSecuritySign env s))) ''fileSign'' = Some (filter (object_exists env s) rows)"
proof -
  let ?bad = "filter (\<lambda>obj. \<not> object_exists env s obj) rows"
  have sel: "te_db env (select_rows ''fileSign'') (tb_tables s) = (True, rows, tb_tables s)"
    using assms(1,2) by (simp add: sql_law_def)
  have del: "?bad \<noteq> [] \<Longrightarrow> te_db env (delete_rows ''fileSign'' ?bad) (tb_tables s)
      = (True, [], set_rows ''fileSign'' (filter (\<lambda>r. r \<notin> set ?bad)) (tb_tables s))"
    using assms unfolding sql_law_def plain_names_def by auto
  have keep: "filter (\<lambda>r. r \<in> set rows \<longrightarrow> object_exists env s r) rows = filter (object_exists env s) rows" by (rule filter_cong) auto
  have eq: "GetObjListFromSecuritySign env s = (filter (object_exists env s) rows,
      if ?bad = [] then s else s\<lparr>tb_tables := set_rows ''fileSign'' (filter (\<lambda>r. r \<notin> set ?bad)) (tb_tables s)\<rparr>)"
    using del by (simp add: GetObjListFromSecuritySign_def db_exec_def sel removeObjFromSecuritySign_db_def object_exists_eq Let_def)
  show "fst (GetObjListFromSecuritySign env s) = filter (object_exists env s) rows" by (simp add: eq)
  show "map_of (tb_tables (snd (GetObjListFromSecuritySign env s))) ''fileSign'' = Some (filter (object_exists env s) rows)"
  proof (cases "?bad = []")
    case True
    then have "filter (object_exists env s) rows = rows" by (auto simp: filter_empty_conv intro: filter_True)
    then show ?thesis using True assms(2) by (simp add: eq)
  next
    case False
    then show ?thesis using assms(2) by (simp only: eq if_False snd_conv) (simp add: map_of_set_rows keep)
  qed
qed

text \<open>What the administrator adds to the list of objects is listed, once, as long as it exists: the list shows the
  old and the new objects that exist, no matter how often one was added, and what he removes is no longer
  listed. The database is relied upon for names without a quote.\<close>

theorem security_sign_list:
  assumes "sql_law env ''fileSign''" and "map_of (tb_tables s) ''fileSign'' = Some rows"
    and "distinct rows" and "\<forall>r \<in> set (rows @ objs). CHR 0x27 \<notin> set r" and "is_secadm caller s"
    and "objs \<noteq> []" and "\<forall>obj \<in> set objs. startsWith obj ''/'' \<or> known_user env obj \<and> obj \<noteq> []"
  shows "set (fst (GetObjListFromSecuritySign env (AddObjToSecuritySign env caller objs s))) = {obj \<in> set rows \<union> set objs. object_exists env s obj}
     \<and> distinct (fst (GetObjListFromSecuritySign env (AddObjToSecuritySign env caller objs s)))
     \<and> set (fst (GetObjListFromSecuritySign env (RemoveObjFromSecuritySign env caller objs s))) = {obj \<in> set rows - set objs. object_exists env s obj}"
proof -
  have names: "plain_names objs" using assms(4,6) by (simp add: plain_names_def)
  have valid: "filter (\<lambda>obj. obj \<noteq> []) objs = objs" "filter (\<lambda>obj. \<not> startsWith obj ''/'' \<and> \<not> known_user env obj) objs = []"
    "filter (\<lambda>obj. \<not> (\<not> startsWith obj ''/'' \<and> \<not> known_user env obj)) objs = objs"
    using assms(7) by (auto simp: filter_empty_conv startsWith_def intro!: filter_True)
  have ins: "te_db env (insert_rows ''fileSign'' objs) (tb_tables s) = (True, [], set_rows ''fileSign'' (insert_all objs) (tb_tables s))"
    and del: "te_db env (delete_rows ''fileSign'' objs) (tb_tables s) = (True, [], set_rows ''fileSign'' (filter (\<lambda>r. r \<notin> set objs)) (tb_tables s))"
    using assms(1,2) names by (simp_all add: sql_law_def)
  let ?a = "AddObjToSecuritySign env caller objs s" and ?r = "RemoveObjFromSecuritySign env caller objs s"
  have a: "tb_tables ?a = set_rows ''fileSign'' (insert_all objs) (tb_tables s)" "tb_fs ?a = tb_fs s"
    using assms(5,6) by (simp_all add: AddObjToSecuritySign_def valid[simplified] ins db_exec_def Let_def)
  have r: "tb_tables ?r = set_rows ''fileSign'' (filter (\<lambda>r. r \<notin> set objs)) (tb_tables s)" "tb_fs ?r = tb_fs s"
    using assms(5,6) by (simp_all add: RemoveObjFromSecuritySign_def removeObjFromSecuritySign_db_def del db_exec_def Let_def)
  have "fst (GetObjListFromSecuritySign env ?a) = filter (object_exists env ?a) (insert_all objs rows)"
    by (rule get_objects(1) [OF assms(1)]) (use assms(2,4) in \<open>auto simp: a map_of_set_rows insert_all_set\<close>)
  moreover have "fst (GetObjListFromSecuritySign env ?r) = filter (object_exists env ?r) (filter (\<lambda>r. r \<notin> set objs) rows)"
    by (rule get_objects(1) [OF assms(1)]) (use assms(2,4) in \<open>auto simp: r map_of_set_rows\<close>)
  moreover have "object_exists env ?a = object_exists env s" "object_exists env ?r = object_exists env s"
    by (simp_all add: object_exists_def fun_eq_iff a(2) r(2))
  ultimately show ?thesis using insert_all_distinct [OF assms(3), of objs] by (auto simp: insert_all_set)
qed

text \<open>A quote in a name ends the literal: the rest of the name is SQL.\<close>

lemma quote_ends_literal:
  "insert_rows ''fileShred'' [''/a'' @ quote @ ''); drop table fileSign; --''] =
     ''insert OR IGNORE into fileShred values ('' @ quote @ ''/a'' @ quote @ ''); drop table fileSign; --'' @ quote @ '');''"
  by (simp add: insert_rows_def)

text \<open>The rows of the first query hide that the second table is missing.\<close>

lemma fileShred_not_created:
  assumes "te_db env (select_table ''fileSign'') (tb_tables s) = (True, row # rows, ts)"
  shows "initDatabase env s = s\<lparr>tb_tables := snd (snd (te_db env (select_table ''fileShred'') ts))\<rparr>"
  using assms by (simp add: initDatabase_def db_exec_def split_beta Let_def split: prod.splits bool.splits)

section \<open>Removing users\<close>

text \<open>The users \<open>userdel\<close> removes, and what of theirs is shredded.\<close>

definition removable :: "tb_env \<Rightarrow> string \<Rightarrow> bool" where
  "removable env user \<longleftrightarrow> fst (te_exec env ''/usr/sbin/userdel'' [user]) = 0"

definition user_space :: "(string, os_passwd) qmap \<Rightarrow> string \<Rightarrow> string list" where
  "user_space info user = [''/var/spool/mail/'' @ user, case qm_value user info of None \<Rightarrow> [] | Some u \<Rightarrow> pw_dir u]"

lemma remove_users_eq:
  "fst (remove_users env caller info us s) = filter (removable env) us"
  "fst (snd (remove_users env caller info us s)) = filter (\<lambda>u. \<not> removable env u) us"
  "fst (snd (snd (remove_users env caller info us s))) = concat (map (user_space info) (filter (removable env) us))"
  by (induction us arbitrary: s) (auto simp: Let_def split_beta removable_def user_space_def)

lemma remove_users_fields:
  "tb_fs (snd (snd (snd (remove_users env caller info us s)))) = tb_fs s"
  "tb_threads (snd (snd (snd (remove_users env caller info us s)))) = tb_threads s"
  by (induction us arbitrary: s) (auto simp: Let_def split_beta act_def SSR_LOG_def write_log_def)

lemma removeUser_thread:
  assumes "is_secadm caller s" and "filter (removable env) us \<noteq> []"
  shows "tb_threads (removeUser env caller us s) = tb_threads s @ [(caller, concat (map (user_space (tb_osUserInfo s)) (filter (removable env) us)))]"
    and "tb_fs (removeUser env caller us s) = tb_fs s" and "is_secadm caller (removeUser env caller us s)"
proof -
  obtain rm failed sp t where t: "remove_users env caller (tb_osUserInfo s) us s = (rm, failed, sp, t)" by (rule prod_cases4)
  have us: "us \<noteq> []" using assms(2) by auto
  have "rm = filter (removable env) us" "sp = concat (map (user_space (tb_osUserInfo s)) (filter (removable env) us))"
    "tb_fs t = tb_fs s" "tb_threads t = tb_threads s" "d_clients t = d_clients s"
    using remove_users_eq [of env caller "tb_osUserInfo s" us s] remove_users_fields [of env caller "tb_osUserInfo s" us s]
      remove_users_clients [of env caller "tb_osUserInfo s" us s] by (simp_all add: t)
  then show "tb_threads (removeUser env caller us s) = tb_threads s @ [(caller, concat (map (user_space (tb_osUserInfo s)) (filter (removable env) us)))]"
    "tb_fs (removeUser env caller us s) = tb_fs s" "is_secadm caller (removeUser env caller us s)"
    using assms us by (simp_all add: removeUser_def t tb_refuse_def act_def SSR_LOG_SUCCESS_def SSR_LOG_def write_log_def is_secadm_def getRole_def)
qed

text \<open>The thread runs the handler of the call \<open>ShredFile\<close>, role check included.\<close>

definition run_thread :: "tb_env \<Rightarrow> tb \<Rightarrow> tb option option" where
  "run_thread env s =
     (case tb_threads s of
        [] \<Rightarrow> Some (Some s)
      | (caller, userSpace) # ts \<Rightarrow> shredFile env caller userSpace (s\<lparr>tb_threads := ts\<rparr>))"

text \<open>Removing one user with a hundred or more files in his home directory crashes the daemon: the call
  itself is answered with success, and the thread that shreds his mail and his files runs out of its list.\<close>

theorem removing_a_user_can_crash:
  assumes "is_secadm caller s" and "removable env user" and "tb_threads s = []"
    and "qm_value user (tb_osUserInfo s) = Some u" and "node_of (tb_fs s) (pw_dir u) = Some (DirNode es)"
    and "\<forall>e \<in> set es. \<not> is_dir (tb_fs s) (child (pw_dir u) e)" and "\<not> is_dir (tb_fs s) (''/var/spool/mail/'' @ user)"
  shows "Reply caller \<in> set (d_effects (removeUser env caller [user] s))
     \<and> (run_thread env (removeUser env caller [user] s) = Some None \<longleftrightarrow> 100 \<le> length es)"
proof -
  let ?s = "removeUser env caller [user] s" and ?mail = "''/var/spool/mail/'' @ user"
  have f: "filter (removable env) [user] \<noteq> []" using assms(2) by simp
  note rm = removeUser_thread [OF assms(1) f]
  have threads: "tb_threads ?s = [(caller, [?mail, pw_dir u])]" using rm(1) assms(2-4) by (simp add: user_space_def)
  let ?t = "?s\<lparr>tb_threads := []\<rparr>"
  have t: "tb_fs ?t = tb_fs s" "is_secadm caller ?t" using rm(2,3) by (simp_all add: is_secadm_def getRole_def)
  let ?files = "?mail # map (child (pw_dir u)) es"
  have "shred_loop env [?mail, pw_dir u] 0 2 [] [] ?t = shred_loop env [?mail, pw_dir u] 1 2 [] [] ?t"
    using loop_file [of 0 2 "[?mail, pw_dir u]" ?t env "[]" "[]"] assms(7) by (simp add: t(1))
  also have "\<dots> = shred_loop env ?files 1 (length ?files) [] [pw_dir u] ?t"
    using loop_dir [of 1 2 "[?mail, pw_dir u]" ?t es env "[]" "[]"] assms(5) by (simp add: t(1))
  also have "\<dots> = shred_loop env ?files 0 (length ?files) [] [pw_dir u] ?t"
    using loop_file [of 0 "length ?files" ?files ?t env "[]" "[pw_dir u]"] assms(7) by (simp add: t(1))
  finally have loop: "shred_loop env [?mail, pw_dir u] 0 2 [] [] ?t = shred_loop env ?files 0 (length ?files) [] [pw_dir u] ?t" .
  have "\<forall>p \<in> set ?files. \<not> is_dir (tb_fs ?t) p" using assms(6,7) by (simp add: t(1))
  from plain_limit(1) [OF this, of env "[pw_dir u]"]
  have "(\<exists>x. shred_loop env [?mail, pw_dir u] 0 2 [] [] ?t = Some (Inl x)) \<longleftrightarrow> 100 \<le> length es"
    unfolding loop by (simp add: less_eq_Suc_le)
  moreover have "run_thread env ?s = shredFile env caller [?mail, pw_dir u] ?t" by (simp add: run_thread_def threads)
  moreover have "shredFile env caller [?mail, pw_dir u] ?t = Some None \<longleftrightarrow> (\<exists>x. shred_loop env [?mail, pw_dir u] 0 2 [] [] ?t = Some (Inl x))"
    using t(2) by (auto simp: shredFile_def split_beta Let_def numeral_2_eq_2 split: option.splits sum.splits)
  moreover have "Reply caller \<in> set (d_effects ?s)"
    using assms(1,2) by (simp add: removeUser_def removable_def Let_def)
  ultimately show ?thesis by simp
qed

section \<open>Samples\<close>


text \<open>A database that reads the literals of a statement.\<close>

fun lits :: "bool \<Rightarrow> string \<Rightarrow> string \<Rightarrow> string list" where
  "lits inside acc [] = []"
| "lits False acc (c # cs) = lits (c = CHR 0x27) [] cs"
| "lits True acc (c # cs) = (if c = CHR 0x27 then rev acc # lits False [] cs else lits True (c # acc) cs)"

lemma lits_outside: "CHR 0x27 \<notin> set p \<Longrightarrow> lits False acc (p @ cs) = lits False (if p = [] then acc else []) cs"
  by (induction p arbitrary: acc) auto

lemma lits_inside: "CHR 0x27 \<notin> set x \<Longrightarrow> lits True acc (x @ CHR 0x27 # cs) = (rev acc @ x) # lits False [] cs"
  by (induction x arbitrary: acc) auto

lemma lits_join:
  "names \<noteq> [] \<Longrightarrow> \<forall>n \<in> set names. CHR 0x27 \<notin> set n \<Longrightarrow> CHR 0x27 \<notin> set sep
     \<Longrightarrow> lits True [] (join (CHR 0x27 # sep @ [CHR 0x27]) names @ CHR 0x27 # cs) = names @ lits False [] cs"
proof (induction "CHR 0x27 # sep @ [CHR 0x27]" names rule: join.induct)
  case (2 x)
  then show ?case by (simp add: lits_inside)
next
  case (3 x y xs)
  then show ?case by (simp add: lits_inside lits_outside split: if_splits)
qed simp

definition sample_db :: "string \<Rightarrow> tables \<Rightarrow> bool \<times> string list \<times> tables" where
  "sample_db cmd ts =
     (if hd cmd = CHR ''i'' then (True, [], set_rows ''fileSign'' (insert_all (lits False [] cmd)) ts)
      else if hd cmd = CHR ''d'' then (True, [], set_rows ''fileSign'' (filter (\<lambda>r. r \<notin> set (lits False [] cmd))) ts)
      else (True, case map_of ts ''fileSign'' of None \<Rightarrow> [] | Some rows \<Rightarrow> rows, ts))"

lemma sample_db_law: "sql_law (sample_te\<lparr>te_db := sample_db\<rparr>) ''fileSign''"
proof -
  have ins: "lits False [] (insert_rows ''fileSign'' names) = names" if "plain_names names" for names
    using that lits_join [of names "''), (''" "'');''"] by (simp add: insert_rows_def quote_def plain_names_def)
  have del: "lits False [] (delete_rows ''fileSign'' names) = names" if "plain_names names" for names
    using that lits_join [of names "'', ''" "'');''"] by (simp add: delete_rows_def quote_def plain_names_def)
  have kinds: "hd (insert_rows ''fileSign'' names) = CHR ''i''" "hd (delete_rows ''fileSign'' names) = CHR ''d''"
    "hd (select_rows ''fileSign'') = CHR ''s''" for names
    by (simp_all add: insert_rows_def delete_rows_def select_rows_def)
  show ?thesis by (simp add: sql_law_def sample_db_def kinds ins del)
qed

theorem security_sign_list_witness:
  "set (fst (GetObjListFromSecuritySign (sample_te\<lparr>te_db := sample_db\<rparr>)
     (AddObjToSecuritySign (sample_te\<lparr>te_db := sample_db\<rparr>) '':1.7'' [''/d/a'', ''/gone''] (sample_tb\<lparr>tb_tables := [(''fileSign'', [''/d/b''])]\<rparr>))))
     = {''/d/a'', ''/d/b''}"
proof -
  let ?s = "sample_tb\<lparr>tb_tables := [(''fileSign'', [''/d/b''])]\<rparr>"
  have "is_secadm '':1.7'' ?s" using sample_secadm by (simp add: is_secadm_def getRole_def)
  moreover have "object_exists (sample_te\<lparr>te_db := sample_db\<rparr>) ?s = (\<lambda>obj. obj \<in> {''/d'', ''/d/a'', ''/d/b''})"
    by (rule ext) (simp add: object_exists_def known_user_def sample_te_def path_exists_def node_of_def sample_tb_def)
  ultimately show ?thesis
    using security_sign_list [OF sample_db_law, of ?s "[''/d/b'']" "[''/d/a'', ''/gone'']" "'':1.7''"] by (auto simp: startsWith_def)
qed

theorem removing_a_user_can_crash_witness:
  "run_thread sample_te (removeUser sample_te '':1.7'' [''u'']
     (sample_tb\<lparr>tb_fs := [(''/home/u'', DirNode (replicate 100 ''f''))],
        tb_osUserInfo := [(''u'', \<lparr>pw_name = ''u'', pw_passwd = [], pw_uid = 1000, pw_gid = 1000, pw_gecos = [], pw_dir = ''/home/u'', pw_shell = []\<rparr>)]\<rparr>))
     = Some None"
proof -
  let ?u = "\<lparr>pw_name = ''u'', pw_passwd = [], pw_uid = 1000, pw_gid = 1000, pw_gecos = [], pw_dir = ''/home/u'', pw_shell = []\<rparr>"
  let ?s = "sample_tb\<lparr>tb_fs := [(''/home/u'', DirNode (replicate 100 ''f''))], tb_osUserInfo := [(''u'', ?u)]\<rparr>"
  have "is_secadm '':1.7'' ?s" using sample_secadm by (simp add: is_secadm_def getRole_def)
  moreover have "removable sample_te ''u''" by (simp add: removable_def sample_te_def)
  moreover have "\<not> is_dir (tb_fs ?s) p" if "p \<noteq> ''/home/u''" for p using that by (simp add: is_dir_def node_of_def)
  ultimately show ?thesis
    using removing_a_user_can_crash [of "'':1.7''" ?s sample_te "''u''" ?u "replicate 100 ''f''"]
    by (simp add: sample_tb_def qm_value_def node_of_def child_def)
qed

end
