(* ===== verification/RealTime.thy ===== *)
theory RealTime
  imports ToolBox
begin

text \<open>
  The alerts in real time, \<open>src/daemon/tool-box/realtime-alert.cpp\<close>: the records of the audit daemon, of
  which some raise an alert and have their process killed, and the addresses a firewall rule collects in
  a set, which raise an alert as port scans. What \<open>libauparse\<close> iterates over is given: the events, their
  records with a type, a time and fields.
\<close>

section \<open>State\<close>

record raw_record =
  rr_type_name :: "string option"
  rr_type :: int
  rr_time :: int
  rr_fields :: "(string \<times> string) list"

record AuditLogRecord =
  al_type :: string
  al_timeStamp :: int
  al_field :: "(string, string) qmap"

record rt = daemon +
  rt_notifier :: bool
  rt_timer :: bool
  rt_ipsetData :: string

record rt_env =
  re_execute :: "string \<Rightarrow> string list \<Rightarrow> int"
  re_socket :: bool                      \<comment> \<open>the socket of the audit daemon exists\<close>
  re_connected :: bool                   \<comment> \<open>and a connection to it can be made\<close>
  re_isodate :: "int \<Rightarrow> string"

section \<open>Start\<close>

definition rt_execute :: "rt_env \<Rightarrow> string \<Rightarrow> string list \<Rightarrow> rt \<Rightarrow> int \<times> rt" where
  "rt_execute env program arguments s = (re_execute env program arguments, act (Exec program arguments) s)"

definition initAuditReceiver :: "rt_env \<Rightarrow> rt \<Rightarrow> bool \<times> rt" where
  "initAuditReceiver env s =
     (let (_, s) = rt_execute env ''/usr/sbin/augenrules'' [''--load''] s
      in if \<not> re_socket env then (False, s)
         else if \<not> re_connected env then (False, s)
         else (True, s\<lparr>rt_notifier := True\<rparr>))"

definition iptables_rule :: "string \<Rightarrow> string list" where
  "iptables_rule c = [c, ''INPUT'', ''-p'', ''tcp'', ''--syn'', ''!'', ''--dport'', ''22'', ''-j'', ''SET'', ''--add-set'', ''ks-ssr-ip-set'', ''src'']"

definition initIPSetMonitor :: "rt_env \<Rightarrow> rt \<Rightarrow> bool \<times> rt" where
  "initIPSetMonitor env s =
     (let (_, s) = rt_execute env ''ipset'' [''create'', ''ks-ssr-ip-set'', ''hash:ip''] s;
          (_, s) = rt_execute env ''iptables'' (iptables_rule ''-D'') s;
          (code, s) = rt_execute env ''iptables'' (iptables_rule ''-A'') s
      in if code \<noteq> 0 then (False, s) else (True, s\<lparr>rt_timer := True\<rparr>))"

definition RealTimeAlert :: "rt_env \<Rightarrow> rt \<Rightarrow> rt" where
  "RealTimeAlert env s = snd (initIPSetMonitor env (snd (initAuditReceiver env s)))"

section \<open>Alerts\<close>

definition hazardDetected :: "int \<Rightarrow> string \<Rightarrow> rt \<Rightarrow> rt" where
  "hazardDetected type alertMsg s = act (EmitSignal ''HazardDetected'' alertMsg type) s"

definition secadm_log :: "string \<Rightarrow> rt \<Rightarrow> rt" where
  "secadm_log msg s = write_log \<lparr>l_name = ''secadm'', l_role = role_secadm, l_time = d_now s, l_type = log_TOOL_BOX,
     l_result = True, l_msg = msg\<rparr> s"

text \<open>A record of \<open>libauparse\<close>: a type without a name is shown as its number, a field that comes twice keeps
  its last value.\<close>

definition parse_record :: "raw_record \<Rightarrow> AuditLogRecord" where
  "parse_record r = \<lparr>al_type = (case rr_type_name r of Some t \<Rightarrow> t | None \<Rightarrow> show_int (rr_type r)), al_timeStamp = rr_time r,
     al_field = fold (\<lambda>(k, v). qm_insert k v) (rr_fields r) []\<rparr>"

definition parserAudit :: "raw_record list list \<Rightarrow> AuditLogRecord list list" where
  "parserAudit events = map (map parse_record) events"

definition field_value :: "string \<Rightarrow> AuditLogRecord \<Rightarrow> string" where
  "field_value k r = (case qm_value k (al_field r) of None \<Rightarrow> [] | Some v \<Rightarrow> v)"

text \<open>The audit line of an access decision: its result is that of the system call seen before it.\<close>

definition avc_log :: "rt_env \<Rightarrow> AuditLogRecord \<Rightarrow> (string, (string, string) qmap) qmap \<Rightarrow> rt \<Rightarrow> rt" where
  "avc_log env r allAuditRecordMap s =
     write_log \<lparr>l_name = ''audadm'', l_role = role_audadm, l_time = al_timeStamp r, l_type = log_AVC,
       l_result = (case qm_value ''SYSCALL'' allAuditRecordMap of None \<Rightarrow> False | Some f \<Rightarrow> qm_value ''success'' f = Some ''yes''),
       l_msg = ''TimeStamp='' @ re_isodate env (al_timeStamp r) @ '','' @ join '','' (map (\<lambda>(k, v). k @ ''='' @ v) (al_field r))\<rparr> s"

definition alert_msg :: "AuditLogRecord \<Rightarrow> string" where
  "alert_msg r = ''uid='' @ field_value ''uid'' r @ '', exe='' @ field_value ''exe'' r @ '', syscall='' @ field_value ''syscall'' r"

text \<open>The records of one event: every path through the body of the loop ends it, but for a system call
  without the keyword.\<close>

fun audit_event ::
    "rt_env \<Rightarrow> (string, (string, string) qmap) qmap \<Rightarrow> AuditLogRecord list \<Rightarrow> rt \<Rightarrow> string list \<times> rt" where
  "audit_event env m [] s = ([], s)"
| "audit_event env m (r # rs) s =
     (let m = qm_insert (al_type r) (al_field r) m;
          s = (if contains (al_type r) ''AVC'' then avc_log env r m s else s)
      in if al_type r = ''SYSCALL''
         then if \<not> qm_contains ''key'' (al_field r) then audit_event env m rs s
              else if \<not> contains (field_value ''key'' r) ''(ks-ssr)'' then audit_event env m rs s
              else ([alert_msg r], act (Kill (toInt (field_value ''pid'' r))) s)
         else ([], s))"

fun audit_events :: "rt_env \<Rightarrow> AuditLogRecord list list \<Rightarrow> rt \<Rightarrow> string list \<times> rt" where
  "audit_events env [] s = ([], s)"
| "audit_events env (e # es) s =
     (let (alertMsgList, s) = audit_event env [] e s
      in if alertMsgList \<noteq> [] then (alertMsgList, s) else audit_events env es s)"

text \<open>What the socket gives, or nothing when it cannot be read.\<close>

definition processAuditData :: "rt_env \<Rightarrow> raw_record list list option \<Rightarrow> rt \<Rightarrow> rt" where
  "processAuditData env data s =
     (case data of
        None \<Rightarrow> s
      | Some events \<Rightarrow>
          (let (alertMsgList, s) = audit_events env (parserAudit events) s
           in if alertMsgList = [] then s
              else secadm_log (''Detected hazard behavior! msg:'' @ join '','' alertMsgList)
                     (hazardDetected 0 (join '','' alertMsgList) s)))"

section \<open>Port scans\<close>

definition getIPSetData :: "string \<Rightarrow> rt \<Rightarrow> rt" where
  "getIPSetData output s = s\<lparr>rt_ipsetData := output\<rparr>"

definition attackers :: "string \<Rightarrow> string list" where
  "attackers ipsetData =
     filter (\<lambda>ip. \<not> (ip = ''127.0.0.1'' \<or> ip = ''localhost''))
       (map (mid (length ''add ks-ssr-ip-set '')) (filter (\<lambda>line. startsWith line ''add ks-ssr-ip-set '') (split ipsetData [CHR 0x0A])))"

text \<open>A tick of the timer; the slot \<open>getIPSetData\<close> runs while the program is waited for, unless it does not
  start.\<close>

definition processIPSetData :: "string option \<Rightarrow> rt \<Rightarrow> rt" where
  "processIPSetData output s =
     (let s = act (Exec ''ipset'' [''list'', ''ks-ssr-ip-set'', ''-o'', ''save'']) s;
          s = (case output of None \<Rightarrow> s | Some d \<Rightarrow> getIPSetData d s);
          nmapAttackers = attackers (rt_ipsetData s);
          ips = join '','' nmapAttackers
      in if rt_ipsetData s = [] then s
         else if nmapAttackers = [] then s
         else act (Exec ''ipset'' [''flush'', ''ks-ssr-ip-set''])
                ((secadm_log (''Detected nmap attack! attacker ip:'' @ ips)
                   (hazardDetected 1 (''Detect nmap attack from '' @ ips) s))\<lparr>rt_ipsetData := []\<rparr>))"

section \<open>Which records raise an alert\<close>

definition alarming :: "AuditLogRecord \<Rightarrow> bool" where
  "alarming r \<longleftrightarrow> al_type r = ''SYSCALL'' \<and> qm_contains ''key'' (al_field r) \<and> contains (field_value ''key'' r) ''(ks-ssr)''"

definition passed_over :: "AuditLogRecord \<Rightarrow> bool" where
  "passed_over r \<longleftrightarrow> al_type r = ''SYSCALL'' \<and> \<not> alarming r"

text \<open>Only the first record that is not passed over counts.\<close>

definition event_alarm :: "AuditLogRecord list \<Rightarrow> AuditLogRecord option" where
  "event_alarm e = (case dropWhile passed_over e of [] \<Rightarrow> None | r # _ \<Rightarrow> if alarming r then Some r else None)"

definition first_alarm :: "AuditLogRecord list list \<Rightarrow> AuditLogRecord option" where
  "first_alarm es = (case List.map_filter event_alarm es of [] \<Rightarrow> None | r # _ \<Rightarrow> Some r)"

lemma avc_log_effects [simp]: "d_effects (avc_log env r m s) = d_effects s"
  by (simp add: avc_log_def)

lemma secadm_log_effects [simp]: "d_effects (secadm_log m s) = d_effects s"
  by (simp add: secadm_log_def)

lemma audit_event_alarm:
  "fst (audit_event env m e s) = (case event_alarm e of None \<Rightarrow> [] | Some r \<Rightarrow> [alert_msg r])
   \<and> d_effects (snd (audit_event env m e s)) =
       d_effects s @ (case event_alarm e of None \<Rightarrow> [] | Some r \<Rightarrow> [Kill (toInt (field_value ''pid'' r))])"
proof (induction env m e s rule: audit_event.induct)
  case (1 env m s)
  show ?case by (simp add: event_alarm_def)
next
  case (2 env m r rs s)
  consider "al_type r \<noteq> ''SYSCALL''" | "passed_over r" | "alarming r" by (auto simp: passed_over_def)
  then show ?case
  proof cases
    case 1
    then have "\<not> passed_over r" "\<not> alarming r" by (simp_all add: passed_over_def alarming_def)
    with 1 show ?thesis by (simp add: event_alarm_def Let_def)
  next
    case p: 2
    then have "\<not> qm_contains ''key'' (al_field r) \<or> \<not> contains (field_value ''key'' r) ''(ks-ssr)''" "al_type r = ''SYSCALL''"
      by (auto simp: passed_over_def alarming_def)
    moreover have "event_alarm (r # rs) = event_alarm rs" using p by (simp add: event_alarm_def)
    ultimately show ?thesis using "2.IH" by (auto simp: Let_def)
  next
    case 3
    then have "event_alarm (r # rs) = Some r" by (simp add: event_alarm_def passed_over_def)
    with 3 show ?thesis by (simp add: alarming_def Let_def)
  qed
qed

lemma audit_events_alarm:
  "fst (audit_events env es s) = (case first_alarm es of None \<Rightarrow> [] | Some r \<Rightarrow> [alert_msg r])
   \<and> d_effects (snd (audit_events env es s)) =
       d_effects s @ (case first_alarm es of None \<Rightarrow> [] | Some r \<Rightarrow> [Kill (toInt (field_value ''pid'' r))])"
proof (induction es arbitrary: s)
  case (Cons e es)
  obtain a t where t: "audit_event env [] e s = (a, t)" by (cases "audit_event env [] e s")
  have f: "first_alarm (e # es) = (case event_alarm e of None \<Rightarrow> first_alarm es | Some r \<Rightarrow> Some r)"
    by (simp add: first_alarm_def map_filter_simps split: option.split)
  show ?case using audit_event_alarm [of env "[]" e s] Cons.IH [of t]
    by (cases "event_alarm e") (simp_all add: t f)
qed (simp add: first_alarm_def map_filter_simps)

text \<open>One reading of the audit socket kills and reports at most one process: that of the first event whose first
  record, not counting system calls without the keyword, is a system call with it. Everything after that
  record, and every event behind another record, raises no alert.\<close>

theorem audit_alert:
  "d_effects (processAuditData env (Some events) s) = d_effects s @
     (case first_alarm (parserAudit events) of
        None \<Rightarrow> []
      | Some r \<Rightarrow> [Kill (toInt (field_value ''pid'' r)), EmitSignal ''HazardDetected'' (alert_msg r) 0])"
proof -
  obtain a t where t: "audit_events env (parserAudit events) s = (a, t)" by (cases "audit_events env (parserAudit events) s")
  show ?thesis
    using audit_events_alarm [of env "parserAudit events" s]
    by (cases "first_alarm (parserAudit events)") (simp_all add: processAuditData_def t hazardDetected_def)
qed

text \<open>An access decision that comes first in its event, as the audit daemon sends it, is logged as failed
  whatever its system call says.\<close>

lemma avc_first_is_logged_failed:
  assumes "contains (al_type r) ''AVC''" and "al_type r \<noteq> ''SYSCALL''"
  shows "\<exists>l. snd (audit_event env [] (r # rs) s) = write_log l s \<and> \<not> l_result l"
  using assms by (auto simp: avc_log_def qm_value_def Let_def)

text \<open>The addresses of a port scan are reported once: a tick that finds some reports exactly those the set holds,
  but for the machine's own, empties the set and forgets what it read, and a later tick that reads nothing
  new only asks again.\<close>

theorem port_scans_reported_once:
  assumes "attackers d \<noteq> []"
  shows "d_effects (processIPSetData (Some d) s) = d_effects s @
       [Exec ''ipset'' [''list'', ''ks-ssr-ip-set'', ''-o'', ''save''],
        EmitSignal ''HazardDetected'' (''Detect nmap attack from '' @ join '','' (attackers d)) 1,
        Exec ''ipset'' [''flush'', ''ks-ssr-ip-set'']]
     \<and> set (attackers d) = {ip. ''add ks-ssr-ip-set '' @ ip \<in> set (split d [CHR 0x0A])} - {''127.0.0.1'', ''localhost''}
     \<and> (\<forall>again \<in> {None, Some []}. d_effects (processIPSetData again (processIPSetData (Some d) s)) =
          d_effects (processIPSetData (Some d) s) @ [Exec ''ipset'' [''list'', ''ks-ssr-ip-set'', ''-o'', ''save'']])"
proof -
  let ?key = "''add ks-ssr-ip-set ''" and ?s = "processIPSetData (Some d) s"
  have "d \<noteq> []"
  proof
    assume "d = []"
    then have "attackers d = []" by (simp add: attackers_def split_def startsWith_def)
    with assms show False by simp
  qed
  with assms have eq: "d_effects ?s = d_effects s @
       [Exec ''ipset'' [''list'', ''ks-ssr-ip-set'', ''-o'', ''save''],
        EmitSignal ''HazardDetected'' (''Detect nmap attack from '' @ join '','' (attackers d)) 1,
        Exec ''ipset'' [''flush'', ''ks-ssr-ip-set'']]" "rt_ipsetData ?s = []"
    by (simp_all add: processIPSetData_def Let_def getIPSetData_def hazardDetected_def act_def secadm_log_def write_log_def)
  have "ip \<in> set (map (mid (length ?key)) (filter (\<lambda>line. startsWith line ?key) ls)) \<longleftrightarrow> ?key @ ip \<in> set ls" for ip ls
    by (induction ls) (auto simp: startsWith_def prefix_def mid_def)
  then have "set (attackers d) = {ip. ?key @ ip \<in> set (split d [CHR 0x0A])} - {''127.0.0.1'', ''localhost''}"
    unfolding attackers_def set_filter by blast
  moreover have "d_effects (processIPSetData again ?s) = d_effects ?s @ [Exec ''ipset'' [''list'', ''ks-ssr-ip-set'', ''-o'', ''save'']]"
    if "again \<in> {None, Some []}" for again
    using that eq(2) by (auto simp: processIPSetData_def Let_def getIPSetData_def act_def)
  ultimately show ?thesis using eq(1) by blast
qed

theorem port_scans_reported_once_witness:
  "set (attackers (''create x'' @ [CHR 0x0A] @ ''add ks-ssr-ip-set 10.0.0.9'')) = {''10.0.0.9''}"
proof -
  let ?d = "''create x'' @ [CHR 0x0A] @ ''add ks-ssr-ip-set 10.0.0.9''"
  have lines: "split ?d [CHR 0x0A] = [''create x'', ''add ks-ssr-ip-set 10.0.0.9'']" by code_simp
  have "attackers ?d \<noteq> []" by code_simp
  then have "set (attackers ?d) = {ip. ''add ks-ssr-ip-set '' @ ip \<in> set (split ?d [CHR 0x0A])} - {''127.0.0.1'', ''localhost''}"
    using port_scans_reported_once by blast
  then show ?thesis unfolding lines by auto
qed

end
