(* ===== verification/KSS.thy ===== *)
theory KSS
  imports PolkitGate
begin

text \<open>
  The trusted protection, \<open>src/daemon/kss/\<close>: \<open>wrapper.cpp\<close> runs the program \<open>kss\<close> through one shell
  process it keeps, \<open>dbus.cpp\<close> offers its commands over D-Bus.

  \<open>kss_env\<close> is what the outside answers: \<open>ke_out past n\<close> is the output and the error output of the last
  command of \<open>past\<close> when it ends within the \<open>n\<close>-th minute it is waited for, and \<open>None\<close> while it still runs;
  \<open>ke_fromJson\<close> and \<open>ke_toJson\<close> are \<open>QJsonDocument\<close>'s reader (\<open>None\<close> the null document) and writer, \<open>ke_time\<close>
  the format of a time. The shell itself can always be started. JSON numbers are integers.
\<close>

abbreviation (input) "log_TRUSTED_PROTECTION \<equiv> (8 :: log_type)"
abbreviation (input) "log_FILES_PROTECTION \<equiv> (16 :: log_type)"

section \<open>State\<close>

text \<open>The commands started so far, the number of minutes the running one has been waited for, what the
  last one that ended printed, and the settings.\<close>

record ks = daemon +
  ks_ran :: "string list"
  ks_running :: "nat option"
  ks_processOutput :: string
  ks_errorOutput :: string
  ks_ini :: qsettings
  ks_initThread :: bool

record kss_env =
  ke_out :: "string list \<Rightarrow> nat \<Rightarrow> (string \<times> string) option"
  ke_fromJson :: "string \<Rightarrow> json option"
  ke_toJson :: "json \<Rightarrow> string"
  ke_time :: "int \<Rightarrow> string"

section \<open>JSON\<close>

fun j_object :: "json \<Rightarrow> (string \<times> json) list" where
  "j_object (JObj kvs) = kvs"
| "j_object _ = []"

definition j_value :: "string \<Rightarrow> (string \<times> json) list \<Rightarrow> json" where
  "j_value k kvs = (case map_of kvs k of None \<Rightarrow> JNull | Some v \<Rightarrow> v)"

fun j_array :: "json \<Rightarrow> json list" where
  "j_array (JArr vs) = vs"
| "j_array _ = []"

fun j_string :: "json \<Rightarrow> string" where
  "j_string (JStr t) = t"
| "j_string _ = []"

fun j_int :: "json \<Rightarrow> int" where
  "j_int (JInt i) = i"
| "j_int _ = 0"

text \<open>The entries of a list \<open>kss\<close> prints, and the fields of an entry the code looks at.\<close>

definition entries :: "json \<Rightarrow> (string \<times> json) list list" where
  "entries doc = map j_object (j_array (j_value ''data'' (j_object doc)))"

definition entry_path :: "(string \<times> json) list \<Rightarrow> string" where
  "entry_path e = j_string (j_value ''path'' e)"

definition entry_guard :: "(string \<times> json) list \<Rightarrow> int" where
  "entry_guard e = j_int (j_value ''guard'' e)"

section \<open>The shell\<close>

text \<open>\<open>processExited\<close> and \<open>execute\<close>: a process that still runs is not started again, only waited for one
  more minute.\<close>

definition processExited :: "string \<times> string \<Rightarrow> ks \<Rightarrow> ks" where
  "processExited out s = s\<lparr>ks_running := None, ks_processOutput := fst out, ks_errorOutput := snd out\<rparr>"

definition wait_finished :: "kss_env \<Rightarrow> nat \<Rightarrow> ks \<Rightarrow> ks" where
  "wait_finished env n s =
     (case ke_out env (ks_ran s) n of None \<Rightarrow> s\<lparr>ks_running := Some (Suc n)\<rparr> | Some out \<Rightarrow> processExited out s)"

definition execute :: "kss_env \<Rightarrow> string \<Rightarrow> ks \<Rightarrow> ks" where
  "execute env cmd s =
     (case ks_running s of
        None \<Rightarrow> wait_finished env 0 (act (Exec ''bash'' [''-c'', cmd]) (s\<lparr>ks_ran := ks_ran s @ [cmd]\<rparr>))
      | Some n \<Rightarrow> wait_finished env n s)"

definition getInitialized :: "ks \<Rightarrow> int" where
  "getInitialized s = v_toInt (s_value ''ssr'' ''initialized'' (ks_ini s))"

section \<open>The commands\<close>

definition quoted :: "string \<Rightarrow> string" where
  "quoted t = [CHR 0x27] @ t @ [CHR 0x27]"

definition run_if_initialized :: "kss_env \<Rightarrow> string \<Rightarrow> ks \<Rightarrow> ks" where
  "run_if_initialized env cmd s = (if getInitialized s = 0 then s else execute env cmd s)"

definition output_if_initialized :: "kss_env \<Rightarrow> string \<Rightarrow> ks \<Rightarrow> string \<times> ks" where
  "output_if_initialized env cmd s =
     (if getInitialized s = 0 then ([], s) else let s = execute env cmd s in (ks_processOutput s, s))"

definition scan_cmd :: "string \<Rightarrow> string" where
  "scan_cmd filePath = ''kss digest scan -u '' @ quoted filePath"

definition scan_list_cmd :: "string \<Rightarrow> string" where
  "scan_list_cmd json = ''kss digest scan -u -j '' @ quoted json"

definition addTrustedFile :: "kss_env \<Rightarrow> string \<Rightarrow> ks \<Rightarrow> string \<times> ks" where
  "addTrustedFile env filePath s = output_if_initialized env (scan_cmd filePath) s"

definition addTrustedFiles :: "kss_env \<Rightarrow> string \<Rightarrow> ks \<Rightarrow> string \<times> ks" where
  "addTrustedFiles env json s = output_if_initialized env (scan_list_cmd json) s"

text \<open>\<open>SSRKSSTrustedFileType\<close>: 0 the executables, 1 the kernel modules, 2 none; D-Bus hands over any number,
  and every other number is taken for the kernel modules.\<close>

definition info_cmd :: "nat \<Rightarrow> string" where
  "info_cmd type = (if type = 0 then ''kss digest info -e'' else ''kss digest info -m'')"

definition getTrustedFiles :: "kss_env \<Rightarrow> nat \<Rightarrow> ks \<Rightarrow> string \<times> ks" where
  "getTrustedFiles env type s = (if type = 2 then ([], s) else output_if_initialized env (info_cmd type) s)"

definition guard_cmd :: "bool \<Rightarrow> string \<Rightarrow> string" where
  "guard_cmd prohibited filePath =
     (if prohibited then ''kss kmod add --path'' else ''kss kmod del --path'') @ '' '' @ filePath"

definition prohibitUnloading :: "kss_env \<Rightarrow> bool \<Rightarrow> string \<Rightarrow> ks \<Rightarrow> ks" where
  "prohibitUnloading env prohibited filePath s = execute env (guard_cmd prohibited filePath) s"

text \<open>The guards of the modules a removal concerns are taken off first.\<close>

definition unguard :: "kss_env \<Rightarrow> (string \<Rightarrow> bool) \<Rightarrow> (string \<times> json) list list \<Rightarrow> ks \<Rightarrow> ks" where
  "unguard env concerned es s =
     fold (\<lambda>e s. if \<not> concerned (entry_path e) then s
                 else if entry_guard e = 0 then s
                 else prohibitUnloading env False (entry_path e) s) es s"

definition remove_trusted :: "kss_env \<Rightarrow> (string \<Rightarrow> bool) \<Rightarrow> string \<Rightarrow> ks \<Rightarrow> ks" where
  "remove_trusted env concerned cmd s =
     (if getInitialized s = 0 then s
      else let (text, s) = getTrustedFiles env 1 s
           in case ke_fromJson env text of
                None \<Rightarrow> s
              | Some doc \<Rightarrow> execute env cmd (unguard env concerned (entries doc) s))"

definition removeTrustedFile :: "kss_env \<Rightarrow> string \<Rightarrow> ks \<Rightarrow> ks" where
  "removeTrustedFile env filePath s =
     remove_trusted env (\<lambda>p. filePath = p) (''kss digest scan -f -r '' @ quoted filePath) s"

definition removeTrustedFiles :: "kss_env \<Rightarrow> string \<Rightarrow> ks \<Rightarrow> ks" where
  "removeTrustedFiles env json s =
     remove_trusted env (contains json) (''kss digest scan -r -j '' @ quoted json) s"

text \<open>\<open>SSRKSSTrustedStorageType\<close>: 0 soft, 1 hard, 2 none, and again any number; the result is an error text.\<close>

definition setStorageMode :: "kss_env \<Rightarrow> nat \<Rightarrow> string \<Rightarrow> ks \<Rightarrow> string \<times> ks" where
  "setStorageMode env type userPin s =
     (if getInitialized s = 0 \<or> type = 2 then (''Failed to set storage mode'', s)
      else let s = execute env ((if type = 0 then ''kss secure tcm -s -p'' else ''kss secure tcm -p'') @ '' '' @ userPin) s
           in (ks_errorOutput s, s))"

definition getCurrentStorageMode :: "kss_env \<Rightarrow> ks \<Rightarrow> nat \<times> ks" where
  "getCurrentStorageMode env s =
     (let s = execute env ''kss card info'' s
      in (if trimmed (ks_processOutput s) = ''Software Backend'' then 0 else 1, s))"

definition setTrustedStatus :: "kss_env \<Rightarrow> bool \<Rightarrow> ks \<Rightarrow> ks" where
  "setTrustedStatus env status s =
     run_if_initialized env (''kss secure set-status '' @ (if status then ''-s'' else ''-l'')) s"

definition getTrustedStatus :: "kss_env \<Rightarrow> ks \<Rightarrow> string \<times> ks" where
  "getTrustedStatus env s = (let s = execute env ''kss secure get-status'' s in (ks_processOutput s, s))"

definition addFile :: "kss_env \<Rightarrow> string \<Rightarrow> string \<Rightarrow> string \<Rightarrow> ks \<Rightarrow> ks" where
  "addFile env name filePath insertTime s =
     run_if_initialized env (''kss file add -n '' @ quoted name @ '' -p '' @ quoted filePath @ '' -t '' @ quoted insertTime) s"

definition addFiles :: "kss_env \<Rightarrow> string \<Rightarrow> ks \<Rightarrow> ks" where
  "addFiles env json s = run_if_initialized env (''kss file add -j '' @ quoted json) s"

definition removeFile :: "kss_env \<Rightarrow> string \<Rightarrow> ks \<Rightarrow> ks" where
  "removeFile env filePath s = run_if_initialized env (''kss file del -p '' @ quoted filePath) s"

definition removeFiles :: "kss_env \<Rightarrow> string \<Rightarrow> ks \<Rightarrow> ks" where
  "removeFiles env json s = run_if_initialized env (''kss file del -j '' @ quoted json) s"

definition getFiles :: "kss_env \<Rightarrow> ks \<Rightarrow> string \<times> ks" where
  "getFiles env s = output_if_initialized env ''kss file info'' s"

section \<open>Initialisation\<close>

text \<open>The data are set up in a thread with a process of its own; whatever comes of it, its end marks the
  trusted protection as initialised.\<close>

definition KSS_DEFAULT_USER_PIN :: string where
  "KSS_DEFAULT_USER_PIN = ''123123''"

definition wrapper_init :: "kss_env \<Rightarrow> ks \<Rightarrow> ks" where
  "wrapper_init env s =
     (if getInitialized s \<noteq> 0 then s
      else (execute env (''kss card deploy -p '' @ KSS_DEFAULT_USER_PIN) s)\<lparr>ks_initThread := True\<rparr>)"

definition init_thread :: "ks \<Rightarrow> ks" where
  "init_thread s = act (Exec ''bash'' [''-c'', ''kss secure setup /boot/vmlinuz-`uname -r`'']) s"

definition initTrustedResults :: "ks \<Rightarrow> ks" where
  "initTrustedResults s =
     act (EmitSignal ''InitFinished'' [] 0)
       (s\<lparr>ks_ini := s_setValue ''ssr'' ''initialized'' (VInt 1) (ks_ini s), ks_initThread := False\<rparr>)"

end
