(* ===== verification/KssDBus.thy ===== *)
theory KssDBus
  imports KSS
begin

text \<open>
  \<open>src/daemon/kss/dbus.cpp\<close>: the methods of the trusted protection, the eleven that change something behind
  polkit, and what they promise. A handler gives \<open>None\<close> where the code reads the first path of an
  empty list.
\<close>

section \<open>Replies\<close>

definition ks_error :: "log_type \<Rightarrow> string \<Rightarrow> string \<Rightarrow> SSRErrorCode \<Rightarrow> ks \<Rightarrow> ks" where
  "ks_error t caller msg code s = act (ReplyError caller code) (SSR_LOG_ERROR t msg caller s)"

definition ks_success :: "log_type \<Rightarrow> string \<Rightarrow> string \<Rightarrow> ks \<Rightarrow> ks" where
  "ks_success t caller msg s = act (Reply caller) (SSR_LOG_SUCCESS t msg caller s)"

definition TrustedFilesChange :: "ks \<Rightarrow> ks" where
  "TrustedFilesChange s = act (EmitSignal ''TrustedFilesChange'' [] 0) s"

definition ProtectedFilesChange :: "ks \<Rightarrow> ks" where
  "ProtectedFilesChange s = act (EmitSignal ''ProtectedFilesChange'' [] 0) s"

section \<open>Files\<close>

text \<open>\<open>QFileInfo::suffix\<close>: what follows the last dot of the file name.\<close>

definition file_suffix :: "string \<Rightarrow> string" where
  "file_suffix f = (let n = fileName f
     in if CHR ''.'' \<in> set n then rev (takeWhile (\<lambda>c. c \<noteq> CHR ''.'') (rev n)) else [])"

definition is_kernel_file :: "string \<Rightarrow> bool" where
  "is_kernel_file f \<longleftrightarrow> file_suffix f = ''ko'' \<or> file_suffix f = ''ko.xz''"

definition kss_list :: "json list \<Rightarrow> json" where
  "kss_list vs = JObj [(''res'', JInt 0), (''count'', JInt (int (length vs))), (''data'', JArr vs)]"

definition fileProtectedListToJsonDocument :: "kss_env \<Rightarrow> string list \<Rightarrow> ks \<Rightarrow> json" where
  "fileProtectedListToJsonDocument env fileList s =
     kss_list (map (\<lambda>p. JObj [(''name'', JStr (fileName p)), (''path'', JStr p), (''time'', JStr (ke_time env (d_now s)))]) fileList)"

definition trustedProtectedListToJsonDocument :: "string list \<Rightarrow> json" where
  "trustedProtectedListToJsonDocument fileList =
     kss_list (map (\<lambda>p. JObj [(''path'', JStr p), (''ftype'', JInt 0), (''status'', JInt 0), (''hash'', JStr []), (''guard'', JInt 0)]) fileList)"

section \<open>Trusted files\<close>

text \<open>What the output of an addition is taken for.\<close>

definition added :: "kss_env \<Rightarrow> string \<Rightarrow> SSRErrorCode" where
  "added env output =
     (case ke_fromJson env output of
        None \<Rightarrow> ERROR_FAILED
      | Some doc \<Rightarrow> if j_int (j_value ''count'' (j_object doc)) = 0 then ERROR_TP_ADD_INVALID_FILE else SUCCESS)"

definition addTPFileAfterAuthorization :: "kss_env \<Rightarrow> string \<Rightarrow> string \<Rightarrow> ks \<Rightarrow> ks" where
  "addTPFileAfterAuthorization env caller filePath s =
     (let isKernelFile = is_kernel_file filePath;
          failed = (if isKernelFile then ''Failed to add kernel files,'' else ''Failed to add execute files,'')
      in if filePath = [] then ks_error log_TRUSTED_PROTECTION caller (failed @ '' file path is empty.'') ERROR_COMMON_INVALID_ARGS s
         else let (output, s) = addTrustedFile env filePath s
              in if added env output \<noteq> SUCCESS
                 then ks_error log_TRUSTED_PROTECTION caller (failed @ ''Internal error!'') (added env output) s
                 else ks_success log_TRUSTED_PROTECTION caller
                        ((if isKernelFile then ''Add kernel files successed. files path is ''
                          else ''Add execute files successed. files path is '') @ filePath) (TrustedFilesChange s))"

definition addTPFilesAfterAuthorization :: "kss_env \<Rightarrow> string \<Rightarrow> string list \<Rightarrow> ks \<Rightarrow> ks option" where
  "addTPFilesAfterAuthorization env caller fileList s =
     (case fileList of
        [] \<Rightarrow> None
      | first # _ \<Rightarrow>
          Some (let isKernelFiles = is_kernel_file first;
                    failed = (if isKernelFiles then ''Failed to add kernel file list'' else ''Failed to add execute file list'')
                in if fileList = []
                   then ks_error log_TRUSTED_PROTECTION caller (failed @ '',file path is empty.'') ERROR_COMMON_INVALID_ARGS s
                   else let (output, s) = addTrustedFiles env (ke_toJson env (trustedProtectedListToJsonDocument fileList)) s
                        in if added env output \<noteq> SUCCESS
                           then ks_error log_TRUSTED_PROTECTION caller
                                  (failed @ (if added env output = ERROR_FAILED then '','' else ''.'') @ ''Internal error!'')
                                  (added env output) s
                           else ks_success log_TRUSTED_PROTECTION caller
                                  ((if isKernelFiles then ''Add kernel files successed.'' else ''Add execute files successed.'')
                                   @ '' file path is '' @ join '', '' fileList) (TrustedFilesChange s)))"

definition removeTPFileAfterAuthorization :: "kss_env \<Rightarrow> string \<Rightarrow> string \<Rightarrow> ks \<Rightarrow> ks" where
  "removeTPFileAfterAuthorization env caller filePath s =
     (let isKernelFile = is_kernel_file filePath
      in if filePath = []
         then ks_error log_TRUSTED_PROTECTION caller
                ((if isKernelFile then ''Failed to remove kernel file,'' else ''Failed to remove execute file,'') @ ''file path is empty.'')
                ERROR_COMMON_INVALID_ARGS s
         else ks_success log_TRUSTED_PROTECTION caller
                ((if isKernelFile then ''Remove kernel file. files path is '' else ''Remove execute file. files path is '') @ filePath)
                (TrustedFilesChange (removeTrustedFile env filePath s)))"

definition removeTPFilesAfterAuthorization :: "kss_env \<Rightarrow> string \<Rightarrow> string list \<Rightarrow> ks \<Rightarrow> ks option" where
  "removeTPFilesAfterAuthorization env caller fileList s =
     (case fileList of
        [] \<Rightarrow> None
      | first # _ \<Rightarrow>
          Some (let isKernelFiles = is_kernel_file first
                in if fileList = []
                   then ks_error log_TRUSTED_PROTECTION caller
                          ((if isKernelFiles then ''Failed to remove kernel file list.'' else ''Failed to remove execute file list.'')
                           @ '' file path is empty.'') ERROR_COMMON_INVALID_ARGS s
                   else ks_success log_TRUSTED_PROTECTION caller
                          ((if isKernelFiles then ''Remove kernel file successed.'' else ''Remove execute file successed.'')
                           @ '' file path is '' @ join '', '' fileList)
                          (TrustedFilesChange (removeTrustedFiles env (ke_toJson env (trustedProtectedListToJsonDocument fileList)) s))))"

definition prohibitUnloadingAfterAuthorization :: "kss_env \<Rightarrow> string \<Rightarrow> bool \<Rightarrow> string \<Rightarrow> ks \<Rightarrow> ks" where
  "prohibitUnloadingAfterAuthorization env caller prohibited filePath s =
     (if filePath = []
      then ks_error log_TRUSTED_PROTECTION caller ''Failed to prohibit unloading. file path is empty'' ERROR_COMMON_INVALID_ARGS s
      else ks_success log_TRUSTED_PROTECTION caller
             ((if prohibited then ''open'' else ''close'') @ '' prohibit unloading. file path is '' @ filePath)
             (prohibitUnloading env prohibited filePath s))"

section \<open>Protected files\<close>

definition checkFPDuplicateFiles :: "kss_env \<Rightarrow> string \<Rightarrow> string \<Rightarrow> ks \<Rightarrow> bool \<times> ks" where
  "checkFPDuplicateFiles env caller filePath s =
     (let (text, s) = getFiles env s
      in case ke_fromJson env text of
           None \<Rightarrow> (False, act (ReplyError caller ERROR_FAILED) s)
         | Some doc \<Rightarrow>
             if list_ex (\<lambda>e. entry_path e = filePath) (entries doc)
             then (False, act (ReplyError caller ERROR_TP_ADD_RECUR_FILE) s) else (True, s))"

definition addFPFileAfterAuthorization :: "kss_env \<Rightarrow> string \<Rightarrow> string \<Rightarrow> ks \<Rightarrow> ks" where
  "addFPFileAfterAuthorization env caller filePath s =
     (if filePath = []
      then ks_error log_FILES_PROTECTION caller ''Failed to add files protection, file path is empty'' ERROR_COMMON_INVALID_ARGS s
      else case checkFPDuplicateFiles env caller filePath s of
             (False, s) \<Rightarrow> SSR_LOG_ERROR log_FILES_PROTECTION (''Failed to add files protection. file path is '' @ filePath) caller s
           | (True, s) \<Rightarrow>
               ks_success log_FILES_PROTECTION caller (''Add files protection. file path is '' @ filePath)
                 (ProtectedFilesChange (addFile env (fileName filePath) filePath (ke_time env (d_now s)) s)))"

definition addFPFilesAfterAuthorization :: "kss_env \<Rightarrow> string \<Rightarrow> string list \<Rightarrow> ks \<Rightarrow> ks" where
  "addFPFilesAfterAuthorization env caller fileList s =
     (if fileList = []
      then ks_error log_FILES_PROTECTION caller ''Failed to add files protection, file path is empty.'' ERROR_COMMON_INVALID_ARGS s
      else ks_success log_FILES_PROTECTION caller (''Add files protection, file path is '' @ join '', '' fileList)
             (ProtectedFilesChange (addFiles env (ke_toJson env (fileProtectedListToJsonDocument env fileList s)) s)))"

definition removeFPFileAfterAuthorization :: "kss_env \<Rightarrow> string \<Rightarrow> string \<Rightarrow> ks \<Rightarrow> ks" where
  "removeFPFileAfterAuthorization env caller filePath s =
     (if filePath = []
      then ks_error log_FILES_PROTECTION caller ''Failed to remove files protection, file path is empty.'' ERROR_COMMON_INVALID_ARGS s
      else ks_success log_FILES_PROTECTION caller (''Remove files protection. file path is '' @ filePath)
             (ProtectedFilesChange (removeFile env filePath s)))"

definition removeFPFilesAfterAuthorization :: "kss_env \<Rightarrow> string \<Rightarrow> string list \<Rightarrow> ks \<Rightarrow> ks" where
  "removeFPFilesAfterAuthorization env caller fileList s =
     (if fileList = []
      then ks_error log_FILES_PROTECTION caller ''Failed to remove files protection, file path is empty.'' ERROR_COMMON_INVALID_ARGS s
      else ks_success log_FILES_PROTECTION caller (''Remove files protection, file path is '' @ join '', '' fileList)
             (ProtectedFilesChange (removeFiles env (ke_toJson env (fileProtectedListToJsonDocument env fileList s)) s)))"

section \<open>Modes\<close>

definition setStorageModeAfterAuthorization :: "kss_env \<Rightarrow> string \<Rightarrow> nat \<Rightarrow> string \<Rightarrow> ks \<Rightarrow> ks" where
  "setStorageModeAfterAuthorization env caller type userPin s =
     (if KSS_DEFAULT_USER_PIN \<noteq> userPin
      then ks_error log_FILES_PROTECTION caller ''Failed to set storage mode.'' ERROR_USER_PIN_ERROR s
      else let (error, s) = setStorageMode env type userPin s
           in if error \<noteq> [] then ks_error log_FILES_PROTECTION caller ''Failed to set storage mode.'' ERROR_CHANGE_STORAGE_MODE_FAILED s
              else ks_success log_FILES_PROTECTION caller
                     (''Set storage mode. Status is '' @ (if type = 0 then ''soft storage'' else ''hard storage'')) s)"

definition setTrustedStatusAfterAuthorization :: "kss_env \<Rightarrow> string \<Rightarrow> bool \<Rightarrow> ks \<Rightarrow> ks" where
  "setTrustedStatusAfterAuthorization env caller status s =
     ks_success log_FILES_PROTECTION caller (''Set trusted status is '' @ (if status then ''open'' else ''close''))
       (setTrustedStatus env status s)"

section \<open>Reading\<close>

definition initialized :: "ks \<Rightarrow> bool" where
  "initialized s \<longleftrightarrow> getInitialized s \<noteq> 0"

definition storageMode :: "kss_env \<Rightarrow> ks \<Rightarrow> nat \<times> ks" where
  "storageMode env s = getCurrentStorageMode env s"

text \<open>\<open>sm\<close> is 0 at first, 1 open, 2 closed.\<close>

definition trustedStatus :: "kss_env \<Rightarrow> ks \<Rightarrow> bool \<times> ks" where
  "trustedStatus env s =
     (let (text, s) = getTrustedStatus env s
      in case ke_fromJson env text of
           None \<Rightarrow> (False, s)
         | Some doc \<Rightarrow> (let status = j_int (j_value ''sm'' (j_object doc)) in (\<not> (status = 0 \<or> status = 2), s)))"

definition GetTrustedFiles :: "kss_env \<Rightarrow> nat \<Rightarrow> ks \<Rightarrow> string \<times> ks" where
  "GetTrustedFiles env type s = getTrustedFiles env type s"

definition GetProtectedFiles :: "kss_env \<Rightarrow> ks \<Rightarrow> string \<times> ks" where
  "GetProtectedFiles env s = getFiles env s"

text \<open>\<open>Search\<close>: of the executables (0), the kernel modules (1) or the protected files (2).\<close>

definition Search :: "kss_env \<Rightarrow> string \<Rightarrow> string \<Rightarrow> nat \<Rightarrow> ks \<Rightarrow> string \<times> ks" where
  "Search env caller pathKey searchType s =
     (if pathKey = [] then ([], act (ReplyError caller ERROR_COMMON_INVALID_ARGS) s)
      else if searchType = 3 then ([], s)
      else let (fileList, s) = (if searchType = 0 then getTrustedFiles env 0 s
                                else if searchType = 1 then getTrustedFiles env 1 s
                                else if searchType = 2 then getFiles env s else ([], s))
           in case ke_fromJson env fileList of
                None \<Rightarrow> ([], s)
              | Some doc \<Rightarrow> (ke_toJson env (JArr (map JObj (filter (\<lambda>e. contains (entry_path e) pathKey) (entries doc)))), s))"

section \<open>The calls behind polkit\<close>

datatype ks_call =
    AddTrustedFile string | AddTrustedFiles "string list" | RemoveTrustedFile string | RemoveTrustedFiles "string list"
  | ProhibitUnloading bool string | AddProtectedFile string | AddProtectedFiles "string list"
  | RemoveProtectedFile string | RemoveProtectedFiles "string list" | SetStorageMode nat string | SetTrustedStatus bool

fun ks_perform :: "kss_env \<Rightarrow> ks_call \<Rightarrow> string \<Rightarrow> ks \<Rightarrow> ks option" where
  "ks_perform env (AddTrustedFile p) caller s = Some (addTPFileAfterAuthorization env caller p s)"
| "ks_perform env (AddTrustedFiles ps) caller s = addTPFilesAfterAuthorization env caller ps s"
| "ks_perform env (RemoveTrustedFile p) caller s = Some (removeTPFileAfterAuthorization env caller p s)"
| "ks_perform env (RemoveTrustedFiles ps) caller s = removeTPFilesAfterAuthorization env caller ps s"
| "ks_perform env (ProhibitUnloading b p) caller s = Some (prohibitUnloadingAfterAuthorization env caller b p s)"
| "ks_perform env (AddProtectedFile p) caller s = Some (addFPFileAfterAuthorization env caller p s)"
| "ks_perform env (AddProtectedFiles ps) caller s = Some (addFPFilesAfterAuthorization env caller ps s)"
| "ks_perform env (RemoveProtectedFile p) caller s = Some (removeFPFileAfterAuthorization env caller p s)"
| "ks_perform env (RemoveProtectedFiles ps) caller s = Some (removeFPFilesAfterAuthorization env caller ps s)"
| "ks_perform env (SetStorageMode t pin) caller s = Some (setStorageModeAfterAuthorization env caller t pin s)"
| "ks_perform env (SetTrustedStatus b) caller s = Some (setTrustedStatusAfterAuthorization env caller b s)"

text \<open>\<open>None\<close>: the daemon has crashed.\<close>

definition ks_handle :: "kss_env \<Rightarrow> ks_call \<Rightarrow> string \<Rightarrow> ks option \<Rightarrow> ks option" where
  "ks_handle env c caller s = Option.bind s (ks_perform env c caller)"

definition ks_deny :: "string \<Rightarrow> ks option \<Rightarrow> ks option" where
  "ks_deny caller s = map_option (act (ReplyDenied caller)) s"

end
