(* ===== verification/KssSystem.thy ===== *)
theory KssSystem
  imports KssDBus
begin

text \<open>
  What the trusted protection promises: every call is answered once and nothing is changed without polkit; which
  commands a removal runs; when a file is protected twice; and what the answers are worth.
\<close>

section \<open>Frames\<close>

fun exec_command :: "effect \<Rightarrow> string list" where
  "exec_command (Exec p as) = [last as]"
| "exec_command e = []"

text \<open>Whom an effect answers.\<close>

fun answer_to :: "effect \<Rightarrow> string list" where
  "answer_to (Reply c) = [c]"
| "answer_to (ReplyError c code) = [c]"
| "answer_to (ReplyDenied c) = [c]"
| "answer_to e = []"

definition answered_callers :: "ks \<Rightarrow> string list" where
  "answered_callers s = concat (map answer_to (d_effects s))"

text \<open>What running commands leaves alone.\<close>

definition kept :: "ks \<Rightarrow> ks \<Rightarrow> bool" where
  "kept s s' \<longleftrightarrow> ks_ini s' = ks_ini s \<and> ks_initThread s' = ks_initThread s \<and> d_now s' = d_now s
     \<and> d_clients s' = d_clients s \<and> answered_callers s' = answered_callers s"

lemma kept_refl [simp]: "kept s s" and kept_trans: "kept s t \<Longrightarrow> kept t u \<Longrightarrow> kept s u"
  by (simp_all add: kept_def)

lemma kept_initialized: "kept s s' \<Longrightarrow> getInitialized s' = getInitialized s"
  by (simp add: kept_def getInitialized_def)

lemma kept_execute [simp]: "kept s (execute env cmd s)"
  by (cases s) (simp add: kept_def execute_def wait_finished_def processExited_def answered_callers_def act_def split: option.split)

lemma initialized_execute [simp]: "getInitialized (execute env cmd s) = getInitialized s"
  by (rule kept_initialized) simp

lemma kept_fold: "(\<And>e s. kept s (f e s)) \<Longrightarrow> kept s (fold f es s)"
  by (induction es arbitrary: s) (auto intro: kept_trans)

lemma kept_unguard [simp]: "kept s (unguard env P es s)"
  unfolding unguard_def by (rule kept_fold) (simp add: prohibitUnloading_def)

lemma kept_wrapper [simp]:
  "kept s (run_if_initialized env cmd s)" "kept s (snd (output_if_initialized env cmd s))"
  "kept s (snd (getTrustedFiles env k s))" "kept s (snd (getFiles env s))"
  "kept s (snd (addTrustedFile env p s))" "kept s (snd (addTrustedFiles env j s))"
  "kept s (prohibitUnloading env b p s)" "kept s (snd (setStorageMode env n pin s))" "kept s (setTrustedStatus env b s)"
  "kept s (addFile env nm p t s)" "kept s (addFiles env j s)" "kept s (removeFile env p s)" "kept s (removeFiles env j s)"
  by (simp_all add: run_if_initialized_def output_if_initialized_def getTrustedFiles_def getFiles_def addTrustedFile_def
      addTrustedFiles_def prohibitUnloading_def setStorageMode_def setTrustedStatus_def addFile_def addFiles_def
      removeFile_def removeFiles_def Let_def)

lemma kept_remove [simp]:
  "kept s (remove_trusted env P cmd s)" "kept s (removeTrustedFile env p s)" "kept s (removeTrustedFiles env j s)"
proof -
  show *: "kept s (remove_trusted env P cmd s)" for P cmd
    using kept_wrapper(3) [of s env 1] kept_trans [OF kept_trans [OF _ kept_unguard] kept_execute]
    by (auto simp: remove_trusted_def split_beta Let_def split: option.split)
  show "kept s (removeTrustedFile env p s)" "kept s (removeTrustedFiles env j s)"
    by (simp_all add: removeTrustedFile_def removeTrustedFiles_def *)
qed

lemma answered_simps [simp]:
  "answered_callers (act e s) = answered_callers s @ answer_to e"
  "answered_callers (SSR_LOG t m r c s) = answered_callers s"
  by (simp_all add: answered_callers_def)

lemma kept_answered: "kept s s' \<Longrightarrow> answered_callers s' = answered_callers s"
  by (simp add: kept_def)

lemmas kept_all_answered = kept_execute [THEN kept_answered] kept_wrapper [THEN kept_answered] kept_remove [THEN kept_answered]
  kept_unguard [THEN kept_answered]

lemmas ks_handler_defs = addTPFileAfterAuthorization_def addTPFilesAfterAuthorization_def removeTPFileAfterAuthorization_def
  removeTPFilesAfterAuthorization_def prohibitUnloadingAfterAuthorization_def addFPFileAfterAuthorization_def
  addFPFilesAfterAuthorization_def removeFPFileAfterAuthorization_def removeFPFilesAfterAuthorization_def
  setStorageModeAfterAuthorization_def setTrustedStatusAfterAuthorization_def

lemmas ks_reply_defs = ks_error_def ks_success_def TrustedFilesChange_def ProtectedFilesChange_def

lemma check_answered:
  "checkFPDuplicateFiles env caller p s = (b, s') \<Longrightarrow>
     answered_callers s' = answered_callers s @ (if b then [] else [caller])"
  using kept_all_answered by (auto simp: checkFPDuplicateFiles_def split_beta Let_def split: option.splits if_splits)

section \<open>Every call is answered once\<close>

lemma ks_perform_answers:
  assumes "ks_perform env c caller s = Some s'"
  shows "answered_callers s' = answered_callers s @ [caller]"
proof (cases "\<exists>p. c = AddProtectedFile p")
  case True
  then obtain p where c: "c = AddProtectedFile p" by blast
  obtain b t where check: "checkFPDuplicateFiles env caller p s = (b, t)" by (cases "checkFPDuplicateFiles env caller p s")
  show ?thesis
    using assms check_answered [OF check]
    by (cases b) (auto simp: c addFPFileAfterAuthorization_def check ks_reply_defs kept_all_answered split: if_splits)
next
  case False
  with assms show ?thesis
    by (cases c)
      (auto simp: ks_handler_defs ks_reply_defs Let_def split_beta kept_all_answered split: if_splits list.splits)
qed

lemma ks_perform_crash: "ks_perform env c caller s = None \<longleftrightarrow> c = AddTrustedFiles [] \<or> c = RemoveTrustedFiles []"
  by (cases c) (auto simp: addTPFilesAfterAuthorization_def removeTPFilesAfterAuthorization_def split: list.split)

text \<open>Polkit's gate keeps the settings and the logged-in clients: no call touches them.\<close>

definition settings_are :: "qsettings \<Rightarrow> (string, account) qmap \<Rightarrow> ks option \<Rightarrow> bool" where
  "settings_are ini cl s \<longleftrightarrow> (\<forall>t. s = Some t \<longrightarrow> ks_ini t = ini \<and> d_clients t = cl)"

definition still :: "ks \<Rightarrow> ks \<Rightarrow> bool" where
  "still s s' \<longleftrightarrow> ks_ini s' = ks_ini s \<and> d_clients s' = d_clients s"

lemma still_simps [simp]:
  "still s s" "still s (act e t) = still s t" "still s (SSR_LOG ty m r c t) = still s t"
  by (simp_all add: still_def act_def SSR_LOG_def write_log_def)

lemma kept_still: "kept s s' \<Longrightarrow> still s s'"
  by (simp add: kept_def still_def)

lemmas kept_all_still = kept_execute [THEN kept_still] kept_wrapper [THEN kept_still] kept_remove [THEN kept_still]

lemma still_trans: "still s t \<Longrightarrow> still t u \<Longrightarrow> still s u"
  by (simp add: still_def)

lemma check_still: "still s (snd (checkFPDuplicateFiles env caller p s))"
  using kept_all_still by (auto simp: checkFPDuplicateFiles_def split_beta Let_def split: option.splits if_splits)

lemma ks_perform_still: "ks_perform env c caller s = Some s' \<Longrightarrow> still s s'"
proof (cases "\<exists>p. c = AddProtectedFile p")
  case True
  assume run: "ks_perform env c caller s = Some s'"
  from True obtain p where c: "c = AddProtectedFile p" by blast
  obtain b t where check: "checkFPDuplicateFiles env caller p s = (b, t)" by (cases "checkFPDuplicateFiles env caller p s")
  then have "still s t" using check_still [of s env caller p] by simp
  moreover have "still t (addFile env n p x t)" for n x by (rule kept_all_still)
  ultimately have "still s (addFile env n p x t)" for n x by (rule still_trans)
  with \<open>still s t\<close> run show ?thesis
    by (cases b) (auto simp: c addFPFileAfterAuthorization_def check ks_reply_defs split: if_splits)
next
  case False
  assume "ks_perform env c caller s = Some s'"
  with False show ?thesis
    by (cases c) (auto simp: ks_handler_defs ks_reply_defs Let_def split_beta kept_all_still split: if_splits list.splits)
qed

lemma gate_settings: "polkit_gate (ks_handle env) ks_deny (settings_are ini cl)"
proof
  show "settings_are ini cl s \<Longrightarrow> settings_are ini cl (ks_handle env c caller s)" for s c caller
    by (cases s) (auto simp: settings_are_def ks_handle_def still_def dest: ks_perform_still)
  show "settings_are ini cl s \<Longrightarrow> settings_are ini cl (ks_deny caller s)" for caller s
    by (auto simp: settings_are_def ks_deny_def act_def)
qed

interpretation ks_gate: polkit_gate "ks_handle env" ks_deny "settings_are ini cl" for env ini cl
  by (rule gate_settings)

fun label_answers :: "ks_call polkit_label \<Rightarrow> string list" where
  "label_answers (LAnswer i caller c r) = [caller]"
| "label_answers l = []"

fun label_allows :: "ks_call polkit_label \<Rightarrow> bool" where
  "label_allows (LAnswer i caller c r) = reply_success r"
| "label_allows l = False"

lemma perform_label:
  assumes "perform (ks_handle env) ks_deny l (Some s) = Some s'"
  shows "answered_callers s' = answered_callers s @ label_answers l \<and> (\<not> label_allows l \<longrightarrow> ks_ran s' = ks_ran s)"
  using assms
  by (cases l) (auto simp: ks_handle_def ks_deny_def act_def answered_callers_def split: if_splits
      dest: ks_perform_answers [unfolded answered_callers_def])

lemma perform_None: "fold (perform (ks_handle env) ks_deny) ls None = None"
proof (induction ls)
  case (Cons l ls)
  have "perform (ks_handle env) ks_deny l None = None" by (cases l) (auto simp: ks_handle_def ks_deny_def)
  with Cons show ?case by simp
qed simp

lemma perform_labels:
  assumes "fold (perform (ks_handle env) ks_deny) ls (Some s) = Some s'"
  shows "answered_callers s' = answered_callers s @ concat (map label_answers ls)
     \<and> ((\<forall>l \<in> set ls. \<not> label_allows l) \<longrightarrow> ks_ran s' = ks_ran s)"
  using assms
proof (induction ls arbitrary: s)
  case (Cons l ls)
  obtain t where t: "perform (ks_handle env) ks_deny l (Some s) = Some t"
    using Cons.prems perform_None by (cases "perform (ks_handle env) ks_deny l (Some s)") auto
  with Cons.prems have "fold (perform (ks_handle env) ks_deny) ls (Some t) = Some s'" by simp
  from Cons.IH [OF this] perform_label [OF t] show ?case by auto
qed simp


section \<open>What the commands do\<close>

text \<open>Every command ends within the minute it is waited for.\<close>

definition prompt :: "kss_env \<Rightarrow> bool" where
  "prompt env \<longleftrightarrow> (\<forall>past. ke_out env past 0 \<noteq> None)"

definition printed :: "kss_env \<Rightarrow> string list \<Rightarrow> string" where
  "printed env past = (case ke_out env past 0 of None \<Rightarrow> [] | Some out \<Rightarrow> fst out)"

text \<open>The trusted protection is set up and no command is running.\<close>

definition ready :: "ks \<Rightarrow> bool" where
  "ready s \<longleftrightarrow> ks_running s = None \<and> getInitialized s \<noteq> 0"

lemma execute_prompt:
  assumes "prompt env" and "ready s"
  shows "ks_ran (execute env cmd s) = ks_ran s @ [cmd]" "ready (execute env cmd s)"
    "ks_processOutput (execute env cmd s) = printed env (ks_ran s @ [cmd])"
proof -
  obtain out where "ke_out env (ks_ran s @ [cmd]) 0 = Some out" using assms(1) unfolding prompt_def by blast
  then have run: "execute env cmd s = processExited out (act (Exec ''bash'' [''-c'', cmd]) (s\<lparr>ks_ran := ks_ran s @ [cmd]\<rparr>))"
    and print: "printed env (ks_ran s @ [cmd]) = fst out"
    using assms(2) by (auto simp: ready_def execute_def wait_finished_def act_def printed_def)
  have "getInitialized (execute env cmd s) = getInitialized s" by simp
  with run print assms(2) show "ks_ran (execute env cmd s) = ks_ran s @ [cmd]" "ready (execute env cmd s)"
    "ks_processOutput (execute env cmd s) = printed env (ks_ran s @ [cmd])"
    by (auto simp: processExited_def act_def ready_def)
qed

lemma output_prompt:
  assumes "prompt env" and "ready s"
  shows "output_if_initialized env cmd s = (printed env (ks_ran s @ [cmd]), execute env cmd s)"
  using assms execute_prompt [OF assms] by (simp add: output_if_initialized_def ready_def Let_def)

lemma run_prompt:
  assumes "prompt env" and "ready s"
  shows "run_if_initialized env cmd s = execute env cmd s"
  using assms by (simp add: run_if_initialized_def ready_def)

text \<open>The modules whose guard a removal takes off.\<close>

definition guarded :: "(string \<Rightarrow> bool) \<Rightarrow> (string \<times> json) list list \<Rightarrow> string list" where
  "guarded concerned es = map entry_path (filter (\<lambda>e. concerned (entry_path e) \<and> entry_guard e \<noteq> 0) es)"

lemma unguard_prompt:
  assumes "prompt env" and "ready s"
  shows "ks_ran (unguard env P es s) = ks_ran s @ map (guard_cmd False) (guarded P es) \<and> ready (unguard env P es s)"
  using assms(2)
proof (induction es arbitrary: s)
  case Nil
  then show ?case by (simp add: unguard_def guarded_def)
next
  case (Cons e es)
  show ?case
  proof (cases "P (entry_path e) \<and> entry_guard e \<noteq> 0")
    case True
    then have "unguard env P (e # es) s = unguard env P es (execute env (guard_cmd False (entry_path e)) s)"
      by (simp add: unguard_def prohibitUnloading_def)
    with True Cons.IH [OF execute_prompt(2) [OF assms(1) Cons.prems]] execute_prompt(1) [OF assms(1) Cons.prems]
    show ?thesis by (simp add: guarded_def)
  next
    case False
    then have "unguard env P (e # es) s = unguard env P es s" by (simp add: unguard_def)
    with False Cons.IH [OF Cons.prems] show ?thesis by (auto simp: guarded_def)
  qed
qed

lemma remove_trusted_prompt:
  assumes "prompt env" and "ready s" and "ke_fromJson env (printed env (ks_ran s @ [info_cmd 1])) = Some doc"
  shows "ks_ran (remove_trusted env P cmd s) = ks_ran s @ [info_cmd 1] @ map (guard_cmd False) (guarded P (entries doc)) @ [cmd]"
proof -
  let ?t = "execute env (info_cmd 1) s"
  have t: "ready ?t" "ks_ran ?t = ks_ran s @ [info_cmd 1]" using execute_prompt [OF assms(1,2)] by simp_all
  have u: "ks_ran (unguard env P (entries doc) ?t) = ks_ran ?t @ map (guard_cmd False) (guarded P (entries doc))"
    "ready (unguard env P (entries doc) ?t)"
    using unguard_prompt [OF assms(1) t(1)] by blast+
  have "remove_trusted env P cmd s = execute env cmd (unguard env P (entries doc) ?t)"
    using assms(2,3) output_prompt [OF assms(1,2), of "info_cmd 1"]
    by (simp add: remove_trusted_def getTrustedFiles_def ready_def)
  then show ?thesis using execute_prompt(1) [OF assms(1) u(2)] u(1) t(2) by simp
qed

lemma ran_reply [simp]:
  "ks_ran (ks_success t c m s) = ks_ran s" "ks_ran (ks_error t c m code s) = ks_ran s"
  "ks_ran (TrustedFilesChange s) = ks_ran s" "ks_ran (ProtectedFilesChange s) = ks_ran s"
  "ks_ran (act e s) = ks_ran s" "ks_ran (SSR_LOG ty m r c s) = ks_ran s"
  by (simp_all add: ks_reply_defs act_def SSR_LOG_def write_log_def)

text \<open>C30: Removing one trusted file looks at the kernel modules, takes the guard off exactly the entries of that
  path and then removes it. Removing a list takes the guard off every module whose path occurs in the text of the
  request: off a module, too, whose path is only a part of a removed one and which stays trusted.\<close>

theorem removal_commands:
  assumes "prompt env" and "ready s" and "ke_fromJson env (printed env (ks_ran s @ [info_cmd 1])) = Some doc"
    and "q \<noteq> []" and "ps \<noteq> []"
    and "json = ke_toJson env (trustedProtectedListToJsonDocument ps)" and "\<forall>p \<in> set ps. sublist p json"
  shows "\<exists>s1 s2. ks_perform env (RemoveTrustedFile q) caller s = Some s1
     \<and> ks_ran s1 = ks_ran s @ [info_cmd 1] @ map (guard_cmd False) (guarded (\<lambda>p. p = q) (entries doc))
                     @ [''kss digest scan -f -r '' @ quoted q]
     \<and> ks_perform env (RemoveTrustedFiles ps) caller s = Some s2
     \<and> ks_ran s2 = ks_ran s @ [info_cmd 1] @ map (guard_cmd False) (guarded (\<lambda>p. sublist p json) (entries doc))
                     @ [''kss digest scan -r -j '' @ quoted json]
     \<and> (\<forall>e \<in> set (entries doc). entry_guard e \<noteq> 0 \<longrightarrow> (\<exists>p \<in> set ps. sublist (entry_path e) p)
          \<longrightarrow> guard_cmd False (entry_path e) \<in> set (ks_ran s2))"
proof -
  obtain first rest where ps: "ps = first # rest" using assms(5) by (cases ps) auto
  have eq: "(\<lambda>p. q = p) = (\<lambda>p. p = q)" by auto
  have cont: "contains json = (\<lambda>p. sublist p json)" by (auto simp: contains_iff_sublist)
  obtain s1 where s1: "ks_perform env (RemoveTrustedFile q) caller s = Some s1" "ks_ran s1 = ks_ran (removeTrustedFile env q s)"
    using assms(4) by (simp add: removeTPFileAfterAuthorization_def Let_def)
  obtain s2 where s2: "ks_perform env (RemoveTrustedFiles ps) caller s = Some s2" "ks_ran s2 = ks_ran (removeTrustedFiles env json s)"
    by (simp add: removeTPFilesAfterAuthorization_def ps assms(6) Let_def)
  have ran1: "ks_ran s1 = ks_ran s @ [info_cmd 1] @ map (guard_cmd False) (guarded (\<lambda>p. p = q) (entries doc))
      @ [''kss digest scan -f -r '' @ quoted q]"
    unfolding s1(2) removeTrustedFile_def remove_trusted_prompt [OF assms(1-3)] eq ..
  have ran2: "ks_ran s2 = ks_ran s @ [info_cmd 1] @ map (guard_cmd False) (guarded (\<lambda>p. sublist p json) (entries doc))
      @ [''kss digest scan -r -j '' @ quoted json]"
    unfolding s2(2) removeTrustedFiles_def remove_trusted_prompt [OF assms(1-3)] cont ..
  have "guard_cmd False (entry_path e) \<in> set (ks_ran s2)"
    if "e \<in> set (entries doc)" "entry_guard e \<noteq> 0" "p \<in> set ps" "sublist (entry_path e) p" for e p
  proof -
    have "sublist (entry_path e) json" using that(3,4) assms(7) sublist_order.order.trans by blast
    with that have "entry_path e \<in> set (guarded (\<lambda>p. sublist p json) (entries doc))" by (auto simp: guarded_def)
    then show ?thesis unfolding ran2 by simp
  qed
  with s1(1) s2(1) ran1 ran2 show ?thesis by blast
qed

section \<open>Protecting a file\<close>

definition add_cmd :: "kss_env \<Rightarrow> string \<Rightarrow> ks \<Rightarrow> string" where
  "add_cmd env p s = ''kss file add -n '' @ quoted (fileName p) @ '' -p '' @ quoted p @ '' -t '' @ quoted (ke_time env (d_now s))"

lemma now_execute [simp]: "d_now (execute env cmd s) = d_now s"
  using kept_execute by (simp add: kept_def)

text \<open>A file is protected by the single call exactly when the list \<open>kss\<close> shows has no entry of its path; a
  second time it is refused as a repetition and nothing but the list is asked for. The call with a list of files
  never looks, and adds it again.\<close>

theorem protected_once:
  assumes "prompt env" and "ready s" and "ke_fromJson env (printed env (ks_ran s @ [''kss file info''])) = Some doc" and "p \<noteq> []"
  shows "\<exists>s1 s2. ks_perform env (AddProtectedFile p) caller s = Some s1
     \<and> (if p \<in> set (map entry_path (entries doc))
        then ks_ran s1 = ks_ran s @ [''kss file info''] \<and> last (d_effects s1) = ReplyError caller ERROR_TP_ADD_RECUR_FILE
        else ks_ran s1 = ks_ran s @ [''kss file info'', add_cmd env p s] \<and> last (d_effects s1) = Reply caller)
     \<and> ks_perform env (AddProtectedFiles [p]) caller s = Some s2
     \<and> ks_ran s2 = ks_ran s @ [''kss file add -j '' @ quoted (ke_toJson env (fileProtectedListToJsonDocument env [p] s))]"
proof -
  let ?t = "execute env ''kss file info'' s"
  have t: "ready ?t" "ks_ran ?t = ks_ran s @ [''kss file info'']" using execute_prompt [OF assms(1,2)] by simp_all
  have files: "getFiles env s = (printed env (ks_ran s @ [''kss file info'']), ?t)"
    unfolding getFiles_def by (rule output_prompt [OF assms(1,2)])
  have check: "checkFPDuplicateFiles env caller p s =
      (if p \<in> set (map entry_path (entries doc)) then (False, act (ReplyError caller ERROR_TP_ADD_RECUR_FILE) ?t) else (True, ?t))"
    using assms(3) by (auto simp: checkFPDuplicateFiles_def files list_ex_iff)
  have add: "ks_ran (addFile env (fileName p) p (ke_time env (d_now s)) ?t) = ks_ran s @ [''kss file info'', add_cmd env p s]"
    using execute_prompt(1) [OF assms(1) t(1)] t by (simp add: addFile_def run_prompt [OF assms(1) t(1)] add_cmd_def)
  have list: "ks_ran (addFiles env j s) = ks_ran s @ [''kss file add -j '' @ quoted j]" for j
    using execute_prompt(1) [OF assms(1,2)] by (simp add: addFiles_def run_prompt [OF assms(1,2)])
  show ?thesis
  proof (intro exI conjI)
    show "ks_perform env (AddProtectedFile p) caller s = Some (addFPFileAfterAuthorization env caller p s)"
      "ks_perform env (AddProtectedFiles [p]) caller s = Some (addFPFilesAfterAuthorization env caller [p] s)" by simp_all
    show "if p \<in> set (map entry_path (entries doc))
        then ks_ran (addFPFileAfterAuthorization env caller p s) = ks_ran s @ [''kss file info'']
          \<and> last (d_effects (addFPFileAfterAuthorization env caller p s)) = ReplyError caller ERROR_TP_ADD_RECUR_FILE
        else ks_ran (addFPFileAfterAuthorization env caller p s) = ks_ran s @ [''kss file info'', add_cmd env p s]
          \<and> last (d_effects (addFPFileAfterAuthorization env caller p s)) = Reply caller"
      using assms(4) t add by (simp add: addFPFileAfterAuthorization_def check) (simp add: ks_success_def)
    show "ks_ran (addFPFilesAfterAuthorization env caller [p] s) =
        ks_ran s @ [''kss file add -j '' @ quoted (ke_toJson env (fileProtectedListToJsonDocument env [p] s))]"
      by (simp add: addFPFilesAfterAuthorization_def list)
  qed
qed

section \<open>What an answer is worth\<close>

text \<open>A command that never ends: every later one only waits for it.\<close>

definition hung :: "kss_env \<Rightarrow> ks \<Rightarrow> bool" where
  "hung env s \<longleftrightarrow> ks_running s \<noteq> None \<and> (\<forall>n. ke_out env (ks_ran s) n = None)"

text \<open>Nothing was started between two states, and a command that hung still does.\<close>

definition idle :: "kss_env \<Rightarrow> ks \<Rightarrow> ks \<Rightarrow> bool" where
  "idle env s s' \<longleftrightarrow> ks_ran s' = ks_ran s \<and> concat (map exec_command (d_effects s')) = concat (map exec_command (d_effects s))
     \<and> (hung env s \<longrightarrow> hung env s') \<and> getInitialized s' = getInitialized s"

lemma idle_refl [simp]: "idle env s s" and idle_trans: "idle env s t \<Longrightarrow> idle env t u \<Longrightarrow> idle env s u"
  by (auto simp: idle_def)

lemma idle_execute: "hung env s \<Longrightarrow> idle env s (execute env cmd s)"
  by (auto simp: idle_def hung_def execute_def wait_finished_def getInitialized_def)

lemma idle_run:
  "hung env s \<or> getInitialized s = 0 \<Longrightarrow> idle env s (run_if_initialized env cmd s)"
  by (auto simp: run_if_initialized_def intro: idle_execute)

lemma idle_unguard: "hung env s \<Longrightarrow> idle env s (unguard env P es s)"
proof (induction es arbitrary: s)
  case Nil
  then show ?case by (simp add: unguard_def)
next
  case (Cons e es)
  let ?t = "execute env (guard_cmd False (entry_path e)) s"
  have "idle env s ?t" using Cons.prems by (rule idle_execute)
  moreover from this Cons.prems have "idle env ?t (unguard env P es ?t)" by (intro Cons.IH) (simp add: idle_def)
  ultimately have "idle env s (unguard env P es ?t)" by (rule idle_trans)
  moreover have "idle env s (unguard env P es s)" by (rule Cons.IH [OF Cons.prems])
  ultimately show ?case by (auto simp: unguard_def prohibitUnloading_def)
qed

lemma idle_remove:
  assumes "hung env s \<or> getInitialized s = 0"
  shows "idle env s (remove_trusted env P cmd s)"
proof (cases "getInitialized s = 0")
  case True
  then show ?thesis by (simp add: remove_trusted_def)
next
  case False
  with assms have hung: "hung env s" by blast
  let ?t = "execute env (info_cmd 1) s"
  have t: "idle env s ?t" "hung env ?t" using idle_execute [OF hung] hung by (auto simp: idle_def)
  have u: "idle env ?t (unguard env P es ?t)" "hung env (unguard env P es ?t)" for es
    using idle_unguard [OF t(2)] t(2) by (auto simp: idle_def)
  have "idle env s (execute env cmd (unguard env P es ?t))" for es
    by (rule idle_trans [OF idle_trans [OF t(1) u(1)] idle_execute [OF u(2)]])
  with False t(1) show ?thesis
    by (auto simp: remove_trusted_def getTrustedFiles_def output_if_initialized_def Let_def split: option.split)
qed

text \<open>The calls that report success whatever \<open>kss\<close> did, with arguments that are not empty.\<close>

fun silent :: "ks_call \<Rightarrow> bool" where
  "silent (RemoveTrustedFile p) = (p \<noteq> [])"
| "silent (RemoveTrustedFiles ps) = (ps \<noteq> [])"
| "silent (ProhibitUnloading b p) = (p \<noteq> [])"
| "silent (AddProtectedFiles ps) = (ps \<noteq> [])"
| "silent (RemoveProtectedFile p) = (p \<noteq> [])"
| "silent (RemoveProtectedFiles ps) = (ps \<noteq> [])"
| "silent (SetTrustedStatus b) = True"
| "silent _ = False"

lemma idle_success:
  "idle env s t \<Longrightarrow> idle env s (ks_success ty c m t)" "idle env s t \<Longrightarrow> idle env s (TrustedFilesChange t)"
  "idle env s t \<Longrightarrow> idle env s (ProtectedFilesChange t)"
  by (auto simp: idle_def ks_reply_defs act_def SSR_LOG_def write_log_def hung_def getInitialized_def)


section \<open>At concrete inputs\<close>

text \<open>A \<open>kss\<close> with one guarded module, one other trusted module and one protected file.\<close>

definition sample_modules :: json where
  "sample_modules = kss_list [JObj [(''path'', JStr ''/m/a''), (''guard'', JInt 1)], JObj [(''path'', JStr ''/m/a.ko''), (''guard'', JInt 0)]]"

definition sample_kss :: kss_env where
  "sample_kss = \<lparr>ke_out = (\<lambda>past n. Some (if last past = ''kss digest info -m'' then ''M'' else ''F'', [])),
     ke_fromJson = (\<lambda>t. Some (if t = ''M'' then sample_modules else kss_list [JObj [(''path'', JStr ''/f'')]])),
     ke_toJson = (\<lambda>j. concat (map entry_path (entries j))), ke_time = (\<lambda>t. ''now'')\<rparr>"

definition hanging_kss :: kss_env where
  "hanging_kss = sample_kss\<lparr>ke_out := \<lambda>past n. None\<rparr>"

definition sample_ks :: ks where
  "sample_ks = \<lparr>d_clients = [], d_log = undefined, d_now = 0, d_effects = [], ks_ran = [], ks_running = None,
     ks_processOutput = [], ks_errorOutput = [], ks_ini = [(''ssr'', [(''initialized'', VInt 1)])], ks_initThread = False\<rparr>"

lemma sample_ready: "ready sample_ks" "prompt sample_kss"
  by (simp_all add: ready_def getInitialized_def s_value_def s_group_def qm_value_def sample_ks_def prompt_def sample_kss_def)

lemma sample_fields: "ks_ran sample_ks = []" "d_effects sample_ks = []"
  by (simp_all add: sample_ks_def)


theorem removal_commands_witness:
  "\<exists>s'. ks_perform sample_kss (RemoveTrustedFiles [''/m/a.ko'']) '':1.7'' sample_ks = Some s'
     \<and> ''kss kmod del --path /m/a'' \<in> set (ks_ran s')"
proof -
  have json: "ke_toJson sample_kss (trustedProtectedListToJsonDocument [''/m/a.ko'']) = ''/m/a.ko''"
    by (simp add: sample_kss_def trustedProtectedListToJsonDocument_def kss_list_def entries_def entry_path_def j_value_def)
  have doc: "ke_fromJson sample_kss (printed sample_kss (ks_ran sample_ks @ [info_cmd 1])) = Some sample_modules"
    by (simp add: sample_kss_def printed_def info_cmd_def)
  let ?e = "[(''path'', JStr ''/m/a''), (''guard'', JInt 1)]"
  have e: "?e \<in> set (entries sample_modules)" by (simp add: sample_modules_def entries_def kss_list_def j_value_def)
  have path: "entry_path ?e = ''/m/a''" "entry_guard ?e \<noteq> 0" by (simp_all add: entry_path_def entry_guard_def j_value_def)
  have part: "sublist ''/m/a'' ''/m/a.ko''" by (simp add: sublist_code)
  have cmd: "guard_cmd False ''/m/a'' = ''kss kmod del --path /m/a''" by (simp add: guard_cmd_def)
  have "\<forall>p \<in> set [''/m/a.ko'']. sublist p ''/m/a.ko''" by simp
  from removal_commands [OF sample_ready(2,1) doc _ _ json [symmetric] this, of "''/m/a.ko''" "'':1.7''"]
  obtain s' where s': "ks_perform sample_kss (RemoveTrustedFiles [''/m/a.ko'']) '':1.7'' sample_ks = Some s'"
    and off: "\<forall>e \<in> set (entries sample_modules). entry_guard e \<noteq> 0 \<longrightarrow> (\<exists>p \<in> set [''/m/a.ko'']. sublist (entry_path e) p)
          \<longrightarrow> guard_cmd False (entry_path e) \<in> set (ks_ran s')"
    by blast
  from off e path part have "guard_cmd False (entry_path ?e) \<in> set (ks_ran s')" by fastforce
  with s' show ?thesis unfolding path cmd by blast
qed

theorem protected_once_witness:
  "\<exists>s1. ks_perform sample_kss (AddProtectedFile ''/f'') '':1.7'' sample_ks = Some s1
     \<and> last (d_effects s1) = ReplyError '':1.7'' ERROR_TP_ADD_RECUR_FILE"
proof -
  let ?doc = "kss_list [JObj [(''path'', JStr ''/f'')]]"
  have doc: "ke_fromJson sample_kss (printed sample_kss (ks_ran sample_ks @ [''kss file info''])) = Some ?doc"
    by (simp add: sample_kss_def printed_def)
  have "''/f'' \<in> set (map entry_path (entries ?doc))" by (simp add: entries_def kss_list_def j_value_def entry_path_def)
  then show ?thesis using protected_once [OF sample_ready(2,1) doc, of "''/f''" "'':1.7''"] by auto
qed


end
