(* ===== verification/ConfigKV.thy ===== *)
theory ConfigKV
  imports ConfigText
begin

text \<open>
  \<open>src/tool/config/kv.cpp\<close>: files whose lines are a key and a value. The separator is a regular expression; the
  properties are about the default one, white space, with the comment sign \<open>#\<close>.
\<close>

section \<open>The editor\<close>

record kv_conf =
  kv_split :: regex
  kv_join :: string
  kv_comment :: string

definition KV :: "(string \<Rightarrow> regex) \<Rightarrow> string \<Rightarrow> string \<Rightarrow> string \<Rightarrow> kv_conf" where
  "KV re split_pattern join_str comment =
     \<lparr>kv_split = (if split_pattern = [] then rx_spaces1 else re split_pattern),
      kv_join = (if join_str = [] then [CHR 0x09] else join_str),
      kv_comment = (if comment = [] then ''#'' else comment)\<rparr>"

fun kv_get_loop :: "kv_conf \<Rightarrow> string \<Rightarrow> string list \<Rightarrow> string" where
  "kv_get_loop cfg key [] = []"
| "kv_get_loop cfg key (l # ls) =
     (let trim_line = trim l
      in if trim_line = [] \<or> hd trim_line = CHR ''#'' then kv_get_loop cfg key ls
         else let fields = rx_split (kv_split cfg) trim_line
              in if length fields \<noteq> 2 then kv_get_loop cfg key ls
                 else if fields ! 0 = key then fields ! 1 else kv_get_loop cfg key ls)"

definition kv_get :: "file_env \<Rightarrow> kv_conf \<Rightarrow> string \<Rightarrow> string option \<Rightarrow> bool \<times> string" where
  "kv_get env cfg key f =
     (if f = None then (True, [])
      else case readContentsWithLock env f of
             None \<Rightarrow> (False, [])
           | Some contents \<Rightarrow> (True, kv_get_loop cfg key (splitLines contents)))"

record kv_match =
  km_content :: string
  km_pos :: nat
  km_line :: string
  km_comment :: bool

definition kv_fields :: "kv_conf \<Rightarrow> string \<Rightarrow> string list" where
  "kv_fields cfg l = rx_split (kv_split cfg) (trim (if startswith l (kv_comment cfg) then drop (length (kv_comment cfg)) l else l))"

definition kv_matches :: "kv_conf \<Rightarrow> string \<Rightarrow> string \<Rightarrow> bool" where
  "kv_matches cfg key l \<longleftrightarrow> length (kv_fields cfg l) = 2 \<and> kv_fields cfg l ! 0 = key"

definition kv_scan :: "kv_conf \<Rightarrow> string \<Rightarrow> string \<Rightarrow> kv_match \<Rightarrow> kv_match" where
  "kv_scan cfg key l m =
     (let m = (if kv_matches cfg key l
               then m\<lparr>km_pos := length (km_content m), km_line := l, km_comment := startswith l (kv_comment cfg)\<rparr> else m)
      in m\<lparr>km_content := km_content m @ l @ [LF]\<rparr>)"

definition replace_at :: "nat \<Rightarrow> nat \<Rightarrow> string \<Rightarrow> string \<Rightarrow> string" where
  "replace_at pos n after t = take pos t @ after @ drop (pos + n) t"

text \<open>What a matching line becomes: it is commented out when the value is empty.\<close>

definition kv_edit :: "kv_conf \<Rightarrow> string \<Rightarrow> bool \<Rightarrow> string \<Rightarrow> string" where
  "kv_edit cfg value is_comment l =
     (if value = [] then (if \<not> is_comment then kv_comment cfg @ l else l)
      else rx_replace (second_field_regex (kv_split cfg)) (CHR 0x5C # CHR 0x31 # value)
             (if is_comment then drop (length (kv_comment cfg)) l else l))"

definition kv_set :: "file_env \<Rightarrow> kv_conf \<Rightarrow> string \<Rightarrow> string \<Rightarrow> string option \<Rightarrow> bool \<times> string option" where
  "kv_set env cfg key value f =
     (if \<not> fe_lock env then (False, f)
      else let m = fold (kv_scan cfg key) (splitLines (locked_text f)) \<lparr>km_content = [], km_pos = 0, km_line = [], km_comment = False\<rparr>;
               new_contents =
                 (if km_line m \<noteq> []
                  then replace_at (km_pos m) (length (km_line m)) (kv_edit cfg value (km_comment m) (km_line m)) (km_content m)
                  else if value \<noteq> [] then km_content m @ key @ kv_join cfg @ value @ [LF]
                  else km_content m)
           in writeContents env new_contents (Some (locked_text f)))"

definition kv_set_line :: "kv_conf \<Rightarrow> string \<Rightarrow> string \<Rightarrow> string \<Rightarrow> string \<times> bool \<Rightarrow> string \<times> bool" where
  "kv_set_line cfg key value l st =
     (case st of (content, is_matching) \<Rightarrow>
        if kv_matches cfg key l \<and> l \<noteq> []
        then (replace_at (length content) (length l) (kv_edit cfg value (startswith l (kv_comment cfg)) l) (content @ l @ [LF]), True)
        else (content @ l @ [LF], is_matching))"

definition kv_setAll :: "file_env \<Rightarrow> kv_conf \<Rightarrow> string \<Rightarrow> string \<Rightarrow> string option \<Rightarrow> bool \<times> string option" where
  "kv_setAll env cfg key value f =
     (if \<not> fe_lock env then (False, f)
      else let (content, is_matching) = fold (kv_set_line cfg key value) (splitLines (locked_text f)) ([], False);
               new_contents = (if \<not> is_matching \<and> value \<noteq> [] then content @ key @ kv_join cfg @ value @ [LF] else content)
           in writeContents env new_contents (Some (locked_text f)))"

definition kv_del :: "file_env \<Rightarrow> kv_conf \<Rightarrow> string \<Rightarrow> string option \<Rightarrow> bool \<times> string option" where
  "kv_del env cfg key f = kv_set env cfg key [] f"

section \<open>Editing lines\<close>

lemma replace_line: "replace_at (length (put_lines ls)) (length l) x (put_lines (ls @ l # ms)) = put_lines (ls @ x # ms)"
  by (simp add: replace_at_def)

lemma scan_content: "km_content (fold (kv_scan cfg key) ls m) = km_content m @ put_lines ls"
  by (induction ls arbitrary: m) (simp_all add: kv_scan_def Let_def)

text \<open>The line the scan ends with is the last that matches.\<close>

lemma scan_last:
  assumes "\<forall>l' \<in> set ms. \<not> kv_matches cfg key l'"
  shows "km_line (fold (kv_scan cfg key) (ls @ l # ms) m) = (if kv_matches cfg key l then l else km_line (fold (kv_scan cfg key) ls m))
     \<and> (kv_matches cfg key l \<longrightarrow> km_pos (fold (kv_scan cfg key) (ls @ l # ms) m) = length (km_content m @ put_lines ls)
          \<and> km_comment (fold (kv_scan cfg key) (ls @ l # ms) m) = startswith l (kv_comment cfg))"
proof -
  have rest: "km_line (fold (kv_scan cfg key) ms m') = km_line m' \<and> km_pos (fold (kv_scan cfg key) ms m') = km_pos m'
      \<and> km_comment (fold (kv_scan cfg key) ms m') = km_comment m'" for m'
    using assms by (induction ms arbitrary: m') (simp_all add: kv_scan_def)
  show ?thesis by (simp add: rest) (simp add: kv_scan_def scan_content Let_def)
qed

lemma scan_no_match: "(\<And>l. l \<in> set ls \<Longrightarrow> \<not> kv_matches cfg key l) \<Longrightarrow> km_line (fold (kv_scan cfg key) ls m) = km_line m"
  by (induction ls arbitrary: m) (simp_all add: kv_scan_def)

text \<open>The lines \<open>kv_set\<close> writes.\<close>

lemma kv_set_match:
  assumes "fe_lock env" and "splitLines (locked_text f) = ls @ l # ms"
    and "kv_matches cfg key l" and "l \<noteq> []" and "\<forall>l' \<in> set ms. \<not> kv_matches cfg key l'"
  shows "kv_set env cfg key value f =
    writeContents env (put_lines (ls @ kv_edit cfg value (startswith l (kv_comment cfg)) l # ms)) (Some (locked_text f))"
proof -
  let ?m = "fold (kv_scan cfg key) (ls @ l # ms) \<lparr>km_content = [], km_pos = 0, km_line = [], km_comment = False\<rparr>"
  have "km_line ?m = l" "km_pos ?m = length (put_lines ls)" "km_comment ?m = startswith l (kv_comment cfg)"
    using scan_last [of ms cfg key ls l "\<lparr>km_content = [], km_pos = 0, km_line = [], km_comment = False\<rparr>"] assms(3,5) by auto
  moreover have "km_content ?m = put_lines (ls @ l # ms)" by (simp only: scan_content kv_match.select_convs append_Nil)
  ultimately show ?thesis using assms(1,4) by (simp only: kv_set_def assms(2) Let_def replace_line) simp
qed

lemma kv_set_new:
  assumes "fe_lock env" and "\<forall>l \<in> set (splitLines (locked_text f)). \<not> kv_matches cfg key l"
  shows "kv_set env cfg key value f =
    writeContents env (put_lines (splitLines (locked_text f) @ (if value = [] then [] else [key @ kv_join cfg @ value]))) (Some (locked_text f))"
  using assms by (simp add: kv_set_def scan_no_match scan_content)

lemma kv_setAll_lines:
  "fold (kv_set_line cfg key value) ls (put_lines pre, b) =
     (put_lines (pre @ map (\<lambda>l. if kv_matches cfg key l \<and> l \<noteq> [] then kv_edit cfg value (startswith l (kv_comment cfg)) l else l) ls),
      b \<or> (\<exists>l \<in> set ls. kv_matches cfg key l \<and> l \<noteq> []))"
proof (induction ls arbitrary: pre b)
  case (Cons l ls)
  let ?e = "\<lambda>l. if kv_matches cfg key l \<and> l \<noteq> [] then kv_edit cfg value (startswith l (kv_comment cfg)) l else l"
  have "kv_set_line cfg key value l (put_lines pre, b) = (put_lines (pre @ [?e l]), b \<or> kv_matches cfg key l \<and> l \<noteq> [])"
    using replace_line [of pre l "kv_edit cfg value (startswith l (kv_comment cfg)) l" "[]"] by (auto simp: kv_set_line_def)
  with Cons.IH [of "pre @ [?e l]"] show ?case by auto
qed simp

section \<open>The default format\<close>

lemma kv_default [simp]:
  "kv_split (KV re [] [] []) = rx_spaces1" "kv_join (KV re [] [] []) = [CHR 0x09]" "kv_comment (KV re [] [] []) = ''#''"
  by (simp_all add: KV_def)

lemma two_fields_unique: "two_fields k v l \<Longrightarrow> two_fields k' v' l \<Longrightarrow> k' = k \<and> v' = v"
  by (drule two_fields_split, drule two_fields_split) simp

lemma two_fields_trim: "two_fields k v l \<Longrightarrow> trim l \<noteq> [] \<and> hd (trim l) = hd k"
proof -
  assume "two_fields k v l"
  then obtain a w z where l: "l = a @ k @ w @ v @ z" "spaces a" "spaces z" "word k" "word v" unfolding two_fields_def by blast
  from word_nonempty [OF l(4)] show ?thesis unfolding l(1) trim_fields [OF l(2-5)] by simp
qed

lemma hash_no_space: "\<not> is_space CHR ''#''"
  by (simp add: is_space_def)

lemma comment_trim: "startswith l ''#'' \<Longrightarrow> trim l \<noteq> [] \<and> hd (trim l) = CHR ''#''"
proof -
  assume "startswith l ''#''"
  then obtain t where l: "l = CHR ''#'' # t" by (auto simp: startswith_prefix prefix_def)
  obtain a z where parts: "l = a @ trim l @ z" "spaces a" "spaces z" using trim_parts [of l] by blast
  have "a = []"
  proof (rule ccontr)
    assume "a \<noteq> []"
    with parts(1,2) l have "is_space CHR ''#''" by (cases a) (auto simp: spaces_def)
    with hash_no_space show False by blast
  qed
  moreover have "trim l \<noteq> []"
  proof
    assume "trim l = []"
    with parts l \<open>a = []\<close> have "is_space CHR ''#''" by (cases z) (auto simp: spaces_def)
    with hash_no_space show False by blast
  qed
  ultimately show ?thesis using parts(1) l by (metis append_Nil hd_append2 list.sel(1))
qed

lemma get_hit: "two_fields k v l \<Longrightarrow> hd k \<noteq> CHR ''#'' \<Longrightarrow> kv_get_loop (KV re [] [] []) k (l # ls) = v"
  using two_fields_trim [of k v l] two_fields_split [of k v l] by simp

lemma get_miss: "hd (trim l) = CHR ''#'' \<or> (\<forall>v. \<not> two_fields k v l) \<Longrightarrow> kv_get_loop (KV re [] [] []) k (l # ls) = kv_get_loop (KV re [] [] []) k ls"
proof -
  assume miss: "hd (trim l) = CHR ''#'' \<or> (\<forall>v. \<not> two_fields k v l)"
  have "two_fields k (x ! 1) l" if "length x = 2" "x ! 0 = k" "x = rx_split rx_spaces1 (trim l)" for x
  proof (rule split_two_fields)
    have "x = [k, x ! 1]" using that(1,2) by (metis Cons_nth_drop_Suc One_nat_def Suc_1 drop0 drop_all le_refl lessI zero_less_Suc)
    with that(3) show "rx_split rx_spaces1 (trim l) = [k, x ! 1]" by simp
  qed
  with miss show ?thesis by (auto simp: Let_def)
qed

lemma get_cong: "kv_get_loop cfg k ls = kv_get_loop cfg k ms \<Longrightarrow> kv_get_loop cfg k (pre @ ls) = kv_get_loop cfg k (pre @ ms)"
  by (induction pre) (simp_all add: Let_def)

text \<open>A line carries a key: a plain one for \<open>get\<close> and \<open>set\<close>, a commented one for \<open>set\<close>.\<close>

definition uncommented :: "string \<Rightarrow> string" where
  "uncommented l = (if startswith l ''#'' then drop 1 l else l)"

lemma matches_default: "kv_matches (KV re [] [] []) k l \<longleftrightarrow> (\<exists>v. two_fields k v (uncommented l))"
proof -
  have fields: "kv_fields (KV re [] [] []) l = rx_split rx_spaces1 (trim (uncommented l))" by (simp add: kv_fields_def uncommented_def)
  show ?thesis
  proof
    assume m: "kv_matches (KV re [] [] []) k l"
    then obtain v where "rx_split rx_spaces1 (trim (uncommented l)) = [k, v]"
      unfolding kv_matches_def fields by (cases "rx_split rx_spaces1 (trim (uncommented l))" rule: list.exhaust [case_product list.exhaust])
        (auto simp: length_Suc_conv numeral_2_eq_2)
    then show "\<exists>v. two_fields k v (uncommented l)" using split_two_fields by blast
  next
    assume "\<exists>v. two_fields k v (uncommented l)"
    then show "kv_matches (KV re [] [] []) k l" using two_fields_split by (auto simp: kv_matches_def fields)
  qed
qed

lemma plain_get: "\<not> startswith l ''#'' \<Longrightarrow> kv_matches (KV re [] [] []) k l \<longleftrightarrow> (\<exists>v. two_fields k v l)"
  by (simp add: matches_default uncommented_def)

lemma get_other:
  assumes "kv_matches (KV re [] [] []) key l" and "k \<noteq> key"
  shows "kv_get_loop (KV re [] [] []) k (l # ls) = kv_get_loop (KV re [] [] []) k ls"
proof (rule get_miss, cases "startswith l ''#''")
  case True
  then show "hd (trim l) = CHR ''#'' \<or> (\<forall>v. \<not> two_fields k v l)" using comment_trim by blast
next
  case False
  with assms two_fields_unique show "hd (trim l) = CHR ''#'' \<or> (\<forall>v. \<not> two_fields k v l)" by (auto simp: plain_get)
qed

lemma get_no_active:
  assumes "\<forall>l \<in> set ls. \<not> (kv_matches (KV re [] [] []) k l \<and> \<not> startswith l ''#'')"
  shows "kv_get_loop (KV re [] [] []) k (ls @ ms) = kv_get_loop (KV re [] [] []) k ms"
  using assms
proof (induction ls)
  case (Cons l ls)
  have "hd (trim l) = CHR ''#'' \<or> (\<forall>v. \<not> two_fields k v l)"
    using Cons.prems comment_trim plain_get by (cases "startswith l ''#''") auto
  then show ?case using Cons get_miss by (simp del: kv_get_loop.simps(2))
qed simp

lemma get_active:
  assumes "\<exists>l \<in> set ls. kv_matches (KV re [] [] []) k l \<and> \<not> startswith l ''#''" and "hd k \<noteq> CHR ''#''"
  shows "kv_get_loop (KV re [] [] []) k (ls @ ms) = kv_get_loop (KV re [] [] []) k (ls @ ns)"
  using assms(1)
proof (induction ls)
  case (Cons l ls)
  show ?case
  proof (cases "\<not> startswith l ''#'' \<and> kv_matches (KV re [] [] []) k l")
    case True
    then obtain v where "two_fields k v l" by (auto simp: plain_get)
    then show ?thesis using get_hit assms(2) by (simp del: kv_get_loop.simps(2))
  next
    case False
    then have "\<exists>l \<in> set ls. kv_matches (KV re [] [] []) k l \<and> \<not> startswith l ''#''" using Cons.prems by auto
    from Cons.IH [OF this] show ?thesis by (simp add: Let_def)
  qed
qed simp

lemma match_nonempty: "kv_matches (KV re [] [] []) k l \<Longrightarrow> l \<noteq> []"
proof
  assume "kv_matches (KV re [] [] []) k l" and l: "l = []"
  then obtain v where "two_fields k v (uncommented l)" by (auto simp: matches_default)
  moreover have "uncommented l = []" by (simp add: l uncommented_def)
  ultimately show False using two_fields_trim [of k v "[]"] by (simp add: trim_def rtrim_def ltrim_def)
qed

text \<open>What an edit makes of a line that carries the key.\<close>

lemma edit_value:
  assumes "kv_matches (KV re [] [] []) key l" and "word value" and "backslash_free value"
  shows "two_fields key value (kv_edit (KV re [] [] []) value (startswith l ''#'') l)"
    and "set (kv_edit (KV re [] [] []) value (startswith l ''#'') l) \<subseteq> set l \<union> set value"
proof -
  have edit: "kv_edit (KV re [] [] []) value (startswith l ''#'') l =
      rx_replace (second_field_regex rx_spaces1) (CHR 0x5C # CHR 0x31 # value) (uncommented l)"
    using word_nonempty [OF assms(2)] by (simp add: kv_edit_def uncommented_def)
  obtain v where v: "two_fields key v (uncommented l)" using assms(1) by (auto simp: matches_default)
  show "two_fields key value (kv_edit (KV re [] [] []) value (startswith l ''#'') l)"
    unfolding edit by (rule replace_second_field(1) [OF v assms(2,3)])
  have "set (uncommented l) \<subseteq> set l" by (auto simp: uncommented_def dest: in_set_dropD)
  with replace_second_field(2) [OF v assms(2,3)]
  show "set (kv_edit (KV re [] [] []) value (startswith l ''#'') l) \<subseteq> set l \<union> set value" unfolding edit by blast
qed

lemma word_plain: "word v \<Longrightarrow> plain_line v"
  by (auto simp: word_def plain_line_def is_space_def)

lemma subset_plain: "set x \<subseteq> set l \<union> set v \<Longrightarrow> plain_line l \<Longrightarrow> plain_line v \<Longrightarrow> plain_line x"
  by (auto simp: plain_line_def)

lemma subset_ascii: "set x \<subseteq> set l \<union> set v \<Longrightarrow> ascii l \<Longrightarrow> ascii v \<Longrightarrow> ascii x"
  by (auto simp: ascii_def)

text \<open>Lines written and read again.\<close>

lemma written_get:
  assumes "fe_lock env" and "fe_write env = Written" and "\<forall>l \<in> set ls. plain_line l \<and> ascii l"
  shows "writeContents env (put_lines ls) x = (True, Some (put_lines ls))
     \<and> kv_get env cfg k (Some (put_lines ls)) = (True, kv_get_loop cfg k ls)"
  using assms by (simp add: writeContents_def stored_ascii ascii_put_lines kv_get_def readContentsWithLock_def splitLines_put)

lemma get_text: "fe_lock env \<Longrightarrow> kv_get env cfg k f = (True, kv_get_loop cfg k (splitLines (locked_text f)))"
  by (cases f) (simp_all add: kv_get_def readContentsWithLock_def locked_text_def splitLines_def)

lemma two_fields_line: "word k \<Longrightarrow> word v \<Longrightarrow> two_fields k v (k @ CHR 0x09 # v)"
  unfolding two_fields_def by (intro exI [of _ "[]"] exI [of _ "[CHR 0x09]"]) (simp add: spaces_def is_space_def)

lemma last_match:
  assumes "\<exists>l \<in> set ls. P l"
  shows "\<exists>pre l ms. ls = pre @ l # ms \<and> P l \<and> (\<forall>x \<in> set ms. \<not> P x) \<and> butlast (filter P ls) = filter P pre"
proof -
  obtain pre l ms where ls: "ls = pre @ l # ms" "P l" "\<forall>x \<in> set ms. \<not> P x" using split_list_last_prop [OF assms] by blast
  then have "filter P ls = filter P pre @ [l]" by simp
  with ls show ?thesis by fastforce
qed


section \<open>Setting every line\<close>

definition set_each :: "(string \<Rightarrow> regex) \<Rightarrow> string \<Rightarrow> string \<Rightarrow> string \<Rightarrow> string" where
  "set_each re key value l =
     (if kv_matches (KV re [] [] []) key l \<and> l \<noteq> [] then kv_edit (KV re [] [] []) value (startswith l ''#'') l else l)"

lemma edit_nothing: "hd (trim (kv_edit (KV re [] [] []) [] (startswith l ''#'') l)) = CHR ''#''"
  using comment_trim [of l] comment_trim [of "CHR ''#'' # l"]
  by (cases "startswith l ''#''") (simp_all add: kv_edit_def startswith_prefix)

lemma no_match_miss:
  "\<not> kv_matches (KV re [] [] []) k l \<Longrightarrow> kv_get_loop (KV re [] [] []) k (l # ls) = kv_get_loop (KV re [] [] []) k ls"
  using comment_trim plain_get by (intro get_miss) metis

lemma set_each_other:
  assumes "value = [] \<or> word value \<and> backslash_free value" and "k \<noteq> key"
  shows "kv_get_loop (KV re [] [] []) k (map (set_each re key value) ls @ ms) = kv_get_loop (KV re [] [] []) k (ls @ ms)"
proof (induction ls)
  case (Cons l ls)
  let ?loop = "kv_get_loop (KV re [] [] [])"
  show ?case
  proof (cases "kv_matches (KV re [] [] []) key l")
    case True
    have "?loop k (set_each re key value l # ns) = ?loop k ns" for ns
    proof (rule get_miss)
      show "hd (trim (set_each re key value l)) = CHR ''#'' \<or> (\<forall>v. \<not> two_fields k v (set_each re key value l))"
        using assms True match_nonempty [OF True] edit_nothing [of re l] edit_value(1) [OF True, of "value"] two_fields_unique
        by (cases "value = []") (auto simp: set_each_def)
    qed
    with Cons.IH get_other [OF True assms(2)] show ?thesis by (simp del: kv_get_loop.simps(2))
  next
    case False
    then have "set_each re key value l = l" by (simp add: set_each_def)
    with get_cong [OF Cons.IH, of "[l]"] show ?thesis by (simp del: kv_get_loop.simps(2))
  qed
qed simp

lemma set_each_key:
  assumes "value = [] \<or> word value \<and> backslash_free value" and "hd key \<noteq> CHR ''#''"
  shows "kv_get_loop (KV re [] [] []) key (map (set_each re key value) ls @ ms) =
    (if value \<noteq> [] \<and> (\<exists>l \<in> set ls. kv_matches (KV re [] [] []) key l) then value else kv_get_loop (KV re [] [] []) key ms)"
proof (induction ls)
  case (Cons l ls)
  let ?loop = "kv_get_loop (KV re [] [] [])"
  show ?case
  proof (cases "kv_matches (KV re [] [] []) key l")
    case True
    then have each: "set_each re key value l = kv_edit (KV re [] [] []) value (startswith l ''#'') l"
      using match_nonempty by (simp add: set_each_def)
    show ?thesis
    proof (cases "value = []")
      case True
      then have "?loop key (set_each re key value l # ns) = ?loop key ns" for ns
        using True edit_nothing [of re l] each by (intro get_miss) simp
      with True Cons.IH show ?thesis by (simp del: kv_get_loop.simps(2))
    next
      case False
      with assms(1) have "two_fields key value (set_each re key value l)" using edit_value(1) [OF True] by (simp add: each)
      from get_hit [OF this assms(2)] False True show ?thesis by (simp del: kv_get_loop.simps(2))
    qed
  next
    case False
    then have "set_each re key value l = l" by (simp add: set_each_def)
    with Cons.IH no_match_miss [OF False] False show ?thesis by (simp del: kv_get_loop.simps(2))
  qed
qed simp

lemma set_each_line:
  assumes "value = [] \<or> word value \<and> backslash_free value" and "ascii value" and "plain_line l" and "ascii l"
  shows "plain_line (set_each re key value l) \<and> ascii (set_each re key value l)"
proof (cases "kv_matches (KV re [] [] []) key l \<and> value \<noteq> []")
  case True
  then have m: "kv_matches (KV re [] [] []) key l" and v: "word value" "backslash_free value" using assms(1) by auto
  note sub = edit_value(2) [OF m v]
  from subset_plain [OF sub assms(3) word_plain [OF v(1)]] subset_ascii [OF sub assms(4,2)] match_nonempty [OF m] m
  show ?thesis by (simp add: set_each_def)
next
  case False
  then show ?thesis using assms(3,4) by (auto simp: set_each_def kv_edit_def plain_line_def)
qed

text \<open>Setting all lines of a key makes the key read back as the value, and every other key as before, however
  many lines carry it, in force or commented; with the empty value it is gone.\<close>

theorem kv_setAll_then_get:
  assumes "fe_lock env" and "fe_write env = Written"
    and "ascii (locked_text f)" and "ascii key" and "ascii value"
    and "word key" and "hd key \<noteq> CHR ''#''" and "value = [] \<or> word value \<and> backslash_free value"
  shows "\<exists>t. kv_setAll env (KV re [] [] []) key value f = (True, Some t)
     \<and> kv_get env (KV re [] [] []) key (Some t) = (True, value)
     \<and> (\<forall>k. k \<noteq> key \<longrightarrow> kv_get env (KV re [] [] []) k (Some t) = kv_get env (KV re [] [] []) k f)"
proof -
  let ?cfg = "KV re [] [] []" and ?ls = "splitLines (locked_text f)"
  let ?tail = "if value \<noteq> [] \<and> \<not> (\<exists>l \<in> set ?ls. kv_matches ?cfg key l) then [key @ CHR 0x09 # value] else []"
  let ?new = "map (set_each re key value) ?ls @ ?tail"
  have tail: "\<forall>l \<in> set ?tail. plain_line l \<and> ascii l"
    using word_plain [OF assms(6)] word_plain [of "value"] assms(4,5,8) by (auto simp: plain_line_def)
  have "plain_line (set_each re key value l) \<and> ascii (set_each re key value l)" if "l \<in> set ?ls" for l
    by (rule set_each_line [OF assms(8,5) splitLines_plain [OF that] ascii_splitLines [OF assms(3) that]])
  with tail have new: "\<forall>l \<in> set ?new. plain_line l \<and> ascii l" unfolding set_append set_map by blast
  have some: "(\<exists>l \<in> set ?ls. kv_matches ?cfg key l \<and> l \<noteq> []) \<longleftrightarrow> (\<exists>l \<in> set ?ls. kv_matches ?cfg key l)" using match_nonempty by blast
  have each: "(\<lambda>l. if kv_matches ?cfg key l \<and> l \<noteq> [] then kv_edit ?cfg value (startswith l (kv_comment ?cfg)) l else l) = set_each re key value"
    by (rule ext) (simp add: set_each_def)
  have "kv_setAll env ?cfg key value f = writeContents env (put_lines ?new) (Some (locked_text f))"
    using assms(1) kv_setAll_lines [of ?cfg key "value" ?ls "[]" False, unfolded each]
    by (simp add: kv_setAll_def some split_beta)
  then have set: "kv_setAll env ?cfg key value f = (True, Some (put_lines ?new))" using written_get [OF assms(1,2) new] by simp
  have get: "kv_get env ?cfg k (Some (put_lines ?new)) = (True, kv_get_loop ?cfg k ?new)" for k
    using written_get [OF assms(1,2) new] by blast
  have other: "kv_get_loop ?cfg k ?new = kv_get_loop ?cfg k ?ls" if "k \<noteq> key" for k
  proof -
    have "kv_get_loop ?cfg k ?tail = []"
      using two_fields_line [OF assms(6), of "value"] two_fields_unique get_miss [of "key @ CHR 0x09 # value" k re "[]"] that assms(8)
      by (auto simp del: kv_get_loop.simps(2)) metis
    then have "kv_get_loop ?cfg k (?ls @ ?tail) = kv_get_loop ?cfg k ?ls" using get_cong [of ?cfg k ?tail "[]" ?ls] by simp
    with set_each_other [OF assms(8) that] show ?thesis by simp
  qed
  have same: "kv_get_loop ?cfg key ?new = value"
    using set_each_key [OF assms(8,7), of re ?ls ?tail] get_hit [OF two_fields_line [OF assms(6), of "value"] assms(7), of re "[]"] assms(8)
    by (auto simp del: kv_get_loop.simps(2))
  show ?thesis
  proof (intro exI [of _ "put_lines ?new"] conjI allI impI set)
    show "kv_get env ?cfg key (Some (put_lines ?new)) = (True, value)" unfolding get same ..
    show "kv_get env ?cfg k (Some (put_lines ?new)) = kv_get env ?cfg k f" if "k \<noteq> key" for k
      unfolding get other [OF that] get_text [OF assms(1), of ?cfg k f] ..
  qed
qed

section \<open>At concrete inputs\<close>

definition sample_file_env :: file_env where
  "sample_file_env = \<lparr>fe_lock = True, fe_write = Written\<rparr>"

definition sample_kv :: string where
  "sample_kv = put_lines [''A 1'', ''#A 2'']"

lemma sample_words: "word ''A''" "word ''3''" "backslash_free ''3''" "ascii ''A''" "ascii ''3''"
  by (simp_all add: word_def is_space_def backslash_free_def)

lemma sample_kv_lines: "splitLines (locked_text (Some sample_kv)) = [''A 1'', ''#A 2'']" "ascii (locked_text (Some sample_kv))"
proof -
  have "splitLines (put_lines [''A 1'', ''#A 2'']) = [''A 1'', ''#A 2'']" by (rule splitLines_put) (simp add: plain_line_def)
  then show "splitLines (locked_text (Some sample_kv)) = [''A 1'', ''#A 2'']" unfolding sample_kv_def locked_text_def option.case .
  show "ascii (locked_text (Some sample_kv))" by (simp add: locked_text_def sample_kv_def)
qed

lemma sample_kv_fields: "two_fields ''A'' ''1'' ''A 1''" "two_fields ''A'' ''2'' ''A 2''"
  unfolding two_fields_def
  by (intro exI [of _ "[]"] exI [of _ "'' ''"], simp add: spaces_def word_def is_space_def)+


theorem kv_setAll_then_get_witness:
  "\<exists>t. kv_setAll sample_file_env (KV (\<lambda>_. rx_spaces1) [] [] []) ''A'' ''3'' (Some sample_kv) = (True, Some t)
     \<and> kv_get sample_file_env (KV (\<lambda>_. rx_spaces1) [] [] []) ''A'' (Some t) = (True, ''3'')"
  using kv_setAll_then_get [of sample_file_env "Some sample_kv" "''A''" "''3''" "\<lambda>_. rx_spaces1"] sample_words sample_kv_lines(2)
  by (auto simp: sample_file_env_def)

end
