(* ===== verification/ConfigPam.thy ===== *)
theory ConfigPam
  imports ConfigText
begin

text \<open>
  \<open>src/tool/config/pam.cpp\<close>: one line of a file, found by a regular expression, switched on and off by a leading
  \<open>#\<close>, and the values in it. Patterns are given as the regular expressions they stand for; a pattern put together
  from parts is the sequence of the parts.
\<close>

section \<open>The line\<close>

record match_line_info =
  ml_content :: string
  ml_pos :: nat
  ml_line :: string
  ml_comment :: bool

definition pam_scan :: "regex \<Rightarrow> string \<Rightarrow> match_line_info \<Rightarrow> match_line_info" where
  "pam_scan line_match l m =
     (let is_comment = startswith l ''#'';
          m = (if rx_hits line_match l \<and> (ml_line m = [] \<or> \<not> is_comment \<and> ml_comment m)
               then m\<lparr>ml_pos := length (ml_content m), ml_line := l, ml_comment := is_comment\<rparr> else m)
      in m\<lparr>ml_content := ml_content m @ l @ [LF]\<rparr>)"

definition getMatchLine :: "regex \<Rightarrow> string option \<Rightarrow> match_line_info" where
  "getMatchLine line_match f =
     fold (pam_scan line_match) (splitLines (locked_text f)) \<lparr>ml_content = [], ml_pos = 0, ml_line = [], ml_comment = False\<rparr>"

definition pam_replace :: "match_line_info \<Rightarrow> string \<Rightarrow> string" where
  "pam_replace m l = take (ml_pos m) (ml_content m) @ l @ drop (ml_pos m + length (ml_line m)) (ml_content m)"

text \<open>A new line goes before the first line the second pattern matches, and nowhere when there is none.\<close>

definition behind_scan :: "string \<Rightarrow> regex \<Rightarrow> string \<Rightarrow> match_line_info \<Rightarrow> match_line_info" where
  "behind_scan fallback_line next_match l m =
     (let m = (if rx_hits next_match l \<and> ml_line m = []
               then m\<lparr>ml_content := ml_content m @ fallback_line @ [LF], ml_pos := length (ml_content m @ fallback_line @ [LF]), ml_line := l\<rparr>
               else m)
      in m\<lparr>ml_content := ml_content m @ l @ [LF]\<rparr>)"

definition addBehind :: "string \<Rightarrow> regex \<Rightarrow> string option \<Rightarrow> match_line_info" where
  "addBehind fallback_line next_match f =
     fold (behind_scan fallback_line next_match) (splitLines (locked_text f)) \<lparr>ml_content = [], ml_pos = 0, ml_line = [], ml_comment = False\<rparr>"

text \<open>The outcome of writing is not looked at.\<close>

definition addLine :: "file_env \<Rightarrow> regex \<Rightarrow> string \<Rightarrow> regex \<Rightarrow> string option \<Rightarrow> bool \<times> string option" where
  "addLine env line_match fallback_line next_match f =
     (if \<not> fe_lock env then (False, f)
      else let m = getMatchLine line_match f; f = Some (locked_text f)
           in if ml_line m \<noteq> [] \<and> ml_comment m
              then (True, snd (writeContents env (pam_replace m (drop 1 (ml_line m))) f))
              else if ml_line m = [] \<and> fallback_line \<noteq> []
              then (True, snd (writeContents env (ml_content (addBehind fallback_line next_match f)) f))
              else (True, f))"

definition delLine :: "file_env \<Rightarrow> regex \<Rightarrow> string option \<Rightarrow> bool \<times> string option" where
  "delLine env line_match f =
     (if \<not> fe_lock env then (False, f)
      else let m = getMatchLine line_match f; f = Some (locked_text f)
           in if ml_line m \<noteq> [] \<and> \<not> ml_comment m
              then (True, snd (writeContents env (pam_replace m (''#'' @ ml_line m)) f))
              else (True, f))"

definition getLine :: "file_env \<Rightarrow> regex \<Rightarrow> string option \<Rightarrow> bool \<times> string" where
  "getLine env line_match f =
     (if \<not> fe_lock env \<or> f = None then (False, [])
      else let m = getMatchLine line_match f in (True, if ml_line m \<noteq> [] \<and> \<not> ml_comment m then ml_line m else []))"

section \<open>The values\<close>

text \<open>\<open>(key)\<close>, or \<open>(key[\s]*sep[\s]*)(\S+)\<close> when there is a separator.\<close>

definition pam_kv_regex :: "regex \<Rightarrow> regex option \<Rightarrow> regex" where
  "pam_kv_regex key sep =
     (case sep of
        None \<Rightarrow> rx_group key
      | Some sep \<Rightarrow> rx_seq (rx_group (rx_seq key (rx_seq rx_spaces (rx_seq sep rx_spaces)))) (rx_group rx_word))"

definition isWhitespaceInTail :: "string \<Rightarrow> bool" where
  "isWhitespaceInTail str \<longleftrightarrow> str \<noteq> [] \<and> is_space (last str)"

text \<open>The first line with the key gives the value: what follows the first separator in the match, or \<open>true\<close>. \<open>None\<close> is an
  index out of range, when the separator does not cut the match.\<close>

fun pam_get_loop :: "regex \<Rightarrow> regex \<Rightarrow> regex option \<Rightarrow> string \<Rightarrow> string list \<Rightarrow> string option" where
  "pam_get_loop line_match key sep v [] = Some v"
| "pam_get_loop line_match key sep v (l # ls) =
     (let trim_line = trim l
      in if trim_line = [] \<or> hd trim_line = CHR ''#'' then pam_get_loop line_match key sep v ls
         else if \<not> rx_hits line_match l then pam_get_loop line_match key sep v ls
         else case rx_find (pam_kv_regex key sep) [] l of
                None \<Rightarrow> pam_get_loop line_match key sep v ls
              | Some (i, n, cs) \<Rightarrow>
                  (case sep of
                     None \<Rightarrow> Some ''true''
                   | Some sep \<Rightarrow> (let fields = rx_split sep (take n (drop i l)) in if length fields < 2 then None else Some (fields ! 1))))"

definition getValue :: "file_env \<Rightarrow> regex \<Rightarrow> regex \<Rightarrow> regex option \<Rightarrow> string option \<Rightarrow> bool \<times> string option" where
  "getValue env line_match key sep f =
     (case readContentsWithLock env f of
        None \<Rightarrow> (False, Some [])
      | Some contents \<Rightarrow> (True, pam_get_loop line_match key sep (if sep = None then ''false'' else []) (splitLines contents)))"

text \<open>\<open>key_text\<close> is the text of the key, put in as it is when the line has no match of it.\<close>

definition setValue :: "file_env \<Rightarrow> regex \<Rightarrow> regex \<Rightarrow> string \<Rightarrow> regex option \<Rightarrow> string \<Rightarrow> string \<Rightarrow> string option \<Rightarrow> bool \<times> string option" where
  "setValue env line_match key key_text sep val kv_join_str f =
     (if \<not> fe_lock env then (False, f)
      else let m = getMatchLine line_match f; f = Some (locked_text f); l = ml_line m
           in if l = [] \<or> ml_comment m then (True, f)
              else if rx_find (pam_kv_regex key sep) [] l \<noteq> None
              then writeContents env
                     (pam_replace m (if sep = None then l
                                     else rx_replace (pam_kv_regex key sep) (if val = [] then val else CHR 0x5C # CHR 0x31 # val) l)) f
              else if val = [] then (True, f)
              else writeContents env
                     (pam_replace m (l @ (if isWhitespaceInTail l then [] else '' '') @ key_text
                                     @ (if sep = None then [] else kv_join_str @ val))) f)"

definition delValue :: "file_env \<Rightarrow> regex \<Rightarrow> regex \<Rightarrow> regex option \<Rightarrow> string option \<Rightarrow> bool \<times> string option" where
  "delValue env line_match key sep f =
     (if \<not> fe_lock env then (False, f)
      else let m = getMatchLine line_match f; f = Some (locked_text f)
           in if ml_line m \<noteq> [] \<and> \<not> ml_comment m \<and> rx_find (pam_kv_regex key sep) [] (ml_line m) \<noteq> None
              then writeContents env (pam_replace m (rx_replace (pam_kv_regex key sep) [] (ml_line m))) f
              else (True, f))"

section \<open>Which line is found\<close>

text \<open>The first line in force that matches, else the first commented one.\<close>

definition in_force :: "regex \<Rightarrow> string \<Rightarrow> bool" where
  "in_force x l \<longleftrightarrow> rx_hits x l \<and> \<not> startswith l ''#''"

definition commented :: "regex \<Rightarrow> string \<Rightarrow> bool" where
  "commented x l \<longleftrightarrow> rx_hits x l \<and> startswith l ''#''"

lemma pam_content: "ml_content (fold (pam_scan x) ls m) = ml_content m @ put_lines ls"
  by (induction ls arbitrary: m) (simp_all add: pam_scan_def Let_def)

lemma scan_keep:
  assumes "ml_line m \<noteq> []" and "\<not> ml_comment m \<or> (\<forall>l \<in> set ls. \<not> in_force x l)"
  shows "ml_line (fold (pam_scan x) ls m) = ml_line m \<and> ml_pos (fold (pam_scan x) ls m) = ml_pos m
     \<and> ml_comment (fold (pam_scan x) ls m) = ml_comment m"
  using assms
proof (induction ls arbitrary: m)
  case (Cons l ls)
  from Cons.prems have "\<not> (rx_hits x l \<and> (ml_line m = [] \<or> \<not> startswith l ''#'' \<and> ml_comment m))" by (auto simp: in_force_def)
  then have "pam_scan x l m = m\<lparr>ml_content := ml_content m @ l @ [LF]\<rparr>" by (auto simp: pam_scan_def Let_def)
  with Cons.IH [of "pam_scan x l m"] Cons.prems show ?case by simp
qed simp

lemma scan_none:
  assumes "\<forall>l \<in> set ls. \<not> rx_hits x l"
  shows "ml_line (fold (pam_scan x) ls m) = ml_line m \<and> ml_comment (fold (pam_scan x) ls m) = ml_comment m"
  using assms by (induction ls arbitrary: m) (simp_all add: pam_scan_def)

text \<open>Between the first commented match and the first one in force only commented ones come.\<close>

lemma scan_commented:
  assumes "\<forall>l \<in> set ls. \<not> in_force x l" and "ml_line m = [] \<or> ml_comment m"
  shows "ml_line (fold (pam_scan x) ls m) = [] \<or> ml_comment (fold (pam_scan x) ls m)"
  using assms
proof (induction ls arbitrary: m)
  case (Cons l ls)
  have "ml_line (pam_scan x l m) = [] \<or> ml_comment (pam_scan x l m)" using Cons.prems by (auto simp: pam_scan_def in_force_def Let_def)
  with Cons show ?case by simp
qed simp

lemma getMatchLine_in_force:
  assumes "splitLines (locked_text f) = pre @ l # ms" and "in_force x l" and "l \<noteq> []" and "\<forall>y \<in> set pre. \<not> in_force x y"
  shows "ml_line (getMatchLine x f) = l \<and> \<not> ml_comment (getMatchLine x f) \<and> ml_content (getMatchLine x f) = put_lines (pre @ l # ms)
     \<and> ml_pos (getMatchLine x f) = length (put_lines pre)"
proof -
  let ?m = "fold (pam_scan x) pre \<lparr>ml_content = [], ml_pos = 0, ml_line = [], ml_comment = False\<rparr>"
  have "ml_line ?m = [] \<or> ml_comment ?m" by (rule scan_commented [OF assms(4)]) simp
  then have "pam_scan x l ?m = \<lparr>ml_content = put_lines pre @ l @ [LF], ml_pos = length (put_lines pre), ml_line = l, ml_comment = False\<rparr>"
    using assms(2) pam_content [of x pre "\<lparr>ml_content = [], ml_pos = 0, ml_line = [], ml_comment = False\<rparr>"]
    by (auto simp: pam_scan_def in_force_def Let_def)
  then show ?thesis
    using scan_keep [of "pam_scan x l ?m" ms x] assms(3) by (simp add: getMatchLine_def assms(1) pam_content)
qed

lemma getMatchLine_commented:
  assumes "splitLines (locked_text f) = pre @ l # ms" and "commented x l" and "l \<noteq> []"
    and "\<forall>y \<in> set pre. \<not> rx_hits x y" and "\<forall>y \<in> set ms. \<not> in_force x y"
  shows "ml_line (getMatchLine x f) = l \<and> ml_comment (getMatchLine x f) \<and> ml_content (getMatchLine x f) = put_lines (pre @ l # ms)
     \<and> ml_pos (getMatchLine x f) = length (put_lines pre)"
proof -
  let ?m = "fold (pam_scan x) pre \<lparr>ml_content = [], ml_pos = 0, ml_line = [], ml_comment = False\<rparr>"
  have "ml_line ?m = []" using scan_none [OF assms(4)] by simp
  then have "pam_scan x l ?m = \<lparr>ml_content = put_lines pre @ l @ [LF], ml_pos = length (put_lines pre), ml_line = l, ml_comment = True\<rparr>"
    using assms(2) pam_content [of x pre "\<lparr>ml_content = [], ml_pos = 0, ml_line = [], ml_comment = False\<rparr>"]
    by (auto simp: pam_scan_def commented_def Let_def)
  then show ?thesis
    using scan_keep [of "pam_scan x l ?m" ms x] assms(3,5) by (simp add: getMatchLine_def assms(1) pam_content)
qed

lemma getMatchLine_none:
  assumes "\<forall>l \<in> set (splitLines (locked_text f)). \<not> rx_hits x l"
  shows "ml_line (getMatchLine x f) = []"
  using scan_none [OF assms] by (simp add: getMatchLine_def)

section \<open>Switching the line\<close>

definition file_lines :: "string option \<Rightarrow> string list" where
  "file_lines f = splitLines (locked_text f)"

lemma file_line: "ascii (locked_text f) \<Longrightarrow> l \<in> set (file_lines f) \<Longrightarrow> plain_line l \<and> ascii l"
  unfolding file_lines_def using splitLines_plain ascii_splitLines by blast

lemma first_match:
  assumes "filter P ls = l # xs"
  shows "\<exists>pre ms. ls = pre @ l # ms \<and> P l \<and> (\<forall>y \<in> set pre. \<not> P y) \<and> filter P ms = xs"
  using assms by (auto simp: filter_eq_Cons_iff)

lemma getLine_first:
  assumes "fe_lock env" and "f \<noteq> None" and "\<not> rx_hits x []"
  shows "getLine env x f = (True, case filter (in_force x) (file_lines f) of [] \<Rightarrow> [] | l # _ \<Rightarrow> l)"
proof (cases "filter (in_force x) (file_lines f)")
  case Nil
  have "ml_line (getMatchLine x f) = [] \<or> ml_comment (getMatchLine x f)"
    unfolding getMatchLine_def by (rule scan_commented) (use Nil in \<open>auto simp: file_lines_def filter_empty_conv\<close>)
  with Nil assms(1,2) show ?thesis by (auto simp: getLine_def Let_def)
next
  case (Cons l ls)
  from first_match [OF Cons] obtain pre ms where parts: "file_lines f = pre @ l # ms" "in_force x l" "\<forall>y \<in> set pre. \<not> in_force x y"
    by blast
  have "l \<noteq> []" using parts(2) assms(3) by (auto simp: in_force_def)
  with getMatchLine_in_force [OF parts(1) [unfolded file_lines_def] parts(2) _ parts(3)] Cons assms(1,2)
  show ?thesis by (auto simp: getLine_def Let_def)
qed

lemma written_lines:
  assumes "fe_write env = Written" and "\<forall>l \<in> set ls. plain_line l \<and> ascii l"
  shows "\<exists>t. snd (writeContents env (put_lines ls) f) = Some t \<and> fst (writeContents env (put_lines ls) f)
    \<and> file_lines (Some t) = ls \<and> ascii t"
  using assms by (simp add: writeContents_def stored_ascii ascii_put_lines file_lines_def locked_text_def splitLines_put)

lemma pam_replace_line:
  "ml_content m = put_lines (pre @ l # ms) \<Longrightarrow> ml_pos m = length (put_lines pre) \<Longrightarrow> ml_line m = l
     \<Longrightarrow> pam_replace m x = put_lines (pre @ x # ms)"
  by (simp add: pam_replace_def)

lemma not_in_force_comment: "\<not> in_force x (''#'' @ l)"
  by (simp add: in_force_def startswith_prefix)

text \<open>Deleting the line comments out the first one in force: of the lines in force that match the first is gone and
  the others stay, so the next of them, or none, is the line from then on.\<close>

theorem pam_delLine:
  assumes "fe_lock env" and "fe_write env = Written" and "ascii (locked_text f)" and "\<not> rx_hits x []"
  shows "\<exists>t. delLine env x f = (True, Some t)
     \<and> filter (in_force x) (file_lines (Some t)) = tl (filter (in_force x) (file_lines f))
     \<and> getLine env x (Some t) = (True, case tl (filter (in_force x) (file_lines f)) of [] \<Rightarrow> [] | l # _ \<Rightarrow> l)"
proof -
  have "\<exists>t. delLine env x f = (True, Some t) \<and> filter (in_force x) (file_lines (Some t)) = tl (filter (in_force x) (file_lines f))"
  proof (cases "filter (in_force x) (file_lines f)")
    case Nil
    have "ml_line (getMatchLine x f) = [] \<or> ml_comment (getMatchLine x f)"
      unfolding getMatchLine_def by (rule scan_commented) (use Nil in \<open>auto simp: file_lines_def filter_empty_conv\<close>)
    then have "delLine env x f = (True, Some (locked_text f))" using assms(1) by (auto simp: delLine_def Let_def)
    with Nil show ?thesis by (simp add: file_lines_def locked_text_def)
  next
    case (Cons l xs)
    from first_match [OF Cons] obtain pre ms where parts: "file_lines f = pre @ l # ms" "in_force x l" "\<forall>y \<in> set pre. \<not> in_force x y"
      and rest: "filter (in_force x) ms = xs" by blast
    have ne: "l \<noteq> []" using parts(2) assms(4) by (auto simp: in_force_def)
    note m = getMatchLine_in_force [OF parts(1) [unfolded file_lines_def] parts(2) ne parts(3)]
    have new: "\<forall>y \<in> set (pre @ (''#'' @ l) # ms). plain_line y \<and> ascii y"
      using file_line [OF assms(3)] parts(1) by (auto simp: plain_line_def)
    have "delLine env x f = (True, snd (writeContents env (put_lines (pre @ (''#'' @ l) # ms)) (Some (locked_text f))))"
      using assms(1) m ne pam_replace_line [of "getMatchLine x f" pre l ms "''#'' @ l"] by (simp add: delLine_def)
    moreover obtain t where "snd (writeContents env (put_lines (pre @ (''#'' @ l) # ms)) (Some (locked_text f))) = Some t"
      "file_lines (Some t) = pre @ (''#'' @ l) # ms" using written_lines [OF assms(2) new] by blast
    moreover have "filter (in_force x) (pre @ (''#'' @ l) # ms) = xs"
      using parts(3) rest not_in_force_comment [of x l] by (auto simp: filter_empty_conv)
    ultimately show ?thesis using Cons by simp
  qed
  then show ?thesis using getLine_first [OF assms(1) _ assms(4)] by fastforce
qed

lemma behind_keep:
  assumes "ml_line m \<noteq> []"
  shows "fold (behind_scan fb nx) ls m = m\<lparr>ml_content := ml_content m @ put_lines ls\<rparr>"
  using assms
proof (induction ls arbitrary: m)
  case (Cons l ls)
  from Cons.prems have "behind_scan fb nx l m = m\<lparr>ml_content := ml_content m @ l @ [LF]\<rparr>" by (simp add: behind_scan_def)
  with Cons.IH [of "behind_scan fb nx l m"] Cons.prems show ?case by simp
qed simp

lemma behind_none:
  assumes "\<forall>l \<in> set ls. \<not> rx_hits nx l"
  shows "fold (behind_scan fb nx) ls m = m\<lparr>ml_content := ml_content m @ put_lines ls\<rparr>"
  using assms
proof (induction ls arbitrary: m)
  case (Cons l ls)
  from Cons.prems have "behind_scan fb nx l m = m\<lparr>ml_content := ml_content m @ l @ [LF]\<rparr>" by (simp add: behind_scan_def)
  with Cons.IH [of "behind_scan fb nx l m"] Cons.prems show ?case by simp
qed simp

lemma addBehind_lines:
  assumes "\<not> rx_hits nx []"
  shows "ml_content (addBehind fb nx f) = put_lines (case filter (rx_hits nx) (file_lines f) of [] \<Rightarrow> file_lines f
     | l # _ \<Rightarrow> takeWhile (\<lambda>y. \<not> rx_hits nx y) (file_lines f) @ fb # dropWhile (\<lambda>y. \<not> rx_hits nx y) (file_lines f))"
proof (cases "filter (rx_hits nx) (file_lines f)")
  case Nil
  then have "\<forall>l \<in> set (file_lines f). \<not> rx_hits nx l" by (simp add: filter_empty_conv)
  from behind_none [OF this, of fb] Nil show ?thesis by (simp add: addBehind_def file_lines_def)
next
  case (Cons l xs)
  from first_match [OF Cons] obtain pre ms where parts: "file_lines f = pre @ l # ms" "rx_hits nx l" "\<forall>y \<in> set pre. \<not> rx_hits nx y"
    by blast
  have ne: "l \<noteq> []" using parts(2) assms by auto
  let ?m = "\<lparr>ml_content = [], ml_pos = 0, ml_line = [], ml_comment = False\<rparr>"
  have cut: "takeWhile (\<lambda>y. \<not> rx_hits nx y) (file_lines f) = pre" "dropWhile (\<lambda>y. \<not> rx_hits nx y) (file_lines f) = l # ms"
    using parts by (simp_all add: takeWhile_append dropWhile_append)
  have "fold (behind_scan fb nx) (pre @ l # ms) ?m = fold (behind_scan fb nx) ms (behind_scan fb nx l (?m\<lparr>ml_content := put_lines pre\<rparr>))"
    using behind_none [OF parts(3), of fb ?m] by simp
  moreover have "behind_scan fb nx l (?m\<lparr>ml_content := put_lines pre\<rparr>) =
      \<lparr>ml_content = put_lines (pre @ [fb, l]), ml_pos = length (put_lines (pre @ [fb])), ml_line = l, ml_comment = False\<rparr>"
    using parts(2) by (simp add: behind_scan_def Let_def)
  ultimately have "ml_content (fold (behind_scan fb nx) (pre @ l # ms) ?m) = put_lines (pre @ fb # l # ms)"
    using behind_keep [of _ fb nx ms] ne by simp
  then have "ml_content (addBehind fb nx f) = put_lines (pre @ fb # l # ms)"
    unfolding addBehind_def parts(1) [unfolded file_lines_def] .
  then show ?thesis by (simp only: Cons list.case cut)
qed

lemma addLine_commented:
  assumes "fe_lock env" and "fe_write env = Written" and "ascii (locked_text f)" and "\<not> rx_hits x []"
    and "filter (in_force x) (file_lines f) = []" and "filter (rx_hits x) (file_lines f) = l # xs"
  shows "\<exists>t. addLine env x fb nx f = (True, Some t)
     \<and> filter (in_force x) (file_lines (Some t)) = (if in_force x (drop 1 l) then [drop 1 l] else [])"
proof -
  from first_match [OF assms(6)] obtain pre ms where parts: "file_lines f = pre @ l # ms" "rx_hits x l" "\<forall>y \<in> set pre. \<not> rx_hits x y"
    by blast
  have ne: "l \<noteq> []" using parts(2) assms(4) by auto
  have none: "\<forall>y \<in> set pre. \<not> in_force x y" "\<forall>y \<in> set ms. \<not> in_force x y" "\<not> in_force x l"
    using assms(5) unfolding filter_empty_conv parts(1) by simp_all
  then have com: "commented x l" using parts(2) by (simp add: in_force_def commented_def)
  note m = getMatchLine_commented [OF parts(1) [unfolded file_lines_def] com ne parts(3) none(2)]
  have new: "\<forall>y \<in> set (pre @ drop 1 l # ms). plain_line y \<and> ascii y"
    using file_line [OF assms(3)] parts(1) by (auto simp: plain_line_def ascii_def dest: in_set_dropD)
  have "addLine env x fb nx f = (True, snd (writeContents env (put_lines (pre @ drop 1 l # ms)) (Some (locked_text f))))"
    using assms(1) m ne pam_replace_line [of "getMatchLine x f" pre l ms "drop 1 l"] by (simp add: addLine_def)
  moreover obtain t where "snd (writeContents env (put_lines (pre @ drop 1 l # ms)) (Some (locked_text f))) = Some t"
    "file_lines (Some t) = pre @ drop 1 l # ms" using written_lines [OF assms(2) new] by blast
  moreover have "filter (in_force x) (pre @ drop 1 l # ms) = (if in_force x (drop 1 l) then [drop 1 l] else [])"
    using none(1,2) by (simp add: filter_empty_conv)
  ultimately show ?thesis by simp
qed

lemma addLine_new:
  assumes "fe_lock env" and "fe_write env = Written" and "ascii (locked_text f)" and "plain_line fb" and "ascii fb"
    and "\<not> rx_hits nx []" and "filter (rx_hits x) (file_lines f) = []"
  shows "\<exists>t. addLine env x fb nx f = (True, Some t) \<and> filter (in_force x) (file_lines (Some t)) =
     (if fb \<noteq> [] \<and> filter (rx_hits nx) (file_lines f) \<noteq> [] \<and> in_force x fb then [fb] else [])"
proof -
  let ?ls = "file_lines f" and ?P = "\<lambda>y. \<not> rx_hits nx y"
  have miss: "\<forall>l \<in> set ?ls. \<not> rx_hits x l" using assms(7) by (simp add: filter_empty_conv)
  then have line: "ml_line (getMatchLine x f) = []" using getMatchLine_none unfolding file_lines_def by blast
  have none: "filter (in_force x) ?ls = []" using miss by (simp add: filter_empty_conv in_force_def)
  have cut: "filter (in_force x) (takeWhile ?P ?ls) = []" "filter (in_force x) (dropWhile ?P ?ls) = []"
    using miss by (auto simp: filter_empty_conv in_force_def dest: set_takeWhileD set_dropWhileD)
  let ?new = "case filter (rx_hits nx) ?ls of [] \<Rightarrow> ?ls | l # _ \<Rightarrow> takeWhile ?P ?ls @ fb # dropWhile ?P ?ls"
  have new: "\<forall>y \<in> set ?new. plain_line y \<and> ascii y"
    using file_line [OF assms(3)] assms(4,5) by (auto split: list.split dest: set_takeWhileD set_dropWhileD)
  have same: "addBehind fb nx (Some (locked_text f)) = addBehind fb nx f" by (simp add: addBehind_def locked_text_def)
  show ?thesis
  proof (cases "fb = []")
    case True
    then have "addLine env x fb nx f = (True, Some (locked_text f))" using assms(1) line by (simp add: addLine_def)
    then show ?thesis using True none by (simp add: file_lines_def locked_text_def)
  next
    case False
    then have "addLine env x fb nx f = (True, snd (writeContents env (put_lines ?new) (Some (locked_text f))))"
      using assms(1) line addBehind_lines [OF assms(6), of fb f] same by (simp add: addLine_def Let_def)
    moreover obtain t where "snd (writeContents env (put_lines ?new) (Some (locked_text f))) = Some t" "file_lines (Some t) = ?new"
      using written_lines [OF assms(2) new] by blast
    moreover have "filter (in_force x) ?new = (if filter (rx_hits nx) ?ls \<noteq> [] \<and> in_force x fb then [fb] else [])"
      using cut none by (simp split: list.split)
    ultimately show ?thesis using False by auto
  qed
qed


section \<open>At concrete inputs\<close>

definition sample_pam_env :: file_env where
  "sample_pam_env = \<lparr>fe_lock = True, fe_write = Written\<rparr>"

definition rx_text :: "string \<Rightarrow> regex" where
  "rx_text t b s = (if prefix t s then [(length t, [])] else [])"

lemma hits_text: "t \<noteq> [] \<Longrightarrow> \<not> rx_hits (rx_text t) []"
  by (simp add: rx_hits_def rx_text_def rx_find.simps rx_at_def)

lemma sample_pam_lines: "file_lines (Some ''auth a.so'') = [''auth a.so'']"
  by (simp add: file_lines_def locked_text_def splitLines_def)

lemma sample_hits: "rx_hits (rx_text ''a.so'') ''auth a.so''" "in_force (rx_text ''a.so'') ''auth a.so''"
  by (simp_all add: in_force_def rx_hits_def rx_text_def rx_find.simps rx_at_def startswith_def)

theorem pam_delLine_witness:
  "\<exists>t. delLine sample_pam_env (rx_text ''a.so'') (Some ''auth a.so'') = (True, Some t)
     \<and> getLine sample_pam_env (rx_text ''a.so'') (Some t) = (True, [])"
  using pam_delLine [of sample_pam_env "Some ''auth a.so''" "rx_text ''a.so''"] hits_text [of "''a.so''"] sample_pam_lines sample_hits
  by (auto simp: sample_pam_env_def locked_text_def)


end
