(* ===== verification/ConfigTable.thy ===== *)
theory ConfigTable
  imports ConfigKV ConfigPam
begin

text \<open>
  \<open>src/tool/config/table.cpp\<close>, files whose lines are rows of a table, and the command line on top of the three
  editors, \<open>src/tool/config/cmd-parser.cpp\<close>. \<open>None\<close> is a column index out of range.
\<close>

section \<open>Columns\<close>

text \<open>\<open>toLong\<close> and the cast to 32 bits.\<close>

definition toLong :: "string \<Rightarrow> int" where
  "toLong s =
     (let t = trimmed s;
          neg = (take 1 t = ''-'');
          body = (if neg \<or> take 1 t = ''+'' then drop 1 t else t);
          v = (case parse_nat 10 body of None \<Rightarrow> 0 | Some n \<Rightarrow> (if neg then - int n else int n))
      in if - 9223372036854775808 \<le> v \<and> v \<le> 9223372036854775807 then v else 0)"

definition int32_of :: "int \<Rightarrow> int" where
  "int32_of v = (v + 2147483648) mod 4294967296 - 2147483648"

definition str2cols :: "string \<Rightarrow> (int \<times> string) list" where
  "str2cols str =
     List.map_filter (\<lambda>field. case indexOf field ''='' of
         None \<Rightarrow> None
       | Some pos \<Rightarrow> Some (int32_of (toLong (take pos field)), drop (pos + 1) field))
       (splitWithChar str (CHR '';'') False)"

fun cols_match :: "(int \<times> string) list \<Rightarrow> string list \<Rightarrow> bool option" where
  "cols_match [] fds = Some True"
| "cols_match ((i, v) # cols) fds =
     (if i - 1 \<ge> int (length fds) then Some False
      else if i - 1 < 0 then None
      else if v \<noteq> fds ! nat (i - 1) then Some False
      else cols_match cols fds)"

section \<open>The editor\<close>

text \<open>Without a separator a line is one column.\<close>

definition tb_fields :: "regex option \<Rightarrow> string \<Rightarrow> string list" where
  "tb_fields sep trim_line = (case sep of None \<Rightarrow> [trim_line] | Some sep \<Rightarrow> rx_split sep trim_line)"

definition tb_skipped :: "string \<Rightarrow> bool" where
  "tb_skipped l \<longleftrightarrow> trim l = [] \<or> hd (trim l) = CHR ''#''"

fun tb_get_loop :: "(string list \<Rightarrow> bool option) \<Rightarrow> regex option \<Rightarrow> string list \<Rightarrow> string option" where
  "tb_get_loop pred sep [] = Some []"
| "tb_get_loop pred sep (l # ls) =
     (if tb_skipped l then tb_get_loop pred sep ls
      else case pred (tb_fields sep (trim l)) of
             None \<Rightarrow> None
           | Some m \<Rightarrow> if m then Some l else tb_get_loop pred sep ls)"

definition tb_get :: "file_env \<Rightarrow> (string list \<Rightarrow> bool option) \<Rightarrow> regex option \<Rightarrow> string option \<Rightarrow> (bool \<times> string) option" where
  "tb_get env pred sep f =
     (if f = None then Some (True, [])
      else case readContentsWithLock env f of
             None \<Rightarrow> Some (False, [])
           | Some contents \<Rightarrow> map_option (Pair True) (tb_get_loop pred sep (splitLines contents)))"

fun tb_set_loop :: "(string list \<Rightarrow> bool option) \<Rightarrow> regex option \<Rightarrow> string \<Rightarrow> string \<Rightarrow> bool \<Rightarrow> string list \<Rightarrow> (string \<times> bool) option" where
  "tb_set_loop pred sep newline new_contents has_matched [] = Some (new_contents, has_matched)"
| "tb_set_loop pred sep newline new_contents has_matched (l # ls) =
     (if tb_skipped l then tb_set_loop pred sep newline (new_contents @ l @ [LF]) has_matched ls
      else case pred (tb_fields sep (trim l)) of
             None \<Rightarrow> None
           | Some m \<Rightarrow>
               if \<not> m \<or> has_matched then tb_set_loop pred sep newline (new_contents @ l @ [LF]) has_matched ls
               else if newline \<noteq> [] then tb_set_loop pred sep newline (new_contents @ newline @ [LF]) True ls
               else tb_set_loop pred sep newline new_contents has_matched ls)"

definition tb_set :: "file_env \<Rightarrow> (string list \<Rightarrow> bool option) \<Rightarrow> regex option \<Rightarrow> string \<Rightarrow> string option \<Rightarrow> (bool \<times> string option) option" where
  "tb_set env pred sep newline f =
     (if \<not> fe_lock env then Some (False, f)
      else case tb_set_loop pred sep newline [] False (splitLines (locked_text f)) of
             None \<Rightarrow> None
           | Some (new_contents, has_matched) \<Rightarrow>
               Some (writeContents env
                 (if \<not> has_matched \<and> newline \<noteq> [] then new_contents @ newline @ [LF] else new_contents) (Some (locked_text f))))"

definition tb_del :: "file_env \<Rightarrow> (string list \<Rightarrow> bool option) \<Rightarrow> regex option \<Rightarrow> string option \<Rightarrow> (bool \<times> string option) option" where
  "tb_del env pred sep f = tb_set env pred sep [] f"

section \<open>The command line\<close>

record options =
  o_type :: string
  o_method :: string
  o_key :: string
  o_value :: string
  o_line_match_pattern :: string
  o_split_pattern :: string
  o_join_str :: string
  o_comment :: string
  o_new_line :: string
  o_next_line_match_pattern :: string

text \<open>What is printed, whether the method succeeded, and the file; a method nobody knows fails.\<close>

definition sep_of :: "(string \<Rightarrow> regex) \<Rightarrow> string \<Rightarrow> regex option" where
  "sep_of re p = (if p = [] then None else Some (re p))"

definition processKv :: "file_env \<Rightarrow> (string \<Rightarrow> regex) \<Rightarrow> options \<Rightarrow> string option \<Rightarrow> string list \<times> bool \<times> string option" where
  "processKv env re opts f =
     (let kv = KV re (o_split_pattern opts) (o_join_str opts) (o_comment opts)
      in if o_method opts = ''GETVAL''
         then let (ok, v) = kv_get env kv (o_key opts) f in (if ok then [v] else [], ok, f)
         else if o_method opts = ''SETVAL'' then ([], kv_set env kv (o_key opts) (o_value opts) f)
         else if o_method opts = ''SETVALALL'' then ([], kv_setAll env kv (o_key opts) (o_value opts) f)
         else if o_method opts = ''DELVAL'' then ([], kv_del env kv (o_key opts) f)
         else ([], False, f))"

definition processPam :: "file_env \<Rightarrow> (string \<Rightarrow> regex) \<Rightarrow> options \<Rightarrow> string option \<Rightarrow> (string list \<times> bool \<times> string option) option" where
  "processPam env re opts f =
     (let x = re (o_line_match_pattern opts); key = re (o_key opts); sep = sep_of re (o_split_pattern opts)
      in if o_method opts = ''GETVAL''
         then (case getValue env x key sep f of
                 (ok, None) \<Rightarrow> None
               | (ok, Some v) \<Rightarrow> Some (if ok then [v] else [], ok, f))
         else if o_method opts = ''SETVAL''
         then Some ([], setValue env x key (o_key opts) sep (o_value opts) (o_join_str opts) f)
         else if o_method opts = ''DELVAL'' then Some ([], delValue env x key sep f)
         else if o_method opts = ''SETLINE'' then Some ([], addLine env x (o_new_line opts) (re (o_next_line_match_pattern opts)) f)
         else if o_method opts = ''DELLINE'' then Some ([], delLine env x f)
         else if o_method opts = ''GETLINE''
         then Some (let (ok, l) = getLine env x f in (if ok then [l] else [], ok, f))
         else Some ([], False, f))"

definition processTable :: "file_env \<Rightarrow> (string \<Rightarrow> regex) \<Rightarrow> options \<Rightarrow> string option \<Rightarrow> (string list \<times> bool \<times> string option) option" where
  "processTable env re opts f =
     (let pred = cols_match (str2cols (o_key opts)); sep = sep_of re (o_split_pattern opts)
      in if o_method opts = ''GETVAL''
         then map_option (\<lambda>(ok, v). (if ok then [v] else [], ok, f)) (tb_get env pred sep f)
         else if o_method opts = ''SETVAL'' then map_option (Pair []) (tb_set env pred sep (o_value opts) f)
         else if o_method opts = ''DELVAL'' then map_option (Pair []) (tb_del env pred sep f)
         else Some ([], False, f))"

text \<open>The exit code is that of the method; a missing or unknown type fails without touching the file.\<close>

definition config_run :: "file_env \<Rightarrow> (string \<Rightarrow> regex) \<Rightarrow> options \<Rightarrow> string option \<Rightarrow> (string list \<times> bool \<times> string option) option" where
  "config_run env re opts f =
     (if o_type opts = [] then Some ([], False, f)
      else if o_type opts = ''KV'' then Some (processKv env re opts f)
      else if o_type opts = ''PAM'' then processPam env re opts f
      else if o_type opts = ''TABLE'' then processTable env re opts f
      else Some ([], False, f))"

section \<open>Rows\<close>

text \<open>The rows a total predicate selects.\<close>

definition tb_row :: "(string list \<Rightarrow> bool option) \<Rightarrow> regex option \<Rightarrow> string \<Rightarrow> bool" where
  "tb_row pred sep l \<longleftrightarrow> \<not> tb_skipped l \<and> pred (tb_fields sep (trim l)) = Some True"

lemma cols_match_total: "\<forall>(i, v) \<in> set cols. 1 \<le> i \<Longrightarrow> cols_match cols fds \<noteq> None"
  by (induction cols fds rule: cols_match.induct) auto

lemma get_loop_find:
  assumes "\<forall>fs. pred fs \<noteq> None"
  shows "tb_get_loop pred sep ls = Some (case filter (tb_row pred sep) ls of [] \<Rightarrow> [] | l # _ \<Rightarrow> l)"
proof (induction ls)
  case (Cons l ls)
  obtain m where "pred (tb_fields sep (trim l)) = Some m" using assms by blast
  with Cons show ?case by (auto simp: tb_row_def)
qed simp

text \<open>The lines a replacement or a deletion leaves.\<close>

fun tb_lines :: "(string \<Rightarrow> bool) \<Rightarrow> string \<Rightarrow> bool \<Rightarrow> string list \<Rightarrow> string list" where
  "tb_lines P newline has [] = (if newline \<noteq> [] \<and> \<not> has then [newline] else [])"
| "tb_lines P newline has (l # ls) =
     (if P l \<and> \<not> has then (if newline \<noteq> [] then newline # ls else tb_lines P newline has ls) else l # tb_lines P newline has ls)"

lemma tb_lines_delete: "tb_lines P [] False ls = filter (\<lambda>l. \<not> P l) ls"
  by (induction ls) auto

lemma tb_lines_replace: "newline \<noteq> [] \<Longrightarrow> tb_lines P newline False ls = takeWhile (\<lambda>l. \<not> P l) ls @ newline # tl (dropWhile (\<lambda>l. \<not> P l) ls)"
  by (induction ls) auto

lemma tb_lines_done: "tb_lines P newline True ls = ls"
  by (induction ls) auto

lemma tb_lines_elem: "y \<in> set (tb_lines P newline has ls) \<Longrightarrow> y \<in> set ls \<or> y = newline"
  by (induction ls) (auto split: if_splits)

lemma set_loop_lines:
  assumes "\<forall>fs. pred fs \<noteq> None"
  shows "\<exists>c b. tb_set_loop pred sep newline (put_lines pre) has ls = Some (c, b)
     \<and> (if \<not> b \<and> newline \<noteq> [] then c @ newline @ [LF] else c) = put_lines (pre @ tb_lines (tb_row pred sep) newline has ls)"
proof (induction ls arbitrary: pre has)
  case (Cons l ls)
  obtain m where m: "pred (tb_fields sep (trim l)) = Some m" using assms by blast
  consider (keep) "\<not> tb_row pred sep l \<or> has" | (put) "tb_row pred sep l" "\<not> has" "newline \<noteq> []"
    | (cut) "tb_row pred sep l" "\<not> has" "newline = []" by blast
  then show ?case
  proof cases
    case keep
    with m have "tb_set_loop pred sep newline (put_lines pre) has (l # ls) = tb_set_loop pred sep newline (put_lines (pre @ [l])) has ls"
      by (auto simp: tb_row_def)
    with Cons.IH [of "pre @ [l]" has] keep show ?thesis by auto
  next
    case put
    with m have "tb_set_loop pred sep newline (put_lines pre) has (l # ls) = tb_set_loop pred sep newline (put_lines (pre @ [newline])) True ls"
      by (auto simp: tb_row_def)
    with Cons.IH [of "pre @ [newline]" True] put show ?thesis by (auto simp: tb_lines_done)
  next
    case cut
    with m have "tb_set_loop pred sep newline (put_lines pre) has (l # ls) = tb_set_loop pred sep newline (put_lines pre) has ls"
      by (auto simp: tb_row_def)
    with Cons.IH [of pre has] cut show ?thesis by auto
  qed
qed simp

text \<open>C34: With columns numbered from one, setting a row replaces the first selected row by the new line, or appends it
  when there is none, and keeps every other line where it is; the new line is what is read then, when it is itself
  selected. Deleting removes every selected row and nothing else. The file is rewritten as lines.\<close>

theorem table_rows:
  assumes "fe_lock env" and "fe_write env = Written" and "ascii (locked_text f)"
    and "\<forall>(i, v) \<in> set cols. 1 \<le> i" and "newline \<noteq> []" and "plain_line newline" and "ascii newline"
  shows "\<exists>t u. tb_set env (cols_match cols) sep newline f = Some (True, Some t)
     \<and> file_lines (Some t) = takeWhile (\<lambda>l. \<not> tb_row (cols_match cols) sep l) (file_lines f) @ newline
         # tl (dropWhile (\<lambda>l. \<not> tb_row (cols_match cols) sep l) (file_lines f))
     \<and> (tb_row (cols_match cols) sep newline \<longrightarrow> tb_get env (cols_match cols) sep (Some t) = Some (True, newline))
     \<and> tb_del env (cols_match cols) sep f = Some (True, Some u)
     \<and> file_lines (Some u) = filter (\<lambda>l. \<not> tb_row (cols_match cols) sep l) (file_lines f)
     \<and> tb_get env (cols_match cols) sep (Some u) = Some (True, [])"
proof -
  let ?p = "cols_match cols" and ?row = "tb_row (cols_match cols) sep"
  have total: "\<forall>fs. ?p fs \<noteq> None" using cols_match_total [OF assms(4)] by blast
  have set: "\<exists>t. tb_set env ?p sep x f = Some (True, Some t) \<and> file_lines (Some t) = tb_lines ?row x False (file_lines f)"
    if "plain_line x" "ascii x" for x
  proof -
    have "\<forall>y \<in> set (tb_lines ?row x False (file_lines f)). plain_line y \<and> ascii y"
      using tb_lines_elem file_line [OF assms(3)] that by blast
    from written_lines [OF assms(2) this, of "Some (locked_text f)"] obtain t where
      t: "writeContents env (put_lines (tb_lines ?row x False (file_lines f))) (Some (locked_text f)) = (True, Some t)"
      "file_lines (Some t) = tb_lines ?row x False (file_lines f)" by (auto simp: prod_eq_iff)
    from set_loop_lines [OF total, of sep x "[]" False "file_lines f"] obtain c b where
      "tb_set_loop ?p sep x [] False (splitLines (locked_text f)) = Some (c, b)"
      "(if \<not> b \<and> x \<noteq> [] then c @ x @ [LF] else c) = put_lines (tb_lines ?row x False (file_lines f))"
      by (auto simp: file_lines_def)
    with t assms(1) show ?thesis by (simp only: tb_set_def) simp
  qed
  have get: "tb_get env ?p sep (Some t) = Some (True, case filter ?row (file_lines (Some t)) of [] \<Rightarrow> [] | l # _ \<Rightarrow> l)" for t
    using assms(1) get_loop_find [OF total, of sep "splitLines t"] by (simp add: tb_get_def readContentsWithLock_def file_lines_def locked_text_def)
  obtain t where t: "tb_set env ?p sep newline f = Some (True, Some t)" "file_lines (Some t) = tb_lines ?row newline False (file_lines f)"
    using set [OF assms(6,7)] by blast
  obtain u where u: "tb_del env ?p sep f = Some (True, Some u)" "file_lines (Some u) = tb_lines ?row [] False (file_lines f)"
    using set [of "[]"] by (auto simp: tb_del_def plain_line_def)
  have "filter ?row (takeWhile (\<lambda>l. \<not> ?row l) ls) = []" for ls by (auto simp: filter_empty_conv dest: set_takeWhileD)
  then show ?thesis
    using t u get [of t] get [of u] assms(5) by (auto simp: tb_lines_replace tb_lines_delete filter_empty_conv)
qed

text \<open>A column that is no positive number is read before the first field.\<close>

lemma column_zero: "i \<le> 0 \<Longrightarrow> cols_match ((i, v) # cols) fds = None"
  by simp

theorem table_rows_witness:
  "\<exists>t. tb_set sample_pam_env (cols_match [(1, ''a'')]) (Some rx_spaces1) ''a 2'' (Some ''a 1'') = Some (True, Some t)
     \<and> file_lines (Some t) = [''a 2'']"
proof -
  have lines: "file_lines (Some ''a 1'') = [''a 1'']" by (simp add: file_lines_def locked_text_def splitLines_def)
  have "two_fields ''a'' ''1'' ''a 1''"
    unfolding two_fields_def by (intro exI [of _ "[]"] exI [of _ "'' ''"], simp add: spaces_def word_def is_space_def)
  then have row: "tb_row (cols_match [(1, ''a'')]) (Some rx_spaces1) ''a 1''"
    using two_fields_split two_fields_trim by (auto simp: tb_row_def tb_skipped_def tb_fields_def)
  have args: "plain_line ''a 2''" "ascii ''a 2''" "ascii (locked_text (Some ''a 1''))"
    by (simp_all add: plain_line_def locked_text_def)
  show ?thesis
    using table_rows [of sample_pam_env "Some ''a 1''" "[(1, ''a'')]" "''a 2''" "Some rx_spaces1"] args row
    by (auto simp: sample_pam_env_def lines)
qed

end
