(* ===== verification/Spec2Isabelle.thy ===== *)
theory Spec2Isabelle
  imports BRScanPage LogFiles LogViewer MultiFactor DmDBus BoxManager BRSystem ToolSystem RealTime KssSystem ConfigTable
begin

text \<open>
  Verification of ks-ssr, the security hardening service of KylinSec. A root daemon owns the state of the
  host (accounts, devices, private boxes, the reinforcement baseline, the tool box, the trusted
  protection, the audit log) and offers it over D-Bus; the user interface and a command line tool that edits
  configuration files are its clients. This root theory imports every other one; each property stands
  beside the definitions it is about, under its id \<open>C1\<close> to \<open>C40\<close>.

  \<^bold>\<open>How the program is modelled.\<close> A class is a record with the names of its members, a method is a function
  that takes the state and returns it changed, with the early returns of the source as branches. The records of the
  daemon extend each other: \<open>daemon\<close> (who is logged in, the log, the clock, the effects) is the common part
  and \<open>br\<close>, \<open>dm\<close>, \<open>bm\<close>, \<open>tb\<close>, \<open>ks\<close> add a component. What leaves the process (a D-Bus reply, a signal, a program that is
  run, a write to sysfs) is appended to \<open>d_effects\<close>. Where the source would crash (a null pointer, a list read
  past its end) the result is \<open>None\<close>. Code that is not in the repository is an argument: the answers of the data
  base, of programs, of polkit's agent, of the file system, of XML and JSON readers, of regular expressions and
  of the libraries for devices and audit records. They are collected in a record per component (\<open>log_env\<close>, \<open>acc_env\<close>, \<open>dm_env\<close>, \<open>box_env\<close>,
  \<open>br_env\<close>, \<open>brd_env\<close>, \<open>tb_env\<close>, \<open>kss_env\<close>, \<open>page_env\<close>), and no law about them is assumed except as a premise of the
  theorem that needs it. Concurrency (threads of the pool, timers, answers of polkit, clients) is a list of events in any order, run by
  \<open>run\<close>, or a step relation.

  \<^bold>\<open>The theories.\<close>
  \<^item> \<open>Prelude\<close>: shared lemmas, \<open>run\<close> and the contract \<open>step_invariant\<close>. \<open>QtCore\<close>: \<open>QString\<close>, \<open>QMap\<close>, \<open>QVariant\<close>,
    \<open>QSettings\<close>, and the contract \<open>keyed_store\<close>, interpreted for \<open>QMap\<close>. \<open>SsrTypes\<close>: the enumerations of \<open>include/\<close>.
  \<^item> Log (\<open>src/daemon/log\<close>): \<open>LogManager\<close> (line format, list in memory, writer thread, queries by page, with the contract
    \<open>paged_source\<close>) and \<open>LogFiles\<close> (numbered files, rotation by size and by timer, start-up). C3 to C5: no line is
    lost or reordered, what the timer removes, what a restart reads.
  \<^item> Clients and accounts (\<open>src/daemon/account\<close>): \<open>Daemon\<close> (who is logged in, audit lines), \<open>Account\<close> (login, lock-out, passwords;
    C1, C2, C7, C8), \<open>MultiFactor\<close> (the switch that edits two PAM files; C6).
  \<^item> Privileged calls (\<open>src/daemon/common/polkit-proxy.cpp\<close>): \<open>PolkitGate\<close>, a relation over requests in flight and
    the contract \<open>polkit_gate\<close>, interpreted for the devices, the tool box and the trusted protection (C9, C28, C29).
  \<^item> Devices (\<open>src/daemon/dm\<close>): \<open>DmConfig\<close> (settings, udev rules, boot loader thread; C13, C14), \<open>UsbDevice\<close> (C11),
    \<open>DeviceManager\<close> (udev events, mounts, connection record; C15), \<open>DmDBus\<close> (the methods; C9, C10, C12).
  \<^item> Private boxes (\<open>src/daemon/private-box\<close>): \<open>PrivateBox\<close> (table, shell commands, a box) and \<open>BoxManager\<close> (the
    methods; C16, C17).
  \<^item> Baseline (\<open>src/daemon/br\<close>): \<open>BRRule\<close> (values and rules), \<open>BRPlugins\<close> (what is in use; C20), \<open>BRConfig\<close> (files and
    overlays; C21), \<open>BRJob\<close> (jobs on the thread pool of \<open>lib/base/thread-pool.cpp\<close>; C18, C19), \<open>BRDBus\<close> (the methods), \<open>BRProgress\<close> (what scans and
    fallbacks leave behind; C24, C25), \<open>BRSystem\<close> (the whole machine; C22, C23).
  \<^item> Tool box (\<open>src/daemon/tool-box\<close>): \<open>ToolBox\<close>, \<open>ToolShred\<close> (C26, C27), \<open>ToolSystem\<close> (C28), \<open>RealTime\<close> (alerts).
  \<^item> Trusted protection (\<open>src/daemon/kss\<close>): \<open>KSS\<close> (the shell behind it), \<open>KssDBus\<close>, \<open>KssSystem\<close> (C29 to C31).
  \<^item> Editor of configuration files (\<open>src/tool/config\<close>, \<open>lib/base\<close>): \<open>ConfigText\<close> (text, files, regular expressions; C35),
    \<open>ConfigKV\<close> (C32), \<open>ConfigPam\<close> (C33), \<open>ConfigTable\<close> (C34).
  \<^item> User interface (\<open>src/ui\<close>): \<open>Pagination\<close> (page selector; C37), \<open>LogViewer\<close> (log page run against the log
    manager; C36), \<open>BRItems\<close> (boxes of the list of reinforcements; C38), \<open>BRPage\<close> (what the page reads and sends; C39),
    \<open>BRScanPage\<close> (scans and their reports; C40).

  \<^bold>\<open>The lemmas.\<close> Most theories have three groups: frame and evaluation lemmas of the operations, used as simplification
  rules; an invariant with one preservation lemma per operation, joined by an interpretation of \<open>step_invariant\<close>
  into a statement about every run; and an equation of an operation with a simpler specification (\<open>log_page\<close> for
  the loop of \<open>GetLog\<close>, a descent for the loop of \<open>shredFile\<close>, \<open>click_spec\<close> for the signals of the boxes, \<open>changed_values\<close> for
  the counting loop of \<open>ssrSetReinforcement\<close>), from which the properties follow.
  Properties with hypotheses are applied to a sample by a theorem of the same name with \<open>_witness\<close>.

  \<^bold>\<open>Bounds and fuel.\<close> A box identifier is drawn at most five times, as in the source. A job needs at most three steps
  of its threads per operation (C19). Two further turns of the boot loader's thread leave nothing pending (C13). \<open>shred\<close>
  is called with batches of 100; the walk over directories ends by a multiset of ranks (C27). A signal of the tree of
  boxes sets off a chain of at most \<open>SIGNAL_DEPTH\<close> = 4 signals: C38 shows that the depth suffices. A row of page buttons has at least five
  places. At most ten numbered log files are configured for the theorem on rotation. The search of a regular expression splits
  the text at its first match and recurses on what is left, which is shorter.

  \<^bold>\<open>What is not modelled.\<close> The readings of the resource monitor (floating point), the interpreter of the Python plugins
  and the plugins themselves, the licence, encryption, painting and layout of the user interface, the pages that only show what
  a D-Bus method answers, the import and export of a strategy file, translations, and code generated from
  schemas. Machine integers are words where the source can wrap around (the
  counters and pages of the log, the switches that come over D-Bus); counters that a run cannot exhaust are \<open>nat\<close> or \<open>int\<close>.
  Texts are lists of code units; file names and database texts are taken to hold no quotation mark where the source
  pastes them into a command, and the places where the source relies on that are among the findings of the manifest.
\<close>

end
